(* ===== verification/Rec_Prelude.thy ===== *)
theory Rec_Prelude
  imports Main "HOL-Library.Word"
begin

text \<open>
  Shared vocabulary of the development: the C view of characters and integers (signed
  \<open>char\<close>, \<open>EOF\<close>, \<open>size_t\<close>), C strings, the decimal printing of \<open>size_t\<close> values that
  \<open>asprintf ("%zu")\<close> performs, and the generic list lemmas the components use.
\<close>

section \<open>Named collections\<close>

named_theorems cchar_simps \<open>conversions between bytes and C integers\<close>
named_theorems mset_defs \<open>definitions of the multi-set operations\<close>
named_theorems record_defs \<open>definitions of the record operations\<close>

section \<open>Characters and C integers\<close>

type_synonym size_t = "64 word"

text \<open>A function pointer is represented by the name of the C function; NULL is \<open>None\<close>.\<close>

type_synonym fnptr = "string option"

abbreviation (input) NL :: char where "NL \<equiv> CHR 0x0A"
abbreviation (input) TAB :: char where "TAB \<equiv> CHR 0x09"
abbreviation (input) NUL :: char where "NUL \<equiv> CHR 0x00"

definition EOF :: int where "EOF = -1"

text \<open>The value of a (signed) \<open>char\<close> after the integer promotions.\<close>

definition schar :: "char \<Rightarrow> int" where
  "schar c = (if of_char c < (128 :: int) then of_char c else of_char c - 256)"

text \<open>The value \<open>getc\<close> gives for a byte: an \<open>unsigned char\<close> converted to \<open>int\<close>.\<close>

definition uchar :: "char \<Rightarrow> int" where
  "uchar c = of_char c"

text \<open>The C cast \<open>(char) ci\<close>.\<close>

definition char_of_int :: "int \<Rightarrow> char" where
  "char_of_int ci = char_of (ci mod 256)"

text \<open>\<open>strdup\<close>: a copy up to the terminating NUL.\<close>

definition strdup :: "string \<Rightarrow> string" where
  "strdup s = takeWhile (\<lambda>c. c \<noteq> NUL) s"

definition cstring :: "string \<Rightarrow> bool" where
  "cstring s = list_all (\<lambda>c. c \<noteq> NUL) s"

section \<open>Decimal printing\<close>

definition digit_char :: "nat \<Rightarrow> char" where
  "digit_char d = char_of (48 + d)"

fun show_nat :: "nat \<Rightarrow> string" where
  "show_nat n = (if n < 10 then [digit_char n] else show_nat (n div 10) @ [digit_char (n mod 10)])"

declare show_nat.simps [simp del]

definition show_size :: "size_t \<Rightarrow> string" where
  "show_size w = show_nat (unat w)"

text \<open>\<open>asprintf ("%d")\<close>.\<close>

definition show_int :: "int \<Rightarrow> string" where
  "show_int n = (if n < 0 then CHR ''-'' # show_nat (nat (- n)) else show_nat (nat n))"

section \<open>Splitting a string at separators\<close>

text \<open>
  The strings successive calls of \<open>strsep\<close> return: the input is cut at every character of
  the separator set, and adjacent separators give empty strings.
\<close>

fun strsep_all :: "(char \<Rightarrow> bool) \<Rightarrow> string \<Rightarrow> string list" where
  "strsep_all sep [] = [[]]"
| "strsep_all sep (c # cs) =
     (if sep c then [] # strsep_all sep cs
      else (case strsep_all sep cs of [] \<Rightarrow> [[c]] | l # ls \<Rightarrow> (c # l) # ls))"

section \<open>Lemmas\<close>

lemma of_char_bounds: "0 \<le> (of_char c :: int)" "(of_char c :: int) < 256"
proof -
  have "(of_char c :: int) = of_char c mod 256" by simp
  then show "0 \<le> (of_char c :: int)" "(of_char c :: int) < 256"
    by (metis pos_mod_sign zero_less_numeral, metis pos_mod_bound zero_less_numeral)
qed

lemma char_of_int_uchar [simp, cchar_simps]: "char_of_int (uchar c) = c"
  by (simp add: char_of_int_def uchar_def)

lemma char_of_int_schar [simp, cchar_simps]: "char_of_int (schar c) = c"
proof -
  have "char_of ((of_char c - 256) mod 256 :: int) = char_of (of_char c mod 256 :: int)"
    by (simp only: minus_mod_self2)
  then have "char_of (of_char c - 256 :: int) = c"
    by (simp only: char_of_mod_256 char_of_char)
  then show ?thesis
    by (simp add: char_of_int_def schar_def)
qed

lemma uchar_not_EOF [simp, cchar_simps]: "uchar c \<noteq> EOF"
  using of_char_bounds [of c] by (simp add: uchar_def EOF_def)

lemma schar_EOF_iff [cchar_simps]: "schar c = EOF \<longleftrightarrow> c = CHR 0xFF"
proof -
  have "(of_char c :: int) = of_char (CHR 0xFF) \<longleftrightarrow> c = CHR 0xFF"
    by (rule of_char_eq_iff)
  then have "(of_char c :: int) = 255 \<longleftrightarrow> c = CHR 0xFF"
    by simp
  then show ?thesis
    using of_char_bounds [of c] by (auto simp: schar_def EOF_def)
qed

lemma strdup_id [simp]: "cstring s \<Longrightarrow> strdup s = s"
  by (simp add: strdup_def cstring_def list_all_iff takeWhile_eq_all_conv)

lemma cstring_strdup [simp]: "cstring (strdup s)"
  by (auto simp: strdup_def cstring_def list_all_iff dest: set_takeWhileD)

lemma cstring_Nil [simp]: "cstring []"
  by (simp add: cstring_def)

lemma cstring_Cons [simp]: "cstring (c # s) \<longleftrightarrow> c \<noteq> NUL \<and> cstring s"
  by (simp add: cstring_def)

lemma cstring_append [simp]: "cstring (s @ t) \<longleftrightarrow> cstring s \<and> cstring t"
  by (simp add: cstring_def)

lemma strsep_all_not_Nil [simp]: "strsep_all sep s \<noteq> []"
  by (induction s) (auto split: list.splits)

lemma strsep_all_no_sep: "list_all (\<lambda>c. \<not> sep c) s \<Longrightarrow> strsep_all sep s = [s]"
  by (induction s) auto

lemma strsep_all_append:
  "sep c \<Longrightarrow> strsep_all sep (s @ c # t) = strsep_all sep s @ strsep_all sep t"
proof (induction s)
  case (Cons d s)
  then show ?case by (cases "strsep_all sep s") auto
qed simp

lemma strsep_all_elems: "l \<in> set (strsep_all sep s) \<Longrightarrow> c \<in> set l \<Longrightarrow> c \<in> set s \<and> \<not> sep c"
  by (induction s arbitrary: l) (fastforce split: list.splits if_splits)+

end
