(* ===== verification/Rec_Field.thy ===== *)
theory Rec_Field
  imports Rec_Prelude
begin

text \<open>
  Fields (\<open>src/rec-field.c\<close>), comments (\<open>src/rec-comment.c\<close>) and the standard field names
  (\<open>src/rec-field-name.c\<close>). A \<open>rec_field\<close> has the members of \<open>struct rec_field_s\<close>; NULL
  members are \<open>None\<close>. Names and values are C strings, so setting one copies up to the NUL.
\<close>

section \<open>Fields\<close>

record rec_field =
  field_name :: string
  field_value :: string
  field_source :: "string option"
  field_location :: size_t
  field_location_str :: "string option"
  field_char_location :: size_t
  field_char_location_str :: "string option"
  field_mark :: int

definition rec_field_set_name :: "rec_field \<Rightarrow> string \<Rightarrow> rec_field" where
  "rec_field_set_name f n = f\<lparr>field_name := strdup n\<rparr>"

definition rec_field_set_value :: "rec_field \<Rightarrow> string \<Rightarrow> rec_field" where
  "rec_field_set_value f v = f\<lparr>field_value := strdup v\<rparr>"

definition rec_field_init :: rec_field where
  "rec_field_init =
     \<lparr>field_name = [], field_value = [], field_source = None, field_location = 0,
      field_location_str = None, field_char_location = 0, field_char_location_str = None,
      field_mark = 0\<rparr>"

definition rec_field_new :: "string \<Rightarrow> string \<Rightarrow> rec_field" where
  "rec_field_new n v = rec_field_set_value (rec_field_set_name rec_field_init n) v"

definition rec_field_dup :: "rec_field \<Rightarrow> rec_field" where
  "rec_field_dup f =
     (let new = rec_field_new (field_name f) (field_value f)
      in new\<lparr>field_location := field_location f,
             field_char_location := field_char_location f,
             field_mark := field_mark f,
             field_source := map_option strdup (field_source f),
             field_location_str := map_option strdup (field_location_str f),
             field_char_location_str := map_option strdup (field_char_location_str f)\<rparr>)"

definition rec_field_equal_p :: "rec_field \<Rightarrow> rec_field \<Rightarrow> bool" where
  "rec_field_equal_p f g = (field_name f = field_name g)"

definition rec_field_set_source :: "rec_field \<Rightarrow> string option \<Rightarrow> rec_field" where
  "rec_field_set_source f s = f\<lparr>field_source := map_option strdup s\<rparr>"

definition rec_field_set_location :: "rec_field \<Rightarrow> size_t \<Rightarrow> rec_field" where
  "rec_field_set_location f l = f\<lparr>field_location := l, field_location_str := Some (show_size l)\<rparr>"

definition rec_field_get_location_str :: "rec_field \<Rightarrow> string" where
  "rec_field_get_location_str f = (case field_location_str f of None \<Rightarrow> [] | Some s \<Rightarrow> s)"

definition rec_field_set_char_location :: "rec_field \<Rightarrow> size_t \<Rightarrow> rec_field" where
  "rec_field_set_char_location f l =
     f\<lparr>field_char_location := l, field_char_location_str := Some (show_size l)\<rparr>"

definition rec_field_get_char_location_str :: "rec_field \<Rightarrow> string" where
  "rec_field_get_char_location_str f = (case field_char_location_str f of None \<Rightarrow> [] | Some s \<Rightarrow> s)"

definition rec_field_set_mark :: "rec_field \<Rightarrow> int \<Rightarrow> rec_field" where
  "rec_field_set_mark f m = f\<lparr>field_mark := m\<rparr>"

section \<open>Comments\<close>

type_synonym rec_comment = string

definition rec_comment_new :: "string option \<Rightarrow> rec_comment option" where
  "rec_comment_new t = (case t of None \<Rightarrow> None | Some s \<Rightarrow> Some (strdup s))"

definition rec_comment_dup :: "rec_comment \<Rightarrow> rec_comment" where
  "rec_comment_dup c = strdup c"

definition rec_comment_set_text :: "rec_comment \<Rightarrow> string \<Rightarrow> rec_comment" where
  "rec_comment_set_text c t = strdup t"

definition rec_comment_equal_p :: "rec_comment \<Rightarrow> rec_comment \<Rightarrow> bool" where
  "rec_comment_equal_p c d = (c = d)"

section \<open>Standard field names\<close>

datatype rec_std_field =
    REC_FIELD_AUTO | REC_FIELD_CONFIDENTIAL | REC_FIELD_KEY | REC_FIELD_MANDATORY
  | REC_FIELD_PROHIBIT | REC_FIELD_REC | REC_FIELD_SIZE | REC_FIELD_SORT | REC_FIELD_TYPE
  | REC_FIELD_TYPEDEF | REC_FIELD_UNIQUE | REC_FIELD_CONSTRAINT | REC_FIELD_ALLOWED

fun rec_std_field_name :: "rec_std_field \<Rightarrow> string" where
  "rec_std_field_name REC_FIELD_AUTO = ''%auto''"
| "rec_std_field_name REC_FIELD_CONFIDENTIAL = ''%confidential''"
| "rec_std_field_name REC_FIELD_KEY = ''%key''"
| "rec_std_field_name REC_FIELD_MANDATORY = ''%mandatory''"
| "rec_std_field_name REC_FIELD_PROHIBIT = ''%prohibit''"
| "rec_std_field_name REC_FIELD_REC = ''%rec''"
| "rec_std_field_name REC_FIELD_SIZE = ''%size''"
| "rec_std_field_name REC_FIELD_SORT = ''%sort''"
| "rec_std_field_name REC_FIELD_TYPE = ''%type''"
| "rec_std_field_name REC_FIELD_TYPEDEF = ''%typedef''"
| "rec_std_field_name REC_FIELD_UNIQUE = ''%unique''"
| "rec_std_field_name REC_FIELD_CONSTRAINT = ''%constraint''"
| "rec_std_field_name REC_FIELD_ALLOWED = ''%allowed''"

definition rec_field_name_equal_p :: "string \<Rightarrow> string \<Rightarrow> bool" where
  "rec_field_name_equal_p n m = (n = m)"

section \<open>Well-formed fields\<close>

text \<open>Every string a field holds is a C string: this is the representation invariant of the type.\<close>

definition rec_field_wf :: "rec_field \<Rightarrow> bool" where
  "rec_field_wf f \<longleftrightarrow> cstring (field_name f) \<and> cstring (field_value f)
     \<and> pred_option cstring (field_source f) \<and> pred_option cstring (field_location_str f)
     \<and> pred_option cstring (field_char_location_str f)"

lemmas field_op_defs =
  rec_field_set_name_def rec_field_set_value_def rec_field_new_def rec_field_init_def
  rec_field_set_source_def rec_field_set_location_def rec_field_set_char_location_def
  rec_field_set_mark_def

lemma digit_char_not_NUL: "d < 10 \<Longrightarrow> digit_char d \<noteq> NUL"
proof
  assume "d < 10" and "digit_char d = NUL"
  then have "of_char (char_of (48 + d)) = (of_char NUL :: nat)" by (simp add: digit_char_def)
  with \<open>d < 10\<close> show False by simp
qed

lemma cstring_show_nat [simp]: "cstring (show_nat n)"
  by (induction n rule: show_nat.induct) (subst show_nat.simps, auto simp: digit_char_not_NUL)

lemma cstring_show_size [simp]: "cstring (show_size w)"
  by (simp add: show_size_def)

lemma rec_field_new_wf [simp]: "rec_field_wf (rec_field_new n v)"
  by (simp add: rec_field_wf_def field_op_defs)

lemma rec_field_set_wf:
  assumes "rec_field_wf f"
  shows "rec_field_wf (rec_field_set_name f n)" "rec_field_wf (rec_field_set_value f n)"
    "rec_field_wf (rec_field_set_source f s)" "rec_field_wf (rec_field_set_location f l)"
    "rec_field_wf (rec_field_set_char_location f l)" "rec_field_wf (rec_field_set_mark f m)"
  using assms by (simp_all add: rec_field_wf_def field_op_defs option.pred_map comp_def option.pred_True)

text \<open>A duplicate of a well-formed field is the field itself, marks and locations included.\<close>

lemma rec_field_dup_id:
  assumes "rec_field_wf f"
  shows "rec_field_dup f = f"
proof -
  have "map_option strdup x = x" if "pred_option cstring x" for x
    using that by (cases x) simp_all
  with assms show ?thesis
    by (simp add: rec_field_dup_def rec_field_wf_def field_op_defs)
qed

lemma rec_std_field_name_inject [simp]:
  "rec_std_field_name a = rec_std_field_name b \<longleftrightarrow> a = b"
  by (cases a; cases b) simp_all

end
