(* ===== verification/Rec_Mset.thy ===== *)
theory Rec_Mset
  imports Rec_Prelude
begin

text \<open>
  The ordered heterogeneous multi-set of \<open>src/rec-mset.c\<close>, the container behind records and
  record sets. The gnulib list \<open>elem_list\<close> is the sequence of its elements; a reference
  \<open>rec_mset_elem_t\<close> to a stored element is its position in that sequence; the type parameter
  is \<open>void *\<close>, and its equality is pointer equality. The callbacks are function pointers
  kept per element type; calling one is a parameter (\<open>mset_env\<close>). \<open>gl_sortedlist_nx_add\<close>,
  whose position among equal elements gnulib does not fix, is a parameter too.
  Allocation is assumed to succeed.
\<close>

section \<open>Data\<close>

definition MAX_NTYPES :: nat where "MAX_NTYPES = 4"

abbreviation (input) MSET_ANY :: nat where "MSET_ANY \<equiv> 0"
abbreviation (input) MSET_FIELD :: nat where "MSET_FIELD \<equiv> 1"
abbreviation (input) MSET_RECORD :: nat where "MSET_RECORD \<equiv> 1"
abbreviation (input) MSET_COMMENT :: nat where "MSET_COMMENT \<equiv> 2"

record 'd mset_elem =
  elem_type :: nat
  elem_data :: 'd

record 'd rec_mset =
  mset_ntypes :: nat
  mset_name :: "string option list"
  mset_disp_fn :: "fnptr list"
  mset_equal_fn :: "fnptr list"
  mset_dup_fn :: "fnptr list"
  mset_compare_fn :: "fnptr list"
  mset_count :: "nat list"
  mset_elems :: "'d mset_elem list"

text \<open>What the functions behind the callback pointers compute.\<close>

record 'd mset_env =
  call_equal :: "string \<Rightarrow> 'd \<Rightarrow> 'd \<Rightarrow> bool"
  call_dup :: "string \<Rightarrow> 'd \<Rightarrow> 'd option"
  call_compare :: "string \<Rightarrow> 'd \<Rightarrow> 'd \<Rightarrow> nat \<Rightarrow> int"

section \<open>Construction, types and counts\<close>

definition rec_mset_new :: "'d rec_mset" where
  "rec_mset_new =
     \<lparr>mset_ntypes = 1, mset_name = replicate MAX_NTYPES None,
      mset_disp_fn = replicate MAX_NTYPES None, mset_equal_fn = replicate MAX_NTYPES None,
      mset_dup_fn = replicate MAX_NTYPES None, mset_compare_fn = replicate MAX_NTYPES None,
      mset_count = replicate MAX_NTYPES 0, mset_elems = []\<rparr>"

definition rec_mset_type_p :: "'d rec_mset \<Rightarrow> nat \<Rightarrow> bool" where
  "rec_mset_type_p m t = (t < mset_ntypes m)"

text \<open>Registering a fifth type would write past the arrays: \<open>None\<close>.\<close>

definition rec_mset_register_type ::
  "'d rec_mset \<Rightarrow> string \<Rightarrow> fnptr \<Rightarrow> fnptr \<Rightarrow> fnptr \<Rightarrow> fnptr \<Rightarrow> (nat \<times> 'd rec_mset) option" where
  "rec_mset_register_type m name disp equal dup compare =
     (let t = mset_ntypes m in
      if t < MAX_NTYPES
      then Some (t, m\<lparr>mset_ntypes := Suc t,
                      mset_count := (mset_count m)[t := 0],
                      mset_name := (mset_name m)[t := Some (strdup name)],
                      mset_disp_fn := (mset_disp_fn m)[t := disp],
                      mset_equal_fn := (mset_equal_fn m)[t := equal],
                      mset_dup_fn := (mset_dup_fn m)[t := dup],
                      mset_compare_fn := (mset_compare_fn m)[t := compare]\<rparr>)
      else None)"

definition rec_mset_count :: "'d rec_mset \<Rightarrow> nat \<Rightarrow> nat" where
  "rec_mset_count m t = mset_count m ! t"

text \<open>\<open>mset->count[0]++; if (type != MSET_ANY) mset->count[type]++\<close>, and its converse.\<close>

definition count_inc :: "nat \<Rightarrow> nat list \<Rightarrow> nat list" where
  "count_inc t cs =
     (let cs1 = cs[0 := cs ! 0 + 1] in if t \<noteq> MSET_ANY then cs1[t := cs1 ! t + 1] else cs1)"

definition count_dec :: "nat \<Rightarrow> nat list \<Rightarrow> nat list" where
  "count_dec t cs =
     (let cs1 = cs[t := cs ! t - 1] in if t \<noteq> MSET_ANY then cs1[0 := cs1 ! 0 - 1] else cs1)"

definition rec_mset_elem_new :: "'d rec_mset \<Rightarrow> nat \<Rightarrow> 'd \<Rightarrow> 'd mset_elem option" where
  "rec_mset_elem_new m t d =
     (if t \<ge> mset_ntypes m then None else Some \<lparr>elem_type = t, elem_data = d\<rparr>)"

section \<open>Iterating\<close>

text \<open>
  An iterator is the position of the next element. \<open>rec_mset_iterator_next\<close> skips elements of
  other types; at the end it fails and leaves the iterator as it was.
\<close>

function iterator_scan :: "'d mset_elem list \<Rightarrow> nat \<Rightarrow> nat \<Rightarrow> (nat \<times> 'd) option" where
  "iterator_scan es t i =
     (if i < length es
      then if t \<noteq> 0 \<and> elem_type (es ! i) \<noteq> t then iterator_scan es t (Suc i)
           else Some (i, elem_data (es ! i))
      else None)"
  by pat_completeness auto
termination
  by (relation "measure (\<lambda>(es, t, i). length es - i)") auto

declare iterator_scan.simps [simp del]

definition rec_mset_iterator :: "'d rec_mset \<Rightarrow> nat" where
  "rec_mset_iterator m = 0"

definition rec_mset_iterator_next :: "'d rec_mset \<Rightarrow> nat \<Rightarrow> nat \<Rightarrow> ((nat \<times> 'd) option \<times> nat)" where
  "rec_mset_iterator_next m it t =
     (case iterator_scan (mset_elems m) t it of
        None \<Rightarrow> (None, it)
      | Some (i, d) \<Rightarrow> (Some (i, d), Suc i))"

text \<open>The (position, data) pairs of the elements of a type (\<open>MSET_ANY\<close>: of all), in order.\<close>

definition rec_mset_items :: "nat \<Rightarrow> 'd rec_mset \<Rightarrow> (nat \<times> 'd) list" where
  "rec_mset_items t m =
     map (\<lambda>(i, e). (i, elem_data e))
       (filter (\<lambda>(i, e). t = MSET_ANY \<or> elem_type e = t) (enumerate 0 (mset_elems m)))"

definition rec_mset_data :: "nat \<Rightarrow> 'd rec_mset \<Rightarrow> 'd list" where
  "rec_mset_data t m =
     map elem_data (filter (\<lambda>e. t = MSET_ANY \<or> elem_type e = t) (mset_elems m))"

section \<open>Element access\<close>

fun get_at_loop :: "nat \<Rightarrow> nat \<Rightarrow> nat list \<Rightarrow> 'd mset_elem list \<Rightarrow> 'd mset_elem option" where
  "get_at_loop t position cnt [] = None"
| "get_at_loop t position cnt (e # es) =
     (if t = MSET_ANY \<or> (t = elem_type e \<and> cnt ! elem_type e = position) then Some e
      else get_at_loop t position
             (let c1 = cnt[elem_type e := cnt ! elem_type e + 1] in c1[0 := c1 ! 0 + 1]) es)"

definition rec_mset_get_at :: "'d rec_mset \<Rightarrow> nat \<Rightarrow> nat \<Rightarrow> 'd option" where
  "rec_mset_get_at m t position =
     (if position \<ge> mset_count m ! t then None
      else if t = MSET_ANY
      then (if position < length (mset_elems m)
            then Some (elem_data (mset_elems m ! position)) else None)
      else map_option elem_data (get_at_loop t position (replicate MAX_NTYPES 0) (mset_elems m)))"

fun search_loop :: "'d \<Rightarrow> nat \<Rightarrow> 'd mset_elem list \<Rightarrow> nat option" where
  "search_loop d i [] = None"
| "search_loop d i (e # es) = (if elem_data e = d then Some i else search_loop d (Suc i) es)"

definition rec_mset_search :: "'d rec_mset \<Rightarrow> 'd \<Rightarrow> nat option" where
  "rec_mset_search m d = search_loop d 0 (mset_elems m)"

section \<open>Insertion and removal\<close>

definition rec_mset_insert_at :: "'d rec_mset \<Rightarrow> nat \<Rightarrow> 'd \<Rightarrow> nat \<Rightarrow> (nat option \<times> 'd rec_mset)" where
  "rec_mset_insert_at m t d position =
     (case rec_mset_elem_new m t d of
        None \<Rightarrow> (None, m)
      | Some e \<Rightarrow>
          let i = (if position \<ge> mset_count m ! 0 then length (mset_elems m) else position) in
          (Some i, m\<lparr>mset_elems := take i (mset_elems m) @ e # drop i (mset_elems m),
                     mset_count := count_inc (elem_type e) (mset_count m)\<rparr>))"

definition rec_mset_append :: "'d rec_mset \<Rightarrow> nat \<Rightarrow> 'd \<Rightarrow> nat \<Rightarrow> (nat option \<times> 'd rec_mset)" where
  "rec_mset_append m et d t = rec_mset_insert_at m et d (rec_mset_count m t)"

definition rec_mset_remove_elem :: "'d rec_mset \<Rightarrow> nat \<Rightarrow> (bool \<times> 'd rec_mset)" where
  "rec_mset_remove_elem m i =
     (if i < length (mset_elems m)
      then (True, m\<lparr>mset_elems := take i (mset_elems m) @ drop (Suc i) (mset_elems m),
                    mset_count := count_dec (elem_type (mset_elems m ! i)) (mset_count m)\<rparr>)
      else (False, m))"

definition rec_mset_remove_at :: "'d rec_mset \<Rightarrow> nat \<Rightarrow> nat \<Rightarrow> (bool \<times> 'd rec_mset)" where
  "rec_mset_remove_at m t position =
     (if mset_count m ! t > 0
      then let position = (if position \<ge> mset_count m ! t then mset_count m ! t - 1 else position) in
        (case rec_mset_get_at m t position of
           None \<Rightarrow> (False, m)
         | Some d \<Rightarrow> (case rec_mset_search m d of
                        None \<Rightarrow> (False, m)
                      | Some i \<Rightarrow> rec_mset_remove_elem m i))
      else (False, m))"

text \<open>
  \<open>rec_mset_elem_equal_fn\<close>: \<open>same\<close> says whether both elements carry the same \<open>mset\<close> pointer;
  \<open>m\<close> is the multi-set of the first. Calling a NULL \<open>equal_fn\<close> is undefined in C and is
  \<open>False\<close> here; records and record sets register one for each of their types.
\<close>

definition rec_mset_elem_equal_fn ::
  "'d mset_env \<Rightarrow> bool \<Rightarrow> 'd rec_mset \<Rightarrow> 'd mset_elem \<Rightarrow> 'd mset_elem \<Rightarrow> bool" where
  "rec_mset_elem_equal_fn env same m e1 e2 =
     (if \<not> same \<or> elem_type e1 \<noteq> elem_type e2 then False
      else (case mset_equal_fn m ! elem_type e1 of
              None \<Rightarrow> False
            | Some f \<Rightarrow> call_equal env f (elem_data e1) (elem_data e2)))"

fun find_index :: "('a \<Rightarrow> bool) \<Rightarrow> nat \<Rightarrow> 'a list \<Rightarrow> nat option" where
  "find_index P i [] = None"
| "find_index P i (x # xs) = (if P x then Some i else find_index P (Suc i) xs)"

text \<open>
  \<open>own\<close>: the reference element \<open>e\<close> belongs to this multi-set. Where no equal element is found
  the C code adds \<open>e\<close>, not the new element, and leaves the counts alone.
\<close>

definition rec_mset_insert_after ::
  "'d mset_env \<Rightarrow> 'd rec_mset \<Rightarrow> nat \<Rightarrow> 'd \<Rightarrow> bool \<Rightarrow> 'd mset_elem \<Rightarrow> (nat option \<times> 'd rec_mset)" where
  "rec_mset_insert_after env m t d own e =
     (case rec_mset_elem_new m t d of
        None \<Rightarrow> (None, m)
      | Some new \<Rightarrow>
          (case find_index (\<lambda>x. rec_mset_elem_equal_fn env own m x e) 0 (mset_elems m) of
             Some i \<Rightarrow>
               (Some (Suc i),
                m\<lparr>mset_elems := take (Suc i) (mset_elems m) @ new # drop (Suc i) (mset_elems m),
                  mset_count := count_inc (elem_type new) (mset_count m)\<rparr>)
           | None \<Rightarrow>
               (Some (length (mset_elems m)), m\<lparr>mset_elems := mset_elems m @ [e]\<rparr>)))"

definition rec_mset_elem_set_type :: "'d rec_mset \<Rightarrow> nat \<Rightarrow> nat \<Rightarrow> 'd rec_mset" where
  "rec_mset_elem_set_type m i t =
     (let old = elem_type (mset_elems m ! i);
          cs = (mset_count m)[old := mset_count m ! old - 1]
      in m\<lparr>mset_elems := (mset_elems m)[i := (mset_elems m ! i)\<lparr>elem_type := t\<rparr>],
           mset_count := cs[t := cs ! t + 1]\<rparr>)"

definition rec_mset_elem_set_data :: "'d rec_mset \<Rightarrow> nat \<Rightarrow> 'd \<Rightarrow> 'd rec_mset" where
  "rec_mset_elem_set_data m i d =
     m\<lparr>mset_elems := (mset_elems m)[i := (mset_elems m ! i)\<lparr>elem_data := d\<rparr>]\<rparr>"

section \<open>Duplication and sorting\<close>

fun dup_elems :: "'d mset_env \<Rightarrow> 'd rec_mset \<Rightarrow> 'd mset_elem list \<Rightarrow> 'd rec_mset option" where
  "dup_elems env new [] = Some new"
| "dup_elems env new (e # es) =
     (case (case mset_dup_fn new ! elem_type e of
              None \<Rightarrow> Some (elem_data e)
            | Some f \<Rightarrow> call_dup env f (elem_data e)) of
        None \<Rightarrow> None
      | Some d \<Rightarrow> dup_elems env (snd (rec_mset_append new (elem_type e) d MSET_ANY)) es)"

text \<open>The first \<open>n\<close> entries of an array, over a fresh array's remaining ones.\<close>

definition copy_prefix :: "nat \<Rightarrow> 'a list \<Rightarrow> 'a list \<Rightarrow> 'a list" where
  "copy_prefix n src dst = take n src @ drop n dst"

definition rec_mset_dup :: "'d mset_env \<Rightarrow> 'd rec_mset \<Rightarrow> 'd rec_mset option" where
  "rec_mset_dup env m =
     (let new = rec_mset_new; n = mset_ntypes m in
      dup_elems env
        (new\<lparr>mset_ntypes := n,
             mset_count := copy_prefix n (replicate MAX_NTYPES 0) (mset_count new),
             mset_name := copy_prefix n (map (map_option strdup) (mset_name m)) (mset_name new),
             mset_disp_fn := copy_prefix n (mset_disp_fn m) (mset_disp_fn new),
             mset_equal_fn := copy_prefix n (mset_equal_fn m) (mset_equal_fn new),
             mset_dup_fn := copy_prefix n (mset_dup_fn m) (mset_dup_fn new),
             mset_compare_fn := copy_prefix n (mset_compare_fn m) (mset_compare_fn new)\<rparr>)
        (mset_elems m))"

type_synonym 'd sorted_add =
  "('d mset_elem \<Rightarrow> 'd mset_elem \<Rightarrow> int) \<Rightarrow> 'd mset_elem \<Rightarrow> 'd mset_elem list \<Rightarrow> 'd mset_elem list"

definition rec_mset_elem_compare_fn ::
  "'d mset_env \<Rightarrow> 'd rec_mset \<Rightarrow> 'd mset_elem \<Rightarrow> 'd mset_elem \<Rightarrow> int" where
  "rec_mset_elem_compare_fn env m e1 e2 =
     (case mset_compare_fn m ! elem_type e1 of
        None \<Rightarrow> 0
      | Some f \<Rightarrow> call_compare env f (elem_data e1) (elem_data e2) (elem_type e2))"

definition rec_mset_add_sorted ::
  "'d sorted_add \<Rightarrow> 'd mset_env \<Rightarrow> 'd rec_mset \<Rightarrow> nat \<Rightarrow> 'd \<Rightarrow> (bool \<times> 'd rec_mset)" where
  "rec_mset_add_sorted sadd env m t d =
     (case rec_mset_elem_new m t d of
        None \<Rightarrow> (False, m)
      | Some e \<Rightarrow>
          (True, m\<lparr>mset_elems := sadd (rec_mset_elem_compare_fn env m) e (mset_elems m),
                   mset_count := count_inc (elem_type e) (mset_count m)\<rparr>))"

fun sort_loop ::
  "'d sorted_add \<Rightarrow> 'd mset_env \<Rightarrow> 'd rec_mset \<Rightarrow> 'd mset_elem list \<Rightarrow> 'd rec_mset option" where
  "sort_loop sadd env m [] = Some m"
| "sort_loop sadd env m (e # es) =
     (case rec_mset_add_sorted sadd env m (elem_type e) (elem_data e) of
        (False, m') \<Rightarrow> None
      | (True, m') \<Rightarrow> sort_loop sadd env m' es)"

text \<open>The counts are not reset before the elements are added again.\<close>

definition rec_mset_sort :: "'d sorted_add \<Rightarrow> 'd mset_env \<Rightarrow> 'd rec_mset \<Rightarrow> 'd rec_mset option" where
  "rec_mset_sort sadd env m = sort_loop sadd env (m\<lparr>mset_elems := []\<rparr>) (mset_elems m)"

section \<open>The invariant\<close>

definition count_type :: "'d mset_elem list \<Rightarrow> nat \<Rightarrow> nat" where
  "count_type es t = length (filter (\<lambda>e. t = MSET_ANY \<or> elem_type e = t) es)"

text \<open>
  The statistics agree with the sequence: \<open>count[0]\<close> is the number of elements and \<open>count[t]\<close>
  the number of elements of type \<open>t\<close>; every element has a registered type.
\<close>

definition mset_wf :: "'d rec_mset \<Rightarrow> bool" where
  "mset_wf m \<longleftrightarrow> 1 \<le> mset_ntypes m \<and> mset_ntypes m \<le> MAX_NTYPES
     \<and> length (mset_name m) = MAX_NTYPES \<and> length (mset_disp_fn m) = MAX_NTYPES
     \<and> length (mset_equal_fn m) = MAX_NTYPES \<and> length (mset_dup_fn m) = MAX_NTYPES
     \<and> length (mset_compare_fn m) = MAX_NTYPES
     \<and> list_all (\<lambda>e. elem_type e < mset_ntypes m) (mset_elems m)
     \<and> mset_count m = map (count_type (mset_elems m)) [0..<MAX_NTYPES]"

lemma mset_wf_count:
  "mset_wf m \<Longrightarrow> t < MAX_NTYPES \<Longrightarrow> mset_count m ! t = count_type (mset_elems m) t"
  by (simp add: mset_wf_def)

lemma count_type_0 [simp]: "count_type es 0 = length es"
  by (simp add: count_type_def)

lemma count_type_append [simp]: "count_type (es @ fs) t = count_type es t + count_type fs t"
  by (simp add: count_type_def)

lemma count_type_Cons [simp]:
  "count_type (e # es) t = (if t = MSET_ANY \<or> elem_type e = t then 1 else 0) + count_type es t"
  by (simp add: count_type_def)

lemma count_type_Nil [simp]: "count_type [] t = 0"
  by (simp add: count_type_def)

lemma count_type_data: "count_type (mset_elems m) t = length (rec_mset_data t m)"
  by (simp add: count_type_def rec_mset_data_def)

lemma count_inc_map:
  assumes "t < MAX_NTYPES"
    and "\<And>u. u < MAX_NTYPES \<Longrightarrow> g u = f u + (if u = 0 \<or> u = t then 1 else (0::nat))"
  shows "count_inc t (map f [0..<MAX_NTYPES]) = map g [0..<MAX_NTYPES]"
  using assms
  by (intro nth_equalityI) (auto simp: count_inc_def Let_def nth_list_update MAX_NTYPES_def)

lemma count_dec_map:
  assumes "t < MAX_NTYPES"
    and "\<And>u. u < MAX_NTYPES \<Longrightarrow> f u = g u + (if u = 0 \<or> u = t then 1 else (0::nat))"
  shows "count_dec t (map f [0..<MAX_NTYPES]) = map g [0..<MAX_NTYPES]"
  using assms
  by (intro nth_equalityI) (auto simp: count_dec_def Let_def nth_list_update MAX_NTYPES_def)

lemma rec_mset_new_wf [simp]: "mset_wf rec_mset_new"
  by (simp add: mset_wf_def rec_mset_new_def MAX_NTYPES_def numeral_eq_Suc)

lemma rec_mset_register_type_wf:
  assumes "mset_wf m" and "rec_mset_register_type m nm d e du c = Some (t, m')"
  shows "mset_wf m'" and "t = mset_ntypes m" and "mset_elems m' = mset_elems m"
proof -
  let ?t = "mset_ntypes m"
  from assms(2) have lt: "?t < MAX_NTYPES"
    by (auto simp: rec_mset_register_type_def Let_def split: if_splits)
  from assms(1) have "count_type (mset_elems m) ?t = 0"
    by (auto simp: mset_wf_def count_type_def filter_empty_conv list_all_iff)
  then have "(map (count_type (mset_elems m)) [0..<MAX_NTYPES])[?t := 0]
    = map (count_type (mset_elems m)) [0..<MAX_NTYPES]"
    using lt by (intro nth_equalityI) (auto simp: nth_list_update)
  then show "mset_wf m'"
    using assms lt
    by (auto simp: rec_mset_register_type_def Let_def mset_wf_def list_all_iff less_Suc_eq)
  show "t = ?t" and "mset_elems m' = mset_elems m"
    using assms(2) lt by (auto simp: rec_mset_register_type_def Let_def)
qed

section \<open>Insertion and removal keep the invariant\<close>

lemma rec_mset_insert_at_eq:
  assumes "mset_wf m" and "t < mset_ntypes m"
  shows "rec_mset_insert_at m t d p =
    (Some (min p (length (mset_elems m))),
     m\<lparr>mset_elems := take p (mset_elems m) @ \<lparr>elem_type = t, elem_data = d\<rparr> # drop p (mset_elems m),
       mset_count := count_inc t (mset_count m)\<rparr>)"
  using assms mset_wf_count [of m 0]
  by (simp add: rec_mset_insert_at_def rec_mset_elem_new_def Let_def MAX_NTYPES_def min_def)

lemma wf_update_elems:
  assumes "mset_wf m" and "list_all (\<lambda>e. elem_type e < mset_ntypes m) es"
    and "cs = map (count_type es) [0..<MAX_NTYPES]"
  shows "mset_wf (m\<lparr>mset_elems := es, mset_count := cs\<rparr>)"
  using assms by (simp add: mset_wf_def)

lemma rec_mset_insert_at_wf:
  assumes "mset_wf m" and "t < mset_ntypes m"
  shows "mset_wf (snd (rec_mset_insert_at m t d p))"
proof -
  let ?es = "mset_elems m"
  let ?new = "take p ?es @ \<lparr>elem_type = t, elem_data = d\<rparr> # drop p ?es"
  have "list_all (\<lambda>e. elem_type e < mset_ntypes m) ?es"
    using assms(1) by (simp add: mset_wf_def)
  then have all: "list_all (\<lambda>e. elem_type e < mset_ntypes m) ?new"
    using assms(2) by (auto simp: list_all_iff dest: in_set_takeD in_set_dropD)
  have "count_type ?es u = count_type (take p ?es) u + count_type (drop p ?es) u" for u
    by (simp flip: count_type_append)
  moreover have "t < MAX_NTYPES" using assms by (simp add: mset_wf_def)
  ultimately have "count_inc t (map (count_type ?es) [0..<MAX_NTYPES]) = map (count_type ?new) [0..<MAX_NTYPES]"
    by (intro count_inc_map) auto
  then show ?thesis
    using wf_update_elems [OF assms(1) all refl] assms
    by (simp add: rec_mset_insert_at_eq mset_wf_def)
qed

lemma rec_mset_append_eq:
  assumes "mset_wf m" and "t < mset_ntypes m"
  shows "mset_elems (snd (rec_mset_append m t d MSET_ANY)) = mset_elems m @ [\<lparr>elem_type = t, elem_data = d\<rparr>]"
    and "mset_ntypes (snd (rec_mset_append m t d MSET_ANY)) = mset_ntypes m"
    and "mset_wf (snd (rec_mset_append m t d u))"
  using assms rec_mset_insert_at_wf [OF assms]
  by (simp_all add: rec_mset_append_def rec_mset_insert_at_eq rec_mset_count_def mset_wf_count MAX_NTYPES_def)

lemma rec_mset_remove_elem_wf:
  assumes "mset_wf m"
  shows "mset_wf (snd (rec_mset_remove_elem m i))"
proof (cases "i < length (mset_elems m)")
  case False
  with assms show ?thesis by (simp add: rec_mset_remove_elem_def)
next
  case True
  let ?es = "mset_elems m"
  let ?new = "take i ?es @ drop (Suc i) ?es"
  have split: "?es = take i ?es @ ?es ! i # drop (Suc i) ?es"
    using True by (simp add: id_take_nth_drop)
  have types: "list_all (\<lambda>e. elem_type e < mset_ntypes m) ?es"
    using assms by (simp add: mset_wf_def)
  then have all: "list_all (\<lambda>e. elem_type e < mset_ntypes m) ?new"
    by (auto simp: list_all_iff dest: in_set_takeD in_set_dropD)
  have "elem_type (?es ! i) < MAX_NTYPES"
    using types True assms by (auto simp: list_all_length mset_wf_def intro: less_le_trans)
  moreover have "count_type ?es u =
      count_type (take i ?es) u + count_type (drop (Suc i) ?es) u + (if u = 0 \<or> u = elem_type (?es ! i) then 1 else 0)" for u
    by (subst split) auto
  ultimately have "count_dec (elem_type (?es ! i)) (map (count_type ?es) [0..<MAX_NTYPES]) = map (count_type ?new) [0..<MAX_NTYPES]"
    by (intro count_dec_map) auto
  then show ?thesis
    using wf_update_elems [OF assms all refl] True assms
    by (simp add: rec_mset_remove_elem_def mset_wf_def)
qed

end
