(* ===== verification/Rec_Mset_Laws.thy ===== *)
theory Rec_Mset_Laws
  imports Rec_Mset "HOL-Library.Multiset"
begin

text \<open>
  What the multi-set operations compute, as laws over the sequence of elements: iteration,
  positional access, search and removal, duplication, sorting. The locale
  \<open>typed_sequence\<close> is the contract the record and record-set layers use; the C multi-set is
  an interpretation of it.
\<close>

section \<open>Iteration\<close>

text \<open>All results of repeated \<open>rec_mset_iterator_next\<close> calls, from a given iterator.\<close>

function iterate_from :: "'d rec_mset \<Rightarrow> nat \<Rightarrow> nat \<Rightarrow> (nat \<times> 'd) list" where
  "iterate_from m t it =
     (case rec_mset_iterator_next m it t of
        (None, it') \<Rightarrow> []
      | (Some x, it') \<Rightarrow> if it < it' \<and> it' \<le> length (mset_elems m) then x # iterate_from m t it' else [x])"
  by pat_completeness auto
termination
  by (relation "measure (\<lambda>(m, t, it). length (mset_elems m) - it)") auto

declare iterate_from.simps [simp del]

definition items_from :: "nat \<Rightarrow> nat \<Rightarrow> 'd mset_elem list \<Rightarrow> (nat \<times> 'd) list" where
  "items_from t i es =
     map (\<lambda>(i, e). (i, elem_data e)) (filter (\<lambda>(i, e). t = MSET_ANY \<or> elem_type e = t) (enumerate i es))"

lemma items_from_Nil [simp]: "items_from t i [] = []"
  by (simp add: items_from_def)

lemma items_from_Cons [simp]:
  "items_from t i (e # es) =
     (if t = MSET_ANY \<or> elem_type e = t then [(i, elem_data e)] else []) @ items_from t (Suc i) es"
  by (simp add: items_from_def)

lemma items_from_append:
  "items_from t i (es @ fs) = items_from t i es @ items_from t (i + length es) fs"
  by (induction es arbitrary: i) simp_all

lemma rec_mset_items_from: "rec_mset_items t m = items_from t 0 (mset_elems m)"
  by (simp add: rec_mset_items_def items_from_def)

lemma items_from_data: "map snd (items_from t i es) = map elem_data (filter (\<lambda>e. t = MSET_ANY \<or> elem_type e = t) es)"
  by (induction es arbitrary: i) simp_all

lemma rec_mset_items_data: "map snd (rec_mset_items t m) = rec_mset_data t m"
  by (simp add: rec_mset_items_from items_from_data rec_mset_data_def)

lemma iterator_scan_items:
  "i \<le> length es \<Longrightarrow>
   (case iterator_scan es t i of
      None \<Rightarrow> items_from t i (drop i es) = []
    | Some (j, d) \<Rightarrow> i \<le> j \<and> j < length es \<and> items_from t i (drop i es) = (j, d) # items_from t (Suc j) (drop (Suc j) es))"
proof (induction es t i rule: iterator_scan.induct)
  case (1 es t i)
  show ?case
  proof (cases "i < length es")
    case False
    then show ?thesis by (simp add: iterator_scan.simps [of es t i])
  next
    case True
    then have d: "drop i es = es ! i # drop (Suc i) es" by (simp add: Cons_nth_drop_Suc)
    show ?thesis
    proof (cases "t \<noteq> 0 \<and> elem_type (es ! i) \<noteq> t")
      case True
      with \<open>i < length es\<close> "1.IH" show ?thesis
        by (auto simp: iterator_scan.simps [of es t i] d split: option.splits)
    next
      case False
      with \<open>i < length es\<close> show ?thesis
        by (auto simp: iterator_scan.simps [of es t i] d)
    qed
  qed
qed

lemma iterate_from_items:
  "it \<le> length (mset_elems m) \<Longrightarrow> iterate_from m t it = items_from t it (drop it (mset_elems m))"
proof (induction m t it rule: iterate_from.induct)
  case (1 m t it)
  note scan = iterator_scan_items [OF "1.prems", of t]
  show ?case
  proof (cases "iterator_scan (mset_elems m) t it")
    case None
    with scan show ?thesis
      by (simp add: iterate_from.simps [of m t it] rec_mset_iterator_next_def)
  next
    case (Some jd)
    obtain j d where jd: "jd = (j, d)" by (cases jd)
    with Some scan have j: "it \<le> j" "j < length (mset_elems m)"
      and items: "items_from t it (drop it (mset_elems m)) = (j, d) # items_from t (Suc j) (drop (Suc j) (mset_elems m))"
      by auto
    have nxt: "rec_mset_iterator_next m it t = (Some (j, d), Suc j)"
      using Some jd by (simp add: rec_mset_iterator_next_def)
    have "iterate_from m t (Suc j) = items_from t (Suc j) (drop (Suc j) (mset_elems m))"
      using "1.IH" [OF nxt [symmetric], of "(j, d)"] j by simp
    with j items nxt show ?thesis
      by (simp add: iterate_from.simps [of m t it])
  qed
qed

section \<open>Positional access\<close>

lemma nth_filter_Cons:
  "P x \<Longrightarrow> filter P (x # xs) ! Suc n = filter P xs ! n"
  by simp

lemma get_at_loop_filter:
  assumes "t \<noteq> 0" and "t < length cnt" and "list_all (\<lambda>e. elem_type e < length cnt) es"
    and "cnt ! t \<le> p"
  shows "get_at_loop t p cnt es =
    (let fs = filter (\<lambda>e. elem_type e = t) es in
     if p - cnt ! t < length fs then Some (fs ! (p - cnt ! t)) else None)"
  using assms
proof (induction es arbitrary: cnt)
  case Nil
  then show ?case by simp
next
  case (Cons e es)
  let ?c1 = "cnt[elem_type e := cnt ! elem_type e + 1]"
  let ?cnt = "?c1[0 := ?c1 ! 0 + 1]"
  show ?case
  proof (cases "elem_type e = t")
    case False
    then have "?cnt ! t = cnt ! t" using Cons.prems by (simp add: nth_list_update)
    with False Cons show ?thesis by (simp add: Let_def)
  next
    case True
    show ?thesis
    proof (cases "cnt ! t = p")
      case True
      with \<open>elem_type e = t\<close> show ?thesis by simp
    next
      case False
      have "?cnt ! t = Suc (cnt ! t)" using Cons.prems True by (simp add: nth_list_update)
      moreover have "cnt ! t < p" using Cons.prems(4) False by simp
      then obtain k where "p - cnt ! t = Suc k" "p - Suc (cnt ! t) = k"
        by (metis Suc_diff_Suc)
      ultimately show ?thesis
        using True False Cons by (simp add: Let_def)
    qed
  qed
qed

lemma rec_mset_get_at_eq:
  assumes wf: "mset_wf m" and t: "t < MAX_NTYPES"
  shows "rec_mset_get_at m t p =
    (if p < length (rec_mset_data t m) then Some (rec_mset_data t m ! p) else None)"
proof -
  have cnt: "mset_count m ! t = length (rec_mset_data t m)"
    using mset_wf_count [OF wf t] by (simp add: count_type_data)
  show ?thesis
  proof (cases "t = 0")
    case True
    then show ?thesis
      using cnt by (simp add: rec_mset_get_at_def rec_mset_data_def)
  next
    case False
    have "list_all (\<lambda>e. elem_type e < MAX_NTYPES) (mset_elems m)"
      using wf by (auto simp: mset_wf_def list_all_iff)
    then have "get_at_loop t p (replicate MAX_NTYPES 0) (mset_elems m) =
      (let fs = filter (\<lambda>e. elem_type e = t) (mset_elems m) in if p < length fs then Some (fs ! p) else None)"
      using False t by (subst get_at_loop_filter) (auto simp: Let_def)
    then show ?thesis
      using cnt False by (auto simp: rec_mset_get_at_def rec_mset_data_def Let_def)
  qed
qed

section \<open>Search and removal by position\<close>

lemma search_loop_Some:
  "search_loop d i es = Some j \<Longrightarrow>
   i \<le> j \<and> j - i < length es \<and> elem_data (es ! (j - i)) = d \<and> (\<forall>k < j - i. elem_data (es ! k) \<noteq> d)"
proof (induction es arbitrary: i)
  case Nil
  then show ?case by simp
next
  case (Cons e es)
  show ?case
  proof (cases "elem_data e = d")
    case True
    with Cons.prems show ?thesis by simp
  next
    case False
    with Cons.prems have "search_loop d (Suc i) es = Some j" by simp
    from Cons.IH [OF this] have *: "Suc i \<le> j" "j - Suc i < length es" "elem_data (es ! (j - Suc i)) = d"
      "\<forall>k < j - Suc i. elem_data (es ! k) \<noteq> d" by auto
    then have "j - i = Suc (j - Suc i)" by simp
    with * False show ?thesis by (auto simp: nth_Cons less_Suc_eq_0_disj)
  qed
qed

lemma search_loop_None: "search_loop d i es = None \<longleftrightarrow> d \<notin> elem_data ` set es"
  by (induction es arbitrary: i) auto

lemma rec_mset_search_Some:
  "rec_mset_search m d = Some j \<Longrightarrow> j < length (mset_elems m) \<and> elem_data (mset_elems m ! j) = d"
  using search_loop_Some [of d 0 "mset_elems m" j] by (simp add: rec_mset_search_def)

lemma rec_mset_data_subset: "set (rec_mset_data t m) \<subseteq> elem_data ` set (mset_elems m)"
  by (auto simp: rec_mset_data_def)

text \<open>
  With every data pointer stored once, \<open>rec_mset_remove_at\<close> removes exactly the element that
  \<open>rec_mset_get_at\<close> finds at that position (the last one of the type, past the end).
\<close>

lemma items_from_nth:
  "k < length (items_from t i es) \<Longrightarrow>
   i \<le> fst (items_from t i es ! k) \<and> fst (items_from t i es ! k) - i < length es
   \<and> snd (items_from t i es ! k) = elem_data (es ! (fst (items_from t i es ! k) - i))"
proof (induction es arbitrary: i k)
  case Nil
  then show ?case by simp
next
  case (Cons e es)
  have step: "elem_data ((e # es) ! (n - i)) = elem_data (es ! (n - Suc i)) \<and> n - i < length (e # es)"
    if "Suc i \<le> n" "n - Suc i < length es" for n
  proof -
    from that have "n - i = Suc (n - Suc i)" by simp
    with that show ?thesis by simp
  qed
  show ?case
  proof (cases "(t = 0 \<or> elem_type e = t) \<and> k = 0")
    case True
    then show ?thesis by simp
  next
    case False
    define l where "l = (if t = 0 \<or> elem_type e = t then k - 1 else k)"
    with False have "items_from t i (e # es) ! k = items_from t (Suc i) es ! l"
      and "l < length (items_from t (Suc i) es)"
      using Cons.prems by (auto simp: nth_Cons split: nat.splits)
    with Cons.IH [of l "Suc i"] step [of "fst (items_from t (Suc i) es ! l)"] show ?thesis
      by (simp only: Suc_leD)
  qed
qed

lemma rec_mset_remove_at_eq:
  fixes p :: nat
  assumes wf: "mset_wf m" and t: "t < MAX_NTYPES" and ne: "rec_mset_data t m \<noteq> []"
    and dist: "distinct (map elem_data (mset_elems m))"
  defines "q \<equiv> min p (length (rec_mset_data t m) - 1)"
  shows "rec_mset_remove_at m t p = rec_mset_remove_elem m (fst (rec_mset_items t m ! q))"
proof -
  let ?d = "rec_mset_data t m ! q" and ?i = "fst (rec_mset_items t m ! q)"
  have cnt: "mset_count m ! t = length (rec_mset_data t m)"
    using mset_wf_count [OF wf t] by (simp add: count_type_data)
  have q: "q < length (rec_mset_data t m)" using ne by (cases "rec_mset_data t m") (auto simp: q_def)
  then have get: "rec_mset_get_at m t q = Some ?d"
    by (simp add: rec_mset_get_at_eq [OF wf t])
  have len: "length (rec_mset_items t m) = length (rec_mset_data t m)"
    by (metis length_map rec_mset_items_data)
  have d: "?d = snd (rec_mset_items t m ! q)"
    using q len by (metis nth_map rec_mset_items_data)
  have i: "?i < length (mset_elems m)" "elem_data (mset_elems m ! ?i) = ?d"
    using items_from_nth [of q t 0 "mset_elems m", folded rec_mset_items_from] q
    unfolding d by (simp_all only: len diff_zero)
  then have "?d \<in> elem_data ` set (mset_elems m)"
    by (metis imageI nth_mem)
  then obtain j where j: "rec_mset_search m ?d = Some j"
    using search_loop_None [of ?d 0 "mset_elems m"] by (auto simp: rec_mset_search_def)
  then have "j = ?i"
    using rec_mset_search_Some [OF j] i nth_eq_iff_index_eq [OF dist, of j ?i] by simp
  moreover have "(if p \<ge> mset_count m ! t then mset_count m ! t - 1 else p) = q"
    using cnt ne by (auto simp: q_def min_def Suc_le_eq not_less_eq_eq)
  ultimately show ?thesis
    using cnt ne get j by (simp add: rec_mset_remove_at_def Let_def)
qed

section \<open>Changing an element in place\<close>

lemma rec_mset_elem_set_data_wf:
  assumes "mset_wf m" and "i < length (mset_elems m)"
  shows "mset_wf (rec_mset_elem_set_data m i d)"
proof -
  let ?es = "mset_elems m"
  let ?new = "?es[i := (?es ! i)\<lparr>elem_data := d\<rparr>]"
  have types: "map elem_type ?new = map elem_type ?es"
    using assms(2) by (simp add: map_update) (metis list_update_id map_update nth_map)
  have "count_type ?new t = count_type ?es t" for t
  proof -
    have *: "count_type es t = length (filter (\<lambda>u. t = 0 \<or> u = t) (map elem_type es))" for es :: "'a mset_elem list"
      by (simp add: count_type_def filter_map comp_def)
    show ?thesis unfolding * types ..
  qed
  moreover have "list_all (\<lambda>e. elem_type e < mset_ntypes m) ?new"
  proof -
    have *: "list_all (\<lambda>e. elem_type e < n) es = list_all (\<lambda>u. u < n) (map elem_type es)"
      for n and es :: "'a mset_elem list"
      by (simp add: list_all_iff)
    show ?thesis using assms(1) unfolding * types by (simp add: mset_wf_def list_all_iff)
  qed
  ultimately show ?thesis
    using assms(1) by (simp add: mset_wf_def rec_mset_elem_set_data_def)
qed

text \<open>Retyping keeps the statistics only between proper types: \<open>MSET_ANY\<close> is not one.\<close>

lemma rec_mset_elem_set_type_wf:
  assumes wf: "mset_wf m" and i: "i < length (mset_elems m)" and t: "0 < t" "t < mset_ntypes m"
    and old: "elem_type (mset_elems m ! i) \<noteq> 0"
  shows "mset_wf (rec_mset_elem_set_type m i t)"
proof -
  let ?es = "mset_elems m"
  let ?o = "elem_type (?es ! i)" and ?e = "(?es ! i)\<lparr>elem_type := t\<rparr>"
  have split: "?es = take i ?es @ ?es ! i # drop (Suc i) ?es" using i by (rule id_take_nth_drop)
  have new: "?es[i := ?e] = take i ?es @ ?e # drop (Suc i) ?es" using i by (rule upd_conv_take_nth_drop)
  have types: "list_all (\<lambda>e. elem_type e < mset_ntypes m) ?es" using wf by (simp add: mset_wf_def)
  then have o: "?o < mset_ntypes m" using i by (simp add: list_all_length)
  have n: "mset_ntypes m \<le> MAX_NTYPES" using wf by (simp add: mset_wf_def)
  have before: "count_type ?es u = count_type (take i ?es) u + count_type (drop (Suc i) ?es) u
      + (if u = 0 \<or> u = ?o then 1 else 0)" for u
    by (subst split) auto
  have "(let cs = (map (count_type ?es) [0..<MAX_NTYPES])[?o := count_type ?es ?o - 1] in cs[t := cs ! t + 1])
     = map (count_type (?es[i := ?e])) [0..<MAX_NTYPES]"
    using o n t old by (intro nth_equalityI) (auto simp: Let_def nth_list_update new before)
  moreover have "list_all (\<lambda>e. elem_type e < mset_ntypes m) (?es[i := ?e])"
    using types t by (auto simp: new list_all_iff dest: in_set_takeD in_set_dropD)
  ultimately show ?thesis
    using wf o n by (simp add: mset_wf_def rec_mset_elem_set_type_def Let_def)
qed

section \<open>Duplication\<close>

lemma rec_mset_append_frame [simp]:
  "mset_dup_fn (snd (rec_mset_append m t d u)) = mset_dup_fn m"
  "mset_equal_fn (snd (rec_mset_append m t d u)) = mset_equal_fn m"
  "mset_compare_fn (snd (rec_mset_append m t d u)) = mset_compare_fn m"
  "mset_disp_fn (snd (rec_mset_append m t d u)) = mset_disp_fn m"
  "mset_name (snd (rec_mset_append m t d u)) = mset_name m"
  "mset_ntypes (snd (rec_mset_append m t d u)) = mset_ntypes m"
  by (simp_all add: rec_mset_append_def rec_mset_insert_at_def Let_def split: option.splits)

definition dup_data :: "'d mset_env \<Rightarrow> 'd rec_mset \<Rightarrow> 'd mset_elem \<Rightarrow> 'd option" where
  "dup_data env m e =
     (case mset_dup_fn m ! elem_type e of None \<Rightarrow> Some (elem_data e) | Some f \<Rightarrow> call_dup env f (elem_data e))"

lemma dup_elems_Some:
  assumes "mset_wf m" and "list_all (\<lambda>e. elem_type e < mset_ntypes m) es"
    and "\<And>e. e \<in> set es \<Longrightarrow> dup_data env m e = Some (g e)"
  shows "\<exists>m'. dup_elems env m es = Some m' \<and> mset_wf m' \<and> mset_ntypes m' = mset_ntypes m
    \<and> mset_name m' = mset_name m \<and> mset_disp_fn m' = mset_disp_fn m \<and> mset_equal_fn m' = mset_equal_fn m
    \<and> mset_dup_fn m' = mset_dup_fn m \<and> mset_compare_fn m' = mset_compare_fn m
    \<and> mset_elems m' = mset_elems m @ map (\<lambda>e. \<lparr>elem_type = elem_type e, elem_data = g e\<rparr>) es"
  using assms
proof (induction es arbitrary: m)
  case Nil
  then show ?case by simp
next
  case (Cons e es)
  let ?m = "snd (rec_mset_append m (elem_type e) (g e) MSET_ANY)"
  have e: "dup_data env m e = Some (g e)" "elem_type e < mset_ntypes m" using Cons.prems by auto
  have "mset_wf ?m" using Cons.prems(1) e(2) by (rule rec_mset_append_eq)
  moreover have "\<And>x. x \<in> set es \<Longrightarrow> dup_data env ?m x = Some (g x)"
    using Cons.prems(3) by (simp add: dup_data_def)
  ultimately have "\<exists>m'. dup_elems env ?m es = Some m' \<and> mset_wf m' \<and> mset_ntypes m' = mset_ntypes ?m
    \<and> mset_name m' = mset_name ?m \<and> mset_disp_fn m' = mset_disp_fn ?m \<and> mset_equal_fn m' = mset_equal_fn ?m
    \<and> mset_dup_fn m' = mset_dup_fn ?m \<and> mset_compare_fn m' = mset_compare_fn ?m
    \<and> mset_elems m' = mset_elems ?m @ map (\<lambda>e. \<lparr>elem_type = elem_type e, elem_data = g e\<rparr>) es"
    using Cons.prems(2) by (intro Cons.IH) simp_all
  then show ?case
    using e Cons.prems(1) by (simp add: dup_data_def rec_mset_append_eq(1))
qed

lemma rec_mset_dup_Some:
  assumes wf: "mset_wf m"
    and dup: "\<And>e. e \<in> set (mset_elems m) \<Longrightarrow> dup_data env m e = Some (g e)"
  shows "\<exists>m'. rec_mset_dup env m = Some m' \<and> mset_wf m' \<and> mset_ntypes m' = mset_ntypes m
    \<and> mset_elems m' = map (\<lambda>e. \<lparr>elem_type = elem_type e, elem_data = g e\<rparr>) (mset_elems m)"
proof -
  let ?n = "mset_ntypes m" and ?new = "rec_mset_new :: 'a rec_mset"
  let ?m = "?new\<lparr>mset_ntypes := ?n,
     mset_count := copy_prefix ?n (replicate MAX_NTYPES 0) (mset_count ?new),
     mset_name := copy_prefix ?n (map (map_option strdup) (mset_name m)) (mset_name ?new),
     mset_disp_fn := copy_prefix ?n (mset_disp_fn m) (mset_disp_fn ?new),
     mset_equal_fn := copy_prefix ?n (mset_equal_fn m) (mset_equal_fn ?new),
     mset_dup_fn := copy_prefix ?n (mset_dup_fn m) (mset_dup_fn ?new),
     mset_compare_fn := copy_prefix ?n (mset_compare_fn m) (mset_compare_fn ?new)\<rparr>"
  have n: "1 \<le> ?n" "?n \<le> MAX_NTYPES" using wf by (auto simp: mset_wf_def)
  have z: "map (count_type []) [0..<MAX_NTYPES] = replicate MAX_NTYPES 0"
    by (intro nth_equalityI) simp_all
  have wf': "mset_wf ?m"
    using wf n by (simp add: mset_wf_def rec_mset_new_def copy_prefix_def z flip: replicate_add)
  have types: "list_all (\<lambda>e. elem_type e < mset_ntypes ?m) (mset_elems m)"
    using wf by (simp add: mset_wf_def)
  have dup': "dup_data env ?m e = Some (g e)" if "e \<in> set (mset_elems m)" for e
  proof -
    from that types have "elem_type e < ?n" by (simp add: list_all_iff)
    then have "mset_dup_fn ?m ! elem_type e = mset_dup_fn m ! elem_type e"
      using wf by (simp add: copy_prefix_def nth_append mset_wf_def)
    with dup [OF that] show ?thesis by (simp add: dup_data_def)
  qed
  from dup_elems_Some [OF wf' types dup'] show ?thesis
    by (auto simp: rec_mset_dup_def Let_def rec_mset_new_def)
qed

section \<open>Sorting\<close>

text \<open>What gnulib documents of \<open>gl_sortedlist_nx_add\<close> whatever the order: the element is added.\<close>

definition sorted_add_adds :: "'d sorted_add \<Rightarrow> bool" where
  "sorted_add_adds sadd \<longleftrightarrow> (\<forall>cmp e es. mset (sadd cmp e es) = add_mset e (mset es))"

lemma count_type_mset: "mset es = mset fs \<Longrightarrow> count_type es t = count_type fs t"
  unfolding count_type_def by (metis mset_filter size_mset)

lemma mset_elem_eta [simp]: "\<lparr>elem_type = elem_type e, elem_data = elem_data e\<rparr> = e"
  by (cases e) simp

lemma sort_loop_Some:
  assumes "sorted_add_adds sadd" and "length (mset_count m) = MAX_NTYPES" and "mset_ntypes m \<le> MAX_NTYPES"
    and "list_all (\<lambda>e. elem_type e < mset_ntypes m) es"
  shows "\<exists>m'. sort_loop sadd env m es = Some m' \<and> mset (mset_elems m') = mset (mset_elems m) + mset es
    \<and> (\<forall>t < MAX_NTYPES. mset_count m' ! t = mset_count m ! t + count_type es t)"
  using assms
proof (induction es arbitrary: m)
  case Nil
  then show ?case by simp
next
  case (Cons e es)
  let ?m = "m\<lparr>mset_elems := sadd (rec_mset_elem_compare_fn env m) e (mset_elems m),
              mset_count := count_inc (elem_type e) (mset_count m)\<rparr>"
  have add: "rec_mset_add_sorted sadd env m (elem_type e) (elem_data e) = (True, ?m)"
    using Cons.prems(4) by (simp add: rec_mset_add_sorted_def rec_mset_elem_new_def)
  have t: "elem_type e < MAX_NTYPES" using Cons.prems by simp
  have "count_inc (elem_type e) (mset_count m) ! u =
      mset_count m ! u + (if u = 0 \<or> u = elem_type e then 1 else 0)" if "u < MAX_NTYPES" for u
    using that t Cons.prems(2) by (auto simp: count_inc_def Let_def nth_list_update MAX_NTYPES_def)
  moreover have "length (mset_count ?m) = MAX_NTYPES"
    using Cons.prems(2) by (simp add: count_inc_def Let_def)
  with Cons.prems have "\<exists>m'. sort_loop sadd env ?m es = Some m' \<and> mset (mset_elems m') = mset (mset_elems ?m) + mset es
    \<and> (\<forall>t < MAX_NTYPES. mset_count m' ! t = mset_count ?m ! t + count_type es t)"
    by (intro Cons.IH) simp_all
  ultimately show ?case
    using Cons.prems(1) add by (auto simp: sorted_add_adds_def)
qed

lemma rec_mset_sort_Some:
  assumes "sorted_add_adds sadd" and "mset_wf m"
  shows "\<exists>m'. rec_mset_sort sadd env m = Some m' \<and> mset (mset_elems m') = mset (mset_elems m)
    \<and> (\<forall>t < MAX_NTYPES. mset_count m' ! t = 2 * count_type (mset_elems m') t)"
proof -
  let ?m = "m\<lparr>mset_elems := []\<rparr>"
  have "length (mset_count ?m) = MAX_NTYPES" "mset_ntypes ?m \<le> MAX_NTYPES"
    "list_all (\<lambda>e. elem_type e < mset_ntypes ?m) (mset_elems m)"
    using assms(2) by (simp_all add: mset_wf_def)
  from sort_loop_Some [OF assms(1) this, of env] obtain m' where
    m': "rec_mset_sort sadd env m = Some m'" "mset (mset_elems m') = mset (mset_elems m)"
    and cnt: "\<forall>t < MAX_NTYPES. mset_count m' ! t = mset_count m ! t + count_type (mset_elems m) t"
    by (auto simp: rec_mset_sort_def)
  have "count_type (mset_elems m') t = count_type (mset_elems m) t" for t
    using m'(2) by (rule count_type_mset)
  with m' cnt assms(2) show ?thesis
    by (intro exI [of _ m']) (simp add: mset_wf_count)
qed

section \<open>Insertion after an element\<close>

lemma find_index_Some:
  "find_index P i xs = Some j \<Longrightarrow> i \<le> j \<and> j - i < length xs \<and> P (xs ! (j - i))"
proof (induction xs arbitrary: i)
  case Nil
  then show ?case by simp
next
  case (Cons x xs)
  show ?case
  proof (cases "P x")
    case True
    with Cons.prems show ?thesis by simp
  next
    case False
    with Cons.prems have "find_index P (Suc i) xs = Some j" by simp
    from Cons.IH [OF this] have *: "Suc i \<le> j" "j - Suc i < length xs" "P (xs ! (j - Suc i))" by auto
    then have "j - i = Suc (j - Suc i)" by simp
    with * show ?thesis by simp
  qed
qed

lemma find_index_None: "find_index P i xs = None \<longleftrightarrow> (\<forall>x \<in> set xs. \<not> P x)"
  by (induction xs arbitrary: i) auto

section \<open>The contract of a typed sequence\<close>

locale typed_sequence =
  fixes new :: "'m"
    and insert_at :: "'m \<Rightarrow> nat \<Rightarrow> 'd \<Rightarrow> nat \<Rightarrow> 'm"
    and remove :: "'m \<Rightarrow> nat \<Rightarrow> 'm"
    and count :: "'m \<Rightarrow> nat \<Rightarrow> nat"
    and seq :: "'m \<Rightarrow> (nat \<times> 'd) list"
    and type_ok :: "'m \<Rightarrow> nat \<Rightarrow> bool"
    and invar :: "'m \<Rightarrow> bool"
  assumes invar_new: "invar new" and seq_new: "seq new = []"
    and invar_insert: "invar m \<Longrightarrow> type_ok m t \<Longrightarrow> invar (insert_at m t d p)"
    and seq_insert: "invar m \<Longrightarrow> type_ok m t \<Longrightarrow> seq (insert_at m t d p) = take p (seq m) @ (t, d) # drop p (seq m)"
    and type_ok_insert: "type_ok (insert_at m t d p) u = type_ok m u"
    and invar_remove: "invar m \<Longrightarrow> invar (remove m i)"
    and seq_remove: "invar m \<Longrightarrow> seq (remove m i) = take i (seq m) @ drop (Suc i) (seq m)"
    and count_any: "invar m \<Longrightarrow> count m 0 = length (seq m)"
    and count_type: "invar m \<Longrightarrow> type_ok m t \<Longrightarrow> 0 < t \<Longrightarrow> count m t = length (filter (\<lambda>x. fst x = t) (seq m))"
begin

text \<open>Inserting and removing at the same position restores the sequence.\<close>

lemma seq_remove_insert:
  "invar m \<Longrightarrow> type_ok m t \<Longrightarrow> p \<le> length (seq m) \<Longrightarrow> seq (remove (insert_at m t d p) p) = seq m"
  by (simp add: seq_insert seq_remove invar_insert)

text \<open>Appending a list of elements appends the pairs.\<close>

lemma fold_append:
  assumes "invar m" and "list_all (\<lambda>(t, d). type_ok m t) xs"
  shows "seq (fold (\<lambda>(t, d) m. insert_at m t d (count m 0)) xs m) = seq m @ xs
    \<and> invar (fold (\<lambda>(t, d) m. insert_at m t d (count m 0)) xs m)"
  using assms
proof (induction xs arbitrary: m)
  case Nil
  then show ?case by simp
next
  case (Cons x xs)
  obtain t d where x: "x = (t, d)" by (cases x)
  then have t: "type_ok m t" using Cons.prems(2) by simp
  let ?m = "insert_at m t d (count m 0)"
  have "invar ?m" using Cons.prems(1) t by (rule invar_insert)
  moreover have "seq ?m = seq m @ [(t, d)]"
    using Cons.prems(1) t by (simp add: seq_insert count_any)
  ultimately show ?case
    using Cons.IH [of ?m] Cons.prems(2) by (simp add: x type_ok_insert)
qed

end

definition mset_seq :: "'d rec_mset \<Rightarrow> (nat \<times> 'd) list" where
  "mset_seq m = map (\<lambda>e. (elem_type e, elem_data e)) (mset_elems m)"

interpretation cmset: typed_sequence
  rec_mset_new "\<lambda>m t d p. snd (rec_mset_insert_at m t d p)" "\<lambda>m i. snd (rec_mset_remove_elem m i)"
  rec_mset_count mset_seq rec_mset_type_p mset_wf
proof (standard, goal_cases)
  case 1
  show ?case by simp
next
  case 2
  show ?case by (simp add: mset_seq_def rec_mset_new_def)
next
  case (3 m t d p)
  then show ?case by (simp add: rec_mset_insert_at_wf rec_mset_type_p_def)
next
  case (4 m t d p)
  then show ?case
    by (simp add: rec_mset_insert_at_eq rec_mset_type_p_def mset_seq_def take_map drop_map)
next
  case (5 m t d p u)
  show ?case
    by (simp add: rec_mset_type_p_def rec_mset_insert_at_def Let_def split: option.splits)
next
  case (6 m i)
  then show ?case by (rule rec_mset_remove_elem_wf)
next
  case (7 m i)
  then show ?case
    by (auto simp: rec_mset_remove_elem_def mset_seq_def take_map drop_map)
next
  case (8 m)
  then show ?case by (simp add: rec_mset_count_def mset_wf_count mset_seq_def MAX_NTYPES_def)
next
  case (9 m t)
  then have "t < MAX_NTYPES" by (simp add: rec_mset_type_p_def mset_wf_def)
  with 9 show ?case
    by (simp add: rec_mset_count_def mset_wf_count mset_seq_def count_type_def filter_map comp_def)
qed

end
