(* ===== verification/Rec_Record.thy ===== *)
theory Rec_Record
  imports Rec_Field Rec_Mset_Laws
begin

text \<open>
  Records (\<open>src/rec-record.c\<close>): a multi-set of fields and comments with its localisation.
  A \<open>rec_field_t\<close> argument that points into the record is the position of its element.
  The void pointers stored in the multi-set are \<open>DField\<close> or \<open>DComment\<close> values.
  The container pointer is an abstract address.
\<close>

section \<open>Data\<close>

datatype rdata = DField rec_field | DComment rec_comment

record rec_record =
  record_container :: "nat option"
  record_field_type :: nat
  record_comment_type :: nat
  record_source :: "string option"
  record_location :: size_t
  record_location_str :: "string option"
  record_char_location :: size_t
  record_char_location_str :: "string option"
  record_mset :: "rdata rec_mset"

definition record_field_dup_fn :: "rdata \<Rightarrow> rdata option" where
  "record_field_dup_fn d = (case d of DField f \<Rightarrow> Some (DField (rec_field_dup f)) | DComment c \<Rightarrow> None)"

definition record_comment_dup_fn :: "rdata \<Rightarrow> rdata option" where
  "record_comment_dup_fn d = (case d of DComment c \<Rightarrow> Some (DComment (rec_comment_dup c)) | DField f \<Rightarrow> None)"

definition record_env :: "rdata mset_env" where
  "record_env =
     \<lparr>call_equal = (\<lambda>fn d1 d2. d1 = d2),
      call_dup = (\<lambda>fn d. if fn = ''rec_record_field_dup_fn'' then record_field_dup_fn d
                         else if fn = ''rec_record_comment_dup_fn'' then record_comment_dup_fn d else None),
      call_compare = (\<lambda>fn d1 d2 t. 0)\<rparr>"

text \<open>Registering the two types on a fresh multi-set cannot run out of type slots.\<close>

definition register_or_same ::
  "'d rec_mset \<Rightarrow> string \<Rightarrow> fnptr \<Rightarrow> fnptr \<Rightarrow> fnptr \<Rightarrow> fnptr \<Rightarrow> nat \<times> 'd rec_mset" where
  "register_or_same m n di eq du co =
     (case rec_mset_register_type m n di eq du co of None \<Rightarrow> (0, m) | Some r \<Rightarrow> r)"

definition rec_record_new :: rec_record where
  "rec_record_new =
     (let (ft, m1) = register_or_same rec_mset_new ''field'' (Some ''rec_record_field_disp_fn'')
            (Some ''rec_record_field_equal_fn'') (Some ''rec_record_field_dup_fn'') None;
          (ct, m2) = register_or_same m1 ''comment'' (Some ''rec_record_comment_disp_fn'')
            (Some ''rec_record_comment_equal_fn'') (Some ''rec_record_comment_dup_fn'') None
      in \<lparr>record_container = None, record_field_type = ft, record_comment_type = ct,
          record_source = None, record_location = 0, record_location_str = None,
          record_char_location = 0, record_char_location_str = None, record_mset = m2\<rparr>)"

definition rec_record_dup :: "rec_record \<Rightarrow> rec_record option" where
  "rec_record_dup r =
     (case rec_mset_dup record_env (record_mset r) of
        None \<Rightarrow> None
      | Some m \<Rightarrow>
          Some \<lparr>record_container = record_container r,
                record_field_type = record_field_type r, record_comment_type = record_comment_type r,
                record_source = map_option strdup (record_source r),
                record_location = record_location r,
                record_location_str = map_option strdup (record_location_str r),
                record_char_location = record_char_location r,
                record_char_location_str = map_option strdup (record_char_location_str r),
                record_mset = m\<rparr>)"

section \<open>Comparing records\<close>

text \<open>
  \<open>same\<close> says whether both arguments are the same record. Elements of different multi-sets are
  never equal; within one record two elements are equal when they have the same type and data
  pointer, that is, when they are the same element.
\<close>

definition record_elem_equal_p :: "bool \<Rightarrow> rec_record \<Rightarrow> nat \<Rightarrow> rec_record \<Rightarrow> nat \<Rightarrow> bool" where
  "record_elem_equal_p same r1 i r2 j =
     (if \<not> same \<or> elem_type (mset_elems (record_mset r1) ! i) \<noteq> elem_type (mset_elems (record_mset r2) ! j)
      then False else i = j)"

definition rec_record_subset_p :: "bool \<Rightarrow> rec_record \<Rightarrow> rec_record \<Rightarrow> bool" where
  "rec_record_subset_p same r1 r2 =
     list_all (\<lambda>(i, _). list_ex (\<lambda>(j, _). record_elem_equal_p same r1 i r2 j)
                          (rec_mset_items MSET_ANY (record_mset r2)))
       (rec_mset_items MSET_ANY (record_mset r1))"

definition rec_record_equal_p :: "bool \<Rightarrow> rec_record \<Rightarrow> rec_record \<Rightarrow> bool" where
  "rec_record_equal_p same r1 r2 = (rec_record_subset_p same r1 r2 \<and> rec_record_subset_p same r2 r1)"

section \<open>Counting and looking up fields\<close>

definition rec_record_num_elems :: "rec_record \<Rightarrow> nat" where
  "rec_record_num_elems r = rec_mset_count (record_mset r) MSET_ANY"

definition rec_record_num_fields :: "rec_record \<Rightarrow> nat" where
  "rec_record_num_fields r = rec_mset_count (record_mset r) (record_field_type r)"

definition rec_record_num_comments :: "rec_record \<Rightarrow> nat" where
  "rec_record_num_comments r = rec_mset_count (record_mset r) (record_comment_type r)"

text \<open>The fields an iteration over \<open>MSET_FIELD\<close> visits, with their positions.\<close>

definition as_field :: "rdata \<Rightarrow> rec_field option" where
  "as_field d = (case d of DField f \<Rightarrow> Some f | DComment c \<Rightarrow> None)"

definition rec_record_fields :: "rec_record \<Rightarrow> (nat \<times> rec_field) list" where
  "rec_record_fields r =
     List.map_filter (\<lambda>(i, d). map_option (Pair i) (as_field d)) (rec_mset_items MSET_FIELD (record_mset r))"

fun field_index_loop :: "nat \<Rightarrow> nat \<Rightarrow> (nat \<times> rec_field) list \<Rightarrow> nat" where
  "field_index_loop pos res [] = res"
| "field_index_loop pos res ((i, f) # fs) = (if i = pos then res else field_index_loop pos (Suc res) fs)"

definition rec_record_get_field_index :: "rec_record \<Rightarrow> nat \<Rightarrow> nat" where
  "rec_record_get_field_index r pos = field_index_loop pos 0 (rec_record_fields r)"

definition rec_record_get_num_fields_by_name :: "rec_record \<Rightarrow> string \<Rightarrow> nat" where
  "rec_record_get_num_fields_by_name r n =
     length (filter (\<lambda>(i, f). rec_field_name_equal_p (field_name f) n) (rec_record_fields r))"

definition rec_record_field_p :: "rec_record \<Rightarrow> string \<Rightarrow> bool" where
  "rec_record_field_p r n = (rec_record_get_num_fields_by_name r n > 0)"

fun field_by_name_loop :: "string \<Rightarrow> nat \<Rightarrow> nat \<Rightarrow> (nat \<times> rec_field) list \<Rightarrow> (nat \<times> rec_field) option" where
  "field_by_name_loop n k num [] = None"
| "field_by_name_loop n k num ((i, f) # fs) =
     (if rec_field_name_equal_p (field_name f) n
      then (if k = num then Some (i, f) else field_by_name_loop n k (Suc num) fs)
      else field_by_name_loop n k num fs)"

definition rec_record_get_field_by_name :: "rec_record \<Rightarrow> string \<Rightarrow> nat \<Rightarrow> (nat \<times> rec_field) option" where
  "rec_record_get_field_by_name r n k = field_by_name_loop n k 0 (rec_record_fields r)"

fun field_index_by_name_loop :: "nat \<Rightarrow> rec_field \<Rightarrow> nat \<Rightarrow> (nat \<times> rec_field) list \<Rightarrow> nat" where
  "field_index_by_name_loop pos g res [] = res"
| "field_index_by_name_loop pos g res ((i, f) # fs) =
     (if i = pos then res
      else field_index_by_name_loop pos g (if rec_field_equal_p g f then Suc res else res) fs)"

definition rec_record_get_field_index_by_name :: "rec_record \<Rightarrow> nat \<Rightarrow> rec_field \<Rightarrow> nat" where
  "rec_record_get_field_index_by_name r pos g = field_index_by_name_loop pos g 0 (rec_record_fields r)"

section \<open>Removing fields\<close>

text \<open>
  Removing the current element while iterating: the iteration goes on with the element that
  follows it, which then stands at the same position. \<open>n = -1\<close> asks for every field of the name.
\<close>

function remove_by_name_loop :: "string \<Rightarrow> size_t \<Rightarrow> nat \<Rightarrow> nat \<Rightarrow> rdata rec_mset \<Rightarrow> rdata rec_mset" where
  "remove_by_name_loop name n num i m =
     (if i < length (mset_elems m)
      then (case (elem_type (mset_elems m ! i) = MSET_FIELD, elem_data (mset_elems m ! i)) of
              (True, DField f) \<Rightarrow>
                if rec_field_name_equal_p (field_name f) name
                then if n = -1 \<or> n = of_nat num
                     then remove_by_name_loop name n (Suc num) i (snd (rec_mset_remove_elem m i))
                     else remove_by_name_loop name n (Suc num) (Suc i) m
                else remove_by_name_loop name n num (Suc i) m
            | _ \<Rightarrow> remove_by_name_loop name n num (Suc i) m)
      else m)"
  by pat_completeness auto
termination
  by (relation "measure (\<lambda>(name, n, num, i, m). length (mset_elems m) - i)")
     (auto simp: rec_mset_remove_elem_def)

declare remove_by_name_loop.simps [simp del]

definition rec_record_remove_field_by_name :: "rec_record \<Rightarrow> string \<Rightarrow> size_t \<Rightarrow> rec_record" where
  "rec_record_remove_field_by_name r name n =
     r\<lparr>record_mset := remove_by_name_loop name n 0 0 (record_mset r)\<rparr>"

text \<open>The duplicate removal: a mask is computed first, then the marked fields are removed.\<close>

fun uniq_mark_inner :: "nat \<Rightarrow> rec_field \<Rightarrow> nat \<Rightarrow> (nat \<times> rec_field) list \<Rightarrow> bool list \<Rightarrow> bool list" where
  "uniq_mark_inner i f1 j [] dmask = dmask"
| "uniq_mark_inner i f1 j ((p, f2) # fs) dmask =
     uniq_mark_inner i f1 (Suc j) fs
       (if j \<noteq> i \<and> rec_field_name_equal_p (field_name f1) (field_name f2)
            \<and> rec_field_name_equal_p (field_value f1) (field_value f2)
        then dmask[j := True] else dmask)"

fun uniq_mark :: "(nat \<times> rec_field) list \<Rightarrow> nat \<Rightarrow> (nat \<times> rec_field) list \<Rightarrow> bool list \<Rightarrow> bool list" where
  "uniq_mark all i [] dmask = dmask"
| "uniq_mark all i ((p, f1) # fs) dmask =
     uniq_mark all (Suc i) fs (if \<not> dmask ! i then uniq_mark_inner i f1 0 all dmask else dmask)"

function remove_masked :: "bool list \<Rightarrow> nat \<Rightarrow> nat \<Rightarrow> 'd rec_mset \<Rightarrow> 'd rec_mset" where
  "remove_masked dmask k i m =
     (if i < length (mset_elems m)
      then if elem_type (mset_elems m ! i) = MSET_FIELD
           then if dmask ! k then remove_masked dmask (Suc k) i (snd (rec_mset_remove_elem m i))
                else remove_masked dmask (Suc k) (Suc i) m
           else remove_masked dmask k (Suc i) m
      else m)"
  by pat_completeness auto
termination
  by (relation "measure (\<lambda>(dmask, k, i, m). length (mset_elems m) - i)")
     (auto simp: rec_mset_remove_elem_def)

declare remove_masked.simps [simp del]

definition rec_record_uniq :: "rec_record \<Rightarrow> rec_record" where
  "rec_record_uniq r =
     (let dmask = uniq_mark (rec_record_fields r) 0 (rec_record_fields r)
                   (replicate (rec_record_num_fields r) False)
      in r\<lparr>record_mset := remove_masked dmask 0 0 (record_mset r)\<rparr>)"

section \<open>Localisation and container\<close>

definition rec_record_source :: "rec_record \<Rightarrow> string" where
  "rec_record_source r = (case record_source r of None \<Rightarrow> [] | Some s \<Rightarrow> s)"

definition rec_record_set_source :: "rec_record \<Rightarrow> string option \<Rightarrow> rec_record" where
  "rec_record_set_source r s = r\<lparr>record_source := map_option strdup s\<rparr>"

definition rec_record_location_str :: "rec_record \<Rightarrow> string" where
  "rec_record_location_str r = (case record_location_str r of None \<Rightarrow> [] | Some s \<Rightarrow> s)"

definition rec_record_set_location :: "rec_record \<Rightarrow> size_t \<Rightarrow> rec_record" where
  "rec_record_set_location r l = r\<lparr>record_location := l, record_location_str := Some (show_size l)\<rparr>"

definition rec_record_char_location_str :: "rec_record \<Rightarrow> string" where
  "rec_record_char_location_str r = (case record_char_location_str r of None \<Rightarrow> [] | Some s \<Rightarrow> s)"

definition rec_record_set_char_location :: "rec_record \<Rightarrow> size_t \<Rightarrow> rec_record" where
  "rec_record_set_char_location r l =
     r\<lparr>record_char_location := l, record_char_location_str := Some (show_size l)\<rparr>"

definition rec_record_set_container :: "rec_record \<Rightarrow> nat option \<Rightarrow> rec_record" where
  "rec_record_set_container r c = r\<lparr>record_container := c\<rparr>"

section \<open>Searching values\<close>

fun is_prefix :: "string \<Rightarrow> string \<Rightarrow> bool" where
  "is_prefix [] ys = True"
| "is_prefix (x # xs) [] = False"
| "is_prefix (x # xs) (y # ys) = (x = y \<and> is_prefix xs ys)"

fun strstr_p :: "string \<Rightarrow> string \<Rightarrow> bool" where
  "strstr_p [] needle = is_prefix needle []"
| "strstr_p (c # cs) needle = (is_prefix needle (c # cs) \<or> strstr_p cs needle)"

text \<open>\<open>tolower\<close> in the C locale.\<close>

definition tolower :: "char \<Rightarrow> char" where
  "tolower c = (let n = (of_char c :: nat) in if 65 \<le> n \<and> n \<le> 90 then char_of (n + 32) else c)"

definition strcasestr_p :: "string \<Rightarrow> string \<Rightarrow> bool" where
  "strcasestr_p hay needle = strstr_p (map tolower hay) (map tolower needle)"

definition rec_record_contains_value :: "rec_record \<Rightarrow> string \<Rightarrow> bool \<Rightarrow> bool" where
  "rec_record_contains_value r str case_insensitive =
     list_ex (\<lambda>(i, f). if case_insensitive then strcasestr_p (field_value f) str
                        else strstr_p (field_value f) str) (rec_record_fields r)"

definition rec_record_contains_field :: "rec_record \<Rightarrow> string \<Rightarrow> string \<Rightarrow> bool" where
  "rec_record_contains_field r n v =
     list_ex (\<lambda>(i, f). rec_field_name_equal_p n (field_name f) \<and> v = field_value f) (rec_record_fields r)"

section \<open>Appending and marking\<close>

fun append_fields :: "rdata rec_mset \<Rightarrow> (nat \<times> rec_field) list \<Rightarrow> rdata rec_mset" where
  "append_fields m [] = m"
| "append_fields m ((i, f) # fs) =
     (case rec_mset_append m MSET_FIELD (DField (rec_field_dup f)) MSET_FIELD of
        (None, m') \<Rightarrow> m'
      | (Some _, m') \<Rightarrow> append_fields m' fs)"

definition rec_record_append :: "rec_record \<Rightarrow> rec_record \<Rightarrow> rec_record" where
  "rec_record_append dest src =
     dest\<lparr>record_mset := append_fields (record_mset dest) (rec_record_fields src)\<rparr>"

definition set_elem_mark :: "int \<Rightarrow> rdata mset_elem \<Rightarrow> rdata mset_elem" where
  "set_elem_mark k e =
     (case elem_data e of DField f \<Rightarrow> e\<lparr>elem_data := DField (rec_field_set_mark f k)\<rparr> | DComment c \<Rightarrow> e)"

definition rec_record_reset_marks :: "rec_record \<Rightarrow> rec_record" where
  "rec_record_reset_marks r =
     (let m = record_mset r in
      r\<lparr>record_mset := m\<lparr>mset_elems :=
          map (\<lambda>e. if elem_type e = MSET_FIELD then set_elem_mark 0 e else e) (mset_elems m)\<rparr>\<rparr>)"

definition rec_record_mark_field :: "rec_record \<Rightarrow> nat \<Rightarrow> int \<Rightarrow> bool \<times> rec_record" where
  "rec_record_mark_field r pos k =
     (let m = record_mset r in
      if list_ex (\<lambda>(i, f). i = pos) (rec_record_fields r)
      then (True, r\<lparr>record_mset := m\<lparr>mset_elems := (mset_elems m)[pos := set_elem_mark k (mset_elems m ! pos)]\<rparr>\<rparr>)
      else (False, r))"

end
