(* ===== verification/Rec_Regex.thy ===== *)
theory Rec_Regex
  imports Rec_Prelude
begin

text \<open>
  Extended regular expressions as the sources use them: the fixed patterns of the library are
  terms of \<open>re\<close>, built from bracket expressions, concatenation, alternation and repetition, in
  the C locale and without \<open>REG_NEWLINE\<close>. \<open>re_match\<close> decides a pattern between the anchors
  \<open>^\<close> and \<open>$\<close>, \<open>re_prefix\<close> gives the end of the longest match of a pattern behind \<open>^\<close>, and
  \<open>re_search\<close> the leftmost longest match of a pattern without anchors, as \<open>regexec\<close> does.
  The matcher works with derivatives and is proved correct for the language of the pattern.
\<close>

section \<open>Patterns and their languages\<close>

text \<open>A bracket expression: whether it is negated (\<open>[^...]\<close>), and its ranges of characters.\<close>

datatype re =
    Zero
  | One
  | Cls bool "(char \<times> char) list"
  | Seq re re
  | Alt re re
  | Star re

definition in_range :: "char \<Rightarrow> char \<times> char \<Rightarrow> bool" where
  "in_range c r = ((of_char (fst r) :: nat) \<le> of_char c \<and> (of_char c :: nat) \<le> of_char (snd r))"

definition in_class :: "bool \<Rightarrow> (char \<times> char) list \<Rightarrow> char \<Rightarrow> bool" where
  "in_class neg rs c = (list_ex (in_range c) rs \<noteq> neg)"

inductive re_lang :: "re \<Rightarrow> string \<Rightarrow> bool" where
  One: "re_lang One []"
| Cls: "in_class neg rs c \<Longrightarrow> re_lang (Cls neg rs) [c]"
| Seq: "re_lang r s \<Longrightarrow> re_lang q t \<Longrightarrow> re_lang (Seq r q) (s @ t)"
| AltL: "re_lang r s \<Longrightarrow> re_lang (Alt r q) s"
| AltR: "re_lang q s \<Longrightarrow> re_lang (Alt r q) s"
| StarNil: "re_lang (Star r) []"
| StarCons: "re_lang r s \<Longrightarrow> re_lang (Star r) t \<Longrightarrow> re_lang (Star r) (s @ t)"

inductive_simps re_lang_Zero [simp]: "re_lang Zero s"
inductive_simps re_lang_One [simp]: "re_lang One s"
inductive_simps re_lang_Cls: "re_lang (Cls neg rs) s"
inductive_simps re_lang_Seq: "re_lang (Seq r q) s"
inductive_simps re_lang_Alt: "re_lang (Alt r q) s"
inductive_cases re_lang_StarE: "re_lang (Star r) s"

section \<open>Derived forms\<close>

definition re_char :: "char \<Rightarrow> re" where
  "re_char c = Cls False [(c, c)]"

fun re_string :: "string \<Rightarrow> re" where
  "re_string [] = One"
| "re_string [c] = re_char c"
| "re_string (c # cs) = Seq (re_char c) (re_string cs)"

definition re_plus :: "re \<Rightarrow> re" where "re_plus r = Seq r (Star r)"
definition re_opt :: "re \<Rightarrow> re" where "re_opt r = Alt r One"

fun re_alts :: "re list \<Rightarrow> re" where
  "re_alts [] = Zero"
| "re_alts [r] = r"
| "re_alts (r # rs) = Alt r (re_alts rs)"

fun re_seqs :: "re list \<Rightarrow> re" where
  "re_seqs [] = One"
| "re_seqs [r] = r"
| "re_seqs (r # rs) = Seq r (re_seqs rs)"

section \<open>The matcher\<close>

fun nullable :: "re \<Rightarrow> bool" where
  "nullable Zero = False"
| "nullable One = True"
| "nullable (Cls neg rs) = False"
| "nullable (Seq r q) = (nullable r \<and> nullable q)"
| "nullable (Alt r q) = (nullable r \<or> nullable q)"
| "nullable (Star r) = True"

text \<open>Constructors that drop the trivial cases keep the derivatives small.\<close>

fun mk_seq :: "re \<Rightarrow> re \<Rightarrow> re" where
  "mk_seq Zero q = Zero"
| "mk_seq One q = q"
| "mk_seq r q = Seq r q"

fun mk_alt :: "re \<Rightarrow> re \<Rightarrow> re" where
  "mk_alt Zero q = q"
| "mk_alt r Zero = r"
| "mk_alt r q = (if r = q then r else Alt r q)"

fun deriv :: "char \<Rightarrow> re \<Rightarrow> re" where
  "deriv c Zero = Zero"
| "deriv c One = Zero"
| "deriv c (Cls neg rs) = (if in_class neg rs c then One else Zero)"
| "deriv c (Seq r q) =
     (if nullable r then mk_alt (mk_seq (deriv c r) q) (deriv c q) else mk_seq (deriv c r) q)"
| "deriv c (Alt r q) = mk_alt (deriv c r) (deriv c q)"
| "deriv c (Star r) = mk_seq (deriv c r) (Star r)"

fun re_match :: "re \<Rightarrow> string \<Rightarrow> bool" where
  "re_match r [] = nullable r"
| "re_match r (c # s) = re_match (deriv c r) s"

fun re_prefix :: "re \<Rightarrow> string \<Rightarrow> nat option" where
  "re_prefix r [] = (if nullable r then Some 0 else None)"
| "re_prefix r (c # s) =
     (case re_prefix (deriv c r) s of
        Some n \<Rightarrow> Some (Suc n)
      | None \<Rightarrow> if nullable r then Some 0 else None)"

fun re_search :: "re \<Rightarrow> string \<Rightarrow> (nat \<times> nat) option" where
  "re_search r [] = map_option (\<lambda>n. (0, n)) (re_prefix r [])"
| "re_search r (c # s) =
     (case re_prefix r (c # s) of
        Some n \<Rightarrow> Some (0, n)
      | None \<Rightarrow> map_option (\<lambda>(i, j). (Suc i, Suc j)) (re_search r s))"

section \<open>Correctness of the matcher\<close>

lemma nullable_iff: "nullable r \<longleftrightarrow> re_lang r []"
proof (induction r)
  case (Star r)
  show ?case by (simp add: re_lang.StarNil)
qed (auto simp: re_lang_Cls re_lang_Seq re_lang_Alt)

lemma mk_seq_lang [simp]: "re_lang (mk_seq r q) s \<longleftrightarrow> re_lang (Seq r q) s"
  by (cases r) (simp_all add: re_lang_Seq)

lemma mk_alt_lang [simp]: "re_lang (mk_alt r q) s \<longleftrightarrow> re_lang (Alt r q) s"
  by (cases "(r, q)" rule: mk_alt.cases) (auto simp: re_lang_Alt)

lemma star_Cons: "re_lang (Star r) (c # s) \<longleftrightarrow> (\<exists>t u. s = t @ u \<and> re_lang r (c # t) \<and> re_lang (Star r) u)"
proof
  assume "re_lang (Star r) (c # s)"
  then show "\<exists>t u. s = t @ u \<and> re_lang r (c # t) \<and> re_lang (Star r) u"
  proof (induction "Star r" "c # s" arbitrary: c s rule: re_lang.induct)
    case (StarCons t u)
    show ?case
    proof (cases t)
      case Nil
      with StarCons show ?thesis by auto
    next
      case (Cons d t')
      with StarCons show ?thesis by auto
    qed
  qed
next
  assume "\<exists>t u. s = t @ u \<and> re_lang r (c # t) \<and> re_lang (Star r) u"
  then show "re_lang (Star r) (c # s)" using re_lang.StarCons by fastforce
qed

lemma deriv_lang: "re_lang (deriv c r) s \<longleftrightarrow> re_lang r (c # s)"
proof (induction r arbitrary: s)
  case (Cls neg rs)
  then show ?case by (auto simp: re_lang_Cls)
next
  case (Seq r q)
  have "re_lang (Seq r q) (c # s) \<longleftrightarrow>
      (\<exists>t u. s = t @ u \<and> re_lang r (c # t) \<and> re_lang q u) \<or> re_lang r [] \<and> re_lang q (c # s)"
    by (auto simp: re_lang_Seq Cons_eq_append_conv)
  with Seq show ?case by (auto simp: re_lang_Seq re_lang_Alt nullable_iff)
next
  case (Star r)
  then show ?case by (auto simp: star_Cons re_lang_Seq)
qed (auto simp: re_lang_Alt)

lemma re_match_iff: "re_match r s \<longleftrightarrow> re_lang r s"
  by (induction s arbitrary: r) (simp_all add: nullable_iff deriv_lang)

text \<open>The longest prefix in the language.\<close>

lemma re_prefix_None: "re_prefix r s = None \<longleftrightarrow> (\<forall>n \<le> length s. \<not> re_lang r (take n s))"
proof (induction s arbitrary: r)
  case Nil
  then show ?case by (simp add: nullable_iff)
next
  case (Cons c s)
  have "(\<forall>n \<le> length (c # s). \<not> re_lang r (take n (c # s))) \<longleftrightarrow>
      \<not> re_lang r [] \<and> (\<forall>n \<le> length s. \<not> re_lang r (c # take n s))"
    by (auto simp: take_Cons split: nat.splits)
  moreover have "re_prefix r (c # s) = None \<longleftrightarrow> re_prefix (deriv c r) s = None \<and> \<not> nullable r"
    by (auto split: option.splits)
  moreover have "re_prefix (deriv c r) s = None \<longleftrightarrow> (\<forall>n \<le> length s. \<not> re_lang r (c # take n s))"
    using Cons [of "deriv c r"] by (simp add: deriv_lang)
  ultimately show ?case by (auto simp: nullable_iff)
qed

lemma re_prefix_Some:
  "re_prefix r s = Some n \<longleftrightarrow> n \<le> length s \<and> re_lang r (take n s) \<and> (\<forall>m \<le> length s. n < m \<longrightarrow> \<not> re_lang r (take m s))"
proof (induction s arbitrary: r n)
  case Nil
  then show ?case by (auto simp: nullable_iff)
next
  case (Cons c s)
  have shift: "(\<forall>m \<le> length (c # s). k < m \<longrightarrow> \<not> re_lang r (take m (c # s))) \<longleftrightarrow>
      (\<forall>m \<le> length s. k < Suc m \<longrightarrow> \<not> re_lang r (c # take m s))" for k
    by (auto simp: take_Cons split: nat.splits)
  show ?case
  proof (cases n)
    case 0
    have "re_prefix r (c # s) = Some 0 \<longleftrightarrow> re_prefix (deriv c r) s = None \<and> nullable r"
      by (auto split: option.splits)
    with 0 shift [of 0] show ?thesis by (auto simp: re_prefix_None nullable_iff deriv_lang)
  next
    case (Suc k)
    have "re_prefix r (c # s) = Some (Suc k) \<longleftrightarrow> re_prefix (deriv c r) s = Some k"
      by (auto split: option.splits)
    with Suc shift [of "Suc k"] Cons show ?thesis by (auto simp: deriv_lang)
  qed
qed

lemma re_prefix_le: "re_prefix r s = Some n \<Longrightarrow> n \<le> length s"
  by (simp add: re_prefix_Some)

text \<open>The leftmost longest match.\<close>

lemma re_search_Some:
  "re_search r s = Some (i, j) \<Longrightarrow>
   i \<le> j \<and> j \<le> length s \<and> re_prefix r (drop i s) = Some (j - i) \<and> (\<forall>k < i. re_prefix r (drop k s) = None)"
proof (induction s arbitrary: i j)
  case Nil
  then show ?case by (auto dest: re_prefix_le split: if_splits)
next
  case (Cons c s)
  show ?case
  proof (cases "re_prefix r (c # s)")
    case (Some n)
    with Cons.prems have "i = 0" "j = n" by (simp_all del: re_prefix.simps)
    with Some re_prefix_le [OF Some] show ?thesis by (simp del: re_prefix.simps)
  next
    case None
    with Cons.prems obtain i' j' where ij: "re_search r s = Some (i', j')" "i = Suc i'" "j = Suc j'" by auto
    have "re_prefix r (drop k (c # s)) = None" if "k < Suc i'" for k
      using that None Cons.IH [OF ij(1)] by (cases k) auto
    with Cons.IH [OF ij(1)] ij show ?thesis by auto
  qed
qed

lemma re_search_None: "re_search r s = None \<longleftrightarrow> (\<forall>i \<le> length s. re_prefix r (drop i s) = None)"
proof (induction s)
  case (Cons c s)
  have "(\<forall>i \<le> length (c # s). re_prefix r (drop i (c # s)) = None) \<longleftrightarrow>
      re_prefix r (c # s) = None \<and> (\<forall>i \<le> length s. re_prefix r (drop i s) = None)"
    by (auto simp: drop_Cons split: nat.splits)
  with Cons show ?case by (auto split: option.splits)
qed simp

section \<open>Languages of the derived forms\<close>

lemma re_lang_char [simp]: "re_lang (re_char c) s \<longleftrightarrow> s = [c]"
proof -
  have "(of_char d :: nat) = of_char c \<longleftrightarrow> d = c" for d by (rule of_char_eq_iff)
  then have "in_class False [(c, c)] d \<longleftrightarrow> d = c" for d
    by (auto simp: in_class_def in_range_def dest: antisym)
  then show ?thesis by (auto simp: re_char_def re_lang_Cls)
qed

lemma re_lang_string [simp]: "re_lang (re_string w) s \<longleftrightarrow> s = w"
  by (induction w arbitrary: s rule: re_string.induct) (auto simp: re_lang_Seq)

lemma re_lang_opt [simp]: "re_lang (re_opt r) s \<longleftrightarrow> re_lang r s \<or> s = []"
  by (auto simp: re_opt_def re_lang_Alt)

lemma re_lang_star_cls: "re_lang (Star (Cls neg rs)) s \<longleftrightarrow> list_all (in_class neg rs) s"
proof (induction s)
  case Nil
  then show ?case by (simp add: re_lang.StarNil)
next
  case (Cons c s)
  then show ?case by (auto simp: star_Cons re_lang_Cls)
qed

lemma re_lang_Seq_triv [simp]: "re_lang (Seq One q) s \<longleftrightarrow> re_lang q s" "re_lang (Seq Zero q) s \<longleftrightarrow> False"
  by (auto simp: re_lang_Seq)

lemma re_lang_Seq_Cls:
  "re_lang (Seq (Cls neg rs) q) s \<longleftrightarrow> (case s of [] \<Rightarrow> False | c # t \<Rightarrow> in_class neg rs c \<and> re_lang q t)"
proof (cases s)
  case (Cons c t)
  then show ?thesis
    using deriv_lang [of c "Seq (Cls neg rs) q" t] by (cases "in_class neg rs c") auto
qed (simp add: re_lang_Seq re_lang_Cls)

lemma re_lang_plus_cls: "re_lang (re_plus (Cls neg rs)) s \<longleftrightarrow> s \<noteq> [] \<and> list_all (in_class neg rs) s"
  by (cases s) (simp_all add: re_plus_def re_lang_Seq_Cls re_lang_star_cls)

end
