(* ===== verification/Rec_Utils.thy ===== *)
theory Rec_Utils
  imports Rec_Regex Rec_Field "HOL-Library.Signed_Division"
begin

unbundle bit_operations_syntax

text \<open>
  The shared parsing utilities of \<open>src/rec-utils.c\<close>, with the patterns of \<open>rec.h\<close> and
  \<open>rec-utils.h\<close>, and the checks on field names of \<open>src/rec-field-name.c\<close>. A \<open>const char **\<close> that
  moves through a string is the rest of the string, returned with the result. \<open>strtol\<close> with
  base 0 is modelled in full; \<open>int\<close> has 32 bits and \<open>long\<close> 64.
\<close>

section \<open>Patterns\<close>

text \<open>\<open>^r\<close>, \<open>^r$\<close> and \<open>r\<close>; the result of \<open>regexec\<close> is the start and the end of the match.\<close>

datatype pattern = Begin re | Whole re | Anywhere re

fun regexec :: "pattern \<Rightarrow> string \<Rightarrow> (nat \<times> nat) option" where
  "regexec (Begin r) s = map_option (Pair 0) (re_prefix r s)"
| "regexec (Whole r) s = (if re_match r s then Some (0, length s) else None)"
| "regexec (Anywhere r) s = re_search r s"

definition BLANK_CLS :: re where "BLANK_CLS = Cls False [(CHR '' '', CHR '' ''), (TAB, TAB), (NL, NL)]"
definition DIGIT_CLS :: re where "DIGIT_CLS = Cls False [(CHR ''0'', CHR ''9'')]"

definition REC_FNAME_RE :: re where
  "REC_FNAME_RE =
     Seq (Cls False [(CHR ''a'', CHR ''z''), (CHR ''A'', CHR ''Z''), (CHR ''%'', CHR ''%'')])
         (Star (Cls False [(CHR ''a'', CHR ''z''), (CHR ''A'', CHR ''Z''), (CHR ''0'', CHR ''9''), (CHR ''_'', CHR ''_'')]))"

definition REC_TYPE_NAME_RE :: re where
  "REC_TYPE_NAME_RE =
     Seq (Cls False [(CHR ''a'', CHR ''z''), (CHR ''A'', CHR ''Z'')])
         (Star (Cls False [(CHR ''a'', CHR ''z''), (CHR ''A'', CHR ''Z''), (CHR ''0'', CHR ''9''),
                           (CHR ''_'', CHR ''_''), (CHR ''-'', CHR ''-'')]))"

definition REC_URL_REGEXP :: re where
  "REC_URL_REGEXP =
     re_seqs [re_alts [re_string ''file'', re_string ''http'', re_string ''ftp'', re_string ''https''],
              re_string ''://'', re_plus (Cls True [(CHR '' '', CHR '' ''), (TAB, TAB)])]"

definition REC_FILE_REGEXP :: re where
  "REC_FILE_REGEXP =
     re_plus (Seq (re_opt (re_char CHR ''/''))
                  (re_plus (Cls True [(CHR ''/'', CHR ''/''), (CHR '' '', CHR '' ''), (TAB, TAB), (NL, NL)])))"

definition REC_INT_RE :: re where
  "REC_INT_RE =
     Seq (re_opt (re_char CHR ''-''))
         (Alt (Seq (re_string ''0x'') (re_plus (Cls False [(CHR ''0'', CHR ''9''), (CHR ''a'', CHR ''f''), (CHR ''A'', CHR ''F'')])))
              (re_plus DIGIT_CLS))"

definition REC_INT_SIZE_RE :: re where
  "REC_INT_SIZE_RE =
     re_seqs [Star BLANK_CLS,
              re_opt (re_alts [re_string ''>'', re_string ''<'', re_string ''>='', re_string ''<='']),
              Star BLANK_CLS, REC_INT_RE, Star BLANK_CLS]"

section \<open>Characters\<close>

definition rec_blank_p :: "char \<Rightarrow> bool" where
  "rec_blank_p c = (c = CHR '' '' \<or> c = NL \<or> c = TAB)"

definition rec_digit_p :: "char \<Rightarrow> bool" where
  "rec_digit_p c = (schar c \<ge> schar CHR ''0'' \<and> schar c \<le> schar CHR ''9'')"

definition rec_letter_p :: "char \<Rightarrow> bool" where
  "rec_letter_p c =
     ((schar c \<ge> schar CHR ''a'' \<and> schar c \<le> schar CHR ''z'')
      \<or> (schar c \<ge> schar CHR ''A'' \<and> schar c \<le> schar CHR ''Z''))"

text \<open>\<open>*p\<close>: the next character, NUL at the end of the string.\<close>

definition peek :: "string \<Rightarrow> char" where
  "peek s = (case s of [] \<Rightarrow> NUL | c # cs \<Rightarrow> c)"

definition rec_skip_blanks :: "string \<Rightarrow> string" where
  "rec_skip_blanks s = dropWhile rec_blank_p s"

section \<open>Numbers\<close>

definition isspace :: "char \<Rightarrow> bool" where
  "isspace c = (let n = (of_char c :: nat) in n = 32 \<or> (9 \<le> n \<and> n \<le> 13))"

definition digit_value :: "char \<Rightarrow> nat" where
  "digit_value c =
     (let n = (of_char c :: nat) in
      if 48 \<le> n \<and> n \<le> 57 then n - 48
      else if 97 \<le> n \<and> n \<le> 122 then n - 87
      else if 65 \<le> n \<and> n \<le> 90 then n - 55
      else 99)"

definition digits_value :: "nat \<Rightarrow> string \<Rightarrow> int" where
  "digits_value base ds = foldl (\<lambda>n c. n * int base + int (digit_value c)) 0 ds"

text \<open>\<open>strtol\<close> with base 0: the value, clamped to a \<open>long\<close>, and the rest of the string.\<close>

definition hex_prefix :: "string \<Rightarrow> bool" where
  "hex_prefix s =
     (length s > 2 \<and> s ! 0 = CHR ''0'' \<and> (s ! 1 = CHR ''x'' \<or> s ! 1 = CHR ''X'') \<and> digit_value (s ! 2) < 16)"

definition strtol_base :: "string \<Rightarrow> nat" where
  "strtol_base s = (if hex_prefix s then 16 else if peek s = CHR ''0'' then 8 else 10)"

definition strtol :: "string \<Rightarrow> int \<times> string" where
  "strtol s =
     (let s1 = dropWhile isspace s;
          neg = (peek s1 = CHR ''-'');
          s2 = (if peek s1 = CHR ''-'' \<or> peek s1 = CHR ''+'' then tl s1 else s1);
          base = strtol_base s2;
          s3 = (if hex_prefix s2 then drop 2 s2 else s2);
          ds = takeWhile (\<lambda>c. digit_value c < base) s3
      in if ds = [] then (0, s)
         else let v = (if neg then - digits_value base ds else digits_value base ds)
              in (max (- (2 ^ 63)) (min (2 ^ 63 - 1) v), dropWhile (\<lambda>c. digit_value c < base) s3))"

text \<open>The cast \<open>(int) li\<close>.\<close>

definition int32 :: "int \<Rightarrow> int" where
  "int32 n = (n + 2 ^ 31) mod 2 ^ 32 - 2 ^ 31"

definition rec_atoi :: "string \<Rightarrow> int option" where
  "rec_atoi s = (case strtol s of (li, rest) \<Rightarrow> if s \<noteq> [] \<and> rest = [] then Some (int32 li) else None)"

text \<open>
  The characters \<open>rec_parse_int\<close> copies into its local buffer: a sign in the first position,
  digits, letters \<open>a\<close> to \<open>f\<close> and \<open>x\<close> in both cases. The buffer has 30 bytes and the copy is not
  bounded; \<open>parse_int_fits\<close> says that it stays inside.
\<close>

definition int_char :: "char \<Rightarrow> bool" where
  "int_char c =
     (rec_digit_p c \<or> (schar c \<ge> schar CHR ''a'' \<and> schar c \<le> schar CHR ''f'')
      \<or> (schar c \<ge> schar CHR ''A'' \<and> schar c \<le> schar CHR ''F'') \<or> c = CHR ''x'' \<or> c = CHR ''X'')"

definition int_span :: "string \<Rightarrow> string" where
  "int_span s = (if peek s = CHR ''-'' then CHR ''-'' # takeWhile int_char (tl s) else takeWhile int_char s)"

definition parse_int_fits :: "string \<Rightarrow> bool" where
  "parse_int_fits s = (length (int_span s) < 30)"

definition rec_parse_int :: "string \<Rightarrow> (int \<times> string) option" where
  "rec_parse_int s =
     (let number = int_span s in
      case rec_atoi number of
        None \<Rightarrow> None
      | Some n \<Rightarrow> Some (n, drop (length number) s))"

section \<open>Matching\<close>

definition rec_parse_regexp :: "pattern \<Rightarrow> string \<Rightarrow> (string \<times> string) option" where
  "rec_parse_regexp pat s =
     (case regexec pat s of None \<Rightarrow> None | Some (so, eo) \<Rightarrow> Some (take eo s, drop eo s))"

definition rec_match :: "string \<Rightarrow> pattern \<Rightarrow> bool" where
  "rec_match s pat = (regexec pat s \<noteq> None)"

definition rec_extract_file :: "string \<Rightarrow> string option" where
  "rec_extract_file s =
     (case regexec (Anywhere (Seq BLANK_CLS REC_FILE_REGEXP)) s of
        None \<Rightarrow> None
      | Some (so, eo) \<Rightarrow> Some (take (eo - so - 1) (drop (so + 1) s)))"

definition rec_extract_url :: "string \<Rightarrow> string option" where
  "rec_extract_url s =
     (case regexec (Anywhere REC_URL_REGEXP) s of
        None \<Rightarrow> None | Some (so, eo) \<Rightarrow> Some (take (eo - so) (drop so s)))"

definition rec_extract_type :: "string \<Rightarrow> string option" where
  "rec_extract_type s =
     (case regexec (Anywhere REC_FNAME_RE) s of
        None \<Rightarrow> None | Some (so, eo) \<Rightarrow> Some (take (eo - so) (drop so s)))"

section \<open>Sizes\<close>

datatype rec_size_condition_e = SIZE_COND_E | SIZE_COND_L | SIZE_COND_LE | SIZE_COND_G | SIZE_COND_GE

definition CONDITION_RE :: pattern where
  "CONDITION_RE = Begin (Seq (Cls False [(CHR ''>'', CHR ''>''), (CHR ''<'', CHR ''<'')]) (re_opt (re_char CHR ''='')))"

text \<open>
  The result of \<open>rec_parse_int\<close> is not checked: when it fails the returned variable has never
  been assigned, which is \<open>None\<close> here.
\<close>

definition rec_extract_size :: "string \<Rightarrow> size_t option" where
  "rec_extract_size s =
     (if \<not> rec_match s (Whole REC_INT_SIZE_RE) then Some 0
      else
        let p = rec_skip_blanks s;
            p1 = (case rec_parse_regexp CONDITION_RE p of None \<Rightarrow> p | Some (_, q) \<Rightarrow> q);
            p2 = rec_skip_blanks p1
        in map_option (\<lambda>(n, _). word_of_int n) (rec_parse_int p2))"

definition rec_extract_size_condition :: "string \<Rightarrow> rec_size_condition_e" where
  "rec_extract_size_condition s =
     (if \<not> rec_match s (Whole REC_INT_SIZE_RE) then SIZE_COND_E
      else case rec_parse_regexp CONDITION_RE (rec_skip_blanks s) of
             None \<Rightarrow> SIZE_COND_E
           | Some (c, _) \<Rightarrow>
               if c = ''>'' then SIZE_COND_G else if c = ''>='' then SIZE_COND_GE
               else if c = ''<'' then SIZE_COND_L else if c = ''<='' then SIZE_COND_LE
               else SIZE_COND_E)"

section \<open>Miscellanea\<close>

text \<open>A \<open>struct timespec\<close> is its seconds and nanoseconds.\<close>

definition rec_timespec_subtract :: "int \<times> int \<Rightarrow> int \<times> int \<Rightarrow> bool \<times> int \<times> int" where
  "rec_timespec_subtract x y =
     (let sec = fst x - fst y; nsec = snd x - snd y;
          (sec, nsec) = (if nsec < 0 then (sec - 1, nsec + 1000000000) else (sec, nsec))
      in (sec < 0, sec, nsec))"

definition rec_endian_swap :: "32 word \<Rightarrow> 32 word" where
  "rec_endian_swap number =
     (drop_bit 24 number) OR ((push_bit 8 number) AND 0x00FF0000)
       OR ((drop_bit 8 number) AND 0x0000FF00) OR (push_bit 24 number)"

definition rec_concat_strings :: "string \<Rightarrow> string \<Rightarrow> string \<Rightarrow> string" where
  "rec_concat_strings s1 s2 s3 = s1 @ s2 @ s3"

section \<open>Field names\<close>

definition rec_field_name_p :: "string \<Rightarrow> bool" where
  "rec_field_name_p s = rec_match s (Whole REC_FNAME_RE)"

text \<open>\<open>isalnum\<close> in the C locale.\<close>

definition isalnum :: "char \<Rightarrow> bool" where
  "isalnum c = (rec_letter_p c \<or> rec_digit_p c)"

definition rec_field_name_normalise :: "string \<Rightarrow> string option" where
  "rec_field_name_normalise s =
     (let n = map (\<lambda>c. if isalnum c \<or> c = CHR ''_'' \<or> c = CHR ''-'' \<or> c = CHR ''%'' then c else CHR ''_'') s
      in if rec_field_name_p n then Some n else None)"

end
