(* ===== verification/Rec_Buf.thy ===== *)
theory Rec_Buf
  imports Rec_Prelude
begin

text \<open>
  The growable character buffer of \<open>src/rec-buf.c\<close>, used by the parser, the writer and the
  field expressions. A buffer is its storage (the initialised prefix of the \<open>data\<close> array),
  the allocated size and the number of used bytes; allocation is assumed to succeed.
  The locale \<open>char_buffer\<close> is the contract the clients rely on, and the C buffer is an
  interpretation of it.
\<close>

section \<open>The buffer\<close>

definition REC_BUF_STEP :: nat where "REC_BUF_STEP = 512"

record rec_buf =
  buf_data :: string
  buf_size :: nat
  buf_used :: nat

definition rec_buf_new :: rec_buf where
  "rec_buf_new = \<lparr>buf_data = [], buf_size = REC_BUF_STEP, buf_used = 0\<rparr>"

text \<open>
  \<open>rec_buf_close\<close> hands the used bytes to the caller, followed by a NUL; the caller sees the
  C string and its length.
\<close>

definition rec_buf_close :: "rec_buf \<Rightarrow> string" where
  "rec_buf_close b = take (buf_used b) (buf_data b)"

text \<open>
  The guard \<open>(buf->used - n) >= 0\<close> compares a \<open>size_t\<close> with 0 and always holds, so the
  subtraction is unconditional and modulo \<open>2 ^ 64\<close>.
\<close>

definition rec_buf_rewind :: "rec_buf \<Rightarrow> nat \<Rightarrow> rec_buf" where
  "rec_buf_rewind b n = b\<lparr>buf_used := unat (of_nat (buf_used b) - of_nat n :: size_t)\<rparr>"

definition rec_buf_putc :: "int \<Rightarrow> rec_buf \<Rightarrow> int \<times> rec_buf" where
  "rec_buf_putc c b =
     (if c = EOF then (EOF, b)
      else
        let b1 = (if buf_used b + 1 > buf_size b
                  then b\<lparr>buf_size := buf_size b + REC_BUF_STEP\<rparr> else b)
        in (c, b1\<lparr>buf_data := take (buf_used b1) (buf_data b1) @ [char_of_int c],
                  buf_used := buf_used b1 + 1\<rparr>))"

fun rec_buf_puts_loop :: "string \<Rightarrow> int \<Rightarrow> rec_buf \<Rightarrow> int \<times> rec_buf" where
  "rec_buf_puts_loop [] ret b = (ret, b)"
| "rec_buf_puts_loop (c # cs) ret b =
     (if c = NUL then (ret, b)
      else (case rec_buf_putc (schar c) b of (r, b') \<Rightarrow>
              if r = EOF then (-1, b') else rec_buf_puts_loop cs (ret + 1) b'))"

definition rec_buf_puts :: "string \<Rightarrow> rec_buf \<Rightarrow> int \<times> rec_buf" where
  "rec_buf_puts s b = rec_buf_puts_loop s 0 b"

section \<open>The storage invariant\<close>

definition rec_buf_wf :: "rec_buf \<Rightarrow> bool" where
  "rec_buf_wf b \<longleftrightarrow> buf_used b \<le> length (buf_data b) \<and> buf_used b \<le> buf_size b"

lemma rec_buf_new_wf [simp]: "rec_buf_wf rec_buf_new"
  by (simp add: rec_buf_wf_def rec_buf_new_def)

lemma rec_buf_putc_wf: "rec_buf_wf b \<Longrightarrow> rec_buf_wf (snd (rec_buf_putc c b))"
  by (auto simp: rec_buf_wf_def rec_buf_putc_def Let_def REC_BUF_STEP_def)

lemma unat_of_nat_diff:
  "n \<le> k \<Longrightarrow> k < 2 ^ 64 \<Longrightarrow> unat (of_nat k - of_nat n :: size_t) = k - n"
proof -
  assume "n \<le> k" and "k < 2 ^ 64"
  then have "(k - n) mod 2 ^ LENGTH(64) = k - n" by simp
  then have "unat (of_nat (k - n) :: size_t) = k - n" by (simp only: unat_of_nat)
  with \<open>n \<le> k\<close> show ?thesis by (simp only: of_nat_diff)
qed

lemma rec_buf_rewind_wf:
  "rec_buf_wf b \<Longrightarrow> n \<le> buf_used b \<Longrightarrow> buf_used b < 2 ^ 64 \<Longrightarrow> rec_buf_wf (rec_buf_rewind b n)"
  by (auto simp: rec_buf_wf_def rec_buf_rewind_def unat_of_nat_diff)

section \<open>The contract of a character buffer\<close>

locale char_buffer =
  fixes new :: "'b"
    and putc :: "int \<Rightarrow> 'b \<Rightarrow> int \<times> 'b"
    and rewind :: "'b \<Rightarrow> nat \<Rightarrow> 'b"
    and contents :: "'b \<Rightarrow> string"
    and invar :: "'b \<Rightarrow> bool"
  assumes invar_new: "invar new"
    and contents_new: "contents new = []"
    and putc_EOF: "putc EOF b = (EOF, b)"
    and putc_ret: "c \<noteq> EOF \<Longrightarrow> fst (putc c b) \<noteq> EOF"
    and invar_putc: "invar b \<Longrightarrow> invar (snd (putc c b))"
    and contents_putc: "invar b \<Longrightarrow> c \<noteq> EOF \<Longrightarrow> contents (snd (putc c b)) = contents b @ [char_of_int c]"
    and invar_rewind: "invar b \<Longrightarrow> n \<le> length (contents b) \<Longrightarrow> length (contents b) < 2 ^ 64 \<Longrightarrow> invar (rewind b n)"
    and contents_rewind: "invar b \<Longrightarrow> n \<le> length (contents b) \<Longrightarrow> length (contents b) < 2 ^ 64 \<Longrightarrow>
      contents (rewind b n) = take (length (contents b) - n) (contents b)"
begin

text \<open>Writing a string one character at a time appends it, and stripping it again restores the buffer.\<close>

lemma fold_putc:
  assumes "invar b" and "CHR 0xFF \<notin> set s"
  shows "contents (fold (\<lambda>c b. snd (putc (schar c) b)) s b) = contents b @ s
    \<and> invar (fold (\<lambda>c b. snd (putc (schar c) b)) s b)"
  using assms
proof (induction s arbitrary: b)
  case Nil
  then show ?case by simp
next
  case (Cons c s)
  then have "schar c \<noteq> EOF" by (auto simp: schar_EOF_iff)
  with Cons show ?case by (simp add: invar_putc contents_putc)
qed

lemma rewind_fold_putc:
  assumes "invar b" and "CHR 0xFF \<notin> set s" and "length (contents b) + length s < 2 ^ 64"
  shows "contents (rewind (fold (\<lambda>c b. snd (putc (schar c) b)) s b) (length s)) = contents b"
  using fold_putc [OF assms(1,2)] assms(3) by (simp add: contents_rewind)

end

interpretation cbuf: char_buffer rec_buf_new rec_buf_putc rec_buf_rewind rec_buf_close rec_buf_wf
proof (standard, goal_cases)
  case 1
  show ?case by simp
next
  case 2
  show ?case by (simp add: rec_buf_close_def rec_buf_new_def)
next
  case (3 b)
  show ?case by (simp add: rec_buf_putc_def)
next
  case (4 c b)
  then show ?case by (simp add: rec_buf_putc_def Let_def)
next
  case (5 b c)
  then show ?case by (rule rec_buf_putc_wf)
next
  case (6 b c)
  then show ?case
    by (auto simp: rec_buf_wf_def rec_buf_close_def rec_buf_putc_def Let_def)
next
  case (7 b n)
  then show ?case by (intro rec_buf_rewind_wf) (auto simp: rec_buf_close_def rec_buf_wf_def)
next
  case (8 b n)
  then show ?case
    by (auto simp: rec_buf_close_def rec_buf_wf_def rec_buf_rewind_def unat_of_nat_diff min_def)
qed

section \<open>Writing strings\<close>

lemma rec_buf_puts_loop_ok:
  "rec_buf_wf b \<Longrightarrow> cstring s \<Longrightarrow> CHR 0xFF \<notin> set s \<Longrightarrow>
   rec_buf_puts_loop s ret b = (ret + int (length s), fold (\<lambda>c b. snd (rec_buf_putc (schar c) b)) s b)"
proof (induction s arbitrary: ret b)
  case Nil
  then show ?case by simp
next
  case (Cons c s)
  then have c: "schar c \<noteq> EOF" "c \<noteq> NUL" by (auto simp: schar_EOF_iff)
  have r: "fst (rec_buf_putc (schar c) b) \<noteq> EOF"
    using c(1) by (rule cbuf.putc_ret)
  show ?case
    using Cons c(2) r rec_buf_putc_wf [of b "schar c"]
    by (simp add: case_prod_beta)
qed

lemma rec_buf_puts_contents:
  assumes "rec_buf_wf b" and "cstring s" and "CHR 0xFF \<notin> set s"
  shows "fst (rec_buf_puts s b) = int (length s)"
    and "rec_buf_close (snd (rec_buf_puts s b)) = rec_buf_close b @ s"
    and "rec_buf_wf (snd (rec_buf_puts s b))"
  using rec_buf_puts_loop_ok [OF assms, of 0] cbuf.fold_putc [OF assms(1,3)]
  by (simp_all add: rec_buf_puts_def)

end
