(* ===== verification/Rec_Fex.thy ===== *)
theory Rec_Fex
  imports Rec_Utils Rec_Buf
begin

text \<open>
  Field expressions (\<open>src/rec-fex.c\<close>): lists of field names with optional subscripts,
  function calls and rewrite rules, in three syntaxes. The array \<open>elems\<close> is the list of its
  first \<open>num_elems\<close> entries; it has room for \<open>REC_FEX_MAX_ELEMS\<close> of them, which only
  \<open>rec_fex_append\<close> checks: \<open>fex_fits\<close> says that the array is not overrun.
\<close>

section \<open>Data\<close>

datatype rec_fex_kind_e = REC_FEX_SIMPLE | REC_FEX_CSV | REC_FEX_SUBSCRIPTS

record rec_fex_elem =
  fex_elem_str :: "string option"
  fex_elem_field_name :: "string option"
  fex_elem_rewrite_to :: "string option"
  fex_elem_max :: int
  fex_elem_min :: int
  fex_elem_function_name :: "string option"

record rec_fex =
  fex_str :: "string option"
  fex_elems :: "rec_fex_elem list"

definition REC_FEX_MAX_ELEMS :: nat where "REC_FEX_MAX_ELEMS = 256"

definition fex_fits :: "rec_fex \<Rightarrow> bool" where
  "fex_fits fex = (length (fex_elems fex) \<le> REC_FEX_MAX_ELEMS)"

section \<open>Patterns\<close>

definition REC_FNAME_FEX_RE :: re where
  "REC_FNAME_FEX_RE = Seq REC_FNAME_RE (re_opt (Seq (re_char CHR ''.'') REC_FNAME_RE))"

definition REC_FNAME_LIST_RE :: re where
  "REC_FNAME_LIST_RE = Seq REC_FNAME_RE (Star (Seq (re_plus BLANK_CLS) REC_FNAME_RE))"

definition REC_FNAME_LIST_CS_RE :: re where
  "REC_FNAME_LIST_CS_RE = Seq REC_FNAME_FEX_RE (Star (Seq (re_char CHR '','') REC_FNAME_FEX_RE))"

definition REC_FNAME_SUB_RE :: re where
  "REC_FNAME_SUB_RE =
     Seq REC_FNAME_FEX_RE
       (re_opt (re_seqs [re_char CHR ''['', re_plus DIGIT_CLS,
                         re_opt (Seq (re_char CHR ''-'') (re_plus DIGIT_CLS)), re_char CHR '']'']))"

definition REC_FEX_FUNCTION_NAME :: re where
  "REC_FEX_FUNCTION_NAME =
     Seq (Cls False [(CHR ''a'', CHR ''z''), (CHR ''A'', CHR ''Z''), (CHR ''_'', CHR ''_'')])
         (Star (Cls False [(CHR ''a'', CHR ''z''), (CHR ''A'', CHR ''Z''), (CHR ''0'', CHR ''9''), (CHR ''_'', CHR ''_'')]))"

definition REC_FEX_CALL :: re where
  "REC_FEX_CALL =
     re_seqs [REC_FEX_FUNCTION_NAME, re_char CHR ''('', REC_FNAME_FEX_RE, re_char CHR '')'']"

definition REC_FNAME_LIST_SUB_ELEM_RE :: re where
  "REC_FNAME_LIST_SUB_ELEM_RE =
     Seq (Alt REC_FNAME_SUB_RE REC_FEX_CALL) (re_opt (Seq (re_char CHR '':'') REC_FNAME_FEX_RE))"

definition REC_FNAME_LIST_SUB_RE :: re where
  "REC_FNAME_LIST_SUB_RE =
     Seq REC_FNAME_LIST_SUB_ELEM_RE (Star (Seq (re_char CHR '','') REC_FNAME_LIST_SUB_ELEM_RE))"

definition rec_fex_check :: "string \<Rightarrow> rec_fex_kind_e \<Rightarrow> bool" where
  "rec_fex_check s kind =
     rec_match s
       (case kind of
          REC_FEX_SIMPLE \<Rightarrow> Whole REC_FNAME_LIST_RE
        | REC_FEX_CSV \<Rightarrow> Whole REC_FNAME_LIST_CS_RE
        | REC_FEX_SUBSCRIPTS \<Rightarrow> Whole REC_FNAME_LIST_SUB_RE)"

section \<open>Parsing\<close>

text \<open>A field name with an optional subname, joined with an underscore; the rest of the string.\<close>

definition parse_fname :: "string \<Rightarrow> (string \<times> string) option" where
  "parse_fname p =
     (case rec_parse_regexp (Begin REC_FNAME_RE) p of
        None \<Rightarrow> None
      | Some (n, p1) \<Rightarrow>
          if peek p1 = CHR ''.''
          then (case rec_parse_regexp (Begin REC_FNAME_RE) (tl p1) of
                  None \<Rightarrow> None
                | Some (sub, p2) \<Rightarrow> Some (rec_concat_strings n ''_'' sub, p2))
          else Some (n, p1))"

text \<open>The body of the loop of \<open>rec_fex_parse_str_simple\<close>, for a non-empty element.\<close>

definition parse_simple_elem :: "string \<Rightarrow> rec_fex_elem option" where
  "parse_simple_elem elem_str =
     (case parse_fname elem_str of
        None \<Rightarrow> None
      | Some (n, p) \<Rightarrow>
          if p \<noteq> [] then None
          else Some \<lparr>fex_elem_str = Some elem_str, fex_elem_field_name = Some n, fex_elem_rewrite_to = None,
                     fex_elem_max = -1, fex_elem_min = -1, fex_elem_function_name = None\<rparr>)"

fun parse_simple_loop :: "string list \<Rightarrow> rec_fex_elem list \<Rightarrow> rec_fex_elem list option" where
  "parse_simple_loop [] es = Some es"
| "parse_simple_loop (s # ss) es =
     (if s = [] then parse_simple_loop ss es
      else case parse_simple_elem s of
             None \<Rightarrow> None
           | Some e \<Rightarrow> parse_simple_loop ss (es @ [e]))"

definition rec_fex_parse_str_simple :: "string \<Rightarrow> string \<Rightarrow> rec_fex option" where
  "rec_fex_parse_str_simple s sep =
     (case parse_simple_loop (strsep_all (\<lambda>c. c \<in> set sep) s) [] of
        None \<Rightarrow> None
      | Some es \<Rightarrow> if es = [] then None else Some \<lparr>fex_str = Some s, fex_elems = es\<rparr>)"

text \<open>The subscripts of an element: the minimum, the maximum and the rest.\<close>

definition parse_subscripts :: "string \<Rightarrow> (int \<times> int \<times> string) option" where
  "parse_subscripts p =
     (if peek p = CHR ''[''
      then (case rec_parse_int (tl p) of
              None \<Rightarrow> None
            | Some (mn, p1) \<Rightarrow>
                (case (if peek p1 = CHR ''-'' then rec_parse_int (tl p1) else Some (-1, p1)) of
                   None \<Rightarrow> None
                 | Some (mx, p2) \<Rightarrow> if peek p2 \<noteq> CHR '']'' then None else Some (mn, mx, tl p2)))
      else Some (-1, -1, p))"

definition rec_fex_parse_elem :: "string \<Rightarrow> rec_fex_elem option" where
  "rec_fex_parse_elem s =
     (let call = (if rec_match s (Begin REC_FEX_CALL)
                  then map_option (\<lambda>(f, p). (Some f, tl p)) (rec_parse_regexp (Begin REC_FEX_FUNCTION_NAME) s)
                  else Some (None, s))
      in case call of
           None \<Rightarrow> None
         | Some (fn, p) \<Rightarrow>
             (case parse_fname p of
                None \<Rightarrow> None
              | Some (n, p1) \<Rightarrow>
                  (case parse_subscripts p1 of
                     None \<Rightarrow> None
                   | Some (mn, mx, p2) \<Rightarrow>
                       let p3 = (if fn \<noteq> None then tl p2 else p2) in
                       (case (if peek p3 = CHR '':''
                              then map_option (\<lambda>(r, q). (Some r, q)) (rec_parse_regexp (Begin REC_FNAME_RE) (tl p3))
                              else Some (None, p3)) of
                          None \<Rightarrow> None
                        | Some (rw, p4) \<Rightarrow>
                            if p4 \<noteq> [] then None
                            else Some \<lparr>fex_elem_str = Some s, fex_elem_field_name = Some n, fex_elem_rewrite_to = rw,
                                       fex_elem_max = mx, fex_elem_min = mn, fex_elem_function_name = fn\<rparr>))))"

fun parse_subscripts_loop :: "string list \<Rightarrow> rec_fex_elem list option" where
  "parse_subscripts_loop [] = Some []"
| "parse_subscripts_loop (s # ss) =
     (case rec_fex_parse_elem s of
        None \<Rightarrow> None
      | Some e \<Rightarrow> map_option (Cons e) (parse_subscripts_loop ss))"

definition rec_fex_parse_str_subscripts :: "string \<Rightarrow> rec_fex option" where
  "rec_fex_parse_str_subscripts s =
     map_option (\<lambda>es. \<lparr>fex_str = Some s, fex_elems = es\<rparr>)
       (parse_subscripts_loop (strsep_all (\<lambda>c. c = CHR '','') s))"

definition rec_fex_new :: "string option \<Rightarrow> rec_fex_kind_e \<Rightarrow> rec_fex option" where
  "rec_fex_new str kind =
     (case str of
        None \<Rightarrow> Some \<lparr>fex_str = None, fex_elems = []\<rparr>
      | Some s \<Rightarrow>
          (case kind of
             REC_FEX_SUBSCRIPTS \<Rightarrow> rec_fex_parse_str_subscripts s
           | REC_FEX_SIMPLE \<Rightarrow> rec_fex_parse_str_simple s [CHR '' '', TAB, NL]
           | REC_FEX_CSV \<Rightarrow> rec_fex_parse_str_simple s '',''))"

section \<open>Operations\<close>

text \<open>\<open>strdup\<close> of a NULL \<open>str\<close> is undefined in C: \<open>None\<close>.\<close>

definition rec_fex_dup :: "rec_fex \<Rightarrow> rec_fex option" where
  "rec_fex_dup fex =
     (case fex_str fex of
        None \<Rightarrow> None
      | Some s \<Rightarrow>
          Some \<lparr>fex_str = Some (strdup s),
                fex_elems = map (\<lambda>e. \<lparr>fex_elem_str = map_option strdup (fex_elem_str e),
                                       fex_elem_field_name = map_option strdup (fex_elem_field_name e),
                                       fex_elem_rewrite_to = map_option strdup (fex_elem_rewrite_to e),
                                       fex_elem_max = fex_elem_max e, fex_elem_min = fex_elem_min e,
                                       fex_elem_function_name = map_option strdup (fex_elem_function_name e)\<rparr>)
                              (fex_elems fex)\<rparr>)"

definition rec_fex_size :: "rec_fex \<Rightarrow> nat" where
  "rec_fex_size fex = length (fex_elems fex)"

definition rec_fex_get :: "rec_fex \<Rightarrow> nat \<Rightarrow> rec_fex_elem option" where
  "rec_fex_get fex position =
     (if position \<ge> length (fex_elems fex) then None else Some (fex_elems fex ! position))"

definition rec_fex_elem_set_field_name :: "rec_fex_elem \<Rightarrow> string \<Rightarrow> rec_fex_elem" where
  "rec_fex_elem_set_field_name e n = e\<lparr>fex_elem_field_name := Some (strdup n)\<rparr>"

text \<open>
  The inner loop of \<open>rec_fex_sort\<close> moves \<open>aux\<close> in front of the sorted elements that are greater;
  \<open>rs\<close> are the elements before position \<open>i\<close>, last first.
\<close>

fun sort_insert :: "rec_fex_elem \<Rightarrow> rec_fex_elem list \<Rightarrow> rec_fex_elem list \<Rightarrow> rec_fex_elem list" where
  "sort_insert aux [] moved = aux # moved"
| "sort_insert aux (e # rs) moved =
     (if fex_elem_min e = -1 \<or> fex_elem_min e > fex_elem_min aux
      then sort_insert aux rs (e # moved)
      else rev (e # rs) @ aux # moved)"

fun sort_from :: "rec_fex_elem list \<Rightarrow> rec_fex_elem list \<Rightarrow> rec_fex_elem list" where
  "sort_from done [] = done"
| "sort_from done (e # es) = sort_from (sort_insert e (rev done) []) es"

definition rec_fex_sort :: "rec_fex \<Rightarrow> rec_fex" where
  "rec_fex_sort fex = fex\<lparr>fex_elems := sort_from (take 1 (fex_elems fex)) (drop 1 (fex_elems fex))\<rparr>"

definition buf_add :: "string \<Rightarrow> rec_buf \<Rightarrow> rec_buf" where
  "buf_add s b = snd (rec_buf_puts s b)"

definition buf_addc :: "char \<Rightarrow> rec_buf \<Rightarrow> rec_buf" where
  "buf_addc c b = snd (rec_buf_putc (schar c) b)"

definition fex_elem_out :: "rec_fex_kind_e \<Rightarrow> rec_fex_elem \<Rightarrow> rec_buf \<Rightarrow> rec_buf" where
  "fex_elem_out kind e b =
     (let b1 = buf_add (case fex_elem_field_name e of None \<Rightarrow> [] | Some n \<Rightarrow> n) b in
      if kind = REC_FEX_SUBSCRIPTS \<and> (fex_elem_min e \<noteq> -1 \<or> fex_elem_max e \<noteq> -1)
      then let b2 = buf_addc CHR ''['' b1;
               b3 = (if fex_elem_min e \<noteq> -1 then buf_add (show_int (fex_elem_min e)) b2 else b2);
               b4 = (if fex_elem_max e \<noteq> -1 then buf_add (CHR ''-'' # show_int (fex_elem_max e)) b3 else b3)
           in buf_addc CHR '']'' b4
      else b1)"

fun fex_str_loop :: "rec_fex_kind_e \<Rightarrow> nat \<Rightarrow> rec_fex_elem list \<Rightarrow> rec_buf \<Rightarrow> rec_buf" where
  "fex_str_loop kind i [] b = b"
| "fex_str_loop kind i (e # es) b =
     fex_str_loop kind (Suc i) es
       (fex_elem_out kind e
          (if i \<noteq> 0 then buf_addc (if kind = REC_FEX_SIMPLE then CHR '' '' else CHR '','') b else b))"

definition rec_fex_str :: "rec_fex \<Rightarrow> rec_fex_kind_e \<Rightarrow> string" where
  "rec_fex_str fex kind = rec_buf_close (fex_str_loop kind 0 (fex_elems fex) rec_buf_new)"

definition rec_fex_member_p :: "rec_fex \<Rightarrow> string \<Rightarrow> int \<Rightarrow> int \<Rightarrow> bool" where
  "rec_fex_member_p fex fname mn mx =
     list_ex (\<lambda>e. (case fex_elem_field_name e of None \<Rightarrow> False | Some n \<Rightarrow> rec_field_name_equal_p fname n)
                  \<and> (mn = -1 \<or> fex_elem_min e = mn) \<and> (mx = -1 \<or> fex_elem_max e = mx))
       (fex_elems fex)"

text \<open>The new element starts out zeroed (\<open>memset\<close>).\<close>

definition rec_fex_append :: "rec_fex \<Rightarrow> string \<Rightarrow> int \<Rightarrow> int \<Rightarrow> bool \<times> rec_fex" where
  "rec_fex_append fex fname mn mx =
     (if length (fex_elems fex) \<ge> REC_FEX_MAX_ELEMS then (False, fex)
      else (True, fex\<lparr>fex_elems := fex_elems fex @
              [\<lparr>fex_elem_str = Some (strdup fname), fex_elem_field_name = Some (strdup fname),
                fex_elem_rewrite_to = None, fex_elem_max = mx, fex_elem_min = mn,
                fex_elem_function_name = None\<rparr>]\<rparr>))"

definition rec_fex_all_calls_p :: "rec_fex \<Rightarrow> bool" where
  "rec_fex_all_calls_p fex = list_all (\<lambda>e. fex_elem_function_name e \<noteq> None) (fex_elems fex)"

end
