(* ===== verification/Rec_Types.thy ===== *)
theory Rec_Types
  imports Rec_Utils Rec_Fex Complex_Main
begin

text \<open>
  Types and type registries (\<open>src/rec-types.c\<close>). What the file calls outside the library is a
  parameter \<open>rec_ext\<close>: compiling and running regular expressions given by the user,
  \<open>parse_datetime\<close> as it answers at the time of the run (relative dates depend on the clock), and
  \<open>strtod\<close>. The union \<open>data\<close> is a datatype; a compiled regular expression
  is represented by its source. The build without \<open>libuuid\<close> is modelled. Local buffers of a fixed size are
  lists here: descriptions and values that overflow them are not modelled.
\<close>

section \<open>The environment\<close>

record rec_ext =
  ext_regcomp :: "string \<Rightarrow> bool"
  ext_regexec :: "string \<Rightarrow> string \<Rightarrow> bool"
  ext_parse_datetime :: "string \<Rightarrow> (int \<times> int) option"
  ext_strtod :: "string \<Rightarrow> real \<times> string"

definition rec_atod :: "rec_ext \<Rightarrow> string \<Rightarrow> real option" where
  "rec_atod ext s = (case ext_strtod ext s of (d, rest) \<Rightarrow> if s \<noteq> [] \<and> rest = [] then Some d else None)"

section \<open>Data\<close>

datatype rec_type_kind_e =
    REC_TYPE_NONE | REC_TYPE_INT | REC_TYPE_BOOL | REC_TYPE_RANGE | REC_TYPE_REAL | REC_TYPE_SIZE
  | REC_TYPE_LINE | REC_TYPE_REGEXP | REC_TYPE_DATE | REC_TYPE_ENUM | REC_TYPE_FIELD
  | REC_TYPE_EMAIL | REC_TYPE_REC

datatype type_data = TNone | TSize size_t | TRange int int | TRegexp string | TRec string | TEnum "string list"

record rec_type =
  type_name :: "string option"
  type_kind :: rec_type_kind_e
  type_data :: type_data

definition INT_MIN :: int where "INT_MIN = - (2 ^ 31)"
definition INT_MAX :: int where "INT_MAX = 2 ^ 31 - 1"

section \<open>Patterns\<close>

definition REC_TYPE_CLASS_RE :: re where
  "REC_TYPE_CLASS_RE =
     re_alts (map re_string [''int'', ''range'', ''real'', ''size'', ''line'', ''regexp'', ''date'', ''enum'',
                             ''email'', ''bool'', ''field'', ''rec''])"

definition REC_TYPE_INT_VALUE_RE :: pattern where
  "REC_TYPE_INT_VALUE_RE = Whole (re_seqs [Star BLANK_CLS, REC_INT_RE, Star BLANK_CLS])"

definition REC_TYPE_BOOL_TRUE_VALUES_RE :: re where
  "REC_TYPE_BOOL_TRUE_VALUES_RE = re_alts (map re_string [''1'', ''yes'', ''true''])"

definition REC_TYPE_BOOL_VALUE_RE :: pattern where
  "REC_TYPE_BOOL_VALUE_RE =
     Whole (re_seqs [Star BLANK_CLS,
                     re_alts (map re_string [''1'', ''yes'', ''true'', ''0'', ''no'', ''false'']),
                     Star BLANK_CLS])"

definition REC_TYPE_REAL_VALUE_RE :: pattern where
  "REC_TYPE_REAL_VALUE_RE =
     Whole (re_seqs [Star BLANK_CLS, re_opt (re_char CHR ''-''), re_opt (re_plus DIGIT_CLS),
                     re_opt (Seq (re_char CHR ''.'') (re_plus DIGIT_CLS)), Star BLANK_CLS])"

definition REC_TYPE_LINE_VALUE_RE :: pattern where
  "REC_TYPE_LINE_VALUE_RE = Whole (Star (Cls True [(NL, NL)]))"

definition REC_TYPE_EMAIL_VALUE_RE :: pattern where
  "REC_TYPE_EMAIL_VALUE_RE =
     (let letter = Cls False [(CHR ''a'', CHR ''z''), (CHR ''A'', CHR ''Z'')] in
      Whole (re_seqs
        [Star BLANK_CLS,
         re_plus (Cls False [(CHR ''a'', CHR ''z''), (CHR ''A'', CHR ''Z''), (CHR ''0'', CHR ''9''), (CHR ''.'', CHR ''.''),
                             (CHR ''_'', CHR ''_''), (CHR ''%'', CHR ''%''), (CHR ''+'', CHR ''+''), (CHR ''-'', CHR ''-'')]),
         re_char CHR ''@'',
         re_plus (Cls False [(CHR ''a'', CHR ''z''), (CHR ''A'', CHR ''Z''), (CHR ''0'', CHR ''9''), (CHR ''.'', CHR ''.''), (CHR ''-'', CHR ''-'')]),
         re_char CHR ''.'', letter, letter, re_opt letter, re_opt letter,
         Star BLANK_CLS]))"

definition REC_TYPE_ENUM_NAME_RE :: re where
  "REC_TYPE_ENUM_NAME_RE =
     Seq (Cls False [(CHR ''a'', CHR ''z''), (CHR ''A'', CHR ''Z''), (CHR ''0'', CHR ''9'')])
         (Star (Cls False [(CHR ''a'', CHR ''z''), (CHR ''A'', CHR ''Z''), (CHR ''0'', CHR ''9''),
                           (CHR ''_'', CHR ''_''), (CHR ''-'', CHR ''-'')]))"

definition REC_TYPE_ENUM_VALUE_RE :: pattern where
  "REC_TYPE_ENUM_VALUE_RE = Whole (re_seqs [Star BLANK_CLS, REC_TYPE_ENUM_NAME_RE, Star BLANK_CLS])"

definition REC_TYPE_FIELD_VALUE_RE :: pattern where
  "REC_TYPE_FIELD_VALUE_RE = Whole (re_seqs [Star BLANK_CLS, REC_FNAME_RE, Star BLANK_CLS])"

section \<open>Parsing type descriptions\<close>

definition rec_type_parse_type_kind :: "string \<Rightarrow> rec_type_kind_e" where
  "rec_type_parse_type_kind s =
     (if s = ''int'' then REC_TYPE_INT else if s = ''bool'' then REC_TYPE_BOOL
      else if s = ''range'' then REC_TYPE_RANGE else if s = ''real'' then REC_TYPE_REAL
      else if s = ''size'' then REC_TYPE_SIZE else if s = ''line'' then REC_TYPE_LINE
      else if s = ''regexp'' then REC_TYPE_REGEXP else if s = ''date'' then REC_TYPE_DATE
      else if s = ''email'' then REC_TYPE_EMAIL else if s = ''enum'' then REC_TYPE_ENUM
      else if s = ''field'' then REC_TYPE_FIELD else if s = ''rec'' then REC_TYPE_REC
      else REC_TYPE_NONE)"

text \<open>Each parsing routine gives the union member and the rest of the description.\<close>

definition rec_type_parse_size :: "string \<Rightarrow> (type_data \<times> string) option" where
  "rec_type_parse_size p =
     (case rec_parse_int (rec_skip_blanks p) of
        None \<Rightarrow> None
      | Some (sz, q) \<Rightarrow> if sz \<ge> 0 then Some (TSize (word_of_int sz), q) else None)"

definition skip_comment :: "string \<Rightarrow> string option" where
  "skip_comment p =
     (let q = dropWhile (\<lambda>c. c \<noteq> CHR '')'' \<and> c \<noteq> CHR ''('') p in
      if peek q = CHR '')'' then Some (tl q) else None)"

lemma rec_skip_blanks_length [simp]: "length (rec_skip_blanks p) \<le> length p"
  by (simp add: rec_skip_blanks_def length_dropWhile_le)

lemma skip_comment_length: "skip_comment p = Some q \<Longrightarrow> length q \<le> length p"
proof -
  have "length (dropWhile P p) \<le> length p" for P by (rule length_dropWhile_le)
  then show "skip_comment p = Some q \<Longrightarrow> length q \<le> length p"
    by (auto simp: skip_comment_def Let_def simp del: length_dropWhile_le split: if_splits
        intro!: le_trans [OF diff_le_self])
qed

lemma enum_name_progress:
  "rec_parse_regexp (Begin REC_TYPE_ENUM_NAME_RE) p = Some (n, q) \<Longrightarrow> length q < length p"
proof -
  assume a: "rec_parse_regexp (Begin REC_TYPE_ENUM_NAME_RE) p = Some (n, q)"
  then obtain k where k: "re_prefix REC_TYPE_ENUM_NAME_RE p = Some k" "q = drop k p"
    by (auto simp: rec_parse_regexp_def split: option.splits)
  then have "re_lang REC_TYPE_ENUM_NAME_RE (take k p)" by (simp add: re_prefix_Some)
  then have "take k p \<noteq> []"
    by (cases "take k p") (auto simp: REC_TYPE_ENUM_NAME_RE_def re_lang_Seq_Cls)
  then have "0 < k" "p \<noteq> []" by auto
  with k(2) show ?thesis by simp
qed

function parse_enum_loop :: "string list \<Rightarrow> string \<Rightarrow> string list option" where
  "parse_enum_loop names p =
     (if p = [] then Some names
      else
        let q = rec_skip_blanks p in
        if peek q = CHR ''(''
        then (case skip_comment (tl q) of None \<Rightarrow> None | Some q1 \<Rightarrow> parse_enum_loop names q1)
        else if q \<noteq> []
        then (case rec_parse_regexp (Begin REC_TYPE_ENUM_NAME_RE) q of
                None \<Rightarrow> None
              | Some (n, q1) \<Rightarrow> parse_enum_loop (names @ [n]) q1)
        else parse_enum_loop names q)"
  by pat_completeness auto
termination
proof (relation "measure (\<lambda>(names, p). length p)", goal_cases)
  case (2 names p q q1)
  then have "q \<noteq> []" by (auto simp: peek_def)
  then have "length (tl q) < length q" by simp
  with skip_comment_length [OF 2(4)] rec_skip_blanks_length [of p] 2(2) show ?case
    by (simp only: in_measure prod.case)
next
  case (3 names p q nq n q1)
  then have "length q1 < length q" using enum_name_progress [of q n q1] by simp
  with rec_skip_blanks_length [of p] 3(2) show ?case by (simp only: in_measure prod.case)
qed auto

declare parse_enum_loop.simps [simp del]

definition rec_type_parse_enum :: "string \<Rightarrow> (type_data \<times> string) option" where
  "rec_type_parse_enum p =
     (case parse_enum_loop [] p of
        None \<Rightarrow> None
      | Some names \<Rightarrow> if names = [] then None else Some (TEnum names, []))"

text \<open>
  The characters of a regexp up to its delimiter, which is doubled to stand for itself. The
  local buffer has 200 bytes and is not checked; the result here is the text itself.
\<close>

fun parse_regexp_chars :: "char \<Rightarrow> string \<Rightarrow> (string \<times> string) option" where
  "parse_regexp_chars d [] = None"
| "parse_regexp_chars d [c] = (if c = d then Some ([], []) else None)"
| "parse_regexp_chars d (c # e # cs) =
     (if c = d
      then if e = d then map_option (\<lambda>(r, q). (d # r, q)) (parse_regexp_chars d cs)
           else Some ([], e # cs)
      else map_option (\<lambda>(r, q). (c # r, q)) (parse_regexp_chars d (e # cs)))"

text \<open>With nothing after the blanks the C code steps over the terminator; here the description is rejected.\<close>

definition rec_type_parse_regexp_type :: "rec_ext \<Rightarrow> string \<Rightarrow> (type_data \<times> string) option" where
  "rec_type_parse_regexp_type ext p =
     (case rec_skip_blanks p of
        [] \<Rightarrow> None
      | d # q \<Rightarrow>
          (case parse_regexp_chars d q of
             None \<Rightarrow> None
           | Some (re, q1) \<Rightarrow> if ext_regcomp ext re then Some (TRegexp re, q1) else None))"

definition rec_type_parse_rec :: "string \<Rightarrow> (type_data \<times> string) option" where
  "rec_type_parse_rec p =
     map_option (\<lambda>(n, q). (TRec n, q)) (rec_parse_regexp (Begin REC_FNAME_RE) (rec_skip_blanks p))"

definition rec_type_parse_range_point :: "string \<Rightarrow> (int \<times> string) option" where
  "rec_type_parse_range_point p =
     (if rec_match p (Begin (re_string ''MIN'')) then Some (INT_MIN, drop 3 p)
      else if rec_match p (Begin (re_string ''MAX'')) then Some (INT_MAX, drop 3 p)
      else rec_parse_int p)"

definition rec_type_parse_range :: "string \<Rightarrow> (type_data \<times> string) option" where
  "rec_type_parse_range p =
     (case rec_type_parse_range_point (rec_skip_blanks p) of
        None \<Rightarrow> None
      | Some (a, q) \<Rightarrow>
          let q1 = rec_skip_blanks q in
          if q1 = [] then Some (TRange 0 a, q1)
          else (case rec_type_parse_range_point q1 of
                  None \<Rightarrow> None
                | Some (b, q2) \<Rightarrow> Some (TRange a b, q2)))"

definition rec_type_new :: "rec_ext \<Rightarrow> string \<Rightarrow> rec_type option" where
  "rec_type_new ext s =
     (case rec_parse_regexp (Begin REC_TYPE_CLASS_RE) (rec_skip_blanks s) of
        None \<Rightarrow> None
      | Some (kind_str, p) \<Rightarrow>
          let kind = rec_type_parse_type_kind kind_str in
          (case (case kind of
                   REC_TYPE_SIZE \<Rightarrow> rec_type_parse_size p
                 | REC_TYPE_ENUM \<Rightarrow> rec_type_parse_enum p
                 | REC_TYPE_REGEXP \<Rightarrow> rec_type_parse_regexp_type ext p
                 | REC_TYPE_RANGE \<Rightarrow> rec_type_parse_range p
                 | REC_TYPE_REC \<Rightarrow> rec_type_parse_rec p
                 | _ \<Rightarrow> Some (TNone, p)) of
             None \<Rightarrow> None
           | Some (d, q) \<Rightarrow>
               if list_all rec_blank_p q
               then Some \<lparr>type_name = None, type_kind = kind, type_data = d\<rparr> else None))"

definition rec_type_descr_p :: "rec_ext \<Rightarrow> string \<Rightarrow> bool" where
  "rec_type_descr_p ext s = (rec_type_new ext s \<noteq> None)"

definition FNAMES_RE :: re where
  "FNAMES_RE = Seq REC_FNAME_RE (Star (Seq (re_char CHR '','') REC_FNAME_RE))"

definition rec_type_descr_type :: "rec_ext \<Rightarrow> string \<Rightarrow> string option" where
  "rec_type_descr_type ext s =
     (if rec_type_descr_p ext s
      then let p = rec_skip_blanks s;
               p1 = (case rec_parse_regexp (Begin FNAMES_RE) p of None \<Rightarrow> p | Some (_, q) \<Rightarrow> q)
           in Some (rec_skip_blanks p1)
      else None)"

definition rec_type_kind_str :: "rec_type \<Rightarrow> string" where
  "rec_type_kind_str type =
     (case type_kind type of
        REC_TYPE_NONE \<Rightarrow> ''''
      | REC_TYPE_INT \<Rightarrow> ''int'' | REC_TYPE_BOOL \<Rightarrow> ''bool'' | REC_TYPE_RANGE \<Rightarrow> ''range''
      | REC_TYPE_REAL \<Rightarrow> ''real'' | REC_TYPE_SIZE \<Rightarrow> ''size'' | REC_TYPE_LINE \<Rightarrow> ''line''
      | REC_TYPE_REGEXP \<Rightarrow> ''regexp'' | REC_TYPE_DATE \<Rightarrow> ''date''
      | REC_TYPE_EMAIL \<Rightarrow> ''email'' | REC_TYPE_ENUM \<Rightarrow> ''enum''
      | REC_TYPE_FIELD \<Rightarrow> ''field'' | REC_TYPE_REC \<Rightarrow> ''rec'')"

section \<open>Checking values\<close>

text \<open>
  The members of the union \<open>data\<close>. A type whose kind and data agree (\<open>rec_type_wf\<close>, which
  \<open>rec_type_new\<close> establishes) is only read through the member of its kind.
\<close>

fun max_size :: "type_data \<Rightarrow> size_t" where
  "max_size (TSize n) = n"
| "max_size _ = 0"

fun range_point :: "nat \<Rightarrow> type_data \<Rightarrow> int" where
  "range_point i (TRange a b) = (if i = 0 then a else b)"
| "range_point i _ = 0"

fun regexp_source :: "type_data \<Rightarrow> string" where
  "regexp_source (TRegexp re) = re"
| "regexp_source _ = []"

fun enum_names :: "type_data \<Rightarrow> string list" where
  "enum_names (TEnum ns) = ns"
| "enum_names _ = []"

definition rec_type_wf :: "rec_type \<Rightarrow> bool" where
  "rec_type_wf type =
     (case type_kind type of
        REC_TYPE_SIZE \<Rightarrow> (\<exists>n. type_data type = TSize n)
      | REC_TYPE_RANGE \<Rightarrow> (\<exists>a b. type_data type = TRange a b \<and> INT_MIN \<le> a \<and> a \<le> INT_MAX \<and> INT_MIN \<le> b \<and> b \<le> INT_MAX)
      | REC_TYPE_REGEXP \<Rightarrow> (\<exists>re. type_data type = TRegexp re)
      | REC_TYPE_REC \<Rightarrow> (\<exists>n. type_data type = TRec n)
      | REC_TYPE_ENUM \<Rightarrow> (\<exists>ns. type_data type = TEnum ns \<and> ns \<noteq> [])
      | _ \<Rightarrow> type_data type = TNone)"

text \<open>A check returns its result and the buffer of error messages, never NULL in \<open>rec_type_check\<close>.\<close>

definition check_msg :: "string \<Rightarrow> bool \<Rightarrow> rec_buf \<Rightarrow> bool \<times> rec_buf" where
  "check_msg msg ret errors = (ret, if ret then errors else snd (rec_buf_puts msg errors))"

definition rec_type_check_int :: "string \<Rightarrow> rec_buf \<Rightarrow> bool \<times> rec_buf" where
  "rec_type_check_int s errors = check_msg ''invalid integer.'' (rec_match s REC_TYPE_INT_VALUE_RE) errors"

definition rec_type_check_rec :: "string \<Rightarrow> rec_buf \<Rightarrow> bool \<times> rec_buf" where
  "rec_type_check_rec s errors = (True, errors)"

definition rec_type_check_field :: "string \<Rightarrow> rec_buf \<Rightarrow> bool \<times> rec_buf" where
  "rec_type_check_field s errors =
     check_msg (''invalid '' @ [CHR 0x27] @ ''field'' @ [CHR 0x27] @ '' value.'') (rec_match s REC_TYPE_FIELD_VALUE_RE) errors"

definition rec_type_check_bool :: "string \<Rightarrow> rec_buf \<Rightarrow> bool \<times> rec_buf" where
  "rec_type_check_bool s errors =
     check_msg (''invalid '' @ [CHR 0x27] @ ''bool'' @ [CHR 0x27] @ '' value.'') (rec_match s REC_TYPE_BOOL_VALUE_RE) errors"

definition rec_type_check_range :: "rec_type \<Rightarrow> string \<Rightarrow> rec_buf \<Rightarrow> bool \<times> rec_buf" where
  "rec_type_check_range type s errors =
     (case rec_parse_int (rec_skip_blanks s) of
        None \<Rightarrow> (False, snd (rec_buf_puts (''invalid '' @ [CHR 0x27] @ ''range'' @ [CHR 0x27] @ '' value.'') errors))
      | Some (num, _) \<Rightarrow>
          let lo = range_point 0 (type_data type); hi = range_point 1 (type_data type) in
          check_msg (''expected an integer between '' @ show_int lo @ '' and '' @ show_int hi @ ''.'')
            (num \<ge> lo \<and> num \<le> hi) errors)"

definition rec_type_check_real :: "string \<Rightarrow> rec_buf \<Rightarrow> bool \<times> rec_buf" where
  "rec_type_check_real s errors =
     check_msg (''invalid '' @ [CHR 0x27] @ ''real'' @ [CHR 0x27] @ '' value.'') (rec_match s REC_TYPE_REAL_VALUE_RE) errors"

definition rec_type_check_size :: "rec_type \<Rightarrow> string \<Rightarrow> rec_buf \<Rightarrow> bool \<times> rec_buf" where
  "rec_type_check_size type s errors =
     (let m = max_size (type_data type) in
      check_msg (''value too large.  Expected a size <= '' @ show_size m @ ''.'')
        ((of_nat (length s) :: size_t) \<le> m) errors)"

definition rec_type_check_line :: "string \<Rightarrow> rec_buf \<Rightarrow> bool \<times> rec_buf" where
  "rec_type_check_line s errors =
     check_msg (''invalid '' @ [CHR 0x27] @ ''line'' @ [CHR 0x27] @ '' value.'') (rec_match s REC_TYPE_LINE_VALUE_RE) errors"

definition rec_type_check_regexp :: "rec_ext \<Rightarrow> rec_type \<Rightarrow> string \<Rightarrow> rec_buf \<Rightarrow> bool \<times> rec_buf" where
  "rec_type_check_regexp ext type s errors =
     check_msg ''value does not match the regexp.'' (ext_regexec ext (regexp_source (type_data type)) s) errors"

definition rec_type_check_date :: "rec_ext \<Rightarrow> string \<Rightarrow> rec_buf \<Rightarrow> bool \<times> rec_buf" where
  "rec_type_check_date ext s errors =
     (if s = [] then (False, errors)
      else check_msg ''invalid date.'' (ext_parse_datetime ext s \<noteq> None) errors)"

definition rec_type_check_email :: "string \<Rightarrow> rec_buf \<Rightarrow> bool \<times> rec_buf" where
  "rec_type_check_email s errors = check_msg ''invalid email.'' (rec_match s REC_TYPE_EMAIL_VALUE_RE) errors"

definition enum_char :: "char \<Rightarrow> bool" where
  "enum_char c = (rec_letter_p c \<or> rec_digit_p c \<or> c = CHR ''_'' \<or> c = CHR ''-'')"

definition rec_type_check_enum :: "rec_type \<Rightarrow> string \<Rightarrow> rec_buf \<Rightarrow> bool \<times> rec_buf" where
  "rec_type_check_enum type s errors =
     check_msg ''invalid enum value.''
       (rec_match s REC_TYPE_ENUM_VALUE_RE
        \<and> takeWhile enum_char (rec_skip_blanks s) \<in> set (enum_names (type_data type))) errors"

definition rec_type_check :: "rec_ext \<Rightarrow> rec_type \<Rightarrow> string \<Rightarrow> bool \<times> string" where
  "rec_type_check ext type s =
     (case (let errors = rec_buf_new in
            case type_kind type of
              REC_TYPE_NONE \<Rightarrow> (True, errors)
            | REC_TYPE_INT \<Rightarrow> rec_type_check_int s errors
            | REC_TYPE_BOOL \<Rightarrow> rec_type_check_bool s errors
            | REC_TYPE_RANGE \<Rightarrow> rec_type_check_range type s errors
            | REC_TYPE_REAL \<Rightarrow> rec_type_check_real s errors
            | REC_TYPE_SIZE \<Rightarrow> rec_type_check_size type s errors
            | REC_TYPE_LINE \<Rightarrow> rec_type_check_line s errors
            | REC_TYPE_REGEXP \<Rightarrow> rec_type_check_regexp ext type s errors
            | REC_TYPE_DATE \<Rightarrow> rec_type_check_date ext s errors
            | REC_TYPE_EMAIL \<Rightarrow> rec_type_check_email s errors
            | REC_TYPE_ENUM \<Rightarrow> rec_type_check_enum type s errors
            | REC_TYPE_FIELD \<Rightarrow> rec_type_check_field s errors
            | REC_TYPE_REC \<Rightarrow> rec_type_check_rec s errors) of
        (res, errors) \<Rightarrow> (res, rec_buf_close errors))"

section \<open>Comparisons and accessors\<close>

definition rec_type_set_name :: "rec_type \<Rightarrow> string \<Rightarrow> rec_type" where
  "rec_type_set_name type n = type\<lparr>type_name := Some (strdup n)\<rparr>"

definition rec_type_name :: "rec_type \<Rightarrow> string option" where
  "rec_type_name type = type_name type"

definition rec_type_kind :: "rec_type \<Rightarrow> rec_type_kind_e" where
  "rec_type_kind type = type_kind type"

definition rec_type_min :: "rec_type \<Rightarrow> int" where
  "rec_type_min type = (if type_kind type \<noteq> REC_TYPE_RANGE then -1 else range_point 0 (type_data type))"

definition rec_type_max :: "rec_type \<Rightarrow> int" where
  "rec_type_max type = (if type_kind type \<noteq> REC_TYPE_RANGE then -1 else range_point 1 (type_data type))"

definition rec_type_rec :: "rec_type \<Rightarrow> string option" where
  "rec_type_rec type =
     (if type_kind type = REC_TYPE_REC then (case type_data type of TRec n \<Rightarrow> Some n | _ \<Rightarrow> None) else None)"

text \<open>The loop over the names assigns \<open>ret\<close> in every round, so only its last value counts.\<close>

fun enum_equal_loop :: "string list \<Rightarrow> string list \<Rightarrow> nat \<Rightarrow> bool \<Rightarrow> bool" where
  "enum_equal_loop [] ns2 i ret = ret"
| "enum_equal_loop (n # ns) ns2 i ret =
     enum_equal_loop ns ns2 (i + 1) (i < length ns2 \<and> n = ns2 ! i)"

definition rec_type_equal_p :: "rec_type \<Rightarrow> rec_type \<Rightarrow> bool" where
  "rec_type_equal_p type1 type2 =
     (if type_kind type1 \<noteq> type_kind type2 then False
      else case type_kind type1 of
             REC_TYPE_SIZE \<Rightarrow> max_size (type_data type1) = max_size (type_data type2)
           | REC_TYPE_RANGE \<Rightarrow>
               range_point 0 (type_data type1) = range_point 0 (type_data type2)
               \<and> range_point 1 (type_data type1) = range_point 1 (type_data type2)
           | REC_TYPE_ENUM \<Rightarrow> enum_equal_loop (enum_names (type_data type1)) (enum_names (type_data type2)) 0 True
           | REC_TYPE_REGEXP \<Rightarrow> False
           | _ \<Rightarrow> True)"

text \<open>The sign of \<open>strcmp\<close>, which is all the C standard fixes of its result.\<close>

fun strcmp :: "string \<Rightarrow> string \<Rightarrow> int" where
  "strcmp [] [] = 0"
| "strcmp [] (d # t) = -1"
| "strcmp (c # s) [] = 1"
| "strcmp (c # s) (d # t) =
     (if uchar c < uchar d then -1 else if uchar c > uchar d then 1 else strcmp s t)"

definition cmp3 :: "'a::linorder \<Rightarrow> 'a \<Rightarrow> int" where
  "cmp3 x y = (if x < y then -1 else if x > y then 1 else 0)"

definition bool_true_p :: "string \<Rightarrow> bool" where
  "bool_true_p s =
     rec_match s (Anywhere (re_seqs [Star BLANK_CLS, REC_TYPE_BOOL_TRUE_VALUES_RE, Star BLANK_CLS]))"

definition rec_type_values_cmp :: "rec_ext \<Rightarrow> rec_type option \<Rightarrow> string \<Rightarrow> string \<Rightarrow> int" where
  "rec_type_values_cmp ext type val1 val2 =
     (case (case type of None \<Rightarrow> REC_TYPE_NONE | Some ty \<Rightarrow> type_kind ty) of
        REC_TYPE_INT \<Rightarrow>
          (case (rec_atoi val1, rec_atoi val2) of
             (Some int1, Some int2) \<Rightarrow> cmp3 int1 int2 | _ \<Rightarrow> strcmp val1 val2)
      | REC_TYPE_RANGE \<Rightarrow>
          (case (rec_atoi val1, rec_atoi val2) of
             (Some int1, Some int2) \<Rightarrow> cmp3 int1 int2 | _ \<Rightarrow> strcmp val1 val2)
      | REC_TYPE_REAL \<Rightarrow>
          (case (rec_atod ext val1, rec_atod ext val2) of
             (Some real1, Some real2) \<Rightarrow> cmp3 real1 real2 | _ \<Rightarrow> strcmp val1 val2)
      | REC_TYPE_BOOL \<Rightarrow>
          (let bool1 = bool_true_p val1; bool2 = bool_true_p val2 in
           if \<not> bool1 \<and> bool2 then -1 else if bool1 = bool2 then 0 else 1)
      | REC_TYPE_DATE \<Rightarrow>
          (case (ext_parse_datetime ext val1, ext_parse_datetime ext val2) of
             (Some op1, Some op2) \<Rightarrow>
               if op1 = op2 then 0 else if fst (rec_timespec_subtract op1 op2) then -1 else 1
           | _ \<Rightarrow> strcmp val1 val2)
      | _ \<Rightarrow> strcmp val1 val2)"

section \<open>Type registries\<close>

record rec_type_reg_entry =
  entry_type_name :: string
  entry_type :: "rec_type option"
  entry_to_type :: "string option"
  entry_visited_p :: bool

type_synonym rec_type_reg = "rec_type_reg_entry list"

definition rec_type_reg_new :: rec_type_reg where
  "rec_type_reg_new = []"

text \<open>The search of both insertions: the entry of the name is replaced, or a new one is added at the end.\<close>

fun reg_put :: "rec_type_reg_entry \<Rightarrow> rec_type_reg \<Rightarrow> rec_type_reg" where
  "reg_put e [] = [e]"
| "reg_put e (x # xs) = (if entry_type_name x = entry_type_name e then e # xs else x # reg_put e xs)"

definition rec_type_reg_add :: "rec_type_reg \<Rightarrow> rec_type \<Rightarrow> rec_type_reg" where
  "rec_type_reg_add reg type =
     (case rec_type_name type of
        None \<Rightarrow> reg
      | Some n \<Rightarrow>
          reg_put \<lparr>entry_type_name = n, entry_type = Some type, entry_to_type = None, entry_visited_p = False\<rparr> reg)"

definition rec_type_reg_add_synonym :: "rec_type_reg \<Rightarrow> string \<Rightarrow> string \<Rightarrow> rec_type_reg" where
  "rec_type_reg_add_synonym reg n to_type =
     reg_put \<lparr>entry_type_name = n, entry_type = None, entry_to_type = Some to_type, entry_visited_p = False\<rparr> reg"

definition reset_visited :: "rec_type_reg \<Rightarrow> rec_type_reg" where
  "reset_visited reg = map (\<lambda>e. e\<lparr>entry_visited_p := False\<rparr>) reg"

text \<open>
  The loop of \<open>rec_type_reg_get\<close> from entry \<open>i\<close> on, with the function it calls for itself: the
  result and the registry with the flags reset. A lookup that never returns is \<open>None\<close>.
  The \<open>to_type\<close> of an entry without a type is not NULL, as the insertions establish.
\<close>

partial_function (option) reg_get_loop ::
  "rec_type_reg \<Rightarrow> string \<Rightarrow> nat \<Rightarrow> rec_type option \<Rightarrow> (rec_type option \<times> rec_type_reg) option" where
  "reg_get_loop reg n i type =
     (if i \<ge> length reg then Some (type, reset_visited reg)
      else let e = reg ! i in
        if entry_type_name e = n
        then (case entry_type e of
                Some ty \<Rightarrow> Some (Some ty, reset_visited reg)
              | None \<Rightarrow>
                  if entry_visited_p e then Some (type, reset_visited reg)
                  else Option.bind (reg_get_loop (reg[i := e\<lparr>entry_visited_p := True\<rparr>]) (the (entry_to_type e)) 0 None)
                         (\<lambda>(ty, reg'). reg_get_loop reg' n (i + 1) ty))
        else reg_get_loop reg n (i + 1) type)"

declare reg_get_loop.simps [code]

definition rec_type_reg_get :: "rec_type_reg \<Rightarrow> string \<Rightarrow> (rec_type option \<times> rec_type_reg) option" where
  "rec_type_reg_get reg n = reg_get_loop reg n 0 None"

end
