(* ===== verification/Rec_Sex.thy ===== *)
theory Rec_Sex
  imports Rec_Types Rec_Record
begin

text \<open>
  Selection expressions: the syntax tree (\<open>src/rec-sex-ast.c\<close>), the scanner
  (\<open>src/rec-sex-lex.l\<close>), the grammar (\<open>src/rec-sex-tab.y\<close>, run by \<open>src/rec-sex-parser.c\<close>), and
  the evaluation on records (\<open>src/rec-sex.c\<close>). Floating point arithmetic and the matching of
  regular expressions written by the user are parameters. A literal the scanner could not
  convert leaves its variable unassigned, which is \<open>None\<close> in its node; an
  evaluation that would read an unassigned variable, or overflow an \<open>int\<close>, is \<open>Undef\<close>.
\<close>

section \<open>The environment\<close>

text \<open>
  \<open>ext_match\<close> is \<open>regcomp\<close> and \<open>regexec\<close> of \<open>rec_match_int\<close>: whether the string matches, \<open>False\<close>
  for a pattern that does not compile; the flag asks for \<open>REG_ICASE\<close>.
\<close>

record sex_env = rec_ext +
  ext_match :: "bool \<Rightarrow> string \<Rightarrow> string \<Rightarrow> bool"
  ext_fadd :: "real \<Rightarrow> real \<Rightarrow> real"
  ext_fmul :: "real \<Rightarrow> real \<Rightarrow> real"
  ext_fdiv :: "real \<Rightarrow> real \<Rightarrow> real"
  ext_show_real :: "real \<Rightarrow> string"

section \<open>The syntax tree\<close>

datatype rec_sex_op =
    REC_SEX_OP_ADD | REC_SEX_OP_SUB | REC_SEX_OP_MUL | REC_SEX_OP_DIV | REC_SEX_OP_MOD
  | REC_SEX_OP_EQL | REC_SEX_OP_NEQ | REC_SEX_OP_MAT | REC_SEX_OP_LT | REC_SEX_OP_GT
  | REC_SEX_OP_LTE | REC_SEX_OP_GTE | REC_SEX_OP_AND | REC_SEX_OP_OR | REC_SEX_OP_NOT
  | REC_SEX_OP_SHA | REC_SEX_OP_SAMETIME | REC_SEX_OP_IMPLIES | REC_SEX_OP_BEFORE
  | REC_SEX_OP_AFTER | REC_SEX_OP_COND | REC_SEX_OP_CONCAT

text \<open>
  A node with its children. A name node holds the name, the subname, the index (-1: none) and,
  when it is fixed, its value.
\<close>

datatype rec_sex_ast_node =
    REC_SEX_INT "int option"
  | REC_SEX_REAL "real option"
  | REC_SEX_STR string
  | REC_SEX_NAME string "string option" int "string option"
  | REC_SEX_OP rec_sex_op "rec_sex_ast_node list"

definition REC_SEX_AST_MAX_CHILDREN :: nat where "REC_SEX_AST_MAX_CHILDREN = 3"

fun rec_sex_ast_node_link :: "rec_sex_ast_node \<Rightarrow> rec_sex_ast_node \<Rightarrow> rec_sex_ast_node" where
  "rec_sex_ast_node_link (REC_SEX_OP op cs) c =
     (if length cs < REC_SEX_AST_MAX_CHILDREN then REC_SEX_OP op (cs @ [c]) else REC_SEX_OP op cs)"
| "rec_sex_ast_node_link n c = n"

fun rec_sex_ast_node_child :: "rec_sex_ast_node \<Rightarrow> nat \<Rightarrow> rec_sex_ast_node option" where
  "rec_sex_ast_node_child (REC_SEX_OP op cs) n = (if n < length cs then Some (cs ! n) else None)"
| "rec_sex_ast_node_child node n = None"

fun rec_sex_ast_node_unfix :: "rec_sex_ast_node \<Rightarrow> rec_sex_ast_node" where
  "rec_sex_ast_node_unfix (REC_SEX_OP op cs) = REC_SEX_OP op (map rec_sex_ast_node_unfix cs)"
| "rec_sex_ast_node_unfix (REC_SEX_NAME n sub i fx) = REC_SEX_NAME n sub i None"
| "rec_sex_ast_node_unfix (REC_SEX_INT v) = REC_SEX_INT v"
| "rec_sex_ast_node_unfix (REC_SEX_REAL v) = REC_SEX_REAL v"
| "rec_sex_ast_node_unfix (REC_SEX_STR v) = REC_SEX_STR v"

fun rec_sex_ast_node_reset :: "rec_sex_ast_node \<Rightarrow> rec_sex_ast_node" where
  "rec_sex_ast_node_reset (REC_SEX_OP op cs) = REC_SEX_OP op (map rec_sex_ast_node_reset cs)"
| "rec_sex_ast_node_reset (REC_SEX_NAME n sub i fx) = REC_SEX_NAME n sub 0 fx"
| "rec_sex_ast_node_reset (REC_SEX_INT v) = REC_SEX_INT v"
| "rec_sex_ast_node_reset (REC_SEX_REAL v) = REC_SEX_REAL v"
| "rec_sex_ast_node_reset (REC_SEX_STR v) = REC_SEX_STR v"

definition rec_sex_ast_node_fix :: "rec_sex_ast_node \<Rightarrow> string \<Rightarrow> rec_sex_ast_node" where
  "rec_sex_ast_node_fix node val =
     (case node of REC_SEX_NAME n sub i fx \<Rightarrow> REC_SEX_NAME n sub i (Some (strdup val)) | _ \<Rightarrow> node)"

text \<open>The conversion of an \<open>int\<close> to \<open>size_t\<close>.\<close>

definition size_of_int :: "int \<Rightarrow> nat" where
  "size_of_int i = nat (i mod 2 ^ 64)"

fun rec_sex_ast_name_p :: "rec_sex_ast_node \<Rightarrow> string \<Rightarrow> nat \<Rightarrow> bool" where
  "rec_sex_ast_name_p (REC_SEX_NAME n sub i fx) name idx = ((i = -1 \<or> size_of_int i < idx) \<and> name = n)"
| "rec_sex_ast_name_p (REC_SEX_OP op cs) name idx = list_ex (\<lambda>c. rec_sex_ast_name_p c name idx) cs"
| "rec_sex_ast_name_p _ name idx = False"

fun rec_sex_ast_hash_name_p :: "rec_sex_ast_node \<Rightarrow> string \<Rightarrow> bool" where
  "rec_sex_ast_hash_name_p (REC_SEX_OP op cs) name =
     ((case cs of [REC_SEX_NAME n sub i fx] \<Rightarrow> op = REC_SEX_OP_SHA \<and> name = n | _ \<Rightarrow> False)
      \<or> list_ex (\<lambda>c. rec_sex_ast_hash_name_p c name) cs)"
| "rec_sex_ast_hash_name_p _ name = False"

section \<open>The scanner\<close>

datatype sex_token =
    REC_SEX_TOK_INT "int option" | REC_SEX_TOK_REAL "real option" | REC_SEX_TOK_STR string
  | REC_SEX_TOK_NAM string "string option" int
  | REC_SEX_TOK_COLON | REC_SEX_TOK_QM | REC_SEX_TOK_IMPLIES | REC_SEX_TOK_AND | REC_SEX_TOK_OR
  | REC_SEX_TOK_EQL | REC_SEX_TOK_NEQ | REC_SEX_TOK_LT | REC_SEX_TOK_GT | REC_SEX_TOK_LTE | REC_SEX_TOK_GTE
  | REC_SEX_TOK_SAMETIME | REC_SEX_TOK_AFTER | REC_SEX_TOK_BEFORE | REC_SEX_TOK_SUB | REC_SEX_TOK_ADD
  | REC_SEX_TOK_MUL | REC_SEX_TOK_DIV | REC_SEX_TOK_MOD | REC_SEX_TOK_MAT | REC_SEX_TOK_AMP
  | REC_SEX_TOK_NOT | REC_SEX_TOK_BP | REC_SEX_TOK_EP | REC_SEX_TOK_ERR | REC_SEX_TOK_SHARP

definition rec_sex_lex_extract_name :: "string \<Rightarrow> string" where
  "rec_sex_lex_extract_name s = takeWhile (\<lambda>c. c \<noteq> CHR ''['' \<and> c \<noteq> CHR ''.'') s"

definition rec_sex_lex_extract_subname :: "string \<Rightarrow> string option" where
  "rec_sex_lex_extract_subname s =
     (case dropWhile (\<lambda>c. c \<noteq> CHR ''.'') s of [] \<Rightarrow> None | c # p \<Rightarrow> Some (rec_sex_lex_extract_name p))"

text \<open>The index keeps its initial value -1 without brackets, and when \<open>rec_atoi\<close> fails.\<close>

definition rec_sex_lex_extract_index :: "string \<Rightarrow> int" where
  "rec_sex_lex_extract_index s =
     (case dropWhile (\<lambda>c. c \<noteq> CHR ''['') s of
        [] \<Rightarrow> -1
      | c # p \<Rightarrow> (case rec_atoi (takeWhile (\<lambda>c. c \<noteq> CHR '']'') p) of None \<Rightarrow> -1 | Some n \<Rightarrow> n))"

definition LETTER_CLS :: re where "LETTER_CLS = Cls False [(CHR ''a'', CHR ''z''), (CHR ''A'', CHR ''Z'')]"

definition FIELD_NAME_RE :: re where
  "FIELD_NAME_RE =
     Seq LETTER_CLS
       (Star (Cls False [(CHR ''a'', CHR ''z''), (CHR ''A'', CHR ''Z''), (CHR ''0'', CHR ''9''), (CHR ''_'', CHR ''_'')]))"

definition quoted_re :: "char \<Rightarrow> re" where
  "quoted_re q =
     re_seqs [re_char q, Star (Alt (Cls True [(q, q)]) (Seq (re_char (CHR 0x5C)) (Cls True []))), re_char q]"

definition sex_real_re :: re where
  "sex_real_re = re_seqs [re_opt (re_char CHR ''-''), Star DIGIT_CLS, re_char CHR ''.'', re_plus DIGIT_CLS]"

definition sex_name_re :: re where
  "sex_name_re =
     re_seqs [FIELD_NAME_RE, re_opt (Seq (re_char CHR ''.'') FIELD_NAME_RE),
              re_opt (re_seqs [re_char CHR ''['', re_plus DIGIT_CLS, re_char CHR '']''])]"

text \<open>What a rule does with the text it matched; \<open>Skip\<close> continues with the next token.\<close>

datatype lex_action = Skip | Real | Integer | Tok sex_token | Name | Str

definition sex_rules :: "(re \<times> lex_action) list" where
  "sex_rules =
     [(BLANK_CLS, Skip), (sex_real_re, Real), (REC_INT_RE, Integer),
      (re_string ''+'', Tok REC_SEX_TOK_ADD), (re_string ''-'', Tok REC_SEX_TOK_SUB),
      (re_string ''/'', Tok REC_SEX_TOK_DIV), (re_string ''%'', Tok REC_SEX_TOK_MOD),
      (re_string ''>>'', Tok REC_SEX_TOK_AFTER), (re_string ''<<'', Tok REC_SEX_TOK_BEFORE),
      (re_string ''<='', Tok REC_SEX_TOK_LTE), (re_string ''>='', Tok REC_SEX_TOK_GTE),
      (re_string ''=='', Tok REC_SEX_TOK_SAMETIME), (re_string ''=>'', Tok REC_SEX_TOK_IMPLIES),
      (re_string ''*'', Tok REC_SEX_TOK_MUL), (re_string ''='', Tok REC_SEX_TOK_EQL),
      (re_string ''!='', Tok REC_SEX_TOK_NEQ), (re_string ''!'', Tok REC_SEX_TOK_NOT),
      (re_string ''~'', Tok REC_SEX_TOK_MAT), (re_string ''>'', Tok REC_SEX_TOK_GT),
      (re_string ''<'', Tok REC_SEX_TOK_LT), (re_string ''('', Tok REC_SEX_TOK_BP),
      (re_string '')'', Tok REC_SEX_TOK_EP), (re_string ''&&'', Tok REC_SEX_TOK_AND),
      (re_string ''||'', Tok REC_SEX_TOK_OR), (re_string ''#'', Tok REC_SEX_TOK_SHARP),
      (re_string ''?'', Tok REC_SEX_TOK_QM), (re_string '':'', Tok REC_SEX_TOK_COLON),
      (re_string ''&'', Tok REC_SEX_TOK_AMP), (sex_name_re, Name),
      (Alt (quoted_re CHR 0x27) (quoted_re CHR 0x22), Str),
      (Cls True [(NL, NL)], Tok REC_SEX_TOK_ERR)]"

text \<open>The rule with the longest match, the first of them on a tie.\<close>

fun lex_best :: "(re \<times> lex_action) list \<Rightarrow> string \<Rightarrow> (nat \<times> lex_action) option" where
  "lex_best [] s = None"
| "lex_best ((r, a) # rs) s =
     (case (re_prefix r s, lex_best rs s) of
        (None, best) \<Rightarrow> best
      | (Some n, None) \<Rightarrow> Some (n, a)
      | (Some n, Some (m, b)) \<Rightarrow> if m > n then Some (m, b) else Some (n, a))"

definition lex_token :: "rec_ext \<Rightarrow> lex_action \<Rightarrow> string \<Rightarrow> sex_token option" where
  "lex_token ext a yytext =
     (case a of
        Skip \<Rightarrow> None
      | Real \<Rightarrow> Some (REC_SEX_TOK_REAL (rec_atod ext yytext))
      | Integer \<Rightarrow> Some (REC_SEX_TOK_INT (rec_atoi yytext))
      | Tok t \<Rightarrow> Some t
      | Name \<Rightarrow>
          Some (REC_SEX_TOK_NAM (rec_sex_lex_extract_name yytext) (rec_sex_lex_extract_subname yytext)
                  (rec_sex_lex_extract_index yytext))
      | Str \<Rightarrow> Some (REC_SEX_TOK_STR (tl (butlast yytext))))"

lemma lex_best_mem:
  "lex_best rs s = Some (n, a) \<Longrightarrow> \<exists>r. (r, a) \<in> set rs \<and> re_prefix r s = Some n"
  by (induction rs s rule: lex_best.induct) (auto split: option.splits if_splits prod.splits)

lemma sex_rules_not_nullable: "list_all (\<lambda>(r, a). \<not> nullable r) sex_rules"
  by code_simp

lemma lex_best_progress: "lex_best sex_rules s = Some (n, a) \<Longrightarrow> 0 < n \<and> n \<le> length s"
proof -
  assume "lex_best sex_rules s = Some (n, a)"
  then obtain r where r: "(r, a) \<in> set sex_rules" "re_prefix r s = Some n" by (auto dest: lex_best_mem)
  then have "\<not> re_lang r []" "n \<le> length s" "re_lang r (take n s)"
    using sex_rules_not_nullable by (auto simp: list_all_iff re_prefix_Some nullable_iff)
  then show ?thesis by (cases n) auto
qed

text \<open>Every character is matched by some rule; without a match the scanner would echo it.\<close>

function sex_tokens :: "rec_ext \<Rightarrow> string \<Rightarrow> sex_token list" where
  "sex_tokens ext s =
     (if s = [] then []
      else case lex_best sex_rules s of
             None \<Rightarrow> sex_tokens ext (tl s)
           | Some (n, a) \<Rightarrow>
               (case lex_token ext a (take n s) of
                  None \<Rightarrow> sex_tokens ext (drop n s)
                | Some t \<Rightarrow> t # sex_tokens ext (drop n s)))"
  by pat_completeness auto
termination
  by (relation "measure (\<lambda>(ext, s). length s)") (auto dest: lex_best_progress)

declare sex_tokens.simps [simp del]

text \<open>\<open>rec_sex_parser_getc\<close> gives -1, the end of the input, also for the byte 0xFF.\<close>

definition rec_sex_lex :: "rec_ext \<Rightarrow> string \<Rightarrow> sex_token list" where
  "rec_sex_lex ext s = sex_tokens ext (takeWhile (\<lambda>c. schar c \<noteq> -1) s)"

section \<open>The grammar\<close>

text \<open>
  The parser Bison makes of the grammar: a stack of symbols, and for the state the stack is in
  and the next token either a shift or a reduction. Where both are possible the precedences of the
  declarations decide. The rule of the conditional ends in a token without precedence, and
  there the shift wins.
\<close>

fun tok_op :: "sex_token \<Rightarrow> rec_sex_op option" where
  "tok_op REC_SEX_TOK_IMPLIES = Some REC_SEX_OP_IMPLIES"
| "tok_op REC_SEX_TOK_AND = Some REC_SEX_OP_AND"
| "tok_op REC_SEX_TOK_OR = Some REC_SEX_OP_OR"
| "tok_op REC_SEX_TOK_EQL = Some REC_SEX_OP_EQL"
| "tok_op REC_SEX_TOK_NEQ = Some REC_SEX_OP_NEQ"
| "tok_op REC_SEX_TOK_LT = Some REC_SEX_OP_LT"
| "tok_op REC_SEX_TOK_GT = Some REC_SEX_OP_GT"
| "tok_op REC_SEX_TOK_LTE = Some REC_SEX_OP_LTE"
| "tok_op REC_SEX_TOK_GTE = Some REC_SEX_OP_GTE"
| "tok_op REC_SEX_TOK_SAMETIME = Some REC_SEX_OP_SAMETIME"
| "tok_op REC_SEX_TOK_AFTER = Some REC_SEX_OP_AFTER"
| "tok_op REC_SEX_TOK_BEFORE = Some REC_SEX_OP_BEFORE"
| "tok_op REC_SEX_TOK_SUB = Some REC_SEX_OP_SUB"
| "tok_op REC_SEX_TOK_ADD = Some REC_SEX_OP_ADD"
| "tok_op REC_SEX_TOK_MUL = Some REC_SEX_OP_MUL"
| "tok_op REC_SEX_TOK_DIV = Some REC_SEX_OP_DIV"
| "tok_op REC_SEX_TOK_MOD = Some REC_SEX_OP_MOD"
| "tok_op REC_SEX_TOK_MAT = Some REC_SEX_OP_MAT"
| "tok_op REC_SEX_TOK_AMP = Some REC_SEX_OP_CONCAT"
| "tok_op _ = None"

text \<open>The rows of the precedence declarations, from \<open>%left REC_SEX_TOK_QM\<close> (0) up.\<close>

fun op_level :: "rec_sex_op \<Rightarrow> nat" where
  "op_level REC_SEX_OP_COND = 0"
| "op_level REC_SEX_OP_IMPLIES = 1"
| "op_level REC_SEX_OP_AND = 2" | "op_level REC_SEX_OP_OR = 2"
| "op_level REC_SEX_OP_EQL = 3" | "op_level REC_SEX_OP_NEQ = 3" | "op_level REC_SEX_OP_LT = 3"
| "op_level REC_SEX_OP_GT = 3" | "op_level REC_SEX_OP_LTE = 3" | "op_level REC_SEX_OP_GTE = 3"
| "op_level REC_SEX_OP_SAMETIME = 4" | "op_level REC_SEX_OP_AFTER = 4" | "op_level REC_SEX_OP_BEFORE = 4"
| "op_level REC_SEX_OP_SUB = 5" | "op_level REC_SEX_OP_ADD = 5"
| "op_level REC_SEX_OP_MUL = 6" | "op_level REC_SEX_OP_DIV = 6" | "op_level REC_SEX_OP_MOD = 6"
| "op_level REC_SEX_OP_MAT = 6"
| "op_level REC_SEX_OP_CONCAT = 7"
| "op_level REC_SEX_OP_NOT = 9"
| "op_level REC_SEX_OP_SHA = 10"

text \<open>Whether a pending binary operator is reduced before the next token.\<close>

definition reduce_before :: "rec_sex_op \<Rightarrow> sex_token option \<Rightarrow> bool" where
  "reduce_before op la =
     (case Option.bind la tok_op of
        None \<Rightarrow> True
      | Some op' \<Rightarrow> op_level op' < op_level op \<or> op_level op' = op_level op \<and> op_level op \<noteq> 1)"

datatype sex_sym = Exp rec_sex_ast_node | Term sex_token

definition CREATE_NODE_OP1 :: "rec_sex_op \<Rightarrow> rec_sex_ast_node \<Rightarrow> rec_sex_ast_node" where
  "CREATE_NODE_OP1 op c = rec_sex_ast_node_link (REC_SEX_OP op []) c"

definition CREATE_NODE_OP2 :: "rec_sex_op \<Rightarrow> rec_sex_ast_node \<Rightarrow> rec_sex_ast_node \<Rightarrow> rec_sex_ast_node" where
  "CREATE_NODE_OP2 op c d = rec_sex_ast_node_link (rec_sex_ast_node_link (REC_SEX_OP op []) c) d"

definition CREATE_NODE_OP3 ::
  "rec_sex_op \<Rightarrow> rec_sex_ast_node \<Rightarrow> rec_sex_ast_node \<Rightarrow> rec_sex_ast_node \<Rightarrow> rec_sex_ast_node" where
  "CREATE_NODE_OP3 op c d e =
     rec_sex_ast_node_link (rec_sex_ast_node_link (rec_sex_ast_node_link (REC_SEX_OP op []) c) d) e"

fun int_node :: "rec_sex_ast_node \<Rightarrow> bool" where
  "int_node (REC_SEX_INT v) = True"
| "int_node _ = False"

text \<open>A reduction: \<open>None\<close> when there is none, \<open>Some None\<close> for \<open>YYABORT\<close>.\<close>

definition sex_reduce :: "sex_sym list \<Rightarrow> sex_token option \<Rightarrow> sex_sym list option option" where
  "sex_reduce st la =
     (case st of
        Exp e2 # Term t # st1 \<Rightarrow>
          if t = REC_SEX_TOK_NOT then Some (Some (Exp (CREATE_NODE_OP1 REC_SEX_OP_NOT e2) # st1))
          else if t = REC_SEX_TOK_COLON
          then (case st1 of
                  Exp e1 # Term q # Exp e0 # st2 \<Rightarrow>
                    if la = Some REC_SEX_TOK_QM \<or> Option.bind la tok_op \<noteq> None then None
                    else Some (Some (Exp (CREATE_NODE_OP3 REC_SEX_OP_COND e0 e1 e2) # st2))
                | _ \<Rightarrow> None)
          else (case st1 of
                  Exp e1 # st2 \<Rightarrow>
                    (case tok_op t of
                       None \<Rightarrow> None
                     | Some op \<Rightarrow>
                         if \<not> reduce_before op la then None
                         else if op = REC_SEX_OP_MAT \<and> (int_node e1 \<or> int_node e2) then Some None
                         else Some (Some (Exp (CREATE_NODE_OP2 op e1 e2) # st2)))
                | _ \<Rightarrow> None)
      | _ \<Rightarrow> None)"

text \<open>
  The shifts, with the reductions they lead to: an operand becomes an expression, a closing
  parenthesis removes the opening one. A colon is only shifted behind a question mark.
\<close>

definition shift_operand :: "sex_sym list \<Rightarrow> sex_token \<Rightarrow> sex_sym list option" where
  "shift_operand st t =
     (case t of
        REC_SEX_TOK_INT v \<Rightarrow> Some (Exp (REC_SEX_INT v) # st)
      | REC_SEX_TOK_REAL v \<Rightarrow> Some (Exp (REC_SEX_REAL v) # st)
      | REC_SEX_TOK_STR v \<Rightarrow> Some (Exp (REC_SEX_STR v) # st)
      | REC_SEX_TOK_NAM n sub i \<Rightarrow> Some (Exp (REC_SEX_NAME n sub i None) # st)
      | REC_SEX_TOK_NOT \<Rightarrow> Some (Term t # st)
      | REC_SEX_TOK_BP \<Rightarrow> Some (Term t # st)
      | REC_SEX_TOK_SHARP \<Rightarrow> Some (Term t # st)
      | _ \<Rightarrow> None)"

definition sex_shift :: "sex_sym list \<Rightarrow> sex_token \<Rightarrow> sex_sym list option" where
  "sex_shift st t =
     (case st of
        Exp e # st' \<Rightarrow>
          if tok_op t \<noteq> None \<or> t = REC_SEX_TOK_QM then Some (Term t # st)
          else if t = REC_SEX_TOK_COLON
          then (case st' of Term q # _ \<Rightarrow> if q = REC_SEX_TOK_QM then Some (Term t # st) else None | _ \<Rightarrow> None)
          else if t = REC_SEX_TOK_EP
          then (case st' of Term q # st'' \<Rightarrow> if q = REC_SEX_TOK_BP then Some (Exp e # st'') else None | _ \<Rightarrow> None)
          else None
      | Term s # st' \<Rightarrow>
          if s = REC_SEX_TOK_SHARP
          then (case t of
                  REC_SEX_TOK_NAM n sub i \<Rightarrow>
                    Some (Exp (CREATE_NODE_OP1 REC_SEX_OP_SHA (REC_SEX_NAME n sub i None)) # st')
                | _ \<Rightarrow> None)
          else shift_operand st t
      | [] \<Rightarrow> shift_operand st t)"

definition lookahead :: "sex_token list \<Rightarrow> sex_token option" where
  "lookahead ts = (case ts of [] \<Rightarrow> None | t # _ \<Rightarrow> Some t)"

lemma sex_reduce_length: "sex_reduce st la = Some (Some st') \<Longrightarrow> length st' < length st"
  by (auto simp: sex_reduce_def split: option.splits if_splits list.splits sex_sym.splits)

lemma sex_shift_length: "sex_shift st t = Some st' \<Longrightarrow> length st' \<le> Suc (length st)"
  by (auto simp: sex_shift_def shift_operand_def split: sex_token.splits if_splits list.splits sex_sym.splits)

function sexparse :: "sex_sym list \<Rightarrow> sex_token list \<Rightarrow> rec_sex_ast_node option" where
  "sexparse st ts =
     (case sex_reduce st (lookahead ts) of
        Some None \<Rightarrow> None
      | Some (Some st') \<Rightarrow> sexparse st' ts
      | None \<Rightarrow>
          (case ts of
             [] \<Rightarrow> (case st of [Exp e] \<Rightarrow> Some e | _ \<Rightarrow> None)
           | t # ts' \<Rightarrow> (case sex_shift st t of None \<Rightarrow> None | Some st' \<Rightarrow> sexparse st' ts')))"
  by pat_completeness auto
termination
  by (relation "measure (\<lambda>(st, ts). 2 * length ts + length st)") (auto dest: sex_reduce_length sex_shift_length)

declare sexparse.simps [simp del]

text \<open>A compiled expression: the tree and whether letters are compared without their case.\<close>

record rec_sex =
  sex_ast :: "rec_sex_ast_node option"
  sex_case_insensitive :: bool

definition rec_sex_new :: "bool \<Rightarrow> rec_sex" where
  "rec_sex_new case_insensitive = \<lparr>sex_ast = None, sex_case_insensitive = case_insensitive\<rparr>"

definition rec_sex_parser_run :: "rec_ext \<Rightarrow> string \<Rightarrow> rec_sex_ast_node option" where
  "rec_sex_parser_run ext expr = sexparse [] (rec_sex_lex ext (strdup expr))"

definition rec_sex_compile :: "rec_ext \<Rightarrow> rec_sex \<Rightarrow> string \<Rightarrow> bool \<times> rec_sex" where
  "rec_sex_compile ext sex expr =
     (case rec_sex_parser_run ext expr of
        None \<Rightarrow> (False, sex)
      | Some ast \<Rightarrow> (True, sex\<lparr>sex_ast := Some ast\<rparr>))"

end
