(* ===== verification/Rec_Rset.thy ===== *)
theory Rec_Rset
  imports Rec_Record Rec_Types Rec_Sex
begin

text \<open>
  Record sets (\<open>src/rec-rset.c\<close>): a multi-set of records and comments with a record descriptor
  and what is derived from it, the type registry, the properties of fields, the sort fields and
  the constraints. The linked list \<open>field_props\<close> is a list, a reference to one of its nodes a
  position. Records of a record set have the set as their container, so the comparison callback
  is given the set itself. \<open>None\<close> stands for undefined behaviour: a NULL pointer that is read or a
  variable without a value. The build has encryption support and no \<open>libuuid\<close>.
\<close>

section \<open>Data\<close>

datatype sdata = SRecord rec_record | SComment rec_comment

record rec_rset_fprops =
  props_fname :: string
  props_key_p :: bool
  props_auto_p :: bool
  props_confidential_p :: bool
  props_type :: "rec_type option"
  props_type_name :: "string option"

record rec_rset =
  rset_descriptor :: "rec_record option"
  rset_descriptor_pos :: nat
  rset_field_props :: "rec_rset_fprops list"
  rset_type_reg :: "rec_type_reg option"
  rset_order_by_fields :: "rec_fex option"
  rset_min_size :: size_t
  rset_max_size :: size_t
  rset_constraints :: "rec_sex list"
  rset_record_type :: nat
  rset_comment_type :: nat
  rset_mset :: "sdata rec_mset"

definition SIZE_MAX :: size_t where "SIZE_MAX = -1"

abbreviation (input) FNAME :: "rec_std_field \<Rightarrow> string" where "FNAME \<equiv> rec_std_field_name"

definition rec_rset_new :: rec_rset where
  "rec_rset_new =
     (let (rt, m1) = register_or_same rec_mset_new ''record'' (Some ''rec_rset_record_disp_fn'')
            (Some ''rec_rset_record_equal_fn'') (Some ''rec_rset_record_dup_fn'') (Some ''rec_rset_record_compare_fn'');
          (ct, m2) = register_or_same m1 ''comment'' (Some ''rec_rset_comment_disp_fn'')
            (Some ''rec_rset_comment_equal_fn'') (Some ''rec_rset_comment_dup_fn'') (Some ''rec_rset_comment_compare_fn'')
      in \<lparr>rset_descriptor = None, rset_descriptor_pos = 0, rset_field_props = [], rset_type_reg = Some rec_type_reg_new,
          rset_order_by_fields = None, rset_min_size = 0, rset_max_size = SIZE_MAX, rset_constraints = [],
          rset_record_type = rt, rset_comment_type = ct, rset_mset = m2\<rparr>)"

definition rec_rset_num_elems :: "rec_rset \<Rightarrow> nat" where
  "rec_rset_num_elems rset = rec_mset_count (rset_mset rset) MSET_ANY"

definition rec_rset_num_records :: "rec_rset \<Rightarrow> nat" where
  "rec_rset_num_records rset = rec_mset_count (rset_mset rset) (rset_record_type rset)"

definition rec_rset_num_comments :: "rec_rset \<Rightarrow> nat" where
  "rec_rset_num_comments rset = rec_mset_count (rset_mset rset) (rset_comment_type rset)"

definition rec_rset_set_descriptor_pos :: "rec_rset \<Rightarrow> nat \<Rightarrow> rec_rset" where
  "rec_rset_set_descriptor_pos rset position = rset\<lparr>rset_descriptor_pos := position\<rparr>"

text \<open>The records an iteration over \<open>MSET_RECORD\<close> visits, with their positions.\<close>

definition as_record :: "sdata \<Rightarrow> rec_record option" where
  "as_record d = (case d of SRecord r \<Rightarrow> Some r | SComment c \<Rightarrow> None)"

definition rec_rset_records :: "rec_rset \<Rightarrow> (nat \<times> rec_record) list" where
  "rec_rset_records rset =
     List.map_filter (\<lambda>(i, d). map_option (Pair i) (as_record d)) (rec_mset_items MSET_RECORD (rset_mset rset))"

section \<open>Field properties\<close>

text \<open>The position of the properties of a name; they are created in front of the list when asked for.\<close>

definition rec_rset_get_props :: "rec_rset \<Rightarrow> string \<Rightarrow> bool \<Rightarrow> nat option \<times> rec_rset" where
  "rec_rset_get_props rset fname create_p =
     (case find_index (\<lambda>p. rec_field_name_equal_p fname (props_fname p)) 0 (rset_field_props rset) of
        Some i \<Rightarrow> (Some i, rset)
      | None \<Rightarrow>
          if create_p
          then (Some 0, rset\<lparr>rset_field_props :=
                  \<lparr>props_fname = strdup fname, props_key_p = False, props_auto_p = False, props_confidential_p = False,
                   props_type = None, props_type_name = None\<rparr> # rset_field_props rset\<rparr>)
          else (None, rset))"

text \<open>\<open>props = rec_rset_get_props (rset, fname, true)\<close> and an assignment through \<open>props\<close>.\<close>

definition with_props :: "string \<Rightarrow> (rec_rset_fprops \<Rightarrow> rec_rset_fprops) \<Rightarrow> rec_rset \<Rightarrow> rec_rset" where
  "with_props fname f rset =
     (case rec_rset_get_props rset fname True of
        (None, rset') \<Rightarrow> rset'
      | (Some i, rset') \<Rightarrow>
          rset'\<lparr>rset_field_props := (rset_field_props rset')[i := f (rset_field_props rset' ! i)]\<rparr>)"

definition rec_rset_key :: "rec_rset \<Rightarrow> string option" where
  "rec_rset_key rset = map_option props_fname (find props_key_p (rset_field_props rset))"

text \<open>Appending a name to a field expression; a full expression stays as it is.\<close>

definition fex_of_props :: "(rec_rset_fprops \<Rightarrow> bool) \<Rightarrow> rec_rset_fprops list \<Rightarrow> rec_fex" where
  "fex_of_props P ps =
     foldl (\<lambda>fex p. if P p then snd (rec_fex_append fex (props_fname p) (-1) (-1)) else fex)
       \<lparr>fex_str = None, fex_elems = []\<rparr> ps"

definition rec_rset_auto :: "rec_rset \<Rightarrow> rec_fex" where
  "rec_rset_auto rset = fex_of_props props_auto_p (rset_field_props rset)"

definition rec_rset_confidential :: "rec_rset \<Rightarrow> rec_fex" where
  "rec_rset_confidential rset = fex_of_props props_confidential_p (rset_field_props rset)"

definition rec_rset_field_confidential_p :: "rec_rset \<Rightarrow> string \<Rightarrow> bool" where
  "rec_rset_field_confidential_p rset n =
     list_ex (\<lambda>e. case fex_elem_field_name e of None \<Rightarrow> False | Some m \<Rightarrow> rec_field_name_equal_p n m)
       (fex_elems (rec_rset_confidential rset))"

text \<open>A lookup in the registry always returns, and leaves its flags as they are between lookups.\<close>

definition rec_rset_get_field_type :: "rec_rset \<Rightarrow> string \<Rightarrow> rec_type option" where
  "rec_rset_get_field_type rset n =
     (case fst (rec_rset_get_props rset n False) of
        None \<Rightarrow> None
      | Some i \<Rightarrow>
          let props = rset_field_props rset ! i in
          (case props_type props of
             Some ty \<Rightarrow> Some ty
           | None \<Rightarrow>
               (case (props_type_name props, rset_type_reg rset) of
                  (Some tn, Some reg) \<Rightarrow> (case rec_type_reg_get reg tn of None \<Rightarrow> None | Some (ty, reg') \<Rightarrow> ty)
                | _ \<Rightarrow> None)))"

section \<open>Directives of the descriptor\<close>

definition rec_rset_type_field_p :: "rec_ext \<Rightarrow> string \<Rightarrow> bool" where
  "rec_rset_type_field_p ext str =
     (case rec_parse_regexp (Begin REC_FNAME_LIST_CS_RE) (rec_skip_blanks str) of
        None \<Rightarrow> False
      | Some (_, p) \<Rightarrow>
          let q = rec_skip_blanks p in
          rec_type_descr_p ext q
          \<or> rec_parse_regexp (Whole (Seq REC_TYPE_NAME_RE (Star BLANK_CLS))) q \<noteq> None)"

text \<open>Unlike the check, this does not skip blanks in front of the names.\<close>

definition rec_rset_type_field_fex :: "string \<Rightarrow> rec_fex option" where
  "rec_rset_type_field_fex str =
     (case rec_parse_regexp (Begin REC_FNAME_LIST_CS_RE) str of
        None \<Rightarrow> None
      | Some (name, _) \<Rightarrow> rec_fex_new (Some name) REC_FEX_CSV)"

definition rec_rset_type_field_type :: "rec_ext \<Rightarrow> string \<Rightarrow> string option" where
  "rec_rset_type_field_type ext str =
     (if rec_rset_type_field_p ext str
      then let p = rec_skip_blanks str;
               q = (case rec_parse_regexp (Begin REC_FNAME_LIST_CS_RE) p of None \<Rightarrow> p | Some (_, q) \<Rightarrow> q)
           in Some (strdup (rec_skip_blanks q))
      else None)"

text \<open>What a valid \<open>%type\<close> directive does for one of its names.\<close>

definition set_prop_type :: "rec_ext \<Rightarrow> string \<Rightarrow> string \<Rightarrow> rec_rset \<Rightarrow> rec_rset" where
  "set_prop_type ext field_type fname rset =
     (case rec_type_new ext field_type of
        None \<Rightarrow>
          with_props fname
            (\<lambda>p. p\<lparr>props_type := None,
                    props_type_name := map_option fst (rec_parse_regexp (Begin REC_TYPE_NAME_RE) field_type)\<rparr>) rset
      | Some ty \<Rightarrow> with_props fname (\<lambda>p. p\<lparr>props_type_name := None, props_type := Some ty\<rparr>) rset)"

text \<open>The names of the elements of a field expression, in order.\<close>

definition fex_names :: "rec_fex \<Rightarrow> string list" where
  "fex_names fex = List.map_filter fex_elem_field_name (fex_elems fex)"

definition type_directive :: "rec_ext \<Rightarrow> string \<Rightarrow> rec_rset \<Rightarrow> rec_rset option" where
  "type_directive ext v rset =
     (case rec_rset_type_field_type ext v of
        None \<Rightarrow> Some rset
      | Some field_type \<Rightarrow>
          (case rec_rset_type_field_fex v of
             None \<Rightarrow> None
           | Some fex \<Rightarrow> Some (fold (set_prop_type ext field_type) (fex_names fex) rset)))"

text \<open>A value that does not start with a name leaves the name NULL, which is then compared or copied.\<close>

definition key_directive :: "string \<Rightarrow> rec_rset \<Rightarrow> rec_rset option" where
  "key_directive v rset =
     (case rec_parse_regexp (Begin REC_FNAME_RE) (rec_skip_blanks v) of
        None \<Rightarrow> None
      | Some (n, _) \<Rightarrow> Some (with_props n (\<lambda>p. p\<lparr>props_key_p := True\<rparr>) rset))"

definition names_directive ::
  "(rec_rset_fprops \<Rightarrow> rec_rset_fprops) \<Rightarrow> string \<Rightarrow> rec_rset \<Rightarrow> rec_rset" where
  "names_directive f v rset =
     (case rec_fex_new (Some v) REC_FEX_SIMPLE of
        None \<Rightarrow> rset
      | Some fex \<Rightarrow> fold (\<lambda>n. with_props n f) (fex_names fex) rset)"

definition sort_directive :: "string \<Rightarrow> rec_rset \<Rightarrow> rec_rset" where
  "sort_directive v rset =
     (case rec_fex_new (Some v) REC_FEX_SIMPLE of
        None \<Rightarrow> rset
      | Some fex \<Rightarrow> rset\<lparr>rset_order_by_fields := Some fex\<rparr>)"

text \<open>The body of the loop of pass 1; the names of the directives exclude each other.\<close>

definition props_directive :: "rec_ext \<Rightarrow> rec_field \<Rightarrow> rec_rset \<Rightarrow> rec_rset option" where
  "props_directive ext f rset =
     (if rec_field_name_equal_p (field_name f) (FNAME REC_FIELD_TYPE) then type_directive ext (field_value f) rset
      else if rec_field_name_equal_p (field_name f) (FNAME REC_FIELD_KEY) then key_directive (field_value f) rset
      else if rec_field_name_equal_p (field_name f) (FNAME REC_FIELD_AUTO)
      then Some (names_directive (\<lambda>p. p\<lparr>props_auto_p := True\<rparr>) (field_value f) rset)
      else if rec_field_name_equal_p (field_name f) (FNAME REC_FIELD_SORT)
      then Some (sort_directive (field_value f) rset)
      else if rec_field_name_equal_p (field_name f) (FNAME REC_FIELD_CONFIDENTIAL)
      then Some (names_directive (\<lambda>p. p\<lparr>props_confidential_p := True\<rparr>) (field_value f) rset)
      else Some rset)"

fun props_directives :: "rec_ext \<Rightarrow> rec_field list \<Rightarrow> rec_rset \<Rightarrow> rec_rset option" where
  "props_directives ext [] rset = Some rset"
| "props_directives ext (f # fs) rset = Option.bind (props_directive ext f rset) (props_directives ext fs)"

definition implicit_int :: "rec_ext \<Rightarrow> rec_rset_fprops \<Rightarrow> rec_rset_fprops" where
  "implicit_int ext p =
     (if props_auto_p p \<and> props_type p = None \<and> props_type_name p = None
      then p\<lparr>props_type := rec_type_new ext ''int''\<rparr> else p)"

definition descriptor_fields :: "rec_rset \<Rightarrow> rec_field list" where
  "descriptor_fields rset =
     (case rset_descriptor rset of None \<Rightarrow> [] | Some d \<Rightarrow> map snd (rec_record_fields d))"

definition rec_rset_update_field_props :: "rec_ext \<Rightarrow> rec_rset \<Rightarrow> rec_rset option" where
  "rec_rset_update_field_props ext rset =
     (let reset = rset\<lparr>rset_field_props :=
            map (\<lambda>p. p\<lparr>props_key_p := False, props_auto_p := False, props_type := None\<rparr>) (rset_field_props rset)\<rparr>
      in map_option (\<lambda>rset'. rset'\<lparr>rset_field_props := map (implicit_int ext) (rset_field_props rset')\<rparr>)
           (props_directives ext (descriptor_fields rset) reset))"

section \<open>Types and constraints\<close>

definition typedef_directive :: "rec_ext \<Rightarrow> string \<Rightarrow> rec_type_reg \<Rightarrow> rec_type_reg" where
  "typedef_directive ext v reg =
     (case rec_parse_regexp (Begin REC_TYPE_NAME_RE) (rec_skip_blanks v) of
        None \<Rightarrow> reg
      | Some (tname, p) \<Rightarrow>
          (case rec_type_new ext p of
             Some ty \<Rightarrow> rec_type_reg_add reg (rec_type_set_name ty tname)
           | None \<Rightarrow>
               let q = rec_skip_blanks p in
               if rec_parse_regexp (Begin (Seq REC_TYPE_NAME_RE (Star BLANK_CLS))) q \<noteq> None
               then (case rec_parse_regexp (Begin REC_TYPE_NAME_RE) q of
                       None \<Rightarrow> reg
                     | Some (to_type, _) \<Rightarrow> rec_type_reg_add_synonym reg tname to_type)
               else reg))"

definition rec_rset_update_types :: "rec_ext \<Rightarrow> rec_rset \<Rightarrow> rec_rset" where
  "rec_rset_update_types ext rset =
     (case rset_descriptor rset of
        None \<Rightarrow> rset
      | Some d \<Rightarrow>
          rset\<lparr>rset_type_reg :=
            Some (fold (\<lambda>f reg. if rec_field_name_equal_p (field_name f) (FNAME REC_FIELD_TYPEDEF)
                                then typedef_directive ext (field_value f) reg else reg)
                    (descriptor_fields rset) rec_type_reg_new)\<rparr>)"

definition rec_rset_update_size_constraints :: "rec_rset \<Rightarrow> rec_rset option" where
  "rec_rset_update_size_constraints rset =
     (let rset0 = rset\<lparr>rset_min_size := 0, rset_max_size := SIZE_MAX\<rparr> in
      case Option.bind (rset_descriptor rset) (\<lambda>d. rec_record_get_field_by_name d (FNAME REC_FIELD_SIZE) 0) of
        None \<Rightarrow> Some rset0
      | Some (_, field) \<Rightarrow>
          if rec_match (field_value field) (Whole REC_INT_SIZE_RE)
          then map_option (\<lambda>size.
                 case rec_extract_size_condition (field_value field) of
                   SIZE_COND_E \<Rightarrow> rset0\<lparr>rset_min_size := size, rset_max_size := size\<rparr>
                 | SIZE_COND_L \<Rightarrow> rset0\<lparr>rset_max_size := size - 1\<rparr>
                 | SIZE_COND_LE \<Rightarrow> rset0\<lparr>rset_max_size := size\<rparr>
                 | SIZE_COND_G \<Rightarrow> rset0\<lparr>rset_min_size := size + 1\<rparr>
                 | SIZE_COND_GE \<Rightarrow> rset0\<lparr>rset_min_size := size\<rparr>) (rec_extract_size (field_value field))
          else Some rset0)"

definition rec_rset_update_sex_constraints :: "rec_ext \<Rightarrow> rec_rset \<Rightarrow> rec_rset" where
  "rec_rset_update_sex_constraints ext rset =
     rset\<lparr>rset_constraints :=
       List.map_filter (\<lambda>f. if rec_field_name_equal_p (field_name f) (FNAME REC_FIELD_CONSTRAINT)
                             then (case rec_sex_compile ext (rec_sex_new False) (field_value f) of
                                     (True, sex) \<Rightarrow> Some sex | (False, _) \<Rightarrow> None)
                             else None) (descriptor_fields rset)\<rparr>"

definition rec_rset_set_descriptor :: "rec_ext \<Rightarrow> rec_rset \<Rightarrow> rec_record option \<Rightarrow> rec_rset option" where
  "rec_rset_set_descriptor ext rset record =
     Option.bind (rec_rset_update_field_props ext (rec_rset_update_types ext (rset\<lparr>rset_descriptor := record\<rparr>)))
       (\<lambda>rset1. Option.bind (rec_rset_update_size_constraints rset1)
          (\<lambda>rset2. Some (rec_rset_update_sex_constraints ext rset2)))"

text \<open>The type of a record set, its first \<open>%rec\<close> field. Renaming the set does not update anything else.\<close>

definition rec_rset_type :: "rec_rset \<Rightarrow> string option" where
  "rec_rset_type rset =
     Option.bind (rset_descriptor rset)
       (\<lambda>d. Option.bind (rec_record_get_field_by_name d (FNAME REC_FIELD_REC) 0)
          (\<lambda>(_, f). rec_extract_type (field_value f)))"

definition rec_rset_url :: "rec_rset \<Rightarrow> string option" where
  "rec_rset_url rset =
     Option.bind (rset_descriptor rset)
       (\<lambda>d. Option.bind (rec_record_get_field_by_name d (FNAME REC_FIELD_REC) 0)
          (\<lambda>(_, f). rec_extract_url (field_value f)))"

definition rec_rset_set_type :: "rec_rset \<Rightarrow> string option \<Rightarrow> rec_rset" where
  "rec_rset_set_type rset type =
     (case type of
        None \<Rightarrow> rset
      | Some ty \<Rightarrow>
          let d = (case rset_descriptor rset of None \<Rightarrow> rec_record_new | Some d \<Rightarrow> d) in
          rset\<lparr>rset_descriptor := Some
            (case rec_record_get_field_by_name d (FNAME REC_FIELD_REC) 0 of
               Some (i, f) \<Rightarrow>
                 d\<lparr>record_mset := rec_mset_elem_set_data (record_mset d) i (DField (rec_field_set_value f ty))\<rparr>
             | None \<Rightarrow>
                 d\<lparr>record_mset := snd (rec_mset_append (record_mset d) MSET_FIELD
                      (DField (rec_field_new (FNAME REC_FIELD_REC) ty)) MSET_FIELD)\<rparr>)\<rparr>)"

text \<open>The source of an empty record set without a descriptor is read from a NULL record.\<close>

definition rec_rset_source :: "rec_rset \<Rightarrow> string option" where
  "rec_rset_source rset =
     (case rset_descriptor rset of
        Some d \<Rightarrow> Some (rec_record_source d)
      | None \<Rightarrow> map_option rec_record_source (Option.bind (rec_mset_get_at (rset_mset rset) MSET_RECORD 0) as_record))"

section \<open>Renaming fields\<close>

definition rename_fex :: "string \<Rightarrow> string \<Rightarrow> rec_fex \<Rightarrow> rec_fex" where
  "rename_fex n new fex =
     fex\<lparr>fex_elems := map (\<lambda>e. case fex_elem_field_name e of
            None \<Rightarrow> e
          | Some m \<Rightarrow> if rec_field_name_equal_p n m then rec_fex_elem_set_field_name e new else e) (fex_elems fex)\<rparr>"

text \<open>The new value of a directive that mentions the renamed field; other fields stay as they are.\<close>

definition rename_directive :: "rec_ext \<Rightarrow> string \<Rightarrow> string \<Rightarrow> rec_field \<Rightarrow> rec_field" where
  "rename_directive ext n new f =
     (if rec_field_name_equal_p (field_name f) (FNAME REC_FIELD_TYPE)
      then (case (rec_rset_type_field_type ext (field_value f), rec_rset_type_field_fex (field_value f)) of
              (Some type_str, Some fex) \<Rightarrow>
                rec_field_set_value f (rec_buf_close (buf_add type_str (buf_addc CHR '' ''
                  (buf_add (rec_fex_str (rename_fex n new fex) REC_FEX_CSV) rec_buf_new))))
            | _ \<Rightarrow> f)
      else if field_name f \<in> set (map FNAME [REC_FIELD_KEY, REC_FIELD_MANDATORY, REC_FIELD_UNIQUE, REC_FIELD_PROHIBIT,
                                              REC_FIELD_CONFIDENTIAL, REC_FIELD_SORT])
      then (case rec_fex_new (Some (field_value f)) REC_FEX_SIMPLE of
              None \<Rightarrow> f
            | Some fex \<Rightarrow> rec_field_set_value f (rec_fex_str (rename_fex n new fex) REC_FEX_SIMPLE))
      else f)"

definition rename_elem :: "rec_ext \<Rightarrow> string \<Rightarrow> string \<Rightarrow> rdata mset_elem \<Rightarrow> rdata mset_elem" where
  "rename_elem ext n new e =
     (case elem_data e of
        DField f \<Rightarrow> if elem_type e = MSET_FIELD then e\<lparr>elem_data := DField (rename_directive ext n new f)\<rparr> else e
      | DComment c \<Rightarrow> e)"

definition rename_descriptor :: "rec_ext \<Rightarrow> string \<Rightarrow> string \<Rightarrow> rec_record \<Rightarrow> rec_record" where
  "rename_descriptor ext n new d =
     (let m = record_mset d in d\<lparr>record_mset := m\<lparr>mset_elems := map (rename_elem ext n new) (mset_elems m)\<rparr>\<rparr>)"

definition rec_rset_rename_field :: "rec_ext \<Rightarrow> rec_rset \<Rightarrow> string \<Rightarrow> string \<Rightarrow> rec_rset option" where
  "rec_rset_rename_field ext rset n new =
     rec_rset_update_field_props ext
       (rset\<lparr>rset_descriptor := map_option (rename_descriptor ext n new) (rset_descriptor rset)\<rparr>)"

section \<open>Comparing, sorting and duplicating\<close>

fun compare_fields :: "rec_ext \<Rightarrow> rec_rset \<Rightarrow> rec_record \<Rightarrow> rec_record \<Rightarrow> string list \<Rightarrow> int" where
  "compare_fields ext rset r1 r2 [] = 0"
| "compare_fields ext rset r1 r2 (n # ns) =
     (case (rec_record_get_field_by_name r1 n 0, rec_record_get_field_by_name r2 n 0) of
        (Some _, None) \<Rightarrow> 1
      | (None, _) \<Rightarrow> -1
      | (Some (_, f1), Some (_, f2)) \<Rightarrow>
          let result = rec_type_values_cmp ext (rec_rset_get_field_type rset n) (field_value f1) (field_value f2) in
          if result \<noteq> 0 then result else compare_fields ext rset r1 r2 ns)"

definition rec_rset_compare_typed_records :: "rec_ext \<Rightarrow> rec_rset \<Rightarrow> rec_record \<Rightarrow> rec_record \<Rightarrow> rec_fex \<Rightarrow> int" where
  "rec_rset_compare_typed_records ext rset r1 r2 by_fields = compare_fields ext rset r1 r2 (fex_names by_fields)"

text \<open>
  The callbacks of the element types. The sort fields are not NULL when records are compared:
  \<open>rec_rset_sort\<close> is the only caller.
\<close>

definition rec_rset_record_compare_fn :: "rec_ext \<Rightarrow> rec_rset \<Rightarrow> sdata \<Rightarrow> sdata \<Rightarrow> nat \<Rightarrow> int" where
  "rec_rset_record_compare_fn ext rset d1 d2 type2 =
     (if type2 = MSET_COMMENT then 1
      else case (d1, d2, rset_order_by_fields rset) of
             (SRecord r1, SRecord r2, Some fex) \<Rightarrow>
               let type_comparison = rec_rset_compare_typed_records ext rset r1 r2 fex
               in if type_comparison = 0 then -1 else type_comparison
           | _ \<Rightarrow> -1)"

definition rec_rset_comment_compare_fn :: "sdata \<Rightarrow> sdata \<Rightarrow> nat \<Rightarrow> int" where
  "rec_rset_comment_compare_fn d1 d2 type2 = -1"

definition rec_rset_record_dup_fn :: "sdata \<Rightarrow> sdata option" where
  "rec_rset_record_dup_fn d = (case d of SRecord r \<Rightarrow> map_option SRecord (rec_record_dup r) | SComment c \<Rightarrow> None)"

definition rec_rset_comment_dup_fn :: "sdata \<Rightarrow> sdata option" where
  "rec_rset_comment_dup_fn d = (case d of SComment c \<Rightarrow> Some (SComment (rec_comment_dup c)) | SRecord r \<Rightarrow> None)"

definition rset_env :: "rec_ext \<Rightarrow> rec_rset \<Rightarrow> sdata mset_env" where
  "rset_env ext rset =
     \<lparr>call_equal = (\<lambda>fn d1 d2. d1 = d2),
      call_dup = (\<lambda>fn d. if fn = ''rec_rset_record_dup_fn'' then rec_rset_record_dup_fn d
                         else if fn = ''rec_rset_comment_dup_fn'' then rec_rset_comment_dup_fn d else None),
      call_compare = (\<lambda>fn d1 d2 t. if fn = ''rec_rset_record_compare_fn'' then rec_rset_record_compare_fn ext rset d1 d2 t
                                   else rec_rset_comment_compare_fn d1 d2 t)\<rparr>"

definition rec_rset_set_order_by_fields :: "rec_rset \<Rightarrow> rec_fex \<Rightarrow> rec_rset option" where
  "rec_rset_set_order_by_fields rset names =
     map_option (\<lambda>fex. rset\<lparr>rset_order_by_fields := Some fex\<rparr>) (rec_fex_dup names)"

definition rec_rset_sort :: "sdata sorted_add \<Rightarrow> rec_ext \<Rightarrow> rec_rset \<Rightarrow> rec_fex option \<Rightarrow> rec_rset option" where
  "rec_rset_sort sadd ext rset sort_by =
     Option.bind (case sort_by of None \<Rightarrow> Some rset | Some fex \<Rightarrow> rec_rset_set_order_by_fields rset fex)
       (\<lambda>rset1.
          case rset_order_by_fields rset1 of
            None \<Rightarrow> Some rset1
          | Some _ \<Rightarrow>
              Option.bind (rec_mset_sort sadd (rset_env ext rset1) (rset_mset rset1))
                (\<lambda>m. rec_rset_update_field_props ext (rset1\<lparr>rset_mset := m\<rparr>)))"

text \<open>The duplicate has no descriptor, no types, no properties and no constraints.\<close>

definition rec_rset_dup :: "rec_ext \<Rightarrow> rec_rset \<Rightarrow> rec_rset option" where
  "rec_rset_dup ext rset =
     Option.bind (case rset_order_by_fields rset of None \<Rightarrow> Some None | Some fex \<Rightarrow> map_option Some (rec_fex_dup fex))
       (\<lambda>order. Option.bind (rec_mset_dup (rset_env ext rset) (rset_mset rset))
          (\<lambda>m. Some \<lparr>rset_descriptor = None, rset_descriptor_pos = 0, rset_field_props = [], rset_type_reg = None,
                      rset_order_by_fields = order, rset_min_size = rset_min_size rset,
                      rset_max_size = rset_max_size rset, rset_constraints = [],
                      rset_record_type = rset_record_type rset, rset_comment_type = rset_comment_type rset,
                      rset_mset = m\<rparr>))"

section \<open>Grouping\<close>

fun merge_elems :: "rec_fex \<Rightarrow> rdata rec_mset \<Rightarrow> rdata mset_elem list \<Rightarrow> rdata rec_mset" where
  "merge_elems group_by m [] = m"
| "merge_elems group_by m (e # es) =
     merge_elems group_by
       (case elem_data e of
          DField f \<Rightarrow>
            if rec_fex_member_p group_by (field_name f) (-1) (-1) then m
            else snd (rec_mset_append m MSET_FIELD (DField (rec_field_dup f)) MSET_ANY)
        | DComment c \<Rightarrow> snd (rec_mset_append m MSET_COMMENT (DComment (rec_comment_dup c)) MSET_ANY)) es"

definition rec_rset_merge_records :: "rec_record \<Rightarrow> rec_record \<Rightarrow> rec_fex \<Rightarrow> rec_record" where
  "rec_rset_merge_records to_record from_record group_by =
     to_record\<lparr>record_mset := merge_elems group_by (record_mset to_record) (mset_elems (record_mset from_record))\<rparr>"

text \<open>The record an element position refers to.\<close>

definition rec_at :: "sdata rec_mset \<Rightarrow> nat \<Rightarrow> rec_record" where
  "rec_at m i = (case elem_data (mset_elems m ! i) of SRecord r \<Rightarrow> r | SComment c \<Rightarrow> rec_record_new)"

text \<open>
  The two nested loops: \<open>i\<close> is the position of \<open>record\<close>, the lists are the positions of the records
  the iterators still visit, \<open>num\<close> and \<open>num2\<close> index the deletion map.
\<close>

fun group_inner ::
  "rec_ext \<Rightarrow> rec_rset \<Rightarrow> rec_fex \<Rightarrow> nat \<Rightarrow> nat \<Rightarrow> nat list \<Rightarrow> bool list \<Rightarrow> sdata rec_mset \<Rightarrow> bool list \<times> sdata rec_mset" where
  "group_inner ext rset group_by i num2 [] dmap m = (dmap, m)"
| "group_inner ext rset group_by i num2 (j # js) dmap m =
     (if rec_rset_compare_typed_records ext rset (rec_at m i) (rec_at m j) group_by \<noteq> 0 then (dmap, m)
      else group_inner ext rset group_by i (Suc num2) js (dmap[Suc num2 := True])
             (rec_mset_elem_set_data m i (SRecord (rec_rset_merge_records (rec_at m i) (rec_at m j) group_by))))"

fun group_loop ::
  "rec_ext \<Rightarrow> rec_rset \<Rightarrow> rec_fex \<Rightarrow> nat \<Rightarrow> nat list \<Rightarrow> bool list \<Rightarrow> sdata rec_mset \<Rightarrow> bool list \<times> sdata rec_mset" where
  "group_loop ext rset group_by num [] dmap m = (dmap, m)"
| "group_loop ext rset group_by num (i # is) dmap m =
     (case (if \<not> dmap ! num then group_inner ext rset group_by i num is dmap m else (dmap, m)) of
        (dmap', m') \<Rightarrow> group_loop ext rset group_by (Suc num) is dmap' m')"

definition rec_rset_group :: "rec_ext \<Rightarrow> rec_rset \<Rightarrow> rec_fex \<Rightarrow> rec_rset" where
  "rec_rset_group ext rset group_by =
     (case group_loop ext rset group_by 0 (map fst (rec_rset_records rset))
             (replicate (rec_rset_num_records rset) False) (rset_mset rset) of
        (dmap, m) \<Rightarrow> rset\<lparr>rset_mset := remove_masked dmap 0 0 m\<rparr>)"

section \<open>Auto fields\<close>

text \<open>\<open>strtol\<close> with base 10; \<open>None\<close> when \<open>errno\<close> is set.\<close>

definition strtol10 :: "string \<Rightarrow> (int \<times> string) option" where
  "strtol10 s =
     (let s1 = dropWhile isspace s;
          s2 = (if peek s1 = CHR ''-'' \<or> peek s1 = CHR ''+'' then tl s1 else s1);
          ds = takeWhile rec_digit_p s2;
          v = (if peek s1 = CHR ''-'' then - digits_value 10 ds else digits_value 10 ds)
      in if ds = [] then Some (0, s)
         else if - (2 ^ 63) \<le> v \<and> v < 2 ^ 63 then Some (v, dropWhile rec_digit_p s2) else None)"

definition named_values_of :: "string \<Rightarrow> rec_record \<Rightarrow> string list" where
  "named_values_of n r =
     map (\<lambda>i. case rec_record_get_field_by_name r n i of Some (_, f) \<Rightarrow> field_value f | None \<Rightarrow> [])
       [0..<rec_record_get_num_fields_by_name r n]"

text \<open>One round of the search for the next value; the increment of \<open>INT_MAX\<close> is undefined.\<close>

definition auto_value_step :: "string \<Rightarrow> int option \<Rightarrow> int option" where
  "auto_value_step v auto_value =
     Option.bind auto_value
       (\<lambda>a. case strtol10 v of
              Some (n, []) \<Rightarrow>
                let field_value = int32 n in
                if a \<le> field_value then (if field_value = INT_MAX then None else Some (field_value + 1)) else Some a
            | _ \<Rightarrow> Some a)"

definition auto_value :: "rec_rset \<Rightarrow> string \<Rightarrow> int option" where
  "auto_value rset n =
     fold auto_value_step (concat (map (named_values_of n) (map snd (rec_rset_records rset)))) (Some 0)"

definition insert_front :: "rec_record \<Rightarrow> string \<Rightarrow> string \<Rightarrow> rec_record" where
  "insert_front r n v =
     r\<lparr>record_mset := snd (rec_mset_insert_at (record_mset r) MSET_FIELD (DField (rec_field_new n v)) 0)\<rparr>"

definition rec_rset_add_auto_field_int :: "rec_rset \<Rightarrow> string \<Rightarrow> rec_record \<Rightarrow> rec_record option" where
  "rec_rset_add_auto_field_int rset n record = map_option (\<lambda>v. insert_front record n (show_int v)) (auto_value rset n)"

text \<open>\<open>now\<close> is the current time as \<open>strftime\<close> formats it.\<close>

definition rec_rset_add_auto_field_date :: "string \<Rightarrow> string \<Rightarrow> rec_record \<Rightarrow> rec_record option" where
  "rec_rset_add_auto_field_date now n record = Some (insert_front record n now)"

definition add_auto_field :: "string \<Rightarrow> rec_rset \<Rightarrow> string \<Rightarrow> rec_record \<Rightarrow> rec_record option" where
  "add_auto_field now rset n record =
     (if rec_record_field_p record n then Some record
      else case rec_rset_get_field_type rset n of
             None \<Rightarrow> Some record
           | Some type \<Rightarrow>
               (case rec_type_kind type of
                  REC_TYPE_INT \<Rightarrow> rec_rset_add_auto_field_int rset n record
                | REC_TYPE_RANGE \<Rightarrow> rec_rset_add_auto_field_int rset n record
                | REC_TYPE_DATE \<Rightarrow> rec_rset_add_auto_field_date now n record
                | _ \<Rightarrow> Some record))"

definition rec_rset_add_auto_fields :: "string \<Rightarrow> rec_rset \<Rightarrow> rec_record \<Rightarrow> rec_record option" where
  "rec_rset_add_auto_fields now rset record =
     fold (\<lambda>n rec. Option.bind rec (add_auto_field now rset n)) (fex_names (rec_rset_auto rset)) (Some record)"

end
