(* ===== verification/Rec_Sex_Eval.thy ===== *)
theory Rec_Sex_Eval
  imports Rec_Sex "HOL-Library.Signed_Division"
begin

text \<open>
  Evaluation of selection expressions (\<open>src/rec-sex.c\<close>). An evaluation gives a value, fails
  (\<open>*status\<close> is false), or is undefined: it reads a variable no branch has assigned (an
  integer operation on a real value, a difference of reals) or overflows an \<open>int\<close>. A name
  with an index is fixed at its first evaluation, so the tree is part of the state.
\<close>

section \<open>Values\<close>

datatype rec_sex_val = REC_SEX_VAL_INT int | REC_SEX_VAL_REAL real | REC_SEX_VAL_STR string

datatype 'a outcome = Ok 'a | Fail | Undef

text \<open>Two conversions in a row: the first failure ends the evaluation before anything is read.\<close>

fun both :: "'a outcome \<Rightarrow> 'a outcome \<Rightarrow> ('a \<Rightarrow> 'a \<Rightarrow> 'b outcome) \<Rightarrow> 'b outcome" where
  "both Fail b f = Fail"
| "both a Fail f = Fail"
| "both (Ok x) (Ok y) f = f x y"
| "both a b f = Undef"

definition ATOI_VAL :: "rec_sex_val \<Rightarrow> int outcome" where
  "ATOI_VAL v =
     (case v of
        REC_SEX_VAL_INT n \<Rightarrow> Ok n
      | REC_SEX_VAL_STR s \<Rightarrow>
          if s = [] then Ok 0 else (case rec_atoi s of None \<Rightarrow> Fail | Some n \<Rightarrow> Ok n)
      | REC_SEX_VAL_REAL r \<Rightarrow> Undef)"

definition ATOD_VAL :: "rec_ext \<Rightarrow> rec_sex_val \<Rightarrow> real outcome" where
  "ATOD_VAL ext v =
     (case v of
        REC_SEX_VAL_REAL r \<Rightarrow> Ok r
      | REC_SEX_VAL_INT n \<Rightarrow> Ok (of_int n)
      | REC_SEX_VAL_STR s \<Rightarrow>
          if s = [] then Ok 0 else (case rec_atod ext s of None \<Rightarrow> Fail | Some r \<Rightarrow> Ok r))"

definition ATOTS_VAL :: "rec_ext \<Rightarrow> rec_sex_val \<Rightarrow> (int \<times> int) outcome" where
  "ATOTS_VAL ext v =
     (case v of
        REC_SEX_VAL_STR s \<Rightarrow> (case ext_parse_datetime ext s of None \<Rightarrow> Fail | Some t \<Rightarrow> Ok t)
      | _ \<Rightarrow> Fail)"

definition rec_sex_op_real_p :: "rec_ext \<Rightarrow> rec_sex_val \<Rightarrow> rec_sex_val \<Rightarrow> bool" where
  "rec_sex_op_real_p ext op1 op2 =
     (let isint = (\<lambda>v. case v of REC_SEX_VAL_INT _ \<Rightarrow> True | REC_SEX_VAL_STR s \<Rightarrow> rec_atoi s \<noteq> None | _ \<Rightarrow> False);
          isreal = (\<lambda>v. case v of REC_SEX_VAL_REAL _ \<Rightarrow> True
                     | REC_SEX_VAL_STR s \<Rightarrow> rec_atod ext s \<noteq> None \<and> rec_atoi s = None | _ \<Rightarrow> False);
          ret = True;
          ret = (if isint op1
                 then (case op2 of
                         REC_SEX_VAL_INT _ \<Rightarrow> False
                       | REC_SEX_VAL_REAL _ \<Rightarrow> True
                       | REC_SEX_VAL_STR s \<Rightarrow> rec_atod ext s \<noteq> None \<and> rec_atoi s = None)
                 else ret)
      in if isreal op1
         then (case op2 of
                 REC_SEX_VAL_INT _ \<Rightarrow> True
               | REC_SEX_VAL_REAL _ \<Rightarrow> True
               | REC_SEX_VAL_STR s \<Rightarrow> rec_atod ext s \<noteq> None)
         else ret)"

section \<open>Operators\<close>

text \<open>An \<open>int\<close> result: overflow is undefined.\<close>

definition int_val :: "int \<Rightarrow> rec_sex_val outcome" where
  "int_val n = (if INT_MIN \<le> n \<and> n \<le> INT_MAX then Ok (REC_SEX_VAL_INT n) else Undef)"

definition bool_val :: "bool \<Rightarrow> rec_sex_val outcome" where
  "bool_val b = Ok (REC_SEX_VAL_INT (if b then 1 else 0))"

text \<open>An arithmetic or comparison operator: on reals when one operand asks for it, else on integers.\<close>

definition num_op ::
  "rec_ext \<Rightarrow> (real \<Rightarrow> real \<Rightarrow> rec_sex_val outcome) \<Rightarrow> (int \<Rightarrow> int \<Rightarrow> rec_sex_val outcome)
   \<Rightarrow> rec_sex_val \<Rightarrow> rec_sex_val \<Rightarrow> rec_sex_val outcome" where
  "num_op ext fr fi v1 v2 =
     (if rec_sex_op_real_p ext v1 v2 then both (ATOD_VAL ext v1) (ATOD_VAL ext v2) fr
      else both (ATOI_VAL v1) (ATOI_VAL v2) fi)"

definition int_op :: "(int \<Rightarrow> int \<Rightarrow> rec_sex_val outcome) \<Rightarrow> rec_sex_val \<Rightarrow> rec_sex_val \<Rightarrow> rec_sex_val outcome" where
  "int_op f v1 v2 = both (ATOI_VAL v1) (ATOI_VAL v2) f"

definition time_op ::
  "rec_ext \<Rightarrow> (int \<times> int \<Rightarrow> int \<times> int \<Rightarrow> bool) \<Rightarrow> rec_sex_val \<Rightarrow> rec_sex_val \<Rightarrow> rec_sex_val outcome" where
  "time_op ext f v1 v2 = both (ATOTS_VAL ext v1) (ATOTS_VAL ext v2) (\<lambda>x y. bool_val (f x y))"

definition strcasecmp_eq :: "string \<Rightarrow> string \<Rightarrow> bool" where
  "strcasecmp_eq s t = (map tolower s = map tolower t)"

definition str_eq :: "bool \<Rightarrow> string \<Rightarrow> string \<Rightarrow> bool" where
  "str_eq ci s t = (if ci then strcasecmp_eq s t else s = t)"

fun binary_op ::
  "sex_env \<Rightarrow> bool \<Rightarrow> rec_sex_op \<Rightarrow> rec_sex_val \<Rightarrow> rec_sex_val \<Rightarrow> rec_sex_val outcome" where
  "binary_op env ci REC_SEX_OP_ADD v1 v2 =
     num_op (rec_ext.truncate env) (\<lambda>x y. Ok (REC_SEX_VAL_REAL (ext_fadd env x y))) (\<lambda>x y. int_val (x + y)) v1 v2"
| "binary_op env ci REC_SEX_OP_SUB v1 v2 =
     num_op (rec_ext.truncate env) (\<lambda>x y. Undef) (\<lambda>x y. int_val (x - y)) v1 v2"
| "binary_op env ci REC_SEX_OP_MUL v1 v2 =
     num_op (rec_ext.truncate env) (\<lambda>x y. Ok (REC_SEX_VAL_REAL (ext_fmul env x y))) (\<lambda>x y. int_val (x * y)) v1 v2"
| "binary_op env ci REC_SEX_OP_DIV v1 v2 =
     num_op (rec_ext.truncate env) (\<lambda>x y. Ok (REC_SEX_VAL_REAL (ext_fdiv env x y)))
       (\<lambda>x y. if y \<noteq> 0 then int_val (x sdiv y) else Fail) v1 v2"
| "binary_op env ci REC_SEX_OP_MOD v1 v2 =
     int_op (\<lambda>x y. if y = 0 then Fail else if x = INT_MIN \<and> y = -1 then Undef else int_val (x smod y)) v1 v2"
| "binary_op env ci REC_SEX_OP_EQL v1 v2 =
     (case (v1, v2) of
        (REC_SEX_VAL_STR s, REC_SEX_VAL_STR t) \<Rightarrow> bool_val (str_eq ci s t)
      | _ \<Rightarrow> num_op (rec_ext.truncate env) (\<lambda>x y. bool_val (x = y)) (\<lambda>x y. bool_val (x = y)) v1 v2)"
| "binary_op env ci REC_SEX_OP_NEQ v1 v2 =
     (case (v1, v2) of
        (REC_SEX_VAL_STR s, REC_SEX_VAL_STR t) \<Rightarrow> bool_val (\<not> str_eq ci s t)
      | _ \<Rightarrow> num_op (rec_ext.truncate env) (\<lambda>x y. bool_val (x \<noteq> y)) (\<lambda>x y. bool_val (x \<noteq> y)) v1 v2)"
| "binary_op env ci REC_SEX_OP_MAT v1 v2 =
     (case (v1, v2) of
        (REC_SEX_VAL_STR s, REC_SEX_VAL_STR t) \<Rightarrow> bool_val (ext_match env ci s t)
      | _ \<Rightarrow> Fail)"
| "binary_op env ci REC_SEX_OP_BEFORE v1 v2 =
     time_op (rec_ext.truncate env) (\<lambda>x y. fst (rec_timespec_subtract x y)) v1 v2"
| "binary_op env ci REC_SEX_OP_AFTER v1 v2 =
     time_op (rec_ext.truncate env)
       (\<lambda>x y. case rec_timespec_subtract x y of (neg, sec, nsec) \<Rightarrow> \<not> neg \<and> (sec \<noteq> 0 \<or> nsec \<noteq> 0)) v1 v2"
| "binary_op env ci REC_SEX_OP_SAMETIME v1 v2 =
     time_op (rec_ext.truncate env)
       (\<lambda>x y. case rec_timespec_subtract x y of (neg, sec, nsec) \<Rightarrow> sec = 0 \<and> nsec = 0) v1 v2"
| "binary_op env ci REC_SEX_OP_IMPLIES v1 v2 = int_op (\<lambda>x y. bool_val (x = 0 \<or> x \<noteq> 0 \<and> y \<noteq> 0)) v1 v2"
| "binary_op env ci REC_SEX_OP_LT v1 v2 =
     num_op (rec_ext.truncate env) (\<lambda>x y. bool_val (x < y)) (\<lambda>x y. bool_val (x < y)) v1 v2"
| "binary_op env ci REC_SEX_OP_LTE v1 v2 =
     num_op (rec_ext.truncate env) (\<lambda>x y. bool_val (x \<le> y)) (\<lambda>x y. bool_val (x \<le> y)) v1 v2"
| "binary_op env ci REC_SEX_OP_GT v1 v2 =
     num_op (rec_ext.truncate env) (\<lambda>x y. bool_val (x > y)) (\<lambda>x y. bool_val (x > y)) v1 v2"
| "binary_op env ci REC_SEX_OP_GTE v1 v2 =
     num_op (rec_ext.truncate env) (\<lambda>x y. bool_val (x \<ge> y)) (\<lambda>x y. bool_val (x \<ge> y)) v1 v2"
| "binary_op env ci REC_SEX_OP_AND v1 v2 = int_op (\<lambda>x y. bool_val (x \<noteq> 0 \<and> y \<noteq> 0)) v1 v2"
| "binary_op env ci REC_SEX_OP_OR v1 v2 = int_op (\<lambda>x y. bool_val (x \<noteq> 0 \<or> y \<noteq> 0)) v1 v2"
| "binary_op env ci REC_SEX_OP_CONCAT v1 v2 =
     (case (v1, v2) of
        (REC_SEX_VAL_STR s, REC_SEX_VAL_STR t) \<Rightarrow> Ok (REC_SEX_VAL_STR (s @ t))
      | _ \<Rightarrow> Fail)"
| "binary_op env ci op v1 v2 = Undef"

text \<open>The operators on the values of their children; another number of children does not occur.\<close>

definition apply_op :: "sex_env \<Rightarrow> bool \<Rightarrow> rec_sex_op \<Rightarrow> rec_sex_val list \<Rightarrow> rec_sex_val outcome" where
  "apply_op env ci op vs =
     (case vs of
        [v1] \<Rightarrow>
          if op = REC_SEX_OP_NOT
          then (case ATOI_VAL v1 of Ok n \<Rightarrow> bool_val (n = 0) | Fail \<Rightarrow> Fail | Undef \<Rightarrow> Undef)
          else Undef
      | [v1, v2] \<Rightarrow> binary_op env ci op v1 v2
      | [v1, v2, v3] \<Rightarrow>
          if op = REC_SEX_OP_COND
          then (case ATOI_VAL v1 of Ok n \<Rightarrow> Ok (if n \<noteq> 0 then v2 else v3) | Fail \<Rightarrow> Fail | Undef \<Rightarrow> Undef)
          else Undef
      | _ \<Rightarrow> Undef)"

section \<open>Nodes\<close>

definition effective_name :: "string \<Rightarrow> string option \<Rightarrow> string" where
  "effective_name n sub = (case sub of None \<Rightarrow> n | Some m \<Rightarrow> rec_concat_strings n ''_'' m)"

definition eval_name ::
  "rec_record \<Rightarrow> string \<Rightarrow> string option \<Rightarrow> int \<Rightarrow> string option \<Rightarrow> rec_sex_val outcome \<times> rec_sex_ast_node" where
  "eval_name r n sub i fx =
     (case fx of
        Some v \<Rightarrow> (Ok (REC_SEX_VAL_STR v), REC_SEX_NAME n sub i fx)
      | None \<Rightarrow>
          let v = (case rec_record_get_field_by_name r (effective_name n sub) (if i = -1 then 0 else size_of_int i) of
                     Some (_, f) \<Rightarrow> field_value f | None \<Rightarrow> [])
          in (Ok (REC_SEX_VAL_STR v),
              if i \<noteq> -1 then rec_sex_ast_node_fix (REC_SEX_NAME n sub i fx) v else REC_SEX_NAME n sub i fx))"

definition eval_hash :: "rec_record \<Rightarrow> rec_sex_ast_node list \<Rightarrow> rec_sex_val outcome" where
  "eval_hash r cs =
     (case cs of
        REC_SEX_NAME n sub i fx # _ \<Rightarrow>
          Ok (REC_SEX_VAL_INT (int (rec_record_get_num_fields_by_name r (effective_name n sub))))
      | [] \<Rightarrow> Undef
      | _ \<Rightarrow> Fail)"

definition literal :: "('a \<Rightarrow> rec_sex_val) \<Rightarrow> 'a option \<Rightarrow> rec_sex_val outcome" where
  "literal c v = (case v of None \<Rightarrow> Undef | Some x \<Rightarrow> Ok (c x))"

fun rec_sex_eval_node ::
    "sex_env \<Rightarrow> bool \<Rightarrow> rec_record \<Rightarrow> rec_sex_ast_node \<Rightarrow> rec_sex_val outcome \<times> rec_sex_ast_node"
  and eval_children ::
    "sex_env \<Rightarrow> bool \<Rightarrow> rec_record \<Rightarrow> rec_sex_ast_node list \<Rightarrow> rec_sex_val list outcome \<times> rec_sex_ast_node list" where
  "rec_sex_eval_node env ci r (REC_SEX_INT v) = (literal REC_SEX_VAL_INT v, REC_SEX_INT v)"
| "rec_sex_eval_node env ci r (REC_SEX_REAL v) = (literal REC_SEX_VAL_REAL v, REC_SEX_REAL v)"
| "rec_sex_eval_node env ci r (REC_SEX_STR s) = (Ok (REC_SEX_VAL_STR s), REC_SEX_STR s)"
| "rec_sex_eval_node env ci r (REC_SEX_NAME n sub i fx) = eval_name r n sub i fx"
| "rec_sex_eval_node env ci r (REC_SEX_OP op cs) =
     (if op = REC_SEX_OP_SHA then (eval_hash r cs, REC_SEX_OP op cs)
      else case eval_children env ci r cs of
             (Ok vs, cs') \<Rightarrow> (apply_op env ci op vs, REC_SEX_OP op cs')
           | (Fail, cs') \<Rightarrow> (Fail, REC_SEX_OP op cs')
           | (Undef, cs') \<Rightarrow> (Undef, REC_SEX_OP op cs'))"
| "eval_children env ci r [] = (Ok [], [])"
| "eval_children env ci r (c # cs) =
     (case rec_sex_eval_node env ci r c of
        (Ok v, c') \<Rightarrow>
          (case eval_children env ci r cs of
             (Ok vs, cs') \<Rightarrow> (Ok (v # vs), c' # cs')
           | (Fail, cs') \<Rightarrow> (Fail, c' # cs')
           | (Undef, cs') \<Rightarrow> (Undef, c' # cs'))
      | (Fail, c') \<Rightarrow> (Fail, c' # cs)
      | (Undef, c') \<Rightarrow> (Undef, c' # cs))"

section \<open>Expressions on a record\<close>

text \<open>
  \<open>rec_sex_eval_str\<close>: the value as text, NULL after an error. The tree must have been compiled.
\<close>

definition rec_sex_eval_str :: "sex_env \<Rightarrow> rec_sex \<Rightarrow> rec_record \<Rightarrow> string outcome \<times> rec_sex" where
  "rec_sex_eval_str env sex r =
     (case sex_ast sex of
        None \<Rightarrow> (Undef, sex)
      | Some ast \<Rightarrow>
          (case rec_sex_eval_node env (sex_case_insensitive sex) r (rec_sex_ast_node_unfix ast) of
             (v, ast') \<Rightarrow>
               (case v of
                  Ok (REC_SEX_VAL_INT n) \<Rightarrow> Ok (show_int n)
                | Ok (REC_SEX_VAL_REAL x) \<Rightarrow> Ok (ext_show_real env x)
                | Ok (REC_SEX_VAL_STR s) \<Rightarrow> Ok (strdup s)
                | Fail \<Rightarrow> Fail
                | Undef \<Rightarrow> Undef,
                sex\<lparr>sex_ast := Some ast'\<rparr>)))"

text \<open>\<open>EXEC_AST\<close>: the truth value and the status; \<open>None\<close> when undefined.\<close>

definition EXEC_AST ::
  "sex_env \<Rightarrow> bool \<Rightarrow> rec_record \<Rightarrow> rec_sex_ast_node \<Rightarrow> (bool \<times> bool) option \<times> rec_sex_ast_node" where
  "EXEC_AST env ci r ast =
     (case rec_sex_eval_node env ci r ast of
        (v, ast') \<Rightarrow>
          (case v of
             Ok (REC_SEX_VAL_INT n) \<Rightarrow> Some (n \<noteq> 0, True)
           | Ok _ \<Rightarrow> Some (False, True)
           | Fail \<Rightarrow> Some (False, False)
           | Undef \<Rightarrow> None,
           ast'))"

text \<open>The record with the fields of a name replaced by a copy of one of them.\<close>

definition single_field :: "rec_record \<Rightarrow> string \<Rightarrow> rec_field \<Rightarrow> rec_record option" where
  "single_field r n f =
     (case rec_record_dup r of
        None \<Rightarrow> None
      | Some w \<Rightarrow>
          let w1 = rec_record_remove_field_by_name w n (-1)
          in Some (w1\<lparr>record_mset := snd (rec_mset_append (record_mset w1) MSET_FIELD (DField (rec_field_dup f)) MSET_ANY)\<rparr>))"

text \<open>
  The state of the loops of \<open>rec_sex_eval\<close>: the last result and status, the tree and the record
  with its marks. \<open>None\<close>: undefined.
\<close>

type_synonym sex_loop = "((bool \<times> bool) \<times> rec_sex_ast_node \<times> rec_record) option"

fun eval_values ::
  "sex_env \<Rightarrow> bool \<Rightarrow> string \<Rightarrow> nat list \<Rightarrow> bool \<times> bool \<Rightarrow> rec_sex_ast_node \<Rightarrow> rec_record \<Rightarrow> sex_loop" where
  "eval_values env ci n [] res ast r = Some (res, ast, r)"
| "eval_values env ci n (j # js) res ast r =
     (case rec_record_get_field_by_name r n j of
        None \<Rightarrow> None
      | Some (pos, f) \<Rightarrow>
          let r1 = snd (rec_record_mark_field r pos 1); f1 = rec_field_set_mark f 1 in
          (case single_field r1 n f1 of
             None \<Rightarrow> None
           | Some w \<Rightarrow>
               (case EXEC_AST env ci w ast of
                  (None, ast1) \<Rightarrow> None
                | (Some res1, ast1) \<Rightarrow>
                    if fst res1 then Some (res1, ast1, r1) else eval_values env ci n js res1 ast1 r1)))"

fun eval_fields ::
  "sex_env \<Rightarrow> bool \<Rightarrow> nat list \<Rightarrow> bool \<times> bool \<Rightarrow> rec_sex_ast_node \<Rightarrow> rec_record \<Rightarrow> sex_loop" where
  "eval_fields env ci [] res ast r = Some (res, ast, r)"
| "eval_fields env ci (pos # ps) res ast r =
     (case as_field (elem_data (mset_elems (record_mset r) ! pos)) of
        None \<Rightarrow> eval_fields env ci ps res ast r
      | Some f \<Rightarrow>
          let nf = rec_record_get_num_fields_by_name r (field_name f) in
          if nf > 1 \<and> field_mark f = 0 \<and> rec_sex_ast_name_p ast (field_name f) nf
             \<and> \<not> rec_sex_ast_hash_name_p ast (field_name f)
          then (case eval_values env ci (field_name f) [0..<nf] res ast r of
                  None \<Rightarrow> None
                | Some (res1, ast1, r1) \<Rightarrow>
                    if fst res1 then Some (res1, ast1, r1) else eval_fields env ci ps res1 ast1 r1)
          else eval_fields env ci ps res ast r)"

text \<open>The result, the status, the expression and the record; \<open>None\<close>: undefined.\<close>

definition rec_sex_eval ::
  "sex_env \<Rightarrow> rec_sex \<Rightarrow> rec_record \<Rightarrow> (bool \<times> bool \<times> rec_sex \<times> rec_record) option" where
  "rec_sex_eval env sex r =
     (case sex_ast sex of
        None \<Rightarrow> None
      | Some ast \<Rightarrow>
          let ci = sex_case_insensitive sex in
          (case EXEC_AST env ci r (rec_sex_ast_node_unfix ast) of
             (None, ast1) \<Rightarrow> None
           | (Some res, ast1) \<Rightarrow>
               (case (if fst res then Some (res, ast1, r)
                      else let r1 = rec_record_reset_marks r in
                           eval_fields env ci (map fst (rec_record_fields r1)) res ast1 r1) of
                  None \<Rightarrow> None
                | Some ((res, status), ast2, r2) \<Rightarrow>
                    Some (res \<and> status, status, sex\<lparr>sex_ast := Some ast2\<rparr>, r2))))"

end
