(* ===== verification/Rec_Aggregate.thy ===== *)
theory Rec_Aggregate
  imports Rec_Rset Rec_Sex_Eval
begin

text \<open>
  Aggregate functions (\<open>src/rec-aggregate.c\<close>). A registered function is the name of a C function.
  Doubles are the finite values, as reals; the rounding additions and divisions and the \<open>"%f"\<close>
  conversion come with the environment. \<open>None\<close> as the text of a result stands for the
  conversion of a value outside \<open>size_t\<close>, which C leaves undefined.
\<close>

section \<open>The registry\<close>

definition MAX_FUNCTIONS :: nat where "MAX_FUNCTIONS = 40"

record rec_aggregate_reg_elem =
  agg_name :: string
  agg_function :: string

type_synonym rec_aggregate_reg = "rec_aggregate_reg_elem list"

definition rec_aggregate_reg_new :: rec_aggregate_reg where
  "rec_aggregate_reg_new = []"

definition rec_aggregate_reg_add :: "rec_aggregate_reg \<Rightarrow> string \<Rightarrow> string \<Rightarrow> bool \<times> rec_aggregate_reg" where
  "rec_aggregate_reg_add reg name fn =
     (case find_index (\<lambda>e. name = agg_name e) 0 reg of
        Some i \<Rightarrow> (True, reg[i := (reg ! i)\<lparr>agg_function := fn\<rparr>])
      | None \<Rightarrow>
          if length reg = MAX_FUNCTIONS then (False, reg)
          else (True, reg @ [\<lparr>agg_name = strdup name, agg_function = fn\<rparr>]))"

definition rec_aggregate_reg_get :: "rec_aggregate_reg \<Rightarrow> string \<Rightarrow> string option" where
  "rec_aggregate_reg_get reg name = map_option agg_function (find (\<lambda>e. strcasecmp_eq (agg_name e) name) reg)"

definition std_aggregates :: "(string \<times> string) list" where
  "std_aggregates =
     [(''count'', ''rec_aggregate_std_count''), (''avg'', ''rec_aggregate_std_avg''),
      (''sum'', ''rec_aggregate_std_sum''), (''min'', ''rec_aggregate_std_min''), (''max'', ''rec_aggregate_std_max'')]"

definition rec_aggregate_reg_add_standard :: "rec_aggregate_reg \<Rightarrow> rec_aggregate_reg" where
  "rec_aggregate_reg_add_standard reg =
     fold (\<lambda>(name, fn) reg. snd (rec_aggregate_reg_add reg name fn)) std_aggregates reg"

definition rec_aggregate_std_p :: "string \<Rightarrow> bool" where
  "rec_aggregate_std_p name = list_ex (\<lambda>(n, fn). strcasecmp_eq name n) std_aggregates"

section \<open>The standard aggregates\<close>

text \<open>An aggregate is computed over one record, or over a record set when the record is NULL.\<close>

definition rec_aggregate_std_count :: "rec_rset \<Rightarrow> rec_record option \<Rightarrow> string \<Rightarrow> string option" where
  "rec_aggregate_std_count rset record name =
     Some (show_size
       (case record of
          Some r \<Rightarrow> of_nat (rec_record_get_num_fields_by_name r name)
        | None \<Rightarrow>
            fold (\<lambda>r count. count + of_nat (rec_record_get_num_fields_by_name r name)) (map snd (rec_rset_records rset)) 0))"

text \<open>The values an aggregate accumulates: the fields of the name whose value is a number.\<close>

definition agg_values :: "rec_ext \<Rightarrow> rec_record \<Rightarrow> string \<Rightarrow> real list" where
  "agg_values ext r name =
     List.map_filter (\<lambda>(i, f). if rec_field_name_equal_p (field_name f) name then rec_atod ext (field_value f) else None)
       (rec_record_fields r)"

text \<open>An integral value is converted to \<open>size_t\<close>, another one printed with six decimals.\<close>

definition show_double :: "sex_env \<Rightarrow> (size_t \<Rightarrow> string) \<Rightarrow> real \<Rightarrow> string option" where
  "show_double env show_word x =
     (if x = of_int \<lfloor>x\<rfloor>
      then (if -1 < x \<and> x < 2 ^ 64 then Some (show_word (of_int \<lfloor>x\<rfloor>)) else None)
      else Some (ext_show_real env x))"

definition rec_aggregate_std_avg_record :: "sex_env \<Rightarrow> rec_record \<Rightarrow> string \<Rightarrow> real" where
  "rec_aggregate_std_avg_record env r name =
     (let vs = agg_values (rec_ext.truncate env) r name; avg = fold (\<lambda>v avg. ext_fadd env avg v) vs 0
      in if length vs \<noteq> 0 then ext_fdiv env avg (of_nat (length vs)) else avg)"

definition rec_aggregate_std_avg :: "sex_env \<Rightarrow> rec_rset \<Rightarrow> rec_record option \<Rightarrow> string \<Rightarrow> string option" where
  "rec_aggregate_std_avg env rset record name =
     show_double env show_size
       (case record of
          Some r \<Rightarrow> rec_aggregate_std_avg_record env r name
        | None \<Rightarrow>
            let rs = map snd (rec_rset_records rset);
                avg = fold (\<lambda>r avg. ext_fadd env avg (rec_aggregate_std_avg_record env r name)) rs 0
            in if length rs \<noteq> 0 then ext_fdiv env avg (of_nat (length rs)) else avg)"

text \<open>The body of \<open>REC_AGGREGATE_ACCUM_FUNC\<close>, printed with \<open>"%zd"\<close>.\<close>

definition accum_record :: "sex_env \<Rightarrow> (real \<Rightarrow> real \<Rightarrow> real) \<Rightarrow> real \<Rightarrow> rec_record \<Rightarrow> string \<Rightarrow> real" where
  "accum_record env f init r name = fold (\<lambda>v val. f val v) (agg_values (rec_ext.truncate env) r name) init"

definition show_ssize :: "size_t \<Rightarrow> string" where
  "show_ssize w = show_int (sint w)"

definition accum ::
  "sex_env \<Rightarrow> (real \<Rightarrow> real \<Rightarrow> real) \<Rightarrow> real \<Rightarrow> rec_rset \<Rightarrow> rec_record option \<Rightarrow> string \<Rightarrow> string option" where
  "accum env f init rset record name =
     show_double env show_ssize
       (case record of
          Some r \<Rightarrow> accum_record env f init r name
        | None \<Rightarrow> fold (\<lambda>r val. f val (accum_record env f init r name)) (map snd (rec_rset_records rset)) init)"

definition op_sum :: "sex_env \<Rightarrow> real \<Rightarrow> real \<Rightarrow> real" where
  "op_sum env op1 op2 = ext_fadd env op1 op2"

definition DBL_MAX :: real where "DBL_MAX = (2 - 1 / 2 ^ 52) * 2 ^ 1023"
definition DBL_MIN :: real where "DBL_MIN = 1 / 2 ^ 1022"

definition rec_aggregate_std_sum :: "sex_env \<Rightarrow> rec_rset \<Rightarrow> rec_record option \<Rightarrow> string \<Rightarrow> string option" where
  "rec_aggregate_std_sum env = accum env (op_sum env) 0"

definition rec_aggregate_std_min :: "sex_env \<Rightarrow> rec_rset \<Rightarrow> rec_record option \<Rightarrow> string \<Rightarrow> string option" where
  "rec_aggregate_std_min env = accum env min DBL_MAX"

definition rec_aggregate_std_max :: "sex_env \<Rightarrow> rec_rset \<Rightarrow> rec_record option \<Rightarrow> string \<Rightarrow> string option" where
  "rec_aggregate_std_max env = accum env max DBL_MIN"

text \<open>Calling a function of the registry; only the standard ones are registered by the library.\<close>

definition call_aggregate :: "sex_env \<Rightarrow> string \<Rightarrow> rec_rset \<Rightarrow> rec_record option \<Rightarrow> string \<Rightarrow> string option" where
  "call_aggregate env fn rset record name =
     (if fn = ''rec_aggregate_std_count'' then rec_aggregate_std_count rset record name
      else if fn = ''rec_aggregate_std_avg'' then rec_aggregate_std_avg env rset record name
      else if fn = ''rec_aggregate_std_sum'' then rec_aggregate_std_sum env rset record name
      else if fn = ''rec_aggregate_std_min'' then rec_aggregate_std_min env rset record name
      else if fn = ''rec_aggregate_std_max'' then rec_aggregate_std_max env rset record name
      else None)"

end
