(* ===== verification/Rec_Db.thy ===== *)
theory Rec_Db
  imports Rec_Aggregate
begin

text \<open>
  Databases (\<open>src/rec-db.c\<close>), the container: a list of record sets, its size, and the registry
  of aggregates. A record set of the database is referred to by its position.
\<close>

record rec_db =
  db_size :: nat
  db_rset_list :: "rec_rset list"
  db_aggregates :: rec_aggregate_reg

definition rec_db_new :: rec_db where
  "rec_db_new = \<lparr>db_size = 0, db_rset_list = [], db_aggregates = rec_aggregate_reg_add_standard rec_aggregate_reg_new\<rparr>"

definition rec_db_size :: "rec_db \<Rightarrow> nat" where
  "rec_db_size db = db_size db"

definition rec_db_get_rset :: "rec_db \<Rightarrow> nat \<Rightarrow> rec_rset option" where
  "rec_db_get_rset db position =
     (if db_size db > 0
      then Some (db_rset_list db ! (if position \<ge> db_size db then db_size db - 1 else position))
      else None)"

definition rec_db_insert_rset :: "rec_db \<Rightarrow> rec_rset \<Rightarrow> nat \<Rightarrow> rec_db" where
  "rec_db_insert_rset db rset position =
     db\<lparr>db_rset_list :=
          (if position = 0 then rset # db_rset_list db
           else if position \<ge> db_size db then db_rset_list db @ [rset]
           else take position (db_rset_list db) @ rset # drop position (db_rset_list db)),
        db_size := Suc (db_size db)\<rparr>"

definition rec_db_remove_rset :: "rec_db \<Rightarrow> nat \<Rightarrow> bool \<times> rec_db" where
  "rec_db_remove_rset db position =
     (if db_size db > 0
      then let p = (if position \<ge> db_size db then db_size db - 1 else position)
           in (True, db\<lparr>db_rset_list := take p (db_rset_list db) @ drop (Suc p) (db_rset_list db), db_size := db_size db - 1\<rparr>)
      else (False, db))"

text \<open>The position of the first record set of a type; \<open>None\<close> as type asks for the default record set.\<close>

definition rec_db_get_rset_by_type :: "rec_db \<Rightarrow> string option \<Rightarrow> nat option" where
  "rec_db_get_rset_by_type db type = find_index (\<lambda>rset. rec_rset_type rset = type) 0 (db_rset_list db)"

definition rec_db_type_p :: "rec_db \<Rightarrow> string option \<Rightarrow> bool" where
  "rec_db_type_p db type = (rec_db_get_rset_by_type db type \<noteq> None)"

section \<open>Invariant\<close>

definition rec_db_wf :: "rec_db \<Rightarrow> bool" where
  "rec_db_wf db \<longleftrightarrow> db_size db = length (db_rset_list db)"

lemma rec_db_new_wf [simp]: "rec_db_wf rec_db_new"
  by (simp add: rec_db_wf_def rec_db_new_def)

lemma rec_db_insert_rset_wf [simp]: "rec_db_wf db \<Longrightarrow> rec_db_wf (rec_db_insert_rset db rset n)"
  by (auto simp: rec_db_wf_def rec_db_insert_rset_def)

lemma rec_db_remove_rset_wf [simp]: "rec_db_wf db \<Longrightarrow> rec_db_wf (snd (rec_db_remove_rset db n))"
  by (auto simp: rec_db_wf_def rec_db_remove_rset_def Let_def)

lemma insert_rset_last: "rec_db_wf db \<Longrightarrow> db_rset_list (rec_db_insert_rset db rset (rec_db_size db)) = db_rset_list db @ [rset]"
  by (auto simp: rec_db_wf_def rec_db_insert_rset_def rec_db_size_def)

end
