(* ===== verification/Rec_Typed_Mset.thy ===== *)
theory Rec_Typed_Mset
  imports Rec_Record
begin

text \<open>
  Multi-sets with a fixed table of types. Records and record sets register their types once,
  on a fresh multi-set, and from then on only elements whose datum fits their type are
  stored. The locale \<open>typed_mset\<close> is the contract both share: the operations keep the table, the
  exact counts and the fitting elements.
\<close>

definition typed_ok :: "'d rec_mset \<Rightarrow> ('d mset_elem \<Rightarrow> bool) \<Rightarrow> 'd rec_mset \<Rightarrow> bool" where
  "typed_ok table elem_ok m \<longleftrightarrow>
     m = table\<lparr>mset_elems := mset_elems m, mset_count := map (count_type (mset_elems m)) [0..<MAX_NTYPES]\<rparr>
     \<and> list_all elem_ok (mset_elems m)"

text \<open>The elements left when the marked elements of the first type are removed.\<close>

fun keep_unmarked :: "bool list \<Rightarrow> nat \<Rightarrow> 'd mset_elem list \<Rightarrow> 'd mset_elem list" where
  "keep_unmarked dm k [] = []"
| "keep_unmarked dm k (e # es) =
     (if elem_type e = MSET_FIELD
      then if dm ! k then keep_unmarked dm (Suc k) es else e # keep_unmarked dm (Suc k) es
      else e # keep_unmarked dm k es)"

lemma elems_remove: "i < length (mset_elems m) \<Longrightarrow>
  mset_elems (snd (rec_mset_remove_elem m i)) = take i (mset_elems m) @ drop (Suc i) (mset_elems m)"
  by (simp add: rec_mset_remove_elem_def)

locale typed_mset =
  fixes table :: "'d rec_mset" and elem_ok :: "'d mset_elem \<Rightarrow> bool"
  assumes table_wf: "mset_wf table"
    and elem_ok_type: "elem_ok e \<Longrightarrow> elem_type e < mset_ntypes table"
begin

lemma ok_wf:
  assumes "typed_ok table elem_ok m"
  shows "mset_wf m" and "mset_ntypes m = mset_ntypes table" and "mset_dup_fn m = mset_dup_fn table"
proof -
  have m: "m = table\<lparr>mset_elems := mset_elems m, mset_count := map (count_type (mset_elems m)) [0..<MAX_NTYPES]\<rparr>"
    and ok: "list_all elem_ok (mset_elems m)"
    using assms by (simp_all add: typed_ok_def)
  have "list_all (\<lambda>e. elem_type e < mset_ntypes table) (mset_elems m)"
    using ok elem_ok_type by (auto simp: list_all_iff)
  then show "mset_wf m" using table_wf by (subst m) (simp add: mset_wf_def)
  show "mset_ntypes m = mset_ntypes table" "mset_dup_fn m = mset_dup_fn table"
    by (subst m, simp)+
qed

lemma ok_update:
  assumes "typed_ok table elem_ok m" and "list_all elem_ok es" and "cs = map (count_type es) [0..<MAX_NTYPES]"
  shows "typed_ok table elem_ok (m\<lparr>mset_elems := es, mset_count := cs\<rparr>)"
proof -
  have "m = table\<lparr>mset_elems := mset_elems m, mset_count := map (count_type (mset_elems m)) [0..<MAX_NTYPES]\<rparr>"
    using assms(1) by (simp add: typed_ok_def)
  then have "m\<lparr>mset_elems := es, mset_count := cs\<rparr> = table\<lparr>mset_elems := es, mset_count := cs\<rparr>"
    by (metis rec_mset.update_convs(7,8) rec_mset.surjective)
  with assms(2,3) show ?thesis by (simp add: typed_ok_def)
qed

lemma ok_update_wf:
  assumes "typed_ok table elem_ok m" and "mset_wf (m\<lparr>mset_elems := es, mset_count := cs\<rparr>)" and "list_all elem_ok es"
  shows "typed_ok table elem_ok (m\<lparr>mset_elems := es, mset_count := cs\<rparr>)"
  using assms by (intro ok_update) (auto simp: mset_wf_def)

lemma insert_ok:
  assumes "typed_ok table elem_ok m" and "elem_ok \<lparr>elem_type = t, elem_data = d\<rparr>"
  shows "typed_ok table elem_ok (snd (rec_mset_insert_at m t d p))"
    and "fst (rec_mset_insert_at m t d p) \<noteq> None"
    and "mset_elems (snd (rec_mset_insert_at m t d p)) =
      take p (mset_elems m) @ \<lparr>elem_type = t, elem_data = d\<rparr> # drop p (mset_elems m)"
proof -
  have wf: "mset_wf m" and t: "t < mset_ntypes m" using ok_wf [OF assms(1)] elem_ok_type [OF assms(2)] by auto
  note eq = rec_mset_insert_at_eq [OF wf t, of d p]
  have "list_all elem_ok (take p (mset_elems m) @ \<lparr>elem_type = t, elem_data = d\<rparr> # drop p (mset_elems m))"
    using assms by (auto simp: typed_ok_def list_all_iff dest: in_set_takeD in_set_dropD)
  with rec_mset_insert_at_wf [OF wf t, of d p] assms(1)
  show "typed_ok table elem_ok (snd (rec_mset_insert_at m t d p))" by (simp add: eq ok_update_wf)
  show "fst (rec_mset_insert_at m t d p) \<noteq> None"
    and "mset_elems (snd (rec_mset_insert_at m t d p)) =
      take p (mset_elems m) @ \<lparr>elem_type = t, elem_data = d\<rparr> # drop p (mset_elems m)"
    by (simp_all add: eq)
qed

lemma append_ok:
  assumes "typed_ok table elem_ok m" and "elem_ok \<lparr>elem_type = t, elem_data = d\<rparr>"
  shows "typed_ok table elem_ok (snd (rec_mset_append m t d u))"
    and "mset_elems (snd (rec_mset_append m t d MSET_ANY)) = mset_elems m @ [\<lparr>elem_type = t, elem_data = d\<rparr>]"
  using insert_ok [OF assms] mset_wf_count [OF ok_wf(1) [OF assms(1)], of 0]
  by (simp_all add: rec_mset_append_def rec_mset_count_def MAX_NTYPES_def)

lemma remove_ok:
  assumes "typed_ok table elem_ok m"
  shows "typed_ok table elem_ok (snd (rec_mset_remove_elem m i))"
proof (cases "i < length (mset_elems m)")
  case False
  with assms show ?thesis by (simp add: rec_mset_remove_elem_def)
next
  case True
  have "list_all elem_ok (take i (mset_elems m) @ drop (Suc i) (mset_elems m))"
    using assms by (auto simp: typed_ok_def list_all_iff dest: in_set_takeD in_set_dropD)
  with rec_mset_remove_elem_wf [OF ok_wf(1) [OF assms], of i] True assms show ?thesis
    by (simp add: rec_mset_remove_elem_def ok_update_wf)
qed

text \<open>Replacing elements by elements of the same type.\<close>

lemma retype_ok:
  assumes "typed_ok table elem_ok m" and "map elem_type es = map elem_type (mset_elems m)" and "list_all elem_ok es"
  shows "typed_ok table elem_ok (m\<lparr>mset_elems := es\<rparr>)"
proof -
  have c: "count_type xs t = length (filter (\<lambda>u. t = 0 \<or> u = t) (map elem_type xs))" for xs :: "'d mset_elem list" and t
    by (simp add: count_type_def filter_map comp_def)
  have "mset_count m = map (count_type (mset_elems m)) [0..<MAX_NTYPES]"
    using ok_wf(1) [OF assms(1)] by (simp add: mset_wf_def)
  moreover have "count_type (mset_elems m) = count_type es" by (simp add: c assms(2) fun_eq_iff)
  ultimately have "m\<lparr>mset_elems := es\<rparr> = m\<lparr>mset_elems := es, mset_count := map (count_type es) [0..<MAX_NTYPES]\<rparr>" by simp
  then show ?thesis using ok_update [OF assms(1,3)] by metis
qed

lemma set_data_ok:
  assumes "typed_ok table elem_ok m" and "i < length (mset_elems m)"
    and "elem_ok ((mset_elems m ! i)\<lparr>elem_data := d\<rparr>)"
  shows "typed_ok table elem_ok (rec_mset_elem_set_data m i d)"
proof -
  have ok: "list_all elem_ok (mset_elems m)" using assms(1) by (simp add: typed_ok_def)
  show ?thesis unfolding rec_mset_elem_set_data_def
  proof (rule retype_ok [OF assms(1)])
    show "map elem_type ((mset_elems m)[i := (mset_elems m ! i)\<lparr>elem_data := d\<rparr>]) = map elem_type (mset_elems m)"
      using assms(2) by (simp add: map_update) (metis list_update_id nth_map)
    show "list_all elem_ok ((mset_elems m)[i := (mset_elems m ! i)\<lparr>elem_data := d\<rparr>])"
      using ok assms(2,3) by (simp add: list_all_length nth_list_update)
  qed
qed

lemma remove_masked_ok:
  assumes "typed_ok table elem_ok m"
  shows "typed_ok table elem_ok (remove_masked dm k i m)
    \<and> mset_elems (remove_masked dm k i m) = take i (mset_elems m) @ keep_unmarked dm k (drop i (mset_elems m))"
  using assms
proof (induction dm k i m rule: remove_masked.induct)
  case (1 dm k i m)
  show ?case
  proof (cases "i < length (mset_elems m)")
    case False
    with "1.prems" show ?thesis by (simp add: remove_masked.simps [of dm k i m])
  next
    case True
    let ?es = "mset_elems m" and ?m = "snd (rec_mset_remove_elem m i)"
    have d: "drop i ?es = ?es ! i # drop (Suc i) ?es" using True by (simp add: Cons_nth_drop_Suc)
    have tk: "take (Suc i) ?es = take i ?es @ [?es ! i]" using True by (rule take_Suc_conv_app_nth)
    consider (del) "elem_type (?es ! i) = MSET_FIELD" "dm ! k"
      | (keep) "elem_type (?es ! i) = MSET_FIELD" "\<not> dm ! k"
      | (other) "elem_type (?es ! i) \<noteq> MSET_FIELD" by blast
    then show ?thesis
    proof cases
      case del
      with True "1.IH"(1) remove_ok [OF "1.prems", of i] show ?thesis
        by (simp add: remove_masked.simps [of dm k i m] d elems_remove)
    next
      case keep
      with True "1.IH"(2) "1.prems" show ?thesis
        by (simp add: remove_masked.simps [of dm k i m] d tk)
    next
      case other
      with True "1.IH"(3) "1.prems" show ?thesis
        by (simp add: remove_masked.simps [of dm k i m] d tk)
    qed
  qed
qed

end

end
