(* ===== verification/Rec_Record_Laws.thy ===== *)
theory Rec_Record_Laws
  imports Rec_Typed_Mset
begin

text \<open>
  The laws of the record operations: the well-formedness invariant (the multi-set statistics,
  the registered types, the type of each stored datum) and that every operation keeps it;
  lookup, removal and duplicate removal over the list of fields; duplication.
\<close>

section \<open>Well-formed records\<close>

definition record_elem_ok :: "rdata mset_elem \<Rightarrow> bool" where
  "record_elem_ok e =
     (case elem_data e of
        DField f \<Rightarrow> elem_type e = MSET_FIELD \<and> rec_field_wf f
      | DComment c \<Rightarrow> elem_type e = MSET_COMMENT \<and> cstring c)"

abbreviation record_table :: "rdata rec_mset" where
  "record_table \<equiv> record_mset rec_record_new"

definition record_mset_ok :: "rdata rec_mset \<Rightarrow> bool" where
  "record_mset_ok m \<longleftrightarrow>
     m = record_table\<lparr>mset_elems := mset_elems m,
                      mset_count := map (count_type (mset_elems m)) [0..<MAX_NTYPES]\<rparr>
     \<and> list_all record_elem_ok (mset_elems m)"

definition rec_record_wf :: "rec_record \<Rightarrow> bool" where
  "rec_record_wf r \<longleftrightarrow> record_mset_ok (record_mset r)
     \<and> record_field_type r = MSET_FIELD \<and> record_comment_type r = MSET_COMMENT
     \<and> pred_option cstring (record_source r) \<and> pred_option cstring (record_location_str r)
     \<and> pred_option cstring (record_char_location_str r)"

lemma rec_record_new_eq:
  "rec_record_new =
     \<lparr>record_container = None, record_field_type = 1, record_comment_type = 2, record_source = None,
      record_location = 0, record_location_str = None, record_char_location = 0,
      record_char_location_str = None,
      record_mset =
        \<lparr>mset_ntypes = 3, mset_name = [None, Some ''field'', Some ''comment'', None],
         mset_disp_fn = [None, Some ''rec_record_field_disp_fn'', Some ''rec_record_comment_disp_fn'', None],
         mset_equal_fn = [None, Some ''rec_record_field_equal_fn'', Some ''rec_record_comment_equal_fn'', None],
         mset_dup_fn = [None, Some ''rec_record_field_dup_fn'', Some ''rec_record_comment_dup_fn'', None],
         mset_compare_fn = [None, None, None, None], mset_count = [0, 0, 0, 0], mset_elems = []\<rparr>\<rparr>"
  by (simp add: rec_record_new_def register_or_same_def rec_mset_register_type_def rec_mset_new_def
      MAX_NTYPES_def strdup_def numeral_eq_Suc)

lemma record_table_eq:
  "mset_ntypes record_table = 3"
  "mset_name record_table = [None, Some ''field'', Some ''comment'', None]"
  "mset_disp_fn record_table = [None, Some ''rec_record_field_disp_fn'', Some ''rec_record_comment_disp_fn'', None]"
  "mset_equal_fn record_table = [None, Some ''rec_record_field_equal_fn'', Some ''rec_record_comment_equal_fn'', None]"
  "mset_dup_fn record_table = [None, Some ''rec_record_field_dup_fn'', Some ''rec_record_comment_dup_fn'', None]"
  "mset_compare_fn record_table = [None, None, None, None]"
  "mset_count record_table = [0, 0, 0, 0]" "mset_elems record_table = []"
  by (simp_all add: rec_record_new_eq)

lemma record_elem_ok_type: "record_elem_ok e \<Longrightarrow> elem_type e = MSET_FIELD \<or> elem_type e = MSET_COMMENT"
  by (auto simp: record_elem_ok_def split: rdata.splits)

lemma record_elem_okE:
  assumes "record_elem_ok e"
  obtains f where "elem_type e = MSET_FIELD" "elem_data e = DField f" "rec_field_wf f"
    | c where "elem_type e = MSET_COMMENT" "elem_data e = DComment c" "cstring c"
  using assms by (auto simp: record_elem_ok_def split: rdata.splits)

lemma record_mset_ok_typed: "record_mset_ok m \<longleftrightarrow> typed_ok record_table record_elem_ok m"
  by (simp add: record_mset_ok_def typed_ok_def)

interpretation recm: typed_mset record_table record_elem_ok
proof
  show "mset_wf record_table" by (simp add: mset_wf_def record_table_eq MAX_NTYPES_def numeral_eq_Suc)
  show "record_elem_ok e \<Longrightarrow> elem_type e < mset_ntypes record_table" for e
    by (auto simp: record_table_eq dest: record_elem_ok_type)
qed

lemma record_mset_ok_wf:
  assumes "record_mset_ok m"
  shows "mset_wf m" and "mset_ntypes m = 3" and "mset_dup_fn m = mset_dup_fn record_table"
  using recm.ok_wf assms by (simp_all add: record_mset_ok_typed record_table_eq)

lemmas record_mset_okI = recm.ok_update [folded record_mset_ok_typed]
lemmas record_insert_ok = recm.insert_ok [folded record_mset_ok_typed]
lemmas record_append_ok = recm.append_ok [folded record_mset_ok_typed]
lemmas record_remove_ok = recm.remove_ok [folded record_mset_ok_typed]
lemmas remove_masked_ok = recm.remove_masked_ok [folded record_mset_ok_typed]

lemma rec_record_new_wf [simp]: "rec_record_wf rec_record_new"
  by (simp add: rec_record_wf_def record_mset_ok_def rec_record_new_eq MAX_NTYPES_def numeral_eq_Suc)

section \<open>Lookup\<close>

lemma field_by_name_loop_eq:
  "num \<le> k \<Longrightarrow> field_by_name_loop n k num fs =
     (let gs = filter (\<lambda>(i, f). field_name f = n) fs in
      if k - num < length gs then Some (gs ! (k - num)) else None)"
proof (induction fs arbitrary: num)
  case Nil
  then show ?case by simp
next
  case (Cons x fs)
  obtain i f where x: "x = (i, f)" by (cases x)
  show ?case
  proof (cases "field_name f = n \<and> k \<noteq> num")
    case False
    with Cons x show ?thesis by (auto simp: rec_field_name_equal_p_def Let_def)
  next
    case True
    then have "k - num = Suc (k - Suc num)" "Suc num \<le> k" using Cons.prems by auto
    with Cons.IH [of "Suc num"] True x show ?thesis
      by (simp add: rec_field_name_equal_p_def Let_def)
  qed
qed

lemma rec_record_get_field_by_name_eq:
  "rec_record_get_field_by_name r n k =
     (let gs = filter (\<lambda>(i, f). field_name f = n) (rec_record_fields r) in
      if k < length gs then Some (gs ! k) else None)"
  using field_by_name_loop_eq [of 0 k n "rec_record_fields r"]
  by (simp add: rec_record_get_field_by_name_def Let_def)

section \<open>The list of fields\<close>

definition elem_fields :: "rdata mset_elem list \<Rightarrow> rec_field list" where
  "elem_fields es =
     List.map_filter (\<lambda>e. if elem_type e = MSET_FIELD then as_field (elem_data e) else None) es"

lemma elem_fields_simps [simp]:
  "elem_fields [] = []"
  "elem_fields (e # es) =
     (if elem_type e = MSET_FIELD then (case as_field (elem_data e) of None \<Rightarrow> [] | Some f \<Rightarrow> [f]) else []) @ elem_fields es"
  "elem_fields (es @ fs) = elem_fields es @ elem_fields fs"
  by (auto simp: elem_fields_def map_filter_simps map_filter_def split: option.splits)

lemma fields_items_from:
  "map snd (List.map_filter (\<lambda>(i, d). map_option (Pair i) (as_field d)) (items_from MSET_FIELD i es)) = elem_fields es"
  by (induction es arbitrary: i) (auto simp: map_filter_simps split: option.splits)

lemma rec_record_fields_elems: "map snd (rec_record_fields r) = elem_fields (mset_elems (record_mset r))"
  unfolding rec_record_fields_def rec_mset_items_from by (rule fields_items_from)

lemma rec_record_num_fields_eq:
  assumes "rec_record_wf r"
  shows "rec_record_num_fields r = length (rec_record_fields r)"
proof -
  have ok: "record_mset_ok (record_mset r)" and t: "record_field_type r = 1"
    using assms by (simp_all add: rec_record_wf_def)
  have "count_type es 1 = length (elem_fields es)" if "list_all record_elem_ok es" for es
    using that by (induction es) (auto simp: record_elem_ok_def as_field_def split: rdata.splits)
  then have "count_type (mset_elems (record_mset r)) 1 = length (map snd (rec_record_fields r))"
    using ok by (simp add: rec_record_fields_elems record_mset_ok_def)
  then show ?thesis
    using mset_wf_count [OF record_mset_ok_wf(1) [OF ok], of 1] t
    by (simp add: rec_record_num_fields_def rec_mset_count_def MAX_NTYPES_def)
qed

lemma rec_record_get_num_fields_by_name_eq:
  "rec_record_get_num_fields_by_name r n = length (filter (\<lambda>f. field_name f = n) (elem_fields (mset_elems (record_mset r))))"
  unfolding rec_record_fields_elems [symmetric]
  by (simp add: rec_record_get_num_fields_by_name_def rec_field_name_equal_p_def filter_map comp_def case_prod_beta')

section \<open>Removal by name\<close>

definition name_matches :: "string \<Rightarrow> rdata mset_elem \<Rightarrow> bool" where
  "name_matches n e \<longleftrightarrow> elem_type e = MSET_FIELD
     \<and> (case elem_data e of DField f \<Rightarrow> field_name f = n | DComment c \<Rightarrow> False)"

fun remove_named :: "string \<Rightarrow> size_t \<Rightarrow> nat \<Rightarrow> rdata mset_elem list \<Rightarrow> rdata mset_elem list" where
  "remove_named n k num [] = []"
| "remove_named n k num (e # es) =
     (if name_matches n e
      then if k = -1 \<or> k = of_nat num then remove_named n k (Suc num) es
           else e # remove_named n k (Suc num) es
      else e # remove_named n k num es)"

lemma remove_by_name_loop_unfold:
  "remove_by_name_loop n k num i m =
     (if i < length (mset_elems m)
      then if name_matches n (mset_elems m ! i)
           then if k = -1 \<or> k = of_nat num
                then remove_by_name_loop n k (Suc num) i (snd (rec_mset_remove_elem m i))
                else remove_by_name_loop n k (Suc num) (Suc i) m
           else remove_by_name_loop n k num (Suc i) m
      else m)"
  by (simp add: remove_by_name_loop.simps [of n k num i m] name_matches_def rec_field_name_equal_p_def
      split: rdata.splits bool.splits)

text \<open>Where an operation only deletes elements, the rest of the multi-set is as it was.\<close>

lemma remove_by_name_loop_ok:
  assumes "record_mset_ok m"
  shows "record_mset_ok (remove_by_name_loop n k num i m)
    \<and> mset_elems (remove_by_name_loop n k num i m) =
        take i (mset_elems m) @ remove_named n k num (drop i (mset_elems m))"
  using assms
proof (induction n k num i m rule: remove_by_name_loop.induct)
  case (1 n k num i m)
  note IH = 1(1-5) and ok = 1(6)
  show ?case
  proof (cases "i < length (mset_elems m)")
    case False
    with ok show ?thesis by (simp add: remove_by_name_loop_unfold [of n k num i m])
  next
    case True
    let ?es = "mset_elems m" and ?m = "snd (rec_mset_remove_elem m i)"
    have d: "drop i ?es = ?es ! i # drop (Suc i) ?es" using True by (simp add: Cons_nth_drop_Suc)
    have tk: "take (Suc i) ?es = take i ?es @ [?es ! i]" using True by (rule take_Suc_conv_app_nth)
    consider (del) "name_matches n (?es ! i)" "k = -1 \<or> k = of_nat num"
      | (keep) "name_matches n (?es ! i)" "\<not> (k = -1 \<or> k = of_nat num)"
      | (other) "\<not> name_matches n (?es ! i)" by blast
    then show ?thesis
    proof cases
      case del
      then have "record_mset_ok (remove_by_name_loop n k (Suc num) i ?m)
        \<and> mset_elems (remove_by_name_loop n k (Suc num) i ?m) =
            take i (mset_elems ?m) @ remove_named n k (Suc num) (drop i (mset_elems ?m))"
        using IH(1) True record_remove_ok [OF ok, of i]
        by (auto simp: name_matches_def rec_field_name_equal_p_def split: rdata.splits)
      with del True show ?thesis
        by (simp add: remove_by_name_loop_unfold [of n k num i m] d elems_remove)
    next
      case keep
      then have "record_mset_ok (remove_by_name_loop n k (Suc num) (Suc i) m)
        \<and> mset_elems (remove_by_name_loop n k (Suc num) (Suc i) m) =
            take (Suc i) ?es @ remove_named n k (Suc num) (drop (Suc i) ?es)"
        using IH(2) True ok
        by (auto simp: name_matches_def rec_field_name_equal_p_def split: rdata.splits)
      with keep True show ?thesis
        by (simp add: remove_by_name_loop_unfold [of n k num i m] d tk)
    next
      case other
      then have "record_mset_ok (remove_by_name_loop n k num (Suc i) m)
        \<and> mset_elems (remove_by_name_loop n k num (Suc i) m) =
            take (Suc i) ?es @ remove_named n k num (drop (Suc i) ?es)"
        using IH(3-5) True ok
        by (cases "elem_data (?es ! i)"; cases "elem_type (?es ! i) = 1")
           (auto simp: name_matches_def rec_field_name_equal_p_def)
      with other True show ?thesis
        by (simp add: remove_by_name_loop_unfold [of n k num i m] d tk)
    qed
  qed
qed

lemma remove_named_all: "remove_named n (- 1) num es = filter (\<lambda>e. \<not> name_matches n e) es"
  by (induction es arbitrary: num) auto

lemma as_field_simps [simp]: "as_field (DField f) = Some f" "as_field (DComment c) = None"
  by (simp_all add: as_field_def)

lemma name_matches_cases:
  "elem_data e = DComment c \<Longrightarrow> \<not> name_matches n e"
  "elem_type e \<noteq> MSET_FIELD \<Longrightarrow> \<not> name_matches n e"
  "elem_type e = MSET_FIELD \<Longrightarrow> elem_data e = DField f \<Longrightarrow> name_matches n e \<longleftrightarrow> field_name f = n"
  by (simp_all add: name_matches_def)

lemma elem_fields_filter_names:
  "elem_fields (filter (\<lambda>e. \<not> name_matches n e) es) = filter (\<lambda>f. field_name f \<noteq> n) (elem_fields es)"
proof (induction es)
  case Nil
  then show ?case by simp
next
  case (Cons e es)
  then show ?case
    by (cases "elem_data e"; cases "elem_type e = 1") (simp_all add: name_matches_cases)
qed

lemma rec_record_remove_all_fields:
  assumes "rec_record_wf r"
  shows "map snd (rec_record_fields (rec_record_remove_field_by_name r n (- 1))) =
    filter (\<lambda>f. field_name f \<noteq> n) (map snd (rec_record_fields r))"
  using remove_by_name_loop_ok [of "record_mset r" n "- 1" 0 0] assms
  by (simp add: rec_record_wf_def rec_record_remove_field_by_name_def rec_record_fields_elems
      remove_named_all elem_fields_filter_names)

lemma rec_record_remove_field_by_name_wf:
  "rec_record_wf r \<Longrightarrow> rec_record_wf (rec_record_remove_field_by_name r n k)"
  using remove_by_name_loop_ok [of "record_mset r" n k 0 0]
  by (simp add: rec_record_wf_def rec_record_remove_field_by_name_def)

lemma of_nat_size_eq_iff:
  "j < 2 ^ 64 \<Longrightarrow> k < 2 ^ 64 \<Longrightarrow> (of_nat j :: size_t) = of_nat k \<longleftrightarrow> j = k"
  by (simp add: word_of_nat_eq_iff take_bit_nat_eq_self)

lemma of_nat_size_not_max:
  assumes "j < 2 ^ 64 - 1"
  shows "(of_nat j :: size_t) \<noteq> - 1"
proof -
  have "(of_nat (2 ^ 64 - 1) :: size_t) = - 1"
    by (simp add: word_eq_iff_unsigned uint_word_ariths)
  moreover have "(of_nat j :: size_t) \<noteq> of_nat (2 ^ 64 - 1)"
    using assms by (subst of_nat_size_eq_iff) auto
  ultimately show ?thesis by (simp only: not_False_eq_True)
qed

lemma remove_named_past:
  assumes "j < num" and "j < 2 ^ 64 - 1" and "num + length es \<le> 2 ^ 64"
  shows "remove_named n (of_nat j) num es = es"
  using assms
proof (induction es arbitrary: num)
  case Nil
  then show ?case by simp
next
  case (Cons e es)
  then have "(of_nat j :: size_t) \<noteq> of_nat num" "(of_nat j :: size_t) \<noteq> - 1"
    by (auto simp: of_nat_size_eq_iff of_nat_size_not_max simp del: of_nat_numeral)
  with Cons show ?case by simp
qed

lemma remove_named_one:
  assumes "num \<le> j" and "j < 2 ^ 64 - 1" and "num + length es \<le> 2 ^ 64"
  shows "filter (\<lambda>e. \<not> name_matches n e) (remove_named n (of_nat j) num es) = filter (\<lambda>e. \<not> name_matches n e) es
    \<and> filter (name_matches n) (remove_named n (of_nat j) num es) =
        take (j - num) (filter (name_matches n) es) @ drop (Suc (j - num)) (filter (name_matches n) es)"
  using assms
proof (induction es arbitrary: num)
  case Nil
  then show ?case by simp
next
  case (Cons e es)
  have max: "(of_nat j :: size_t) \<noteq> - 1" using Cons.prems(2) by (rule of_nat_size_not_max)
  consider (other) "\<not> name_matches n e" | (hit) "name_matches n e" "num = j" | (miss) "name_matches n e" "num < j"
    using Cons.prems(1) by linarith
  then show ?case
  proof cases
    case other
    with Cons max show ?thesis by simp
  next
    case hit
    then have "remove_named n (of_nat j) (Suc num) es = es"
      using Cons.prems by (intro remove_named_past) auto
    with hit show ?thesis by simp
  next
    case miss
    then have "(of_nat j :: size_t) \<noteq> of_nat num"
      using Cons.prems by (subst of_nat_size_eq_iff) auto
    moreover have "j - num = Suc (j - Suc num)" using miss by simp
    ultimately show ?thesis
      using miss max Cons.IH [of "Suc num"] Cons.prems by simp
  qed
qed

section \<open>Duplicate removal\<close>

definition field_key :: "rec_field \<Rightarrow> string \<times> string" where
  "field_key f = (field_name f, field_value f)"

lemma uniq_mark_inner_eq:
  "length (uniq_mark_inner i f j fs dm) = length dm
   \<and> (\<forall>l < length dm. uniq_mark_inner i f j fs dm ! l \<longleftrightarrow>
        dm ! l \<or> (j \<le> l \<and> l - j < length fs \<and> l \<noteq> i \<and> field_key (snd (fs ! (l - j))) = field_key f))"
proof (induction fs arbitrary: j dm)
  case Nil
  then show ?case by simp
next
  case (Cons x fs)
  obtain p g where x: "x = (p, g)" by (cases x)
  let ?dm = "if j \<noteq> i \<and> field_key f = field_key g then dm[j := True] else dm"
  have step: "uniq_mark_inner i f j (x # fs) dm = uniq_mark_inner i f (Suc j) fs ?dm"
    by (auto simp: x rec_field_name_equal_p_def field_key_def)
  have "uniq_mark_inner i f (Suc j) fs ?dm ! l \<longleftrightarrow>
      dm ! l \<or> (j \<le> l \<and> l - j < length (x # fs) \<and> l \<noteq> i \<and> field_key (snd ((x # fs) ! (l - j))) = field_key f)"
    if l: "l < length dm" for l
  proof -
    have IH: "uniq_mark_inner i f (Suc j) fs ?dm ! l \<longleftrightarrow>
      ?dm ! l \<or> (Suc j \<le> l \<and> l - Suc j < length fs \<and> l \<noteq> i \<and> field_key (snd (fs ! (l - Suc j))) = field_key f)"
      using Cons.IH [of "Suc j" ?dm] l by auto
    show ?thesis
    proof (cases "l = j")
      case True
      with IH l x show ?thesis by (auto simp: nth_list_update)
    next
      case False
      then have "j \<le> l \<longleftrightarrow> Suc j \<le> l" and "Suc j \<le> l \<Longrightarrow> l - j = Suc (l - Suc j)" by auto
      with IH l False show ?thesis by (auto simp: nth_list_update)
    qed
  qed
  with step Cons.IH [of "Suc j" ?dm] show ?case by auto
qed

text \<open>After the outer loop has passed the first \<open>k\<close> fields, exactly those with an earlier twin among them are marked.\<close>

lemma uniq_mark_eq:
  assumes "length dm = length all" and "i + length fs = length all" and "drop i all = fs"
    and "\<And>l. l < length all \<Longrightarrow> dm ! l \<longleftrightarrow> (\<exists>k < min i l. field_key (snd (all ! k)) = field_key (snd (all ! l)))"
  shows "length (uniq_mark all i fs dm) = length all
    \<and> (\<forall>l < length all. uniq_mark all i fs dm ! l \<longleftrightarrow> (\<exists>k < l. field_key (snd (all ! k)) = field_key (snd (all ! l))))"
  using assms
proof (induction fs arbitrary: i dm)
  case Nil
  then show ?case by (auto simp: min_def)
next
  case (Cons x fs)
  obtain p g where x: "x = (p, g)" by (cases x)
  have i: "i < length all" using Cons.prems(2) by simp
  have xi: "all ! i = (p, g)" using Cons.prems(3) i x by (metis Cons_nth_drop_Suc list.inject)
  have fs: "drop (Suc i) all = fs" using Cons.prems(3) by (metis drop_Suc tl_drop list.sel(3))
  let ?K = "\<lambda>l. field_key (snd (all ! l))"
  let ?dm = "if \<not> dm ! i then uniq_mark_inner i g 0 all dm else dm"
  note inner = uniq_mark_inner_eq [of i g 0 all dm]
  have len: "length ?dm = length all" using inner Cons.prems(1) by simp
  have "?dm ! l \<longleftrightarrow> (\<exists>k < min (Suc i) l. ?K k = ?K l)" if l: "l < length all" for l
  proof (cases "dm ! i")
    case True
    then obtain k where k: "k < i" "?K k = ?K i" using Cons.prems(4) [OF i] by auto
    then show ?thesis
      using True Cons.prems(4) [OF l] by (auto simp: less_Suc_eq)
  next
    case False
    then have first: "\<not> (\<exists>k < i. ?K k = ?K i)" using Cons.prems(4) [OF i] by auto
    have "?dm ! l \<longleftrightarrow> dm ! l \<or> (l \<noteq> i \<and> ?K l = ?K i)"
      using False inner l Cons.prems(1) xi by auto
    also have "\<dots> \<longleftrightarrow> (\<exists>k < min i l. ?K k = ?K l) \<or> (i < l \<and> ?K l = ?K i)"
      using Cons.prems(4) [OF l] first by (auto simp: neq_iff)
    also have "\<dots> \<longleftrightarrow> (\<exists>k < min (Suc i) l. ?K k = ?K l)"
      by (auto simp: less_Suc_eq)
    finally show ?thesis .
  qed
  then show ?case
    using Cons.IH [OF len _ fs] Cons.prems(2) x by simp
qed

lemma elem_fields_keep:
  "list_all record_elem_ok es \<Longrightarrow>
   elem_fields (keep_unmarked dm k es) = map snd (filter (\<lambda>(j, f). \<not> dm ! j) (enumerate k (elem_fields es)))"
proof (induction es arbitrary: k)
  case Nil
  then show ?case by simp
next
  case (Cons e es)
  from Cons.prems have "record_elem_ok e" and IH: "\<And>k. elem_fields (keep_unmarked dm k es) =
      map snd (filter (\<lambda>(j, f). \<not> dm ! j) (enumerate k (elem_fields es)))"
    using Cons.IH by simp_all
  from this(1) show ?case
    by (cases rule: record_elem_okE) (simp_all add: IH)
qed

text \<open>Keeping the entries without an earlier twin is \<open>remdups\<close> from the front.\<close>

lemma filter_first_occurrence:
  "map snd (filter (\<lambda>(j, x). \<not> (\<exists>k < j. g (xs ! k) = g (xs ! j))) (enumerate 0 xs)) = ys \<Longrightarrow>
   map g ys = rev (remdups (rev (map g xs)))"
proof (induction xs arbitrary: ys rule: rev_induct)
  case Nil
  then show ?case by simp
next
  case (snoc x xs)
  let ?P = "\<lambda>xs (j, y). \<not> (\<exists>k < j. g (xs ! k) = g (xs ! j))"
  have A: "filter (?P (xs @ [x])) (enumerate 0 xs) = filter (?P xs) (enumerate 0 xs)"
    by (rule filter_cong) (auto simp: in_set_enumerate_eq nth_append)
  have B: "(\<exists>k < length xs. g ((xs @ [x]) ! k) = g x) \<longleftrightarrow> g x \<in> g ` set xs"
  proof -
    have "(\<exists>k < length xs. g ((xs @ [x]) ! k) = g x) \<longleftrightarrow> (\<exists>y \<in> set xs. g y = g x)"
      by (auto simp: nth_append set_conv_nth)
    then show ?thesis by (metis imageE imageI)
  qed
  have "filter (?P (xs @ [x])) (enumerate 0 (xs @ [x])) =
      filter (?P xs) (enumerate 0 xs) @ (if g x \<in> g ` set xs then [] else [(length xs, x)])"
    unfolding enumerate_append_eq filter_append A using B by auto
  then show ?case
    unfolding snoc.prems [symmetric] using snoc.IH [OF refl] by simp
qed

lemma rec_record_uniq_keys:
  assumes "rec_record_wf r"
  shows "map (field_key \<circ> snd) (rec_record_fields (rec_record_uniq r)) =
      rev (remdups (rev (map (field_key \<circ> snd) (rec_record_fields r))))"
    and "rec_record_wf (rec_record_uniq r)"
proof -
  let ?all = "rec_record_fields r" and ?m = "record_mset r"
  let ?dm = "uniq_mark ?all 0 ?all (replicate (length ?all) False)"
  have ok: "record_mset_ok ?m" using assms by (simp add: rec_record_wf_def)
  have uniq: "rec_record_uniq r = r\<lparr>record_mset := remove_masked ?dm 0 0 ?m\<rparr>"
    using rec_record_num_fields_eq [OF assms] by (simp add: rec_record_uniq_def Let_def)
  note rm = remove_masked_ok [OF ok, of ?dm 0 0]
  show "rec_record_wf (rec_record_uniq r)" using assms rm by (simp add: uniq rec_record_wf_def)
  have dm: "\<forall>l < length ?all. ?dm ! l \<longleftrightarrow> (\<exists>k < l. field_key (snd (?all ! k)) = field_key (snd (?all ! l)))"
    using uniq_mark_eq [of "replicate (length ?all) False" ?all 0 ?all] by simp
  let ?fs = "map snd ?all"
  have "map snd (rec_record_fields (rec_record_uniq r)) =
      map snd (filter (\<lambda>(j, f). \<not> ?dm ! j) (enumerate 0 ?fs))"
    using rm ok elem_fields_keep [of "mset_elems ?m" ?dm 0]
    by (simp add: uniq rec_record_fields_elems record_mset_ok_def)
  also have "filter (\<lambda>(j, f). \<not> ?dm ! j) (enumerate 0 ?fs) =
      filter (\<lambda>(j, f). \<not> (\<exists>k < j. field_key (?fs ! k) = field_key (?fs ! j))) (enumerate 0 ?fs)"
    using dm by (intro filter_cong) (auto simp: in_set_enumerate_eq)
  finally show "map (field_key \<circ> snd) (rec_record_fields (rec_record_uniq r)) =
      rev (remdups (rev (map (field_key \<circ> snd) ?all)))"
    using filter_first_occurrence [of field_key ?fs, OF refl] by (simp add: rev_map flip: map_map)
qed

section \<open>Duplication\<close>

lemma record_dup_data:
  assumes "record_mset_ok m" and "e \<in> set (mset_elems m)"
  shows "dup_data record_env m e = Some (elem_data e)"
proof -
  have "record_elem_ok e" using assms by (auto simp: record_mset_ok_def list_all_iff)
  then show ?thesis
    by (cases rule: record_elem_okE)
       (simp_all add: dup_data_def record_mset_ok_wf(3) [OF assms(1)] record_table_eq record_env_def
          record_field_dup_fn_def record_comment_dup_fn_def rec_comment_dup_def rec_field_dup_id)
qed

lemma record_mset_ok_eqI:
  assumes "record_mset_ok m" and "record_mset_ok m'" and "mset_elems m = mset_elems m'"
  shows "m = m'"
  using assms unfolding record_mset_ok_def by metis

lemma rec_mset_dup_record_frame:
  assumes "record_mset_ok m" and "rec_mset_dup record_env m = Some m'" and "mset_wf m'" and "mset_elems m' = mset_elems m"
  shows "record_mset_ok m'"
proof -
  let ?n = "mset_ntypes m" and ?new = "rec_mset_new :: rdata rec_mset"
  let ?c = "?new\<lparr>mset_ntypes := ?n,
     mset_count := copy_prefix ?n (replicate MAX_NTYPES 0) (mset_count ?new),
     mset_name := copy_prefix ?n (map (map_option strdup) (mset_name m)) (mset_name ?new),
     mset_disp_fn := copy_prefix ?n (mset_disp_fn m) (mset_disp_fn ?new),
     mset_equal_fn := copy_prefix ?n (mset_equal_fn m) (mset_equal_fn ?new),
     mset_dup_fn := copy_prefix ?n (mset_dup_fn m) (mset_dup_fn ?new),
     mset_compare_fn := copy_prefix ?n (mset_compare_fn m) (mset_compare_fn ?new)\<rparr>"
  obtain es cs where m: "m = record_table\<lparr>mset_elems := es, mset_count := cs\<rparr>" and es: "es = mset_elems m"
    using assms(1) unfolding record_mset_ok_def by metis
  have c: "?c = record_table"
    by (simp add: m rec_record_new_eq rec_mset_new_def copy_prefix_def MAX_NTYPES_def numeral_eq_Suc strdup_def)
  have tab: "record_mset_ok record_table"
    using rec_record_new_wf by (simp add: rec_record_wf_def)
  have types: "list_all (\<lambda>e. elem_type e < mset_ntypes record_table) (mset_elems m)"
    using record_mset_ok_wf [OF assms(1)] by (simp add: mset_wf_def record_table_eq)
  have dup: "dup_data record_env record_table e = Some (elem_data e)" if "e \<in> set (mset_elems m)" for e
    using record_dup_data [OF assms(1) that] record_mset_ok_wf(3) [OF assms(1)] by (simp add: dup_data_def)
  have "dup_elems record_env record_table (mset_elems m) = Some m'"
    using assms(2) unfolding rec_mset_dup_def Let_def c .
  with dup_elems_Some [OF record_mset_ok_wf(1) [OF tab] types dup]
  have "m' = record_table\<lparr>mset_elems := mset_elems m', mset_count := mset_count m'\<rparr>"
    by (auto intro!: rec_mset.equality)
  then have "m' = record_table\<lparr>mset_elems := mset_elems m',
      mset_count := map (count_type (mset_elems m')) [0..<MAX_NTYPES]\<rparr>"
    using assms(3) by (simp add: mset_wf_def)
  with assms(1,4) show ?thesis by (simp add: record_mset_ok_def)
qed

text \<open>Duplicating a well-formed record gives an equal record: elements, statistics, locations, container.\<close>

lemma rec_record_dup_id:
  assumes "rec_record_wf r"
  shows "rec_record_dup r = Some r"
proof -
  have ok: "record_mset_ok (record_mset r)" using assms by (simp add: rec_record_wf_def)
  from rec_mset_dup_Some [OF record_mset_ok_wf(1) [OF ok] record_dup_data [OF ok]] obtain m'
    where m': "rec_mset_dup record_env (record_mset r) = Some m'" "mset_wf m'" "mset_elems m' = mset_elems (record_mset r)"
    by auto
  have "m' = record_mset r"
    using record_mset_ok_eqI [OF rec_mset_dup_record_frame [OF ok m'] ok] m'(3) by simp
  moreover have "map_option strdup x = x" if "pred_option cstring x" for x
    using that by (cases x) simp_all
  ultimately show ?thesis
    using assms m'(1) by (simp add: rec_record_dup_def rec_record_wf_def)
qed

section \<open>Comparison\<close>

lemma rec_record_subset_p_other:
  "rec_record_subset_p False r1 r2 \<longleftrightarrow> mset_elems (record_mset r1) = []"
proof -
  have "rec_mset_items 0 m = [] \<longleftrightarrow> mset_elems m = []" for m :: "rdata rec_mset"
    by (cases "mset_elems m") (simp_all add: rec_mset_items_from)
  moreover have "rec_record_subset_p False r1 r2 \<longleftrightarrow> rec_mset_items 0 (record_mset r1) = []"
    by (cases "rec_mset_items 0 (record_mset r1)")
       (auto simp: rec_record_subset_p_def record_elem_equal_p_def list_ex_iff)
  ultimately show ?thesis by simp
qed

section \<open>Appending\<close>

lemma append_fields_ok:
  assumes "record_mset_ok m" and "list_all (rec_field_wf \<circ> snd) fs"
  shows "record_mset_ok (append_fields m fs)"
  using assms
proof (induction fs arbitrary: m)
  case Nil
  then show ?case by simp
next
  case (Cons x fs)
  obtain i f where x: "x = (i, f)" by (cases x)
  have e: "record_elem_ok \<lparr>elem_type = MSET_FIELD, elem_data = DField (rec_field_dup f)\<rparr>"
    using Cons.prems(2) by (simp add: x record_elem_ok_def rec_field_dup_id)
  obtain p m' where "rec_mset_append m MSET_FIELD (DField (rec_field_dup f)) MSET_FIELD = (Some p, m')"
    and "record_mset_ok m'"
    using record_insert_ok(1,2) [OF Cons.prems(1) e, of "rec_mset_count m MSET_FIELD"]
    by (cases "rec_mset_append m MSET_FIELD (DField (rec_field_dup f)) MSET_FIELD")
       (auto simp: rec_mset_append_def)
  with Cons show ?case by (simp add: x)
qed

lemma record_fields_wf:
  assumes "rec_record_wf r"
  shows "list_all (rec_field_wf \<circ> snd) (rec_record_fields r)"
proof -
  have "list_all rec_field_wf (elem_fields es)" if "list_all record_elem_ok es" for es
    using that
  proof (induction es)
    case (Cons e es)
    then have "record_elem_ok e" by simp
    then show ?case using Cons by (cases rule: record_elem_okE) simp_all
  qed simp
  then have "list_all rec_field_wf (map snd (rec_record_fields r))"
    using assms by (simp add: rec_record_fields_elems rec_record_wf_def record_mset_ok_def)
  then show ?thesis by (simp add: list_all_iff)
qed

lemma rec_record_append_wf:
  "rec_record_wf d \<Longrightarrow> rec_record_wf s \<Longrightarrow> rec_record_wf (rec_record_append d s)"
  using append_fields_ok [of "record_mset d" "rec_record_fields s"] record_fields_wf [of s]
  by (simp add: rec_record_wf_def rec_record_append_def)

end
