(* ===== verification/Rec_Parser.thy ===== *)
theory Rec_Parser
  imports Rec_Record_Laws Rec_Buf
begin

text \<open>
  The parser of \<open>src/rec-parser.c\<close> up to records. The input of a parser is a file stream or a
  memory buffer: its bytes and the position of the next unread one. Every parsing function
  returns the C result together with the new parser; a failed parse is \<open>None\<close>. Loops over the
  input are recursive functions whose termination is proved from the progress of
  \<open>rec_parser_getc\<close>. Allocation is assumed to succeed; a \<open>REC_PARSER_ENOMEM\<close> branch
  is kept because \<open>rec_buf_putc\<close> also fails on a byte whose signed value is \<open>EOF\<close>.
\<close>

section \<open>Parser state\<close>

datatype rec_parser_error_e =
    REC_PARSER_NOERROR | REC_PARSER_ERROR | REC_PARSER_EUNGETC | REC_PARSER_EFNAME
  | REC_PARSER_ENOMEM | REC_PARSER_ETOOMUCHNAMEPARTS | REC_PARSER_ECOMMENT
  | REC_PARSER_EFIELD | REC_PARSER_ERECORD

text \<open>Which of \<open>in_file\<close> and \<open>in_buffer\<close> is not NULL.\<close>

datatype parser_backend = InFile | InBuffer | InNone

record rec_parser =
  parser_backend :: parser_backend
  parser_input :: string
  parser_pos :: nat
  parser_source :: "string option"
  parser_prev_descriptor :: "rec_record option"
  parser_eof :: bool
  parser_error :: rec_parser_error_e
  parser_line :: size_t
  parser_character :: size_t

definition rec_parser_init_common :: "parser_backend \<Rightarrow> string \<Rightarrow> string option \<Rightarrow> rec_parser" where
  "rec_parser_init_common b input source =
     \<lparr>parser_backend = b, parser_input = input, parser_pos = 0,
      parser_source = map_option strdup source, parser_prev_descriptor = None, parser_eof = False,
      parser_error = REC_PARSER_NOERROR, parser_line = 1, parser_character = 0\<rparr>"

definition rec_parser_new :: "string \<Rightarrow> string option \<Rightarrow> rec_parser" where
  "rec_parser_new contents source = rec_parser_init_common InFile contents source"

text \<open>\<open>buffer\<close> is the whole memory block; the parser reads its first \<open>size\<close> bytes.\<close>

definition rec_parser_new_mem :: "string \<Rightarrow> nat \<Rightarrow> string option \<Rightarrow> rec_parser" where
  "rec_parser_new_mem buffer in_size source = rec_parser_init_common InBuffer (take in_size buffer) source"

definition rec_parser_new_str :: "string \<Rightarrow> string option \<Rightarrow> rec_parser" where
  "rec_parser_new_str buffer source = rec_parser_new_mem buffer (length (strdup buffer)) source"

definition rec_parser_error_p :: "rec_parser \<Rightarrow> bool" where
  "rec_parser_error_p p = (parser_error p \<noteq> REC_PARSER_NOERROR)"

definition set_error :: "rec_parser_error_e \<Rightarrow> rec_parser \<Rightarrow> rec_parser" where
  "set_error e p = p\<lparr>parser_error := e\<rparr>"

definition set_eof :: "rec_parser \<Rightarrow> rec_parser" where
  "set_eof p = p\<lparr>parser_eof := True\<rparr>"

text \<open>The line and character counters are left alone.\<close>

definition rec_parser_reset :: "rec_parser \<Rightarrow> rec_parser" where
  "rec_parser_reset p =
     p\<lparr>parser_eof := False, parser_error := REC_PARSER_NOERROR,
       parser_pos := (if parser_backend p = InBuffer then 0 else parser_pos p)\<rparr>"

definition rec_parser_seek :: "rec_parser \<Rightarrow> size_t \<Rightarrow> size_t \<Rightarrow> bool \<times> rec_parser" where
  "rec_parser_seek p line_number position =
     (case parser_backend p of
        InNone \<Rightarrow> (False, p)
      | InFile \<Rightarrow> (True, p\<lparr>parser_pos := unat position, parser_line := line_number, parser_character := position\<rparr>)
      | InBuffer \<Rightarrow>
          if unat position > length (parser_input p) then (False, p)
          else (True, p\<lparr>parser_pos := unat position, parser_line := line_number, parser_character := position\<rparr>))"

definition rec_parser_tell :: "rec_parser \<Rightarrow> int" where
  "rec_parser_tell p = (if parser_backend p = InNone then -1 else int (parser_pos p))"

section \<open>Reading and unreading characters\<close>

text \<open>
  \<open>getc\<close> gives the byte as an unsigned value, the memory backend the value of a \<open>char\<close>. A byte
  0xFF in memory is therefore taken for \<open>EOF\<close> after advancing the pointer.
\<close>

definition byte_int :: "parser_backend \<Rightarrow> char \<Rightarrow> int" where
  "byte_int b c = (if b = InFile then uchar c else schar c)"

definition rec_parser_getc :: "rec_parser \<Rightarrow> int \<times> rec_parser" where
  "rec_parser_getc p =
     (if parser_backend p = InNone then (EOF, p)
      else if parser_pos p \<ge> length (parser_input p) then (EOF, set_eof p)
      else
        let c = parser_input p ! parser_pos p; ci = byte_int (parser_backend p) c;
            p1 = p\<lparr>parser_pos := parser_pos p + 1\<rparr>
        in if ci = EOF then (EOF, set_eof p1)
           else (ci, p1\<lparr>parser_character := parser_character p1 + 1,
                         parser_line := (if char_of_int ci = NL then parser_line p1 + 1 else parser_line p1)\<rparr>))"

text \<open>
  \<open>ungetc\<close> pushes back the byte \<open>(unsigned char) ci\<close>, which is the one just read, and returns it;
  a sign-extended argument differs from it. \<open>ungetc (EOF)\<close> does nothing.
\<close>

definition rec_parser_ungetc :: "int \<Rightarrow> rec_parser \<Rightarrow> int \<times> rec_parser" where
  "rec_parser_ungetc ci p =
     (let p1 = p\<lparr>parser_character := parser_character p - 1,
                 parser_line := (if char_of_int ci = NL then parser_line p - 1 else parser_line p)\<rparr>
      in case parser_backend p1 of
           InFile \<Rightarrow>
             let res = (if ci = EOF then EOF else uchar (char_of_int ci));
                 p2 = (if ci = EOF then p1 else p1\<lparr>parser_pos := parser_pos p1 - 1\<rparr>)
             in (res, if res \<noteq> ci then set_error REC_PARSER_EUNGETC p2 else p2)
         | InBuffer \<Rightarrow>
             if parser_pos p1 > 0 then (ci, p1\<lparr>parser_pos := parser_pos p1 - 1\<rparr>)
             else (EOF, set_error REC_PARSER_EUNGETC p1)
         | InNone \<Rightarrow> (EOF, p1))"

definition parser_rem :: "rec_parser \<Rightarrow> nat" where
  "parser_rem p = length (parser_input p) - parser_pos p"

lemma set_error_simps [simp]:
  "parser_backend (set_error e p) = parser_backend p" "parser_input (set_error e p) = parser_input p"
  "parser_pos (set_error e p) = parser_pos p" "parser_eof (set_error e p) = parser_eof p"
  "parser_error (set_error e p) = e" "parser_rem (set_error e p) = parser_rem p"
  by (simp_all add: set_error_def parser_rem_def)

lemma set_eof_simps [simp]:
  "parser_backend (set_eof p) = parser_backend p" "parser_input (set_eof p) = parser_input p"
  "parser_pos (set_eof p) = parser_pos p" "parser_eof (set_eof p)"
  "parser_error (set_eof p) = parser_error p" "parser_rem (set_eof p) = parser_rem p"
  by (simp_all add: set_eof_def parser_rem_def)

lemma getc_rem:
  assumes "rec_parser_getc p = (ci, p')"
  shows "parser_rem p' \<le> parser_rem p" and "ci \<noteq> EOF \<Longrightarrow> parser_rem p' < parser_rem p"
    and "ci \<noteq> EOF \<Longrightarrow> parser_pos p' = Suc (parser_pos p)"
    and "parser_input p' = parser_input p" and "parser_backend p' = parser_backend p"
    and "parser_pos p \<le> parser_pos p'"
  using assms by (auto simp: rec_parser_getc_def Let_def parser_rem_def set_eof_def split: if_splits)

lemma ungetc_fields [simp]:
  "parser_input (snd (rec_parser_ungetc ci p)) = parser_input p"
  "parser_backend (snd (rec_parser_ungetc ci p)) = parser_backend p"
  "parser_pos p \<le> Suc (parser_pos (snd (rec_parser_ungetc ci p)))"
  by (auto simp: rec_parser_ungetc_def Let_def split: parser_backend.splits)

lemma getc_ungetc_rem:
  assumes "rec_parser_getc p = (ci, p1)" and "ci \<noteq> EOF"
  shows "parser_rem (snd (rec_parser_ungetc ci' p1)) \<le> parser_rem p"
  using getc_rem [OF assms(1)] assms(2) ungetc_fields(3) [of p1 ci'] by (simp add: parser_rem_def)

lemma getc2_rem:
  assumes "rec_parser_getc p = (ci, p1)" and "ci \<noteq> EOF" and "rec_parser_getc p1 = (ci2, p2)" and "ci2 \<noteq> EOF"
  shows "parser_rem p2 < parser_rem p"
  using getc_rem(2) [OF assms(1)] getc_rem(2) [OF assms(3)] assms(2,4) by simp

lemma getc2_ungetc_rem:
  assumes "rec_parser_getc p = (ci, p1)" and "ci \<noteq> EOF" and "rec_parser_getc p1 = (ci2, p2)" and "ci2 \<noteq> EOF"
    and "rec_parser_ungetc ci' p2 = (u, p3)"
  shows "parser_rem p3 < parser_rem p"
  using getc_rem(2) [OF assms(1)] getc_ungetc_rem [OF assms(3,4), of ci'] assms(2,5) by simp

lemmas getc_progress = getc_rem(2) [OF sym] getc2_rem [OF sym _ sym] getc2_ungetc_rem [OF sym _ sym _ sym]

section \<open>Field names\<close>

definition rec_parser_digit_p :: "char \<Rightarrow> bool" where
  "rec_parser_digit_p c = (schar c \<ge> schar CHR ''0'' \<and> schar c \<le> schar CHR ''9'')"

definition rec_parser_letter_p :: "char \<Rightarrow> bool" where
  "rec_parser_letter_p c =
     ((schar c \<ge> schar CHR ''A'' \<and> schar c \<le> schar CHR ''Z'')
      \<or> (schar c \<ge> schar CHR ''a'' \<and> schar c \<le> schar CHR ''z''))"

text \<open>The loop \<open>[a-zA-Z0-9_]*\<close> up to the colon. \<open>None\<close> is the early return on a failed \<open>rec_buf_putc\<close>.\<close>

function field_name_loop :: "rec_buf \<Rightarrow> rec_parser \<Rightarrow> (bool \<times> rec_buf) option \<times> rec_parser" where
  "field_name_loop buf p =
     (case rec_parser_getc p of (ci, p1) \<Rightarrow>
        if ci = EOF then (Some (True, buf), p1)
        else
          let c = char_of_int ci in
          if rec_parser_letter_p c \<or> rec_parser_digit_p c \<or> c = CHR ''_''
          then (case rec_buf_putc (schar c) buf of (r, buf1) \<Rightarrow>
                  if r = EOF then (None, set_error REC_PARSER_ENOMEM p1)
                  else if rec_parser_error_p p1 then (Some (True, buf1), p1)
                  else field_name_loop buf1 p1)
          else if c = CHR '':'' then (Some (True, buf), p1)
          else (Some (False, buf), set_error REC_PARSER_EFNAME p1))"
  by pat_completeness auto
termination
  by (relation "measure (\<lambda>(buf, p). parser_rem p)") (auto intro: getc_progress)

declare field_name_loop.simps [simp del]

text \<open>What follows the colon: a blank is consumed, anything else is put back.\<close>

definition field_name_end :: "rec_parser \<Rightarrow> rec_parser" where
  "field_name_end p =
     (case rec_parser_getc p of (ci, p1) \<Rightarrow>
        if ci = EOF then p1
        else
          let c = char_of_int ci in
          if c = CHR '' '' \<or> c = TAB then set_error REC_PARSER_NOERROR p1
          else if c = NL then snd (rec_parser_ungetc (schar c) (set_error REC_PARSER_NOERROR p1))
          else snd (rec_parser_ungetc (schar c) p1))"

definition rec_parse_field_name :: "rec_parser \<Rightarrow> string option \<times> rec_parser" where
  "rec_parse_field_name p =
     (if parser_eof p \<or> rec_parser_error_p p then (None, p)
      else case rec_parser_getc p of (ci, p1) \<Rightarrow>
        if ci = EOF then (None, p1)
        else
          let c = char_of_int ci in
          if rec_parser_letter_p c \<or> c = CHR ''%''
          then (case rec_buf_putc (schar c) rec_buf_new of (r, buf1) \<Rightarrow>
                  if r = EOF then (None, set_error REC_PARSER_ENOMEM p1)
                  else (case field_name_loop buf1 p1 of
                          (None, p2) \<Rightarrow> (None, p2)
                        | (Some (ret, buf2), p2) \<Rightarrow>
                            if parser_eof p2 then (None, set_error REC_PARSER_EFNAME p2)
                            else if ret then (Some (rec_buf_close buf2), field_name_end p2)
                            else (None, p2)))
          else (None, set_error REC_PARSER_EFNAME p1))"

section \<open>Field values\<close>

text \<open>
  The loop of \<open>rec_parse_field_value\<close>. Its result is the last character read, \<open>ret\<close> and the
  buffer; \<open>None\<close> is the early return on a failed \<open>rec_buf_putc\<close>.
\<close>

function field_value_loop ::
  "char \<Rightarrow> bool \<Rightarrow> rec_buf \<Rightarrow> rec_parser \<Rightarrow> (char \<times> bool \<times> rec_buf) option \<times> rec_parser" where
  "field_value_loop c0 prev_newline buf p =
     (case rec_parser_getc p of (ci, p1) \<Rightarrow>
        if ci = EOF then (Some (c0, True, buf), p1)
        else
          let c = char_of_int ci in
          if prev_newline \<and> c \<noteq> CHR ''+''
          then (Some (c, True, rec_buf_rewind buf 1), snd (rec_parser_ungetc ci p1))
          else if c = CHR 0x5C
          then (case rec_parser_getc p1 of (ci2, p2) \<Rightarrow>
                  if ci2 = EOF then (Some (c, False, buf), set_eof p2)
                  else if char_of_int ci2 = NL then field_value_loop c False buf p2
                  else (case rec_buf_putc (schar c) buf of (r, buf1) \<Rightarrow>
                          if r = EOF then (None, set_error REC_PARSER_ENOMEM p2)
                          else if rec_parser_error_p p2 then (Some (c, True, buf1), p2)
                          else (case rec_parser_ungetc ci2 p2 of (u, p3) \<Rightarrow>
                                  if u \<noteq> ci2 then (Some (c, False, buf1), p3)
                                  else field_value_loop c False buf1 p3)))
          else if c = CHR ''+'' \<and> prev_newline
          then (case rec_parser_getc p1 of (ci2, p2) \<Rightarrow>
                  if ci2 = EOF then (Some (c, False, buf), set_eof p2)
                  else if char_of_int ci2 \<noteq> CHR '' ''
                  then (case rec_parser_ungetc ci2 p2 of (u, p3) \<Rightarrow>
                          if u \<noteq> ci2 then (Some (c, False, buf), p3)
                          else field_value_loop c False buf p3)
                  else field_value_loop c False buf p2)
          else (case rec_buf_putc (schar c) buf of (r, buf1) \<Rightarrow>
                  if r = EOF then (None, set_error REC_PARSER_ENOMEM p1)
                  else if rec_parser_error_p p1 then (Some (c, True, buf1), p1)
                  else field_value_loop c (c = NL) buf1 p1))"
  by pat_completeness auto
termination
  by (relation "measure (\<lambda>(c0, prev_newline, buf, p). parser_rem p)")
     (auto intro: getc_progress)

declare field_value_loop.simps [simp del]

definition rec_parse_field_value :: "rec_parser \<Rightarrow> string option \<times> rec_parser" where
  "rec_parse_field_value p =
     (if parser_eof p \<or> rec_parser_error_p p then (None, p)
      else case field_value_loop NUL False rec_buf_new p of
             (None, p1) \<Rightarrow> (None, p1)
           | (Some (c, ret, buf), p1) \<Rightarrow>
               if ret
               then (Some (rec_buf_close (if parser_eof p1 \<and> c = NL then rec_buf_rewind buf 1 else buf)), p1)
               else (None, p1))"

section \<open>Comments\<close>

fun rec_expect :: "string \<Rightarrow> rec_parser \<Rightarrow> bool \<times> rec_parser" where
  "rec_expect [] p = (True, p)"
| "rec_expect (x # xs) p =
     (case rec_parser_getc p of (ci, p1) \<Rightarrow>
        if ci = EOF then (False, set_eof p1)
        else if char_of_int ci \<noteq> x then (False, snd (rec_parser_ungetc ci p1))
        else rec_expect xs p1)"

text \<open>The body of a comment. A \<open>#\<close> after a newline continues it. \<open>None\<close> is the early return.\<close>

function comment_loop :: "rec_buf \<Rightarrow> rec_parser \<Rightarrow> rec_buf option \<times> rec_parser" where
  "comment_loop buf p =
     (case rec_parser_getc p of (ci, p1) \<Rightarrow>
        if ci = EOF then (Some buf, p1)
        else
          let c = char_of_int ci in
          if c = NL
          then (case rec_parser_getc p1 of (ci2, p2) \<Rightarrow>
                  if ci2 = EOF then (Some buf, p2)
                  else if char_of_int ci2 \<noteq> CHR ''#'' then (Some buf, snd (rec_parser_ungetc ci2 p2))
                  else (case rec_buf_putc (schar NL) buf of (r, buf1) \<Rightarrow>
                          if r = EOF then (None, set_error REC_PARSER_ENOMEM p2)
                          else comment_loop buf1 p2))
          else (case rec_buf_putc (schar c) buf of (r, buf1) \<Rightarrow>
                  if r = EOF then (None, set_error REC_PARSER_ENOMEM p1)
                  else comment_loop buf1 p1))"
  by pat_completeness auto
termination
  by (relation "measure (\<lambda>(buf, p). parser_rem p)") (auto intro: getc_progress)

declare comment_loop.simps [simp del]

definition rec_parse_comment :: "rec_parser \<Rightarrow> rec_comment option \<times> rec_parser" where
  "rec_parse_comment p =
     (case rec_expect ''#'' p of
        (False, p1) \<Rightarrow> (None, p1)
      | (True, p1) \<Rightarrow>
          (case comment_loop rec_buf_new p1 of
             (None, p2) \<Rightarrow> (None, p2)
           | (Some buf, p2) \<Rightarrow> (rec_comment_new (Some (rec_buf_close buf)), p2)))"

section \<open>Fields\<close>

text \<open>The position reported for what starts here: \<open>character\<close>, plus one when it is not 0.\<close>

definition start_char :: "rec_parser \<Rightarrow> size_t" where
  "start_char p = (let l = parser_character p in if l \<noteq> 0 then l + 1 else l)"

definition rec_parse_field :: "rec_parser \<Rightarrow> rec_field option \<times> rec_parser" where
  "rec_parse_field p =
     (if parser_eof p \<or> rec_parser_error_p p then (None, p)
      else case rec_parse_field_name p of
             (None, p1) \<Rightarrow> (None, p1)
           | (Some n, p1) \<Rightarrow>
               (case rec_parse_field_value p1 of
                  (None, p2) \<Rightarrow> (None, p2)
                | (Some v, p2) \<Rightarrow>
                    (Some (rec_field_set_char_location
                             (rec_field_set_location
                                (rec_field_set_source (rec_field_new n v) (parser_source p2))
                                (parser_line p))
                             (start_char p)), p2)))"

section \<open>Progress of the parsing functions\<close>

text \<open>Unreading the value just read restores the parser exactly, counters included.\<close>

lemma ungetc_getc:
  assumes "rec_parser_getc p = (ci, p1)" and "ci \<noteq> EOF"
  shows "rec_parser_ungetc ci p1 = (ci, p)"
  using assms
  by (cases "parser_backend p")
     (auto simp: rec_parser_getc_def rec_parser_ungetc_def Let_def byte_int_def set_eof_def split: if_splits)

text \<open>
  What any parsing function does to the parser: it reads bytes, puts back the byte it has just
  read, and raises the error and end-of-file flags. \<open>reads p q\<close> is the closure of these steps.
\<close>

inductive reads :: "rec_parser \<Rightarrow> rec_parser \<Rightarrow> bool" where
  start: "reads p p"
| getc: "reads p q \<Longrightarrow> rec_parser_getc q = (ci, q1) \<Longrightarrow> reads p q1"
| ungetc: "reads p q \<Longrightarrow> rec_parser_getc q = (ci, q1) \<Longrightarrow> ci \<noteq> EOF \<Longrightarrow> char_of_int ci' = char_of_int ci
     \<Longrightarrow> reads p (snd (rec_parser_ungetc ci' (set_error e q1)))"
| error: "reads p q \<Longrightarrow> reads p (set_error e q)"
| eof: "reads p q \<Longrightarrow> reads p (set_eof q)"

lemmas reads_flags [simp] = reads.start reads.error reads.eof

lemma set_error_same [simp]: "parser_error p = e \<Longrightarrow> set_error e p = p"
  by (simp add: set_error_def)

lemma reads_trans: "reads p q \<Longrightarrow> reads q r \<Longrightarrow> reads p r"
proof -
  have "reads q r \<Longrightarrow> reads p q \<Longrightarrow> reads p r"
    by (induction rule: reads.induct) (auto intro: reads.intros)
  then show "reads p q \<Longrightarrow> reads q r \<Longrightarrow> reads p r" by blast
qed

lemma getc_reads: "rec_parser_getc p = (ci, p') \<Longrightarrow> reads p p'"
  by (rule reads.getc [OF reads.start])

lemma getc_ungetc_reads:
  assumes "rec_parser_getc p = (ci, p1)" and "ci \<noteq> EOF" and "char_of_int ci' = char_of_int ci"
  shows "reads p (snd (rec_parser_ungetc ci' p1))"
  using reads.ungetc [OF reads.start assms, of "parser_error p1"] by simp

definition advances :: "rec_parser \<Rightarrow> rec_parser \<Rightarrow> bool" where
  "advances p p' \<longleftrightarrow> parser_input p' = parser_input p \<and> parser_backend p' = parser_backend p \<and> parser_pos p \<le> parser_pos p'"

lemma advances_rem: "advances p p' \<Longrightarrow> parser_rem p' \<le> parser_rem p"
  by (auto simp: advances_def parser_rem_def)

lemma reads_advances: "reads p q \<Longrightarrow> advances p q"
proof (induction rule: reads.induct)
  case (getc p q ci q1)
  then show ?case using getc_rem [OF getc.hyps(2)] by (simp add: advances_def)
next
  case (ungetc p q ci q1 ci' e)
  then show ?case
    using getc_rem [OF ungetc.hyps(2)] ungetc_fields(3) [of "set_error e q1" ci'] by (auto simp: advances_def)
qed (auto simp: advances_def)

lemma reads_pos: "reads p q \<Longrightarrow> parser_pos p \<le> parser_pos q"
  using reads_advances by (simp add: advances_def)

lemma field_name_loop_reads: "reads p (snd (field_name_loop buf p))"
proof (induction buf p rule: field_name_loop.induct)
  case (1 buf p)
  obtain ci p1 where g: "rec_parser_getc p = (ci, p1)" by force
  note step = getc_reads [OF g]
  show ?case
    using 1 [OF g [symmetric] _ refl] step
    by (subst field_name_loop.simps) (auto simp: g Let_def split: prod.splits intro: reads_trans)
qed

lemma field_name_end_reads: "reads p (field_name_end p)"
proof -
  obtain ci p1 where g: "rec_parser_getc p = (ci, p1)" by force
  then show ?thesis
    using getc_reads [OF g] getc_ungetc_reads [OF g] reads.ungetc [OF reads.start g]
    by (auto simp: field_name_end_def g Let_def)
qed

lemma rec_parse_field_name_reads: "reads p (snd (rec_parse_field_name p))"
proof -
  obtain ci p1 where g: "rec_parser_getc p = (ci, p1)" by force
  note step = getc_reads [OF g]
  have loop: "reads p p2" "reads p (field_name_end p2)" if "field_name_loop buf p1 = (r, p2)" for buf r p2
    using step field_name_loop_reads [of p1 buf] field_name_end_reads [of p2] that
    by (auto intro: reads_trans)
  show ?thesis
    using step by (auto simp: rec_parse_field_name_def g Let_def split: prod.split option.split dest: loop)
qed

lemma rec_parse_field_name_progress:
  assumes "rec_parse_field_name p = (Some n, p')"
  shows "parser_pos p < parser_pos p'"
proof -
  obtain ci p1 where g: "rec_parser_getc p = (ci, p1)" by force
  with assms obtain buf r p2 where "ci \<noteq> EOF" "field_name_loop buf p1 = (r, p2)" "p' = field_name_end p2"
    by (auto simp: rec_parse_field_name_def Let_def split: prod.splits option.splits if_splits)
  then show ?thesis
    using getc_rem(3) [OF g] reads_pos [OF field_name_loop_reads [of p1 buf]] reads_pos [OF field_name_end_reads [of p2]]
    by simp
qed

lemma field_value_loop_reads: "reads p (snd (field_value_loop c0 nl buf p))"
proof (induction c0 nl buf p rule: field_value_loop.induct)
  case (1 c0 nl buf p)
  obtain ci p1 where g: "rec_parser_getc p = (ci, p1)" by force
  obtain ci2 p2 where g2: "rec_parser_getc p1 = (ci2, p2)" by force
  note IH = 1 [OF g [symmetric] _ refl]
  have step: "reads p p1" "reads p p2"
    using getc_reads [OF g] getc_reads [OF g2] by (auto intro: reads_trans)
  show ?case
  proof (cases "ci = EOF")
    case True
    then show ?thesis using step by (subst field_value_loop.simps) (simp add: g)
  next
    case False
    note u = ungetc_getc [OF g False] ungetc_getc [OF g2]
    let ?c = "char_of_int ci"
    consider (fin) "nl \<and> ?c \<noteq> CHR ''+''" | (bs) "\<not> (nl \<and> ?c \<noteq> CHR ''+'')" "?c = CHR 0x5C"
      | (plus) "?c = CHR ''+''" nl | (other) "\<not> (nl \<and> ?c \<noteq> CHR ''+'')" "?c \<noteq> CHR 0x5C" "\<not> (?c = CHR ''+'' \<and> nl)"
      by blast
    then show ?thesis
    proof cases
      case fin
      then show ?thesis using False u(1) by (subst field_value_loop.simps) (simp add: g Let_def)
    next
      case bs
      then show ?thesis
        using IH(1-2) [OF False bs g2 [symmetric]] step False u(2)
        by (subst field_value_loop.simps) (auto simp: g g2 Let_def split: prod.splits intro: reads_trans)
    next
      case plus
      then show ?thesis
        using IH(3-4) [OF False _ _ _ g2 [symmetric]] step False u(2)
        by (subst field_value_loop.simps) (auto simp: g g2 Let_def intro: reads_trans)
    next
      case other
      then show ?thesis
        using IH(5) [OF False other] step False
        by (subst field_value_loop.simps) (auto simp: g Let_def split: prod.splits intro: reads_trans)
    qed
  qed
qed

lemma rec_parse_field_value_reads: "reads p (snd (rec_parse_field_value p))"
  using field_value_loop_reads [of p NUL False rec_buf_new]
  by (auto simp: rec_parse_field_value_def split: prod.splits option.splits)

lemma rec_parse_field_reads: "reads p (snd (rec_parse_field p))"
  using rec_parse_field_name_reads [of p] rec_parse_field_value_reads [of "snd (rec_parse_field_name p)"]
  by (auto simp: rec_parse_field_def split: prod.splits option.splits intro: reads_trans)

lemma rec_parse_field_progress:
  assumes "rec_parse_field p = (Some f, p')"
  shows "parser_pos p < parser_pos p'"
proof -
  from assms obtain n p1 where "rec_parse_field_name p = (Some n, p1)" and "p' = snd (rec_parse_field_value p1)"
    by (auto simp: rec_parse_field_def split: prod.splits option.splits if_splits)
  with rec_parse_field_name_progress [of p n p1] reads_pos [OF rec_parse_field_value_reads [of p1]]
  show ?thesis by simp
qed

lemma comment_loop_reads: "reads p (snd (comment_loop buf p))"
proof (induction buf p rule: comment_loop.induct)
  case (1 buf p)
  obtain ci p1 where g: "rec_parser_getc p = (ci, p1)" by force
  obtain ci2 p2 where g2: "rec_parser_getc p1 = (ci2, p2)" by force
  have step: "reads p p1" "reads p p2"
    using getc_reads [OF g] getc_reads [OF g2] by (auto intro: reads_trans)
  show ?case
    using 1(1) [OF g [symmetric] _ refl _ g2 [symmetric]] 1(2) [OF g [symmetric] _ refl] step ungetc_getc [OF g2]
    by (subst comment_loop.simps) (auto simp: g g2 Let_def split: prod.splits intro: reads_trans)
qed

lemma rec_expect_hash:
  "rec_expect ''#'' p =
     (case rec_parser_getc p of (ci, p1) \<Rightarrow>
        if ci = EOF then (False, set_eof p1) else if char_of_int ci \<noteq> CHR ''#'' then (False, p) else (True, p1))"
  using ungetc_getc [of p] by (auto split: prod.splits)

lemma rec_parse_comment_reads: "reads p (snd (rec_parse_comment p))"
proof -
  obtain ci p1 where g: "rec_parser_getc p = (ci, p1)" by force
  have "reads p (snd (comment_loop rec_buf_new p1))"
    using getc_reads [OF g] comment_loop_reads by (rule reads_trans)
  then show ?thesis
    using getc_reads [OF g] getc_ungetc_reads [OF g]
    by (auto simp: rec_parse_comment_def g split: prod.splits option.splits)
qed

lemma rec_parse_comment_progress:
  assumes "rec_parser_getc p = (ci, p1)" and "ci \<noteq> EOF" and "char_of_int ci = CHR ''#''"
  shows "parser_pos p < parser_pos (snd (rec_parse_comment p))"
  using assms getc_rem(3) [OF assms(1,2)] reads_pos [OF comment_loop_reads [of p1 rec_buf_new]]
  by (auto simp: rec_parse_comment_def split: prod.splits option.splits)

text \<open>With input left, moving the position forward makes the remaining input shorter.\<close>

lemma rem_decreases:
  assumes "rec_parser_getc p = (ci, p1)" and "ci \<noteq> EOF" and "reads p q" and "parser_pos p < parser_pos q"
  shows "parser_rem q < parser_rem p"
  using getc_rem(2) [OF assms(1,2)] reads_advances [OF assms(3)] assms(4)
  by (auto simp: advances_def parser_rem_def)

section \<open>Records\<close>

function skip_blanks :: "int \<Rightarrow> rec_parser \<Rightarrow> int \<times> rec_parser" where
  "skip_blanks ci p =
     (if ci \<noteq> EOF \<and> (char_of_int ci = CHR '' '' \<or> char_of_int ci = TAB)
      then (case rec_parser_getc p of (ci1, p1) \<Rightarrow> skip_blanks ci1 p1)
      else (ci, p))"
  by pat_completeness auto
termination
proof (relation "measure (\<lambda>(ci, p). if ci = EOF then 0 else Suc (parser_rem p))", goal_cases)
  case (2 ci p ci1 p1)
  then have g: "rec_parser_getc p = (ci1, p1)" by simp
  from 2 getc_rem(2) [OF g] show ?case by (simp add: g)
qed simp

declare skip_blanks.simps [simp del]

lemma skip_blanks_reads: "reads p (snd (skip_blanks ci p))"
proof (induction ci p rule: skip_blanks.induct)
  case (1 ci p)
  then show ?case
    by (subst skip_blanks.simps) (auto split: prod.splits intro: reads_trans getc_reads)
qed

definition record_add :: "rec_record \<Rightarrow> nat \<Rightarrow> rdata \<Rightarrow> rec_record" where
  "record_add r t d = r\<lparr>record_mset := snd (rec_mset_append (record_mset r) t d MSET_ANY)\<rparr>"

text \<open>The loop \<open>(FIELD|COMMENT)*\<close>: \<open>ret\<close>, the record and the parser.\<close>

function record_loop :: "rec_record \<Rightarrow> rec_parser \<Rightarrow> bool \<times> rec_record \<times> rec_parser" where
  "record_loop new p =
     (case rec_parser_getc p of (ci, p1) \<Rightarrow>
        if ci = EOF then (True, new, p1)
        else
          let c = char_of_int ci in
          if c = CHR ''#''
          then (case rec_parse_comment (snd (rec_parser_ungetc ci p1)) of (co, p2) \<Rightarrow>
                  record_loop (case co of Some cm \<Rightarrow> record_add new MSET_COMMENT (DComment cm) | None \<Rightarrow> new) p2)
          else if c = CHR '' '' \<or> c = TAB
          then (case skip_blanks ci p1 of (ci2, p2) \<Rightarrow>
                  if ci2 = EOF \<or> char_of_int ci2 = NL then (True, new, p2)
                  else (False, new, set_error REC_PARSER_EFIELD p2))
          else if c = NL then (True, new, p1)
          else (case rec_parse_field (snd (rec_parser_ungetc ci p1)) of
                  (Some f, p2) \<Rightarrow> record_loop (record_add new MSET_FIELD (DField f)) p2
                | (None, p2) \<Rightarrow> (False, new, set_error REC_PARSER_EFIELD p2)))"
  by pat_completeness auto
termination
proof (relation "measure (\<lambda>(new, p). parser_rem p)", goal_cases)
  case (2 new p ci p1 c co p2)
  then have g: "rec_parser_getc p = (ci, p1)" and ci: "ci \<noteq> EOF" "char_of_int ci = CHR ''#''"
    and c: "rec_parse_comment p = (co, p2)" by (auto simp: ungetc_getc)
  show ?case
    using rem_decreases [OF g ci(1)] rec_parse_comment_progress [OF g ci] rec_parse_comment_reads [of p] c by simp
next
  case (3 new p ci p1 c fo p2 f)
  then have g: "rec_parser_getc p = (ci, p1)" and ci: "ci \<noteq> EOF" and f: "rec_parse_field p = (Some f, p2)"
    by (auto simp: ungetc_getc)
  show ?case
    using rem_decreases [OF g ci] rec_parse_field_progress [OF f] rec_parse_field_reads [of p] f by simp
qed simp

declare record_loop.simps [simp del]

definition rec_parse_record :: "rec_parser \<Rightarrow> rec_record option \<times> rec_parser" where
  "rec_parse_record p =
     (if parser_eof p \<or> rec_parser_error_p p then (None, p)
      else
        let new = rec_record_set_char_location
                    (rec_record_set_location (rec_record_set_source rec_record_new (parser_source p)) (parser_line p))
                    (start_char p)
        in case rec_parse_field p of
             (None, p1) \<Rightarrow> (None, set_error REC_PARSER_EFIELD p1)
           | (Some f, p1) \<Rightarrow>
               (case record_loop (record_add new MSET_FIELD (DField f)) p1 of
                  (ret, r, p2) \<Rightarrow> (if ret then Some r else None, p2)))"

section \<open>Parsing strings\<close>

definition rec_parse_field_name_str :: "string \<Rightarrow> string option" where
  "rec_parse_field_name_str str =
     (let s = strdup str;
          str2 = (if s \<noteq> [] \<and> last s = CHR '':'' then s else s @ '':'')
      in case rec_parse_field_name (rec_parser_new_str str2 (Some ''dummy'')) of
           (n, p1) \<Rightarrow> if \<not> parser_eof p1 then None else n)"

definition rec_parse_record_str :: "string \<Rightarrow> rec_record option" where
  "rec_parse_record_str str = fst (rec_parse_record (rec_parser_new_str str (Some ''dummy'')))"

end
