(* ===== verification/Rec_Writer.thy ===== *)
theory Rec_Writer
  imports Rec_Record_Laws Rec_Buf
begin

text \<open>
  The writer of \<open>src/rec-writer.c\<close>: comments, field names, fields and records in its four
  modes. The sink is a file stream (the text written so far) or a growable buffer.
  Every function returns the C result (\<open>false\<close> at the first failed output) and the writer.
  A stream is assumed to accept every byte.
\<close>

section \<open>Writer state and output\<close>

datatype rec_writer_mode = REC_WRITER_NORMAL | REC_WRITER_VALUES | REC_WRITER_VALUES_ROW | REC_WRITER_SEXP

datatype writer_sink = FileOut string | BufOut rec_buf

record rec_writer =
  writer_out :: writer_sink
  writer_eof :: bool
  writer_line :: int
  writer_collapse_p :: bool
  writer_skip_comments_p :: bool
  writer_mode :: rec_writer_mode

type_synonym wop = "rec_writer \<Rightarrow> bool \<times> rec_writer"

definition rec_writer_new_common :: "writer_sink \<Rightarrow> rec_writer" where
  "rec_writer_new_common out =
     \<lparr>writer_out = out, writer_eof = False, writer_line = 1, writer_collapse_p = False,
      writer_skip_comments_p = False, writer_mode = REC_WRITER_NORMAL\<rparr>"

definition rec_writer_new :: rec_writer where
  "rec_writer_new = rec_writer_new_common (FileOut [])"

definition rec_writer_new_str :: rec_writer where
  "rec_writer_new_str = rec_writer_new_common (BufOut rec_buf_new)"

text \<open>The text a writer has produced; \<open>rec_writer_destroy\<close> hands the buffer to its owner.\<close>

definition rec_writer_destroy :: "rec_writer \<Rightarrow> string" where
  "rec_writer_destroy w = (case writer_out w of FileOut s \<Rightarrow> s | BufOut b \<Rightarrow> rec_buf_close b)"

definition rec_writer_set_collapse :: "rec_writer \<Rightarrow> bool \<Rightarrow> rec_writer" where
  "rec_writer_set_collapse w v = w\<lparr>writer_collapse_p := v\<rparr>"

definition rec_writer_set_skip_comments :: "rec_writer \<Rightarrow> bool \<Rightarrow> rec_writer" where
  "rec_writer_set_skip_comments w v = w\<lparr>writer_skip_comments_p := v\<rparr>"

definition rec_writer_set_mode :: "rec_writer \<Rightarrow> rec_writer_mode \<Rightarrow> rec_writer" where
  "rec_writer_set_mode w m = w\<lparr>writer_mode := m\<rparr>"

definition rec_writer_putc :: "char \<Rightarrow> wop" where
  "rec_writer_putc c w =
     (case writer_out w of
        FileOut s \<Rightarrow> (True, w\<lparr>writer_out := FileOut (s @ [c])\<rparr>)
      | BufOut b \<Rightarrow> (case rec_buf_putc (schar c) b of (r, b') \<Rightarrow> (r \<noteq> EOF, w\<lparr>writer_out := BufOut b'\<rparr>)))"

definition rec_writer_puts :: "string \<Rightarrow> wop" where
  "rec_writer_puts s w =
     (case writer_out w of
        FileOut t \<Rightarrow> (True, w\<lparr>writer_out := FileOut (t @ strdup s)\<rparr>)
      | BufOut b \<Rightarrow> (case rec_buf_puts s b of (r, b') \<Rightarrow> (r \<noteq> EOF, w\<lparr>writer_out := BufOut b'\<rparr>)))"

text \<open>\<open>if (!a) return false; b\<close>, and a conditional output.\<close>

definition wthen :: "wop \<Rightarrow> wop \<Rightarrow> wop" where
  "wthen a b w = (case a w of (ok, w') \<Rightarrow> if ok then b w' else (False, w'))"

definition wwhen :: "bool \<Rightarrow> wop \<Rightarrow> wop" where
  "wwhen c a w = (if c then a w else (True, w))"

definition wdone :: wop where
  "wdone w = (True, w)"

section \<open>Comments\<close>

fun write_comment_sexp :: "string \<Rightarrow> wop" where
  "write_comment_sexp [] = wdone"
| "write_comment_sexp (c # cs) =
     wthen (if c = NL then rec_writer_puts [CHR 0x5C, CHR ''n''] else rec_writer_putc c)
           (write_comment_sexp cs)"

fun write_comment_lines :: "bool \<Rightarrow> string list \<Rightarrow> wop" where
  "write_comment_lines first [] = wdone"
| "write_comment_lines first (l # ls) =
     wthen (wwhen (\<not> first) (rec_writer_putc NL))
       (wthen (rec_writer_putc CHR ''#'')
          (wthen (rec_writer_puts l) (write_comment_lines False ls)))"

definition rec_write_comment :: "rec_comment \<Rightarrow> wop" where
  "rec_write_comment c w =
     (if writer_mode w = REC_WRITER_SEXP
      then wthen (rec_writer_puts ''(comment '')
             (wthen (rec_writer_putc CHR 0x22)
                (wthen (write_comment_sexp c) (rec_writer_puts [CHR 0x22, CHR '')'']))) w
      else write_comment_lines True (strsep_all (\<lambda>x. x = NL) c) w)"

section \<open>Fields\<close>

definition rec_write_field_name :: "string \<Rightarrow> wop" where
  "rec_write_field_name n w =
     (let sexp = (writer_mode w = REC_WRITER_SEXP) in
      wthen (wwhen sexp (rec_writer_putc CHR 0x22))
        (wthen (rec_writer_puts n)
           (if sexp then rec_writer_putc CHR 0x22 else rec_writer_putc CHR '':'')) w)"

fun write_value :: "rec_writer_mode \<Rightarrow> string \<Rightarrow> wop" where
  "write_value mode [] = wdone"
| "write_value mode (c # cs) =
     wthen
       (if c = NL
        then (if mode = REC_WRITER_SEXP then rec_writer_puts [CHR 0x5C, CHR ''n'']
              else if mode = REC_WRITER_NORMAL then rec_writer_puts [NL, CHR ''+'', CHR '' '']
              else rec_writer_putc NL)
        else if (c = CHR 0x22 \<or> c = CHR 0x5C) \<and> mode = REC_WRITER_SEXP
        then wthen (rec_writer_putc CHR 0x5C) (rec_writer_putc c)
        else rec_writer_putc c)
       (write_value mode cs)"

definition rec_write_field :: "rec_field \<Rightarrow> wop" where
  "rec_write_field f w =
     (let mode = writer_mode w; sexp = (mode = REC_WRITER_SEXP) in
      wthen (wwhen sexp
               (wthen (rec_writer_puts ''(field '')
                  (wthen (rec_writer_puts (rec_field_get_char_location_str f)) (rec_writer_putc CHR '' ''))))
        (wthen (wwhen (mode \<noteq> REC_WRITER_VALUES \<and> mode \<noteq> REC_WRITER_VALUES_ROW)
                  (rec_write_field_name (field_name f)))
           (wthen (wwhen sexp (wthen (rec_writer_putc CHR '' '') (rec_writer_putc CHR 0x22)))
              (wthen (wwhen (length (field_value f) > 0 \<and> mode = REC_WRITER_NORMAL) (rec_writer_putc CHR '' ''))
                 (wthen (write_value mode (field_value f))
                    (wthen (wwhen sexp (rec_writer_putc CHR 0x22)) (wwhen sexp (rec_writer_puts '')'')))))))
        w)"

section \<open>Records\<close>

text \<open>
  The loop over the elements, with the counters \<open>num_field\<close> and \<open>num_elem\<close>. A failed element
  leaves the loop (\<open>ret = false; break\<close>); a failed separator returns at once. Both give
  \<open>false\<close>; only the first still closes the s-expression.
\<close>

fun write_elems :: "nat \<Rightarrow> nat \<Rightarrow> nat \<Rightarrow> nat \<Rightarrow> rdata mset_elem list \<Rightarrow> rec_writer \<Rightarrow> bool \<times> bool \<times> rec_writer" where
  "write_elems num_fields num_elems num_field num_elem [] w = (False, True, w)"
| "write_elems num_fields num_elems num_field num_elem (e # es) w =
     (let mode = writer_mode w; skip = writer_skip_comments_p w in
      case elem_data e of
        DField f \<Rightarrow>
          (case rec_write_field f w of
             (False, w1) \<Rightarrow> (False, False, w1)
           | (True, w1) \<Rightarrow>
               (case (if mode = REC_WRITER_VALUES_ROW \<and> num_field \<noteq> num_fields - 1
                      then rec_writer_putc CHR '' '' w1
                      else if (skip \<and> num_field \<noteq> num_fields - 1) \<or> (\<not> skip \<and> num_elem \<noteq> num_elems - 1)
                      then rec_writer_putc NL w1 else (True, w1)) of
                  (False, w2) \<Rightarrow> (True, False, w2)
                | (True, w2) \<Rightarrow> write_elems num_fields num_elems (Suc num_field) (Suc num_elem) es w2))
      | DComment c \<Rightarrow>
          if \<not> skip \<and> mode \<noteq> REC_WRITER_VALUES \<and> mode \<noteq> REC_WRITER_VALUES_ROW
          then (case rec_write_comment c w of
                  (False, w1) \<Rightarrow> (False, False, w1)
                | (True, w1) \<Rightarrow>
                    (case (if num_elem \<noteq> num_elems - 1 then rec_writer_putc NL w1 else (True, w1)) of
                       (False, w2) \<Rightarrow> (True, False, w2)
                     | (True, w2) \<Rightarrow> write_elems num_fields num_elems num_field (Suc num_elem) es w2))
          else write_elems num_fields num_elems num_field (Suc num_elem) es w)"

definition rec_write_record :: "rec_record \<Rightarrow> wop" where
  "rec_write_record r w =
     (let sexp = (writer_mode w = REC_WRITER_SEXP) in
      wthen (wwhen sexp
               (wthen (rec_writer_puts ''(record '')
                  (wthen (rec_writer_puts (rec_record_char_location_str r)) (rec_writer_puts [CHR '' '', CHR ''('', NL]))))
        (\<lambda>w1. case write_elems (rec_record_num_fields r) (rec_record_num_elems r) 0 0
                    (mset_elems (record_mset r)) w1 of
           (True, ret, w2) \<Rightarrow> (False, w2)
         | (False, ret, w2) \<Rightarrow>
             (case wwhen sexp (rec_writer_puts ''))'') w2 of
                (False, w3) \<Rightarrow> (False, w3)
              | (True, w3) \<Rightarrow> (ret, w3))) w)"

section \<open>Writing to strings\<close>

definition rec_write_field_str :: "rec_field \<Rightarrow> rec_writer_mode \<Rightarrow> string" where
  "rec_write_field_str f mode =
     rec_writer_destroy (snd (rec_write_field f (rec_writer_set_mode rec_writer_new_str mode)))"

definition rec_write_field_name_str :: "string \<Rightarrow> rec_writer_mode \<Rightarrow> string" where
  "rec_write_field_name_str n mode =
     rec_writer_destroy (snd (rec_write_field_name n (rec_writer_set_mode rec_writer_new_str mode)))"

definition rec_write_comment_str :: "rec_comment \<Rightarrow> rec_writer_mode \<Rightarrow> string" where
  "rec_write_comment_str c mode =
     rec_writer_destroy (snd (rec_write_comment c (rec_writer_set_mode rec_writer_new_str mode)))"

text \<open>Turning fields and records into comments (\<open>src/rec-field.c\<close>, \<open>src/rec-record.c\<close>).\<close>

definition drop_last_nl :: "string \<Rightarrow> string" where
  "drop_last_nl s = (if s \<noteq> [] \<and> last s = NL then butlast s else s)"

definition rec_field_to_comment :: "rec_field \<Rightarrow> rec_comment option" where
  "rec_field_to_comment f = rec_comment_new (Some (drop_last_nl (rec_write_field_str f REC_WRITER_NORMAL)))"

fun record_comment_loop :: "rdata list \<Rightarrow> rec_buf \<Rightarrow> rec_buf" where
  "record_comment_loop [] b = b"
| "record_comment_loop (d # ds) b =
     record_comment_loop ds
       (snd (rec_buf_putc (schar NL)
          (snd (rec_buf_puts
             (case d of DField f \<Rightarrow> rec_write_field_str f REC_WRITER_NORMAL
                      | DComment c \<Rightarrow> rec_write_comment_str c REC_WRITER_NORMAL) b))))"

definition rec_record_to_comment :: "rec_record \<Rightarrow> rec_comment option" where
  "rec_record_to_comment r =
     rec_comment_new (Some (drop_last_nl
       (rec_buf_close (record_comment_loop (map elem_data (mset_elems (record_mset r))) rec_buf_new))))"

end
