(* ===== verification/Rec_Writer_Laws.thy ===== *)
theory Rec_Writer_Laws
  imports Rec_Writer
begin

text \<open>
  What the writer produces. \<open>outputs fl a s\<close> says that the operation \<open>a\<close>, run on any writer with
  the flags \<open>fl\<close>, succeeds and appends exactly the text \<open>s\<close>. The rec format of comments,
  fields and records is given as functions on the data (\<open>comment_text\<close>, \<open>field_text\<close>,
  \<open>record_text\<close>), and the writer's loops are shown to produce it.
\<close>

section \<open>Output triples\<close>

abbreviation writer_text :: "rec_writer \<Rightarrow> string" where
  "writer_text \<equiv> rec_writer_destroy"

definition writer_ok :: "rec_writer \<Rightarrow> bool" where
  "writer_ok w = (case writer_out w of FileOut s \<Rightarrow> True | BufOut b \<Rightarrow> rec_buf_wf b)"

definition wflags :: "rec_writer \<Rightarrow> rec_writer_mode \<times> bool \<times> bool" where
  "wflags w = (writer_mode w, writer_skip_comments_p w, writer_collapse_p w)"

definition outputs :: "rec_writer_mode \<times> bool \<times> bool \<Rightarrow> wop \<Rightarrow> string \<Rightarrow> bool" where
  "outputs fl a s \<longleftrightarrow>
     (\<forall>w. writer_ok w \<longrightarrow> wflags w = fl \<longrightarrow>
        fst (a w) \<and> writer_text (snd (a w)) = writer_text w @ s \<and> writer_ok (snd (a w)) \<and> wflags (snd (a w)) = fl)"

text \<open>A string of printable bytes: C strings without the byte that reads as \<open>EOF\<close>.\<close>

definition plain :: "string \<Rightarrow> bool" where
  "plain s = list_all (\<lambda>c. c \<noteq> NUL \<and> c \<noteq> CHR 0xFF) s"

lemma plain_simps [simp]:
  "plain []" "plain (c # s) \<longleftrightarrow> c \<noteq> NUL \<and> c \<noteq> CHR 0xFF \<and> plain s" "plain (s @ t) \<longleftrightarrow> plain s \<and> plain t"
  by (simp_all add: plain_def)

lemma plain_cstring: "plain s \<Longrightarrow> cstring s \<and> CHR 0xFF \<notin> set s"
  by (auto simp: plain_def cstring_def list_all_iff)

lemma outputsI:
  assumes "\<And>w. writer_ok w \<Longrightarrow> wflags w = fl \<Longrightarrow>
    \<exists>w'. a w = (True, w') \<and> writer_text w' = writer_text w @ s \<and> writer_ok w' \<and> wflags w' = fl"
  shows "outputs fl a s"
  using assms unfolding outputs_def by fastforce

lemma outputsE:
  assumes "outputs fl a s" and "writer_ok w" and "wflags w = fl"
  obtains w' where "a w = (True, w')" "writer_text w' = writer_text w @ s" "writer_ok w'" "wflags w' = fl"
  using assms unfolding outputs_def by (metis (full_types) prod.collapse)

lemma outputs_putc [intro]:
  assumes "c \<noteq> CHR 0xFF"
  shows "outputs fl (rec_writer_putc c) [c]"
proof (rule outputsI)
  fix w assume w: "writer_ok w" "wflags w = fl"
  show "\<exists>w'. rec_writer_putc c w = (True, w') \<and> writer_text w' = writer_text w @ [c] \<and> writer_ok w' \<and> wflags w' = fl"
  proof (cases "writer_out w")
    case (FileOut s)
    with w show ?thesis by (simp add: rec_writer_putc_def rec_writer_destroy_def writer_ok_def wflags_def)
  next
    case (BufOut b)
    have "schar c \<noteq> EOF" using assms by (simp add: schar_EOF_iff)
    with BufOut w cbuf.putc_ret [of "schar c" b] cbuf.contents_putc [of b "schar c"] cbuf.invar_putc [of b "schar c"]
    show ?thesis
      by (simp add: rec_writer_putc_def rec_writer_destroy_def writer_ok_def wflags_def case_prod_beta)
  qed
qed

lemma outputs_puts [intro]:
  assumes "plain s"
  shows "outputs fl (rec_writer_puts s) s"
proof (rule outputsI)
  fix w assume w: "writer_ok w" "wflags w = fl"
  note s = plain_cstring [OF assms]
  show "\<exists>w'. rec_writer_puts s w = (True, w') \<and> writer_text w' = writer_text w @ s \<and> writer_ok w' \<and> wflags w' = fl"
  proof (cases "writer_out w")
    case (FileOut t)
    with w s show ?thesis by (simp add: rec_writer_puts_def rec_writer_destroy_def writer_ok_def wflags_def)
  next
    case (BufOut b)
    with w s rec_buf_puts_contents [of b s] show ?thesis
      by (simp add: rec_writer_puts_def rec_writer_destroy_def writer_ok_def wflags_def case_prod_beta EOF_def)
  qed
qed

lemma outputs_then:
  assumes "outputs fl a s" and "outputs fl b t"
  shows "outputs fl (wthen a b) (s @ t)"
proof (rule outputsI)
  fix w assume "writer_ok w" "wflags w = fl"
  with assms(1) obtain w1 where 1: "a w = (True, w1)" "writer_text w1 = writer_text w @ s" "writer_ok w1" "wflags w1 = fl"
    by (rule outputsE)
  from assms(2) 1(3,4) obtain w2 where "b w1 = (True, w2)" "writer_text w2 = writer_text w1 @ t" "writer_ok w2" "wflags w2 = fl"
    by (rule outputsE)
  with 1 show "\<exists>w'. wthen a b w = (True, w') \<and> writer_text w' = writer_text w @ s @ t \<and> writer_ok w' \<and> wflags w' = fl"
    by (simp add: wthen_def)
qed

lemma outputs_done: "outputs fl wdone []"
  by (rule outputsI) (simp add: wdone_def)

lemma outputs_when: "(c \<Longrightarrow> outputs fl a s) \<Longrightarrow> outputs fl (wwhen c a) (if c then s else [])"
  by (auto simp: outputs_def wwhen_def)

lemma wwhen_simps [simp]: "wwhen False a = wdone" "wwhen True a = a"
  by (auto simp: wwhen_def wdone_def fun_eq_iff)

lemma outputs_cong:
  assumes "\<And>w. wflags w = fl \<Longrightarrow> a w = b w" and "outputs fl b s"
  shows "outputs fl a s"
  using assms by (simp add: outputs_def)

section \<open>The rec format\<close>

definition value_text :: "string \<Rightarrow> string" where
  "value_text v = concat (map (\<lambda>c. if c = NL then [NL, CHR ''+'', CHR '' ''] else [c]) v)"

definition field_text :: "rec_field \<Rightarrow> string" where
  "field_text f = field_name f @ [CHR '':''] @ (if field_value f = [] then [] else CHR '' '' # value_text (field_value f))"

definition comment_body :: "string \<Rightarrow> string" where
  "comment_body c = concat (map (\<lambda>x. if x = NL then [NL, CHR ''#''] else [x]) c)"

definition comment_text :: "rec_comment \<Rightarrow> string" where
  "comment_text c = CHR ''#'' # comment_body c"

definition rdata_text :: "rdata \<Rightarrow> string" where
  "rdata_text d = (case d of DField f \<Rightarrow> field_text f | DComment c \<Rightarrow> comment_text c)"

fun join_lines :: "string list \<Rightarrow> string" where
  "join_lines [] = []"
| "join_lines [l] = l"
| "join_lines (l # ls) = l @ [NL] @ join_lines ls"

definition record_text :: "rec_record \<Rightarrow> string" where
  "record_text r = join_lines (map (rdata_text \<circ> elem_data) (mset_elems (record_mset r)))"

text \<open>The bytes of a record are printable: the precondition for writing to a buffer.\<close>

definition rdata_plain :: "rdata \<Rightarrow> bool" where
  "rdata_plain d = (case d of DField f \<Rightarrow> plain (field_name f) \<and> plain (field_value f) | DComment c \<Rightarrow> plain c)"

definition record_plain :: "rec_record \<Rightarrow> bool" where
  "record_plain r = list_all (rdata_plain \<circ> elem_data) (mset_elems (record_mset r))"

lemma value_text_simps [simp]:
  "value_text [] = []"
  "value_text (c # v) = (if c = NL then [NL, CHR ''+'', CHR '' ''] else [c]) @ value_text v"
  by (simp_all add: value_text_def)

lemma comment_body_simps [simp]:
  "comment_body [] = []"
  "comment_body (c # v) = (if c = NL then [NL, CHR ''#''] else [c]) @ comment_body v"
  by (simp_all add: comment_body_def)

section \<open>The writer produces the rec format\<close>

lemma write_value_outputs:
  "plain v \<Longrightarrow> outputs fl (write_value REC_WRITER_NORMAL v) (value_text v)"
proof (induction v)
  case Nil
  show ?case by (simp add: outputs_done)
next
  case (Cons c v)
  then show ?case
    unfolding write_value.simps value_text_simps
    by (intro outputs_then) (auto intro!: outputs_putc outputs_puts)
qed

lemma rec_write_field_name_outputs:
  assumes "plain n" and "fl = (REC_WRITER_NORMAL, sk, co)"
  shows "outputs fl (rec_write_field_name n) (n @ [CHR '':''])"
proof (rule outputs_cong)
  have "outputs fl (wthen wdone (wthen (rec_writer_puts n) (rec_writer_putc CHR '':''))) ([] @ n @ [CHR '':''])"
    using assms(1) by (intro outputs_then outputs_done outputs_puts outputs_putc) simp_all
  then show "outputs fl (wthen wdone (wthen (rec_writer_puts n) (rec_writer_putc CHR '':''))) (n @ [CHR '':''])"
    by simp
qed (simp add: rec_write_field_name_def wflags_def assms(2))

lemma rec_write_field_outputs:
  assumes "plain (field_name f)" and "plain (field_value f)" and "fl = (REC_WRITER_NORMAL, sk, co)"
  shows "outputs fl (rec_write_field f) (field_text f)"
proof (rule outputs_cong)
  let ?v = "field_value f"
  let ?op = "wthen wdone (wthen (rec_write_field_name (field_name f)) (wthen wdone
      (wthen (wwhen (?v \<noteq> []) (rec_writer_putc CHR '' '')) (wthen (write_value REC_WRITER_NORMAL ?v) (wthen wdone wdone)))))"
  have "outputs fl ?op ([] @ (field_name f @ [CHR '':'']) @ [] @ (if ?v \<noteq> [] then [CHR '' ''] else []) @ value_text ?v @ [] @ [])"
    by (intro outputs_then outputs_done write_value_outputs outputs_when outputs_putc
          rec_write_field_name_outputs [OF assms(1,3)] assms(2)) simp_all
  moreover have "[] @ (field_name f @ [CHR '':'']) @ [] @ (if ?v \<noteq> [] then [CHR '' ''] else []) @ value_text ?v @ [] @ [] = field_text f"
    by (simp add: field_text_def)
  ultimately show "outputs fl ?op (field_text f)" by simp
qed (simp add: rec_write_field_def Let_def wflags_def assms(3))

lemma comment_body_strsep:
  "join_lines (map (Cons CHR ''#'') (strsep_all (\<lambda>x. x = NL) c)) = CHR ''#'' # comment_body c"
proof (induction c)
  case Nil
  then show ?case by simp
next
  case (Cons x c)
  obtain l ls where l: "strsep_all (\<lambda>x. x = NL) c = l # ls"
    by (cases "strsep_all (\<lambda>x. x = NL) c") simp_all
  show ?case
    using Cons by (cases ls) (auto simp: l)
qed

lemma write_comment_lines_outputs:
  "list_all plain ls \<Longrightarrow> ls \<noteq> [] \<Longrightarrow>
   outputs fl (write_comment_lines first ls) ((if first then [] else [NL]) @ join_lines (map (Cons CHR ''#'') ls))"
proof (induction ls arbitrary: first)
  case Nil
  then show ?case by simp
next
  case (Cons l ls)
  let ?rest = "if ls = [] then [] else NL # join_lines (map (Cons CHR ''#'') ls)"
  have "outputs fl (write_comment_lines False ls) ?rest"
    using Cons.IH [of False] Cons.prems by (cases "ls = []") (simp_all add: outputs_done)
  then have "outputs fl (write_comment_lines first (l # ls))
      ((if \<not> first then [NL] else []) @ [CHR ''#''] @ l @ ?rest)"
    unfolding write_comment_lines.simps
    using Cons.prems by (intro outputs_then outputs_when outputs_putc outputs_puts) auto
  moreover have "(if \<not> first then [NL] else []) @ [CHR ''#''] @ l @ ?rest =
      (if first then [] else [NL]) @ join_lines (map (Cons CHR ''#'') (l # ls))"
    by (cases ls) auto
  ultimately show ?case by simp
qed

lemma rec_write_comment_outputs:
  assumes "plain c" and "fl = (REC_WRITER_NORMAL, sk, co)"
  shows "outputs fl (rec_write_comment c) (comment_text c)"
proof (rule outputs_cong)
  have "list_all plain (strsep_all (\<lambda>x. x = NL) c)"
    using assms(1) strsep_all_elems [of _ "\<lambda>x. x = NL" c] by (auto simp: plain_def list_all_iff)
  from write_comment_lines_outputs [OF this, of fl True]
  show "outputs fl (write_comment_lines True (strsep_all (\<lambda>x. x = NL) c)) (comment_text c)"
    by (simp add: comment_body_strsep comment_text_def)
qed (simp add: rec_write_comment_def wflags_def assms(2))

lemma join_lines_Cons: "join_lines (l # ls) = l @ (if ls = [] then [] else NL # join_lines ls)"
  by (cases ls) simp_all

lemma write_elems_outputs:
  assumes "list_all record_elem_ok es" and "list_all (rdata_plain \<circ> elem_data) es"
    and "k + length es = n" and "writer_ok w" and "wflags w = (REC_WRITER_NORMAL, False, co)"
  shows "\<exists>w'. write_elems nf n j k es w = (False, True, w')
    \<and> writer_text w' = writer_text w @ join_lines (map (rdata_text \<circ> elem_data) es)
    \<and> writer_ok w' \<and> wflags w' = (REC_WRITER_NORMAL, False, co)"
  using assms
proof (induction es arbitrary: j k w)
  case Nil
  then show ?case by simp
next
  case (Cons e es)
  let ?fl = "(REC_WRITER_NORMAL, False, co)"
  let ?sep = "\<lambda>w. if k \<noteq> n - 1 then rec_writer_putc NL w else (True, w)"
  have sep: "outputs ?fl ?sep (if es = [] then [] else [NL])"
  proof -
    have "k \<noteq> n - 1 \<longleftrightarrow> es \<noteq> []" using Cons.prems(3) by (cases es) auto
    then show ?thesis
      using outputs_putc [of NL ?fl] outputs_done [of ?fl]
      by (cases "es = []") (simp_all add: outputs_def wdone_def)
  qed
  have flags: "writer_mode w = REC_WRITER_NORMAL" "\<not> writer_skip_comments_p w"
    using Cons.prems(5) by (simp_all add: wflags_def)
  have "outputs ?fl (case elem_data e of DField f \<Rightarrow> rec_write_field f | DComment c \<Rightarrow> rec_write_comment c) (rdata_text (elem_data e))"
    using Cons.prems(2)
    by (cases "elem_data e")
       (simp_all add: rdata_text_def rdata_plain_def rec_write_field_outputs [OF _ _ refl] rec_write_comment_outputs [OF _ refl])
  then obtain w1 where w1: "(case elem_data e of DField f \<Rightarrow> rec_write_field f | DComment c \<Rightarrow> rec_write_comment c) w = (True, w1)"
    "writer_text w1 = writer_text w @ rdata_text (elem_data e)" "writer_ok w1" "wflags w1 = ?fl"
    using Cons.prems(4,5) by (rule outputsE)
  from sep w1(3,4) obtain w2 where w2: "?sep w1 = (True, w2)"
    "writer_text w2 = writer_text w1 @ (if es = [] then [] else [NL])" "writer_ok w2" "wflags w2 = ?fl"
    by (rule outputsE)
  obtain j' where step: "write_elems nf n j k (e # es) w = write_elems nf n j' (Suc k) es w2"
    using w1(1) w2(1) flags by (cases "elem_data e") (auto simp: Let_def)
  obtain w' where w': "write_elems nf n j' (Suc k) es w2 = (False, True, w')"
    "writer_text w' = writer_text w2 @ join_lines (map (rdata_text \<circ> elem_data) es)" "writer_ok w'" "wflags w' = ?fl"
    using Cons.IH [of "Suc k" w2 j'] Cons.prems w2(3,4) by (auto simp: comp_def)
  have "writer_text w' = writer_text w @ join_lines (map (rdata_text \<circ> elem_data) (e # es))"
    using w1(2) w2(2) w'(2) by (simp add: join_lines_Cons)
  then show ?case unfolding step w'(1) using w'(3,4) by blast
qed

lemma rec_write_record_outputs:
  assumes "rec_record_wf r" and "record_plain r" and "fl = (REC_WRITER_NORMAL, False, co)"
  shows "outputs fl (rec_write_record r) (record_text r)"
proof (rule outputsI)
  fix w assume w: "writer_ok w" "wflags w = fl"
  have ok: "record_mset_ok (record_mset r)" using assms(1) by (simp add: rec_record_wf_def)
  have "rec_record_num_elems r = length (mset_elems (record_mset r))"
    using mset_wf_count [OF record_mset_ok_wf(1) [OF ok], of 0]
    by (simp add: rec_record_num_elems_def rec_mset_count_def MAX_NTYPES_def)
  with write_elems_outputs [of "mset_elems (record_mset r)" 0 _ w co] ok assms(2,3) w
  obtain w' where "write_elems (rec_record_num_fields r) (rec_record_num_elems r) 0 0 (mset_elems (record_mset r)) w = (False, True, w')"
    and "writer_text w' = writer_text w @ record_text r" "writer_ok w'" "wflags w' = fl"
    by (fastforce simp: record_mset_ok_def record_plain_def record_text_def)
  then show "\<exists>w'. rec_write_record r w = (True, w') \<and> writer_text w' = writer_text w @ record_text r \<and> writer_ok w' \<and> wflags w' = fl"
    using w(2) assms(3) by (simp add: rec_write_record_def wflags_def wthen_def wdone_def)
qed

end
