(* ===== verification/Rec_Parser_Laws.thy ===== *)
theory Rec_Parser_Laws
  imports Rec_Parser Rec_Writer_Laws
begin

text \<open>
  Reading back the rec format: the parser on the unread input \<open>rest p\<close>. \<open>adv s p\<close> is the
  parser after reading \<open>s\<close>, with its position, line and character counters moved on, and
  \<open>fin t s p\<close> the one that also met the end of the input when nothing (\<open>t\<close>) is left.
\<close>

section \<open>The unread input\<close>

definition rest :: "rec_parser \<Rightarrow> string" where
  "rest p = drop (parser_pos p) (parser_input p)"

definition adv :: "string \<Rightarrow> rec_parser \<Rightarrow> rec_parser" where
  "adv s p = p\<lparr>parser_pos := parser_pos p + length s,
               parser_line := parser_line p + of_nat (count_list s NL),
               parser_character := parser_character p + of_nat (length s)\<rparr>"

definition ready :: "rec_parser \<Rightarrow> bool" where
  "ready p \<longleftrightarrow> parser_backend p \<noteq> InNone \<and> \<not> parser_eof p \<and> parser_error p = REC_PARSER_NOERROR
     \<and> length (parser_input p) < 2 ^ 64"

definition fin :: "string \<Rightarrow> string \<Rightarrow> rec_parser \<Rightarrow> rec_parser" where
  "fin t s p = (if t = [] then set_eof (adv s p) else adv s p)"

lemma adv_Nil [simp]: "adv [] p = p"
  by (simp add: adv_def)

lemma adv_adv [simp]: "adv t (adv s p) = adv (s @ t) p"
  by (simp add: adv_def algebra_simps)

lemma adv_fields [simp]:
  "parser_backend (adv s p) = parser_backend p" "parser_input (adv s p) = parser_input p"
  "parser_eof (adv s p) = parser_eof p" "parser_error (adv s p) = parser_error p"
  "parser_source (adv s p) = parser_source p" "parser_prev_descriptor (adv s p) = parser_prev_descriptor p"
  by (simp_all add: adv_def)

lemma ready_adv [simp]: "ready (adv s p) = ready p"
  by (simp add: ready_def)

lemma ready_simps: "ready p \<Longrightarrow> parser_backend p \<noteq> InNone \<and> \<not> parser_eof p \<and> \<not> rec_parser_error_p p"
  by (simp add: ready_def rec_parser_error_p_def)

lemma rest_adv: "rest p = s @ t \<Longrightarrow> rest (adv s p) = t"
proof -
  assume "rest p = s @ t"
  moreover have "rest (adv s p) = drop (length s) (rest p)"
    by (simp add: rest_def adv_def add.commute)
  ultimately show ?thesis by simp
qed

lemma rest_set_eof [simp]: "rest (set_eof p) = rest p"
  by (simp add: rest_def)

lemma rest_length: "rest p = s \<Longrightarrow> length s \<le> length (parser_input p)"
  by (auto simp: rest_def)

lemma fin_adv [simp]: "fin t s (adv r p) = fin t (r @ s) p"
  by (simp add: fin_def)

lemma fin_more: "t \<noteq> [] \<Longrightarrow> fin t s p = adv s p"
  by (simp add: fin_def)

lemma char_of_byte_int [simp]: "char_of_int (byte_int b c) = c"
  by (simp add: byte_int_def)

lemma byte_int_EOF: "c \<noteq> CHR 0xFF \<Longrightarrow> byte_int b c \<noteq> EOF"
  by (simp add: byte_int_def schar_EOF_iff)

lemma getc_Cons:
  assumes "ready p" and "rest p = c # cs" and "c \<noteq> CHR 0xFF"
  shows "rec_parser_getc p = (byte_int (parser_backend p) c, adv [c] p)"
proof -
  have "parser_pos p < length (parser_input p)"
    using assms(2) by (metis drop_all list.simps(3) not_le_imp_less rest_def)
  moreover have "parser_input p ! parser_pos p = c"
    using assms(2) by (metis calculation nth_via_drop rest_def)
  ultimately show ?thesis
    using ready_simps [OF assms(1)] byte_int_EOF [OF assms(3)]
    by (simp add: rec_parser_getc_def Let_def adv_def)
qed

lemma getc_Nil:
  assumes "ready p" and "rest p = []"
  shows "rec_parser_getc p = (EOF, set_eof p)"
  using assms ready_simps [OF assms(1)] by (simp add: rec_parser_getc_def rest_def)

lemma getc_eof_Nil:
  assumes "ready p" and "rest p = []"
  shows "rec_parser_getc (set_eof p) = (EOF, set_eof p)"
  using assms ready_simps [OF assms(1)] by (simp add: rec_parser_getc_def rest_def set_eof_def)

lemma ungetc_adv:
  assumes "ready p" and "rest p = c # cs" and "c \<noteq> CHR 0xFF"
  shows "rec_parser_ungetc (byte_int (parser_backend p) c) (adv [c] p) = (byte_int (parser_backend p) c, p)"
  using ungetc_getc [OF getc_Cons [OF assms] byte_int_EOF [OF assms(3)]] .

section \<open>Buffers\<close>

text \<open>\<open>holds b s\<close>: the buffer is well formed and contains \<open>s\<close>.\<close>

definition holds :: "rec_buf \<Rightarrow> string \<Rightarrow> bool" where
  "holds b s \<longleftrightarrow> rec_buf_wf b \<and> rec_buf_close b = s"

lemma holds_new [simp]: "holds rec_buf_new []"
  using cbuf.contents_new by (simp add: holds_def)

lemma holds_close: "holds b s \<Longrightarrow> rec_buf_close b = s"
  by (simp add: holds_def)

lemma holds_putc:
  assumes "holds b s" and "c \<noteq> CHR 0xFF"
  obtains r b' where "rec_buf_putc (schar c) b = (r, b')" "r \<noteq> EOF" "holds b' (s @ [c])"
proof -
  have "schar c \<noteq> EOF" using assms(2) by (simp add: schar_EOF_iff)
  with assms(1) that [of "fst (rec_buf_putc (schar c) b)" "snd (rec_buf_putc (schar c) b)"] show ?thesis
    by (simp add: holds_def cbuf.putc_ret cbuf.invar_putc cbuf.contents_putc)
qed

lemma holds_rewind: "holds b (s @ [c]) \<Longrightarrow> length s < 2 ^ 64 - 1 \<Longrightarrow> holds (rec_buf_rewind b 1) s"
  using cbuf.invar_rewind [of b 1] cbuf.contents_rewind [of b 1] by (simp add: holds_def)

section \<open>Field names\<close>

definition fname_char :: "char \<Rightarrow> bool" where
  "fname_char c \<longleftrightarrow> rec_parser_letter_p c \<or> rec_parser_digit_p c \<or> c = CHR ''_''"

fun valid_fname :: "string \<Rightarrow> bool" where
  "valid_fname [] = False"
| "valid_fname (c # cs) = ((rec_parser_letter_p c \<or> c = CHR ''%'') \<and> list_all fname_char cs)"

lemma fname_char_special [simp]:
  "\<not> fname_char CHR '':''" "\<not> fname_char NL" "\<not> fname_char CHR '' ''" "\<not> fname_char TAB" "\<not> fname_char CHR 0xFF"
  "\<not> fname_char CHR ''+''" "\<not> fname_char CHR ''#''" "\<not> fname_char NUL"
  by (simp_all add: fname_char_def rec_parser_letter_p_def rec_parser_digit_p_def schar_def)

lemma fname_char_ok: "fname_char c \<Longrightarrow> c \<noteq> NUL \<and> c \<noteq> CHR 0xFF"
  using fname_char_special by blast

lemma fname_start_special:
  assumes "rec_parser_letter_p c \<or> c = CHR ''%''"
  shows "c \<noteq> CHR '':'' \<and> c \<noteq> NL \<and> c \<noteq> CHR '' '' \<and> c \<noteq> TAB \<and> c \<noteq> CHR 0xFF \<and> c \<noteq> CHR ''+'' \<and> c \<noteq> CHR ''#'' \<and> c \<noteq> NUL"
  using assms fname_char_special by (auto simp: fname_char_def)

lemma valid_fname_no_colon: "valid_fname n \<Longrightarrow> CHR '':'' \<notin> set n"
proof (cases n)
  case (Cons c cs)
  assume "valid_fname n"
  then have c: "rec_parser_letter_p c \<or> c = CHR ''%''" and cs: "\<forall>x\<in>set cs. fname_char x"
    using Cons by (simp_all add: list_all_iff)
  from cs have "CHR '':'' \<notin> set cs" using fname_char_special(1) by blast
  moreover have "c \<noteq> CHR '':''" using fname_start_special [OF c] by simp
  ultimately show ?thesis using Cons by (metis set_ConsD)
qed simp

lemma field_name_loop_ok:
  assumes "ready p" and "rest p = s @ CHR '':'' # t" and "list_all fname_char s" and "holds buf w"
  shows "\<exists>buf'. field_name_loop buf p = (Some (True, buf'), adv (s @ '':'') p) \<and> holds buf' (w @ s)"
  using assms
proof (induction s arbitrary: p buf w)
  case Nil
  then have "rec_parser_getc p = (byte_int (parser_backend p) CHR '':'', adv '':'' p)"
    by (intro getc_Cons [of p _ t]) simp_all
  with Nil show ?case
    using fname_char_special(1) byte_int_EOF [of "CHR '':''"]
    by (subst field_name_loop.simps) (simp add: Let_def fname_char_def)
next
  case (Cons c s)
  have c: "c \<noteq> CHR 0xFF" "rec_parser_letter_p c \<or> rec_parser_digit_p c \<or> c = CHR ''_''"
    using Cons.prems(3) fname_char_special by (auto simp: fname_char_def)
  have g: "rec_parser_getc p = (byte_int (parser_backend p) c, adv [c] p)"
    using Cons.prems c by (intro getc_Cons) simp_all
  obtain r b where b: "rec_buf_putc (schar c) buf = (r, b)" "r \<noteq> EOF" "holds b (w @ [c])"
    using Cons.prems(4) c(1) by (rule holds_putc)
  have "\<not> rec_parser_error_p (adv [c] p)"
    using Cons.prems(1) by (simp add: ready_def rec_parser_error_p_def)
  then have "field_name_loop buf p = field_name_loop b (adv [c] p)"
    using g b c byte_int_EOF [OF c(1)] by (subst field_name_loop.simps) (simp add: Let_def)
  moreover have "rest (adv [c] p) = s @ CHR '':'' # t"
    using Cons.prems(2) by (intro rest_adv) simp
  ultimately show ?case
    using Cons.IH [of "adv [c] p" b "w @ [c]"] Cons.prems b(3) by simp
qed

lemma field_name_end_blank:
  assumes "ready p" and "rest p = c # t" and "c = CHR '' '' \<or> c = TAB"
  shows "field_name_end p = adv [c] p"
  using getc_Cons [OF assms(1,2)] assms(1,3) byte_int_EOF [of c]
  by (auto simp: field_name_end_def Let_def ready_def)

lemma byte_int_NL: "schar NL = byte_int b NL"
  by (simp add: byte_int_def schar_def uchar_def)

lemma field_name_end_newline:
  assumes "ready p" and "rest p = NL # t"
  shows "field_name_end p = p"
  using getc_Cons [OF assms] ungetc_adv [OF assms] assms(1) byte_int_EOF [of NL]
  by (auto simp: field_name_end_def Let_def ready_def byte_int_NL [of "parser_backend p"])

lemma field_name_end_eof:
  "ready p \<Longrightarrow> rest p = [] \<Longrightarrow> field_name_end p = set_eof p"
  by (simp add: field_name_end_def getc_Nil)

lemma rec_parse_field_name_ok:
  assumes "ready p" and "rest p = n @ CHR '':'' # t" and "valid_fname n"
  shows "rec_parse_field_name p = (Some n, field_name_end (adv (n @ '':'') p))"
proof -
  obtain c s where n: "n = c # s" "rec_parser_letter_p c \<or> c = CHR ''%''" "list_all fname_char s"
    using assms(3) by (cases n) auto
  note c = fname_start_special [OF n(2)]
  have g: "rec_parser_getc p = (byte_int (parser_backend p) c, adv [c] p)"
    using assms n c by (intro getc_Cons) simp_all
  have "c \<noteq> CHR 0xFF" using c by simp
  with holds_new obtain r b where b: "rec_buf_putc (schar c) rec_buf_new = (r, b)" "r \<noteq> EOF" "holds b ([] @ [c])"
    by (rule holds_putc)
  have "rest (adv [c] p) = s @ CHR '':'' # t" using assms(2) n by (intro rest_adv) simp
  with field_name_loop_ok [of "adv [c] p" s t b "[c]"] assms(1) n b
  obtain b' where "field_name_loop b (adv [c] p) = (Some (True, b'), adv (n @ '':'') p)" "holds b' n" by auto
  then show ?thesis
    using ready_simps [OF assms(1)] g b n c byte_int_EOF [of c "parser_backend p"]
    by (simp add: rec_parse_field_name_def Let_def holds_close)
qed

section \<open>Field values\<close>

text \<open>
  The value's backslashes neither end it nor precede a newline: the writer does not escape
  them, and the parser takes such a backslash for a line continuation.
\<close>

fun unescaped :: "string \<Rightarrow> bool" where
  "unescaped [] = True"
| "unescaped (c # cs) = ((c = CHR 0x5C \<longrightarrow> cs \<noteq> [] \<and> hd cs \<noteq> NL) \<and> unescaped cs)"

definition after_value :: "string \<Rightarrow> bool" where
  "after_value t \<longleftrightarrow> t = [] \<or> (hd t \<noteq> CHR ''+'' \<and> hd t \<noteq> CHR 0xFF)"

lemma value_loop_put:
  assumes "ready p" and "rest p = c # cs" and "c \<noteq> CHR 0xFF" and "c \<noteq> CHR 0x5C" and "holds buf w"
  obtains b where "field_value_loop c0 False buf p = field_value_loop c (c = NL) b (adv [c] p)" "holds b (w @ [c])"
proof -
  obtain r b where b: "rec_buf_putc (schar c) buf = (r, b)" "r \<noteq> EOF" "holds b (w @ [c])"
    using assms(5,3) by (rule holds_putc)
  have "\<not> rec_parser_error_p (adv [c] p)" using assms(1) by (simp add: ready_def rec_parser_error_p_def)
  then have "field_value_loop c0 False buf p = field_value_loop c (c = NL) b (adv [c] p)"
    using getc_Cons [OF assms(1-3)] assms(4) b byte_int_EOF [OF assms(3)]
    by (subst field_value_loop.simps) (simp add: Let_def)
  then show ?thesis using b(3) by (rule that)
qed

lemma value_loop_backslash:
  assumes "ready p" and "rest p = CHR 0x5C # c # cs" and "c \<noteq> CHR 0xFF" and "c \<noteq> NL" and "holds buf w"
  obtains b where "field_value_loop c0 False buf p = field_value_loop CHR 0x5C False b (adv [CHR 0x5C] p)"
    "holds b (w @ [CHR 0x5C])"
proof -
  obtain r b where b: "rec_buf_putc (schar CHR 0x5C) buf = (r, b)" "r \<noteq> EOF" "holds b (w @ [CHR 0x5C])"
    using assms(5) by (rule holds_putc [of buf w "CHR 0x5C"]) simp_all
  let ?p1 = "adv [CHR 0x5C] p"
  have r1: "ready ?p1" "rest ?p1 = c # cs" using assms(1,2) by (auto intro: rest_adv)
  have "\<not> rec_parser_error_p (adv [CHR 0x5C, c] p)" using assms(1) by (simp add: ready_def rec_parser_error_p_def)
  then have "field_value_loop c0 False buf p = field_value_loop CHR 0x5C False b ?p1"
    using getc_Cons [OF assms(1,2)] getc_Cons [OF r1 assms(3)] ungetc_adv [OF r1 assms(3)] assms(4) b
      byte_int_EOF [of "CHR 0x5C"] byte_int_EOF [OF assms(3)]
    by (subst field_value_loop.simps) (simp add: Let_def)
  then show ?thesis using b(3) by (rule that)
qed

lemma value_loop_continue:
  assumes "ready p" and "rest p = CHR ''+'' # CHR '' '' # cs"
  shows "field_value_loop c0 True buf p = field_value_loop CHR ''+'' False buf (adv ''+ '' p)"
proof -
  have "ready (adv ''+'' p)" "rest (adv ''+'' p) = CHR '' '' # cs" using assms by (auto intro: rest_adv)
  from getc_Cons [OF this] show ?thesis
    using getc_Cons [OF assms] byte_int_EOF [of "CHR ''+''"] byte_int_EOF [of "CHR '' ''"]
    by (subst field_value_loop.simps) (simp add: Let_def)
qed

lemma value_loop_stop:
  assumes "ready p" and "rest p = c # cs" and "c \<noteq> CHR 0xFF" and "c \<noteq> CHR ''+''"
  shows "field_value_loop c0 True buf p = (Some (c, True, rec_buf_rewind buf 1), p)"
  using getc_Cons [OF assms(1-3)] ungetc_adv [OF assms(1-3)] assms(4) byte_int_EOF [OF assms(3)]
  by (subst field_value_loop.simps) (simp add: Let_def)

lemma value_loop_eof:
  assumes "ready p" and "rest p = []"
  shows "field_value_loop c0 nl buf p = (Some (c0, True, buf), set_eof p)"
  using getc_Nil [OF assms] by (subst field_value_loop.simps) simp

text \<open>
  The text of a value, a newline and what follows it. At the end of the input the newline
  is still in the buffer; \<open>rec_parse_field_value\<close> removes it afterwards.
\<close>

definition value_read :: "string \<Rightarrow> string \<Rightarrow> char \<Rightarrow> rec_buf \<Rightarrow> bool" where
  "value_read t w c b \<longleftrightarrow> (if t = [] then c = NL \<and> holds b (w @ [NL]) else holds b w)"

lemma value_loop_end:
  assumes "ready p" and "rest p = NL # t" and "after_value t" and "holds buf w" and "length w < 2 ^ 64 - 1"
  shows "\<exists>c b. field_value_loop c0 False buf p = (Some (c, True, b), fin t [NL] p) \<and> value_read t w c b"
proof -
  obtain b where b: "field_value_loop c0 False buf p = field_value_loop NL True b (adv [NL] p)" "holds b (w @ [NL])"
    using assms(1,2) _ _ assms(4) by (rule value_loop_put) simp_all
  have r1: "ready (adv [NL] p)" "rest (adv [NL] p) = t" using assms(1,2) by (auto intro: rest_adv)
  show ?thesis
  proof (cases t)
    case Nil
    then show ?thesis using value_loop_eof [of "adv [NL] p"] r1 b by (simp add: fin_def value_read_def)
  next
    case (Cons x xs)
    then show ?thesis
      using value_loop_stop [of "adv [NL] p" x xs] r1 b assms(3,5) holds_rewind
      by (simp add: fin_def after_value_def value_read_def)
  qed
qed

lemma length_value_text: "length v \<le> length (value_text v)"
  by (induction v) auto

lemma field_value_loop_ok:
  assumes "ready p" and "rest p = value_text v @ NL # t" and "after_value t" and "plain v" and "unescaped v"
    and "holds buf w" and "length w + length (rest p) \<le> length (parser_input p)"
  shows "\<exists>c b. field_value_loop c0 False buf p = (Some (c, True, b), fin t (value_text v @ [NL]) p) \<and> value_read t (w @ v) c b"
  using assms
proof (induction v arbitrary: p buf w c0)
  case Nil
  then have "length w < 2 ^ 64 - 1" by (simp add: ready_def)
  with value_loop_end [of p t buf w c0] Nil show ?case by simp
next
  case (Cons x v)
  let ?cont = "\<lambda>c0 s b p'. (\<exists>c b'. field_value_loop c0 False b p' = (Some (c, True, b'), fin t (value_text v @ [NL]) p') \<and> value_read t ((w @ s) @ v) c b')"
  have step: "?cont c0 [x] b (adv s p)"
    if "holds b (w @ [x])" and "rest p = s @ value_text v @ NL # t" and "s \<noteq> []" for c0 s b
  proof (rule Cons.IH)
    show "rest (adv s p) = value_text v @ NL # t" using that(2) by (rule rest_adv)
    then show "length (w @ [x]) + length (rest (adv s p)) \<le> length (parser_input (adv s p))"
      using that(2,3) Cons.prems(7) by (cases s) auto
  qed (use Cons.prems that in \<open>auto\<close>)
  show ?case
  proof (cases "x = NL")
    case True
    then have r: "rest p = NL # CHR ''+'' # CHR '' '' # value_text v @ NL # t" using Cons.prems(2) by simp
    obtain b where b: "field_value_loop c0 False buf p = field_value_loop NL True b (adv [NL] p)" "holds b (w @ [NL])"
      using Cons.prems(1) r _ _ Cons.prems(6) by (rule value_loop_put) simp_all
    have "rest (adv [NL] p) = CHR ''+'' # CHR '' '' # value_text v @ NL # t" using r by (intro rest_adv) simp
    with b Cons.prems(1) value_loop_continue [of "adv [NL] p"]
    have "field_value_loop c0 False buf p = field_value_loop CHR ''+'' False b (adv [NL, CHR ''+'', CHR '' ''] p)" by simp
    with step [of b "[NL, CHR ''+'', CHR '' '']" "CHR ''+''"] b(2) r True show ?thesis by simp
  next
    case False
    then have r: "rest p = x # value_text v @ NL # t" using Cons.prems(2) by simp
    have "\<exists>c1 b. field_value_loop c0 False buf p = field_value_loop c1 False b (adv [x] p) \<and> holds b (w @ [x])"
    proof (cases "x = CHR 0x5C")
      case True
      then obtain y v' where v: "v = y # v'" "y \<noteq> NL" "y \<noteq> CHR 0xFF" using Cons.prems(4,5) by (cases v) auto
      obtain b where "field_value_loop c0 False buf p = field_value_loop CHR 0x5C False b (adv [CHR 0x5C] p)" "holds b (w @ [CHR 0x5C])"
        using Cons.prems(1) _ v(3,2) Cons.prems(6)
        by (rule value_loop_backslash [of p y "value_text v' @ NL # t"]) (use r v True in simp_all)
      with True show ?thesis by blast
    next
      case nb: False
      obtain b where "field_value_loop c0 False buf p = field_value_loop x (x = NL) b (adv [x] p)" "holds b (w @ [x])"
        using Cons.prems(1) r _ nb Cons.prems(6) by (rule value_loop_put) (use Cons.prems(4) in simp_all)
      with False show ?thesis by auto
    qed
    with step [of _ "[x]"] r False show ?thesis by fastforce
  qed
qed

lemma rec_parse_field_value_ok:
  assumes "ready p" and "rest p = value_text v @ NL # t" and "after_value t" and "plain v" and "unescaped v"
  shows "rec_parse_field_value p = (Some v, fin t (value_text v @ [NL]) p)"
proof -
  have len: "length (rest p) \<le> length (parser_input p)" by (simp add: rest_def)
  obtain c b where l: "field_value_loop NUL False rec_buf_new p = (Some (c, True, b), fin t (value_text v @ [NL]) p)"
    and b: "value_read t v c b"
    using field_value_loop_ok [OF assms holds_new, of NUL] len by auto
  have "length v < 2 ^ 64 - 1"
    using len assms(1,2) length_value_text [of v] by (simp add: ready_def)
  with b holds_rewind [of b v NL] have "t = [] \<Longrightarrow> holds (rec_buf_rewind b 1) v" by (simp add: value_read_def)
  then show ?thesis
    using l b ready_simps [OF assms(1)] by (auto simp: rec_parse_field_value_def fin_def holds_close value_read_def)
qed

section \<open>Fields\<close>

definition field_ok :: "rec_field \<Rightarrow> bool" where
  "field_ok f \<longleftrightarrow> valid_fname (field_name f) \<and> plain (field_value f) \<and> unescaped (field_value f)"

lemma valid_fname_plain: "valid_fname n \<Longrightarrow> plain n"
proof (cases n)
  case (Cons c cs)
  moreover assume "valid_fname n"
  ultimately show ?thesis
    using fname_start_special [of c] by (simp add: plain_def list_all_iff fname_char_ok)
qed simp

text \<open>The field the parser builds at \<open>p\<close> from a name and a value.\<close>

definition field_at :: "rec_parser \<Rightarrow> string \<Rightarrow> string \<Rightarrow> rec_field" where
  "field_at p n v =
     rec_field_set_char_location
       (rec_field_set_location (rec_field_set_source (rec_field_new n v) (parser_source p)) (parser_line p))
       (start_char p)"

lemma field_at_simps: "cstring n \<Longrightarrow> field_name (field_at p n v) = n" "cstring v \<Longrightarrow> field_value (field_at p n v) = v"
  "field_location (field_at p n v) = parser_line p" "field_char_location (field_at p n v) = start_char p"
  by (simp_all add: field_at_def field_op_defs)

lemma rec_parse_field_ok:
  assumes "ready p" and "rest p = field_text f @ NL # t" and "after_value t" and "field_ok f"
  shows "rec_parse_field p = (Some (field_at p (field_name f) (field_value f)), fin t (field_text f @ [NL]) p)"
proof -
  let ?n = "field_name f" and ?v = "field_value f"
  let ?sp = "if ?v = [] then [] else '' ''"
  have ft: "field_text f @ NL # t = (?n @ '':'') @ ?sp @ value_text ?v @ NL # t" by (simp add: field_text_def)
  have r1: "rest (adv (?n @ '':'') p) = ?sp @ value_text ?v @ NL # t"
    by (rule rest_adv) (simp only: assms(2) ft)
  have "field_name_end (adv (?n @ '':'') p) = adv ((?n @ '':'') @ ?sp) p"
    using field_name_end_newline [of "adv (?n @ '':'') p" t] field_name_end_blank [of "adv (?n @ '':'') p" "CHR '' ''"] r1 assms(1)
    by (cases "?v = []") simp_all
  moreover have "rest p = ?n @ CHR '':'' # ?sp @ value_text ?v @ NL # t" using assms(2) ft by simp
  ultimately have n: "rec_parse_field_name p = (Some ?n, adv ((?n @ '':'') @ ?sp) p)"
    using rec_parse_field_name_ok [of p ?n] assms(1,4) by (simp add: field_ok_def)
  have "rest (adv ((?n @ '':'') @ ?sp) p) = value_text ?v @ NL # t"
    using r1 by (subst adv_adv [symmetric]) (rule rest_adv)
  then have v: "rec_parse_field_value (adv ((?n @ '':'') @ ?sp) p) = (Some ?v, fin t (((?n @ '':'') @ ?sp) @ value_text ?v @ [NL]) p)"
    using rec_parse_field_value_ok [of "adv ((?n @ '':'') @ ?sp) p" ?v t] assms(1,3,4) by (simp add: field_ok_def)
  have e: "((?n @ '':'') @ ?sp) @ value_text ?v @ [NL] = field_text f @ [NL]" by (simp add: field_text_def)
  have "parser_source (fin t s p) = parser_source p" for s by (simp add: fin_def set_eof_def)
  then show ?thesis
    unfolding rec_parse_field_def n v [unfolded e] using ready_simps [OF assms(1)]
    by (simp add: n v [unfolded e] field_at_def del: append_assoc)
qed

end
