(* ===== verification/Rec_Utils_Laws.thy ===== *)
theory Rec_Utils_Laws
  imports Rec_Utils Rec_Parser_Laws
begin

unbundle bit_operations_syntax

text \<open>
  The utilities: the pattern of field names is the syntax the parser accepts, decimal numbers
  are read back by \<open>rec_atoi\<close>, time differences are normalised and ordered, and the byte swap
  is its own inverse.
\<close>

section \<open>Field names\<close>

lemma schar_range:
  assumes "of_char d < (128 :: int)" and "of_char e < (128 :: int)"
  shows "schar d \<le> schar c \<and> schar c \<le> schar e \<longleftrightarrow> in_range c (d, e)"
proof -
  have i: "(of_char x :: int) = int (of_char x)" for x by (simp only: of_nat_of_char)
  have "(of_char x :: nat) \<le> of_char y \<longleftrightarrow> (of_char x :: int) \<le> of_char y" for x y
    unfolding i by (rule of_nat_le_iff [symmetric])
  then have "in_range c (d, e) \<longleftrightarrow> (of_char d :: int) \<le> of_char c \<and> (of_char c :: int) \<le> of_char e"
    by (simp only: in_range_def fst_conv snd_conv)
  moreover have "schar d = of_char d" "schar e = of_char e" using assms by (simp_all add: schar_def)
  moreover have "schar c = (if (of_char c :: int) < 128 then of_char c else of_char c - 256)" by (simp only: schar_def)
  moreover have "(of_char c :: int) - 256 < of_char d" using of_char_bounds [of c] of_char_bounds [of d] by linarith
  ultimately show ?thesis
    using assms(2) by (cases "(of_char c :: int) < 128") (simp_all only: if_True if_False, linarith+)
qed

lemma in_class_simps [simp]:
  "in_class False [] c \<longleftrightarrow> False" "in_class False (r # rs) c \<longleftrightarrow> in_range c r \<or> in_class False rs c"
  by (simp_all add: in_class_def)

lemma in_range_single [simp]: "in_range c (d, d) \<longleftrightarrow> c = d"
proof -
  have "(of_char c :: nat) = of_char d \<longleftrightarrow> c = d" by (rule of_char_eq_iff)
  then show ?thesis by (auto simp: in_range_def)
qed

lemma letter_range:
  "rec_parser_letter_p c \<longleftrightarrow> in_range c (CHR ''a'', CHR ''z'') \<or> in_range c (CHR ''A'', CHR ''Z'')"
  "rec_letter_p c = rec_parser_letter_p c"
  "rec_parser_digit_p c \<longleftrightarrow> in_range c (CHR ''0'', CHR ''9'')"
  "rec_digit_p c = rec_parser_digit_p c"
  unfolding rec_parser_letter_p_def rec_letter_p_def rec_parser_digit_p_def rec_digit_p_def
  by (auto simp flip: schar_range)

lemma fname_lang: "re_lang REC_FNAME_RE s \<longleftrightarrow> valid_fname s"
proof -
  have tail: "in_class False [(CHR ''a'', CHR ''z''), (CHR ''A'', CHR ''Z''), (CHR ''0'', CHR ''9''), (CHR ''_'', CHR ''_'')] = fname_char"
    by (auto simp: fun_eq_iff fname_char_def letter_range)
  have head: "in_class False [(CHR ''a'', CHR ''z''), (CHR ''A'', CHR ''Z''), (CHR ''%'', CHR ''%'')] c
      \<longleftrightarrow> rec_parser_letter_p c \<or> c = CHR ''%''" for c
    by (auto simp: letter_range)
  show ?thesis
    unfolding REC_FNAME_RE_def
    by (cases s) (simp_all only: re_lang_Seq_Cls re_lang_star_cls tail head list.case valid_fname.simps)
qed

lemma rec_field_name_p_iff: "rec_field_name_p s \<longleftrightarrow> valid_fname s"
  by (simp add: rec_field_name_p_def rec_match_def re_match_iff fname_lang)

lemma rec_field_name_normalise_valid: "rec_field_name_normalise s = Some n \<Longrightarrow> valid_fname n \<and> length n = length s"
  by (auto simp: rec_field_name_normalise_def Let_def rec_field_name_p_iff split: if_splits)

lemma fname_char_kept: "fname_char c \<Longrightarrow> isalnum c \<or> c = CHR ''_''"
  by (auto simp: isalnum_def fname_char_def letter_range(2,4))

lemma rec_field_name_normalise_id: "valid_fname s \<Longrightarrow> rec_field_name_normalise s = Some s"
proof -
  assume v: "valid_fname s"
  have "c \<in> set s \<Longrightarrow> isalnum c \<or> c = CHR ''_'' \<or> c = CHR ''%''" for c
    using v fname_char_kept by (cases s) (auto simp: list_all_iff isalnum_def letter_range(2))
  then have "map (\<lambda>c. if isalnum c \<or> c = CHR ''_'' \<or> c = CHR ''-'' \<or> c = CHR ''%'' then c else CHR ''_'') s = s"
    by (intro map_idI) auto
  with v show ?thesis by (simp add: rec_field_name_normalise_def rec_field_name_p_iff)
qed

section \<open>Matching\<close>

lemma regexec_bounds: "regexec pat s = Some (i, j) \<Longrightarrow> i \<le> j \<and> j \<le> length s"
  by (cases pat) (auto dest: re_prefix_le re_search_Some split: if_splits)

lemma rec_parse_regexp_split: "rec_parse_regexp pat s = Some (m, t) \<Longrightarrow> m @ t = s"
  by (auto simp: rec_parse_regexp_def split: option.splits)

lemma rec_parse_regexp_begin:
  "rec_parse_regexp (Begin r) s = Some (m, t) \<Longrightarrow> re_lang r m \<and> s = m @ t"
  by (auto simp: rec_parse_regexp_def re_prefix_Some split: option.splits)

section \<open>Decimal numbers\<close>

lemma digit_value_char: "d < 10 \<Longrightarrow> digit_value (digit_char d) = d"
proof -
  assume d: "d < 10"
  have "of_char (char_of (48 + d)) = (48 + d) mod 256" by simp
  with d have "of_char (digit_char d) = 48 + d" by (simp add: digit_char_def)
  with d show ?thesis by (simp add: digit_value_def Let_def)
qed

lemma digits_value_append: "digits_value b (s @ [c]) = digits_value b s * int b + int (digit_value c)"
  by (simp add: digits_value_def)

lemma show_nat_value: "digits_value 10 (show_nat n) = int n \<and> list_all (\<lambda>c. digit_value c < 10) (show_nat n)"
proof (induction n rule: show_nat.induct)
  case (1 n)
  show ?case
  proof (cases "n < 10")
    case True
    then show ?thesis
      by (subst (1 2) show_nat.simps) (simp add: digits_value_def digit_value_char)
  next
    case False
    have "show_nat n = show_nat (n div 10) @ [digit_char (n mod 10)]"
      using False by (subst show_nat.simps) simp
    moreover have "int (n div 10) * 10 + int (n mod 10) = int n"
      by (metis div_mult_mod_eq of_nat_add of_nat_mult of_nat_numeral)
    ultimately show ?thesis
      using 1 [OF False] by (simp add: digits_value_append digit_value_char)
  qed
qed

lemma digit_char_zero: "d < 10 \<Longrightarrow> digit_char d = CHR ''0'' \<longleftrightarrow> d = 0"
proof -
  assume "d < 10"
  have zero: "digit_char 0 = CHR ''0''" by code_simp
  then have "digit_value CHR ''0'' = 0" using digit_value_char [of 0] by simp
  with digit_value_char [OF \<open>d < 10\<close>] zero show ?thesis by auto
qed

lemma show_nat_hd: "0 < n \<Longrightarrow> show_nat n \<noteq> [] \<and> hd (show_nat n) \<noteq> CHR ''0''"
proof (induction n rule: show_nat.induct)
  case (1 n)
  show ?case
  proof (cases "n < 10")
    case True
    then show ?thesis using 1(2) digit_char_zero [of n] by (subst (1 2) show_nat.simps) simp
  next
    case False
    have "show_nat n = show_nat (n div 10) @ [digit_char (n mod 10)]"
      using False by (subst show_nat.simps) simp
    moreover have "0 < n div 10" using False by simp
    ultimately show ?thesis using 1(1) [OF False] by simp
  qed
qed

lemma digit_not_special: "digit_value c < 10 \<Longrightarrow> \<not> isspace c \<and> c \<noteq> CHR ''-'' \<and> c \<noteq> CHR ''+'' \<and> c \<noteq> CHR ''x'' \<and> c \<noteq> CHR ''X''"
  by (auto simp: digit_value_def isspace_def Let_def split: if_splits)

lemma strtol_decimal:
  assumes "s \<noteq> []" and "list_all (\<lambda>c. digit_value c < 10) s" and "hd s \<noteq> CHR ''0'' \<or> s = ''0''"
  shows "strtol s = (min (2 ^ 63 - 1) (digits_value 10 s), [])"
    and "strtol (CHR ''-'' # s) = (max (- (2 ^ 63)) (- digits_value 10 s), [])"
proof -
  obtain c t where s: "s = c # t" using assms(1) by (cases s) auto
  have c: "\<not> isspace c" "c \<noteq> CHR ''-''" "c \<noteq> CHR ''+''" using assms(2) digit_not_special [of c] by (auto simp: s)
  have nothex: "\<not> hex_prefix s" using assms(3) by (auto simp: s hex_prefix_def)
  define base :: nat where "base = strtol_base s"
  have base: "takeWhile (\<lambda>c. digit_value c < base) s = s" "dropWhile (\<lambda>c. digit_value c < base) s = []"
    "digits_value base s = digits_value 10 s"
  proof (atomize (full), cases "c = CHR ''0''")
    case True
    then have "s = ''0''" using assms(3) s by simp
    moreover have "digit_value CHR ''0'' = 0" by code_simp
    ultimately show "takeWhile (\<lambda>c. digit_value c < base) s = s \<and> dropWhile (\<lambda>c. digit_value c < base) s = []
        \<and> digits_value base s = digits_value 10 s"
      by (simp add: base_def strtol_base_def nothex peek_def digits_value_def)
  next
    case False
    then have "base = 10" using nothex by (simp add: base_def strtol_base_def peek_def s)
    with assms(2) show "takeWhile (\<lambda>c. digit_value c < base) s = s \<and> dropWhile (\<lambda>c. digit_value c < base) s = []
        \<and> digits_value base s = digits_value 10 s"
      by (simp add: list_all_iff takeWhile_eq_all_conv dropWhile_eq_Nil_conv)
  qed
  have nn: "0 \<le> digits_value b s" for b
    unfolding digits_value_def
    by (induction s rule: rev_induct) (simp_all add: add_nonneg_nonneg)
  have "dropWhile isspace s = s" "peek s = c" using c(1) by (simp_all add: s peek_def)
  then show "strtol s = (min (2 ^ 63 - 1) (digits_value 10 s), [])"
    unfolding strtol_def using c nothex assms(1) nn [of 10]
    by (simp add: Let_def base_def [symmetric] base max_def)
  have "\<not> isspace CHR ''-''" by code_simp
  then have "dropWhile isspace (CHR ''-'' # s) = CHR ''-'' # s" "peek (CHR ''-'' # s) = CHR ''-''" by (simp_all add: peek_def)
  then show "strtol (CHR ''-'' # s) = (max (- (2 ^ 63)) (- digits_value 10 s), [])"
    unfolding strtol_def using c nothex assms(1) nn [of 10] \<open>peek s = c\<close>
    by (simp add: Let_def base_def [symmetric] base min_def)
qed

lemma show_nat_ok: "show_nat n \<noteq> [] \<and> list_all (\<lambda>c. digit_value c < 10) (show_nat n) \<and> (hd (show_nat n) \<noteq> CHR ''0'' \<or> show_nat n = ''0'')"
proof (cases "n = 0")
  case True
  have "show_nat 0 = ''0''" by code_simp
  moreover have "digit_value CHR ''0'' < 10" by code_simp
  ultimately show ?thesis using True by simp
next
  case False
  then show ?thesis using show_nat_hd [of n] show_nat_value [of n] by simp
qed

lemma int32_id: "- (2 ^ 31) \<le> n \<Longrightarrow> n < 2 ^ 31 \<Longrightarrow> int32 n = n"
  by (simp add: int32_def)

lemma rec_atoi_show_int:
  assumes "- (2 ^ 31) \<le> n" and "n < 2 ^ 31"
  shows "rec_atoi (show_int n) = Some n"
proof (cases "n < 0")
  case True
  let ?s = "show_nat (nat (- n))"
  have "strtol (CHR ''-'' # ?s) = (max (- (2 ^ 63)) (- digits_value 10 ?s), [])"
    using show_nat_ok [of "nat (- n)"] by (intro strtol_decimal(2)) auto
  moreover have "digits_value 10 ?s = - n" using show_nat_value [of "nat (- n)"] True by simp
  ultimately show ?thesis using True assms by (simp add: rec_atoi_def show_int_def int32_id max_def)
next
  case False
  let ?s = "show_nat (nat n)"
  have "strtol ?s = (min (2 ^ 63 - 1) (digits_value 10 ?s), [])"
    using show_nat_ok [of "nat n"] by (intro strtol_decimal(1)) auto
  moreover have "digits_value 10 ?s = n" using show_nat_value [of "nat n"] False by simp
  ultimately show ?thesis
    using False assms show_nat_ok [of "nat n"] by (simp add: rec_atoi_def show_int_def int32_id min_def)
qed

text \<open>Every number \<open>rec_atoi\<close> returns is an \<open>int\<close>.\<close>

lemma rec_atoi_range: "rec_atoi s = Some n \<Longrightarrow> - (2 ^ 31) \<le> n \<and> n < 2 ^ 31"
proof -
  assume "rec_atoi s = Some n"
  then obtain k where n: "n = (k + 2 ^ 31) mod 2 ^ 32 - 2 ^ 31"
    by (auto simp: rec_atoi_def int32_def split: prod.splits if_splits)
  have "0 \<le> (k + 2 ^ 31) mod (2 ^ 32 :: int)" "(k + 2 ^ 31) mod (2 ^ 32 :: int) < 2 ^ 32" by simp_all
  with n show ?thesis by simp
qed

lemma digit_int_char: "digit_value c < 10 \<Longrightarrow> int_char c \<and> \<not> rec_blank_p c \<and> c \<noteq> CHR ''-'' \<and> c \<noteq> CHR ''M''"
proof -
  assume "digit_value c < 10"
  then have "in_range c (CHR ''0'', CHR ''9'')"
    by (auto simp: digit_value_def in_range_def Let_def split: if_splits)
  then show ?thesis by (auto simp: int_char_def letter_range rec_blank_p_def in_range_def)
qed

lemma show_int_cases:
  obtains ds where "show_int n = ds \<or> show_int n = CHR ''-'' # ds" "ds \<noteq> []" "list_all (\<lambda>c. digit_value c < 10) ds"
proof (rule that [of "show_nat (nat \<bar>n\<bar>)"])
  show "show_int n = show_nat (nat \<bar>n\<bar>) \<or> show_int n = CHR ''-'' # show_nat (nat \<bar>n\<bar>)"
    by (auto simp: show_int_def)
qed (use show_nat_ok in auto)

lemma show_int_hd: "show_int n \<noteq> [] \<and> \<not> rec_blank_p (hd (show_int n)) \<and> hd (show_int n) \<noteq> CHR ''M''"
proof -
  obtain ds where "show_int n = ds \<or> show_int n = CHR ''-'' # ds" "ds \<noteq> []" "list_all (\<lambda>c. digit_value c < 10) ds"
    by (rule show_int_cases)
  then show ?thesis using digit_int_char by (cases ds) (auto simp: rec_blank_p_def)
qed

lemma int_span_show:
  assumes "t = [] \<or> \<not> int_char (hd t)"
  shows "int_span (show_int n @ t) = show_int n"
proof -
  obtain ds where ds: "show_int n = ds \<or> show_int n = CHR ''-'' # ds" "ds \<noteq> []" "list_all (\<lambda>c. digit_value c < 10) ds"
    by (rule show_int_cases)
  have "takeWhile int_char t = []" using assms by (cases t) auto
  moreover have "\<forall>c \<in> set ds. int_char c" using ds(3) digit_int_char by (auto simp: list_all_iff)
  ultimately have "takeWhile int_char (ds @ t) = ds" by (simp add: takeWhile_append2)
  moreover have "peek (ds @ t) \<noteq> CHR ''-''" using ds(2,3) digit_int_char by (cases ds) (auto simp: peek_def)
  ultimately show ?thesis using ds(1) by (auto simp: int_span_def peek_def)
qed

lemma rec_parse_int_show:
  assumes "- (2 ^ 31) \<le> n" and "n < 2 ^ 31" and "t = [] \<or> \<not> int_char (hd t)"
  shows "rec_parse_int (show_int n @ t) = Some (n, t)"
  using assms int_span_show [OF assms(3), of n]
  by (simp add: rec_parse_int_def rec_atoi_show_int)

section \<open>Times and bytes\<close>

definition timespec_ok :: "int \<times> int \<Rightarrow> bool" where
  "timespec_ok t \<longleftrightarrow> 0 \<le> snd t \<and> snd t < 1000000000"

lemma rec_timespec_subtract_ok:
  assumes "timespec_ok x" and "timespec_ok y" and "rec_timespec_subtract x y = (neg, d)"
  shows "timespec_ok d" and "neg \<longleftrightarrow> fst x < fst y \<or> (fst x = fst y \<and> snd x < snd y)"
    and "fst d * 1000000000 + snd d = (fst x * 1000000000 + snd x) - (fst y * 1000000000 + snd y)"
  using assms by (auto simp: rec_timespec_subtract_def timespec_ok_def Let_def split: if_splits)

text \<open>Bit \<open>n\<close> of the swapped word is the same bit of the opposite byte.\<close>

definition swap_index :: "nat \<Rightarrow> nat" where
  "swap_index n = (3 - n div 8) * 8 + n mod 8"

lemma byte_and_bit:
  assumes "n < (32 :: nat)"
  obtains j k where "n = j + 8 * k" "k = 3 \<or> k = 2 \<or> k = 1 \<or> k = 0"
    "j = 7 \<or> j = 6 \<or> j = 5 \<or> j = 4 \<or> j = 3 \<or> j = 2 \<or> j = 1 \<or> j = 0"
proof -
  have bits: "m < 8 \<Longrightarrow> m = 7 \<or> m = 6 \<or> m = 5 \<or> m = 4 \<or> m = 3 \<or> m = 2 \<or> m = 1 \<or> m = (0 :: nat)" for m by presburger
  have bytes: "m < 4 \<Longrightarrow> m = 3 \<or> m = 2 \<or> m = 1 \<or> m = (0 :: nat)" for m by presburger
  have "n div 8 < 4" "n mod 8 < 8" using assms by auto
  from that [of "n mod 8" "n div 8", OF _ bytes [OF this(1)] bits [OF this(2)]] show ?thesis by simp
qed

lemma rec_endian_swap_bit:
  assumes "n < 32"
  shows "bit (rec_endian_swap w) n = bit w (swap_index n)"
proof -
  have high: "\<not> bit w k" if "32 \<le> k" for k using bit_imp_le_length [of w k] that by auto
  show ?thesis
    by (rule byte_and_bit [OF assms], elim disjE) (simp_all add: rec_endian_swap_def swap_index_def bit_simps high flip: numeral_2_eq_2)
qed

lemma swap_index_inverse: "n < 32 \<Longrightarrow> swap_index n < 32 \<and> swap_index (swap_index n) = n"
  by (erule byte_and_bit, elim disjE) (simp_all add: swap_index_def)

lemma rec_endian_swap_inverse: "rec_endian_swap (rec_endian_swap w) = w"
  by (rule bit_word_eqI) (simp add: rec_endian_swap_bit swap_index_inverse)

section \<open>Properties\<close>

text \<open>
  \<open>rec_atoi\<close> reads every \<open>int\<close> back from its decimal text, and whatever it accepts, in any
  base and of any length, is an \<open>int\<close>.
\<close>

lemma atoi_reads_decimal:
  "(- (2 ^ 31) \<le> n \<and> n < 2 ^ 31 \<longrightarrow> rec_atoi (show_int n) = Some n)
   \<and> (rec_atoi s = Some k \<longrightarrow> - (2 ^ 31) \<le> k \<and> k < 2 ^ 31)"
  using rec_atoi_show_int [of n] rec_atoi_range [of s k] by blast

text \<open>
  The check on field names agrees with the parser: \<open>rec_field_name_p\<close> accepts exactly the names
  \<open>rec_parse_field\<close> reads. \<open>rec_field_name_normalise\<close> keeps such names, and what it makes of any
  other string is such a name of the same length.
\<close>

lemma field_name_checks:
  "(rec_field_name_p s \<longleftrightarrow> valid_fname s)
   \<and> (valid_fname s \<longrightarrow> rec_field_name_normalise s = Some s)
   \<and> (rec_field_name_normalise s = Some n \<longrightarrow> valid_fname n \<and> length n = length s)"
  using rec_field_name_p_iff rec_field_name_normalise_id rec_field_name_normalise_valid by blast

text \<open>
  The difference of two times is exact and has its nanoseconds in range, and the result of
  \<open>rec_timespec_subtract\<close> is whether the first time is earlier.
\<close>

lemma timespec_subtract_exact:
  assumes "timespec_ok x" and "timespec_ok y" and "rec_timespec_subtract x y = (neg, d)"
  shows "timespec_ok d \<and> (neg \<longleftrightarrow> fst x < fst y \<or> (fst x = fst y \<and> snd x < snd y))
    \<and> fst d * 1000000000 + snd d = (fst x * 1000000000 + snd x) - (fst y * 1000000000 + snd y)"
  using rec_timespec_subtract_ok [OF assms] by simp

end
