(* ===== verification/Rec_Fex_Laws.thy ===== *)
theory Rec_Fex_Laws
  imports Rec_Fex Rec_Utils_Laws "HOL-Library.Multiset"
begin

text \<open>
  Field expressions: printing and parsing are inverse on elements without calls and rewrite
  rules, duplication gives an equal expression, the accepted syntax of the checks is
  accepted by the parser, and sorting permutes the elements.
\<close>

section \<open>Parsing names\<close>

lemma valid_fname_append: "valid_fname (n @ u) \<Longrightarrow> n \<noteq> [] \<Longrightarrow> list_all fname_char u"
  by (cases n) auto

lemma parse_fname_re:
  assumes "valid_fname n" and "t = [] \<or> \<not> fname_char (hd t)"
  shows "rec_parse_regexp (Begin REC_FNAME_RE) (n @ t) = Some (n, t)"
proof -
  have "n \<noteq> []" using assms(1) by auto
  have "\<not> re_lang REC_FNAME_RE (take m (n @ t))" if "m \<le> length (n @ t)" "length n < m" for m
  proof
    assume "re_lang REC_FNAME_RE (take m (n @ t))"
    then have "valid_fname (n @ take (m - length n) t)" using that(2) by (simp add: fname_lang)
    then have "list_all fname_char (take (m - length n) t)" using \<open>n \<noteq> []\<close> by (rule valid_fname_append)
    with that assms(2) show False by (cases t; cases "m - length n") auto
  qed
  then have "re_prefix REC_FNAME_RE (n @ t) = Some (length n)"
    using assms(1) by (auto simp: re_prefix_Some fname_lang)
  then show ?thesis by (simp add: rec_parse_regexp_def)
qed

lemma not_fname_char [simp]: "\<not> fname_char CHR ''.''" "\<not> fname_char CHR '',''" "\<not> fname_char CHR ''[''" "\<not> fname_char CHR ''(''"
  by (code_simp, code_simp, code_simp, code_simp)

lemma parse_fname_ok:
  assumes "valid_fname n" and "t = [] \<or> \<not> fname_char (hd t) \<and> hd t \<noteq> CHR ''.''"
  shows "parse_fname (n @ t) = Some (n, t)"
  using parse_fname_re [of n t] assms by (cases t) (auto simp: parse_fname_def peek_def)

section \<open>Printing\<close>

lemma holds_buf_add: "holds b s \<Longrightarrow> plain t \<Longrightarrow> holds (buf_add t b) (s @ t)"
  using rec_buf_puts_contents [of b t] plain_cstring [of t] by (simp add: holds_def buf_add_def)

lemma holds_buf_addc: "holds b s \<Longrightarrow> c \<noteq> CHR 0xFF \<Longrightarrow> holds (buf_addc c b) (s @ [c])"
  by (erule (1) holds_putc) (simp add: buf_addc_def)

lemma plain_show_int [simp]: "plain (show_int n)"
proof -
  have "plain s" if "list_all (\<lambda>c. digit_value c < 10) s" for s
  proof -
    have "digit_value NUL = 99" "digit_value CHR 0xFF = 99" by (code_simp, code_simp)
    then have "digit_value c < 10 \<Longrightarrow> c \<noteq> NUL \<and> c \<noteq> CHR 0xFF" for c by auto
    with that show ?thesis by (simp add: plain_def list_all_iff)
  qed
  then show ?thesis using show_nat_value by (simp add: show_int_def)
qed

definition subscript_text :: "int \<Rightarrow> int \<Rightarrow> string" where
  "subscript_text mn mx =
     (if mn \<noteq> -1 \<or> mx \<noteq> -1
      then ''['' @ (if mn \<noteq> -1 then show_int mn else []) @ (if mx \<noteq> -1 then ''-'' @ show_int mx else []) @ '']''
      else [])"

definition elem_name :: "rec_fex_elem \<Rightarrow> string" where
  "elem_name e = (case fex_elem_field_name e of None \<Rightarrow> [] | Some n \<Rightarrow> n)"

definition elem_text :: "rec_fex_kind_e \<Rightarrow> rec_fex_elem \<Rightarrow> string" where
  "elem_text kind e =
     elem_name e @ (if kind = REC_FEX_SUBSCRIPTS then subscript_text (fex_elem_min e) (fex_elem_max e) else [])"

fun join_with :: "char \<Rightarrow> string list \<Rightarrow> string" where
  "join_with c [] = []"
| "join_with c [l] = l"
| "join_with c (l # ls) = l @ c # join_with c ls"

lemma fex_elem_out_holds:
  assumes "holds b s" and "plain (elem_name e)"
  shows "holds (fex_elem_out kind e b) (s @ elem_text kind e)"
proof -
  have b1: "holds (buf_add (elem_name e) b) (s @ elem_name e)" using assms by (rule holds_buf_add)
  have "holds (fex_elem_out REC_FEX_SUBSCRIPTS e b) (s @ elem_name e @ subscript_text (fex_elem_min e) (fex_elem_max e))"
    if ne: "fex_elem_min e \<noteq> -1 \<or> fex_elem_max e \<noteq> -1"
  proof -
    let ?b2 = "buf_addc CHR ''['' (buf_add (elem_name e) b)"
    have b2: "holds ?b2 ((s @ elem_name e) @ ''['')" by (rule holds_buf_addc [OF b1]) simp
    let ?t3 = "if fex_elem_min e \<noteq> -1 then show_int (fex_elem_min e) else []"
    let ?b3 = "if fex_elem_min e \<noteq> -1 then buf_add (show_int (fex_elem_min e)) ?b2 else ?b2"
    have b3: "holds ?b3 (((s @ elem_name e) @ ''['') @ ?t3)" using b2 holds_buf_add [OF b2, of "show_int (fex_elem_min e)"] by auto
    let ?t4 = "if fex_elem_max e \<noteq> -1 then ''-'' @ show_int (fex_elem_max e) else []"
    let ?b4 = "if fex_elem_max e \<noteq> -1 then buf_add (CHR ''-'' # show_int (fex_elem_max e)) ?b3 else ?b3"
    have b4: "holds ?b4 ((((s @ elem_name e) @ ''['') @ ?t3) @ ?t4)"
      using b3 holds_buf_add [OF b3, of "CHR ''-'' # show_int (fex_elem_max e)"] by (auto split: if_splits)
    have "holds (buf_addc CHR '']'' ?b4) (((((s @ elem_name e) @ ''['') @ ?t3) @ ?t4) @ '']'')"
      by (rule holds_buf_addc [OF b4]) simp
    moreover have "fex_elem_out REC_FEX_SUBSCRIPTS e b = buf_addc CHR '']'' ?b4"
      using ne by (simp add: fex_elem_out_def Let_def elem_name_def)
    ultimately show ?thesis using ne by (simp add: subscript_text_def)
  qed
  then show ?thesis
    using b1 by (cases "kind = REC_FEX_SUBSCRIPTS \<and> (fex_elem_min e \<noteq> -1 \<or> fex_elem_max e \<noteq> -1)")
      (auto simp: fex_elem_out_def elem_text_def subscript_text_def elem_name_def Let_def)
qed

definition sep_char :: "rec_fex_kind_e \<Rightarrow> char" where
  "sep_char kind = (if kind = REC_FEX_SIMPLE then CHR '' '' else CHR '','')"

lemma fex_str_loop_holds:
  "holds b s \<Longrightarrow> list_all (plain \<circ> elem_name) es \<Longrightarrow>
   holds (fex_str_loop kind i es b) (s @ (if i = 0 \<or> es = [] then [] else [sep_char kind]) @ join_with (sep_char kind) (map (elem_text kind) es))"
proof (induction es arbitrary: i b s)
  case Nil
  then show ?case by simp
next
  case (Cons e es)
  let ?c = "sep_char kind"
  let ?p = "if i = 0 then [] else [?c]"
  let ?b = "if i \<noteq> 0 then buf_addc ?c b else b"
  have "?c \<noteq> CHR 0xFF" by (simp add: sep_char_def)
  then have "holds ?b (s @ ?p)" using Cons.prems(1) holds_buf_addc by auto
  then have "holds (fex_elem_out kind e ?b) ((s @ ?p) @ elem_text kind e)"
    using Cons.prems(2) by (intro fex_elem_out_holds) simp_all
  from Cons.IH [OF this, of "Suc i"] Cons.prems(2) have
    "holds (fex_str_loop kind (Suc i) es (fex_elem_out kind e ?b))
      (((s @ ?p) @ elem_text kind e) @ (if es = [] then [] else [?c]) @ join_with ?c (map (elem_text kind) es))" by simp
  moreover have "join_with ?c (map (elem_text kind) (e # es)) =
      elem_text kind e @ (if es = [] then [] else [?c]) @ join_with ?c (map (elem_text kind) es)"
    by (cases es) simp_all
  moreover have "fex_str_loop kind i (e # es) b = fex_str_loop kind (Suc i) es (fex_elem_out kind e ?b)"
    by (simp add: sep_char_def)
  ultimately show ?case by simp
qed

lemma rec_fex_str_eq:
  assumes "list_all (plain \<circ> elem_name) (fex_elems fex)"
  shows "rec_fex_str fex kind = join_with (sep_char kind) (map (elem_text kind) (fex_elems fex))"
  using fex_str_loop_holds [OF holds_new assms, of kind 0] by (simp add: rec_fex_str_def holds_close)

lemma strsep_join:
  assumes "ls \<noteq> []" and "\<And>l c. l \<in> set ls \<Longrightarrow> c \<in> set l \<Longrightarrow> \<not> sep c" and "sep d"
  shows "strsep_all sep (join_with d ls) = ls"
  using assms
proof (induction d ls rule: join_with.induct)
  case (2 d l)
  then show ?case using strsep_all_no_sep [of sep l] by (simp add: list_all_iff)
next
  case (3 d l l' ls)
  have "strsep_all sep (l @ d # join_with d (l' # ls)) = strsep_all sep l @ strsep_all sep (join_with d (l' # ls))"
    using 3(4) by (rule strsep_all_append)
  moreover have "strsep_all sep l = [l]" using 3(3) [of l] by (intro strsep_all_no_sep) (simp add: list_all_iff)
  moreover have "strsep_all sep (join_with d (l' # ls)) = l' # ls"
    using 3(3,4) by (intro 3(1)) auto
  ultimately show ?case by simp
qed simp

section \<open>Reading back what is printed\<close>

text \<open>
  The elements the printer writes completely: a proper name, no call, no rewrite rule, and
  no subscripts, an index, or a range of indexes.
\<close>

definition index_ok :: "int \<Rightarrow> bool" where
  "index_ok n \<longleftrightarrow> 0 \<le> n \<and> n < 2 ^ 31"

definition fex_elem_plain :: "rec_fex_kind_e \<Rightarrow> rec_fex_elem \<Rightarrow> bool" where
  "fex_elem_plain kind e \<longleftrightarrow>
     (\<exists>n. fex_elem_field_name e = Some n \<and> valid_fname n) \<and> fex_elem_rewrite_to e = None \<and> fex_elem_function_name e = None
     \<and> (fex_elem_min e = -1 \<and> fex_elem_max e = -1
        \<or> kind = REC_FEX_SUBSCRIPTS \<and> index_ok (fex_elem_min e) \<and> (fex_elem_max e = -1 \<or> index_ok (fex_elem_max e)))"

lemma fex_elem_plain_name: "fex_elem_plain kind e \<Longrightarrow> fex_elem_field_name e = Some (elem_name e) \<and> valid_fname (elem_name e)"
  by (auto simp: fex_elem_plain_def elem_name_def)

definition fex_key :: "rec_fex_elem \<Rightarrow> string option \<times> int \<times> int \<times> string option \<times> string option" where
  "fex_key e = (fex_elem_field_name e, fex_elem_min e, fex_elem_max e, fex_elem_rewrite_to e, fex_elem_function_name e)"

lemma not_int_char [simp]: "\<not> int_char CHR '']''" "\<not> int_char CHR ''-''"
  by (code_simp, code_simp)

lemma parse_index: "index_ok n \<Longrightarrow> t = [] \<or> \<not> int_char (hd t) \<Longrightarrow> rec_parse_int (show_int n @ t) = Some (n, t)"
  by (rule rec_parse_int_show) (simp_all add: index_ok_def)

lemma parse_subscripts_text:
  assumes "mn = -1 \<and> mx = -1 \<or> index_ok mn \<and> (mx = -1 \<or> index_ok mx)"
  shows "parse_subscripts (subscript_text mn mx) = Some (mn, mx, [])"
proof (cases "mn = -1 \<and> mx = -1")
  case True
  then show ?thesis by (simp add: subscript_text_def parse_subscripts_def peek_def)
next
  case False
  with assms have mn: "index_ok mn" "mx = -1 \<or> index_ok mx" by auto
  then have "mn \<noteq> -1" by (auto simp: index_ok_def)
  show ?thesis
  proof (cases "mx = -1")
    case True
    with \<open>mn \<noteq> -1\<close> mn parse_index [of mn "'']''"] show ?thesis
      by (simp add: subscript_text_def parse_subscripts_def peek_def)
  next
    case False
    with mn have mx: "index_ok mx" by simp
    have "subscript_text mn mx = CHR ''['' # show_int mn @ CHR ''-'' # show_int mx @ '']''"
      using False \<open>mn \<noteq> -1\<close> by (simp add: subscript_text_def)
    with parse_index [OF mn(1), of "CHR ''-'' # show_int mx @ '']''"] parse_index [OF mx, of "'']''"]
    show ?thesis by (simp add: parse_subscripts_def peek_def)
  qed
qed

lemma call_has_paren: "re_lang REC_FEX_CALL s \<Longrightarrow> CHR ''('' \<in> set s"
  by (auto simp: REC_FEX_CALL_def re_lang_Seq)

lemma no_call: "CHR ''('' \<notin> set s \<Longrightarrow> \<not> rec_match s (Begin REC_FEX_CALL)"
  by (auto simp: rec_match_def re_prefix_Some dest!: call_has_paren dest: in_set_takeD)

text \<open>The characters of printed subscripts.\<close>

lemma subscript_text_chars:
  assumes "c \<in> set (subscript_text mn mx)"
  shows "digit_value c < 10 \<or> c = CHR ''['' \<or> c = CHR '']'' \<or> c = CHR ''-''"
proof -
  have "c \<in> set (show_int n) \<Longrightarrow> digit_value c < 10 \<or> c = CHR ''-''" for n
    using show_nat_value by (auto simp: show_int_def list_all_iff split: if_splits)
  with assms show ?thesis by (auto simp: subscript_text_def split: if_splits)
qed

lemma valid_fname_chars:
  assumes "valid_fname n" and "c \<in> set n"
  shows "fname_char c \<or> c = CHR ''%''"
  using assms by (cases n) (auto simp: list_all_iff fname_char_def)

lemma elem_text_chars:
  assumes "fex_elem_plain kind e" and "c \<in> set (elem_text kind e)"
  shows "c \<noteq> CHR '','' \<and> c \<noteq> CHR '' '' \<and> c \<noteq> TAB \<and> c \<noteq> NL \<and> c \<noteq> CHR ''(''"
proof -
  have "fname_char c \<or> c = CHR ''%'' \<or> digit_value c < 10 \<or> c = CHR ''['' \<or> c = CHR '']'' \<or> c = CHR ''-''"
    using assms fex_elem_plain_name [OF assms(1)] valid_fname_chars subscript_text_chars
    by (fastforce simp: elem_text_def split: if_splits)
  moreover have "digit_value c \<ge> 10" if "c = CHR '','' \<or> c = CHR '' '' \<or> c = TAB \<or> c = NL \<or> c = CHR ''(''"
    using that by (elim disjE) (simp_all add: digit_value_def)
  ultimately show ?thesis using fname_char_special not_fname_char by auto
qed

lemma elem_text_ne: "fex_elem_plain kind e \<Longrightarrow> elem_text kind e \<noteq> []"
  using fex_elem_plain_name [of kind e] by (cases "elem_name e") (auto simp: elem_text_def)

lemma parse_simple_elem_text:
  assumes "fex_elem_plain kind e" and "kind \<noteq> REC_FEX_SUBSCRIPTS"
  shows "\<exists>e'. parse_simple_elem (elem_text kind e) = Some e' \<and> fex_key e' = fex_key e"
proof -
  have "elem_text kind e = elem_name e" using assms(2) by (simp add: elem_text_def)
  then show ?thesis
    using fex_elem_plain_name [OF assms(1)] parse_fname_ok [of "elem_name e" "[]"] assms
    by (auto simp: parse_simple_elem_def fex_key_def fex_elem_plain_def)
qed

lemma rec_fex_parse_elem_text:
  assumes "fex_elem_plain REC_FEX_SUBSCRIPTS e"
  shows "\<exists>e'. rec_fex_parse_elem (elem_text REC_FEX_SUBSCRIPTS e) = Some e' \<and> fex_key e' = fex_key e"
proof -
  let ?sub = "subscript_text (fex_elem_min e) (fex_elem_max e)"
  have t: "elem_text REC_FEX_SUBSCRIPTS e = elem_name e @ ?sub" by (simp add: elem_text_def)
  have "\<not> rec_match (elem_name e @ ?sub) (Begin REC_FEX_CALL)"
    using no_call elem_text_chars [OF assms] unfolding t by blast
  moreover have "parse_fname (elem_name e @ ?sub) = Some (elem_name e, ?sub)"
    using fex_elem_plain_name [OF assms] by (intro parse_fname_ok) (auto simp: subscript_text_def)
  moreover have "parse_subscripts ?sub = Some (fex_elem_min e, fex_elem_max e, [])"
    using assms by (intro parse_subscripts_text) (auto simp: fex_elem_plain_def)
  ultimately show ?thesis
    using fex_elem_plain_name [OF assms] assms unfolding t
    by (simp add: rec_fex_parse_elem_def peek_def fex_key_def fex_elem_plain_def)
qed

lemma parse_simple_loop_ok:
  assumes "kind \<noteq> REC_FEX_SUBSCRIPTS"
  shows "list_all (fex_elem_plain kind) es \<Longrightarrow>
    \<exists>es'. parse_simple_loop (map (elem_text kind) es) acc = Some (acc @ es') \<and> map fex_key es' = map fex_key es"
proof (induction es arbitrary: acc)
  case (Cons e es)
  then obtain e' where e': "parse_simple_elem (elem_text kind e) = Some e'" "fex_key e' = fex_key e"
    using parse_simple_elem_text [OF _ assms] by auto
  from Cons obtain es' where "parse_simple_loop (map (elem_text kind) es) (acc @ [e']) = Some ((acc @ [e']) @ es')"
    "map fex_key es' = map fex_key es" by fastforce
  with e' Cons.prems elem_text_ne [of kind e] show ?case by (intro exI [of _ "e' # es'"]) simp
qed simp

lemma parse_subscripts_loop_ok:
  "list_all (fex_elem_plain REC_FEX_SUBSCRIPTS) es \<Longrightarrow>
   \<exists>es'. parse_subscripts_loop (map (elem_text REC_FEX_SUBSCRIPTS) es) = Some es' \<and> map fex_key es' = map fex_key es"
proof (induction es)
  case (Cons e es)
  then obtain e' es' where "rec_fex_parse_elem (elem_text REC_FEX_SUBSCRIPTS e) = Some e'" "fex_key e' = fex_key e"
    "parse_subscripts_loop (map (elem_text REC_FEX_SUBSCRIPTS) es) = Some es'" "map fex_key es' = map fex_key es"
    using rec_fex_parse_elem_text by auto blast
  then show ?case by simp
qed simp

lemma rec_fex_roundtrip:
  assumes "list_all (fex_elem_plain kind) (fex_elems fex)" and "fex_elems fex \<noteq> []"
  shows "\<exists>fex'. rec_fex_new (Some (rec_fex_str fex kind)) kind = Some fex'
    \<and> map fex_key (fex_elems fex') = map fex_key (fex_elems fex)"
proof -
  let ?ts = "map (elem_text kind) (fex_elems fex)"
  have "list_all (plain \<circ> elem_name) (fex_elems fex)"
    using assms(1) fex_elem_plain_name valid_fname_plain by (fastforce simp: list_all_iff)
  then have str: "rec_fex_str fex kind = join_with (sep_char kind) ?ts" by (rule rec_fex_str_eq)
  have chars: "c \<noteq> CHR '','' \<and> c \<noteq> CHR '' '' \<and> c \<noteq> TAB \<and> c \<noteq> NL" if "l \<in> set ?ts" "c \<in> set l" for l c
    using that assms(1) elem_text_chars by (fastforce simp: list_all_iff)
  show ?thesis
  proof (cases "kind = REC_FEX_SUBSCRIPTS")
    case True
    have "strsep_all (\<lambda>c. c = CHR '','') (join_with CHR '','' ?ts) = ?ts"
      using chars assms(2) by (intro strsep_join) auto
    with True parse_subscripts_loop_ok [of "fex_elems fex"] assms(1) str show ?thesis
      by (auto simp: rec_fex_new_def rec_fex_parse_str_subscripts_def sep_char_def)
  next
    case False
    define sep where "sep = (if kind = REC_FEX_SIMPLE then [CHR '' '', TAB, NL] else '','')"
    have "strsep_all (\<lambda>c. c \<in> set sep) (join_with (sep_char kind) ?ts) = ?ts"
      using chars assms(2) by (intro strsep_join) (auto simp: sep_def sep_char_def)
    moreover have "rec_fex_new (Some s) kind = rec_fex_parse_str_simple s sep" for s
      using False by (cases kind) (simp_all add: rec_fex_new_def sep_def)
    moreover obtain es' where "parse_simple_loop ?ts [] = Some es'" "map fex_key es' = map fex_key (fex_elems fex)"
      using parse_simple_loop_ok [OF False assms(1), of "[]"] by auto
    ultimately show ?thesis
      using assms(2) unfolding str by (cases es') (auto simp: rec_fex_parse_str_simple_def)
  qed
qed

section \<open>Sorting and duplicating\<close>

lemma sort_insert_mset: "mset (sort_insert aux rs moved) = add_mset aux (mset rs + mset moved)"
  by (induction aux rs moved rule: sort_insert.induct) simp_all

lemma sort_from_mset: "mset (sort_from ds es) = mset ds + mset es"
  by (induction ds es rule: sort_from.induct) (simp_all add: sort_insert_mset)

lemma rec_fex_sort_mset: "mset (fex_elems (rec_fex_sort fex)) = mset (fex_elems fex)"
proof -
  have "mset (take 1 es) + mset (drop 1 es) = mset es" for es :: "rec_fex_elem list"
    by (metis append_take_drop_id mset_append)
  then show ?thesis by (simp add: rec_fex_sort_def sort_from_mset)
qed

abbreviation mins :: "rec_fex_elem list \<Rightarrow> int list" where
  "mins \<equiv> map fex_elem_min"

lemma sort_insert_sorted:
  assumes "sorted (mins (rev rs @ moved))" and "-1 \<notin> set (mins (rev rs @ moved))"
    and "\<forall>m \<in> set (mins moved). fex_elem_min aux \<le> m"
  shows "sorted (mins (sort_insert aux rs moved))"
  using assms
proof (induction aux rs moved rule: sort_insert.induct)
  case (2 aux e rs moved)
  show ?case
  proof (cases "fex_elem_min e > fex_elem_min aux")
    case True
    with 2 show ?thesis by (auto simp: sorted_append)
  next
    case False
    with 2(2-4) show ?thesis by (auto simp: sorted_append)
  qed
qed (auto simp: sorted_append)

lemma sort_from_sorted:
  "sorted (mins ds) \<Longrightarrow> -1 \<notin> set (mins (ds @ es)) \<Longrightarrow> sorted (mins (sort_from ds es))"
proof (induction ds es rule: sort_from.induct)
  case (2 ds e es)
  have "sorted (mins (sort_insert e (rev ds) []))" using 2(2,3) by (intro sort_insert_sorted) auto
  moreover have "set (mins (sort_insert e (rev ds) [])) = insert (fex_elem_min e) (set (mins ds))"
    using arg_cong [OF sort_insert_mset [of e "rev ds" "[]"], of set_mset] by auto
  ultimately show ?case using 2 by auto
qed simp

lemma rec_fex_sort_sorted:
  assumes "-1 \<notin> set (mins (fex_elems fex))"
  shows "sorted (mins (fex_elems (rec_fex_sort fex)))"
proof -
  have "take 1 es @ drop 1 es = es" for es :: "rec_fex_elem list" by (rule append_take_drop_id)
  with assms show ?thesis
    by (cases "fex_elems fex") (auto simp: rec_fex_sort_def intro!: sort_from_sorted)
qed

definition fex_wf :: "rec_fex \<Rightarrow> bool" where
  "fex_wf fex \<longleftrightarrow> pred_option cstring (fex_str fex)
     \<and> list_all (\<lambda>e. pred_option cstring (fex_elem_str e) \<and> pred_option cstring (fex_elem_field_name e)
           \<and> pred_option cstring (fex_elem_rewrite_to e) \<and> pred_option cstring (fex_elem_function_name e)) (fex_elems fex)"

lemma rec_fex_dup_id:
  assumes "fex_wf fex" and "fex_str fex \<noteq> None"
  shows "rec_fex_dup fex = Some fex"
proof -
  have "map_option strdup x = x" if "pred_option cstring x" for x using that by (cases x) simp_all
  then have "map (\<lambda>e. \<lparr>fex_elem_str = map_option strdup (fex_elem_str e), fex_elem_field_name = map_option strdup (fex_elem_field_name e),
      fex_elem_rewrite_to = map_option strdup (fex_elem_rewrite_to e), fex_elem_max = fex_elem_max e, fex_elem_min = fex_elem_min e,
      fex_elem_function_name = map_option strdup (fex_elem_function_name e)\<rparr>) (fex_elems fex) = fex_elems fex"
    using assms(1) by (intro map_idI) (auto simp: fex_wf_def list_all_iff)
  then show ?thesis using assms by (auto simp: rec_fex_dup_def fex_wf_def)
qed

section \<open>Checked expressions are accepted\<close>

definition pieces_ok :: "(char \<Rightarrow> bool) \<Rightarrow> string \<Rightarrow> bool" where
  "pieces_ok sep s \<longleftrightarrow> (\<forall>l \<in> set (strsep_all sep s). l = [] \<or> parse_simple_elem l \<noteq> None)"

text \<open>Separators (\<open>b\<close>) and elements (\<open>e\<close>) of a list.\<close>

definition list_syntax :: "(char \<Rightarrow> bool) \<Rightarrow> re \<Rightarrow> re \<Rightarrow> bool" where
  "list_syntax sep b e \<longleftrightarrow> (\<forall>u. re_lang b u \<longrightarrow> u \<noteq> [] \<and> list_all sep u)
     \<and> (\<forall>u. re_lang e u \<longrightarrow> u \<noteq> [] \<and> parse_simple_elem u \<noteq> None \<and> list_all (\<lambda>c. \<not> sep c) u)"

lemma pieces_sep: "list_all sep b \<Longrightarrow> pieces_ok sep (b @ t) \<longleftrightarrow> pieces_ok sep t"
  by (induction b) (simp_all add: pieces_ok_def)

lemma pieces_elem:
  assumes "list_all (\<lambda>c. \<not> sep c) u" and "parse_simple_elem u \<noteq> None" and "t = [] \<or> (sep (hd t) \<and> pieces_ok sep (tl t))"
  shows "pieces_ok sep (u @ t)"
proof (cases t)
  case Nil
  with assms strsep_all_no_sep [OF assms(1)] show ?thesis by (simp add: pieces_ok_def)
next
  case (Cons c v)
  with assms strsep_all_append [of sep c u v] strsep_all_no_sep [OF assms(1)] show ?thesis
    by (simp add: pieces_ok_def)
qed

lemma pieces_star:
  assumes "list_syntax sep b e"
  shows "re_lang (Star (Seq b e)) t \<Longrightarrow> t = [] \<or> (sep (hd t) \<and> pieces_ok sep (tl t))"
proof (induction "Star (Seq b e)" t rule: re_lang.induct)
  case (StarCons s t)
  then obtain u v where s: "s = u @ v" "re_lang b u" "re_lang e v" by (auto simp: re_lang_Seq)
  then obtain c u' where u: "u = c # u'" "sep c" "list_all sep u'"
    using assms by (cases u) (auto simp: list_syntax_def)
  have "pieces_ok sep (v @ t)" using assms s(3) StarCons(3) by (intro pieces_elem) (auto simp: list_syntax_def)
  then have "pieces_ok sep (u' @ v @ t)" using pieces_sep [OF u(3)] by simp
  then show ?case using s(1) u by simp
qed simp

lemma parse_simple_loop_pieces:
  "\<forall>l \<in> set ls. l = [] \<or> parse_simple_elem l \<noteq> None \<Longrightarrow>
   \<exists>es. parse_simple_loop ls acc = Some es \<and> length acc + length (filter (\<lambda>l. l \<noteq> []) ls) = length es"
proof (induction ls arbitrary: acc)
  case (Cons l ls)
  show ?case
  proof (cases "l = []")
    case True
    with Cons show ?thesis by simp
  next
    case False
    with Cons.prems obtain e where "parse_simple_elem l = Some e" by auto
    with False Cons.IH [of "acc @ [e]"] Cons.prems show ?thesis by auto
  qed
qed simp

lemma parse_list_accepted:
  assumes "list_syntax (\<lambda>c. c \<in> set sep) b e" and "re_lang (Seq e (Star (Seq b e))) s"
  shows "rec_fex_parse_str_simple s sep \<noteq> None"
proof -
  obtain u t where s: "s = u @ t" "re_lang e u" "re_lang (Star (Seq b e)) t" using assms(2) by (auto simp: re_lang_Seq)
  have t: "t = [] \<or> (hd t \<in> set sep \<and> pieces_ok (\<lambda>c. c \<in> set sep) (tl t))" using pieces_star [OF assms(1) s(3)] .
  have u: "u \<noteq> []" "parse_simple_elem u \<noteq> None" "list_all (\<lambda>c. c \<notin> set sep) u"
    using assms(1) s(2) by (auto simp: list_syntax_def)
  let ?ls = "strsep_all (\<lambda>c. c \<in> set sep) s"
  have "pieces_ok (\<lambda>c. c \<in> set sep) s" unfolding s(1) using u(3,2) t by (rule pieces_elem)
  then obtain es where es: "parse_simple_loop ?ls [] = Some es" "length (filter (\<lambda>l. l \<noteq> []) ?ls) = length es"
    using parse_simple_loop_pieces [of ?ls "[]"] by (auto simp: pieces_ok_def)
  have "u \<in> set ?ls"
  proof (cases t)
    case Nil
    then show ?thesis using s(1) strsep_all_no_sep [OF u(3)] by simp
  next
    case (Cons c v)
    then show ?thesis
      using t s(1) strsep_all_append [of "\<lambda>c. c \<in> set sep" c u v] strsep_all_no_sep [OF u(3)] by simp
  qed
  then have "es \<noteq> []" using es(2) u(1) by (metis (mono_tags, lifting) filter_empty_conv length_0_conv)
  with es(1) show ?thesis by (simp add: rec_fex_parse_str_simple_def)
qed

lemma fname_no_sep:
  assumes "valid_fname n"
  shows "list_all (\<lambda>c. c \<noteq> CHR '' '' \<and> c \<noteq> TAB \<and> c \<noteq> NL \<and> c \<noteq> CHR '','') n"
proof -
  have "fname_char c \<or> c = CHR ''%'' \<Longrightarrow> c \<noteq> CHR '' '' \<and> c \<noteq> TAB \<and> c \<noteq> NL \<and> c \<noteq> CHR '',''" for c
    using fname_char_special not_fname_char by auto
  with valid_fname_chars [OF assms] show ?thesis by (auto simp: list_all_iff)
qed

lemma simple_syntax: "list_syntax (\<lambda>c. c \<in> set [CHR '' '', TAB, NL]) (re_plus BLANK_CLS) REC_FNAME_RE"
proof -
  have blank: "re_lang (re_plus BLANK_CLS) u \<Longrightarrow> u \<noteq> [] \<and> list_all (\<lambda>c. c \<in> set [CHR '' '', TAB, NL]) u" for u
    unfolding BLANK_CLS_def re_lang_plus_cls by (auto simp: list_all_iff)
  have "parse_simple_elem u \<noteq> None \<and> u \<noteq> []" if "valid_fname u" for u
    using that parse_fname_ok [of u "[]"] by (auto simp: parse_simple_elem_def)
  with blank show ?thesis
    using fname_no_sep by (fastforce simp: list_syntax_def fname_lang list_all_iff)
qed

lemma fname_fex_parse:
  assumes "re_lang REC_FNAME_FEX_RE u"
  shows "parse_simple_elem u \<noteq> None" and "u \<noteq> []" and "CHR '','' \<notin> set u"
proof -
  from assms obtain n t where u: "u = n @ t" "valid_fname n" and t: "t = [] \<or> (\<exists>m. t = CHR ''.'' # m \<and> valid_fname m)"
    by (auto simp: REC_FNAME_FEX_RE_def re_lang_Seq fname_lang)
  have "rec_parse_regexp (Begin REC_FNAME_RE) (n @ t) = Some (n, t)"
    using u(2) t by (intro parse_fname_re) auto
  then show "parse_simple_elem u \<noteq> None"
    using t parse_fname_re [of _ "[]"] unfolding u(1) by (auto simp: parse_simple_elem_def parse_fname_def peek_def)
  show "u \<noteq> []" using u by auto
  have comma: "CHR '','' \<notin> set m" if "valid_fname m" for m
    using fname_no_sep [OF that] by (auto simp: list_all_iff)
  show "CHR '','' \<notin> set u" using comma [OF u(2)] t comma unfolding u(1) by auto
qed

lemma csv_syntax: "list_syntax (\<lambda>c. c \<in> set '','') (re_char CHR '','') REC_FNAME_FEX_RE"
  using fname_fex_parse by (auto simp: list_syntax_def list_all_iff)

lemma rec_fex_check_accepted:
  assumes "rec_fex_check s kind" and "kind \<noteq> REC_FEX_SUBSCRIPTS"
  shows "rec_fex_new (Some s) kind \<noteq> None"
proof (cases kind)
  case REC_FEX_SIMPLE
  then have "re_lang (Seq REC_FNAME_RE (Star (Seq (re_plus BLANK_CLS) REC_FNAME_RE))) s"
    using assms(1) by (simp add: rec_fex_check_def rec_match_def re_match_iff REC_FNAME_LIST_RE_def split: if_splits)
  with REC_FEX_SIMPLE parse_list_accepted [OF simple_syntax] show ?thesis by (simp add: rec_fex_new_def)
next
  case REC_FEX_CSV
  then have "re_lang (Seq REC_FNAME_FEX_RE (Star (Seq (re_char CHR '','') REC_FNAME_FEX_RE))) s"
    using assms(1) by (simp add: rec_fex_check_def rec_match_def re_match_iff REC_FNAME_LIST_CS_RE_def split: if_splits)
  with REC_FEX_CSV parse_list_accepted [OF csv_syntax] show ?thesis by (simp add: rec_fex_new_def)
qed (use assms in simp)

section \<open>Properties\<close>

text \<open>
  C32. Printing a field expression and parsing the text gives the same elements, in every one of
  the three syntaxes: names, subscripts, rewrite rules and functions agree. The elements
  are those the syntax can print: proper names, no calls or rewrites, and subscripts in range.
\<close>

theorem fex_print_parse:
  assumes "list_all (fex_elem_plain kind) (fex_elems fex)" and "fex_elems fex \<noteq> []"
  shows "\<exists>fex'. rec_fex_new (Some (rec_fex_str fex kind)) kind = Some fex'
    \<and> map fex_key (fex_elems fex') = map fex_key (fex_elems fex)"
  using assms by (rule rec_fex_roundtrip)

definition sample_fex :: rec_fex where
  "sample_fex = \<lparr>fex_str = Some ''Name[0-3],Mail'',
     fex_elems = [\<lparr>fex_elem_str = None, fex_elem_field_name = Some ''Name'', fex_elem_rewrite_to = None,
                   fex_elem_max = 3, fex_elem_min = 0, fex_elem_function_name = None\<rparr>,
                  \<lparr>fex_elem_str = None, fex_elem_field_name = Some ''Mail'', fex_elem_rewrite_to = None,
                   fex_elem_max = -1, fex_elem_min = -1, fex_elem_function_name = None\<rparr>]\<rparr>"

theorem fex_print_parse_witness:
  "\<exists>fex'. rec_fex_new (Some (rec_fex_str sample_fex REC_FEX_SUBSCRIPTS)) REC_FEX_SUBSCRIPTS = Some fex'
    \<and> map fex_key (fex_elems fex') = map fex_key (fex_elems sample_fex)"
proof (rule fex_print_parse)
  show "list_all (fex_elem_plain REC_FEX_SUBSCRIPTS) (fex_elems sample_fex)"
    by (simp add: sample_fex_def fex_elem_plain_def index_ok_def fname_char_def rec_parser_letter_p_def schar_def)
qed (simp add: sample_fex_def)

text \<open>
  \<open>rec_fex_sort\<close> permutes the elements, and when every element has a subscript the result is
  sorted by the minimal index.
\<close>

lemma fex_sort_correct:
  "mset (fex_elems (rec_fex_sort fex)) = mset (fex_elems fex)
   \<and> (-1 \<notin> set (mins (fex_elems fex)) \<longrightarrow> sorted (mins (fex_elems (rec_fex_sort fex))))"
  using rec_fex_sort_mset rec_fex_sort_sorted by blast

text \<open>
  A string that \<open>rec_fex_check\<close> accepts in the simple or the comma separated syntax is
  parsed by \<open>rec_fex_new\<close> in that syntax.
\<close>

lemma fex_check_sound:
  assumes "rec_fex_check s kind" and "kind \<noteq> REC_FEX_SUBSCRIPTS"
  shows "\<exists>fex. rec_fex_new (Some s) kind = Some fex"
  using rec_fex_check_accepted [OF assms] by blast

end
