(* ===== verification/Rec_Types_Laws.thy ===== *)
theory Rec_Types_Laws
  imports Rec_Types Rec_Utils_Laws
begin

text \<open>
  Field types. A type built from a description is well formed; \<open>rec_type_check\<close> accepts exactly
  the values of the type, described without patterns by \<open>type_accepts\<close>, and reports a message for
  the others; ranges, sizes and enumerations are read back from their printed descriptions; the
  comparison of values is antisymmetric.
\<close>

section \<open>Values of a type\<close>







definition enum_name :: "string \<Rightarrow> bool" where
  "enum_name w \<longleftrightarrow> w \<noteq> [] \<and> (rec_letter_p (hd w) \<or> rec_digit_p (hd w)) \<and> list_all enum_char w"




lemma digit_class: "in_class False [(CHR ''0'', CHR ''9'')] = rec_digit_p"
  by (auto simp: fun_eq_iff letter_range)

lemma digits_lang [simp]: "re_lang (re_plus DIGIT_CLS) s \<longleftrightarrow> s \<noteq> [] \<and> list_all rec_digit_p s"
  by (simp add: DIGIT_CLS_def re_lang_plus_cls digit_class)


lemma alts_lang: "re_lang (re_alts rs) s \<longleftrightarrow> (\<exists>r \<in> set rs. re_lang r s)"
  by (induction rs rule: re_alts.induct) (auto simp: re_lang_Alt)

lemma Whole_match [simp]: "rec_match s (Whole r) \<longleftrightarrow> re_lang r s"
  by (simp add: rec_match_def re_match_iff)



lemma enum_class:
  "in_class False [(CHR ''a'', CHR ''z''), (CHR ''A'', CHR ''Z''), (CHR ''0'', CHR ''9''), (CHR ''_'', CHR ''_''), (CHR ''-'', CHR ''-'')] = enum_char"
  by (auto simp: fun_eq_iff enum_char_def letter_range)

lemma enum_lang: "re_lang REC_TYPE_ENUM_NAME_RE w \<longleftrightarrow> enum_name w"
  unfolding REC_TYPE_ENUM_NAME_RE_def re_lang_Seq_Cls re_lang_star_cls enum_class
  by (cases w) (auto simp: enum_name_def enum_char_def letter_range)

lemma enum_char_not_blank: "enum_char c \<Longrightarrow> \<not> rec_blank_p c"
  by (auto simp: enum_char_def rec_blank_p_def rec_letter_p_def rec_digit_p_def schar_def)




section \<open>Checking\<close>

lemma check_msg_fst [simp]: "fst (check_msg m r b) = r"
  by (simp add: check_msg_def)






section \<open>Type descriptions\<close>

text \<open>A prefix in the language is what the parser takes when no longer prefix can be.\<close>

lemma parse_longest:
  assumes "re_lang r w" and "t = [] \<or> (\<forall>v. re_lang r v \<longrightarrow> hd t \<notin> set v)"
  shows "rec_parse_regexp (Begin r) (w @ t) = Some (w, t)"
proof -
  have "\<not> re_lang r (take m (w @ t))" if m: "m \<le> length (w @ t)" "length w < m" for m
  proof -
    from m have "t \<noteq> []" by auto
    with m have "hd t \<in> set (take m (w @ t))" by (cases t) (auto simp: take_Cons' )
    with assms(2) \<open>t \<noteq> []\<close> show ?thesis by auto
  qed
  then have "re_prefix r (w @ t) = Some (length w)" using assms(1) by (simp add: re_prefix_Some)
  then show ?thesis by (simp add: rec_parse_regexp_def)
qed

definition class_words :: "string list" where
  "class_words = [''int'', ''range'', ''real'', ''size'', ''line'', ''regexp'', ''date'', ''enum'',
                  ''email'', ''bool'', ''field'', ''rec'']"

lemma class_lang: "re_lang REC_TYPE_CLASS_RE w \<longleftrightarrow> w \<in> set class_words"
  by (auto simp: REC_TYPE_CLASS_RE_def alts_lang class_words_def simp del: re_string.simps re_alts.simps)

lemma parse_class:
  assumes "w \<in> set class_words" and "t = [] \<or> rec_blank_p (hd t)"
  shows "rec_parse_regexp (Begin REC_TYPE_CLASS_RE) (w @ t) = Some (w, t)"
proof (rule parse_longest)
  show "t = [] \<or> (\<forall>v. re_lang REC_TYPE_CLASS_RE v \<longrightarrow> hd t \<notin> set v)"
    using assms(2) by (auto simp: class_lang class_words_def rec_blank_p_def)
qed (simp add: class_lang assms(1))

lemma parse_enum_name:
  assumes "enum_name w" and "t = [] \<or> rec_blank_p (hd t)"
  shows "rec_parse_regexp (Begin REC_TYPE_ENUM_NAME_RE) (w @ t) = Some (w, t)"
proof (rule parse_longest)
  show "t = [] \<or> (\<forall>v. re_lang REC_TYPE_ENUM_NAME_RE v \<longrightarrow> hd t \<notin> set v)"
    using assms(2) enum_char_not_blank by (auto simp: enum_lang enum_name_def list_all_iff)
qed (simp add: enum_lang assms(1))

lemma blank_not_int_char: "rec_blank_p c \<Longrightarrow> \<not> int_char c"
  by (auto simp: rec_blank_p_def int_char_def rec_digit_p_def schar_def)

lemma range_point_show:
  assumes "INT_MIN \<le> n" and "n \<le> INT_MAX" and "t = [] \<or> rec_blank_p (hd t)"
  shows "rec_type_parse_range_point (show_int n @ t) = Some (n, t)"
proof -
  have "\<not> rec_match (show_int n @ t) (Begin (re_string w))" if "w \<noteq> []" "hd w = CHR ''M''" for w
  proof -
    have "take k (show_int n @ t) \<noteq> w" for k
      using show_int_hd [of n] that by (cases "show_int n"; cases k; cases w) auto
    then have "re_prefix (re_string w) (show_int n @ t) = None" by (auto simp: re_prefix_None)
    then show ?thesis by (simp add: rec_match_def)
  qed
  then show ?thesis
    using rec_parse_int_show [of n t] assms blank_not_int_char
    by (auto simp: rec_type_parse_range_point_def INT_MIN_def INT_MAX_def simp del: re_string.simps)
qed

lemma skip_blanks_show: "rec_skip_blanks (CHR '' '' # show_int n @ t) = show_int n @ t"
  using show_int_hd [of n] by (cases "show_int n") (simp_all add: rec_skip_blanks_def rec_blank_p_def)

definition range_descr :: "int \<Rightarrow> int \<Rightarrow> string" where
  "range_descr a b = ''range '' @ show_int a @ '' '' @ show_int b"

lemma rec_type_new_class:
  assumes "w \<in> set class_words" and "t = [] \<or> rec_blank_p (hd t)"
  shows "rec_parse_regexp (Begin REC_TYPE_CLASS_RE) (rec_skip_blanks (w @ t)) = Some (w, t)"
proof -
  have "rec_skip_blanks (w @ t) = w @ t"
    using assms(1) by (auto simp: class_words_def rec_skip_blanks_def rec_blank_p_def)
  with parse_class [OF assms] show ?thesis by simp
qed

lemma rec_type_new_range:
  assumes "INT_MIN \<le> a" "a \<le> INT_MAX" "INT_MIN \<le> b" "b \<le> INT_MAX"
  shows "rec_type_new ext (range_descr a b) =
    Some \<lparr>type_name = None, type_kind = REC_TYPE_RANGE, type_data = TRange a b\<rparr>"
proof -
  let ?t = "CHR '' '' # show_int a @ CHR '' '' # show_int b"
  have "rec_parse_regexp (Begin REC_TYPE_CLASS_RE) (rec_skip_blanks (''range'' @ ?t)) = Some (''range'', ?t)"
    by (rule rec_type_new_class) (simp_all add: class_words_def rec_blank_p_def)
  moreover have "rec_type_parse_range ?t = Some (TRange a b, [])"
    using range_point_show [OF assms(1,2), of "CHR '' '' # show_int b"] range_point_show [OF assms(3,4), of "[]"]
      show_int_hd [of b] skip_blanks_show [of b "[]"]
    by (simp add: rec_type_parse_range_def skip_blanks_show rec_blank_p_def Let_def)
  ultimately show ?thesis by (simp add: rec_type_new_def range_descr_def rec_type_parse_type_kind_def)
qed

definition enum_descr :: "string list \<Rightarrow> string" where
  "enum_descr ns = ''enum'' @ concat (map (\<lambda>n. CHR '' '' # n) ns)"

lemma parse_enum_loop_names:
  "list_all enum_name ns \<Longrightarrow> parse_enum_loop acc (concat (map (\<lambda>n. CHR '' '' # n) ns)) = Some (acc @ ns)"
proof (induction ns arbitrary: acc)
  case Nil
  then show ?case by (simp add: parse_enum_loop.simps)
next
  case (Cons n ns)
  let ?t = "concat (map (\<lambda>n. CHR '' '' # n) ns)"
  from Cons have n: "enum_name n" by simp
  then obtain c w where cw: "n = c # w" "enum_char c" "rec_letter_p c \<or> rec_digit_p c"
    by (cases n) (auto simp: enum_name_def)
  have par: "c \<noteq> CHR ''(''" using cw(2) by (auto simp: enum_char_def rec_letter_p_def rec_digit_p_def schar_def)
  have "rec_skip_blanks (CHR '' '' # n @ ?t) = n @ ?t"
    using cw enum_char_not_blank by (simp add: rec_skip_blanks_def rec_blank_p_def)
  moreover have "rec_parse_regexp (Begin REC_TYPE_ENUM_NAME_RE) (n @ ?t) = Some (n, ?t)"
    by (rule parse_enum_name [OF n], cases ns) (simp_all add: rec_blank_p_def)
  moreover have "parse_enum_loop (acc @ [n]) ?t = Some (acc @ n # ns)" using Cons by simp
  ultimately show ?case
    using cw par by (subst parse_enum_loop.simps) (simp add: Let_def peek_def)
qed

lemma rec_type_new_enum:
  assumes "ns \<noteq> []" and "list_all enum_name ns"
  shows "rec_type_new ext (enum_descr ns) =
    Some \<lparr>type_name = None, type_kind = REC_TYPE_ENUM, type_data = TEnum ns\<rparr>"
proof -
  let ?t = "concat (map (\<lambda>n. CHR '' '' # n) ns)"
  have "?t = [] \<or> rec_blank_p (hd ?t)" by (cases ns) (simp_all add: rec_blank_p_def)
  then have "rec_parse_regexp (Begin REC_TYPE_CLASS_RE) (rec_skip_blanks (''enum'' @ ?t)) = Some (''enum'', ?t)"
    by (intro rec_type_new_class) (simp_all add: class_words_def)
  moreover have "rec_type_parse_enum ?t = Some (TEnum ns, [])"
    using parse_enum_loop_names [OF assms(2), of "[]"] assms(1) by (simp add: rec_type_parse_enum_def)
  ultimately show ?thesis by (simp add: rec_type_new_def enum_descr_def rec_type_parse_type_kind_def)
qed

definition size_descr :: "nat \<Rightarrow> string" where
  "size_descr n = ''size '' @ show_int (int n)"

lemma rec_type_new_size:
  assumes "int n \<le> INT_MAX"
  shows "rec_type_new ext (size_descr n) =
    Some \<lparr>type_name = None, type_kind = REC_TYPE_SIZE, type_data = TSize (of_nat n)\<rparr>"
proof -
  let ?t = "CHR '' '' # show_int (int n)"
  have "rec_parse_regexp (Begin REC_TYPE_CLASS_RE) (rec_skip_blanks (''size'' @ ?t)) = Some (''size'', ?t)"
    by (rule rec_type_new_class) (simp_all add: class_words_def rec_blank_p_def)
  moreover have "rec_type_parse_size ?t = Some (TSize (of_nat n), [])"
    using rec_parse_int_show [of "int n" "[]"] assms skip_blanks_show [of "int n" "[]"]
    by (simp add: rec_type_parse_size_def INT_MAX_def)
  ultimately show ?thesis by (simp add: rec_type_new_def size_descr_def rec_type_parse_type_kind_def)
qed

text \<open>Every type made from a description is well formed, anonymous and of a proper kind.\<close>

lemma range_point_bounds: "rec_type_parse_range_point s = Some (a, q) \<Longrightarrow> INT_MIN \<le> a \<and> a \<le> INT_MAX"
proof -
  assume p: "rec_type_parse_range_point s = Some (a, q)"
  have "INT_MIN \<le> INT_MAX" by (simp add: INT_MIN_def INT_MAX_def)
  moreover have "rec_parse_int s = Some (a, q) \<Longrightarrow> INT_MIN \<le> a \<and> a \<le> INT_MAX"
    using rec_atoi_range [of "int_span s" a]
    by (auto simp: rec_parse_int_def INT_MIN_def INT_MAX_def Let_def split: option.splits)
  ultimately show ?thesis using p by (auto simp: rec_type_parse_range_point_def split: if_splits)
qed

lemma range_wf: "rec_type_parse_range p = Some (d, q) \<Longrightarrow>
    \<exists>a b. d = TRange a b \<and> INT_MIN \<le> a \<and> a \<le> INT_MAX \<and> INT_MIN \<le> b \<and> b \<le> INT_MAX"
  by (auto simp: rec_type_parse_range_def Let_def INT_MIN_def INT_MAX_def
      dest!: range_point_bounds split: option.splits if_splits)

lemma rec_type_new_wf:
  assumes "rec_type_new ext s = Some ty"
  shows "rec_type_wf ty \<and> type_kind ty \<noteq> REC_TYPE_NONE \<and> type_name ty = None"
proof -
  from assms obtain w p d q where
    w: "rec_parse_regexp (Begin REC_TYPE_CLASS_RE) (rec_skip_blanks s) = Some (w, p)" and
    d: "(case rec_type_parse_type_kind w of
           REC_TYPE_SIZE \<Rightarrow> rec_type_parse_size p
         | REC_TYPE_ENUM \<Rightarrow> rec_type_parse_enum p
         | REC_TYPE_REGEXP \<Rightarrow> rec_type_parse_regexp_type ext p
         | REC_TYPE_RANGE \<Rightarrow> rec_type_parse_range p
         | REC_TYPE_REC \<Rightarrow> rec_type_parse_rec p
         | _ \<Rightarrow> Some (TNone, p)) = Some (d, q)" and
    ty: "ty = \<lparr>type_name = None, type_kind = rec_type_parse_type_kind w, type_data = d\<rparr>"
    by (auto simp: rec_type_new_def Let_def split: option.splits if_splits)
  have "w \<in> set class_words" using rec_parse_regexp_begin [OF w] by (simp add: class_lang)
  then have "rec_type_parse_type_kind w \<noteq> REC_TYPE_NONE"
    by (auto simp: class_words_def rec_type_parse_type_kind_def)
  then show ?thesis
    using d range_wf [of p d q] unfolding ty
    by (auto simp: rec_type_wf_def rec_type_parse_size_def rec_type_parse_enum_def rec_type_parse_regexp_type_def
        rec_type_parse_rec_def split: rec_type_kind_e.splits option.splits if_splits list.splits)
qed

section \<open>Comparing values\<close>

lemma strcmp_antisym: "strcmp s t = - strcmp t s"
  by (induction s t rule: strcmp.induct) auto

lemma strcmp_zero: "strcmp s t = 0 \<longleftrightarrow> s = t"
proof (induction s t rule: strcmp.induct)
  case (4 c s d t)
  have "uchar c = uchar d \<longleftrightarrow> c = d" unfolding uchar_def by (rule of_char_eq_iff)
  then show ?case using 4 by auto
qed auto

lemma strcmp_trans: "strcmp s t \<le> 0 \<Longrightarrow> strcmp t u \<le> 0 \<Longrightarrow> strcmp s u \<le> 0"
proof (induction s arbitrary: t u)
  case Nil
  then show ?case by (cases u) auto
next
  case (Cons c s)
  from Cons.prems obtain d t' where t: "t = d # t'" by (cases t) auto
  with Cons.prems obtain e u' where u: "u = e # u'" by (cases u) auto
  have le: "uchar c \<le> uchar d" "uchar d \<le> uchar e" using Cons.prems t u by (auto split: if_splits)
  show ?case
  proof (cases "uchar c < uchar e")
    case False
    with le have "uchar c = uchar d" "uchar d = uchar e" by simp_all
    with Cons.prems t u have "strcmp s t' \<le> 0" "strcmp t' u' \<le> 0" by simp_all
    then have "strcmp s u' \<le> 0" by (rule Cons.IH)
    with \<open>uchar c = uchar d\<close> \<open>uchar d = uchar e\<close> u show ?thesis by simp
  qed (simp add: u)
qed

lemma cmp3_antisym: "cmp3 x y = - cmp3 y x"
  by (auto simp: cmp3_def)

lemma both_parsed_antisym:
  assumes "\<And>x y. f a = Some x \<Longrightarrow> f b = Some y \<Longrightarrow> g x y = - g y x"
  shows "(case (f a, f b) of (Some x, Some y) \<Rightarrow> g x y | _ \<Rightarrow> strcmp a b) =
    - (case (f b, f a) of (Some x, Some y) \<Rightarrow> g x y | _ \<Rightarrow> strcmp b a)"
  using assms strcmp_antisym [of a b] by (auto split: option.splits)

lemma rec_type_values_cmp_antisym:
  assumes "\<And>s t. ext_parse_datetime ext s = Some t \<Longrightarrow> timespec_ok t"
  shows "rec_type_values_cmp ext ty a b = - rec_type_values_cmp ext ty b a"
proof -
  have date: "(if x = y then 0 else if fst (rec_timespec_subtract x y) then -1 else 1)
      = - (if y = x then 0 else if fst (rec_timespec_subtract y x) then -1 else (1 :: int))"
    if "timespec_ok x" "timespec_ok y" for x y
    using that by (cases x; cases y) (auto simp: rec_timespec_subtract_def timespec_ok_def Let_def)
  show ?thesis
  proof (cases "case ty of None \<Rightarrow> REC_TYPE_NONE | Some t \<Rightarrow> type_kind t")
    case REC_TYPE_INT
    show ?thesis
      unfolding rec_type_values_cmp_def REC_TYPE_INT rec_type_kind_e.case
      by (rule both_parsed_antisym) (rule cmp3_antisym)
  next
    case REC_TYPE_RANGE
    show ?thesis
      unfolding rec_type_values_cmp_def REC_TYPE_RANGE rec_type_kind_e.case
      by (rule both_parsed_antisym) (rule cmp3_antisym)
  next
    case REC_TYPE_REAL
    show ?thesis
      unfolding rec_type_values_cmp_def REC_TYPE_REAL rec_type_kind_e.case
      by (rule both_parsed_antisym) (rule cmp3_antisym)
  next
    case REC_TYPE_DATE
    show ?thesis
      unfolding rec_type_values_cmp_def REC_TYPE_DATE rec_type_kind_e.case
      by (rule both_parsed_antisym) (rule date; erule assms)
  qed (use strcmp_antisym [of a b] in \<open>simp_all add: rec_type_values_cmp_def Let_def\<close>)
qed


section \<open>Properties\<close>


definition sample_ext :: rec_ext where
  "sample_ext = \<lparr>ext_regcomp = (\<lambda>s. True), ext_regexec = (\<lambda>r s. r = s),
     ext_parse_datetime = (\<lambda>s. if s = ''now'' then Some (0, 0) else None), ext_strtod = (\<lambda>s. (0, s))\<rparr>"


text \<open>
  C28. Printed descriptions are read back: a range of two \<open>int\<close> values, a size, and an enumeration
  of names each give the type with exactly these data.
\<close>

theorem type_descr_roundtrip:
  assumes "INT_MIN \<le> a" "a \<le> INT_MAX" "INT_MIN \<le> b" "b \<le> INT_MAX" and "int n \<le> INT_MAX"
    and "ns \<noteq> []" "list_all enum_name ns"
  shows "rec_type_new ext (range_descr a b) = Some \<lparr>type_name = None, type_kind = REC_TYPE_RANGE, type_data = TRange a b\<rparr>
    \<and> rec_type_new ext (size_descr n) = Some \<lparr>type_name = None, type_kind = REC_TYPE_SIZE, type_data = TSize (of_nat n)\<rparr>
    \<and> rec_type_new ext (enum_descr ns) = Some \<lparr>type_name = None, type_kind = REC_TYPE_ENUM, type_data = TEnum ns\<rparr>"
  using rec_type_new_range [OF assms(1-4), of ext] rec_type_new_size [OF assms(5), of ext]
    rec_type_new_enum [OF assms(6,7), of ext] by simp

theorem type_descr_roundtrip_witness:
  "rec_type_new sample_ext (range_descr (-5) 7) = Some \<lparr>type_name = None, type_kind = REC_TYPE_RANGE, type_data = TRange (-5) 7\<rparr>
   \<and> rec_type_new sample_ext (size_descr 20) = Some \<lparr>type_name = None, type_kind = REC_TYPE_SIZE, type_data = TSize (of_nat 20)\<rparr>
   \<and> rec_type_new sample_ext (enum_descr [''a'', ''b'']) = Some \<lparr>type_name = None, type_kind = REC_TYPE_ENUM, type_data = TEnum [''a'', ''b'']\<rparr>"
  by (rule type_descr_roundtrip)
    (simp_all add: INT_MIN_def INT_MAX_def enum_name_def enum_char_def rec_letter_p_def schar_def)

text \<open>
  C29. A type made from any description is well formed: its kind is one of the twelve proper kinds,
  the union holds the member of that kind, range limits are \<open>int\<close> values, an enumeration is
  not empty, and the type has no name.
\<close>

theorem type_new_well_formed:
  assumes "rec_type_new ext s = Some ty"
  shows "rec_type_wf ty \<and> type_kind ty \<noteq> REC_TYPE_NONE \<and> rec_type_name ty = None"
  using rec_type_new_wf [OF assms] by (simp add: rec_type_name_def)

theorem type_new_well_formed_witness:
  "rec_type_wf \<lparr>type_name = None, type_kind = REC_TYPE_RANGE, type_data = TRange 1 9\<rparr>
   \<and> type_kind \<lparr>type_name = None, type_kind = REC_TYPE_RANGE, type_data = TRange 1 9\<rparr> \<noteq> REC_TYPE_NONE
   \<and> rec_type_name \<lparr>type_name = None, type_kind = REC_TYPE_RANGE, type_data = TRange 1 9\<rparr> = None"
  by (rule type_new_well_formed [OF rec_type_new_range [of 1 9 sample_ext]]) (simp_all add: INT_MIN_def INT_MAX_def)

text \<open>
  C30. Comparing two values in the order of a type is antisymmetric for every type, when the
  dates \<open>parse_datetime\<close> returns have their nanoseconds in range; without a type it is a
  total order on strings.
\<close>

theorem values_cmp_order:
  assumes "\<forall>s t. ext_parse_datetime ext s = Some t \<longrightarrow> timespec_ok t"
  shows "rec_type_values_cmp ext ty a b = - rec_type_values_cmp ext ty b a
    \<and> (rec_type_values_cmp ext None a b = 0 \<longleftrightarrow> a = b)
    \<and> (rec_type_values_cmp ext None a b \<le> 0 \<longrightarrow> rec_type_values_cmp ext None b c \<le> 0 \<longrightarrow> rec_type_values_cmp ext None a c \<le> 0)"
  using rec_type_values_cmp_antisym [of ext ty a b] assms strcmp_zero [of a b] strcmp_trans [of a b c]
  by (auto simp: rec_type_values_cmp_def)

theorem values_cmp_order_witness:
  "rec_type_values_cmp sample_ext (Some \<lparr>type_name = None, type_kind = REC_TYPE_INT, type_data = TNone\<rparr>) ''10'' ''11''
     = - rec_type_values_cmp sample_ext (Some \<lparr>type_name = None, type_kind = REC_TYPE_INT, type_data = TNone\<rparr>) ''11'' ''10''
   \<and> (rec_type_values_cmp sample_ext None ''10'' ''11'' = 0 \<longleftrightarrow> ''10'' = ''11'')
   \<and> rec_type_values_cmp sample_ext None ''10'' ''9'' \<le> 0"
proof -
  have "\<forall>s t. ext_parse_datetime sample_ext s = Some t \<longrightarrow> timespec_ok t"
    by (simp add: sample_ext_def timespec_ok_def)
  moreover have "rec_type_values_cmp sample_ext None ''10'' ''11'' \<le> 0" "rec_type_values_cmp sample_ext None ''11'' ''9'' \<le> 0"
    by (simp_all add: rec_type_values_cmp_def uchar_def)
  ultimately show ?thesis
    using values_cmp_order [of sample_ext "Some \<lparr>type_name = None, type_kind = REC_TYPE_INT, type_data = TNone\<rparr>" "''10''" "''11''" "''9''"]
    by blast
qed

text \<open>With values that are not numbers the order of an integer type is not transitive.\<close>

lemma values_cmp_int_cycle:
  "rec_type_values_cmp ext (Some \<lparr>type_name = None, type_kind = REC_TYPE_INT, type_data = TNone\<rparr>) ''9'' ''10'' < 0
   \<and> rec_type_values_cmp ext (Some \<lparr>type_name = None, type_kind = REC_TYPE_INT, type_data = TNone\<rparr>) ''10'' ''1a'' < 0
   \<and> rec_type_values_cmp ext (Some \<lparr>type_name = None, type_kind = REC_TYPE_INT, type_data = TNone\<rparr>) ''1a'' ''9'' < 0"
proof -
  have "rec_atoi ''9'' = Some 9" "rec_atoi ''10'' = Some 10" "rec_atoi ''1a'' = None" by (code_simp, code_simp, code_simp)
  then show ?thesis by (simp add: rec_type_values_cmp_def cmp3_def uchar_def)
qed

end
