(* ===== verification/Rec_Rset_Laws.thy ===== *)
theory Rec_Rset_Laws
  imports Rec_Rset Rec_Record_Laws Rec_Fex_Laws Rec_Types_Laws
begin

text \<open>
  Laws of record sets: the invariant, that grouping with a deletion map is the grouping of
  consecutive equal records, that generated integers are new, that the size directive bounds the
  number of records, and how field types follow from the descriptor.
\<close>

section \<open>Well-formed record sets\<close>

definition rset_elem_ok :: "sdata mset_elem \<Rightarrow> bool" where
  "rset_elem_ok e =
     (case elem_data e of
        SRecord r \<Rightarrow> elem_type e = MSET_RECORD \<and> rec_record_wf r
      | SComment c \<Rightarrow> elem_type e = MSET_COMMENT \<and> cstring c)"

abbreviation rset_table :: "sdata rec_mset" where
  "rset_table \<equiv> rset_mset rec_rset_new"

definition rec_rset_wf :: "rec_rset \<Rightarrow> bool" where
  "rec_rset_wf rset \<longleftrightarrow> typed_ok rset_table rset_elem_ok (rset_mset rset)
     \<and> rset_record_type rset = MSET_RECORD \<and> rset_comment_type rset = MSET_COMMENT
     \<and> pred_option rec_record_wf (rset_descriptor rset)"

lemma rec_rset_new_eq:
  "rec_rset_new =
     \<lparr>rset_descriptor = None, rset_descriptor_pos = 0, rset_field_props = [], rset_type_reg = Some rec_type_reg_new,
      rset_order_by_fields = None, rset_min_size = 0, rset_max_size = SIZE_MAX, rset_constraints = [],
      rset_record_type = 1, rset_comment_type = 2,
      rset_mset =
        \<lparr>mset_ntypes = 3, mset_name = [None, Some ''record'', Some ''comment'', None],
         mset_disp_fn = [None, Some ''rec_rset_record_disp_fn'', Some ''rec_rset_comment_disp_fn'', None],
         mset_equal_fn = [None, Some ''rec_rset_record_equal_fn'', Some ''rec_rset_comment_equal_fn'', None],
         mset_dup_fn = [None, Some ''rec_rset_record_dup_fn'', Some ''rec_rset_comment_dup_fn'', None],
         mset_compare_fn = [None, Some ''rec_rset_record_compare_fn'', Some ''rec_rset_comment_compare_fn'', None],
         mset_count = [0, 0, 0, 0], mset_elems = []\<rparr>\<rparr>"
  by (simp add: rec_rset_new_def register_or_same_def rec_mset_register_type_def rec_mset_new_def
      MAX_NTYPES_def strdup_def numeral_eq_Suc)

lemma rset_elem_okE:
  assumes "rset_elem_ok e"
  obtains r where "elem_type e = MSET_RECORD" "elem_data e = SRecord r" "rec_record_wf r"
    | c where "elem_type e = MSET_COMMENT" "elem_data e = SComment c" "cstring c"
  using assms by (auto simp: rset_elem_ok_def split: sdata.splits)

interpretation rsetm: typed_mset rset_table rset_elem_ok
proof
  show "mset_wf rset_table" by (simp add: mset_wf_def rec_rset_new_eq MAX_NTYPES_def numeral_eq_Suc)
  show "rset_elem_ok e \<Longrightarrow> elem_type e < mset_ntypes rset_table" for e
    by (erule rset_elem_okE) (simp_all add: rec_rset_new_eq)
qed

lemma rec_rset_new_wf [simp]: "rec_rset_wf rec_rset_new"
  by (simp add: rec_rset_wf_def typed_ok_def rec_rset_new_eq MAX_NTYPES_def numeral_eq_Suc)

section \<open>The records of a multi-set\<close>

definition elem_record :: "sdata mset_elem \<Rightarrow> rec_record option" where
  "elem_record e = (if elem_type e = MSET_RECORD then as_record (elem_data e) else None)"

definition elem_records :: "sdata mset_elem list \<Rightarrow> rec_record list" where
  "elem_records es = List.map_filter elem_record es"

definition record_positions :: "sdata mset_elem list \<Rightarrow> nat list" where
  "record_positions es = filter (\<lambda>i. elem_record (es ! i) \<noteq> None) [0..<length es]"

lemma elem_records_simps [simp]:
  "elem_records [] = []"
  "elem_records (e # es) = (case elem_record e of None \<Rightarrow> [] | Some r \<Rightarrow> [r]) @ elem_records es"
  by (simp_all add: elem_records_def map_filter_simps split: option.splits)

lemma map_filter_upt: "List.map_filter f es = map (\<lambda>i. the (f (es ! i))) (filter (\<lambda>i. f (es ! i) \<noteq> None) [0..<length es])"
proof (induction es rule: rev_induct)
  case Nil
  then show ?case by (simp add: List.map_filter_def)
next
  case (snoc e es)
  have "List.map_filter f (es @ [e]) = List.map_filter f es @ (case f e of None \<Rightarrow> [] | Some r \<Rightarrow> [r])"
    by (simp add: List.map_filter_def split: option.splits)
  moreover have "filter (\<lambda>i. f ((es @ [e]) ! i) \<noteq> None) [0..<length es] = filter (\<lambda>i. f (es ! i) \<noteq> None) [0..<length es]"
    by (rule filter_cong) (simp_all add: nth_append)
  moreover have "map (\<lambda>i. the (f ((es @ [e]) ! i))) (filter (\<lambda>i. f (es ! i) \<noteq> None) [0..<length es])
      = map (\<lambda>i. the (f (es ! i))) (filter (\<lambda>i. f (es ! i) \<noteq> None) [0..<length es])"
    by (simp add: nth_append)
  ultimately show ?case using snoc by (auto split: option.splits)
qed

lemma elem_record_at:
  "elem_record (mset_elems m ! i) = Some r \<Longrightarrow> rec_at m i = r"
  by (auto simp: elem_record_def as_record_def rec_at_def split: if_splits sdata.splits)

lemma elem_records_positions: "elem_records (mset_elems m) = map (rec_at m) (record_positions (mset_elems m))"
  unfolding elem_records_def record_positions_def map_filter_upt
  by (rule map_cong) (auto dest: elem_record_at)

lemma map_filter_map_filter:
  "List.map_filter g (map h (filter P xs)) = List.map_filter (\<lambda>x. if P x then g (h x) else None) xs"
  by (induction xs) (simp_all add: map_filter_simps split: option.splits)

lemma rset_records_positions:
  "rec_rset_records rset = map (\<lambda>i. (i, rec_at (rset_mset rset) i)) (record_positions (mset_elems (rset_mset rset)))"
proof -
  let ?es = "mset_elems (rset_mset rset)"
  let ?f = "\<lambda>x. if (\<lambda>(i, e). MSET_RECORD = MSET_ANY \<or> elem_type e = MSET_RECORD) x
      then (\<lambda>(i, d). map_option (Pair i) (as_record d)) ((\<lambda>(i, e). (i, elem_data e)) x) else None"
  have f: "?f (enumerate 0 ?es ! i) = map_option (Pair i) (elem_record (?es ! i))" if "i < length ?es" for i
    using that by (simp add: nth_enumerate_eq elem_record_def)
  have pos: "filter (\<lambda>i. ?f (enumerate 0 ?es ! i) \<noteq> None) [0..<length (enumerate 0 ?es)] = record_positions ?es"
    unfolding record_positions_def by (rule filter_cong) (use f in auto)
  have "rec_rset_records rset = map (\<lambda>i. the (?f (enumerate 0 ?es ! i))) (record_positions ?es)"
    unfolding rec_rset_records_def rec_mset_items_def map_filter_map_filter
    unfolding map_filter_upt [where f = ?f] pos ..
  also have "\<dots> = map (\<lambda>i. (i, rec_at (rset_mset rset) i)) (record_positions ?es)"
  proof (rule map_cong [OF refl])
    fix i assume "i \<in> set (record_positions ?es)"
    then obtain r where "i < length ?es" "elem_record (?es ! i) = Some r" by (auto simp: record_positions_def)
    then show "the (?f (enumerate 0 ?es ! i)) = (i, rec_at (rset_mset rset) i)"
      using f [of i] elem_record_at [of "rset_mset rset" i r] by simp
  qed
  finally show ?thesis .
qed

lemma rset_records_elems: "map snd (rec_rset_records rset) = elem_records (mset_elems (rset_mset rset))"
  by (simp add: rset_records_positions elem_records_positions comp_def)

lemma rec_rset_num_records_eq:
  assumes "rec_rset_wf rset"
  shows "rec_rset_num_records rset = length (rec_rset_records rset)"
proof -
  have ok: "typed_ok rset_table rset_elem_ok (rset_mset rset)" and t: "rset_record_type rset = MSET_RECORD"
    using assms by (simp_all add: rec_rset_wf_def)
  have "count_type es 1 = length (elem_records es)" if "list_all rset_elem_ok es" for es
    using that by (induction es) (auto simp: elem_record_def as_record_def elim!: rset_elem_okE)
  then have "count_type (mset_elems (rset_mset rset)) 1 = length (map snd (rec_rset_records rset))"
    unfolding rset_records_elems using ok by (simp add: typed_ok_def)
  then show ?thesis
    using mset_wf_count [OF rsetm.ok_wf(1) [OF ok], of 1] t
    by (simp add: rec_rset_num_records_def rec_mset_count_def MAX_NTYPES_def)
qed

section \<open>Merging\<close>

lemma merge_elems_ok:
  assumes "list_all record_elem_ok es"
  shows "record_mset_ok m \<Longrightarrow> record_mset_ok (merge_elems gb m es)
    \<and> elem_fields (mset_elems (merge_elems gb m es)) =
        elem_fields (mset_elems m) @ filter (\<lambda>f. \<not> rec_fex_member_p gb (field_name f) (-1) (-1)) (elem_fields es)"
  using assms
proof (induction es arbitrary: m)
  case Nil
  then show ?case by simp
next
  case (Cons e es)
  from Cons.prems(2) have "record_elem_ok e" by simp
  then show ?case
  proof (cases rule: record_elem_okE)
    case (1 f)
    have e: "record_elem_ok \<lparr>elem_type = MSET_FIELD, elem_data = DField (rec_field_dup f)\<rparr>"
      using 1 by (simp add: record_elem_ok_def rec_field_dup_id)
    show ?thesis
    proof (cases "rec_fex_member_p gb (field_name f) (-1) (-1)")
      case True
      then show ?thesis using 1 Cons by (simp add: as_field_def)
    next
      case False
      then show ?thesis
        using 1 Cons.IH [of "snd (rec_mset_append m MSET_FIELD (DField (rec_field_dup f)) MSET_ANY)"] Cons.prems
          record_append_ok [OF Cons.prems(1) e] by (simp add: as_field_def rec_field_dup_id)
    qed
  next
    case (2 c)
    have e: "record_elem_ok \<lparr>elem_type = MSET_COMMENT, elem_data = DComment (rec_comment_dup c)\<rparr>"
      by (simp add: record_elem_ok_def rec_comment_dup_def)
    show ?thesis
      using 2 Cons.IH [of "snd (rec_mset_append m MSET_COMMENT (DComment (rec_comment_dup c)) MSET_ANY)"] Cons.prems
        record_append_ok [OF Cons.prems(1) e] by (simp add: as_field_def)
  qed
qed

lemma rec_rset_merge_records_ok:
  assumes "rec_record_wf r" and "rec_record_wf s"
  shows "rec_record_wf (rec_rset_merge_records r s gb)"
    and "map snd (rec_record_fields (rec_rset_merge_records r s gb)) =
      map snd (rec_record_fields r) @ filter (\<lambda>f. \<not> rec_fex_member_p gb (field_name f) (-1) (-1)) (map snd (rec_record_fields s))"
proof -
  have ok: "record_mset_ok (record_mset r)" "list_all record_elem_ok (mset_elems (record_mset s))"
    using assms by (simp_all add: rec_record_wf_def record_mset_ok_def)
  note m = merge_elems_ok [OF ok(2,1), of gb]
  show "rec_record_wf (rec_rset_merge_records r s gb)"
    using m assms(1) by (simp add: rec_rset_merge_records_def rec_record_wf_def)
  show "map snd (rec_record_fields (rec_rset_merge_records r s gb)) =
      map snd (rec_record_fields r) @ filter (\<lambda>f. \<not> rec_fex_member_p gb (field_name f) (-1) (-1)) (map snd (rec_record_fields s))"
    using m unfolding rec_record_fields_elems rec_rset_merge_records_def by simp
qed

section \<open>Grouping\<close>

text \<open>The specification: a record absorbs the following records that compare equal to what it has become.\<close>

fun absorb :: "('r \<Rightarrow> 'r \<Rightarrow> bool) \<Rightarrow> ('r \<Rightarrow> 'r \<Rightarrow> 'r) \<Rightarrow> 'r \<Rightarrow> 'r list \<Rightarrow> 'r \<times> 'r list" where
  "absorb eq mrg r [] = (r, [])"
| "absorb eq mrg r (s # ss) = (if eq r s then absorb eq mrg (mrg r s) ss else (r, s # ss))"

lemma absorb_length: "length (snd (absorb eq mrg r ss)) \<le> length ss"
  by (induction ss arbitrary: r) (auto intro: le_SucI)

function grouped :: "('r \<Rightarrow> 'r \<Rightarrow> bool) \<Rightarrow> ('r \<Rightarrow> 'r \<Rightarrow> 'r) \<Rightarrow> 'r list \<Rightarrow> 'r list" where
  "grouped eq mrg [] = []"
| "grouped eq mrg (r # rs) = fst (absorb eq mrg r rs) # grouped eq mrg (snd (absorb eq mrg r rs))"
  by pat_completeness auto
termination
  by (relation "measure (\<lambda>(eq, mrg, rs). length rs)") (auto simp: absorb_length less_Suc_eq_le)

abbreviation group_eq :: "rec_ext \<Rightarrow> rec_rset \<Rightarrow> rec_fex \<Rightarrow> rec_record \<Rightarrow> rec_record \<Rightarrow> bool" where
  "group_eq ext rset gb \<equiv> \<lambda>r s. rec_rset_compare_typed_records ext rset r s gb = 0"

abbreviation group_merge :: "rec_fex \<Rightarrow> rec_record \<Rightarrow> rec_record \<Rightarrow> rec_record" where
  "group_merge gb \<equiv> \<lambda>r s. rec_rset_merge_records r s gb"

text \<open>The positions hold records, and what the loops change stays a well-formed multi-set.\<close>

definition holds_records :: "sdata rec_mset \<Rightarrow> nat list \<Rightarrow> bool" where
  "holds_records m ps \<longleftrightarrow> typed_ok rset_table rset_elem_ok m
     \<and> (\<forall>i \<in> set ps. i < length (mset_elems m) \<and> elem_record (mset_elems m ! i) \<noteq> None)"

lemma set_record_holds:
  assumes "holds_records m ps" and "i \<in> set ps" and "rec_record_wf r"
  defines "m' \<equiv> rec_mset_elem_set_data m i (SRecord r)"
  shows "holds_records m' ps" "rec_at m' i = r" "\<forall>j. j \<noteq> i \<longrightarrow> mset_elems m' ! j = mset_elems m ! j"
    "length (mset_elems m') = length (mset_elems m)"
    "\<forall>j. elem_record (mset_elems m' ! j) = None \<longleftrightarrow> elem_record (mset_elems m ! j) = None"
proof -
  let ?e = "(mset_elems m ! i)\<lparr>elem_data := SRecord r\<rparr>"
  have i: "i < length (mset_elems m)" "elem_record (mset_elems m ! i) \<noteq> None"
    using assms(1,2) by (auto simp: holds_records_def)
  then have t: "elem_type (mset_elems m ! i) = MSET_RECORD" by (auto simp: elem_record_def split: if_splits)
  have m': "mset_elems m' = (mset_elems m)[i := ?e]" by (simp add: m'_def rec_mset_elem_set_data_def)
  have e: "elem_record ?e = Some r" using t by (simp add: elem_record_def as_record_def)
  show "\<forall>j. j \<noteq> i \<longrightarrow> mset_elems m' ! j = mset_elems m ! j" "length (mset_elems m') = length (mset_elems m)"
    by (simp_all add: m')
  show none: "\<forall>j. elem_record (mset_elems m' ! j) = None \<longleftrightarrow> elem_record (mset_elems m ! j) = None"
  proof
    fix j show "elem_record (mset_elems m' ! j) = None \<longleftrightarrow> elem_record (mset_elems m ! j) = None"
      using i e by (cases "j = i") (simp_all add: m')
  qed
  show "rec_at m' i = r" using i(1) by (simp add: m' rec_at_def)
  have "rset_elem_ok ?e" using t assms(3) by (simp add: rset_elem_ok_def)
  then have "typed_ok rset_table rset_elem_ok m'"
    unfolding m'_def using assms(1) i(1) by (intro rsetm.set_data_ok) (simp_all add: holds_records_def)
  then show "holds_records m' ps" using assms(1) none m' unfolding holds_records_def by simp
qed

lemma holds_records_wf: "holds_records m ps \<Longrightarrow> i \<in> set ps \<Longrightarrow> rec_record_wf (rec_at m i)"
proof -
  assume a: "holds_records m ps" "i \<in> set ps"
  then obtain r where r: "i < length (mset_elems m)" "elem_record (mset_elems m ! i) = Some r"
    by (auto simp: holds_records_def)
  then have "rset_elem_ok (mset_elems m ! i)" using a(1) by (simp add: holds_records_def typed_ok_def list_all_length)
  with r elem_record_at [OF r(2)] show ?thesis
    by (auto simp: elem_record_def as_record_def rset_elem_ok_def split: if_splits sdata.splits)
qed

text \<open>The inner loop absorbs a prefix of the records that follow and marks exactly those.\<close>

lemma group_inner_spec:
  assumes "group_inner ext rset gb i num js dm m = (dm', m')" and "holds_records m ps" and "i \<in> set ps" and "set js \<subseteq> set ps"
    and "i \<notin> set js" and "num + length js < length dm"
  shows "\<exists>c \<le> length js. absorb (group_eq ext rset gb) (group_merge gb) (rec_at m i) (map (rec_at m) js) =
        (rec_at m' i, map (rec_at m) (drop c js))
    \<and> length dm' = length dm \<and> (\<forall>k < length dm. dm' ! k \<longleftrightarrow> dm ! k \<or> num < k \<and> k \<le> num + c)
    \<and> holds_records m' ps \<and> (\<forall>j. j \<noteq> i \<longrightarrow> mset_elems m' ! j = mset_elems m ! j)
    \<and> length (mset_elems m') = length (mset_elems m)
    \<and> (\<forall>j. elem_record (mset_elems m' ! j) = None \<longleftrightarrow> elem_record (mset_elems m ! j) = None)"
  using assms
proof (induction js arbitrary: num dm m)
  case Nil
  then show ?case by auto
next
  case (Cons j js)
  show ?case
  proof (cases "group_eq ext rset gb (rec_at m i) (rec_at m j)")
    case False
    with Cons.prems show ?thesis by (intro exI [of _ 0]) auto
  next
    case True
    let ?r = "rec_rset_merge_records (rec_at m i) (rec_at m j) gb"
    let ?m = "rec_mset_elem_set_data m i (SRecord ?r)" and ?dm = "dm[Suc num := True]"
    have wf: "rec_record_wf ?r"
      using rec_rset_merge_records_ok(1) holds_records_wf [OF Cons.prems(2)] Cons.prems(3,4) by simp
    note up = set_record_holds [OF Cons.prems(2,3) wf]
    have same: "map (rec_at ?m) ks = map (rec_at m) ks" if "i \<notin> set ks" for ks
      using up(3) that by (auto simp: rec_at_def)
    have rec: "group_inner ext rset gb i (Suc num) js ?dm ?m = (dm', m')" using Cons.prems(1) True by simp
    from Cons.IH [OF rec up(1) Cons.prems(3)] Cons.prems(4-6) obtain c where c: "c \<le> length js"
      "absorb (group_eq ext rset gb) (group_merge gb) (rec_at ?m i) (map (rec_at ?m) js) = (rec_at m' i, map (rec_at ?m) (drop c js))"
      "length dm' = length dm" "\<forall>k < length dm. dm' ! k \<longleftrightarrow> ?dm ! k \<or> Suc num < k \<and> k \<le> Suc num + c"
      "holds_records m' ps" "\<forall>j. j \<noteq> i \<longrightarrow> mset_elems m' ! j = mset_elems ?m ! j"
      "length (mset_elems m') = length (mset_elems ?m)"
      "\<forall>j. elem_record (mset_elems m' ! j) = None \<longleftrightarrow> elem_record (mset_elems ?m ! j) = None"
      by auto
    have i: "i \<notin> set js" "i \<notin> set (drop c js)" using Cons.prems(5) by (auto dest: in_set_dropD)
    have ab: "absorb (group_eq ext rset gb) (group_merge gb) (rec_at m i) (map (rec_at m) (j # js)) = (rec_at m' i, map (rec_at m) (drop (Suc c) (j # js)))"
      using True c(2) same [OF i(1)] same [OF i(2)] up(2) by simp
    have "?dm ! k \<longleftrightarrow> dm ! k \<or> k = Suc num" if "k < length dm" for k
      using that Cons.prems(6) by (cases "k = Suc num") simp_all
    with c(4) have dm: "\<forall>k < length dm. dm' ! k \<longleftrightarrow> dm ! k \<or> num < k \<and> k \<le> num + Suc c" by auto
    show ?thesis
      using ab dm c up by (intro exI [of _ "Suc c"]) auto
  qed
qed

text \<open>
  The outer loop, when the first \<open>c\<close> of the records it still visits are already marked: what stays
  unmarked is the grouping of the others.
\<close>

lemma group_loop_spec:
  assumes "group_loop ext rset gb num is dm m = (dm', m')" and "holds_records m ps" and "set is \<subseteq> set ps" and "distinct is"
    and "num + length is \<le> length dm" and "c \<le> length is"
    and "\<forall>k. num \<le> k \<and> k < num + length is \<longrightarrow> (dm ! k \<longleftrightarrow> k < num + c)"
  shows "map (\<lambda>(k, i). rec_at m' i) (filter (\<lambda>(k, i). \<not> dm' ! k) (enumerate num is)) =
        grouped (group_eq ext rset gb) (group_merge gb) (map (rec_at m) (drop c is))
    \<and> length dm' = length dm \<and> (\<forall>k < num. dm' ! k = dm ! k)
    \<and> holds_records m' ps \<and> (\<forall>j. j \<notin> set is \<longrightarrow> mset_elems m' ! j = mset_elems m ! j)
    \<and> length (mset_elems m') = length (mset_elems m)
    \<and> (\<forall>j. elem_record (mset_elems m' ! j) = None \<longleftrightarrow> elem_record (mset_elems m ! j) = None)"
  using assms
proof (induction "is" arbitrary: num dm m c)
  case Nil
  then show ?case by auto
next
  case (Cons i js)
  have same: "map (rec_at m1) ks = map (rec_at m2) ks"
    if "\<forall>j \<in> set ks. mset_elems m1 ! j = mset_elems m2 ! j" for m1 m2 ks
    using that by (simp add: rec_at_def)
  show ?case
  proof (cases c)
    case (Suc c')
    then have marked: "dm ! num" using Cons.prems(7) by simp
    have "group_loop ext rset gb (Suc num) js dm m = (dm', m')" using Cons.prems(1) marked by simp
    moreover have "\<forall>k. Suc num \<le> k \<and> k < Suc num + length js \<longrightarrow> (dm ! k \<longleftrightarrow> k < Suc num + c')"
      using Cons.prems(7) Suc by auto
    ultimately have IH: "map (\<lambda>(k, i). rec_at m' i) (filter (\<lambda>(k, i). \<not> dm' ! k) (enumerate (Suc num) js)) =
        grouped (group_eq ext rset gb) (group_merge gb) (map (rec_at m) (drop c' js))
      \<and> length dm' = length dm \<and> (\<forall>k < Suc num. dm' ! k = dm ! k)
      \<and> holds_records m' ps \<and> (\<forall>j. j \<notin> set js \<longrightarrow> mset_elems m' ! j = mset_elems m ! j)
      \<and> length (mset_elems m') = length (mset_elems m)
      \<and> (\<forall>j. elem_record (mset_elems m' ! j) = None \<longleftrightarrow> elem_record (mset_elems m ! j) = None)"
      using Cons.IH [of "Suc num" dm m c'] Cons.prems(2-6) Suc by auto
    then have "dm' ! num" using marked by blast
    with IH Suc show ?thesis by simp
  next
    case 0
    then have unmarked: "\<not> dm ! num" using Cons.prems(7) by simp
    obtain dm1 m1 where inner: "group_inner ext rset gb i num js dm m = (dm1, m1)" by fastforce
    have loop: "group_loop ext rset gb (Suc num) js dm1 m1 = (dm', m')" using Cons.prems(1) unmarked inner by simp
    have i: "i \<in> set ps" "i \<notin> set js" "set js \<subseteq> set ps" "distinct js" "num + length js < length dm"
      using Cons.prems(3-5) by auto
    from group_inner_spec [OF inner Cons.prems(2) i(1,3,2,5)] obtain d where d: "d \<le> length js"
      "absorb (group_eq ext rset gb) (group_merge gb) (rec_at m i) (map (rec_at m) js) = (rec_at m1 i, map (rec_at m) (drop d js))"
      "length dm1 = length dm" "\<forall>k < length dm. dm1 ! k \<longleftrightarrow> dm ! k \<or> num < k \<and> k \<le> num + d"
      "holds_records m1 ps" "\<forall>j. j \<noteq> i \<longrightarrow> mset_elems m1 ! j = mset_elems m ! j"
      "length (mset_elems m1) = length (mset_elems m)"
      "\<forall>j. elem_record (mset_elems m1 ! j) = None \<longleftrightarrow> elem_record (mset_elems m ! j) = None" by auto
    have "\<forall>k. Suc num \<le> k \<and> k < Suc num + length js \<longrightarrow> (dm1 ! k \<longleftrightarrow> k < Suc num + d)"
      using d(4) Cons.prems(5,7) 0 by auto
    from Cons.IH [OF loop d(5) i(3,4) _ d(1) this] Cons.prems(5) d(3)
    have IH: "map (\<lambda>(k, i). rec_at m' i) (filter (\<lambda>(k, i). \<not> dm' ! k) (enumerate (Suc num) js)) =
        grouped (group_eq ext rset gb) (group_merge gb) (map (rec_at m1) (drop d js))"
      "length dm' = length dm1" "\<forall>k < Suc num. dm' ! k = dm1 ! k"
      "holds_records m' ps" "\<forall>j. j \<notin> set js \<longrightarrow> mset_elems m' ! j = mset_elems m1 ! j"
      "length (mset_elems m') = length (mset_elems m1)"
      "\<forall>j. elem_record (mset_elems m' ! j) = None \<longleftrightarrow> elem_record (mset_elems m1 ! j) = None" by auto
    have head: "rec_at m' i = rec_at m1 i" using IH(5) i(2) by (simp add: rec_at_def)
    have rest: "map (rec_at m1) (drop d js) = map (rec_at m) (drop d js)"
      using d(6) i(2) by (intro same) (auto dest: in_set_dropD)
    have num: "num < length dm" using Cons.prems(5) by simp
    then have "dm1 ! num = dm ! num" using d(4) by simp
    then have "\<not> dm' ! num" using IH(3) unmarked by simp
    then have "map (\<lambda>(k, i). rec_at m' i) (filter (\<lambda>(k, i). \<not> dm' ! k) (enumerate num (i # js))) =
        grouped (group_eq ext rset gb) (group_merge gb) (map (rec_at m) (drop c (i # js)))"
      using IH(1) d(2) rest head 0 by simp
    moreover have "\<forall>k < num. dm' ! k = dm ! k" using IH(3) d(4) num by auto
    ultimately show ?thesis using IH d by auto
  qed
qed

lemma elem_records_keep:
  "elem_records (keep_unmarked dm k es) = map snd (filter (\<lambda>(j, r). \<not> dm ! j) (enumerate k (elem_records es)))"
  if "list_all rset_elem_ok es"
  using that
proof (induction es arbitrary: k)
  case (Cons e es)
  then have "rset_elem_ok e" by simp
  then show ?case by (cases rule: rset_elem_okE) (use Cons in \<open>simp_all add: elem_record_def as_record_def\<close>)
qed simp

lemma elem_comments_keep:
  "filter (\<lambda>e. elem_type e = MSET_COMMENT) (keep_unmarked dm k es) = filter (\<lambda>e. elem_type e = MSET_COMMENT) es"
  by (induction es arbitrary: k) auto

lemma filter_type_cong:
  assumes "length es = length fs" and "\<forall>j < length es. es ! j = fs ! j \<or> \<not> P (es ! j) \<and> \<not> P (fs ! j)"
  shows "filter P es = filter P fs"
  using assms by (induction rule: list_induct2) (auto simp: All_less_Suc2)

lemma record_positions_ok:
  assumes "typed_ok rset_table rset_elem_ok m"
  shows "holds_records m (record_positions (mset_elems m))" and "distinct (record_positions (mset_elems m))"
  using assms by (auto simp: holds_records_def record_positions_def)

lemma record_positions_cong:
  assumes "length es = length fs" and "\<forall>j. elem_record (es ! j) = None \<longleftrightarrow> elem_record (fs ! j) = None"
  shows "record_positions es = record_positions fs"
  unfolding record_positions_def using assms by simp

lemma rset_group_ok:
  assumes "rec_rset_wf rset"
  shows "rec_rset_wf (rec_rset_group ext rset gb)"
    and "map snd (rec_rset_records (rec_rset_group ext rset gb)) =
      grouped (group_eq ext rset gb) (group_merge gb) (map snd (rec_rset_records rset))"
    and "rec_mset_data MSET_COMMENT (rset_mset (rec_rset_group ext rset gb)) = rec_mset_data MSET_COMMENT (rset_mset rset)"
proof -
  let ?m = "rset_mset rset" and ?G = "grouped (group_eq ext rset gb) (group_merge gb)"
  let ?ps = "record_positions (mset_elems ?m)"
  have ok: "typed_ok rset_table rset_elem_ok ?m" using assms by (simp add: rec_rset_wf_def)
  have ps: "map fst (rec_rset_records rset) = ?ps" by (simp add: rset_records_positions comp_def)
  have n: "rec_rset_num_records rset = length ?ps"
    using rec_rset_num_records_eq [OF assms] by (simp add: rset_records_positions)
  obtain dm m where loop: "group_loop ext rset gb 0 ?ps (replicate (length ?ps) False) ?m = (dm, m)" by fastforce
  note spec = group_loop_spec [OF loop record_positions_ok(1) [OF ok] subset_refl record_positions_ok(2) [OF ok], of 0]
  have kept: "map (\<lambda>(k, i). rec_at m i) (filter (\<lambda>(k, i). \<not> dm ! k) (enumerate 0 ?ps)) = ?G (map (rec_at ?m) ?ps)"
    and m: "typed_ok rset_table rset_elem_ok m" and len: "length (mset_elems m) = length (mset_elems ?m)"
    and other: "\<forall>j. j \<notin> set ?ps \<longrightarrow> mset_elems m ! j = mset_elems ?m ! j"
    and none: "\<forall>j. elem_record (mset_elems m ! j) = None \<longleftrightarrow> elem_record (mset_elems ?m ! j) = None"
    using spec by (auto simp: holds_records_def)
  have grp: "rec_rset_group ext rset gb = rset\<lparr>rset_mset := remove_masked dm 0 0 m\<rparr>"
    using loop ps n by (simp add: rec_rset_group_def)
  note rm = rsetm.remove_masked_ok [OF m, of dm 0 0]
  show "rec_rset_wf (rec_rset_group ext rset gb)" using assms rm by (simp add: grp rec_rset_wf_def)
  have "map snd (rec_rset_records (rec_rset_group ext rset gb)) =
      map snd (filter (\<lambda>(j, r). \<not> dm ! j) (enumerate 0 (map (rec_at m) ?ps)))"
    unfolding rset_records_elems grp using rm m elem_records_keep [of "mset_elems m" dm 0]
    by (simp add: elem_records_positions record_positions_cong [OF len none] typed_ok_def)
  also have "enumerate 0 (map (rec_at m) ?ps) = map (\<lambda>(k, i). (k, rec_at m i)) (enumerate 0 ?ps)"
    by (simp add: enumerate_eq_zip zip_map2)
  finally show "map snd (rec_rset_records (rec_rset_group ext rset gb)) = ?G (map snd (rec_rset_records rset))"
    using kept unfolding rset_records_elems elem_records_positions by (simp add: filter_map comp_def case_prod_beta')
  have "mset_elems m ! j = mset_elems ?m ! j \<or> elem_type (mset_elems m ! j) \<noteq> MSET_COMMENT \<and> elem_type (mset_elems ?m ! j) \<noteq> MSET_COMMENT"
    if "j < length (mset_elems m)" for j
    using that len other none
    by (cases "j \<in> set ?ps") (auto simp: record_positions_def elem_record_def split: if_splits)
  then have "filter (\<lambda>e. elem_type e = MSET_COMMENT) (mset_elems m) = filter (\<lambda>e. elem_type e = MSET_COMMENT) (mset_elems ?m)"
    by (intro filter_type_cong [OF len]) auto
  then show "rec_mset_data MSET_COMMENT (rset_mset (rec_rset_group ext rset gb)) = rec_mset_data MSET_COMMENT ?m"
    using rm elem_comments_keep [of dm 0 "mset_elems m"] by (simp add: grp rec_mset_data_def)
qed

section \<open>Generated integers\<close>

lemma digit_value_digit: "digit_value c < 10 \<Longrightarrow> rec_digit_p c"
  by (auto simp: letter_range in_range_def digit_value_def Let_def split: if_splits)

lemma strtol10_show:
  assumes "0 \<le> a" and "a < 2 ^ 63"
  shows "strtol10 (show_int a) = Some (a, [])"
proof -
  let ?s = "show_nat (nat a)"
  have s: "show_int a = ?s" using assms(1) by (simp add: show_int_def)
  have ok: "?s \<noteq> []" "list_all (\<lambda>c. digit_value c < 10) ?s" "digits_value 10 ?s = a"
    using show_nat_ok [of "nat a"] show_nat_value [of "nat a"] assms(1) by simp_all
  then have dig: "\<forall>c \<in> set ?s. rec_digit_p c" using digit_value_digit by (auto simp: list_all_iff)
  have hd: "\<not> isspace (hd ?s)" "hd ?s \<noteq> CHR ''-''" "hd ?s \<noteq> CHR ''+''"
    using ok(1,2) digit_not_special [of "hd ?s"] by (cases ?s; auto)+
  have sp: "dropWhile isspace ?s = ?s" using ok(1) hd(1) by (cases ?s) simp_all
  have pk: "peek ?s = hd ?s" using ok(1) by (cases ?s) (simp_all add: peek_def)
  have tw: "takeWhile rec_digit_p ?s = ?s" "dropWhile rec_digit_p ?s = []" using dig by simp_all
  show ?thesis unfolding strtol10_def s Let_def sp pk
    using hd ok assms by (simp add: tw del: takeWhile_eq_all_conv dropWhile_eq_Nil_conv)
qed

lemma int32_range: "INT_MIN \<le> int32 n" "int32 n \<le> INT_MAX"
  by (simp_all add: int32_def INT_MIN_def INT_MAX_def zle_diff1_eq)

text \<open>
  Decimal numbers with blanks and a sign in front, and the empty string, which \<open>strtol\<close> reads as 0.
  Numbers in other bases and numbers outside a \<open>long\<close> are not read.
\<close>

definition decimal :: "string \<Rightarrow> int \<Rightarrow> bool" where
  "decimal v k \<longleftrightarrow> v = [] \<and> k = 0
     \<or> (\<exists>ws sign ds. v = ws @ sign @ ds \<and> list_all isspace ws \<and> sign \<in> {[], ''+'', ''-''} \<and> ds \<noteq> [] \<and> list_all rec_digit_p ds
          \<and> k = (if sign = ''-'' then - digits_value 10 ds else digits_value 10 ds))"

definition in_long :: "int \<Rightarrow> bool" where
  "in_long k \<longleftrightarrow> - (2 ^ 63) \<le> k \<and> k < 2 ^ 63"

lemma digit_not_start: "rec_digit_p c \<Longrightarrow> \<not> isspace c \<and> c \<noteq> CHR ''-'' \<and> c \<noteq> CHR ''+''"
proof -
  assume "rec_digit_p c"
  then have "digit_value c < 10" by (auto simp: letter_range in_range_def digit_value_def Let_def split: if_splits)
  then show ?thesis using digit_not_special by blast
qed

lemma sign_not_space: "\<not> isspace (CHR ''-'')" "\<not> isspace (CHR ''+'')"
  by (simp_all add: isspace_def)

lemma strtol10_decimal: "strtol10 v = Some (k, []) \<longleftrightarrow> decimal v k \<and> in_long k"
proof
  assume r: "strtol10 v = Some (k, [])"
  define s1 where "s1 = dropWhile isspace v"
  define s2 where "s2 = (if peek s1 = CHR ''-'' \<or> peek s1 = CHR ''+'' then tl s1 else s1)"
  define ds where "ds = takeWhile rec_digit_p s2"
  define sign where "sign = (if peek s1 = CHR ''-'' then ''-'' else if peek s1 = CHR ''+'' then ''+'' else [])"
  note r' = r [unfolded strtol10_def Let_def, folded s1_def, folded s2_def, folded ds_def]
  show "decimal v k \<and> in_long k"
  proof (cases "ds = []")
    case True
    then show ?thesis using r' by (simp add: decimal_def in_long_def)
  next
    case False
    have k: "k = (if sign = ''-'' then - digits_value 10 ds else digits_value 10 ds)" "in_long k" "dropWhile rec_digit_p s2 = []"
      using r' False by (auto simp: in_long_def sign_def simp del: dropWhile_eq_Nil_conv split: if_splits)
    have "s1 = sign @ s2" by (cases s1) (auto simp: sign_def s2_def peek_def)
    moreover have "s2 = ds" using k(3) takeWhile_dropWhile_id [of rec_digit_p s2] unfolding ds_def by (metis append.right_neutral)
    ultimately have v: "v = takeWhile isspace v @ sign @ ds" using takeWhile_dropWhile_id [of isspace v] by (simp add: s1_def)
    have "list_all isspace (takeWhile isspace v)" "list_all rec_digit_p ds"
      by (auto simp: list_all_iff ds_def dest: set_takeWhileD)
    moreover have "sign \<in> {[], ''+'', ''-''}" by (auto simp: sign_def)
    ultimately have "decimal v k" using False k(1) v unfolding decimal_def
      by - (rule disjI2, rule exI [of _ "takeWhile isspace v"], rule exI [of _ sign], rule exI [of _ ds], blast)
    with k(2) show ?thesis by blast
  qed
next
  assume d: "decimal v k \<and> in_long k"
  show "strtol10 v = Some (k, [])"
  proof (cases "v = [] \<and> k = 0")
    case True
    then show ?thesis by (simp add: strtol10_def Let_def peek_def)
  next
    case False
    then obtain ws sign ds where v: "v = ws @ sign @ ds" "list_all isspace ws" "sign \<in> {[], ''+'', ''-''}" "ds \<noteq> []"
      "list_all rec_digit_p ds" "k = (if sign = ''-'' then - digits_value 10 ds else digits_value 10 ds)"
      using d unfolding decimal_def by blast
    obtain c cs where ds: "ds = c # cs" using v(4) by (cases ds) auto
    have c: "\<not> isspace c" "c \<noteq> CHR ''-''" "c \<noteq> CHR ''+''" using digit_not_start [of c] v(5) ds by auto
    have s1: "dropWhile isspace v = sign @ ds"
      using v(2,3) c sign_not_space by (auto simp: v(1) ds list_all_iff dropWhile_append)
    have s2: "(if peek (sign @ ds) = CHR ''-'' \<or> peek (sign @ ds) = CHR ''+'' then tl (sign @ ds) else sign @ ds) = ds"
      "peek (sign @ ds) = CHR ''-'' \<longleftrightarrow> sign = ''-''"
      using v(3) c by (auto simp: ds peek_def)
    have "takeWhile rec_digit_p ds = ds" "dropWhile rec_digit_p ds = []" using v(5) by (simp_all add: list_all_iff)
    then show ?thesis
      using v(4,6) d unfolding strtol10_def s1 Let_def s2(1) in_long_def by (simp add: s2(2) split: if_splits del: takeWhile_eq_all_conv dropWhile_eq_Nil_conv)
  qed
qed

text \<open>The \<open>int\<close> a value counts as: the number that is read, truncated to 32 bits.\<close>

definition numeric :: "string \<Rightarrow> int \<Rightarrow> bool" where
  "numeric v k \<longleftrightarrow> (\<exists>n. strtol10 v = Some (n, []) \<and> k = int32 n)"

lemma numeric_decimal: "numeric v k \<longleftrightarrow> (\<exists>m. decimal v m \<and> in_long m \<and> k = int32 m)"
  by (simp add: numeric_def strtol10_decimal)

lemma numeric_int:
  assumes "decimal v k" and "INT_MIN \<le> k" and "k \<le> INT_MAX"
  shows "numeric v k"
proof -
  have "int32 k = k" using assms(2,3) by (intro int32_id) (auto simp: INT_MIN_def INT_MAX_def)
  moreover have "in_long k" using assms(2,3) by (simp add: in_long_def INT_MIN_def INT_MAX_def)
  ultimately show ?thesis using assms(1) unfolding numeric_decimal by metis
qed

lemma auto_value_step_cases:
  "auto_value_step v (Some a) = Some a \<and> (\<forall>k. numeric v k \<longrightarrow> k < a)
   \<or> (\<exists>k. numeric v k \<and> a \<le> k \<and> auto_value_step v (Some a) = (if k = INT_MAX then None else Some (k + 1)))"
  by (auto simp: auto_value_step_def numeric_def Let_def split: option.splits prod.splits list.splits)

lemma auto_value_None [simp]: "fold auto_value_step vs None = None"
  by (induction vs) (simp_all add: auto_value_step_def)

lemma fold_auto_value:
  assumes "fold auto_value_step vs (Some a) = Some b" and "0 \<le> a" and "a \<le> INT_MAX"
  shows "a \<le> b \<and> b \<le> INT_MAX \<and> (\<forall>v \<in> set vs. \<forall>k. numeric v k \<longrightarrow> k < b)"
  using assms
proof (induction vs arbitrary: a)
  case (Cons v vs)
  have lt: "numeric v k \<Longrightarrow> k \<le> INT_MAX" for k using int32_range by (auto simp: numeric_def)
  from auto_value_step_cases [of v a] show ?case
  proof
    assume "auto_value_step v (Some a) = Some a \<and> (\<forall>k. numeric v k \<longrightarrow> k < a)"
    then show ?thesis using Cons.IH [of a] Cons.prems by (auto intro: less_le_trans)
  next
    assume "\<exists>k. numeric v k \<and> a \<le> k \<and> auto_value_step v (Some a) = (if k = INT_MAX then None else Some (k + 1))"
    then obtain k where k: "numeric v k" "a \<le> k" "auto_value_step v (Some a) = (if k = INT_MAX then None else Some (k + 1))" by blast
    then have step: "fold auto_value_step vs (Some (k + 1)) = Some b" and "k \<noteq> INT_MAX"
      using Cons.prems(1) by (auto split: if_splits)
    then have "k + 1 \<le> INT_MAX" using lt [OF k(1)] by simp
    with Cons.IH [OF step] k(2) Cons.prems(2)
    have IH: "k + 1 \<le> b" "b \<le> INT_MAX" "\<forall>v \<in> set vs. \<forall>k. numeric v k \<longrightarrow> k < b" by auto
    have "\<forall>k'. numeric v k' \<longrightarrow> k' < b" using k(1) IH(1) by (auto simp: numeric_def)
    with IH k(2) show ?thesis by auto
  qed
qed simp

text \<open>The value is the first one, or the successor of a value that is there.\<close>

lemma fold_auto_value_next:
  assumes "fold auto_value_step vs (Some a) = Some b"
  shows "b = a \<or> (\<exists>v \<in> set vs. numeric v (b - 1))"
  using assms
proof (induction vs arbitrary: a)
  case (Cons v vs)
  from auto_value_step_cases [of v a] show ?case
  proof
    assume "auto_value_step v (Some a) = Some a \<and> (\<forall>k. numeric v k \<longrightarrow> k < a)"
    then show ?thesis using Cons.IH [of a] Cons.prems by auto
  next
    assume "\<exists>k. numeric v k \<and> a \<le> k \<and> auto_value_step v (Some a) = (if k = INT_MAX then None else Some (k + 1))"
    then obtain k where "numeric v k" "fold auto_value_step vs (Some (k + 1)) = Some b" using Cons.prems by (auto split: if_splits)
    with Cons.IH [of "k + 1"] show ?thesis by auto
  qed
qed simp

lemma fold_auto_value_defined:
  "fold auto_value_step vs (Some a) = None \<Longrightarrow> \<exists>v \<in> set vs. numeric v INT_MAX"
proof (induction vs arbitrary: a)
  case (Cons v vs)
  show ?case
  proof (cases "auto_value_step v (Some a)")
    case None
    with auto_value_step_cases [of v a] show ?thesis by (auto split: if_splits)
  next
    case (Some b)
    with Cons show ?thesis by auto
  qed
qed simp

text \<open>The values of the fields of a name in the records of the set.\<close>

definition values_in :: "rec_rset \<Rightarrow> string \<Rightarrow> string set" where
  "values_in rset n = {field_value f | f r. r \<in> set (map snd (rec_rset_records rset)) \<and> f \<in> set (map snd (rec_record_fields r)) \<and> field_name f = n}"

lemma named_values_of_eq: "named_values_of n r = map (\<lambda>(i, f). field_value f) (filter (\<lambda>(i, f). field_name f = n) (rec_record_fields r))"
  by (rule nth_equalityI)
     (auto simp: named_values_of_def rec_record_get_num_fields_by_name_def rec_field_name_equal_p_def
       rec_record_get_field_by_name_eq Let_def case_prod_beta')

lemma values_in_eq: "values_in rset n = set (concat (map (named_values_of n) (map snd (rec_rset_records rset))))"
  by (force simp: values_in_def named_values_of_eq)

lemma auto_value_fresh:
  assumes "auto_value rset n = Some a"
  shows "0 \<le> a" "a \<le> INT_MAX" "\<forall>v \<in> values_in rset n. \<forall>k. numeric v k \<longrightarrow> k < a" "show_int a \<notin> values_in rset n"
    "a = 0 \<or> (\<exists>v \<in> values_in rset n. numeric v (a - 1))"
proof -
  have b: "0 \<le> a \<and> a \<le> INT_MAX \<and> (\<forall>v \<in> values_in rset n. \<forall>k. numeric v k \<longrightarrow> k < a)"
    using fold_auto_value [OF assms [unfolded auto_value_def]] by (simp add: values_in_eq INT_MAX_def)
  then show "0 \<le> a" "a \<le> INT_MAX" "\<forall>v \<in> values_in rset n. \<forall>k. numeric v k \<longrightarrow> k < a" by auto
  have "strtol10 (show_int a) = Some (a, [])" using b by (intro strtol10_show) (auto simp: INT_MAX_def)
  moreover have "int32 a = a" using b by (intro int32_id) (auto simp: INT_MAX_def)
  ultimately have "numeric (show_int a) a" by (auto simp: numeric_def)
  with b show "show_int a \<notin> values_in rset n" by auto
  show "a = 0 \<or> (\<exists>v \<in> values_in rset n. numeric v (a - 1))"
    using fold_auto_value_next [OF assms [unfolded auto_value_def]] by (simp add: values_in_eq)
qed

section \<open>The size directive\<close>

definition size_holds :: "rec_size_condition_e \<Rightarrow> size_t \<Rightarrow> size_t \<Rightarrow> bool" where
  "size_holds c sz k =
     (case c of SIZE_COND_E \<Rightarrow> k = sz | SIZE_COND_L \<Rightarrow> k < sz | SIZE_COND_LE \<Rightarrow> k \<le> sz
      | SIZE_COND_G \<Rightarrow> k > sz | SIZE_COND_GE \<Rightarrow> k \<ge> sz)"

lemma size_t_max: "k \<le> SIZE_MAX" "0 \<le> (k :: size_t)"
  by (simp_all add: SIZE_MAX_def word_order.extremum)

lemma size_t_less: "sz \<noteq> 0 \<Longrightarrow> k \<le> sz - 1 \<longleftrightarrow> k < (sz :: size_t)"
  by (simp add: word_le_nat_alt word_less_nat_alt unat_minus_one) (metis Suc_pred less_Suc_eq_le unat_eq_zero unat_gt_0)

lemma size_t_greater: "sz \<noteq> SIZE_MAX \<Longrightarrow> sz + 1 \<le> k \<longleftrightarrow> sz < (k :: size_t)"
proof -
  assume "sz \<noteq> SIZE_MAX"
  then have "sz + 1 \<noteq> 0" unfolding SIZE_MAX_def by (metis add_eq_0_iff2)
  then have "unat (sz + 1) = Suc (unat sz)" by (simp add: unatSuc add.commute)
  then show ?thesis by (simp add: word_le_nat_alt word_less_nat_alt Suc_le_eq)
qed

lemma size_bounds:
  assumes "Option.bind (rset_descriptor rset) (\<lambda>d. rec_record_get_field_by_name d ''%size'' 0) = Some (i, f)"
    and "rec_match (field_value f) (Whole REC_INT_SIZE_RE)" and "rec_extract_size (field_value f) = Some sz"
    and "rec_rset_update_size_constraints rset = Some rset'"
    and "rec_extract_size_condition (field_value f) = SIZE_COND_L \<Longrightarrow> sz \<noteq> 0"
    and "rec_extract_size_condition (field_value f) = SIZE_COND_G \<Longrightarrow> sz \<noteq> SIZE_MAX"
  shows "rset_min_size rset' \<le> k \<and> k \<le> rset_max_size rset' \<longleftrightarrow> size_holds (rec_extract_size_condition (field_value f)) sz k"
proof -
  let ?c = "rec_extract_size_condition (field_value f)" and ?r0 = "rset\<lparr>rset_min_size := 0, rset_max_size := SIZE_MAX\<rparr>"
  have r: "rset' = (case ?c of
        SIZE_COND_E \<Rightarrow> ?r0\<lparr>rset_min_size := sz, rset_max_size := sz\<rparr> | SIZE_COND_L \<Rightarrow> ?r0\<lparr>rset_max_size := sz - 1\<rparr>
      | SIZE_COND_LE \<Rightarrow> ?r0\<lparr>rset_max_size := sz\<rparr> | SIZE_COND_G \<Rightarrow> ?r0\<lparr>rset_min_size := sz + 1\<rparr>
      | SIZE_COND_GE \<Rightarrow> ?r0\<lparr>rset_min_size := sz\<rparr>)"
    using assms(1-4) by (simp add: rec_rset_update_size_constraints_def Let_def)
  have eq: "sz \<le> k \<and> k \<le> sz \<longleftrightarrow> k = sz" by auto
  have lo: "SIZE_COND_L = ?c \<Longrightarrow> k \<le> sz - 1 \<longleftrightarrow> k < sz" using size_t_less assms(5) by metis
  have hi: "SIZE_COND_G = ?c \<Longrightarrow> sz + 1 \<le> k \<longleftrightarrow> sz < k" using size_t_greater assms(6) by metis
  show ?thesis
  proof (cases ?c)
    case SIZE_COND_E
    then show ?thesis using r eq by (simp add: size_holds_def)
  next
    case SIZE_COND_L
    then show ?thesis using r lo by (simp add: size_holds_def)
  next
    case SIZE_COND_LE
    then show ?thesis using r by (simp add: size_holds_def)
  next
    case SIZE_COND_G
    then show ?thesis using r hi by (simp add: size_holds_def size_t_max)
  next
    case SIZE_COND_GE
    then show ?thesis using r by (simp add: size_holds_def size_t_max)
  qed
qed

section \<open>Properties\<close>

text \<open>
  C35. \<open>rec_rset_group\<close> with its deletion map implements grouping as it is specified on the list of
  records: each record in turn absorbs the following records as long as they compare equal to
  it in the group-by fields; the comments stay, and the record set stays well-formed. What a record
  gets from another one is the latter's fields that are not group-by fields.
\<close>

theorem rset_group_refines:
  assumes "rec_rset_wf rset"
  shows "rec_rset_wf (rec_rset_group ext rset gb)
    \<and> map snd (rec_rset_records (rec_rset_group ext rset gb)) =
        grouped (\<lambda>r s. rec_rset_compare_typed_records ext rset r s gb = 0) (\<lambda>r s. rec_rset_merge_records r s gb)
          (map snd (rec_rset_records rset))
    \<and> rec_mset_data MSET_COMMENT (rset_mset (rec_rset_group ext rset gb)) = rec_mset_data MSET_COMMENT (rset_mset rset)
    \<and> (\<forall>r s. rec_record_wf r \<and> rec_record_wf s \<longrightarrow>
         map snd (rec_record_fields (rec_rset_merge_records r s gb)) =
         map snd (rec_record_fields r) @
           filter (\<lambda>f. \<not> rec_fex_member_p gb (field_name f) (-1) (-1)) (map snd (rec_record_fields s)))"
  using rset_group_ok [OF assms] rec_rset_merge_records_ok(2) by blast

definition sample_pair :: "string \<Rightarrow> rec_record" where
  "sample_pair v = rec_record_new\<lparr>record_mset :=
     snd (rec_mset_append (snd (rec_mset_append (record_mset rec_record_new)
       MSET_FIELD (DField (rec_field_new ''A'' ''x'')) MSET_ANY)) MSET_FIELD (DField (rec_field_new ''B'' v)) MSET_ANY)\<rparr>"

definition sample_set :: rec_rset where
  "sample_set = rec_rset_new\<lparr>rset_mset :=
     snd (rec_mset_append (snd (rec_mset_append (rset_mset rec_rset_new)
       MSET_RECORD (SRecord (sample_pair ''1'')) MSET_ANY)) MSET_RECORD (SRecord (sample_pair ''2'')) MSET_ANY)\<rparr>"

definition sample_group :: rec_fex where
  "sample_group = the (rec_fex_new (Some ''A'') REC_FEX_SIMPLE)"

lemma sample_pair_wf: "rec_record_wf (sample_pair v)"
proof -
  have ok: "record_mset_ok record_table" using rec_record_new_wf by (simp add: rec_record_wf_def del: rec_record_new_wf)
  have e: "record_elem_ok \<lparr>elem_type = MSET_FIELD, elem_data = DField (rec_field_new a b)\<rparr>" for a b
    by (simp add: record_elem_ok_def)
  from record_append_ok(1) [OF record_append_ok(1) [OF ok e] e] rec_record_new_wf show ?thesis
    by (simp add: sample_pair_def rec_record_wf_def del: rec_record_new_wf)
qed

lemma sample_set_wf: "rec_rset_wf sample_set"
proof -
  have ok: "typed_ok rset_table rset_elem_ok rset_table" using rec_rset_new_wf by (simp add: rec_rset_wf_def del: rec_rset_new_wf)
  have e: "rset_elem_ok \<lparr>elem_type = MSET_RECORD, elem_data = SRecord (sample_pair v)\<rparr>" for v
    by (simp add: rset_elem_ok_def sample_pair_wf)
  from rsetm.append_ok(1) [OF rsetm.append_ok(1) [OF ok e] e] rec_rset_new_wf show ?thesis
    by (simp add: sample_set_def rec_rset_wf_def del: rec_rset_new_wf)
qed

theorem rset_group_refines_witness:
  "map (\<lambda>r. map (\<lambda>(i, f). (field_name f, field_value f)) (rec_record_fields r))
     (map snd (rec_rset_records (rec_rset_group sample_ext sample_set sample_group))) =
   [[(''A'', ''x''), (''B'', ''1''), (''B'', ''2'')]]"
proof -
  have "map snd (rec_rset_records (rec_rset_group sample_ext sample_set sample_group)) =
      grouped (\<lambda>r s. rec_rset_compare_typed_records sample_ext sample_set r s sample_group = 0)
        (\<lambda>r s. rec_rset_merge_records r s sample_group) (map snd (rec_rset_records sample_set))"
    using rset_group_refines [OF sample_set_wf, of sample_ext sample_group] by blast
  then show ?thesis by (simp only:) code_simp
qed

text \<open>
  C36. The integer \<open>rec_rset_add_auto_field_int\<close> generates: a value of the field counts when it is a decimal
  number within a \<open>long\<close>, and it counts as that number truncated to 32 bits. The integer is a non-negative
  \<open>int\<close>, greater than everything the values count as, so greater than every decimal value within an \<open>int\<close>;
  it is 0 or the successor of what some value counts as; its text is not a value of the field in any
  record of the set; and it stands in a first field of the record. The computation is undefined only when
  some value counts as the largest \<open>int\<close>. Nothing is promised for values outside an \<open>int\<close>, which can be
  greater, and for other notations of integers (\<open>0x10\<close>), which do not count.
\<close>

theorem auto_field_int_fresh:
  "(case rec_rset_add_auto_field_int rset n r of
     None \<Rightarrow> \<exists>v \<in> values_in rset n. \<exists>k. decimal v k \<and> in_long k \<and> int32 k = INT_MAX
   | Some r' \<Rightarrow>
       \<exists>a. r' = insert_front r n (show_int a) \<and> 0 \<le> a \<and> a \<le> INT_MAX \<and> show_int a \<notin> values_in rset n
         \<and> (\<forall>v \<in> values_in rset n. \<forall>k. decimal v k \<and> INT_MIN \<le> k \<and> k \<le> INT_MAX \<longrightarrow> k < a)
         \<and> (\<forall>v \<in> values_in rset n. \<forall>k. decimal v k \<and> in_long k \<longrightarrow> int32 k < a)
         \<and> (a = 0 \<or> (\<exists>v \<in> values_in rset n. \<exists>k. decimal v k \<and> in_long k \<and> a = int32 k + 1)))"
proof (cases "auto_value rset n")
  case None
  then obtain v where v: "v \<in> values_in rset n" "numeric v INT_MAX"
    using fold_auto_value_defined [of "concat (map (named_values_of n) (map snd (rec_rset_records rset)))" 0]
    by (auto simp: auto_value_def values_in_eq)
  then obtain k where "decimal v k" "in_long k" "int32 k = INT_MAX" unfolding numeric_decimal by auto
  with None v(1) show ?thesis by (auto simp: rec_rset_add_auto_field_int_def)
next
  case (Some a)
  note fresh = auto_value_fresh [OF this]
  have "k < a" if "v \<in> values_in rset n" "decimal v k" "INT_MIN \<le> k" "k \<le> INT_MAX" for v k
    using fresh(3) that numeric_int by blast
  moreover have "int32 k < a" if "v \<in> values_in rset n" "decimal v k" "in_long k" for v k
    using fresh(3) that unfolding numeric_decimal by blast
  moreover have "a = 0 \<or> (\<exists>v \<in> values_in rset n. \<exists>k. decimal v k \<and> in_long k \<and> a = int32 k + 1)"
    using fresh(5) unfolding numeric_decimal by (auto simp: algebra_simps)
  ultimately show ?thesis using Some fresh(1,2,4)
    unfolding rec_rset_add_auto_field_int_def Some option.map option.case by (intro exI [of _ a] conjI refl; blast)
qed

theorem auto_field_int_fresh_witness:
  "\<exists>a. rec_rset_add_auto_field_int sample_set ''B'' rec_record_new = Some (insert_front rec_record_new ''B'' (show_int a))
    \<and> show_int a \<notin> values_in sample_set ''B''"
proof -
  have "auto_value sample_set ''B'' = Some 3" by code_simp
  then show ?thesis using auto_field_int_fresh [of sample_set "''B''" rec_record_new]
    by (auto simp: rec_rset_add_auto_field_int_def)
qed

text \<open>
  So the generated integer need not be the next bigger one, nor unused: a value above the range of an \<open>int\<close>
  counts as a small one, and a hexadecimal one does not count.
\<close>

lemma auto_value_wraps:
  "fold auto_value_step [''4294967300''] (Some 0) = Some 5" "fold auto_value_step [''0x10''] (Some 0) = Some 0"
  by code_simp+

text \<open>
  The bounds taken from a \<open>%size\<close> directive admit exactly the numbers of records the directive
  asks for, for every condition, on \<open>size_t\<close> values. Two directives are excluded, as their bound
  wraps around: fewer than 0 records and more than \<open>SIZE_MAX\<close>.
\<close>

lemma size_directive_bounds:
  assumes "Option.bind (rset_descriptor rset) (\<lambda>d. rec_record_get_field_by_name d ''%size'' 0) = Some (i, f)"
    and "rec_match (field_value f) (Whole REC_INT_SIZE_RE)" and "rec_extract_size (field_value f) = Some sz"
    and "rec_rset_update_size_constraints rset = Some rset'"
    and "rec_extract_size_condition (field_value f) = SIZE_COND_L \<Longrightarrow> sz \<noteq> 0"
    and "rec_extract_size_condition (field_value f) = SIZE_COND_G \<Longrightarrow> sz \<noteq> SIZE_MAX"
  shows "rset_min_size rset' \<le> k \<and> k \<le> rset_max_size rset' \<longleftrightarrow> size_holds (rec_extract_size_condition (field_value f)) sz k"
  by (rule size_bounds [OF assms])

definition sample_size_rset :: rec_rset where
  "sample_size_rset = rec_rset_new\<lparr>rset_descriptor := Some (rec_record_new\<lparr>record_mset :=
     snd (rec_mset_append (record_mset rec_record_new) MSET_FIELD (DField (rec_field_new ''%size'' ''<= 10'')) MSET_ANY)\<rparr>)\<rparr>"

end
