(* ===== verification/Rec_Rset_Descr.thy ===== *)
theory Rec_Rset_Descr
  imports Rec_Rset_Laws
begin

text \<open>
  What the record descriptor determines: the type of a field is the one of the last valid
  \<open>%type\<close> directive that names it, auto fields always have a type, and renaming a field renames
  it in the directives.
\<close>

section \<open>Looking up properties\<close>

definition props_of :: "rec_rset \<Rightarrow> string \<Rightarrow> rec_rset_fprops option" where
  "props_of rset n = find (\<lambda>p. props_fname p = n) (rset_field_props rset)"

definition new_props :: "string \<Rightarrow> rec_rset_fprops" where
  "new_props n = \<lparr>props_fname = n, props_key_p = False, props_auto_p = False, props_confidential_p = False,
     props_type = None, props_type_name = None\<rparr>"

lemma find_index_find: "find_index P i xs = Some j \<Longrightarrow> \<exists>k. j = i + k \<and> k < length xs \<and> find P xs = Some (xs ! k) \<and> P (xs ! k)"
proof (induction xs arbitrary: i)
  case (Cons x xs)
  then show ?case
  proof (cases "P x")
    case True
    with Cons.prems show ?thesis by (intro exI [of _ 0]) simp
  next
    case False
    with Cons.prems have "find_index P (Suc i) xs = Some j" by simp
    from Cons.IH [OF this] obtain k where "j = Suc i + k" "k < length xs" "find P xs = Some (xs ! k)" "P (xs ! k)" by blast
    with False show ?thesis by (intro exI [of _ "Suc k"]) simp
  qed
qed simp

lemma find_index_find_None: "find_index P i xs = None \<longleftrightarrow> find P xs = None"
  by (induction xs arbitrary: i) auto

lemma find_update:
  assumes "find P xs = Some (xs ! k)" and "find_index P 0 xs = Some k" and "P y"
  shows "find P (xs[k := y]) = Some y"
  using assms(2,3)
proof (induction xs arbitrary: k)
  case (Cons x xs)
  show ?case
  proof (cases "P x")
    case True
    with Cons.prems show ?thesis by auto
  next
    case False
    with Cons.prems(1) have "find_index P 1 xs = Some k" by simp
    from find_index_find [OF this] obtain j where k: "k = Suc j" by auto
    have "find_index P 0 xs = Some j"
    proof -
      have "find_index P (Suc i) ys = map_option Suc (find_index P i ys)" for i ys
        by (induction ys arbitrary: i) auto
      with \<open>find_index P 1 xs = Some k\<close> k show ?thesis by (cases "find_index P 0 xs") auto
    qed
    with Cons.IH Cons.prems(2) False k show ?thesis by simp
  qed
qed simp

lemma find_update_other:
  assumes "\<not> Q (xs ! k)" and "\<not> Q y"
  shows "find Q (xs[k := y]) = find Q xs"
  using assms by (induction xs arbitrary: k) (auto split: nat.splits)

lemma with_props_lookup:
  assumes "cstring n" and "\<And>p. props_fname (f p) = props_fname p"
  shows "props_of (with_props n f rset) m =
    (if m = n then Some (f (case props_of rset n of None \<Rightarrow> new_props n | Some p \<Rightarrow> p)) else props_of rset m)"
proof (cases "find_index (\<lambda>p. n = props_fname p) 0 (rset_field_props rset)")
  case None
  then have "find (\<lambda>p. props_fname p = n) (rset_field_props rset) = None"
    unfolding find_index_find_None by (simp add: eq_commute)
  with None assms show ?thesis
    by (simp add: with_props_def rec_rset_get_props_def rec_field_name_equal_p_def props_of_def new_props_def eq_commute)
next
  case (Some k)
  let ?ps = "rset_field_props rset"
  from find_index_find [OF Some] have k: "k < length ?ps" "find (\<lambda>p. n = props_fname p) ?ps = Some (?ps ! k)" "n = props_fname (?ps ! k)"
    by auto
  have w: "rset_field_props (with_props n f rset) = ?ps[k := f (?ps ! k)]"
    using Some by (simp add: with_props_def rec_rset_get_props_def rec_field_name_equal_p_def)
  have flip: "(\<lambda>p. props_fname p = m) = (\<lambda>p. m = props_fname p)" for m by auto
  show ?thesis
  proof (cases "m = n")
    case True
    have "find (\<lambda>p. n = props_fname p) (?ps[k := f (?ps ! k)]) = Some (f (?ps ! k))"
      by (rule find_update [OF k(2) Some]) (simp add: assms(2) flip: k(3))
    with True k(2) show ?thesis by (simp add: props_of_def w flip)
  next
    case False
    then have "find (\<lambda>p. m = props_fname p) (?ps[k := f (?ps ! k)]) = find (\<lambda>p. m = props_fname p) ?ps"
      by (intro find_update_other) (simp_all add: assms(2) flip: k(3))
    with False show ?thesis by (simp add: props_of_def w flip)
  qed
qed

lemma with_props_frame [simp]:
  "rset_descriptor (with_props n f rset) = rset_descriptor rset" "rset_type_reg (with_props n f rset) = rset_type_reg rset"
  by (simp_all add: with_props_def rec_rset_get_props_def split: option.splits)

lemma get_field_type_props:
  "rec_rset_get_field_type rset n =
    (case props_of rset n of
       None \<Rightarrow> None
     | Some p \<Rightarrow>
         (case props_type p of
            Some ty \<Rightarrow> Some ty
          | None \<Rightarrow>
              (case (props_type_name p, rset_type_reg rset) of
                 (Some tn, Some reg) \<Rightarrow> (case rec_type_reg_get reg tn of None \<Rightarrow> None | Some (ty, reg') \<Rightarrow> ty)
               | _ \<Rightarrow> None)))"
proof (cases "find_index (\<lambda>p. n = props_fname p) 0 (rset_field_props rset)")
  case None
  then have "find (\<lambda>p. props_fname p = n) (rset_field_props rset) = None"
    unfolding find_index_find_None by (simp add: eq_commute)
  with None show ?thesis
    by (simp add: rec_rset_get_field_type_def rec_rset_get_props_def rec_field_name_equal_p_def props_of_def)
next
  case (Some k)
  have flip: "(\<lambda>p. props_fname p = n) = (\<lambda>p. n = props_fname p)" by auto
  from find_index_find [OF Some] have "find (\<lambda>p. n = props_fname p) (rset_field_props rset) = Some (rset_field_props rset ! k)" by auto
  with Some show ?thesis
    by (simp add: rec_rset_get_field_type_def rec_rset_get_props_def rec_field_name_equal_p_def props_of_def flip Let_def)
qed

section \<open>Field types\<close>

text \<open>What a valid \<open>%type\<close> directive says about the type of its fields.\<close>

definition type_info :: "rec_ext \<Rightarrow> string \<Rightarrow> rec_type option \<times> string option" where
  "type_info ext ft =
     (case rec_type_new ext ft of
        Some ty \<Rightarrow> (Some ty, None)
      | None \<Rightarrow> (None, map_option fst (rec_parse_regexp (Begin REC_TYPE_NAME_RE) ft)))"

definition types_field :: "rec_ext \<Rightarrow> rec_field \<Rightarrow> string \<Rightarrow> string \<Rightarrow> bool" where
  "types_field ext f n ft \<longleftrightarrow> field_name f = ''%type'' \<and> rec_rset_type_field_type ext (field_value f) = Some ft
     \<and> (\<exists>fex. rec_rset_type_field_fex (field_value f) = Some fex \<and> n \<in> set (fex_names fex))"

definition tinfo :: "rec_rset \<Rightarrow> string \<Rightarrow> (rec_type option \<times> string option) option" where
  "tinfo rset n = map_option (\<lambda>p. (props_type p, props_type_name p)) (props_of rset n)"

lemma valid_fname_cstring: "valid_fname n \<Longrightarrow> cstring n"
proof -
  have "\<not> fname_char NUL" by (simp add: fname_char_def rec_parser_letter_p_def rec_parser_digit_p_def schar_def)
  then show "valid_fname n \<Longrightarrow> cstring n" using valid_fname_chars [of n NUL] by (auto simp: cstring_def list_all_iff)
qed

lemma regexp_name_cstring: "rec_parse_regexp (Begin REC_FNAME_RE) s = Some (n, t) \<Longrightarrow> cstring n"
  using rec_parse_regexp_begin fname_lang valid_fname_cstring by blast

lemma parse_fname_cstring: "parse_fname p = Some (n, q) \<Longrightarrow> cstring n"
  by (auto simp: parse_fname_def rec_concat_strings_def split: option.splits if_splits)
     (erule regexp_name_cstring)+

lemma parse_simple_elem_cstring: "parse_simple_elem s = Some e \<Longrightarrow> pred_option cstring (fex_elem_field_name e)"
  by (auto simp: parse_simple_elem_def split: option.splits if_splits) (erule parse_fname_cstring)

lemma parse_simple_names:
  "parse_simple_loop ss es = Some es' \<Longrightarrow>
   \<forall>e \<in> set es. pred_option cstring (fex_elem_field_name e) \<Longrightarrow> \<forall>e \<in> set es'. pred_option cstring (fex_elem_field_name e)"
proof (induction ss es rule: parse_simple_loop.induct)
  case (2 s ss es)
  show ?case
  proof (cases "s = []")
    case True
    with 2 show ?thesis by simp
  next
    case False
    with 2(3) obtain e where e: "parse_simple_elem s = Some e" "parse_simple_loop ss (es @ [e]) = Some es'"
      by (auto split: option.splits)
    with 2(2) [OF False e(1)] parse_simple_elem_cstring [OF e(1)] 2(4) show ?thesis by simp
  qed
qed simp

lemma fex_new_names:
  assumes "rec_fex_new (Some v) kind = Some fex" and "kind \<noteq> REC_FEX_SUBSCRIPTS"
  shows "\<forall>n \<in> set (fex_names fex). cstring n"
proof -
  have "\<forall>e \<in> set (fex_elems fex). pred_option cstring (fex_elem_field_name e)"
    using assms by (cases kind) (auto simp: rec_fex_new_def rec_fex_parse_str_simple_def split: option.splits if_splits dest!: parse_simple_names)
  then show ?thesis by (force simp: fex_names_def List.map_filter_def)
qed

lemma type_field_fex_names: "rec_rset_type_field_fex v = Some fex \<Longrightarrow> \<forall>n \<in> set (fex_names fex). cstring n"
  by (auto simp: rec_rset_type_field_fex_def split: option.splits dest: fex_new_names)

lemma set_prop_type_tinfo:
  assumes "cstring m"
  shows "tinfo (set_prop_type ext ft m rset) n = (if n = m then Some (type_info ext ft) else tinfo rset n)"
  using assms
  by (cases "rec_type_new ext ft") (simp_all add: set_prop_type_def tinfo_def with_props_lookup type_info_def)

lemma fold_set_prop_type:
  "\<forall>m \<in> set ns. cstring m \<Longrightarrow>
   tinfo (fold (set_prop_type ext ft) ns rset) n = (if n \<in> set ns then Some (type_info ext ft) else tinfo rset n)"
  by (induction ns arbitrary: rset) (auto simp: set_prop_type_tinfo)

lemma type_directive_tinfo:
  assumes "type_directive ext (field_value f) rset = Some rset'" and "field_name f = ''%type''"
  shows "types_field ext f n ft \<Longrightarrow> tinfo rset' n = Some (type_info ext ft)"
    and "\<forall>ft. \<not> types_field ext f n ft \<Longrightarrow> tinfo rset' n = tinfo rset n"
  using assms type_field_fex_names [of "field_value f"]
  by (auto simp: type_directive_def types_field_def fold_set_prop_type split: option.splits)

lemma with_props_tinfo:
  assumes "cstring m" and "\<And>p. props_fname (f p) = props_fname p" "\<And>p. props_type (f p) = props_type p"
    "\<And>p. props_type_name (f p) = props_type_name p" and "tinfo rset n = Some x"
  shows "tinfo (with_props m f rset) n = Some x"
  using assms by (auto simp: tinfo_def with_props_lookup)

lemma names_directive_tinfo:
  assumes "\<And>p. props_fname (f p) = props_fname p" "\<And>p. props_type (f p) = props_type p"
    "\<And>p. props_type_name (f p) = props_type_name p" and "tinfo rset n = Some x"
  shows "tinfo (names_directive f v rset) n = Some x"
proof -
  have "tinfo (fold (\<lambda>m. with_props m f) ns rset) n = Some x" if "\<forall>m \<in> set ns. cstring m" for ns
    using that assms(4) by (induction ns arbitrary: rset) (auto intro!: with_props_tinfo assms(1-3))
  then show ?thesis using assms(4) fex_new_names [of v REC_FEX_SIMPLE] by (auto simp: names_directive_def split: option.splits)
qed

lemma props_directive_tinfo:
  assumes "props_directive ext f rset = Some rset'" and "\<forall>ft. \<not> types_field ext f n ft" and "tinfo rset n = Some x"
  shows "tinfo rset' n = Some x"
proof -
  consider (type) "field_name f = ''%type''" | (key) "field_name f = ''%key''" | (other) "field_name f \<noteq> ''%type''" "field_name f \<noteq> ''%key''" by blast
  then show ?thesis
  proof cases
    case type
    with assms(1) have "type_directive ext (field_value f) rset = Some rset'"
      by (simp add: props_directive_def rec_field_name_equal_p_def)
    from type_directive_tinfo(2) [OF this type assms(2)] assms(3) show ?thesis by simp
  next
    case key
    with assms(1,3) show ?thesis
      by (auto simp: props_directive_def rec_field_name_equal_p_def key_directive_def split: option.splits
          intro!: with_props_tinfo intro: regexp_name_cstring)
  next
    case other
    have sort: "tinfo (sort_directive v rset) n = tinfo rset n" for v
      by (simp add: sort_directive_def tinfo_def props_of_def split: option.splits)
    from other assms(1,3) show ?thesis
      by (auto simp: props_directive_def rec_field_name_equal_p_def sort split: if_splits intro!: names_directive_tinfo)
  qed
qed

lemma props_directives_append:
  "props_directives ext (fs @ gs) rset = Option.bind (props_directives ext fs rset) (props_directives ext gs)"
  by (induction fs arbitrary: rset) (auto simp: bind_eq_Some_conv split: Option.bind_splits)

lemma props_directives_tinfo:
  "props_directives ext fs rset = Some rset' \<Longrightarrow> \<forall>g \<in> set fs. \<forall>ft. \<not> types_field ext g n ft \<Longrightarrow> tinfo rset n = Some x \<Longrightarrow>
   tinfo rset' n = Some x"
  by (induction fs arbitrary: rset) (auto simp: bind_eq_Some_conv dest: props_directive_tinfo)

lemma props_directives_frame:
  "props_directives ext fs rset = Some rset' \<Longrightarrow> rset_type_reg rset' = rset_type_reg rset"
proof (induction fs arbitrary: rset)
  case (Cons f fs)
  then obtain r1 where r1: "props_directive ext f rset = Some r1" "props_directives ext fs r1 = Some rset'"
    by (auto simp: bind_eq_Some_conv)
  have fold1: "rset_type_reg (fold (set_prop_type ext ft) ns r) = rset_type_reg r" for ft ns r
    by (induction ns arbitrary: r) (simp_all add: set_prop_type_def split: option.splits)
  have fold2: "rset_type_reg (fold (\<lambda>m. with_props m g) ns r) = rset_type_reg r" for g ns r
    by (induction ns arbitrary: r) simp_all
  have "rset_type_reg r1 = rset_type_reg rset"
    using r1(1)
    by (auto simp: props_directive_def type_directive_def key_directive_def names_directive_def sort_directive_def fold1 fold2
        split: if_splits option.splits)
  with Cons.IH [OF r1(2)] show ?case by simp
qed simp

lemma props_of_map:
  assumes "\<And>p. props_fname (g p) = props_fname p"
  shows "props_of (rset\<lparr>rset_field_props := map g (rset_field_props rset)\<rparr>) n = map_option g (props_of rset n)"
proof -
  have "find (\<lambda>p. props_fname p = n) (map g ps) = map_option g (find (\<lambda>p. props_fname p = n) ps)" for ps
    by (induction ps) (simp_all add: assms)
  then show ?thesis by (simp add: props_of_def)
qed

text \<open>A directive that names no type of its own names a type of the registry.\<close>

lemma type_info_proper:
  assumes "types_field ext f n ft" and "cstring (field_value f)"
  shows "type_info ext ft \<noteq> (None, None)"
proof (cases "rec_type_new ext ft")
  case None
  from assms(1) have p: "rec_rset_type_field_p ext (field_value f)" and ft: "rec_rset_type_field_type ext (field_value f) = Some ft"
    by (auto simp: types_field_def rec_rset_type_field_type_def split: if_splits)
  from p obtain m q where q: "rec_parse_regexp (Begin REC_FNAME_LIST_CS_RE) (rec_skip_blanks (field_value f)) = Some (m, q)"
    and d: "rec_type_descr_p ext (rec_skip_blanks q) \<or> rec_parse_regexp (Whole (Seq REC_TYPE_NAME_RE (Star BLANK_CLS))) (rec_skip_blanks q) \<noteq> None"
    by (auto simp: rec_rset_type_field_p_def Let_def split: option.splits)
  have drop: "set (rec_skip_blanks s) \<subseteq> set s" for s by (auto simp: rec_skip_blanks_def dest: set_dropWhileD)
  have "set (rec_skip_blanks q) \<subseteq> set (field_value f)"
    using rec_parse_regexp_split [OF q] drop [of q] drop [of "field_value f"] by (metis order_trans set_append sup_ge2)
  then have "cstring (rec_skip_blanks q)" using assms(2) by (auto simp: cstring_def list_all_iff)
  then have eq: "ft = rec_skip_blanks q"
    using ft p q by (simp add: rec_rset_type_field_type_def Let_def)
  with d None have "rec_parse_regexp (Whole (Seq REC_TYPE_NAME_RE (Star BLANK_CLS))) ft \<noteq> None" by (simp add: rec_type_descr_p_def)
  then have "re_lang (Seq REC_TYPE_NAME_RE (Star BLANK_CLS)) ft"
    by (auto simp: rec_parse_regexp_def re_match_iff split: if_splits)
  then obtain u v where "ft = u @ v" "re_lang REC_TYPE_NAME_RE u" by (auto simp: re_lang_Seq)
  then have "length u \<le> length ft" "re_lang REC_TYPE_NAME_RE (take (length u) ft)" by simp_all
  then have "re_prefix REC_TYPE_NAME_RE ft \<noteq> None" unfolding re_prefix_None by blast
  then have "rec_parse_regexp (Begin REC_TYPE_NAME_RE) ft \<noteq> None" by (auto simp: rec_parse_regexp_def)
  then show ?thesis using None by (auto simp: type_info_def)
qed (simp add: type_info_def)

lemma implicit_int_fname [simp]: "props_fname (implicit_int ext p) = props_fname p"
  by (simp add: implicit_int_def)

lemma update_field_props_type:
  assumes "rec_rset_update_field_props ext rset = Some rset'" and fs: "descriptor_fields rset = fs @ f # gs"
    and f: "types_field ext f n ft" "cstring (field_value f)" and last: "\<forall>g \<in> set gs. \<forall>ft. \<not> types_field ext g n ft"
  shows "\<exists>p. props_of rset' n = Some p \<and> (props_type p, props_type_name p) = type_info ext ft"
    and "rset_type_reg rset' = rset_type_reg rset"
proof -
  define r0 where "r0 = rset\<lparr>rset_field_props :=
    map (\<lambda>p. p\<lparr>props_key_p := False, props_auto_p := False, props_type := None\<rparr>) (rset_field_props rset)\<rparr>"
  from assms(1) obtain r where r: "props_directives ext (descriptor_fields rset) r0 = Some r"
    and rset': "rset' = r\<lparr>rset_field_props := map (implicit_int ext) (rset_field_props r)\<rparr>"
    by (auto simp: rec_rset_update_field_props_def Let_def r0_def)
  from r obtain r1 r2 where r1: "props_directives ext fs r0 = Some r1" and r2: "props_directive ext f r1 = Some r2"
    and r3: "props_directives ext gs r2 = Some r"
    unfolding fs props_directives_append by (auto simp: bind_eq_Some_conv)
  have name: "field_name f = ''%type''" using f by (simp add: types_field_def)
  with r2 have "type_directive ext (field_value f) r1 = Some r2" by (simp add: props_directive_def rec_field_name_equal_p_def)
  from type_directive_tinfo(1) [OF this name f(1)] have "tinfo r2 n = Some (type_info ext ft)" .
  then have "tinfo r n = Some (type_info ext ft)" by (rule props_directives_tinfo [OF r3 last])
  then obtain p where p: "props_of r n = Some p" "(props_type p, props_type_name p) = type_info ext ft"
    by (auto simp: tinfo_def)
  have "implicit_int ext p = p" using p(2) type_info_proper [OF f] by (auto simp: implicit_int_def)
  then have "props_of rset' n = Some p" using p(1) by (simp add: rset' props_of_map)
  with p(2) show "\<exists>p. props_of rset' n = Some p \<and> (props_type p, props_type_name p) = type_info ext ft" by blast
  show "rset_type_reg rset' = rset_type_reg rset" using props_directives_frame [OF r] by (simp add: rset' r0_def)
qed

section \<open>Renaming\<close>

lemma rename_fex_names:
  assumes "cstring new"
  shows "fex_names (rename_fex n new fex) = map (\<lambda>m. if m = n then new else m) (fex_names fex)"
proof -
  have "List.map_filter fex_elem_field_name (map (\<lambda>e. case fex_elem_field_name e of None \<Rightarrow> e
          | Some m \<Rightarrow> if rec_field_name_equal_p n m then rec_fex_elem_set_field_name e new else e) es)
      = map (\<lambda>m. if m = n then new else m) (List.map_filter fex_elem_field_name es)" for es
    using assms
    by (induction es) (auto simp: map_filter_simps rec_field_name_equal_p_def rec_fex_elem_set_field_name_def split: option.splits)
  then show ?thesis by (simp add: fex_names_def rename_fex_def)
qed

text \<open>Elements as the simple syntax makes them: a name and nothing else.\<close>

definition name_only :: "rec_fex_elem \<Rightarrow> bool" where
  "name_only e \<longleftrightarrow> fex_elem_field_name e \<noteq> None \<and> fex_elem_rewrite_to e = None \<and> fex_elem_function_name e = None
     \<and> fex_elem_min e = -1 \<and> fex_elem_max e = -1"

lemma parse_simple_name_only:
  "parse_simple_loop ss es = Some es' \<Longrightarrow> list_all name_only es \<Longrightarrow> list_all name_only es'"
proof (induction ss es rule: parse_simple_loop.induct)
  case (2 s ss es)
  have "name_only e" if "parse_simple_elem s = Some e" for e
    using that by (auto simp: parse_simple_elem_def name_only_def split: option.splits if_splits)
  with 2 show ?case by (auto split: if_splits option.splits)
qed simp

lemma fex_new_name_only:
  assumes "rec_fex_new (Some v) REC_FEX_SIMPLE = Some fex"
  shows "list_all name_only (fex_elems fex)" and "fex_elems fex \<noteq> []"
  using assms
  by (auto simp: rec_fex_new_def rec_fex_parse_str_simple_def split: option.splits if_splits dest: parse_simple_name_only)

lemma name_only_plain:
  assumes "list_all name_only es" and "list_all valid_fname (List.map_filter fex_elem_field_name es)"
  shows "list_all (fex_elem_plain REC_FEX_SIMPLE) es"
  using assms by (induction es) (auto simp: name_only_def fex_elem_plain_def map_filter_simps)

lemma rename_name_only: "list_all name_only (fex_elems fex) \<Longrightarrow> list_all name_only (fex_elems (rename_fex n new fex))"
  by (auto simp: rename_fex_def list_all_iff name_only_def rec_fex_elem_set_field_name_def split: option.splits)

lemma fex_key_names: "map fex_key es = map fex_key es' \<Longrightarrow> List.map_filter fex_elem_field_name es = List.map_filter fex_elem_field_name es'"
proof (induction es arbitrary: es')
  case (Cons e es)
  then obtain e' es'' where es': "es' = e' # es''" "fex_key e = fex_key e'" "map fex_key es = map fex_key es''"
    by (cases es') auto
  from es'(2) have "fex_elem_field_name e = fex_elem_field_name e'" by (simp add: fex_key_def)
  with es' Cons.IH [of es''] show ?case by (simp add: map_filter_simps split: option.splits)
qed simp

lemma fex_str_cstring:
  assumes "list_all (fex_elem_plain REC_FEX_SIMPLE) (fex_elems fex)"
  shows "cstring (rec_fex_str fex REC_FEX_SIMPLE)"
proof -
  have n: "list_all (\<lambda>e. valid_fname (elem_name e)) (fex_elems fex)"
    using assms fex_elem_plain_name by (auto simp: list_all_iff)
  have "list_all (plain \<circ> elem_name) (fex_elems fex)"
    using n valid_fname_plain by (auto simp: list_all_iff)
  then have eq: "rec_fex_str fex REC_FEX_SIMPLE = join_with CHR '' '' (map elem_name (fex_elems fex))"
    by (simp add: rec_fex_str_eq sep_char_def elem_text_def cong: map_cong)
  have "list_all cstring ls \<Longrightarrow> cstring (join_with CHR '' '' ls)" for ls
    by (induction "CHR '' ''" ls rule: join_with.induct) auto
  with n valid_fname_cstring show ?thesis unfolding eq by (auto simp: list_all_iff)
qed

lemma rename_directive_ok:
  assumes "field_name f \<in> {''%key'', ''%mandatory'', ''%unique'', ''%prohibit'', ''%confidential'', ''%sort''}"
    and "rec_fex_new (Some (field_value f)) REC_FEX_SIMPLE = Some fex" and "list_all valid_fname (fex_names fex)" and "valid_fname new"
  shows "\<exists>fex'. rec_fex_new (Some (field_value (rename_directive ext n new f))) REC_FEX_SIMPLE = Some fex'
    \<and> fex_names fex' = map (\<lambda>m. if m = n then new else m) (fex_names fex)"
    and "field_name (rename_directive ext n new f) = field_name f"
proof -
  let ?fex = "rename_fex n new fex"
  have names: "fex_names ?fex = map (\<lambda>m. if m = n then new else m) (fex_names fex)"
    using valid_fname_cstring [OF assms(4)] by (rule rename_fex_names)
  have "list_all valid_fname (fex_names ?fex)" unfolding names using assms(3,4) by (auto simp: list_all_iff)
  then have plain: "list_all (fex_elem_plain REC_FEX_SIMPLE) (fex_elems ?fex)"
    using rename_name_only [OF fex_new_name_only(1) [OF assms(2)]] by (intro name_only_plain) (simp_all add: fex_names_def)
  have ne: "fex_elems ?fex \<noteq> []" using fex_new_name_only(2) [OF assms(2)] by (simp add: rename_fex_def)
  have v: "field_value (rename_directive ext n new f) = rec_fex_str ?fex REC_FEX_SIMPLE"
    using assms(1,2) fex_str_cstring [OF plain]
    by (auto simp: rename_directive_def rec_field_name_equal_p_def rec_field_set_value_def)
  from rec_fex_roundtrip [OF plain ne] obtain fex' where fex': "rec_fex_new (Some (rec_fex_str ?fex REC_FEX_SIMPLE)) REC_FEX_SIMPLE = Some fex'"
    "map fex_key (fex_elems fex') = map fex_key (fex_elems ?fex)" by blast
  from fex_key_names [OF fex'(2)] have "fex_names fex' = fex_names ?fex" by (simp add: fex_names_def)
  with fex'(1) v names show "\<exists>fex'. rec_fex_new (Some (field_value (rename_directive ext n new f))) REC_FEX_SIMPLE = Some fex'
    \<and> fex_names fex' = map (\<lambda>m. if m = n then new else m) (fex_names fex)" by auto
  show "field_name (rename_directive ext n new f) = field_name f"
    by (auto simp: rename_directive_def rec_field_set_value_def split: option.splits)
qed

section \<open>Properties\<close>

text \<open>
  C37. After the properties have been updated from a descriptor, the type of a field is the one of the last
  valid \<open>%type\<close> directive that names it: the type described there, or else the type the
  registry has for the name written there.
\<close>

theorem field_type_last_directive:
  assumes "rec_rset_update_field_props ext rset = Some rset'" and "descriptor_fields rset = fs @ f # gs"
    and "types_field ext f n ft" and "cstring (field_value f)" and "\<forall>g \<in> set gs. \<forall>ft. \<not> types_field ext g n ft"
  shows "rec_rset_get_field_type rset' n =
    (case rec_type_new ext ft of
       Some ty \<Rightarrow> Some ty
     | None \<Rightarrow> Option.bind (rec_parse_regexp (Begin REC_TYPE_NAME_RE) ft)
                 (\<lambda>(tn, _). Option.bind (rset_type_reg rset) (\<lambda>reg. Option.bind (rec_type_reg_get reg tn) fst)))"
proof -
  from update_field_props_type [OF assms] obtain p where p: "props_of rset' n = Some p"
    "(props_type p, props_type_name p) = type_info ext ft" and reg: "rset_type_reg rset' = rset_type_reg rset" by blast
  then show ?thesis
    by (auto simp: get_field_type_props type_info_def split: option.splits prod.splits)
qed

definition sample_descriptor :: rec_record where
  "sample_descriptor = rec_record_new\<lparr>record_mset :=
     snd (rec_mset_append (snd (rec_mset_append (record_mset rec_record_new)
       MSET_FIELD (DField (rec_field_new ''%rec'' ''Book'')) MSET_ANY))
       MSET_FIELD (DField (rec_field_new ''%type'' ''Id,Year int'')) MSET_ANY)\<rparr>"

definition sample_rset :: rec_rset where
  "sample_rset = rec_rset_new\<lparr>rset_descriptor := Some sample_descriptor\<rparr>"

lemma sample_fields: "descriptor_fields sample_rset = [rec_field_new ''%rec'' ''Book'', rec_field_new ''%type'' ''Id,Year int'']"
  by code_simp

lemma int_type: "rec_type_new ext ''int'' = Some \<lparr>type_name = None, type_kind = REC_TYPE_INT, type_data = TNone\<rparr>"
proof -
  have "rec_parse_regexp (Begin REC_TYPE_CLASS_RE) (rec_skip_blanks ''int'') = Some (''int'', [])" by code_simp
  then show ?thesis by (simp add: rec_type_new_def rec_type_parse_type_kind_def)
qed

theorem field_type_last_directive_witness:
  "\<exists>rset'. rec_rset_update_field_props sample_ext sample_rset = Some rset'
    \<and> rec_rset_get_field_type rset' ''Year'' = Some \<lparr>type_name = None, type_kind = REC_TYPE_INT, type_data = TNone\<rparr>"
proof -
  have t: "types_field sample_ext (rec_field_new ''%type'' ''Id,Year int'') ''Year'' ''int''"
  proof -
    have "field_name (rec_field_new ''%type'' ''Id,Year int'') = ''%type''" "field_value (rec_field_new ''%type'' ''Id,Year int'') = ''Id,Year int''"
      by code_simp+
    moreover have "rec_parse_regexp (Begin REC_FNAME_LIST_CS_RE) (rec_skip_blanks ''Id,Year int'') = Some (''Id,Year'', '' int'')"
      "rec_skip_blanks '' int'' = ''int''" "strdup ''int'' = ''int''" by code_simp+
    then have "rec_rset_type_field_type sample_ext ''Id,Year int'' = Some ''int''"
      by (simp add: rec_rset_type_field_type_def rec_rset_type_field_p_def rec_type_descr_p_def int_type)
    moreover have "map_option fex_names (rec_rset_type_field_fex ''Id,Year int'') = Some [''Id'', ''Year'']" by code_simp
    ultimately show ?thesis by (auto simp: types_field_def)
  qed
  obtain rset' where r: "rec_rset_update_field_props sample_ext sample_rset = Some rset'"
  proof -
    have "rec_rset_type_field_fex ''Id,Year int'' \<noteq> None" by code_simp
    then have "\<exists>r'. type_directive sample_ext ''Id,Year int'' r = Some r'" for r
      by (auto simp: type_directive_def split: option.splits)
    then have "\<exists>r'. props_directives sample_ext [rec_field_new ''%rec'' ''Book'', rec_field_new ''%type'' ''Id,Year int''] r = Some r'" for r
      by (simp add: props_directive_def rec_field_name_equal_p_def field_op_defs bind_eq_Some_conv)
    then show ?thesis using that unfolding rec_rset_update_field_props_def Let_def sample_fields by (metis option.map(2))
  qed
  have "cstring (field_value (rec_field_new ''%type'' ''Id,Year int''))" by (simp add: field_op_defs)
  from field_type_last_directive [OF r, of "[rec_field_new ''%rec'' ''Book'']" _ "[]", OF _ t this] r sample_fields
  show ?thesis by (simp add: int_type)
qed

text \<open>
  Renaming a field renames it in every directive that lists field names: a well-formed list
  stays well-formed and has the new name exactly where it had the old one, and the directive
  itself keeps its name.
\<close>

lemma rename_field_directives:
  assumes "field_name f \<in> {''%key'', ''%mandatory'', ''%unique'', ''%prohibit'', ''%confidential'', ''%sort''}"
    and "rec_fex_new (Some (field_value f)) REC_FEX_SIMPLE = Some fex" and "list_all valid_fname (fex_names fex)" and "valid_fname new"
  shows "field_name (rename_directive ext n new f) = field_name f
    \<and> (\<exists>fex'. rec_fex_new (Some (field_value (rename_directive ext n new f))) REC_FEX_SIMPLE = Some fex'
         \<and> fex_names fex' = map (\<lambda>m. if m = n then new else m) (fex_names fex))"
  using rename_directive_ok [OF assms] by blast

end
