(* ===== verification/Rec_Rset_Core.thy ===== *)
theory Rec_Rset_Core
  imports Rec_Rset_Descr
begin

text \<open>
  Setting the descriptor of a record set: what it leaves alone, the elements of the set above
  all, and for which descriptors it is defined. Both depend on the names and values of the
  fields of the descriptor only.
\<close>

section \<open>What setting a descriptor leaves alone\<close>

definition rset_core :: "rec_rset \<Rightarrow> rec_record option \<times> nat \<times> nat \<times> nat \<times> sdata rec_mset" where
  "rset_core rset = (rset_descriptor rset, rset_descriptor_pos rset, rset_record_type rset, rset_comment_type rset, rset_mset rset)"

lemma rset_core_updates [simp]:
  "rset_core (rset\<lparr>rset_field_props := a\<rparr>) = rset_core rset"
  "rset_core (rset\<lparr>rset_type_reg := b\<rparr>) = rset_core rset"
  "rset_core (rset\<lparr>rset_order_by_fields := c\<rparr>) = rset_core rset"
  "rset_core (rset\<lparr>rset_min_size := s\<rparr>) = rset_core rset"
  "rset_core (rset\<lparr>rset_max_size := t\<rparr>) = rset_core rset"
  "rset_core (rset\<lparr>rset_constraints := d\<rparr>) = rset_core rset"
  by (simp_all add: rset_core_def)

lemma with_props_core [simp]: "rset_core (with_props n f rset) = rset_core rset"
  by (simp add: with_props_def rec_rset_get_props_def split: option.splits)

lemma fold_core: "(\<And>x r. rset_core (f x r) = rset_core r) \<Longrightarrow> rset_core (fold f xs r) = rset_core r"
  by (induction xs arbitrary: r) simp_all

lemma names_directive_core [simp]: "rset_core (names_directive f v rset) = rset_core rset"
  by (simp add: names_directive_def fold_core split: option.splits)

lemma sort_directive_core [simp]: "rset_core (sort_directive v rset) = rset_core rset"
  by (simp add: sort_directive_def split: option.splits)

lemma set_prop_type_core [simp]: "rset_core (set_prop_type ext ft n rset) = rset_core rset"
  by (simp add: set_prop_type_def split: option.splits)

lemma props_directive_core: "props_directive ext f rset = Some rset' \<Longrightarrow> rset_core rset' = rset_core rset"
  by (auto simp: props_directive_def type_directive_def key_directive_def fold_core split: if_splits option.splits)

lemma props_directives_core: "props_directives ext fs rset = Some rset' \<Longrightarrow> rset_core rset' = rset_core rset"
  by (induction fs arbitrary: rset) (auto simp: bind_eq_Some_conv dest!: props_directive_core)

lemma update_field_props_core: "rec_rset_update_field_props ext rset = Some rset' \<Longrightarrow> rset_core rset' = rset_core rset"
  by (auto simp: rec_rset_update_field_props_def Let_def dest!: props_directives_core)

lemma update_size_core:
  assumes "rec_rset_update_size_constraints rset = Some rset'"
  shows "rset_core rset' = rset_core rset"
proof (cases "Option.bind (rset_descriptor rset) (\<lambda>d. rec_record_get_field_by_name d (FNAME REC_FIELD_SIZE) 0)")
  case None
  with assms show ?thesis by (auto simp: rec_rset_update_size_constraints_def Let_def)
next
  case (Some x)
  obtain i f where x: "x = (i, f)" by force
  note d = assms [unfolded rec_rset_update_size_constraints_def Let_def Some x option.case prod.case]
  show ?thesis
  proof (cases "rec_match (field_value f) (Whole REC_INT_SIZE_RE)")
    case True
    with d obtain sz where "rec_extract_size (field_value f) = Some sz" by auto
    with d True show ?thesis by (cases "rec_extract_size_condition (field_value f)") auto
  next
    case False
    with d show ?thesis by auto
  qed
qed

lemma set_descriptor_core:
  assumes "rec_rset_set_descriptor ext rset d = Some rset'"
  shows "rset_core rset' = rset_core (rset\<lparr>rset_descriptor := d\<rparr>)"
proof -
  have "rset_core (rec_rset_update_types ext (rset\<lparr>rset_descriptor := d\<rparr>)) = rset_core (rset\<lparr>rset_descriptor := d\<rparr>)"
    by (simp add: rec_rset_update_types_def split: option.splits)
  with assms show ?thesis
    by (auto simp: rec_rset_set_descriptor_def bind_eq_Some_conv rec_rset_update_sex_constraints_def
        dest!: update_field_props_core update_size_core)
qed

lemma rset_coreD:
  assumes "rset_core a = rset_core b"
  shows "rset_descriptor a = rset_descriptor b" "rset_descriptor_pos a = rset_descriptor_pos b"
    "rset_mset a = rset_mset b" "rset_record_type a = rset_record_type b" "rset_comment_type a = rset_comment_type b"
    "rec_rset_num_records a = rec_rset_num_records b" "rec_rset_wf a = rec_rset_wf b"
  using assms by (simp_all add: rset_core_def rec_rset_num_records_def rec_rset_wf_def)

section \<open>Descriptors that can be set\<close>

definition record_items :: "rec_record \<Rightarrow> (string \<times> string) list" where
  "record_items r = map (\<lambda>(i, f). (field_name f, field_value f)) (rec_record_fields r)"

text \<open>
  The directives whose processing would read a NULL pointer or an unassigned number: a \<open>%type\<close> with a
  blank in front of the names, a \<open>%key\<close> that does not start with a name, a \<open>%size\<close> such as \<open>08\<close>.
\<close>

definition directive_ok :: "rec_ext \<Rightarrow> string \<times> string \<Rightarrow> bool" where
  "directive_ok ext = (\<lambda>(n, v).
     if n = ''%type'' then rec_rset_type_field_type ext v = None \<or> rec_rset_type_field_fex v \<noteq> None
     else if n = ''%key'' then rec_parse_regexp (Begin REC_FNAME_RE) (rec_skip_blanks v) \<noteq> None
     else if n = ''%size'' then rec_match v (Whole REC_INT_SIZE_RE) \<longrightarrow> rec_extract_size v \<noteq> None
     else True)"

definition descr_ok :: "rec_ext \<Rightarrow> rec_record \<Rightarrow> bool" where
  "descr_ok ext d = list_all (directive_ok ext) (record_items d)"

lemma props_directive_defined:
  assumes "directive_ok ext (field_name f, field_value f)"
  shows "\<exists>rset'. props_directive ext f rset = Some rset'"
  using assms
  by (auto simp: directive_ok_def props_directive_def type_directive_def key_directive_def rec_field_name_equal_p_def
      split: option.splits if_splits)

lemma props_directives_defined:
  "list_all (directive_ok ext) (map (\<lambda>f. (field_name f, field_value f)) fs) \<Longrightarrow> \<exists>rset'. props_directives ext fs rset = Some rset'"
proof (induction fs arbitrary: rset)
  case (Cons f fs)
  then obtain r1 where "props_directive ext f rset = Some r1" using props_directive_defined [of ext f rset] by auto
  with Cons.IH [of r1] Cons.prems show ?case by simp
qed simp

lemma field_by_name_item:
  assumes "rec_record_get_field_by_name d n k = Some (i, f)"
  shows "(field_name f, field_value f) \<in> set (record_items d)" and "field_name f = n"
proof -
  have "field_by_name_loop n k num fs = Some (i, f) \<Longrightarrow> (i, f) \<in> set fs \<and> field_name f = n" for num fs
    by (induction n k num fs rule: field_by_name_loop.induct) (auto simp: rec_field_name_equal_p_def split: if_splits)
  with assms show "(field_name f, field_value f) \<in> set (record_items d)" "field_name f = n"
    by (force simp: rec_record_get_field_by_name_def record_items_def)+
qed

lemma update_field_props_defined:
  assumes "list_all (directive_ok ext) (map (\<lambda>f. (field_name f, field_value f)) (descriptor_fields rset))"
  shows "\<exists>rset'. rec_rset_update_field_props ext rset = Some rset'"
proof -
  obtain r1 where "props_directives ext (descriptor_fields rset) (rset\<lparr>rset_field_props :=
      map (\<lambda>p. p\<lparr>props_key_p := False, props_auto_p := False, props_type := None\<rparr>) (rset_field_props rset)\<rparr>) = Some r1"
    using props_directives_defined [OF assms] by blast
  then show ?thesis unfolding rec_rset_update_field_props_def Let_def by simp
qed

lemma size_defined:
  assumes "rset_descriptor rset = Some d" and "descr_ok ext d"
  shows "\<exists>rset'. rec_rset_update_size_constraints rset = Some rset'"
proof (cases "rec_record_get_field_by_name d (FNAME REC_FIELD_SIZE) 0")
  case None
  with assms(1) show ?thesis by (simp add: rec_rset_update_size_constraints_def)
next
  case (Some x)
  obtain i f where x: "x = (i, f)" by force
  have f: "field_name f = ''%size''" "(field_name f, field_value f) \<in> set (record_items d)"
    using field_by_name_item [OF Some [unfolded x]] by simp_all
  have b: "Option.bind (rset_descriptor rset) (\<lambda>d. rec_record_get_field_by_name d (FNAME REC_FIELD_SIZE) 0) = Some (i, f)"
    using assms(1) Some x by simp
  show ?thesis
  proof (cases "rec_match (field_value f) (Whole REC_INT_SIZE_RE)")
    case True
    then have "rec_extract_size (field_value f) \<noteq> None"
      using f assms(2) by (auto simp: descr_ok_def list_all_iff directive_ok_def)
    then show ?thesis unfolding rec_rset_update_size_constraints_def Let_def b using True by auto
  next
    case False
    then show ?thesis unfolding rec_rset_update_size_constraints_def Let_def b by simp
  qed
qed

lemma update_types_descriptor: "rset_descriptor (rec_rset_update_types ext rset) = rset_descriptor rset"
  by (simp add: rec_rset_update_types_def split: option.split)

lemma set_descriptor_defined:
  assumes "descr_ok ext d"
  shows "\<exists>rset'. rec_rset_set_descriptor ext rset (Some d) = Some rset'"
proof -
  define r where "r = rec_rset_update_types ext (rset\<lparr>rset_descriptor := Some d\<rparr>)"
  have d: "rset_descriptor r = Some d" unfolding r_def update_types_descriptor by simp
  then have "map (\<lambda>f. (field_name f, field_value f)) (descriptor_fields r) = record_items d"
    by (simp add: descriptor_fields_def record_items_def case_prod_beta comp_def)
  then obtain r1 where r1: "rec_rset_update_field_props ext r = Some r1"
    using assms update_field_props_defined [of ext r] unfolding descr_ok_def by metis
  have d1: "rset_descriptor r1 = Some d" using rset_coreD(1) [OF update_field_props_core [OF r1]] d by simp
  obtain r2 where r2: "rec_rset_update_size_constraints r1 = Some r2" using size_defined [OF d1 assms] by blast
  show ?thesis unfolding rec_rset_set_descriptor_def r_def [symmetric] r1 Option.bind.bind_lunit r2 by blast
qed

lemma set_descriptor_None: "\<exists>rset'. rec_rset_set_descriptor ext rset None = Some rset'"
  by (simp add: rec_rset_set_descriptor_def rec_rset_update_types_def rec_rset_update_field_props_def descriptor_fields_def
      rec_rset_update_size_constraints_def)

end
