(* ===== verification/Rec_Crypt.thy ===== *)
theory Rec_Crypt
  imports Rec_Rset_Core Rec_Sex_Eval
begin

text \<open>
  Encryption of confidential fields (\<open>src/rec-crypt.c\<close>). AES in CBC mode, the nonce, CRC-32 and
  Base64 come from libgcrypt and gnulib: they are the parameter \<open>crypt_env\<close>. Buffers are
  byte strings. \<open>Undef\<close> stands for a read outside a buffer or a remainder by 0, \<open>Fail\<close> for a
  \<open>false\<close> result. One read outside a buffer happens in every encryption: three bytes behind the end of
  the input are copied, and then overwritten. Whether they can be read, and what they are, is the
  parameter \<open>ext_behind\<close>; \<open>Undef\<close> is the result when they cannot.
\<close>

section \<open>The environment\<close>

record crypt_env =
  ext_crc32 :: "string \<Rightarrow> 32 word"
  ext_encrypt :: "string \<Rightarrow> string \<Rightarrow> string \<Rightarrow> string option"
  ext_decrypt :: "string \<Rightarrow> string \<Rightarrow> string \<Rightarrow> string option"
  ext_base64_encode :: "string \<Rightarrow> string"
  ext_base64_decode :: "string \<Rightarrow> string option"
  ext_behind :: "string \<Rightarrow> string option"

section \<open>Buffers\<close>

definition AESV2_BLKSIZE :: nat where "AESV2_BLKSIZE = 16"
definition AESV2_KEYSIZE :: nat where "AESV2_KEYSIZE = 16"
definition SALT_SIZE :: nat where "SALT_SIZE = 4"
definition REC_ENCRYPTED_PREFIX :: string where "REC_ENCRYPTED_PREFIX = ''encrypted-''"

text \<open>The four bytes of the CRC, little-endian.\<close>

definition crc_bytes :: "32 word \<Rightarrow> string" where
  "crc_bytes w = map (\<lambda>i. char_of (unat (drop_bit (8 * i) w) mod 256)) [0..<4]"

definition aes_key :: "string \<Rightarrow> string" where
  "aes_key password = map (\<lambda>i. password ! (i mod length password)) [0..<AESV2_KEYSIZE]"

definition aes_iv :: "string \<Rightarrow> string" where
  "aes_iv salt = salt @ map char_of [length salt..<AESV2_BLKSIZE]"

definition aes_padding :: "nat \<Rightarrow> nat" where
  "aes_padding n = (if n mod AESV2_BLKSIZE \<noteq> 0 then AESV2_BLKSIZE - n mod AESV2_BLKSIZE else 0)"

text \<open>
  \<open>salt\<close> is what \<open>gcry_create_nonce\<close> delivers. \<open>memcpy\<close> takes \<open>in_size + 4\<close> bytes from \<open>in\<close>: the string, its NUL
  and what is behind it.
\<close>

definition rec_encrypt :: "crypt_env \<Rightarrow> string \<Rightarrow> string \<Rightarrow> string \<Rightarrow> string outcome" where
  "rec_encrypt env salt input password =
     (case ext_behind env input of
        None \<Rightarrow> Undef
      | Some behind \<Rightarrow>
          let copied = take (length input + 4) (input @ NUL # behind);
              real_in = take (length input) copied @ crc_bytes (ext_crc32 env input);
              padded = real_in @ replicate (aes_padding (length real_in)) NUL
          in if password = [] then Undef
             else case ext_encrypt env (aes_key password) (aes_iv salt) padded of
                    None \<Rightarrow> Fail
                  | Some out \<Rightarrow> Ok (out @ salt))"

text \<open>
  \<open>in_size - SALT_SIZE\<close> wraps around below 4, which the addition of 12 expresses. The decrypted
  text is read with \<open>strlen\<close>: without a NUL in it that reads behind the buffer.
\<close>

definition rec_decrypt :: "crypt_env \<Rightarrow> string \<Rightarrow> string \<Rightarrow> string outcome" where
  "rec_decrypt env input password =
     (let in_size = length input;
          salt_size = (if (in_size + 12) mod AESV2_BLKSIZE = 0 then SALT_SIZE else 0)
      in if salt_size = 0 \<and> in_size mod AESV2_BLKSIZE \<noteq> 0 then Fail
         else if password = [] then Undef
         else case ext_decrypt env (aes_key password) (aes_iv (drop (in_size - salt_size) input)) (take (in_size - salt_size) input) of
                None \<Rightarrow> Fail
              | Some out \<Rightarrow>
                  if NUL \<notin> set out then Undef
                  else let s = strdup out; n = length s - 4 in
                       if length s > 4
                       then if drop n s = crc_bytes (ext_crc32 env (take n s)) then Ok (take n s) else Fail
                       else Fail)"

section \<open>Fields\<close>

definition rec_field_encrypted_p :: "rec_field \<Rightarrow> bool" where
  "rec_field_encrypted_p f =
     (length (field_value f) > length REC_ENCRYPTED_PREFIX \<and> is_prefix REC_ENCRYPTED_PREFIX (field_value f))"

text \<open>The result and the field; \<open>None\<close>: undefined.\<close>

definition rec_encrypt_field :: "crypt_env \<Rightarrow> string \<Rightarrow> rec_field \<Rightarrow> string \<Rightarrow> (bool \<times> rec_field) option" where
  "rec_encrypt_field env salt f password =
     (if is_prefix REC_ENCRYPTED_PREFIX (field_value f) then Some (True, f)
      else case rec_encrypt env salt (field_value f) password of
             Undef \<Rightarrow> None
           | Fail \<Rightarrow> Some (False, f)
           | Ok out \<Rightarrow> Some (True, rec_field_set_value f (REC_ENCRYPTED_PREFIX @ ext_base64_encode env out)))"

definition rec_decrypt_field :: "crypt_env \<Rightarrow> rec_field \<Rightarrow> string \<Rightarrow> (bool \<times> rec_field) option" where
  "rec_decrypt_field env f password =
     (if \<not> is_prefix REC_ENCRYPTED_PREFIX (field_value f) then Some (True, f)
      else case ext_base64_decode env (drop (length REC_ENCRYPTED_PREFIX) (field_value f)) of
             None \<Rightarrow> Some (True, f)
           | Some input \<Rightarrow>
               (case rec_decrypt env input password of
                  Undef \<Rightarrow> None
                | Fail \<Rightarrow> Some (True, f)
                | Ok out \<Rightarrow> Some (True, rec_field_set_value f out)))"

section \<open>Records\<close>

definition record_set_field :: "rec_record \<Rightarrow> nat \<Rightarrow> rec_field \<Rightarrow> rec_record" where
  "record_set_field r pos f = r\<lparr>record_mset := rec_mset_elem_set_data (record_mset r) pos (DField f)\<rparr>"

text \<open>
  The loops of \<open>rec_encrypt_record\<close> and \<open>rec_decrypt_record\<close> over the fields of one name and over the
  names. A failure leaves the inner loop only, and the result is that of the last call. \<open>c\<close>
  counts the calls, so that each has a nonce of its own.
\<close>

fun crypt_values ::
  "(nat \<Rightarrow> rec_field \<Rightarrow> (bool \<times> rec_field) option) \<Rightarrow> string \<Rightarrow> nat list \<Rightarrow> nat \<times> bool \<times> rec_record
   \<Rightarrow> (nat \<times> bool \<times> rec_record) option" where
  "crypt_values op n [] st = Some st"
| "crypt_values op n (k # ks) (c, res, r) =
     (case rec_record_get_field_by_name r n k of
        None \<Rightarrow> crypt_values op n ks (c, res, r)
      | Some (pos, f) \<Rightarrow>
          (case op c f of
             None \<Rightarrow> None
           | Some (True, f') \<Rightarrow> crypt_values op n ks (Suc c, True, record_set_field r pos f')
           | Some (False, f') \<Rightarrow> Some (Suc c, False, record_set_field r pos f')))"

fun crypt_names ::
  "(nat \<Rightarrow> rec_field \<Rightarrow> (bool \<times> rec_field) option) \<Rightarrow> string list \<Rightarrow> nat \<times> bool \<times> rec_record
   \<Rightarrow> (nat \<times> bool \<times> rec_record) option" where
  "crypt_names op [] st = Some st"
| "crypt_names op (n # ns) (c, res, r) =
     Option.bind (crypt_values op n [0..<rec_record_get_num_fields_by_name r n] (c, res, r)) (crypt_names op ns)"

definition rec_encrypt_record ::
  "crypt_env \<Rightarrow> (nat \<Rightarrow> string) \<Rightarrow> rec_rset \<Rightarrow> rec_record \<Rightarrow> string \<Rightarrow> (bool \<times> rec_record) option" where
  "rec_encrypt_record env salts rset r password =
     map_option snd (crypt_names (\<lambda>c f. rec_encrypt_field env (salts c) f password)
       (fex_names (rec_rset_confidential rset)) (0, True, r))"

definition rec_decrypt_record ::
  "crypt_env \<Rightarrow> rec_rset \<Rightarrow> rec_record \<Rightarrow> string \<Rightarrow> (bool \<times> rec_record) option" where
  "rec_decrypt_record env rset r password =
     map_option snd (crypt_names (\<lambda>c f. rec_decrypt_field env f password)
       (fex_names (rec_rset_confidential rset)) (0, True, r))"

end
