(* ===== verification/Rec_Db_Ops.thy ===== *)
theory Rec_Db_Ops
  imports Rec_Db Rec_Crypt Rec_Writer
begin

text \<open>
  The operations of a database (\<open>src/rec-db.c\<close>): query, insert, delete, set and join. A record
  set of the database is a position in its list and is written back after it changed; the
  records of a set are element positions. Evaluating a selection expression leaves marks in the
  record and in the expression, both of which are threaded. The outer \<open>None\<close> stands for undefined
  behaviour, an inner \<open>None\<close> for a NULL result.
\<close>

unbundle bit_operations_syntax

section \<open>The environment\<close>

text \<open>
  What the operations take from outside: the environments of the expressions and of the
  encryption with its nonces, the numbers \<open>random_r\<close> delivers, the current time as text, the
  insertion of gnulib's sorted lists, and the address of a new record set.
\<close>

record db_env =
  env_sex :: sex_env
  env_crypt :: crypt_env
  env_salts :: "nat \<Rightarrow> string"
  env_random :: "nat \<Rightarrow> size_t"
  env_now :: string
  env_sorted_add :: "sdata sorted_add"
  env_fresh :: nat

abbreviation (input) env_ext :: "db_env \<Rightarrow> rec_ext" where "env_ext env \<equiv> rec_ext.truncate (env_sex env)"

definition REC_F_DESCRIPTOR :: int where "REC_F_DESCRIPTOR = 1"
definition REC_F_ICASE :: int where "REC_F_ICASE = 2"
definition REC_F_UNIQ :: int where "REC_F_UNIQ = 4"
definition REC_F_NOAUTO :: int where "REC_F_NOAUTO = 8"
definition REC_F_COMMENT_OUT :: int where "REC_F_COMMENT_OUT = 16"
definition REC_Q_NOINDEX :: size_t where "REC_Q_NOINDEX = -1"

definition flag_p :: "int \<Rightarrow> int \<Rightarrow> bool" where
  "flag_p flags f = (flags AND f \<noteq> 0)"

datatype rec_set_action =
    REC_SET_ACT_NONE | REC_SET_ACT_RENAME | REC_SET_ACT_SET | REC_SET_ACT_ADD | REC_SET_ACT_SETADD
  | REC_SET_ACT_DELETE | REC_SET_ACT_COMMENT

section \<open>Selecting records\<close>

text \<open>The pairs of an index end with a pair of \<open>REC_Q_NOINDEX\<close>; a shorter buffer would be read past its end.\<close>

fun rec_db_index_p :: "size_t list \<Rightarrow> size_t \<Rightarrow> bool" where
  "rec_db_index_p (mn # mx # index) num =
     (if mn \<noteq> REC_Q_NOINDEX \<or> mx \<noteq> REC_Q_NOINDEX
      then (if mx = REC_Q_NOINDEX then num = mn else num \<ge> mn \<and> num \<le> mx) \<or> rec_db_index_p index num
      else False)"
| "rec_db_index_p _ num = False"

text \<open>A number that is not taken: the random one, else the first free one, else the random one again.\<close>

definition pick_index :: "size_t list \<Rightarrow> size_t \<Rightarrow> size_t \<Rightarrow> size_t" where
  "pick_index index limit v =
     (if rec_db_index_p index v
      then (case find (\<lambda>i. \<not> rec_db_index_p index (of_nat i)) [0..<unat limit] of Some i \<Rightarrow> of_nat i | None \<Rightarrow> v)
      else v)"

fun random_indexes :: "(nat \<Rightarrow> size_t) \<Rightarrow> size_t \<Rightarrow> nat list \<Rightarrow> size_t list \<Rightarrow> size_t list" where
  "random_indexes rnd limit [] index = index"
| "random_indexes rnd limit (i # is) index =
     random_indexes rnd limit is
       (index[2 * i := pick_index index limit (rnd i mod limit), 2 * i + 1 := REC_Q_NOINDEX])"

definition rec_db_add_random_indexes :: "(nat \<Rightarrow> size_t) \<Rightarrow> nat \<Rightarrow> size_t \<Rightarrow> size_t list option" where
  "rec_db_add_random_indexes rnd num limit =
     (if limit = 0 \<and> num > 0 then None
      else Some (random_indexes rnd limit [0..<num] (replicate ((num + 1) * 2) REC_Q_NOINDEX)))"

definition rec_db_record_selected_p ::
  "sex_env \<Rightarrow> nat \<Rightarrow> rec_record \<Rightarrow> size_t list option \<Rightarrow> rec_sex option \<Rightarrow> string option \<Rightarrow> bool
   \<Rightarrow> (bool \<times> rec_sex option \<times> rec_record) option" where
  "rec_db_record_selected_p env num record index sex fast_string case_insensitive =
     (case fast_string of
        Some str \<Rightarrow> Some (rec_record_contains_value record str case_insensitive, sex, record)
      | None \<Rightarrow>
          (case sex of
             Some s \<Rightarrow> map_option (\<lambda>(res, status, s', record'). (res, Some s', record')) (rec_sex_eval env s record)
           | None \<Rightarrow>
               (case index of
                  Some ix \<Rightarrow> Some (rec_db_index_p ix (of_nat num), sex, record)
                | None \<Rightarrow> Some (True, sex, record))))"

text \<open>The index in effect: random indexes replace the given one.\<close>

definition effective_index ::
  "db_env \<Rightarrow> size_t list option \<Rightarrow> nat \<Rightarrow> rec_rset \<Rightarrow> size_t list option option" where
  "effective_index env index random rset =
     (if random > 0 then map_option Some (rec_db_add_random_indexes (env_random env) random (of_nat (rec_rset_num_records rset)))
      else Some index)"

definition rset_set_record :: "rec_rset \<Rightarrow> nat \<Rightarrow> rec_record \<Rightarrow> rec_rset" where
  "rset_set_record rset pos r = rset\<lparr>rset_mset := rec_mset_elem_set_data (rset_mset rset) pos (SRecord r)\<rparr>"

text \<open>
  An iteration over the records of a set: \<open>f num pos\<close> is the body for the record with the number
  \<open>num\<close> at the position \<open>pos\<close>, applied to the state.
\<close>

fun for_records :: "(nat \<Rightarrow> nat \<Rightarrow> 's \<Rightarrow> 's option) \<Rightarrow> nat \<Rightarrow> nat list \<Rightarrow> 's \<Rightarrow> 's option" where
  "for_records f num [] st = Some st"
| "for_records f num (pos # ps) st = Option.bind (f num pos st) (for_records f (Suc num) ps)"

section \<open>Field expressions\<close>

definition record_append_field :: "rec_record \<Rightarrow> rec_field \<Rightarrow> nat \<Rightarrow> rec_record" where
  "record_append_field r f t = r\<lparr>record_mset := snd (rec_mset_append (record_mset r) MSET_FIELD (DField f) t)\<rparr>"

definition fex_range :: "rec_record \<Rightarrow> rec_fex_elem \<Rightarrow> string \<Rightarrow> nat list" where
  "fex_range record elem name =
     (let mn = fex_elem_min elem; mx = fex_elem_max elem in
      if mn = -1 \<and> mx = -1 then [0..<rec_record_get_num_fields_by_name record name]
      else if mx = -1 then [size_of_int mn..<size_of_int (mn + 1)]
      else [size_of_int mn..<size_of_int (mx + 1)])"

definition process_fields :: "rec_record \<Rightarrow> rec_fex_elem \<Rightarrow> string \<Rightarrow> rec_record \<Rightarrow> rec_record" where
  "process_fields record elem name res =
     fold (\<lambda>j res.
        case rec_record_get_field_by_name record name j of
          None \<Rightarrow> res
        | Some (_, f) \<Rightarrow>
            let f' = rec_field_dup f in
            record_append_field res (case fex_elem_rewrite_to elem of Some alias \<Rightarrow> rec_field_set_name f' alias | None \<Rightarrow> f') MSET_FIELD)
       (fex_range record elem name) res"

definition process_call ::
  "db_env \<Rightarrow> rec_db \<Rightarrow> rec_rset \<Rightarrow> rec_record option \<Rightarrow> rec_fex_elem \<Rightarrow> string \<Rightarrow> string \<Rightarrow> rec_record \<Rightarrow> rec_record option" where
  "process_call env db rset record elem fn name res =
     (case rec_aggregate_reg_get (db_aggregates db) fn of
        None \<Rightarrow> Some res
      | Some func \<Rightarrow>
          map_option
            (\<lambda>v. record_append_field res
               (rec_field_new (case fex_elem_rewrite_to elem of Some alias \<Rightarrow> alias | None \<Rightarrow> fn @ ''_'' @ name) v) MSET_FIELD)
            (call_aggregate (env_sex env) func rset record name))"

text \<open>Without a record only calls can be processed: a plain field would be looked up in a NULL record.\<close>

definition process_elem ::
  "db_env \<Rightarrow> rec_db \<Rightarrow> rec_rset \<Rightarrow> rec_record option \<Rightarrow> rec_fex_elem \<Rightarrow> rec_record option \<Rightarrow> rec_record option" where
  "process_elem env db rset record elem res =
     Option.bind res (\<lambda>res.
       case (fex_elem_field_name elem, fex_elem_function_name elem, record) of
         (Some name, Some fn, _) \<Rightarrow> process_call env db rset record elem fn name res
       | (Some name, None, Some r) \<Rightarrow> Some (process_fields r elem name res)
       | _ \<Rightarrow> None)"

definition rec_db_process_fex ::
  "db_env \<Rightarrow> rec_db \<Rightarrow> rec_rset \<Rightarrow> rec_record option \<Rightarrow> rec_fex option \<Rightarrow> rec_record option" where
  "rec_db_process_fex env db rset record fex =
     (case fex of
        None \<Rightarrow> Option.bind record rec_record_dup
      | Some fx \<Rightarrow>
          map_option
            (\<lambda>res. case record of
                     None \<Rightarrow> res
                   | Some r \<Rightarrow> rec_record_set_char_location (rec_record_set_location res (record_location r)) (record_char_location r))
            (fold (process_elem env db rset record) (fex_elems fx) (Some rec_record_new)))"

section \<open>Joins\<close>

definition rec_db_merge_records :: "rec_record \<Rightarrow> rec_record \<Rightarrow> string \<Rightarrow> rec_record option" where
  "rec_db_merge_records record1 record2 prefix =
     map_option
       (\<lambda>merge. fold (\<lambda>(_, f) m. record_append_field m (rec_field_set_name (rec_field_dup f) (prefix @ ''_'' @ field_name f)) MSET_ANY)
                  (rec_record_fields record2) merge)
       (rec_record_dup record1)"

text \<open>Removing the first field of a name while there is one; every round removes one.\<close>

fun remove_while :: "string \<Rightarrow> nat \<Rightarrow> rec_record \<Rightarrow> rec_record" where
  "remove_while name 0 r = r"
| "remove_while name (Suc k) r =
     (if rec_record_get_num_fields_by_name r name > 0
      then remove_while name k (rec_record_remove_field_by_name r name 0) else r)"

text \<open>A record of the second set without a key of this number ends the iteration over the set.\<close>

fun join_records :: "nat \<Rightarrow> string \<Rightarrow> string \<Rightarrow> nat \<Rightarrow> rec_record \<Rightarrow> rec_record list \<Rightarrow> rec_rset \<Rightarrow> rec_rset option" where
  "join_records addr field key k record1 [] join = Some join"
| "join_records addr field key k record1 (record2 # rs) join =
     (case rec_record_get_field_by_name record2 key k of
        None \<Rightarrow> Some join
      | Some (_, key_field) \<Rightarrow>
          if field_value key_field \<in> set (named_values_of field record1)
          then (case rec_db_merge_records record1 record2 field of
                  None \<Rightarrow> None
                | Some r \<Rightarrow>
                    let r' = remove_while field (rec_record_get_num_fields_by_name r field) r in
                    join_records addr field key k record1 rs
                      (join\<lparr>rset_mset := snd (rec_mset_append (rset_mset join) MSET_RECORD
                          (SRecord (rec_record_set_container r' (Some addr))) MSET_ANY)\<rparr>))
          else join_records addr field key k record1 rs join)"

definition join_record :: "nat \<Rightarrow> string \<Rightarrow> string \<Rightarrow> rec_record list \<Rightarrow> rec_record \<Rightarrow> rec_rset option \<Rightarrow> rec_rset option" where
  "join_record addr field key rs2 record1 join =
     fold (\<lambda>k j. Option.bind j (join_records addr field key k record1 rs2))
       [0..<rec_record_get_num_fields_by_name record1 field] join"

definition rec_db_join :: "db_env \<Rightarrow> rec_db \<Rightarrow> string option \<Rightarrow> string \<Rightarrow> string option \<Rightarrow> rec_rset option option" where
  "rec_db_join env db type1 field type2 =
     (case (rec_db_get_rset_by_type db type1, rec_db_get_rset_by_type db type2) of
        (Some i1, Some i2) \<Rightarrow>
          let rset1 = db_rset_list db ! i1; rset2 = db_rset_list db ! i2 in
          (case rec_rset_key rset2 of
             None \<Rightarrow> Some None
           | Some key \<Rightarrow>
               Option.bind
                 (fold (join_record (env_fresh env) field key (map snd (rec_rset_records rset2)))
                    (map snd (rec_rset_records rset1)) (Some rec_rset_new))
                 (\<lambda>join. Option.bind type1
                    (\<lambda>t. map_option Some
                       (rec_rset_set_descriptor (env_ext env) join
                          (Some (record_append_field rec_record_new
                             (rec_field_new (FNAME REC_FIELD_REC) (rec_concat_strings t ''_'' field)) MSET_ANY))))))
      | _ \<Rightarrow> Some None)"

section \<open>Queries\<close>

text \<open>
  The record set a query runs on, with its position when it is a set of the database: the set of
  the type, or its join when the field is declared to refer to an existing type.
\<close>

definition query_join :: "db_env \<Rightarrow> rec_db \<Rightarrow> string option \<Rightarrow> string option \<Rightarrow> nat \<Rightarrow> (nat option \<times> rec_rset) option option" where
  "query_join env db type join i =
     (let rset = db_rset_list db ! i; plain = Some (Some (Some i, rset)) in
      case join of
        None \<Rightarrow> plain
      | Some field \<Rightarrow>
          (case rec_rset_get_field_type rset field of
             None \<Rightarrow> plain
           | Some ty \<Rightarrow>
               if rec_type_kind ty = REC_TYPE_REC \<and> rec_db_type_p db (rec_type_rec ty)
               then map_option (map_option (Pair None)) (rec_db_join env db type field (rec_type_rec ty))
               else plain))"

definition db_put :: "rec_db \<Rightarrow> nat option \<Rightarrow> rec_rset \<Rightarrow> rec_db" where
  "db_put db pos rset = (case pos of None \<Rightarrow> db | Some i \<Rightarrow> db\<lparr>db_rset_list := (db_rset_list db)[i := rset]\<rparr>)"

definition rset_append_record :: "rec_rset \<Rightarrow> rec_record \<Rightarrow> nat \<Rightarrow> rec_rset" where
  "rset_append_record rset r t = rset\<lparr>rset_mset := snd (rec_mset_append (rset_mset rset) MSET_RECORD (SRecord r) t)\<rparr>"

text \<open>What a selected record contributes to the result: nothing, or the record to append; \<open>Some None\<close> is a NULL result.\<close>

definition query_record ::
  "db_env \<Rightarrow> rec_db \<Rightarrow> rec_rset \<Rightarrow> rec_fex option \<Rightarrow> string option \<Rightarrow> int \<Rightarrow> rec_record \<Rightarrow> rec_rset \<Rightarrow> rec_rset option option" where
  "query_record env db rset fex password flags record res =
     Option.bind (rec_db_process_fex env db rset (Some record) fex) (\<lambda>r.
       if rec_record_num_elems r = 0 then Some (Some res)
       else Option.bind (case password of None \<Rightarrow> Some (True, r) | Some pw \<Rightarrow> rec_decrypt_record (env_crypt env) rset r pw) (\<lambda>(ok, r1).
         if ok
         then let r2 = (if flag_p flags REC_F_UNIQ then rec_record_uniq r1 else r1) in
              Some (Some (rset_append_record res (rec_record_set_container r2 (Some (env_fresh env))) MSET_RECORD))
         else Some None))"

definition query_step ::
  "db_env \<Rightarrow> rec_db \<Rightarrow> size_t list option \<Rightarrow> string option \<Rightarrow> rec_fex option \<Rightarrow> string option \<Rightarrow> int \<Rightarrow> nat \<Rightarrow> nat
   \<Rightarrow> rec_rset option \<times> rec_rset \<times> rec_sex option \<Rightarrow> (rec_rset option \<times> rec_rset \<times> rec_sex option) option" where
  "query_step env db index fast_string fex password flags num pos = (\<lambda>(res, rset, sex).
     case res of
       None \<Rightarrow> Some (res, rset, sex)
     | Some rs \<Rightarrow>
         Option.bind (rec_db_record_selected_p (env_sex env) num (rec_at (rset_mset rset) pos) index sex fast_string (flag_p flags REC_F_ICASE))
           (\<lambda>(selected, sex', record).
              let rset' = rset_set_record rset pos record in
              if selected
              then map_option (\<lambda>res'. (res', rset', sex')) (query_record env db rset' fex password flags record rs)
              else Some (Some rs, rset', sex')))"

text \<open>Sorting and grouping happen in the record set of the database itself.\<close>

definition query_sorted :: "db_env \<Rightarrow> rec_rset \<Rightarrow> rec_fex option \<Rightarrow> rec_fex option \<Rightarrow> rec_rset option" where
  "query_sorted env rset group_by sort_by =
     Option.bind
       (case group_by of
          None \<Rightarrow> Some rset
        | Some g \<Rightarrow> map_option (\<lambda>rs. rec_rset_group (env_ext env) rs g) (rec_rset_sort (env_sorted_add env) (env_ext env) rset (Some g)))
       (\<lambda>rs. rec_rset_sort (env_sorted_add env) (env_ext env) rs sort_by)"

definition query_descriptor :: "db_env \<Rightarrow> rec_rset \<Rightarrow> int \<Rightarrow> rec_rset option" where
  "query_descriptor env rset flags =
     (if flag_p flags REC_F_DESCRIPTOR
      then (case rset_descriptor rset of
              None \<Rightarrow> rec_rset_set_descriptor (env_ext env) rec_rset_new None
            | Some d \<Rightarrow> Option.bind (rec_record_dup d) (\<lambda>d'. rec_rset_set_descriptor (env_ext env) rec_rset_new (Some d')))
      else Some rec_rset_new)"

definition query_on ::
  "db_env \<Rightarrow> rec_db \<Rightarrow> nat option \<Rightarrow> rec_rset \<Rightarrow> size_t list option \<Rightarrow> rec_sex option \<Rightarrow> string option \<Rightarrow> nat \<Rightarrow> rec_fex option
   \<Rightarrow> string option \<Rightarrow> rec_fex option \<Rightarrow> rec_fex option \<Rightarrow> int \<Rightarrow> (rec_rset option \<times> rec_db \<times> rec_sex option) option" where
  "query_on env db pos rset index sex fast_string random fex password group_by sort_by flags =
     Option.bind (query_descriptor env rset flags) (\<lambda>res.
       Option.bind (effective_index env index random rset) (\<lambda>ix.
         if (case fex of None \<Rightarrow> False | Some fx \<Rightarrow> group_by = None \<and> rec_fex_all_calls_p fx)
         then map_option (\<lambda>r. (Some (rset_append_record res (rec_record_set_container r (Some (env_fresh env))) MSET_RECORD), db, sex))
                (rec_db_process_fex env db rset None fex)
         else Option.bind (query_sorted env rset group_by sort_by) (\<lambda>rset1.
                map_option (\<lambda>(res', rset2, sex'). (res', db_put db pos rset2, sex'))
                  (for_records (query_step env db ix fast_string fex password flags) 0 (map fst (rec_rset_records rset1)) (Some res, rset1, sex)))))"

definition rec_db_query ::
  "db_env \<Rightarrow> rec_db \<Rightarrow> string option \<Rightarrow> string option \<Rightarrow> size_t list option \<Rightarrow> rec_sex option \<Rightarrow> string option \<Rightarrow> nat
   \<Rightarrow> rec_fex option \<Rightarrow> string option \<Rightarrow> rec_fex option \<Rightarrow> rec_fex option \<Rightarrow> int
   \<Rightarrow> (rec_rset option \<times> rec_db \<times> rec_sex option) option" where
  "rec_db_query env db type join index sex fast_string random fex password group_by sort_by flags =
     (case rec_db_get_rset_by_type db type of
        None \<Rightarrow>
          (case (type, rec_db_get_rset db 0) of
             (None, Some rset) \<Rightarrow>
               if rec_db_size db = 1
               then query_on env db (Some 0) rset index sex fast_string random fex password group_by sort_by flags
               else Some (Some rec_rset_new, db, sex)
           | _ \<Rightarrow> Some (Some rec_rset_new, db, sex))
      | Some i \<Rightarrow>
          (case query_join env db type join i of
             None \<Rightarrow> None
           | Some None \<Rightarrow> Some (None, db, sex)
           | Some (Some (pos, rset)) \<Rightarrow>
               query_on env db pos rset index sex fast_string random fex password group_by sort_by flags))"

section \<open>Insertion\<close>

definition insert_auto :: "db_env \<Rightarrow> rec_rset \<Rightarrow> int \<Rightarrow> rec_record \<Rightarrow> rec_record option" where
  "insert_auto env rset flags record =
     (if flag_p flags REC_F_NOAUTO then Some record else rec_rset_add_auto_fields (env_now env) rset record)"

definition insert_encrypt :: "db_env \<Rightarrow> rec_rset \<Rightarrow> string option \<Rightarrow> rec_record \<Rightarrow> (bool \<times> rec_record) option" where
  "insert_encrypt env rset password record =
     (case password of
        None \<Rightarrow> Some (True, record)
      | Some pw \<Rightarrow> rec_encrypt_record (env_crypt env) (env_salts env) rset record pw)"

text \<open>Replacing the selected records by copies of the given one; \<open>addr\<close> is the address of the set.\<close>

definition replace_step ::
  "db_env \<Rightarrow> size_t list option \<Rightarrow> string option \<Rightarrow> int \<Rightarrow> rec_record \<Rightarrow> nat \<Rightarrow> nat \<Rightarrow> nat
   \<Rightarrow> rec_rset \<times> rec_sex option \<Rightarrow> (rec_rset \<times> rec_sex option) option" where
  "replace_step env index fast_string flags record addr num pos = (\<lambda>(rset, sex).
     Option.bind (rec_db_record_selected_p (env_sex env) num (rec_at (rset_mset rset) pos) index sex fast_string (flag_p flags REC_F_ICASE))
       (\<lambda>(selected, sex', r).
          if selected
          then map_option (\<lambda>d. (rset_set_record rset pos d, sex')) (rec_record_dup (rec_record_set_container record (Some addr)))
          else Some (rset_set_record rset pos r, sex')))"

definition insert_replace ::
  "db_env \<Rightarrow> rec_db \<Rightarrow> nat \<Rightarrow> size_t list option \<Rightarrow> rec_sex option \<Rightarrow> string option \<Rightarrow> nat \<Rightarrow> string option \<Rightarrow> rec_record \<Rightarrow> int
   \<Rightarrow> (bool \<times> rec_db \<times> rec_sex option) option" where
  "insert_replace env db i index sex fast_string random password record flags =
     (let rset = db_rset_list db ! i in
      Option.bind (effective_index env index random rset) (\<lambda>ix.
      Option.bind (insert_auto env rset flags record) (\<lambda>r1.
      Option.bind (insert_encrypt env rset password r1) (\<lambda>(ok, r2).
        if ok
        then map_option (\<lambda>(rset', sex'). (True, db_put db (Some i) rset', sex'))
               (for_records (replace_step env ix fast_string flags r2 i) 0 (map fst (rec_rset_records rset)) (rset, sex))
        else Some (False, db, sex)))))"

text \<open>
  The position of the last record, which \<open>rec_mset_get_at\<close> and \<open>rec_mset_search\<close> find by its
  address; a wrong count would look up a NULL element.
\<close>

definition last_record_pos :: "rec_rset \<Rightarrow> nat option" where
  "last_record_pos rset =
     (let ps = map fst (rec_rset_records rset); n = rec_rset_num_records rset - 1
      in if n < length ps then Some (ps ! n) else None)"

definition insert_record :: "rec_rset \<Rightarrow> rec_record \<Rightarrow> rec_rset option" where
  "insert_record rset record =
     (if rec_rset_num_records rset = 0
      then Some (rset\<lparr>rset_mset := snd (rec_mset_insert_at (rset_mset rset) MSET_RECORD (SRecord record) (rset_descriptor_pos rset))\<rparr>)
      else map_option
             (\<lambda>p. rset\<lparr>rset_mset := snd (rec_mset_insert_at (rset_mset rset) MSET_RECORD (SRecord record) (Suc p))\<rparr>)
             (last_record_pos rset))"

definition insert_append ::
  "db_env \<Rightarrow> rec_db \<Rightarrow> nat \<Rightarrow> string option \<Rightarrow> rec_record \<Rightarrow> int \<Rightarrow> (bool \<times> rec_db) option" where
  "insert_append env db i password record flags =
     (let rset = db_rset_list db ! i in
      Option.bind (insert_auto env rset flags (rec_record_set_container record (Some i))) (\<lambda>r1.
      Option.bind (insert_encrypt env rset password r1) (\<lambda>(ok, r2).
        if ok then map_option (\<lambda>rset'. (True, db_put db (Some i) rset')) (insert_record rset r2)
        else Some (False, db))))"

definition insert_new :: "db_env \<Rightarrow> rec_db \<Rightarrow> string option \<Rightarrow> rec_record \<Rightarrow> rec_db" where
  "insert_new env db type record =
     (let rset = rset_append_record (rec_rset_set_type rec_rset_new type)
            (rec_record_set_container record (Some (env_fresh env))) MSET_ANY
      in rec_db_insert_rset db rset (if type \<noteq> None then rec_db_size db else 0))"

definition rec_db_insert ::
  "db_env \<Rightarrow> rec_db \<Rightarrow> string option \<Rightarrow> size_t list option \<Rightarrow> rec_sex option \<Rightarrow> string option \<Rightarrow> nat \<Rightarrow> string option
   \<Rightarrow> rec_record option \<Rightarrow> int \<Rightarrow> (bool \<times> rec_db \<times> rec_sex option) option" where
  "rec_db_insert env db type index sex fast_string random password rec flags =
     (case rec of
        None \<Rightarrow> Some (True, db, sex)
      | Some record \<Rightarrow>
          if rec_record_num_fields record = 0 then Some (True, db, sex)
          else if index \<noteq> None \<or> sex \<noteq> None \<or> fast_string \<noteq> None \<or> random > 0
          then (case rec_db_get_rset_by_type db type of
                  None \<Rightarrow> Some (True, db, sex)
                | Some i \<Rightarrow> insert_replace env db i index sex fast_string random password record flags)
          else (case rec_db_get_rset_by_type db type of
                  None \<Rightarrow> Some (True, insert_new env db type record, sex)
                | Some i \<Rightarrow> map_option (\<lambda>(ret, db'). (ret, db', sex)) (insert_append env db i password record flags)))"

section \<open>Deletion\<close>

text \<open>
  The record set an operation works on: the default record set stands for the only one. When there
  is none the code goes on with a NULL record set.
\<close>

definition target_rset :: "rec_db \<Rightarrow> string option \<Rightarrow> nat option" where
  "target_rset db type =
     (case rec_db_get_rset_by_type db type of
        Some i \<Rightarrow> Some i
      | None \<Rightarrow> if type = None \<and> rec_db_size db = 1 then Some 0 else None)"

definition comment_elem :: "sdata rec_mset \<Rightarrow> nat \<Rightarrow> rec_comment \<Rightarrow> sdata rec_mset" where
  "comment_elem m i c = rec_mset_elem_set_type (rec_mset_elem_set_data m i (SComment c)) i MSET_COMMENT"

text \<open>The iteration that removes or comments out; after a removal the next element stands at the same position.\<close>

function delete_loop ::
  "sex_env \<Rightarrow> size_t list option \<Rightarrow> string option \<Rightarrow> int \<Rightarrow> nat \<Rightarrow> nat \<Rightarrow> rec_sex option \<Rightarrow> sdata rec_mset
   \<Rightarrow> (rec_sex option \<times> sdata rec_mset) option" where
  "delete_loop env index fast_string flags num i sex m =
     (if i < length (mset_elems m)
      then (case (elem_type (mset_elems m ! i) = MSET_RECORD, elem_data (mset_elems m ! i)) of
              (True, SRecord record) \<Rightarrow>
                Option.bind (rec_db_record_selected_p env num record index sex fast_string (flag_p flags REC_F_ICASE))
                  (\<lambda>(selected, sex', r).
                     if selected
                     then if flag_p flags REC_F_COMMENT_OUT
                          then Option.bind (rec_record_to_comment r)
                                 (\<lambda>c. delete_loop env index fast_string flags (Suc num) (Suc i) sex' (comment_elem m i c))
                          else delete_loop env index fast_string flags (Suc num) i sex' (snd (rec_mset_remove_elem m i))
                     else delete_loop env index fast_string flags (Suc num) (Suc i) sex' (rec_mset_elem_set_data m i (SRecord r)))
            | _ \<Rightarrow> delete_loop env index fast_string flags num (Suc i) sex m)
      else Some (sex, m))"
  by pat_completeness auto
termination
  by (relation "measure (\<lambda>(env, index, fast, flags, num, i, sex, m). length (mset_elems m) - i)")
     (auto simp: rec_mset_remove_elem_def comment_elem_def rec_mset_elem_set_type_def rec_mset_elem_set_data_def Let_def)

declare delete_loop.simps [simp del]

definition rec_db_delete ::
  "db_env \<Rightarrow> rec_db \<Rightarrow> string option \<Rightarrow> size_t list option \<Rightarrow> rec_sex option \<Rightarrow> string option \<Rightarrow> nat \<Rightarrow> int
   \<Rightarrow> (bool \<times> rec_db \<times> rec_sex option) option" where
  "rec_db_delete env db type index sex fast_string random flags =
     (case target_rset db type of
        None \<Rightarrow> None
      | Some i \<Rightarrow>
          let rset = db_rset_list db ! i in
          if rec_rset_num_records rset = 0 then Some (True, db, sex)
          else Option.bind (effective_index env index random rset) (\<lambda>ix.
                 map_option (\<lambda>(sex', m). (True, db_put db (Some i) (rset\<lparr>rset_mset := m\<rparr>), sex'))
                   (delete_loop (env_sex env) ix fast_string flags 0 0 sex (rset_mset rset))))"

section \<open>Setting fields\<close>

text \<open>The range of fields an element selects, with the unsigned wrap-around of the code.\<close>

definition act_range :: "rec_record \<Rightarrow> rec_fex_elem \<Rightarrow> string \<Rightarrow> nat list" where
  "act_range record elem name =
     (let num_fields = rec_record_get_num_fields_by_name record name;
          (mn, mx) = (if fex_elem_min elem = -1 then (0, size_of_int (int num_fields - 1))
                      else (size_of_int (fex_elem_min elem), size_of_int (fex_elem_max elem)));
          mx' = (if mx = size_of_int (-1) then mn else mx)
      in filter (\<lambda>j. mn \<le> j \<and> j \<le> mx') [0..<num_fields])"

fun rename_fields ::
  "rec_ext \<Rightarrow> string \<Rightarrow> string \<Rightarrow> bool \<Rightarrow> nat list \<Rightarrow> nat \<Rightarrow> rec_rset \<Rightarrow> rec_record \<Rightarrow> (rec_rset \<times> rec_record) option" where
  "rename_fields ext name arg rename_descr [] renamed rset r = Some (rset, r)"
| "rename_fields ext name arg rename_descr (j # js) renamed rset r =
     (let (renamed', r') = (case rec_record_get_field_by_name r name (j - renamed) of
                              Some (pos, f) \<Rightarrow> (Suc renamed, record_set_field r pos (rec_field_set_name f arg))
                            | None \<Rightarrow> (renamed, r))
      in Option.bind (if rename_descr then rec_rset_rename_field ext rset name arg else Some rset)
           (\<lambda>rset'. rename_fields ext name arg rename_descr js renamed' rset' r'))"

definition rec_db_set_act_rename ::
  "rec_ext \<Rightarrow> rec_rset \<Rightarrow> rec_record \<Rightarrow> rec_fex \<Rightarrow> bool \<Rightarrow> string \<Rightarrow> (rec_rset \<times> rec_record) option" where
  "rec_db_set_act_rename ext rset r fex rename_descr arg =
     (case fex_elems fex of
        [] \<Rightarrow> None
      | elem # _ \<Rightarrow>
          Option.bind (fex_elem_field_name elem)
            (\<lambda>name. rename_fields ext name arg rename_descr (act_range r elem name) 0 rset r))"

definition set_elem_values :: "bool \<Rightarrow> string \<Rightarrow> rec_fex_elem \<Rightarrow> rec_record \<Rightarrow> rec_record" where
  "set_elem_values add_p arg elem r =
     (case fex_elem_field_name elem of
        None \<Rightarrow> r
      | Some name \<Rightarrow>
          let r1 = fold (\<lambda>j r. case rec_record_get_field_by_name r name j of
                                  Some (pos, f) \<Rightarrow> record_set_field r pos (rec_field_set_value f arg)
                                | None \<Rightarrow> r) (act_range r elem name) r
          in if add_p \<and> rec_record_get_num_fields_by_name r name = 0
             then record_append_field r1 (rec_field_new name arg) MSET_ANY else r1)"

definition rec_db_set_act_set :: "rec_record \<Rightarrow> rec_fex \<Rightarrow> bool \<Rightarrow> string \<Rightarrow> rec_record" where
  "rec_db_set_act_set r fex add_p arg = fold (set_elem_values add_p arg) (fex_elems fex) r"

definition rec_db_set_act_add :: "rec_record \<Rightarrow> rec_fex \<Rightarrow> string \<Rightarrow> rec_record" where
  "rec_db_set_act_add r fex arg =
     fold (\<lambda>name r. record_append_field r (rec_field_new name arg) MSET_ANY) (fex_names fex) r"

definition mark_elem :: "rec_record \<Rightarrow> rec_fex_elem \<Rightarrow> bool list \<Rightarrow> bool list" where
  "mark_elem r elem dmask =
     (case fex_elem_field_name elem of
        None \<Rightarrow> dmask
      | Some name \<Rightarrow>
          fold (\<lambda>j dmask. case rec_record_get_field_by_name r name j of
                           Some (pos, f) \<Rightarrow> dmask[rec_record_get_field_index r pos := True]
                         | None \<Rightarrow> dmask) (act_range r elem name) dmask)"

text \<open>Removing the marked fields, or turning them into comments.\<close>

function act_delete_loop :: "bool \<Rightarrow> bool list \<Rightarrow> nat \<Rightarrow> nat \<Rightarrow> rdata rec_mset \<Rightarrow> rdata rec_mset option" where
  "act_delete_loop comment_out dmask k i m =
     (if i < length (mset_elems m)
      then (case (elem_type (mset_elems m ! i) = MSET_FIELD, elem_data (mset_elems m ! i)) of
              (True, DField f) \<Rightarrow>
                if dmask ! k
                then if comment_out
                     then Option.bind (rec_field_to_comment f)
                            (\<lambda>c. act_delete_loop comment_out dmask (Suc k) (Suc i)
                                   (rec_mset_elem_set_type (rec_mset_elem_set_data m i (DComment c)) i MSET_COMMENT))
                     else act_delete_loop comment_out dmask (Suc k) i (snd (rec_mset_remove_elem m i))
                else act_delete_loop comment_out dmask (Suc k) (Suc i) m
            | _ \<Rightarrow> act_delete_loop comment_out dmask k (Suc i) m)
      else Some m)"
  by pat_completeness auto
termination
  by (relation "measure (\<lambda>(c, dmask, k, i, m). length (mset_elems m) - i)")
     (auto simp: rec_mset_remove_elem_def rec_mset_elem_set_type_def rec_mset_elem_set_data_def Let_def)

declare act_delete_loop.simps [simp del]

definition rec_db_set_act_delete :: "rec_record \<Rightarrow> rec_fex \<Rightarrow> bool \<Rightarrow> rec_record option" where
  "rec_db_set_act_delete r fex comment_out =
     map_option (\<lambda>m. r\<lparr>record_mset := m\<rparr>)
       (act_delete_loop comment_out (fold (mark_elem r) (fex_elems fex) (replicate (rec_record_num_fields r) False)) 0 0 (record_mset r))"

text \<open>
  The state of the loop of \<open>rec_db_set\<close>: whether an invalid action has ended it, whether the
  descriptor was renamed, the record set and the expression.
\<close>

definition set_step ::
  "db_env \<Rightarrow> size_t list option \<Rightarrow> string option \<Rightarrow> nat \<Rightarrow> rec_fex \<Rightarrow> rec_set_action \<Rightarrow> string \<Rightarrow> int \<Rightarrow> nat \<Rightarrow> nat
   \<Rightarrow> bool \<times> bool \<times> rec_rset \<times> rec_sex option \<Rightarrow> (bool \<times> bool \<times> rec_rset \<times> rec_sex option) option" where
  "set_step env index fast_string random fex action arg flags num pos = (\<lambda>(ended, renamed, rset, sex).
     if ended then Some (ended, renamed, rset, sex)
     else Option.bind (rec_db_record_selected_p (env_sex env) num (rec_at (rset_mset rset) pos) index sex fast_string (flag_p flags REC_F_ICASE))
       (\<lambda>(selected, sex', r).
          if \<not> selected then Some (False, renamed, rset_set_record rset pos r, sex')
          else case action of
                 REC_SET_ACT_RENAME \<Rightarrow>
                   let rename_descr = (\<not> renamed \<and> sex = None \<and> index = None \<and> random = 0 \<and> fast_string = None) in
                   map_option (\<lambda>(rset', r'). (False, renamed \<or> rename_descr, rset_set_record rset' pos r', sex'))
                     (rec_db_set_act_rename (env_ext env) rset r fex rename_descr arg)
               | REC_SET_ACT_SET \<Rightarrow> Some (False, renamed, rset_set_record rset pos (rec_db_set_act_set r fex False arg), sex')
               | REC_SET_ACT_ADD \<Rightarrow> Some (False, renamed, rset_set_record rset pos (rec_db_set_act_add r fex arg), sex')
               | REC_SET_ACT_SETADD \<Rightarrow> Some (False, renamed, rset_set_record rset pos (rec_db_set_act_set r fex True arg), sex')
               | REC_SET_ACT_DELETE \<Rightarrow>
                   map_option (\<lambda>r'. (False, renamed, rset_set_record rset pos r', sex')) (rec_db_set_act_delete r fex False)
               | REC_SET_ACT_COMMENT \<Rightarrow>
                   map_option (\<lambda>r'. (False, renamed, rset_set_record rset pos r', sex')) (rec_db_set_act_delete r fex True)
               | REC_SET_ACT_NONE \<Rightarrow> Some (True, renamed, rset_set_record rset pos r, sex')))"

definition rec_db_set ::
  "db_env \<Rightarrow> rec_db \<Rightarrow> string option \<Rightarrow> size_t list option \<Rightarrow> rec_sex option \<Rightarrow> string option \<Rightarrow> nat \<Rightarrow> rec_fex \<Rightarrow> rec_set_action
   \<Rightarrow> string \<Rightarrow> int \<Rightarrow> (bool \<times> rec_db \<times> rec_sex option) option" where
  "rec_db_set env db type index sex fast_string random fex action arg flags =
     (case target_rset db type of
        None \<Rightarrow> None
      | Some i \<Rightarrow>
          let rset = db_rset_list db ! i in
          if rec_rset_num_records rset = 0 then Some (True, db, sex)
          else Option.bind (effective_index env index random rset) (\<lambda>ix.
                 map_option (\<lambda>(ended, renamed, rset', sex'). (True, db_put db (Some i) rset', sex'))
                   (for_records (set_step env ix fast_string random fex action arg flags) 0 (map fst (rec_rset_records rset))
                      (False, False, rset, sex))))"

end
