(* ===== verification/Rec_Parser_Records.thy ===== *)
theory Rec_Parser_Records
  imports Rec_Parser_Laws
begin

text \<open>
  Reading back comments and whole records. \<open>lines_text ds\<close> is the text of the elements \<open>ds\<close>, each
  on lines of its own, as the writer produces it; \<open>parsed p ds\<close> are the elements the parser builds
  from it, with the locations of the parser where each of them starts.
\<close>

section \<open>Comments\<close>

definition after_comment :: "string \<Rightarrow> bool" where
  "after_comment t \<longleftrightarrow> t = [] \<or> (hd t \<noteq> CHR ''#'' \<and> hd t \<noteq> CHR 0xFF)"

lemma comment_loop_end:
  assumes "ready p" and "rest p = NL # t" and "after_comment t"
  shows "comment_loop buf p = (Some buf, fin t [NL] p)"
proof -
  have r1: "ready (adv [NL] p)" "rest (adv [NL] p) = t" using assms(1,2) by (auto intro: rest_adv)
  note g = getc_Cons [OF assms(1,2)] byte_int_EOF [of NL "parser_backend p"]
  show ?thesis
  proof (cases t)
    case Nil
    then show ?thesis
      using getc_Nil [OF r1(1)] r1(2) g by (subst comment_loop.simps) (simp add: Let_def fin_def)
  next
    case (Cons x xs)
    then have x: "x \<noteq> CHR 0xFF" "x \<noteq> CHR ''#''" using assms(3) by (simp_all add: after_comment_def)
    have r2: "rest (adv [NL] p) = x # xs" using r1 Cons by simp
    show ?thesis
      using getc_Cons [OF r1(1) r2 x(1)] ungetc_adv [OF r1(1) r2 x(1)] g Cons x byte_int_EOF [OF x(1), of "parser_backend p"]
      by (subst comment_loop.simps) (simp add: Let_def fin_def)
  qed
qed

lemma comment_loop_ok:
  assumes "ready p" and "rest p = comment_body c @ NL # t" and "after_comment t" and "plain c" and "holds buf w"
  shows "\<exists>b. comment_loop buf p = (Some b, fin t (comment_body c @ [NL]) p) \<and> holds b (w @ c)"
  using assms
proof (induction c arbitrary: p buf w)
  case Nil
  then show ?case using comment_loop_end [of p t buf] by simp
next
  case (Cons x c)
  let ?s = "if x = NL then [NL, CHR ''#''] else [x]"
  have x: "x \<noteq> CHR 0xFF" using Cons.prems(4) by simp
  obtain r b where b: "rec_buf_putc (schar x) buf = (r, b)" "r \<noteq> EOF" "holds b (w @ [x])"
    using Cons.prems(5) x by (rule holds_putc)
  have rs: "rest p = ?s @ comment_body c @ NL # t" using Cons.prems(2) by simp
  have "comment_loop buf p = comment_loop b (adv ?s p)"
  proof (cases "x = NL")
    case False
    then have "rest p = x # comment_body c @ NL # t" using rs by simp
    then show ?thesis
      using False getc_Cons [OF Cons.prems(1) _ x] b byte_int_EOF [OF x, of "parser_backend p"]
      by (subst comment_loop.simps) (simp add: Let_def)
  next
    case True
    then have r: "rest p = NL # CHR ''#'' # comment_body c @ NL # t" using rs by simp
    then have "rest (adv [NL] p) = CHR ''#'' # comment_body c @ NL # t" by (intro rest_adv) simp
    then show ?thesis
      using True getc_Cons [OF Cons.prems(1) r] getc_Cons [of "adv [NL] p" "CHR ''#''"] Cons.prems(1) b
        byte_int_EOF [of NL] byte_int_EOF [of "CHR ''#''"]
      by (subst comment_loop.simps) (simp add: Let_def)
  qed
  moreover have "\<exists>b'. comment_loop b (adv ?s p) = (Some b', fin t (comment_body c @ [NL]) (adv ?s p)) \<and> holds b' ((w @ [x]) @ c)"
    using Cons.prems b(3) rest_adv [OF rs] by (intro Cons.IH) simp_all
  ultimately show ?case by (cases "x = NL") simp_all
qed

lemma rec_parse_comment_ok:
  assumes "ready p" and "rest p = comment_text c @ NL # t" and "after_comment t" and "plain c"
  shows "rec_parse_comment p = (Some c, fin t (comment_text c @ [NL]) p)"
proof -
  have r: "rest p = CHR ''#'' # comment_body c @ NL # t" using assms(2) by (simp add: comment_text_def)
  then have r1: "rest (adv ''#'' p) = comment_body c @ NL # t" by (intro rest_adv) simp
  with comment_loop_ok [of "adv ''#'' p" c t rec_buf_new "[]"] assms
  obtain b where "comment_loop rec_buf_new (adv ''#'' p) = (Some b, fin t (comment_body c @ [NL]) (adv ''#'' p))" "holds b c"
    by auto
  then show ?thesis
    using getc_Cons [OF assms(1) r] byte_int_EOF [of "CHR ''#''"] plain_cstring [OF assms(4)]
    by (simp add: rec_parse_comment_def rec_comment_new_def holds_close comment_text_def)
qed

section \<open>Record bodies\<close>

definition lines_text :: "rdata list \<Rightarrow> string" where
  "lines_text ds = concat (map (\<lambda>d. rdata_text d @ [NL]) ds)"

fun rdata_ok :: "rdata \<Rightarrow> bool" where
  "rdata_ok (DField f) = field_ok f"
| "rdata_ok (DComment c) = plain c"

fun is_comment :: "rdata \<Rightarrow> bool" where
  "is_comment (DField f) = False"
| "is_comment (DComment c) = True"

text \<open>No comment directly follows another one: the parser reads consecutive comment lines as one.\<close>

fun separate :: "rdata list \<Rightarrow> bool" where
  "separate (d # e # ds) = (\<not> (is_comment d \<and> is_comment e) \<and> separate (e # ds))"
| "separate ds = True"

fun rdata_at :: "rec_parser \<Rightarrow> rdata \<Rightarrow> rdata" where
  "rdata_at p (DField f) = DField (field_at p (field_name f) (field_value f))"
| "rdata_at p (DComment c) = DComment c"

fun parsed :: "rec_parser \<Rightarrow> rdata list \<Rightarrow> rdata list" where
  "parsed p [] = []"
| "parsed p (d # ds) = rdata_at p d # parsed (adv (rdata_text d @ [NL]) p) ds"

definition rdata_tag :: "rdata \<Rightarrow> nat" where
  "rdata_tag d = (if is_comment d then MSET_COMMENT else MSET_FIELD)"

definition add_all :: "rec_record \<Rightarrow> rdata list \<Rightarrow> rec_record" where
  "add_all r ds = fold (\<lambda>d r. record_add r (rdata_tag d) d) ds r"

text \<open>A record ends with an empty line or with the input.\<close>

definition end_text :: "string \<Rightarrow> string" where
  "end_text t = take 1 t"

definition after_record :: "string \<Rightarrow> bool" where
  "after_record t \<longleftrightarrow> t = [] \<or> hd t = NL"

lemma lines_text_simps [simp]:
  "lines_text [] = []" "lines_text (d # ds) = rdata_text d @ NL # lines_text ds"
  by (simp_all add: lines_text_def)

lemma rdata_text_hd:
  assumes "rdata_ok d"
  shows "rdata_text d \<noteq> [] \<and> hd (rdata_text d) \<noteq> CHR ''+'' \<and> hd (rdata_text d) \<noteq> CHR 0xFF
    \<and> hd (rdata_text d) \<noteq> CHR '' '' \<and> hd (rdata_text d) \<noteq> TAB \<and> hd (rdata_text d) \<noteq> NL
    \<and> (hd (rdata_text d) = CHR ''#'' \<longleftrightarrow> is_comment d)"
proof (cases d)
  case (DComment c)
  then show ?thesis by (simp add: rdata_text_def comment_text_def)
next
  case (DField f)
  then obtain c n where "field_name f = c # n" "rec_parser_letter_p c \<or> c = CHR ''%''"
    using assms by (cases "field_name f") (auto simp: field_ok_def)
  with fname_start_special [of c] DField show ?thesis by (simp add: rdata_text_def field_text_def)
qed

lemma tail_hd:
  assumes "list_all rdata_ok ds" and "after_record t"
  shows "after_value (lines_text ds @ t)"
    and "(ds \<noteq> [] \<longrightarrow> \<not> is_comment (hd ds)) \<Longrightarrow> after_comment (lines_text ds @ t)"
  using assms rdata_text_hd [of "hd ds"]
  by (cases ds; auto simp: after_value_def after_comment_def after_record_def)+

text \<open>One element: the loop adds it and goes on behind its text.\<close>

lemma record_loop_step:
  assumes "ready p" and "rest p = rdata_text d @ NL # t" and "rdata_ok d" and "after_value t"
    and "is_comment d \<longrightarrow> after_comment t"
  shows "record_loop r p = record_loop (record_add r (rdata_tag d) (rdata_at p d)) (fin t (rdata_text d @ [NL]) p)"
proof -
  note h = rdata_text_hd [OF assms(3)]
  obtain x xs where x: "rest p = x # xs" "x = hd (rdata_text d)"
    using h assms(2) by (cases "rdata_text d") auto
  have x1: "x \<noteq> CHR 0xFF" using h x by simp
  note g = getc_Cons [OF assms(1) x(1) x1] ungetc_adv [OF assms(1) x(1) x1] byte_int_EOF [OF x1, of "parser_backend p"]
  show ?thesis
  proof (cases d)
    case (DField f)
    then have "rec_parse_field p = (Some (field_at p (field_name f) (field_value f)), fin t (rdata_text d @ [NL]) p)"
      using assms rec_parse_field_ok [of p f t] by (simp add: rdata_text_def)
    then show ?thesis
      using g h x DField by (subst record_loop.simps) (simp add: Let_def rdata_tag_def)
  next
    case (DComment c)
    then have "rec_parse_comment p = (Some c, fin t (rdata_text d @ [NL]) p)"
      using assms rec_parse_comment_ok [of p c t] by (simp add: rdata_text_def)
    then show ?thesis
      using g h x DComment by (subst record_loop.simps) (simp add: Let_def rdata_tag_def)
  qed
qed

lemma record_loop_end:
  assumes "ready p" and "rest p = t" and "after_record t"
  shows "record_loop r p = (True, r, fin t (end_text t) p)"
proof (cases t)
  case Nil
  then show ?thesis using getc_Nil [of p] assms by (subst record_loop.simps) (simp add: fin_def end_text_def)
next
  case (Cons x xs)
  then have "rest p = NL # xs" "x = NL" using assms by (simp_all add: after_record_def)
  then show ?thesis
    using getc_Cons [OF assms(1), of NL xs] byte_int_EOF [of NL] Cons
    by (subst record_loop.simps) (simp add: Let_def fin_def end_text_def)
qed

lemma record_loop_at_eof:
  assumes "ready p" and "rest p = []"
  shows "record_loop r (set_eof p) = (True, r, set_eof p)"
  using getc_eof_Nil [OF assms] by (subst record_loop.simps) simp

lemma rdata_tag_at [simp]: "rdata_tag (rdata_at p d) = rdata_tag d"
  by (cases d) (simp_all add: rdata_tag_def)

lemma separate_Cons: "separate (d # ds) \<longleftrightarrow> (ds \<noteq> [] \<longrightarrow> \<not> (is_comment d \<and> is_comment (hd ds))) \<and> separate ds"
  by (cases ds) auto

lemma record_loop_ok:
  assumes "ready p" and "rest p = lines_text ds @ t" and "list_all rdata_ok ds" and "separate ds" and "after_record t"
  shows "record_loop r p = (True, add_all r (parsed p ds), fin t (lines_text ds @ end_text t) p)"
  using assms
proof (induction ds arbitrary: p r)
  case Nil
  then show ?case using record_loop_end [of p t r] by (simp add: add_all_def)
next
  case (Cons d ds)
  let ?t = "lines_text ds @ t" and ?s = "rdata_text d @ [NL]"
  have ds: "list_all rdata_ok ds" "separate ds" "rdata_ok d" and "is_comment d \<longrightarrow> ds \<noteq> [] \<longrightarrow> \<not> is_comment (hd ds)"
    using Cons.prems(3,4) by (auto simp: separate_Cons)
  then have "after_value ?t" "is_comment d \<longrightarrow> after_comment ?t"
    using tail_hd [OF ds(1) Cons.prems(5)] by auto
  with record_loop_step [of p d ?t r] Cons.prems(1,2) ds(3)
  have step: "record_loop r p = record_loop (record_add r (rdata_tag d) (rdata_at p d)) (fin ?t ?s p)" by simp
  have r1: "ready (adv ?s p)" "rest (adv ?s p) = ?t" using Cons.prems(1,2) by (auto intro: rest_adv)
  show ?case
  proof (cases "?t = []")
    case True
    then have "ds = []" by (cases ds) auto
    with True step r1 record_loop_at_eof [of "adv ?s p"] show ?thesis
      by (simp add: fin_def add_all_def end_text_def)
  next
    case False
    then show ?thesis
      using step Cons.IH [OF r1 ds(1,2) Cons.prems(5)] fin_more [OF False] by (simp add: add_all_def)
  qed
qed

lemma rec_parse_record_ok:
  assumes "ready p" and "rest p = lines_text (DField f # ds) @ t" and "list_all rdata_ok (DField f # ds)"
    and "separate ds" and "after_record t"
  defines "r0 \<equiv> rec_record_set_char_location
    (rec_record_set_location (rec_record_set_source rec_record_new (parser_source p)) (parser_line p)) (start_char p)"
  shows "rec_parse_record p =
    (Some (add_all r0 (parsed p (DField f # ds))), fin t (lines_text (DField f # ds) @ end_text t) p)"
proof -
  let ?t = "lines_text ds @ t" and ?s = "field_text f @ [NL]"
  have ok: "field_ok f" "list_all rdata_ok ds" using assms(3) by simp_all
  have "rest p = field_text f @ NL # ?t" using assms(2) by (simp add: rdata_text_def)
  then have f: "rec_parse_field p = (Some (field_at p (field_name f) (field_value f)), fin ?t ?s p)"
    and r1: "rest (adv ?s p) = ?t"
    using rec_parse_field_ok [OF assms(1) _ tail_hd(1) [OF ok(2) assms(5)] ok(1)] by (auto intro: rest_adv)
  have loop: "record_loop r (fin ?t ?s p) = (True, add_all r (parsed (adv ?s p) ds), fin t (?s @ lines_text ds @ end_text t) p)" for r
  proof (cases "?t = []")
    case True
    then have "ds = []" by (cases ds) auto
    with True r1 record_loop_at_eof [of "adv ?s p"] assms(1) show ?thesis by (simp add: fin_def add_all_def end_text_def)
  next
    case False
    with record_loop_ok [of "adv ?s p" ds t r] assms(1,4,5) ok(2) r1 fin_more [OF False] show ?thesis by simp
  qed
  show ?thesis
    using ready_simps [OF assms(1)] f loop
    by (simp add: rec_parse_record_def Let_def r0_def [symmetric] add_all_def rdata_tag_def rdata_text_def)
qed

end
