(* ===== verification/Rec_Roundtrip.thy ===== *)
theory Rec_Roundtrip
  imports Rec_Parser_Records
begin

text \<open>
  Parsed records are well formed whatever the input is, carry their exact locations, and
  writing a record followed by an empty line and parsing it gives the record back, up to
  the joining of consecutive comments.
\<close>

section \<open>Parsed records are well formed\<close>

lemma rec_parse_field_wf: "rec_parse_field p = (Some f, p') \<Longrightarrow> rec_field_wf f"
  by (auto simp: rec_parse_field_def rec_field_set_wf split: prod.splits option.splits if_splits)

lemma rec_parse_comment_cstring: "rec_parse_comment p = (Some c, p') \<Longrightarrow> cstring c"
  by (auto simp: rec_parse_comment_def rec_comment_new_def split: prod.splits option.splits bool.splits)

lemma record_add_wf:
  assumes "rec_record_wf r" and "record_elem_ok \<lparr>elem_type = t, elem_data = d\<rparr>"
  shows "rec_record_wf (record_add r t d)"
    and "map elem_data (mset_elems (record_mset (record_add r t d))) = map elem_data (mset_elems (record_mset r)) @ [d]"
  using assms record_append_ok [of "record_mset r" t d] by (simp_all add: rec_record_wf_def record_add_def)

lemma record_loop_wf:
  "rec_record_wf r \<Longrightarrow> record_loop r p = (b, r', p') \<Longrightarrow> rec_record_wf r'"
proof (induction r p arbitrary: b r' p' rule: record_loop.induct)
  case (1 r p)
  obtain ci p1 where g: "rec_parser_getc p = (ci, p1)" by force
  obtain co p2 where c: "rec_parse_comment (snd (rec_parser_ungetc ci p1)) = (co, p2)" by force
  obtain fo p3 where f: "rec_parse_field (snd (rec_parser_ungetc ci p1)) = (fo, p3)" by force
  have "rec_record_wf (case co of Some cm \<Rightarrow> record_add r MSET_COMMENT (DComment cm) | None \<Rightarrow> r)"
    using 1(3) rec_parse_comment_cstring c record_add_wf(1) [OF 1(3)] by (auto simp: record_elem_ok_def split: option.splits)
  note com = 1(1) [OF g [symmetric] _ refl _ c [symmetric] this]
  have "rec_record_wf (record_add r MSET_FIELD (DField f))" if "fo = Some f" for f
    using that rec_parse_field_wf \<open>rec_parse_field _ = _\<close> record_add_wf(1) [OF 1(3)] by (auto simp: record_elem_ok_def)
  note fld = 1(2) [OF g [symmetric] _ refl _ _ _ f [symmetric] _ this]
  show ?case
    using 1(3,4) com fld c f
    by (subst (asm) record_loop.simps) (auto simp: g Let_def split: prod.splits if_splits option.splits)
qed

lemma record_set_wf:
  assumes "rec_record_wf r"
  shows "rec_record_wf (rec_record_set_source r s)" "rec_record_wf (rec_record_set_location r l)"
    "rec_record_wf (rec_record_set_char_location r l)"
  using assms by (simp_all add: rec_record_wf_def rec_record_set_source_def rec_record_set_location_def
    rec_record_set_char_location_def option.pred_map comp_def option.pred_True)

lemma rec_parse_record_parts:
  assumes "rec_parse_record p = (Some r, p')"
  obtains f p1 b where "rec_parse_field p = (Some f, p1)"
    and "record_loop (record_add (rec_record_set_char_location (rec_record_set_location
      (rec_record_set_source rec_record_new (parser_source p)) (parser_line p)) (start_char p)) MSET_FIELD (DField f)) p1 = (b, r, p')"
  using assms by (auto simp: rec_parse_record_def Let_def split: prod.splits option.splits if_splits)

lemma rec_parse_record_wf:
  assumes "rec_parse_record p = (Some r, p')"
  shows "rec_record_wf r"
proof -
  let ?r0 = "rec_record_set_char_location
    (rec_record_set_location (rec_record_set_source rec_record_new (parser_source p)) (parser_line p)) (start_char p)"
  obtain f p1 b where f: "rec_parse_field p = (Some f, p1)"
    and l: "record_loop (record_add ?r0 MSET_FIELD (DField f)) p1 = (b, r, p')"
    using assms by (rule rec_parse_record_parts)
  have "rec_record_wf (record_add ?r0 MSET_FIELD (DField f))"
    using rec_parse_field_wf [OF f] by (intro record_add_wf) (simp_all add: record_set_wf record_elem_ok_def)
  from record_loop_wf [OF this l] show ?thesis .
qed

section \<open>Locations\<close>

text \<open>The counters agree with the position: the current line and the number of bytes read.\<close>

definition parser_synced :: "rec_parser \<Rightarrow> bool" where
  "parser_synced p \<longleftrightarrow> parser_pos p \<le> length (parser_input p)
     \<and> parser_line p = 1 + of_nat (count_list (take (parser_pos p) (parser_input p)) NL)
     \<and> parser_character p = of_nat (parser_pos p)"

lemma getc_char:
  assumes "rec_parser_getc p = (ci, p1)" and "ci \<noteq> EOF"
  shows "parser_pos p < length (parser_input p)" and "char_of_int ci = parser_input p ! parser_pos p"
    and "p1 = adv [parser_input p ! parser_pos p] p"
  using assms by (auto simp: rec_parser_getc_def Let_def adv_def split: if_splits)

lemma getc_stop:
  assumes "rec_parser_getc p = (EOF, p1)" and "CHR 0xFF \<notin> set (parser_input p)"
  shows "p1 = p \<or> p1 = set_eof p"
proof (cases "parser_pos p < length (parser_input p)")
  case True
  then have "byte_int (parser_backend p) (parser_input p ! parser_pos p) \<noteq> EOF"
    using assms(2) by (metis byte_int_EOF nth_mem)
  then show ?thesis using assms(1) True by (auto simp: rec_parser_getc_def Let_def split: if_splits)
qed (use assms in \<open>auto simp: rec_parser_getc_def split: if_splits\<close>)

lemma adv_synced:
  assumes "parser_synced p" and "parser_pos p < length (parser_input p)"
  shows "parser_synced (adv [parser_input p ! parser_pos p] p)"
  using assms by (simp add: parser_synced_def adv_def take_Suc_conv_app_nth)

lemma synced_flags [simp]: "parser_synced (set_error e p) = parser_synced p" "parser_synced (set_eof p) = parser_synced p"
  by (simp_all add: parser_synced_def set_error_def set_eof_def)

lemma getc_synced:
  assumes "rec_parser_getc p = (ci, p1)" and "parser_synced p" and "CHR 0xFF \<notin> set (parser_input p)"
  shows "parser_synced p1"
  using getc_char [OF assms(1)] getc_stop [of p p1] adv_synced assms by (cases "ci = EOF") auto

lemma char_of_int_EOF: "char_of_int EOF = CHR 0xFF"
  by (metis char_of_int_schar schar_EOF_iff)

lemma ungetc_counters:
  assumes "rec_parser_getc q = (ci, q1)" and "ci \<noteq> EOF" and "ci' \<noteq> EOF" and "char_of_int ci' = char_of_int ci"
  shows "\<exists>e'. snd (rec_parser_ungetc ci' (set_error e q1)) = set_error e' q"
proof -
  let ?q2 = "snd (rec_parser_ungetc ci' (set_error e q1))"
  have "?q2 = set_error (parser_error ?q2) q"
    using assms by (cases "parser_backend q")
      (auto simp: rec_parser_getc_def rec_parser_ungetc_def Let_def set_error_def set_eof_def split: if_splits)
  then show ?thesis by blast
qed

lemma reads_synced:
  "reads p q \<Longrightarrow> parser_synced p \<Longrightarrow> CHR 0xFF \<notin> set (parser_input p) \<Longrightarrow> parser_synced q"
proof (induction rule: reads.induct)
  case (getc p q ci q1)
  then show ?case using getc_synced reads_advances [OF getc.hyps(1)] by (auto simp: advances_def)
next
  case (ungetc p q ci q1 ci' e)
  then have "parser_input q = parser_input p" using reads_advances by (auto simp: advances_def)
  then have "ci' \<noteq> EOF"
    using getc_char [OF ungetc.hyps(2,3)] ungetc by (metis char_of_int_EOF nth_mem)
  with ungetc_counters [OF ungetc.hyps(2,3) _ ungetc.hyps(4), of e] ungetc show ?case by auto
qed auto

lemma skip_blanks_reads': "skip_blanks ci p = (ci', p') \<Longrightarrow> reads p p'"
  using skip_blanks_reads [of p ci] by simp

lemma record_loop_reads: "reads p (snd (snd (record_loop r p)))"
proof (induction r p rule: record_loop.induct)
  case (1 r p)
  obtain ci p1 where g: "rec_parser_getc p = (ci, p1)" by force
  note step = getc_reads [OF g]
  show ?case
  proof (cases "ci = EOF")
    case True
    then show ?thesis using step by (subst record_loop.simps) (simp add: g)
  next
    case False
    note u = ungetc_getc [OF g False]
    have "reads p (snd (rec_parse_comment p))" "reads p (snd (rec_parse_field p))"
      by (rule rec_parse_comment_reads rec_parse_field_reads)+
    moreover have "reads p (snd (skip_blanks ci p1))" using step skip_blanks_reads by (rule reads_trans)
    ultimately show ?thesis
      using 1(1) [OF g [symmetric] False refl] 1(2) [OF g [symmetric] False refl] step False u
      by (subst record_loop.simps) (auto simp: g Let_def split: prod.split option.split intro: reads_trans)
  qed
qed

lemma rec_parse_record_reads: "reads p (snd (rec_parse_record p))"
  using rec_parse_field_reads [of p] record_loop_reads
  by (auto simp: rec_parse_record_def Let_def split: prod.split option.split intro: reads_trans) (metis reads_trans snd_conv)+

lemma add_location [simp]: "record_location (record_add r t d) = record_location r"
  by (simp add: record_add_def)

lemma record_loop_location: "record_loop r p = (b, r', p') \<Longrightarrow> record_location r' = record_location r"
proof (induction r p arbitrary: b r' p' rule: record_loop.induct)
  case (1 r p)
  obtain ci p1 where g: "rec_parser_getc p = (ci, p1)" by force
  obtain co p2 where c: "rec_parse_comment (snd (rec_parser_ungetc ci p1)) = (co, p2)" by force
  obtain fo p3 where f: "rec_parse_field (snd (rec_parser_ungetc ci p1)) = (fo, p3)" by force
  note com = 1(1) [OF g [symmetric] _ refl _ c [symmetric]]
  note fld = 1(2) [OF g [symmetric] _ refl _ _ _ f [symmetric]]
  have "record_location (case co of None \<Rightarrow> r | Some cm \<Rightarrow> record_add r MSET_COMMENT (DComment cm)) = record_location r"
    by (cases co) simp_all
  then show ?case
    using 1(3) com fld c f
    by (subst (asm) record_loop.simps) (auto simp: g Let_def split: prod.splits if_splits option.splits)
qed

lemma parse_record_located:
  assumes "parser_synced p" and "CHR 0xFF \<notin> set (parser_input p)" and "rec_parse_record p = (Some r, p')"
  shows "parser_synced p' \<and> parser_pos p < parser_pos p'
    \<and> record_location r = 1 + of_nat (count_list (take (parser_pos p) (parser_input p)) NL)"
proof -
  obtain f p1 b where f: "rec_parse_field p = (Some f, p1)"
    and l: "record_loop (record_add (rec_record_set_char_location (rec_record_set_location
      (rec_record_set_source rec_record_new (parser_source p)) (parser_line p)) (start_char p)) MSET_FIELD (DField f)) p1 = (b, r, p')"
    using assms(3) by (rule rec_parse_record_parts)
  have "record_location r = parser_line p"
    using record_loop_location [OF l] by (simp add: rec_record_set_char_location_def rec_record_set_location_def)
  moreover have "parser_synced p'" using reads_synced [OF rec_parse_record_reads assms(1,2)] assms(3) by simp
  moreover have "parser_pos p < parser_pos p'"
    using rec_parse_field_progress [OF f] reads_pos [OF record_loop_reads] l by (metis less_le_trans snd_conv)
  ultimately show ?thesis using assms(1) by (simp add: parser_synced_def)
qed

section \<open>Writing and reading back\<close>

definition record_data :: "rec_record \<Rightarrow> rdata list" where
  "record_data r = map elem_data (mset_elems (record_mset r))"

text \<open>What an element says, without where it was read.\<close>

definition content :: "rdata \<Rightarrow> (string \<times> string) + string" where
  "content d = (case d of DField f \<Rightarrow> Inl (field_name f, field_value f) | DComment c \<Rightarrow> Inr c)"

text \<open>Consecutive comments become one comment of several lines.\<close>

fun join_comments :: "rdata list \<Rightarrow> rdata list" where
  "join_comments [] = []"
| "join_comments (DField f # ds) = DField f # join_comments ds"
| "join_comments (DComment a # ds) =
     (case join_comments ds of
        DComment b # es \<Rightarrow> DComment (a @ NL # b) # es
      | es \<Rightarrow> DComment a # es)"

lemma comment_body_append [simp]: "comment_body (a @ b) = comment_body a @ comment_body b"
  by (induction a) simp_all

lemma join_comments_ok:
  "list_all rdata_ok ds \<Longrightarrow> list_all rdata_ok (join_comments ds)"
  by (induction ds rule: join_comments.induct) (auto split: list.split rdata.split)

lemma join_comments_text: "lines_text (join_comments ds) = lines_text ds"
proof (induction ds rule: join_comments.induct)
  case (3 a ds)
  then show ?case
    by (auto simp: rdata_text_def comment_text_def simp flip: 3 split: list.split rdata.split)
qed simp_all

lemma join_comments_separate: "separate (join_comments ds)"
proof (induction ds rule: join_comments.induct)
  case (3 a ds)
  then show ?case by (auto simp: separate_Cons split: list.split rdata.split)
qed (simp_all add: separate_Cons)

lemma field_at_wf [simp]: "rec_field_wf (field_at p n v)"
  unfolding field_at_def by (intro rec_field_set_wf rec_field_new_wf)

lemma rdata_at_ok:
  assumes "rdata_ok d"
  shows "record_elem_ok \<lparr>elem_type = rdata_tag d, elem_data = rdata_at p d\<rparr>" and "content (rdata_at p d) = content d"
proof (atomize (full), cases d)
  case (DField f)
  then have "cstring (field_name f)" "cstring (field_value f)"
    using assms valid_fname_plain plain_cstring by (auto simp: field_ok_def)
  with DField show "record_elem_ok \<lparr>elem_type = rdata_tag d, elem_data = rdata_at p d\<rparr> \<and> content (rdata_at p d) = content d"
    by (simp add: record_elem_ok_def rdata_tag_def content_def field_at_simps)
next
  case (DComment c)
  with assms plain_cstring show "record_elem_ok \<lparr>elem_type = rdata_tag d, elem_data = rdata_at p d\<rparr> \<and> content (rdata_at p d) = content d"
    by (simp add: record_elem_ok_def rdata_tag_def)
qed

lemma parsed_content: "list_all rdata_ok ds \<Longrightarrow> map content (parsed p ds) = map content ds"
  by (induction ds arbitrary: p) (simp_all add: rdata_at_ok(2))

lemma add_all_parsed:
  "rec_record_wf r \<Longrightarrow> list_all rdata_ok ds \<Longrightarrow>
   rec_record_wf (add_all r (parsed p ds)) \<and> record_data (add_all r (parsed p ds)) = record_data r @ parsed p ds"
proof (induction ds arbitrary: r p)
  case Nil
  then show ?case by (simp add: add_all_def)
next
  case (Cons d ds)
  then have ok: "record_elem_ok \<lparr>elem_type = rdata_tag d, elem_data = rdata_at p d\<rparr>"
    by (simp add: rdata_at_ok)
  show ?case
    using Cons.IH [OF record_add_wf(1) [OF Cons.prems(1) ok]] Cons.prems(2) record_add_wf(2) [OF Cons.prems(1) ok]
    by (simp add: add_all_def record_data_def)
qed

lemma rdata_text_content: "rdata_text d = rdata_text e" if "content d = content e"
  using that by (cases d; cases e) (simp_all add: rdata_text_def content_def field_text_def)

lemma content_text: "map content ds = map content es \<Longrightarrow> lines_text ds = lines_text es"
proof (induction ds arbitrary: es)
  case (Cons d ds)
  then obtain e es' where "es = e # es'" "content d = content e" "map content ds = map content es'"
    by (cases es) simp_all
  with Cons.IH [of es'] rdata_text_content [of d e] show ?case by simp
qed simp

lemma join_lines_text: "ls \<noteq> [] \<Longrightarrow> join_lines ls @ [NL] = concat (map (\<lambda>l. l @ [NL]) ls)"
  by (induction ls rule: join_lines.induct) simp_all

lemma record_lines_text: "record_data r \<noteq> [] \<Longrightarrow> record_text r @ [NL] = lines_text (record_data r)"
  by (simp add: record_text_def join_lines_text record_data_def lines_text_def comp_def)

text \<open>Parsing the text of a record that starts with a field.\<close>

lemma rec_parse_record_text:
  assumes "ready p" and "rest p = lines_text (DField f # ds) @ t" and "list_all rdata_ok (DField f # ds)"
    and "after_record t"
  shows "\<exists>r'. rec_parse_record p = (Some r', fin t (lines_text (DField f # ds) @ end_text t) p) \<and> rec_record_wf r'
    \<and> map content (record_data r') = map content (join_comments (DField f # ds))
    \<and> record_location r' = parser_line p"
proof -
  let ?ds = "DField f # join_comments ds"
  let ?r0 = "rec_record_set_char_location
    (rec_record_set_location (rec_record_set_source rec_record_new (parser_source p)) (parser_line p)) (start_char p)"
  have tx: "lines_text ?ds = lines_text (DField f # ds)" by (simp add: join_comments_text)
  have ok: "list_all rdata_ok ?ds" using assms(3) join_comments_ok by simp
  have wf: "rec_record_wf ?r0" by (simp add: record_set_wf)
  have "record_data ?r0 = []" by (simp add: record_data_def rec_record_new_eq rec_record_set_source_def
    rec_record_set_location_def rec_record_set_char_location_def)
  then have d: "rec_record_wf (add_all ?r0 (parsed p ?ds))" "record_data (add_all ?r0 (parsed p ?ds)) = parsed p ?ds"
    using add_all_parsed [OF wf ok] by simp_all
  have loc: "record_location (add_all r xs) = record_location r" for r xs
    by (induction xs arbitrary: r) (simp_all add: add_all_def record_add_def)
  have "rec_parse_record p = (Some (add_all ?r0 (parsed p ?ds)), fin t (lines_text ?ds @ end_text t) p)"
    using assms(1,2,4) ok join_comments_separate [of ds] by (intro rec_parse_record_ok) (simp_all add: join_comments_text)
  moreover have "map content (parsed p ?ds) = map content (join_comments (DField f # ds))"
    using parsed_content [OF ok, of p] by simp
  moreover have "record_location (add_all ?r0 (parsed p ?ds)) = parser_line p"
    by (simp only: loc) (simp add: rec_record_set_location_def rec_record_set_char_location_def)
  ultimately show ?thesis using d tx by metis
qed

definition writable :: "rec_record \<Rightarrow> bool" where
  "writable r \<longleftrightarrow> rec_record_wf r \<and> list_all rdata_ok (record_data r)
     \<and> (case record_data r of DField f # ds \<Rightarrow> True | _ \<Rightarrow> False)"

lemma writable_plain: "writable r \<Longrightarrow> record_plain r"
proof -
  have "rdata_ok d \<Longrightarrow> rdata_plain d" for d
    using valid_fname_plain by (cases d) (auto simp: rdata_plain_def field_ok_def)
  then show "writable r \<Longrightarrow> record_plain r"
    by (auto simp: writable_def record_plain_def record_data_def list_all_iff)
qed

lemma writable_text:
  assumes "writable r"
  obtains f ds where "record_data r = DField f # ds" "record_text r @ [NL] = lines_text (DField f # ds)"
    "list_all rdata_ok (DField f # ds)"
proof -
  from assms obtain f ds where "record_data r = DField f # ds"
    by (auto simp: writable_def split: list.splits rdata.splits)
  with assms that [of f ds] record_lines_text [of r] show ?thesis by (simp add: writable_def)
qed

lemma write_parse_record:
  assumes "writable r" and "ready p" and "rest p = record_text r @ NL # t" and "after_record t"
  shows "\<exists>r'. rec_parse_record p = (Some r', fin t (record_text r @ NL # end_text t) p) \<and> rec_record_wf r'
    \<and> map content (record_data r') = map content (join_comments (record_data r))
    \<and> record_location r' = parser_line p \<and> record_text r' = record_text r"
proof -
  obtain f ds where d: "record_data r = DField f # ds" "record_text r @ [NL] = lines_text (DField f # ds)"
    "list_all rdata_ok (DField f # ds)" using assms(1) by (rule writable_text)
  have e: "lines_text (DField f # ds) @ x = record_text r @ NL # x" for x
    by (simp only: d(2) [symmetric] append_assoc append_Cons append_Nil)
  from rec_parse_record_text [OF assms(2) _ d(3) assms(4)] obtain r' where
    r': "rec_parse_record p = (Some r', fin t (record_text r @ NL # end_text t) p)" "rec_record_wf r'"
      "map content (record_data r') = map content (join_comments (DField f # ds))" "record_location r' = parser_line p"
    unfolding e using assms(3) by blast
  have "lines_text (record_data r') = lines_text (DField f # ds)"
    using content_text [OF r'(3)] by (simp only: join_comments_text)
  moreover have "record_data r' \<noteq> []" using r'(3) by auto
  ultimately have "record_text r' @ [NL] = record_text r @ [NL]" using record_lines_text [of r'] d(2) by simp
  with r' d(1) show ?thesis by auto
qed

lemma rdata_ok_content: "content d = content e \<Longrightarrow> rdata_ok d = rdata_ok e"
  by (cases d; cases e) (simp_all add: content_def field_ok_def)

lemma list_all_content: "map content ds = map content es \<Longrightarrow> list_all rdata_ok ds = list_all rdata_ok es"
proof (induction ds arbitrary: es)
  case (Cons d ds)
  then obtain e es' where "es = e # es'" "content d = content e" "map content ds = map content es'"
    by (cases es) simp_all
  with Cons.IH [of es'] rdata_ok_content [of d e] show ?case by simp
qed simp

text \<open>A record read back from the text of a writable record is writable itself.\<close>

lemma writable_content:
  assumes "writable r" and "rec_record_wf r'" and "map content (record_data r') = map content (join_comments (record_data r))"
  shows "writable r'"
proof -
  obtain f ds where d: "record_data r = DField f # ds" "list_all rdata_ok (DField f # ds)"
    using assms(1) by (rule writable_text)
  then obtain e es where e: "record_data r' = e # es" "content e = content (DField f)"
    using assms(3) by (cases "record_data r'") simp_all
  then obtain g where "e = DField g" by (cases e) (simp_all add: content_def)
  moreover have "list_all rdata_ok (record_data r')"
    using list_all_content [OF assms(3)] join_comments_ok [OF d(2)] d(1) by simp
  ultimately show ?thesis using assms(2) e(1) by (simp add: writable_def)
qed

lemma rec_write_record_str_ok:
  assumes "writable r"
  obtains w where "rec_write_record r rec_writer_new_str = (True, w)" "rec_writer_destroy w = record_text r"
proof -
  have w0: "writer_ok rec_writer_new_str" "wflags rec_writer_new_str = (REC_WRITER_NORMAL, False, False)"
    "rec_writer_destroy rec_writer_new_str = []"
    using cbuf.contents_new
    by (simp_all add: writer_ok_def wflags_def rec_writer_new_str_def rec_writer_new_common_def rec_writer_destroy_def)
  have "outputs (REC_WRITER_NORMAL, False, False) (rec_write_record r) (record_text r)"
    using assms writable_plain [OF assms] by (intro rec_write_record_outputs [OF _ _ refl]) (simp_all add: writable_def)
  from outputsE [OF this w0(1,2)] w0(3) that show ?thesis by fastforce
qed

lemma new_str_ready:
  assumes "plain s" and "length s < 2 ^ 64"
  shows "ready (rec_parser_new_str s src)" and "rest (rec_parser_new_str s src) = s"
  using assms plain_cstring [OF assms(1)]
  by (simp_all add: ready_def rest_def rec_parser_new_str_def rec_parser_new_mem_def rec_parser_init_common_def)

lemma plain_value_text [simp]: "plain (value_text v) = plain v"
  by (induction v) auto

lemma plain_comment_body [simp]: "plain (comment_body v) = plain v"
  by (induction v) auto

lemma rdata_ok_text_plain: "rdata_ok d \<Longrightarrow> plain (rdata_text d)"
  using valid_fname_plain
  by (cases d) (auto simp: rdata_text_def field_text_def comment_text_def field_ok_def)

lemma lines_text_plain: "list_all rdata_ok ds \<Longrightarrow> plain (lines_text ds)"
  by (induction ds) (simp_all add: rdata_ok_text_plain)

lemma parse_record_str_ok:
  assumes "writable r" and "length (record_text r) < 2 ^ 64 - 1"
  shows "\<exists>r'. rec_parse_record_str (record_text r @ [NL]) = Some r' \<and> rec_record_wf r'
    \<and> map content (record_data r') = map content (join_comments (record_data r)) \<and> record_text r' = record_text r"
proof -
  have "plain (record_text r @ [NL])"
    using assms(1) lines_text_plain by (metis writable_text)
  then have p: "ready (rec_parser_new_str (record_text r @ [NL]) src)"
    "rest (rec_parser_new_str (record_text r @ [NL]) src) = record_text r @ NL # []" for src
    using new_str_ready [of "record_text r @ [NL]" src] assms(2) by simp_all
  have "after_record []" by (simp add: after_record_def)
  from write_parse_record [OF assms(1) p this, of "Some ''dummy''"] show ?thesis
    unfolding rec_parse_record_str_def by fastforce
qed

end
