(* ===== verification/Rec_Parser_Rset.thy ===== *)
theory Rec_Parser_Rset
  imports Rec_Roundtrip Rec_Db Rec_Rset_Core
begin

text \<open>
  Parsing record sets and databases (\<open>src/rec-parser.c\<close>). \<open>addr\<close> is the address of the new record
  set, the container of its records. The outer \<open>None\<close> stands for undefined behaviour: a comment
  that cannot be read leaves the pointer the parser appends unassigned, and a descriptor may make
  \<open>rec_rset_set_descriptor\<close> read a NULL name.
\<close>

section \<open>Record sets\<close>

definition rset_add :: "rec_rset \<Rightarrow> nat \<Rightarrow> sdata \<Rightarrow> rec_rset" where
  "rset_add rset t d = rset\<lparr>rset_mset := snd (rec_mset_append (rset_mset rset) t d MSET_ANY)\<rparr>"

lemma ungetc_pos:
  assumes "rec_parser_getc p = (ci, p1)" and "ci \<noteq> EOF"
  shows "parser_pos p \<le> parser_pos (snd (rec_parser_ungetc ci' p1))"
  using getc_rem(3) [OF assms] ungetc_fields(3) [of p1 ci'] by simp

lemma rec_parse_record_progress:
  assumes "rec_parse_record p = (Some r, p')"
  shows "parser_pos p < parser_pos p'"
proof -
  obtain f p1 b where f: "rec_parse_field p = (Some f, p1)"
    and l: "record_loop (record_add (rec_record_set_char_location (rec_record_set_location
      (rec_record_set_source rec_record_new (parser_source p)) (parser_line p)) (start_char p)) MSET_FIELD (DField f)) p1 = (b, r, p')"
    using assms by (rule rec_parse_record_parts)
  then show ?thesis
    using rec_parse_field_progress [OF f] reads_pos [OF record_loop_reads] by (metis less_le_trans snd_conv)
qed

lemma rem_decreases_from:
  assumes "rec_parser_getc p = (ci, p1)" and "ci \<noteq> EOF" and "reads (snd (rec_parser_ungetc ci' p1)) q"
    and "parser_pos p < parser_pos q"
  shows "parser_rem q < parser_rem p"
  using getc_rem(2,4,5) [OF assms(1)] reads_advances [OF assms(3)] assms(2,4)
  by (auto simp: advances_def parser_rem_def)

text \<open>The comment starts at the character just put back, so it always makes progress.\<close>

lemma ungetc_hash:
  assumes "rec_parser_getc p = (ci, p1)" and "ci \<noteq> EOF" and "char_of_int ci = CHR ''#''"
  shows "snd (rec_parser_ungetc (schar CHR ''#'') p1) = p"
proof -
  have "ci = byte_int (parser_backend p) CHR ''#''"
    using assms by (auto simp: rec_parser_getc_def Let_def byte_int_def split: if_splits)
  then have "ci = schar CHR ''#''" by (simp add: byte_int_def uchar_def schar_def)
  then show ?thesis using ungetc_getc [OF assms(1,2)] by simp
qed

text \<open>The loop of \<open>rec_parse_rset\<close>: \<open>ret\<close>, the record set and the parser.\<close>

function rset_loop :: "rec_ext \<Rightarrow> nat \<Rightarrow> nat \<Rightarrow> rec_rset \<Rightarrow> rec_parser \<Rightarrow> (bool \<times> rec_rset \<times> rec_parser) option" where
  "rset_loop ext addr comments_added new p =
     (case rec_parser_getc p of (ci, p1) \<Rightarrow>
        if ci = EOF then Some (False, new, p1)
        else
          let c = char_of_int ci in
          if c = NL \<or> c = CHR '' '' \<or> c = TAB then rset_loop ext addr comments_added new p1
          else if c = CHR ''#''
          then (case rec_parse_comment (snd (rec_parser_ungetc (schar c) p1)) of
                  (None, p2) \<Rightarrow> None
                | (Some comment, p2) \<Rightarrow>
                    rset_loop ext addr (Suc comments_added) (rset_add new MSET_COMMENT (SComment comment)) p2)
          else (case rec_parse_record (snd (rec_parser_ungetc (schar c) p1)) of
                  (Some record, p2) \<Rightarrow>
                    if rec_record_field_p record (FNAME REC_FIELD_REC)
                    then if rec_rset_num_records new = 0 \<and> rset_descriptor new = None
                         then (case rec_rset_set_descriptor ext new (Some record) of
                                 None \<Rightarrow> None
                               | Some new1 \<Rightarrow>
                                   rset_loop ext addr comments_added (rec_rset_set_descriptor_pos new1 comments_added) p2)
                         else Some (True, new, p2\<lparr>parser_prev_descriptor := Some record\<rparr>)
                    else rset_loop ext addr comments_added
                           (rset_add new MSET_RECORD (SRecord (rec_record_set_container record (Some addr)))) p2
                | (None, p2) \<Rightarrow> Some (False, new, set_error REC_PARSER_ERECORD p2)))"
  by pat_completeness auto
termination
proof (relation "measure (\<lambda>(ext, addr, n, new, p). parser_rem p)", goal_cases)
  case (2 ext addr n new p ci p1 c)
  then show ?case using getc_rem(2) [of p ci p1] by simp
next
  case (3 ext addr n new p ci p1 c co p2 comment)
  then have g: "rec_parser_getc p = (ci, p1)" and ci: "ci \<noteq> EOF" "char_of_int ci = CHR ''#''" by simp_all
  then have "snd (rec_parse_comment p) = p2" using 3 ungetc_hash [OF g ci] by (metis snd_conv)
  then show ?case
    using rem_decreases [OF g ci(1) rec_parse_comment_reads] rec_parse_comment_progress [OF g ci] by simp
next
  case (4 ext addr n new p ci p1 c ro p2 r new1)
  then have g: "rec_parser_getc p = (ci, p1)" "ci \<noteq> EOF"
    and r: "rec_parse_record (snd (rec_parser_ungetc (schar c) p1)) = (Some r, p2)" by simp_all
  then show ?case
    using rem_decreases_from [OF g] rec_parse_record_reads [of "snd (rec_parser_ungetc (schar c) p1)"]
      rec_parse_record_progress [OF r] ungetc_pos [OF g, of "schar c"] by fastforce
next
  case (5 ext addr n new p ci p1 c ro p2 r)
  then have g: "rec_parser_getc p = (ci, p1)" "ci \<noteq> EOF"
    and r: "rec_parse_record (snd (rec_parser_ungetc (schar c) p1)) = (Some r, p2)" by simp_all
  then show ?case
    using rem_decreases_from [OF g] rec_parse_record_reads [of "snd (rec_parser_ungetc (schar c) p1)"]
      rec_parse_record_progress [OF r] ungetc_pos [OF g, of "schar c"] by fastforce
qed simp

declare rset_loop.simps [simp del]

definition rec_parse_rset :: "rec_ext \<Rightarrow> nat \<Rightarrow> rec_parser \<Rightarrow> (rec_rset option \<times> rec_parser) option" where
  "rec_parse_rset ext addr p =
     (case rec_rset_set_descriptor ext rec_rset_new (parser_prev_descriptor p) of
        None \<Rightarrow> None
      | Some new \<Rightarrow>
          (case rset_loop ext addr 0 new (p\<lparr>parser_prev_descriptor := None\<rparr>) of
             None \<Rightarrow> None
           | Some (ret, new1, p1) \<Rightarrow>
               Some (if ret \<or> parser_error p1 = REC_PARSER_NOERROR
                          \<and> (rset_descriptor new1 \<noteq> None \<or> rec_rset_num_records new1 > 0)
                     then Some new1 else None, p1)))"

section \<open>Databases\<close>

lemma getc_prev: "rec_parser_getc p = (ci, p') \<Longrightarrow> parser_prev_descriptor p' = parser_prev_descriptor p"
  by (auto simp: rec_parser_getc_def Let_def set_eof_def split: if_splits)

lemma ungetc_prev [simp]: "parser_prev_descriptor (snd (rec_parser_ungetc ci p)) = parser_prev_descriptor p"
  by (auto simp: rec_parser_ungetc_def Let_def set_error_def split: parser_backend.splits)

lemma flags_prev [simp]:
  "parser_prev_descriptor (set_error e p) = parser_prev_descriptor p" "parser_prev_descriptor (set_eof p) = parser_prev_descriptor p"
  by (simp_all add: set_error_def set_eof_def)

lemma reads_prev: "reads p q \<Longrightarrow> parser_prev_descriptor q = parser_prev_descriptor p"
  by (induction rule: reads.induct) (auto dest: getc_prev)

text \<open>
  Either the loop consumes input or it stops where it is, with the record set as it was; only the
  exit at the next descriptor sets the previous descriptor.
\<close>

lemma rset_loop_progress:
  "rset_loop ext addr n new p = Some (ret, new', p') \<Longrightarrow>
   (parser_rem p' < parser_rem p \<or> \<not> ret \<and> new' = new \<and> parser_rem p' \<le> parser_rem p)
   \<and> (\<not> ret \<longrightarrow> parser_prev_descriptor p' = parser_prev_descriptor p)"
proof (induction ext addr n new p arbitrary: ret new' p' rule: rset_loop.induct)
  case (1 ext addr n new p)
  obtain ci p1 where g: "rec_parser_getc p = (ci, p1)" by force
  note gr = getc_rem(1,2) [OF g] getc_prev [OF g]
  let ?c = "char_of_int ci" and ?u = "snd (rec_parser_ungetc (schar (char_of_int ci)) p1)"
  note eq = 1(5) [unfolded rset_loop.simps [of ext addr n new p] g prod.case Let_def]
  note IH = 1(1-4) [OF g [symmetric] _ refl]
  consider (eof) "ci = EOF" | (blank) "ci \<noteq> EOF" "?c = NL \<or> ?c = CHR '' '' \<or> ?c = TAB"
    | (hash) "ci \<noteq> EOF" "?c = CHR ''#''"
    | (rest) "ci \<noteq> EOF" "\<not> (?c = NL \<or> ?c = CHR '' '' \<or> ?c = TAB)" "?c \<noteq> CHR ''#''" by blast
  then show ?case
  proof cases
    case eof
    with eq gr show ?thesis by auto
  next
    case blank
    with eq have "rset_loop ext addr n new p1 = Some (ret, new', p')" by simp
    from IH(1) [OF blank this] gr blank show ?thesis by auto
  next
    case hash
    with eq obtain co p2 where c: "rec_parse_comment ?u = (co, p2)" by force
    with hash eq obtain cm where "co = Some cm"
      and l: "rset_loop ext addr (Suc n) (rset_add new MSET_COMMENT (SComment cm)) p2 = Some (ret, new', p')"
      by (auto split: option.splits)
    have u: "?u = p" using ungetc_hash [OF g hash] hash(2) by simp
    have "parser_rem p2 < parser_rem p" and "parser_prev_descriptor p2 = parser_prev_descriptor p"
      using rem_decreases [OF g hash(1) rec_parse_comment_reads] rec_parse_comment_progress [OF g hash]
        reads_prev [OF rec_parse_comment_reads [of p]] c u by auto
    with IH(2) [OF hash(1) _ hash(2) c [symmetric] \<open>co = Some cm\<close> l] hash(2) show ?thesis by auto
  next
    case rest
    obtain ro p2 where r: "rec_parse_record ?u = (ro, p2)" by force
    have rd: "reads ?u p2" using rec_parse_record_reads [of ?u] r by simp
    have prev: "parser_prev_descriptor p2 = parser_prev_descriptor p" using reads_prev [OF rd] gr by simp
    show ?thesis
    proof (cases ro)
      case None
      have "parser_rem p2 \<le> parser_rem p"
        using advances_rem [OF reads_advances [OF rd]] getc_ungetc_rem [OF g rest(1)] by (meson le_trans)
      with eq None r rest prev show ?thesis by auto
    next
      case (Some x)
      have rem: "parser_rem p2 < parser_rem p"
        using rem_decreases_from [OF g rest(1) rd] rec_parse_record_progress [of ?u x p2] r Some ungetc_pos [OF g rest(1)]
        by (metis le_less_trans)
      have "parser_rem (p2\<lparr>parser_prev_descriptor := d\<rparr>) = parser_rem p2" for d by (simp add: parser_rem_def)
      then show ?thesis
        using eq r rest Some rem prev IH(3) [OF rest r [symmetric] Some] IH(4) [OF rest r [symmetric] Some]
        by (auto split: if_splits option.splits) force+
    qed
  qed
qed

definition db_measure :: "rec_parser \<Rightarrow> nat" where
  "db_measure p = 2 * parser_rem p + (if parser_prev_descriptor p = None then 0 else 1)"

lemma rec_rset_new_empty: "rset_descriptor rec_rset_new = None" "rec_rset_num_records rec_rset_new = 0"
  by (simp_all add: rec_rset_new_eq rec_rset_num_records_def rec_mset_count_def)

lemma rec_parse_rset_progress:
  assumes "rec_parse_rset ext addr p = Some (Some rset, p')"
  shows "db_measure p' < db_measure p"
proof -
  let ?p = "p\<lparr>parser_prev_descriptor := None\<rparr>"
  obtain new ret where d: "rec_rset_set_descriptor ext rec_rset_new (parser_prev_descriptor p) = Some new"
    and l: "rset_loop ext addr 0 new ?p = Some (ret, rset, p')"
    and r: "ret \<or> rset_descriptor rset \<noteq> None \<or> rec_rset_num_records rset > 0"
    using assms by (auto simp: rec_parse_rset_def split: option.splits prod.splits if_splits)
  have rem: "parser_rem ?p = parser_rem p" by (simp add: parser_rem_def)
  note core = rset_coreD [OF set_descriptor_core [OF d]]
  have "rset_descriptor new = parser_prev_descriptor p" "rec_rset_num_records new = 0"
    using core(1) core(6) rec_rset_new_empty by (simp_all add: rec_rset_num_records_def)
  with rset_loop_progress [OF l] r show ?thesis by (auto simp: db_measure_def rem)
qed

text \<open>
  The loop of \<open>rec_parse_db\<close>. Every record set gets the address after the last one; the insertion
  at the end always succeeds.
\<close>

function db_loop :: "rec_ext \<Rightarrow> rec_db \<Rightarrow> rec_parser \<Rightarrow> (rec_db \<times> rec_parser) option" where
  "db_loop ext new p =
     (case rec_parse_rset ext (rec_db_size new) p of
        None \<Rightarrow> None
      | Some (None, p1) \<Rightarrow> Some (new, p1)
      | Some (Some rset, p1) \<Rightarrow> db_loop ext (rec_db_insert_rset new rset (rec_db_size new)) p1)"
  by pat_completeness auto
termination
  by (relation "measure (\<lambda>(ext, new, p). db_measure p)") (auto dest: rec_parse_rset_progress)

declare db_loop.simps [simp del]

definition rec_parse_db :: "rec_ext \<Rightarrow> rec_parser \<Rightarrow> (rec_db option \<times> rec_parser) option" where
  "rec_parse_db ext p =
     map_option (\<lambda>(new, p1). (if parser_eof p1 then Some new else None, p1)) (db_loop ext rec_db_new p)"

end
