(* ===== verification/Rec_Int.thy ===== *)
theory Rec_Int
  imports Rec_Db_Ops Rec_Parser_Rset
begin

text \<open>
  The integrity checks (\<open>src/rec-int.c\<close>). A check counts the errors it finds and appends a message for
  each to a buffer; its state is the count and the buffer. The terms of the sum in
  \<open>rec_int_check_record\<close> are evaluated from left to right. Evaluating a constraint leaves marks in the
  record and in the expression, which are threaded. \<open>None\<close> is undefined behaviour: a NULL pointer that
  is read. \<open>%s\<close> prints a NULL source as \<open>(null)\<close>, as the GNU library does. The build has encryption
  support and remote descriptors and no \<open>libuuid\<close>.
\<close>

section \<open>Reporting\<close>

text \<open>The files that can be read and what a URL delivers come from outside.\<close>

record int_env =
  int_sex :: sex_env
  int_file :: "string \<Rightarrow> string option"
  int_fetch :: "string \<Rightarrow> string option"

abbreviation (input) int_ext :: "int_env \<Rightarrow> rec_ext" where "int_ext env \<equiv> rec_ext.truncate (int_sex env)"

type_synonym check_state = "int \<times> rec_buf"

definition ADD_ERROR :: "rec_buf \<Rightarrow> string \<Rightarrow> rec_buf" where
  "ADD_ERROR errors msg = snd (rec_buf_puts msg errors)"

definition report :: "string \<Rightarrow> check_state \<Rightarrow> check_state" where
  "report msg = (\<lambda>(res, errors). (res + 1, ADD_ERROR errors msg))"

definition at_record :: "rec_record \<Rightarrow> string \<Rightarrow> string" where
  "at_record r msg = rec_record_source r @ '':'' @ rec_record_location_str r @ '': error: '' @ msg @ [NL]"

definition at_field :: "rec_field \<Rightarrow> string \<Rightarrow> string" where
  "at_field f msg =
     (case field_source f of None \<Rightarrow> ''(null)'' | Some s \<Rightarrow> s) @ '':'' @ rec_field_get_location_str f @ '': error: '' @ msg @ [NL]"

definition quoted :: "string \<Rightarrow> string" where
  "quoted n = CHR 0x27 # n @ [CHR 0x27]"

text \<open>\<open>rec_record_get_field_by_name (r, name, i)\<close> for all \<open>i\<close> below the number of fields of the name.\<close>

definition fields_by_name :: "rec_record \<Rightarrow> string \<Rightarrow> rec_field list" where
  "fields_by_name r name =
     List.map_filter (\<lambda>i. map_option snd (rec_record_get_field_by_name r name i)) [0..<rec_record_get_num_fields_by_name r name]"

section \<open>Types of fields\<close>

text \<open>The type of a field of a NULL name: the name is compared with the first properties, if there are any.\<close>

definition key_type :: "rec_rset \<Rightarrow> rec_type option option" where
  "key_type rset =
     (case rec_rset_key rset of
        Some key \<Rightarrow> Some (rec_rset_get_field_type rset key)
      | None \<Rightarrow> if rset_field_props rset = [] then Some None else None)"

definition check_value :: "int_env \<Rightarrow> rec_type \<Rightarrow> rec_field \<Rightarrow> rec_buf option \<Rightarrow> bool \<times> rec_buf option" where
  "check_value env type field errors =
     (case rec_type_check (int_ext env) type (field_value field) of
        (True, _) \<Rightarrow> (True, errors)
      | (False, errors_str) \<Rightarrow> (False, map_option (\<lambda>b. ADD_ERROR b (at_field field errors_str)) errors))"

definition rec_int_check_field_type ::
  "int_env \<Rightarrow> rec_db \<Rightarrow> rec_rset \<Rightarrow> rec_field \<Rightarrow> rec_buf option \<Rightarrow> (bool \<times> rec_buf option) option" where
  "rec_int_check_field_type env db rset field errors =
     (case rec_rset_get_field_type rset (field_name field) of
        None \<Rightarrow> Some (True, errors)
      | Some type \<Rightarrow>
          if rec_type_kind type = REC_TYPE_REC
          then (case rec_db_get_rset_by_type db (rec_type_rec type) of
                  None \<Rightarrow> Some (True, errors)
                | Some i \<Rightarrow>
                    map_option
                      (\<lambda>kt. case kt of None \<Rightarrow> (True, errors) | Some ktype \<Rightarrow> check_value env ktype field errors)
                      (key_type (db_rset_list db ! i)))
          else Some (check_value env type field errors))"

fun check_types :: "int_env \<Rightarrow> rec_db \<Rightarrow> rec_rset \<Rightarrow> rec_field list \<Rightarrow> check_state \<Rightarrow> check_state option" where
  "check_types env db rset [] st = Some st"
| "check_types env db rset (f # fs) (res, errors) =
     Option.bind (rec_int_check_field_type env db rset f (Some errors))
       (\<lambda>(ok, errors'). check_types env db rset fs (if ok then res else res + 1, the errors'))"

definition rec_int_check_record_types :: "int_env \<Rightarrow> rec_db \<Rightarrow> rec_rset \<Rightarrow> rec_record \<Rightarrow> rec_buf \<Rightarrow> check_state option" where
  "rec_int_check_record_types env db rset r errors = check_types env db rset (map snd (rec_record_fields r)) (0, errors)"

section \<open>Lists of fields\<close>

text \<open>The names of all fields of a directive; invalid values are ignored, \<open>None\<close> is a full list.\<close>

fun append_elems :: "rec_fex_elem list \<Rightarrow> rec_fex \<Rightarrow> rec_fex option" where
  "append_elems [] res = Some res"
| "append_elems (e # es) res =
     (case fex_elem_field_name e of
        None \<Rightarrow> None
      | Some n \<Rightarrow>
          (case rec_fex_append res n (fex_elem_min e) (fex_elem_max e) of
             (True, res') \<Rightarrow> append_elems es res'
           | (False, _) \<Rightarrow> None))"

fun collect_fields :: "rec_field list \<Rightarrow> rec_fex \<Rightarrow> rec_fex option" where
  "collect_fields [] res = Some res"
| "collect_fields (f # fs) res =
     (case rec_fex_new (Some (field_value f)) REC_FEX_SIMPLE of
        None \<Rightarrow> collect_fields fs res
      | Some fex \<Rightarrow> Option.bind (append_elems (fex_elems fex) res) (collect_fields fs))"

definition rec_int_collect_field_list :: "rec_record \<Rightarrow> string \<Rightarrow> rec_fex option" where
  "rec_int_collect_field_list r fname =
     Option.bind (rec_fex_new None REC_FEX_SIMPLE) (collect_fields (fields_by_name r fname))"

definition report_names :: "(string \<Rightarrow> bool) \<Rightarrow> (string \<Rightarrow> string) \<Rightarrow> string list \<Rightarrow> check_state \<Rightarrow> check_state" where
  "report_names P msg names st = fold (\<lambda>n st. if P n then report (msg n) st else st) names st"

text \<open>The common shape of the checks of \<open>%mandatory\<close>, \<open>%unique\<close> and \<open>%prohibit\<close>.\<close>

definition check_listed ::
  "rec_std_field \<Rightarrow> (nat \<Rightarrow> bool) \<Rightarrow> (string \<Rightarrow> string) \<Rightarrow> rec_rset \<Rightarrow> rec_record \<Rightarrow> rec_buf \<Rightarrow> check_state" where
  "check_listed directive P msg rset r errors =
     (case rset_descriptor rset of
        None \<Rightarrow> (0, errors)
      | Some d \<Rightarrow>
          (case rec_int_collect_field_list d (FNAME directive) of
             None \<Rightarrow> (1, ADD_ERROR errors (''out of memory'' @ [NL]))
           | Some fex \<Rightarrow>
               report_names (\<lambda>n. P (rec_record_get_num_fields_by_name r n)) (\<lambda>n. at_record r (msg n)) (fex_names fex) (0, errors)))"

definition rec_int_check_record_mandatory :: "rec_rset \<Rightarrow> rec_record \<Rightarrow> rec_buf \<Rightarrow> check_state" where
  "rec_int_check_record_mandatory =
     check_listed REC_FIELD_MANDATORY (\<lambda>k. k = 0) (\<lambda>n. ''mandatory field '' @ quoted n @ '' not found in record'')"

definition rec_int_check_record_unique :: "rec_rset \<Rightarrow> rec_record \<Rightarrow> rec_buf \<Rightarrow> check_state" where
  "rec_int_check_record_unique =
     check_listed REC_FIELD_UNIQUE (\<lambda>k. k > 1) (\<lambda>n. ''field '' @ quoted n @ '' should be unique in this record'')"

definition rec_int_check_record_prohibit :: "rec_rset \<Rightarrow> rec_record \<Rightarrow> rec_buf \<Rightarrow> check_state" where
  "rec_int_check_record_prohibit =
     check_listed REC_FIELD_PROHIBIT (\<lambda>k. k > 0) (\<lambda>n. ''prohibited field '' @ quoted n @ '' found in record'')"

text \<open>When \<open>%allowed\<close> lists fields, only those of \<open>%allowed\<close>, \<open>%mandatory\<close> and \<open>%key\<close> may occur.\<close>

definition rec_int_check_record_allowed :: "rec_rset \<Rightarrow> rec_record \<Rightarrow> rec_buf \<Rightarrow> check_state" where
  "rec_int_check_record_allowed rset r errors =
     (case rset_descriptor rset of
        None \<Rightarrow> (0, errors)
      | Some d \<Rightarrow>
          (case (rec_int_collect_field_list d (FNAME REC_FIELD_ALLOWED), rec_int_collect_field_list d (FNAME REC_FIELD_MANDATORY),
                 rec_int_collect_field_list d (FNAME REC_FIELD_KEY)) of
             (Some allowed, Some mandatory, Some key) \<Rightarrow>
               if rec_fex_size allowed = 0 then (0, errors)
               else report_names
                      (\<lambda>n. \<not> (rec_fex_member_p allowed n (-1) (-1) \<or> rec_fex_member_p mandatory n (-1) (-1)
                              \<or> rec_fex_member_p key n (-1) (-1)))
                      (\<lambda>n. at_record r (''field '' @ quoted n @ '' not allowed in this record set''))
                      (map (\<lambda>(pos, f). field_name f) (rec_record_fields r)) (0, errors)
           | _ \<Rightarrow> (1, ADD_ERROR errors (''out of memory'' @ [NL]))))"

section \<open>Secrets\<close>

definition rec_int_check_record_secrets :: "rec_rset \<Rightarrow> rec_record \<Rightarrow> rec_buf \<Rightarrow> check_state" where
  "rec_int_check_record_secrets rset r errors =
     fold (\<lambda>(pos, f) st.
        if rec_rset_field_confidential_p rset (field_name f) \<and> \<not> is_prefix REC_ENCRYPTED_PREFIX (field_value f)
        then report (at_record r ''confidential field is not encrypted'') st else st)
       (rec_record_fields r) (0, errors)"

section \<open>Constraints\<close>

text \<open>The number of a violated constraint is printed as an \<open>int\<close>.\<close>

fun check_constraints ::
  "sex_env \<Rightarrow> nat \<Rightarrow> rec_sex list \<Rightarrow> rec_record \<Rightarrow> check_state \<Rightarrow> (rec_sex list \<times> rec_record \<times> check_state) option" where
  "check_constraints env i [] r st = Some ([], r, st)"
| "check_constraints env i (sex # sexes) r st =
     Option.bind (rec_sex_eval env sex r) (\<lambda>(res, status, sex', r').
       map_option (\<lambda>(sexes', r'', st'). (sex' # sexes', r'', st'))
         (check_constraints env (Suc i) sexes r'
            (if res then st else report (at_record r' (''%constraint['' @ show_int (int32 (int i)) @ ''] violated in record'')) st)))"

definition rec_int_check_record_sex_constraints ::
  "sex_env \<Rightarrow> rec_rset \<Rightarrow> rec_record \<Rightarrow> rec_buf \<Rightarrow> (rec_rset \<times> rec_record \<times> check_state) option" where
  "rec_int_check_record_sex_constraints env rset r errors =
     map_option (\<lambda>(sexes, r', st). (rset\<lparr>rset_constraints := sexes\<rparr>, r', st))
       (check_constraints env 0 (rset_constraints rset) r (0, errors))"

section \<open>Keys\<close>

text \<open>
  Another record of the set with the same value in its first field of the name; \<open>orig\<close> is the position of the
  record the checked one comes from, when it is in the set.
\<close>

definition duplicated_key :: "rec_rset \<Rightarrow> nat option \<Rightarrow> string \<Rightarrow> rec_field \<Rightarrow> bool" where
  "duplicated_key rset orig name key =
     list_ex (\<lambda>(pos, other). orig \<noteq> Some pos
        \<and> (case rec_record_get_field_by_name other name 0 of
             None \<Rightarrow> False | Some (_, other_key) \<Rightarrow> field_value other_key = field_value key))
       (rec_rset_records rset)"

text \<open>A duplicated key ends the loop over the \<open>%key\<close> fields.\<close>

fun check_keys :: "rec_rset \<Rightarrow> nat option \<Rightarrow> rec_record \<Rightarrow> rec_record \<Rightarrow> rec_field list \<Rightarrow> check_state \<Rightarrow> check_state" where
  "check_keys rset orig orig_record r [] st = st"
| "check_keys rset orig orig_record r (f # fs) st =
     (case rec_parse_field_name_str (field_value f) of
        None \<Rightarrow> check_keys rset orig orig_record r fs st
      | Some name \<Rightarrow>
          let num_fields = rec_record_get_num_fields_by_name r name in
          if num_fields = 0
          then check_keys rset orig orig_record r fs (report (at_record r (''key field '' @ quoted (field_value f) @ '' not found in record'')) st)
          else if num_fields > 1
          then check_keys rset orig orig_record r fs (report (at_record r (''multiple key fields '' @ quoted (field_value f) @ '' in record'')) st)
          else (case rec_record_get_field_by_name r name 0 of
                  Some (_, key) \<Rightarrow>
                    if duplicated_key rset orig name key
                    then report (at_record orig_record (''duplicated key value in field '' @ quoted (field_name key) @ '' in record'')) st
                    else check_keys rset orig orig_record r fs st
                | None \<Rightarrow> st))"

definition rec_int_check_record_key :: "rec_rset \<Rightarrow> nat option \<Rightarrow> rec_record \<Rightarrow> rec_record \<Rightarrow> rec_buf \<Rightarrow> check_state" where
  "rec_int_check_record_key rset orig orig_record r errors =
     (case rset_descriptor rset of
        None \<Rightarrow> (0, errors)
      | Some d \<Rightarrow> check_keys rset orig orig_record r (fields_by_name d (FNAME REC_FIELD_KEY)) (0, errors))"

section \<open>Records\<close>

definition rec_int_check_record ::
  "int_env \<Rightarrow> rec_db \<Rightarrow> rec_rset \<Rightarrow> nat option \<Rightarrow> rec_record \<Rightarrow> rec_record \<Rightarrow> rec_buf
   \<Rightarrow> (rec_rset \<times> rec_record \<times> check_state) option" where
  "rec_int_check_record env db rset orig orig_record r errors =
     (case rec_int_check_record_key rset orig orig_record r errors of
        (k, errors1) \<Rightarrow>
     Option.bind (rec_int_check_record_types env db rset r errors1) (\<lambda>(t, errors2).
     (case rec_int_check_record_mandatory rset r errors2 of
        (m, errors3) \<Rightarrow>
     (case rec_int_check_record_unique rset r errors3 of
        (u, errors4) \<Rightarrow>
     (case rec_int_check_record_secrets rset r errors4 of
        (s, errors5) \<Rightarrow>
     (case rec_int_check_record_prohibit rset r errors5 of
        (p, errors6) \<Rightarrow>
     Option.bind (rec_int_check_record_sex_constraints (int_sex env) rset r errors6) (\<lambda>(rset', r', c, errors7).
     (case rec_int_check_record_allowed rset r' errors7 of
        (a, errors8) \<Rightarrow> Some (rset', r', k + t + m + u + s + p + c + a, errors8)))))))))"

section \<open>Descriptors\<close>

definition REC_TYPE_FIELD_RE :: re where
  "REC_TYPE_FIELD_RE =
     re_seqs [Star (Cls False [(CHR '' '', CHR '' ''), (TAB, TAB)]), REC_FNAME_RE, Star BLANK_CLS,
              re_opt (Alt REC_URL_REGEXP (Seq REC_FILE_REGEXP (Star (Cls False [(CHR '' '', CHR '' ''), (TAB, TAB)]))))]"

definition rec_int_rec_type_p :: "string \<Rightarrow> bool" where
  "rec_int_rec_type_p str = rec_match str (Whole REC_TYPE_FIELD_RE)"

text \<open>What stands behind the names: a type specification, or the name of a type in the registry.\<close>

definition check_type_spec :: "int_env \<Rightarrow> rec_rset \<Rightarrow> rec_field \<Rightarrow> string \<Rightarrow> string \<Rightarrow> check_state \<Rightarrow> check_state option" where
  "check_type_spec env rset f p msg st =
     (if rec_type_descr_p (int_ext env) p then Some st
      else if rec_parse_regexp (Whole (Seq REC_TYPE_NAME_RE (Star BLANK_CLS))) p \<noteq> None
      then (case (rec_parse_regexp (Begin REC_TYPE_NAME_RE) p, rset_type_reg rset) of
              (Some (tname, _), Some reg) \<Rightarrow>
                (case rec_type_reg_get reg tname of
                   Some (Some _, _) \<Rightarrow> Some st
                 | Some (None, _) \<Rightarrow> Some (report (at_field f (''the referred type '' @ tname @ '' does not exist'')) st)
                 | None \<Rightarrow> None)
            | _ \<Rightarrow> None)
      else Some (report (at_field f msg) st))"

definition check_type_directive :: "int_env \<Rightarrow> rec_rset \<Rightarrow> rec_field \<Rightarrow> check_state \<Rightarrow> check_state option" where
  "check_type_directive env rset f st =
     (let p = rec_skip_blanks (field_value f) in
      case rec_parse_regexp (Begin FNAMES_RE) p of
        None \<Rightarrow> check_type_spec env rset f (rec_skip_blanks p) ''invalid type specification''
                  (report (at_field f ''expected a comma-separated list of fields before the type specification'') st)
      | Some (_, q) \<Rightarrow> check_type_spec env rset f (rec_skip_blanks q) ''invalid type specification'' st)"

definition check_typedef_directive :: "int_env \<Rightarrow> rec_rset \<Rightarrow> rec_field \<Rightarrow> check_state \<Rightarrow> check_state option" where
  "check_typedef_directive env rset f st =
     (let p = rec_skip_blanks (field_value f) in
      case rec_parse_regexp (Begin REC_TYPE_NAME_RE) p of
        None \<Rightarrow> check_type_spec env rset f (rec_skip_blanks p) ''invalid typedef specification''
                  (report (at_field f ''expected a type name before the type specification'') st)
      | Some (_, q) \<Rightarrow> check_type_spec env rset f (rec_skip_blanks q) ''invalid typedef specification'' st)"

definition CONFIDENTIAL_RE :: re where
  "CONFIDENTIAL_RE =
     re_seqs [Star BLANK_CLS, REC_FNAME_RE, Star (Seq (re_plus BLANK_CLS) REC_FNAME_RE), Star BLANK_CLS]"

definition list_directives :: "string list" where
  "list_directives =
     map FNAME [REC_FIELD_MANDATORY, REC_FIELD_UNIQUE, REC_FIELD_PROHIBIT, REC_FIELD_AUTO, REC_FIELD_SORT, REC_FIELD_ALLOWED]"

text \<open>The position of a field in the descriptor identifies it.\<close>

definition check_directive :: "int_env \<Rightarrow> rec_rset \<Rightarrow> rec_record \<Rightarrow> nat \<times> rec_field \<Rightarrow> check_state \<Rightarrow> check_state option" where
  "check_directive env rset d = (\<lambda>(pos, f) st.
     let n = field_name f; v = field_value f;
         invalid = (\<lambda>what. at_record d (''value for '' @ n @ ''['' @ show_nat (rec_record_get_field_index_by_name d pos f) @ ''] is not '' @ what))
     in if rec_field_name_equal_p n (FNAME REC_FIELD_TYPE) then check_type_directive env rset f st
        else if rec_field_name_equal_p n (FNAME REC_FIELD_TYPEDEF) then check_typedef_directive env rset f st
        else if rec_field_name_equal_p n (FNAME REC_FIELD_CONSTRAINT)
        then Some (if fst (rec_sex_compile (int_ext env) (rec_sex_new False) v) then st
                   else report (invalid ''a valid selection expression'') st)
        else if list_ex (rec_field_name_equal_p n) list_directives
        then Some (if rec_fex_new (Some v) REC_FEX_SIMPLE \<noteq> None then st else report (invalid ''a list of field names'') st)
        else if rec_field_name_equal_p n (FNAME REC_FIELD_SIZE)
        then Some (if rec_match v (Whole REC_INT_SIZE_RE) then st
                   else report (at_field f (''value for '' @ n @ '' should be a number optionally preceded by >, <, >= or <=.'')) st)
        else if rec_field_name_equal_p n (FNAME REC_FIELD_CONFIDENTIAL)
        then Some (if rec_match v (Whole CONFIDENTIAL_RE) then st
                   else report (at_field f (''value for '' @ n @ '' should be a list of field names.'')) st)
        else Some st)"

definition auto_type_p :: "rec_rset \<Rightarrow> string \<Rightarrow> bool" where
  "auto_type_p rset n =
     (case rec_rset_get_field_type rset n of
        None \<Rightarrow> False
      | Some type \<Rightarrow> rec_type_kind type \<in> {REC_TYPE_INT, REC_TYPE_RANGE, REC_TYPE_DATE})"

definition check_auto :: "rec_rset \<Rightarrow> rec_record \<Rightarrow> rec_field \<Rightarrow> check_state \<Rightarrow> check_state" where
  "check_auto rset d f st =
     (if rec_field_name_equal_p (field_name f) (FNAME REC_FIELD_AUTO)
      then (case rec_fex_new (Some (field_value f)) REC_FEX_SIMPLE of
              None \<Rightarrow> st
            | Some fex \<Rightarrow>
                report_names (\<lambda>n. \<not> auto_type_p rset n)
                  (\<lambda>n. at_record d (''auto-incremented field '' @ n @ '' should be of type int, range or date'')) (fex_names fex) st)
      else st)"

fun check_directives :: "int_env \<Rightarrow> rec_rset \<Rightarrow> rec_record \<Rightarrow> (nat \<times> rec_field) list \<Rightarrow> check_state \<Rightarrow> check_state option" where
  "check_directives env rset d [] st = Some st"
| "check_directives env rset d (pf # fs) st =
     Option.bind (check_directive env rset d pf st) (\<lambda>st1. check_directives env rset d fs (check_auto rset d (snd pf) st1))"

definition check_once :: "rec_record \<Rightarrow> rec_std_field \<Rightarrow> check_state \<Rightarrow> check_state" where
  "check_once d sf st =
     (if rec_record_get_num_fields_by_name d (FNAME sf) > 1
      then report (at_record d (''only one '' @ FNAME sf @ '' field is allowed in a record descriptor'')) st else st)"

text \<open>Without a \<open>%rec\<close> field the value of a NULL field is read.\<close>

definition rec_int_check_descriptor :: "int_env \<Rightarrow> rec_rset \<Rightarrow> rec_buf \<Rightarrow> check_state option" where
  "rec_int_check_descriptor env rset errors =
     (case rset_descriptor rset of
        None \<Rightarrow> Some (0, errors)
      | Some d \<Rightarrow>
          let num = rec_record_get_num_fields_by_name d (FNAME REC_FIELD_REC);
              st1 = (if num = 0 then report (at_record d ''missing %rec field in record descriptor'') (0, errors)
                     else if num > 1 then report (at_record d ''too many %rec fields in record descriptor'') (0, errors)
                     else (0, errors))
          in (case rec_record_get_field_by_name d (FNAME REC_FIELD_REC) 0 of
                None \<Rightarrow> None
              | Some (_, f) \<Rightarrow>
                  let st2 = (if rec_int_rec_type_p (field_value f) then st1
                             else report (at_field f (''invalid record type '' @ field_value f)) st1)
                  in check_directives env rset d (rec_record_fields d)
                       (check_once d REC_FIELD_SORT (check_once d REC_FIELD_SIZE (check_once d REC_FIELD_KEY st2)))))"

section \<open>Remote descriptors\<close>

text \<open>The descriptor with the directives of a remote one, except \<open>%rec\<close>.\<close>

definition merge_directives :: "rec_record \<Rightarrow> rec_record \<Rightarrow> rec_record" where
  "merge_directives d remote =
     fold (\<lambda>(pos, f) d. if rec_field_name_equal_p (field_name f) (FNAME REC_FIELD_REC) then d
                         else record_append_field d (rec_field_dup f) MSET_ANY) (rec_record_fields remote) d"

definition merge_from ::
  "int_env \<Rightarrow> rec_rset \<Rightarrow> rec_record \<Rightarrow> rec_field \<Rightarrow> string option \<Rightarrow> string \<Rightarrow> string \<Rightarrow> rec_buf \<Rightarrow> (rec_rset \<times> check_state) option" where
  "merge_from env rset d f type source input errors =
     Option.bind (rec_parse_db (int_ext env) (rec_parser_new input (Some source))) (\<lambda>(remote_db, parser).
       case remote_db of
         None \<Rightarrow> Some (rset, report (at_field f (source @ '' does not contain valid rec data.'')) (0, errors))
       | Some db \<Rightarrow>
           (case rec_db_get_rset_by_type db type of
              None \<Rightarrow> Some (rset, report (at_field f (source @ '' does not contain information for type ''
                              @ (case type of None \<Rightarrow> ''(null)'' | Some t \<Rightarrow> t) @ ''.'')) (0, errors))
            | Some i \<Rightarrow>
                (case rset_descriptor (db_rset_list db ! i) of
                   None \<Rightarrow> Some (rset, 0, errors)
                 | Some remote \<Rightarrow>
                     Option.bind (rec_record_dup (merge_directives d remote)) (\<lambda>d'.
                       map_option (\<lambda>rset'. (rset', 0, errors)) (rec_rset_set_descriptor (int_ext env) rset (Some d'))))))"

definition rec_int_merge_remote :: "int_env \<Rightarrow> rec_rset \<Rightarrow> rec_buf \<Rightarrow> (rec_rset \<times> check_state) option" where
  "rec_int_merge_remote env rset errors =
     (case rset_descriptor rset of
        None \<Rightarrow> Some (rset, 0, errors)
      | Some d \<Rightarrow>
          (case rec_record_get_field_by_name d (FNAME REC_FIELD_REC) 0 of
             None \<Rightarrow> None
           | Some (_, f) \<Rightarrow>
               let v = field_value f in
               if \<not> rec_int_rec_type_p v then Some (rset, 0, errors)
               else (case (rec_extract_url v, rec_extract_file v) of
                       (Some url, _) \<Rightarrow>
                         (case int_fetch env url of
                            None \<Rightarrow> Some (rset, report (at_field f (''could not fetch remote descriptor from url '' @ url @ ''.'')) (0, errors))
                          | Some input \<Rightarrow> merge_from env rset d f (rec_extract_type v) url input errors)
                     | (None, Some file) \<Rightarrow>
                         (case int_file env file of
                            None \<Rightarrow> Some (rset, report (at_field f (''could not read external descriptor from file '' @ file @ ''.'')) (0, errors))
                          | Some input \<Rightarrow> merge_from env rset d f (rec_extract_type v) file input errors)
                     | (None, None) \<Rightarrow> Some (rset, 0, errors))))"

section \<open>Record sets and databases\<close>

definition report_size :: "rec_rset \<Rightarrow> string \<Rightarrow> string \<Rightarrow> check_state \<Rightarrow> check_state option" where
  "report_size rset before after st =
     (case (rec_rset_source rset, rec_rset_type rset) of
        (Some s, Some t) \<Rightarrow> Some (report (s @ '': error: '' @ before @ t @ after @ [NL]) st)
      | _ \<Rightarrow> None)"

definition check_size :: "rec_rset \<Rightarrow> check_state \<Rightarrow> check_state option" where
  "check_size rset st =
     (let num_records = of_nat (rec_rset_num_records rset); mn = rset_min_size rset; mx = rset_max_size rset in
      if mn = mx
      then if num_records \<noteq> mn
           then report_size rset ''the number of records of type '' ('' should be '' @ show_ssize mn @ ''.'') st
           else Some st
      else Option.bind
             (if num_records > mx
              then report_size rset ''too many records of type '' (''. Maximum allowed are '' @ show_ssize mx @ ''.'') st else Some st)
             (\<lambda>st1. if num_records < mn
                    then report_size rset ''too few records of type '' (''. Minimum allowed are '' @ show_ssize mn @ ''.'') st1 else Some st1))"

text \<open>The loop over the records; the checked record is written back with its marks.\<close>

fun check_records :: "int_env \<Rightarrow> rec_db \<Rightarrow> nat \<Rightarrow> nat list \<Rightarrow> rec_rset \<Rightarrow> check_state \<Rightarrow> (rec_rset \<times> check_state) option" where
  "check_records env db i [] rset st = Some (rset, st)"
| "check_records env db i (pos # ps) rset (res, errors) =
     (let r = rec_at (rset_mset rset) pos in
      Option.bind (rec_int_check_record env (db_put db (Some i) rset) rset (Some pos) r r errors)
        (\<lambda>(rset', r', k, errors'). check_records env db i ps (rset_set_record rset' pos r') (res + k, errors')))"

definition check_rset_body ::
  "int_env \<Rightarrow> rec_db \<Rightarrow> nat \<Rightarrow> bool \<Rightarrow> rec_rset \<Rightarrow> check_state \<Rightarrow> (bool \<times> rec_rset \<times> check_state) option" where
  "check_rset_body env db i check_descriptor_p rset = (\<lambda>(res, errors).
     Option.bind (if check_descriptor_p then map_option (\<lambda>(k, errors'). (res + k, errors')) (rec_int_check_descriptor env rset errors)
                  else Some (res, errors)) (\<lambda>(res1, errors1).
       if res1 > 0 then Some (False, rset, res1, errors1)
       else Option.bind (check_size rset (res1, errors1)) (\<lambda>st2.
              map_option (\<lambda>(rset', st'). (True, rset', st'))
                (check_records env db i (map fst (rec_rset_records rset)) rset st2))))"

text \<open>
  The record set is the one at position \<open>i\<close> of the database. Errors in the descriptors end the check, and then a
  merged descriptor is not replaced by the original one.
\<close>

definition rec_int_check_rset :: "int_env \<Rightarrow> rec_db \<Rightarrow> nat \<Rightarrow> bool \<Rightarrow> bool \<Rightarrow> rec_buf \<Rightarrow> (rec_db \<times> check_state) option" where
  "rec_int_check_rset env db i check_descriptor_p remote_descriptor_p errors =
     (let rset = db_rset_list db ! i in
      Option.bind
        (case (remote_descriptor_p, rset_descriptor rset) of
           (True, Some d) \<Rightarrow> Option.bind (rec_record_dup d) (\<lambda>d'. map_option (Pair (Some d')) (rec_int_merge_remote env rset errors))
         | _ \<Rightarrow> Some (None, rset, 0, errors))
        (\<lambda>(backup, rset1, res, errors1).
           if res > 0 then Some (db_put db (Some i) rset1, res, errors1)
           else Option.bind (check_rset_body env db i check_descriptor_p rset1 (res, errors1)) (\<lambda>(go, rset2, st).
                  if go \<and> remote_descriptor_p
                  then map_option (\<lambda>rset3. (db_put db (Some i) rset3, st)) (rec_rset_set_descriptor (int_ext env) rset2 backup)
                  else Some (db_put db (Some i) rset2, st))))"

fun check_db_loop :: "int_env \<Rightarrow> bool \<Rightarrow> bool \<Rightarrow> nat list \<Rightarrow> rec_db \<Rightarrow> check_state \<Rightarrow> (rec_db \<times> check_state) option" where
  "check_db_loop env cd remote [] db st = Some (db, st)"
| "check_db_loop env cd remote (n # ns) db (ret, errors) =
     Option.bind (rec_int_check_rset env db n cd remote errors)
       (\<lambda>(db', k, errors'). check_db_loop env cd remote ns db' (ret + k, errors'))"

definition rec_int_check_db :: "int_env \<Rightarrow> rec_db \<Rightarrow> bool \<Rightarrow> bool \<Rightarrow> rec_buf \<Rightarrow> (rec_db \<times> check_state) option" where
  "rec_int_check_db env db check_descriptors_p remote_descriptors_p errors =
     check_db_loop env check_descriptors_p remote_descriptors_p [0..<rec_db_size db] db (0, errors)"

end
