(* ===== verification/Rec_Writer_Rset.thy ===== *)
theory Rec_Writer_Rset
  imports Rec_Writer_Laws Rec_Db Rec_Rset_Laws
begin

text \<open>
  Writing record sets and databases (\<open>src/rec-writer.c\<close>), and the text they produce in the
  normal mode: the elements of the set with the descriptor at its position, separated by
  empty lines.
\<close>

section \<open>Record sets\<close>

text \<open>
  The loop over the elements at \<open>position\<close>, with \<open>ret\<close> and \<open>wrote_descriptor\<close>. The result of writing
  an element replaces \<open>ret\<close>, so that an earlier failed separator is forgotten.
\<close>

fun write_rset_elems ::
  "rec_rset \<Rightarrow> nat \<Rightarrow> bool \<Rightarrow> bool \<Rightarrow> sdata mset_elem list \<Rightarrow> rec_writer \<Rightarrow> bool \<times> bool \<times> rec_writer" where
  "write_rset_elems rset position ret wrote [] w = (ret, wrote, w)"
| "write_rset_elems rset position ret wrote (e # es) w =
     (case (if position \<noteq> 0 then rec_writer_putc NL w else (True, w)) of (a, w1) \<Rightarrow>
      case (if position = rset_descriptor_pos rset
            then (case rset_descriptor rset of
                    None \<Rightarrow>
                      if wrote then (case rec_writer_puts [NL, NL] w1 of (b, w2) \<Rightarrow> (ret \<and> a \<and> b, wrote, w2))
                      else (ret \<and> a, wrote, w1)
                  | Some d \<Rightarrow>
                      (case rec_write_record d w1 of
                         (False, w2) \<Rightarrow> (False, False, w2)
                       | (True, w2) \<Rightarrow> (case rec_writer_puts [NL, NL] w2 of (b, w3) \<Rightarrow> (ret \<and> a \<and> b, True, w3))))
            else (ret \<and> a, wrote, w1)) of (ret2, wrote2, w2) \<Rightarrow>
      case (case elem_data e of
              SRecord r \<Rightarrow> rec_write_record r w2
            | SComment c \<Rightarrow> if \<not> writer_skip_comments_p w2 then rec_write_comment c w2 else (ret2, w2)) of (ret3, w3) \<Rightarrow>
      case (if \<not> writer_collapse_p w3 \<or> position = rec_rset_num_elems rset - 1
            then (case rec_writer_putc NL w3 of (b, w4) \<Rightarrow> (ret3 \<and> b, w4)) else (ret3, w3)) of (ret4, w4) \<Rightarrow>
        if ret4 then write_rset_elems rset (Suc position) ret4 wrote2 es w4 else (ret4, wrote2, w4))"

definition rec_write_rset :: "rec_rset \<Rightarrow> wop" where
  "rec_write_rset rset w =
     (case (rec_rset_num_elems rset = 0, rset_descriptor rset) of
        (True, Some d) \<Rightarrow> (True, snd (rec_writer_putc NL (snd (rec_write_record d w))))
      | _ \<Rightarrow>
          (case write_rset_elems rset 0 True False (mset_elems (rset_mset rset)) w of
             (ret, wrote, w1) \<Rightarrow>
               (case rset_descriptor rset of
                  Some d \<Rightarrow>
                    if \<not> wrote \<and> rset_descriptor_pos rset \<ge> rec_rset_num_elems rset
                    then (case rec_writer_putc NL w1 of (a, w2) \<Rightarrow>
                          case rec_write_record d w2 of (b, w3) \<Rightarrow>
                          case rec_writer_putc NL w3 of (c, w4) \<Rightarrow> (ret \<and> a \<and> b \<and> c, w4))
                    else (ret, w1)
                | None \<Rightarrow> (ret, w1))))"

fun write_rsets :: "nat \<Rightarrow> rec_rset list \<Rightarrow> wop" where
  "write_rsets i [] = wdone"
| "write_rsets i (rset # rsets) =
     wthen (wwhen (i \<noteq> 0) (rec_writer_putc NL)) (wthen (rec_write_rset rset) (write_rsets (Suc i) rsets))"

definition rec_write_db :: "rec_db \<Rightarrow> wop" where
  "rec_write_db db = write_rsets 0 (db_rset_list db)"

section \<open>The text of a record set\<close>

definition rset_data :: "rec_rset \<Rightarrow> sdata list" where
  "rset_data rset = map elem_data (mset_elems (rset_mset rset))"

definition sdata_text :: "sdata \<Rightarrow> string" where
  "sdata_text d = (case d of SRecord r \<Rightarrow> record_text r | SComment c \<Rightarrow> comment_text c)"

text \<open>The elements with the descriptor at its place, as they appear in the text.\<close>

definition rset_items :: "rec_rset \<Rightarrow> sdata list" where
  "rset_items rset =
     (case rset_descriptor rset of
        None \<Rightarrow> rset_data rset
      | Some d \<Rightarrow> take (rset_descriptor_pos rset) (rset_data rset) @ SRecord d # drop (rset_descriptor_pos rset) (rset_data rset))"

fun blocks :: "sdata list \<Rightarrow> string" where
  "blocks [] = []"
| "blocks (d # ds) = sdata_text d @ NL # (if ds = [] then [] else NL # blocks ds)"

definition sdata_plain :: "sdata \<Rightarrow> bool" where
  "sdata_plain d = (case d of SRecord r \<Rightarrow> rec_record_wf r \<and> record_plain r | SComment c \<Rightarrow> plain c)"

lemma blocks_append: "xs \<noteq> [] \<Longrightarrow> ys \<noteq> [] \<Longrightarrow> blocks (xs @ ys) = blocks xs @ NL # blocks ys"
  by (induction xs rule: blocks.induct) auto

text \<open>The separator in front of what is written at a position.\<close>

definition sep :: "nat \<Rightarrow> string" where
  "sep i = (if i = 0 then [] else [NL])"

lemma sep_simps [simp]: "sep 0 = []" "sep (Suc i) = [NL]" "0 < i \<Longrightarrow> sep i = [NL]"
  by (simp_all add: sep_def)

text \<open>The items the loop writes from a position on.\<close>

definition items_at :: "rec_rset \<Rightarrow> nat \<Rightarrow> sdata list \<Rightarrow> sdata list" where
  "items_at rset i ds =
     (case rset_descriptor rset of
        Some d \<Rightarrow>
          if i \<le> rset_descriptor_pos rset \<and> rset_descriptor_pos rset < i + length ds
          then take (rset_descriptor_pos rset - i) ds @ SRecord d # drop (rset_descriptor_pos rset - i) ds
          else ds
      | None \<Rightarrow> ds)"

lemma items_at_Nil [simp]: "items_at rset i [] = []"
  by (auto simp: items_at_def split: option.split)

lemma items_at_Cons:
  "items_at rset i (d # ds) =
     (case rset_descriptor rset of
        Some x \<Rightarrow> if i = rset_descriptor_pos rset then [SRecord x] else []
      | None \<Rightarrow> []) @ d # items_at rset (Suc i) ds"
proof (cases "rset_descriptor rset")
  case (Some x)
  then show ?thesis
    by (cases "i < rset_descriptor_pos rset") (auto simp: items_at_def take_Cons' drop_Cons')
qed (simp add: items_at_def)

lemma items_at_not_Nil: "ds \<noteq> [] \<Longrightarrow> items_at rset i ds \<noteq> []"
  by (auto simp: items_at_def split: option.split)


lemma write_sdata_outputs:
  assumes "sdata_plain d"
  shows "outputs (REC_WRITER_NORMAL, False, False)
    (case d of SRecord r \<Rightarrow> rec_write_record r | SComment c \<Rightarrow> rec_write_comment c) (sdata_text d)"
  using assms rec_write_record_outputs [OF _ _ refl] rec_write_comment_outputs [OF _ refl]
  by (cases d) (auto simp: sdata_plain_def sdata_text_def)

text \<open>The writer performs \<open>a\<close> and then goes on in \<open>w'\<close>.\<close>

definition wrote_text :: "string \<Rightarrow> rec_writer \<Rightarrow> rec_writer \<Rightarrow> bool" where
  "wrote_text s w w' \<longleftrightarrow> writer_ok w' \<and> wflags w' = (REC_WRITER_NORMAL, False, False) \<and> writer_text w' = writer_text w @ s"

lemma outputs_wrote:
  assumes "outputs (REC_WRITER_NORMAL, False, False) a s" and "wrote_text t w w1"
  obtains w2 where "a w1 = (True, w2)" "wrote_text (t @ s) w w2"
  using outputsE [OF assms(1), of w1] assms(2) by (auto simp: wrote_text_def)

lemmas putc_NL_wrote = outputs_wrote [OF outputs_putc [of NL, simplified]]
lemmas puts_NL_wrote = outputs_wrote [OF outputs_puts [of "[NL, NL]", simplified]]

lemma wrote_flags: "wrote_text s w w' \<Longrightarrow> \<not> writer_skip_comments_p w' \<and> \<not> writer_collapse_p w'"
  by (simp add: wrote_text_def wflags_def)

definition descr_plain :: "rec_rset \<Rightarrow> bool" where
  "descr_plain rset = pred_option (\<lambda>d. sdata_plain (SRecord d)) (rset_descriptor rset)"

text \<open>The part of one round that precedes the element.\<close>

lemma write_descr_wrote:
  assumes "wrote_text t w w1" and "descr_plain rset" and "rset_descriptor rset = None \<Longrightarrow> \<not> wrote"
  obtains w2 where "(if i = rset_descriptor_pos rset
            then (case rset_descriptor rset of
                    None \<Rightarrow>
                      if wrote then (case rec_writer_puts [NL, NL] w1 of (b, w2) \<Rightarrow> (True \<and> True \<and> b, wrote, w2))
                      else (True \<and> True, wrote, w1)
                  | Some d \<Rightarrow>
                      (case rec_write_record d w1 of
                         (False, w2) \<Rightarrow> (False, False, w2)
                       | (True, w2) \<Rightarrow> (case rec_writer_puts [NL, NL] w2 of (b, w3) \<Rightarrow> (True \<and> True \<and> b, True, w3))))
            else (True \<and> True, wrote, w1)) =
      (True, wrote \<or> rset_descriptor rset \<noteq> None \<and> i = rset_descriptor_pos rset, w2)"
    "wrote_text (t @ (case rset_descriptor rset of
        Some x \<Rightarrow> if i = rset_descriptor_pos rset then record_text x @ [NL, NL] else []
      | None \<Rightarrow> [])) w w2"
proof (cases "i = rset_descriptor_pos rset \<and> rset_descriptor rset \<noteq> None")
  case False
  with assms that [of w1] show ?thesis by (auto split: option.splits)
next
  case True
  then obtain d where d: "rset_descriptor rset = Some d" "sdata_plain (SRecord d)"
    using assms(2) by (auto simp: descr_plain_def)
  obtain w2 where w2: "rec_write_record d w1 = (True, w2)" "wrote_text (t @ record_text d) w w2"
    using outputs_wrote [OF write_sdata_outputs [OF d(2)] assms(1)] by (auto simp: sdata_text_def)
  obtain w3 where "rec_writer_puts [NL, NL] w2 = (True, w3)" "wrote_text ((t @ record_text d) @ [NL, NL]) w w3"
    using puts_NL_wrote [OF w2(2)] by auto
  with True d w2 that [of w3] show ?thesis by simp
qed

lemma write_rset_elems_wrote:
  assumes "list_all (sdata_plain \<circ> elem_data) es" and "descr_plain rset" and "rset_descriptor rset = None \<Longrightarrow> \<not> wrote"
    and "wrote_text t w0 w"
  shows "\<exists>w'. write_rset_elems rset i True wrote es w =
      (True, wrote \<or> rset_descriptor rset \<noteq> None \<and> i \<le> rset_descriptor_pos rset \<and> rset_descriptor_pos rset < i + length es, w')
    \<and> wrote_text (t @ (if es = [] then [] else sep i @ blocks (items_at rset i (map elem_data es)))) w0 w'"
  using assms
proof (induction es arbitrary: i wrote t w)
  case Nil
  then show ?case by auto
next
  case (Cons e es)
  obtain w1 where w1: "(if i \<noteq> 0 then rec_writer_putc NL w else (True, w)) = (True, w1)"
    "wrote_text (t @ sep i) w0 w1"
  proof (cases "i = 0")
    case True
    with Cons.prems(4) that [of w] show ?thesis by simp
  next
    case False
    from Cons.prems(4) obtain w1 where "rec_writer_putc NL w = (True, w1)" "wrote_text (t @ [NL]) w0 w1" by (rule putc_NL_wrote)
    with False that [of w1] show ?thesis by simp
  qed
  obtain w2 where w2: "(if i = rset_descriptor_pos rset
            then (case rset_descriptor rset of
                    None \<Rightarrow>
                      if wrote then (case rec_writer_puts [NL, NL] w1 of (b, w2) \<Rightarrow> (True \<and> True \<and> b, wrote, w2))
                      else (True \<and> True, wrote, w1)
                  | Some d \<Rightarrow>
                      (case rec_write_record d w1 of
                         (False, w2) \<Rightarrow> (False, False, w2)
                       | (True, w2) \<Rightarrow> (case rec_writer_puts [NL, NL] w2 of (b, w3) \<Rightarrow> (True \<and> True \<and> b, True, w3))))
            else (True \<and> True, wrote, w1)) =
      (True, wrote \<or> rset_descriptor rset \<noteq> None \<and> i = rset_descriptor_pos rset, w2)"
    "wrote_text ((t @ sep i) @ (case rset_descriptor rset of
        Some x \<Rightarrow> if i = rset_descriptor_pos rset then record_text x @ [NL, NL] else []
      | None \<Rightarrow> [])) w0 w2"
    using write_descr_wrote [OF w1(2) Cons.prems(2,3)] by blast
  let ?pre = "(t @ sep i) @ (case rset_descriptor rset of
        Some x \<Rightarrow> if i = rset_descriptor_pos rset then record_text x @ [NL, NL] else [] | None \<Rightarrow> [])"
  obtain w3 where "(case elem_data e of SRecord r \<Rightarrow> rec_write_record r | SComment c \<Rightarrow> rec_write_comment c) w2 = (True, w3)"
    and w3: "wrote_text (?pre @ sdata_text (elem_data e)) w0 w3"
    using outputs_wrote [OF write_sdata_outputs w2(2), of "elem_data e"] Cons.prems(1) by auto
  then have e: "(case elem_data e of
              SRecord r \<Rightarrow> rec_write_record r w2
            | SComment c \<Rightarrow> if \<not> writer_skip_comments_p w2 then rec_write_comment c w2 else (True, w2)) = (True, w3)"
    using wrote_flags [OF w2(2)] by (auto split: sdata.splits)
  obtain w4 where w4: "rec_writer_putc NL w3 = (True, w4)" "wrote_text ((?pre @ sdata_text (elem_data e)) @ [NL]) w0 w4"
    using putc_NL_wrote [OF w3] .
  have step: "write_rset_elems rset i True wrote (e # es) w =
    write_rset_elems rset (Suc i) True (wrote \<or> rset_descriptor rset \<noteq> None \<and> i = rset_descriptor_pos rset) es w4"
    unfolding write_rset_elems.simps w1(1) prod.case w2(1) e using wrote_flags [OF w3] w4(1) by simp
  have "list_all (sdata_plain \<circ> elem_data) es" using Cons.prems(1) by (simp add: comp_def)
  from Cons.IH [OF this Cons.prems(2) _ w4(2), of "wrote \<or> rset_descriptor rset \<noteq> None \<and> i = rset_descriptor_pos rset" "Suc i"] Cons.prems(3)
  obtain w' where w': "write_rset_elems rset i True wrote (e # es) w =
      (True, (wrote \<or> rset_descriptor rset \<noteq> None \<and> i = rset_descriptor_pos rset)
        \<or> rset_descriptor rset \<noteq> None \<and> Suc i \<le> rset_descriptor_pos rset \<and> rset_descriptor_pos rset < Suc i + length es, w')"
    "wrote_text (((?pre @ sdata_text (elem_data e)) @ [NL]) @
      (if es = [] then [] else NL # blocks (items_at rset (Suc i) (map elem_data es)))) w0 w'"
    unfolding step by (auto cong: if_cong)
  have "((?pre @ sdata_text (elem_data e)) @ [NL]) @ (if es = [] then [] else NL # blocks (items_at rset (Suc i) (map elem_data es)))
    = t @ sep i @ blocks (items_at rset i (map elem_data (e # es)))"
    using items_at_not_Nil [of "map elem_data es" rset "Suc i"]
    by (auto simp: items_at_Cons sdata_text_def split: option.split)
  with w' show ?case by auto
qed

lemma rset_num_elems: "rec_rset_wf rset \<Longrightarrow> rec_rset_num_elems rset = length (rset_data rset)"
  using rsetm.ok_wf(1) [of "rset_mset rset"] mset_wf_count [of "rset_mset rset" 0]
  by (simp add: rec_rset_wf_def rec_rset_num_elems_def rset_data_def rec_mset_count_def MAX_NTYPES_def)

definition rset_plain :: "rec_rset \<Rightarrow> bool" where
  "rset_plain rset \<longleftrightarrow> rec_rset_wf rset \<and> list_all sdata_plain (rset_data rset) \<and> descr_plain rset"

lemma rset_items_at_0:
  "rset_items rset = (case rset_descriptor rset of
     Some d \<Rightarrow> items_at rset 0 (rset_data rset) @ (if rset_descriptor_pos rset < length (rset_data rset) then [] else [SRecord d])
   | None \<Rightarrow> items_at rset 0 (rset_data rset))"
  by (auto simp: rset_items_def items_at_def split: option.split)

lemma rec_write_rset_wrote:
  assumes "rset_plain rset" and "wrote_text t w0 w"
  shows "\<exists>w'. rec_write_rset rset w = (True, w') \<and> wrote_text (t @ blocks (rset_items rset)) w0 w'"
proof -
  note wf = assms(1) [unfolded rset_plain_def]
  have n: "rec_rset_num_elems rset = length (rset_data rset)" using wf rset_num_elems by blast
  have "list_all (sdata_plain \<circ> elem_data) (mset_elems (rset_mset rset))"
    using wf by (simp add: rset_data_def list_all_iff)
  from write_rset_elems_wrote [OF this _ _ assms(2), of rset False 0] wf obtain w1 where
    w1: "write_rset_elems rset 0 True False (mset_elems (rset_mset rset)) w =
      (True, rset_descriptor rset \<noteq> None \<and> rset_descriptor_pos rset < length (rset_data rset), w1)"
    "wrote_text (t @ blocks (items_at rset 0 (rset_data rset))) w0 w1"
    by (auto simp: rset_data_def split: if_splits)
  show ?thesis
  proof (cases "rset_descriptor rset")
    case None
    with w1 show ?thesis by (simp add: rec_write_rset_def rset_items_at_0 split: bool.split)
  next
    case (Some d)
    then have "sdata_plain (SRecord d)" using wf by (simp add: descr_plain_def)
    from write_sdata_outputs [OF this] have o: "outputs (REC_WRITER_NORMAL, False, False) (rec_write_record d) (record_text d)"
      by (simp add: sdata_text_def)
    show ?thesis
    proof (cases "rset_data rset = []")
      case True
      obtain w2 where w2: "rec_write_record d w = (True, w2)" "wrote_text (t @ record_text d) w0 w2"
        using o assms(2) by (rule outputs_wrote)
      obtain w3 where "rec_writer_putc NL w2 = (True, w3)" "wrote_text ((t @ record_text d) @ [NL]) w0 w3"
        using w2(2) by (rule putc_NL_wrote)
      with True w2 Some n show ?thesis by (simp add: rec_write_rset_def rset_items_at_0 sdata_text_def)
    next
      case False
      note ne = items_at_not_Nil [OF False, of rset 0]
      obtain w2 where w2: "rec_writer_putc NL w1 = (True, w2)"
        "wrote_text ((t @ blocks (items_at rset 0 (rset_data rset))) @ [NL]) w0 w2" using w1(2) by (rule putc_NL_wrote)
      obtain w3 where w3: "rec_write_record d w2 = (True, w3)"
        "wrote_text (((t @ blocks (items_at rset 0 (rset_data rset))) @ [NL]) @ record_text d) w0 w3"
        using o w2(2) by (rule outputs_wrote)
      obtain w4 where w4: "rec_writer_putc NL w3 = (True, w4)"
        "wrote_text ((((t @ blocks (items_at rset 0 (rset_data rset))) @ [NL]) @ record_text d) @ [NL]) w0 w4"
        using w3(2) by (rule putc_NL_wrote)
      show ?thesis
        using False n Some w1 w2(1) w3(1) w4 ne by (simp add: rec_write_rset_def rset_items_at_0 blocks_append sdata_text_def)
    qed
  qed
qed

text \<open>A database: its record sets, none of them empty, separated by empty lines as well.\<close>

definition db_items :: "rec_db \<Rightarrow> sdata list" where
  "db_items db = concat (map rset_items (db_rset_list db))"

definition db_plain :: "rec_db \<Rightarrow> bool" where
  "db_plain db \<longleftrightarrow> rec_db_wf db \<and> list_all (\<lambda>rset. rset_plain rset \<and> rset_items rset \<noteq> []) (db_rset_list db)"

lemma write_rsets_wrote:
  assumes "list_all (\<lambda>rset. rset_plain rset \<and> rset_items rset \<noteq> []) rsets" and "wrote_text t w0 w"
  shows "\<exists>w'. write_rsets i rsets w = (True, w')
    \<and> wrote_text (t @ (if rsets = [] then [] else sep i @ blocks (concat (map rset_items rsets)))) w0 w'"
  using assms
proof (induction rsets arbitrary: i t w)
  case Nil
  then show ?case by (simp add: wdone_def)
next
  case (Cons rset rsets)
  obtain w1 where w1: "wwhen (i \<noteq> 0) (rec_writer_putc NL) w = (True, w1)" "wrote_text (t @ sep i) w0 w1"
    using Cons.prems(2) putc_NL_wrote [OF Cons.prems(2)] by (cases "i = 0") (auto simp: wdone_def)
  from rec_write_rset_wrote [OF _ w1(2), of rset] Cons.prems(1) obtain w2 where
    w2: "rec_write_rset rset w1 = (True, w2)" "wrote_text ((t @ sep i) @ blocks (rset_items rset)) w0 w2" by auto
  from Cons.IH [OF _ w2(2), of "Suc i"] Cons.prems(1) obtain w' where
    w': "write_rsets (Suc i) rsets w2 = (True, w')"
    "wrote_text (((t @ sep i) @ blocks (rset_items rset)) @
      (if rsets = [] then [] else NL # blocks (concat (map rset_items rsets)))) w0 w'" by (auto cong: if_cong)
  have "blocks (concat (map rset_items (rset # rsets))) =
    blocks (rset_items rset) @ (if rsets = [] then [] else NL # blocks (concat (map rset_items rsets)))"
    using Cons.prems(1) by (cases rsets) (auto simp: blocks_append)
  with w1 w2 w' show ?case by (simp add: wthen_def)
qed

lemma rec_write_db_str:
  assumes "db_plain db"
  obtains w where "rec_write_db db rec_writer_new_str = (True, w)" "rec_writer_destroy w = blocks (db_items db)"
proof -
  have w0: "wrote_text [] rec_writer_new_str rec_writer_new_str" "rec_writer_destroy rec_writer_new_str = []"
    using cbuf.contents_new
    by (simp_all add: wrote_text_def writer_ok_def wflags_def rec_writer_new_str_def rec_writer_new_common_def rec_writer_destroy_def)
  from write_rsets_wrote [OF _ w0(1), of "db_rset_list db" 0] assms that w0(2) show ?thesis
    by (auto simp: db_plain_def rec_write_db_def db_items_def wrote_text_def split: if_splits)
qed

end
