(* ===== verification/Rec_Db_Roundtrip.thy ===== *)
theory Rec_Db_Roundtrip
  imports Rec_Parser_Rset Rec_Writer_Rset
begin

text \<open>
  Databases written and read back. The parser sees the text as a sequence of blocks separated
  by empty lines; a block is a comment or a record, and a record with a \<open>%rec\<close> field opens the
  next record set.
\<close>

section \<open>What reading a block gives\<close>

text \<open>The record read back: the same fields and comments, consecutive comments joined.\<close>

definition record_sim :: "rec_record \<Rightarrow> rec_record \<Rightarrow> bool" where
  "record_sim r r' \<longleftrightarrow> rec_record_wf r' \<and> map content (record_data r') = map content (join_comments (record_data r))"

fun sdata_sim :: "sdata \<Rightarrow> sdata \<Rightarrow> bool" where
  "sdata_sim (SRecord r) (SRecord r') = record_sim r r'"
| "sdata_sim (SComment c) (SComment c') = (c = c')"
| "sdata_sim d e = False"

definition item_ok :: "sdata \<Rightarrow> bool" where
  "item_ok d = (case d of SRecord r \<Rightarrow> writable r | SComment c \<Rightarrow> plain c)"

definition field_items :: "rdata list \<Rightarrow> (string \<times> string) list" where
  "field_items ds = List.map_filter (\<lambda>d. case content d of Inl x \<Rightarrow> Some x | Inr c \<Rightarrow> None) ds"

lemma field_items_simps [simp]:
  "field_items [] = []" "field_items (DField f # ds) = (field_name f, field_value f) # field_items ds"
  "field_items (DComment c # ds) = field_items ds"
  by (simp_all add: field_items_def map_filter_simps content_def)

lemma field_items_join: "field_items (join_comments ds) = field_items ds"
  by (induction ds rule: join_comments.induct) (auto split: list.split rdata.split)

lemma field_items_content: "map content ds = map content es \<Longrightarrow> field_items ds = field_items es"
proof (induction ds arbitrary: es)
  case (Cons d ds)
  then obtain e es' where e: "es = e # es'" "content d = content e" "map content ds = map content es'" by (cases es) simp_all
  from Cons.IH [OF e(3)] e(1,2) show ?case by (cases d; cases e) (simp_all add: content_def)
qed simp

lemma record_items_data:
  assumes "rec_record_wf r"
  shows "record_items r = field_items (record_data r)"
proof -
  have "map (\<lambda>f. (field_name f, field_value f)) (elem_fields es) = field_items (map elem_data es)" if "list_all record_elem_ok es" for es
    using that
  proof (induction es)
    case (Cons e es)
    then show ?case by (cases "elem_data e") (auto simp: record_elem_ok_def)
  qed simp
  then have "map (\<lambda>f. (field_name f, field_value f)) (map snd (rec_record_fields r)) = field_items (record_data r)"
    using assms by (simp add: rec_record_fields_elems record_data_def rec_record_wf_def record_mset_ok_def)
  moreover have "record_items r = map (\<lambda>f. (field_name f, field_value f)) (map snd (rec_record_fields r))"
    by (simp add: record_items_def case_prod_beta' comp_def)
  ultimately show ?thesis by simp
qed

lemma record_sim_items: "record_sim r r' \<Longrightarrow> rec_record_wf r \<Longrightarrow> record_items r' = record_items r"
  using field_items_content [of "record_data r'" "join_comments (record_data r)"]
  by (simp add: record_sim_def record_items_data field_items_join)

lemma field_p_items: "rec_record_field_p r n \<longleftrightarrow> n \<in> fst ` set (record_items r)"
  by (force simp: rec_record_field_p_def rec_record_get_num_fields_by_name_def rec_field_name_equal_p_def record_items_def
      filter_empty_conv)

section \<open>One block\<close>

text \<open>The parser stands in front of a text; at its end the end-of-file flag may already be set.\<close>

definition stands :: "rec_parser \<Rightarrow> string \<Rightarrow> bool" where
  "stands p s \<longleftrightarrow> rest p = s \<and> (ready p \<or> s = [] \<and> (\<exists>p0. ready p0 \<and> p = set_eof p0))"

lemma ready_prev [simp]: "ready (p\<lparr>parser_prev_descriptor := d\<rparr>) = ready p" "rest (p\<lparr>parser_prev_descriptor := d\<rparr>) = rest p"
  by (simp_all add: ready_def rest_def)

lemma stands_prev [simp]: "stands p s \<Longrightarrow> stands (p\<lparr>parser_prev_descriptor := d\<rparr>) s"
proof -
  have "(set_eof p0)\<lparr>parser_prev_descriptor := d\<rparr> = set_eof (p0\<lparr>parser_prev_descriptor := d\<rparr>)" for p0
    by (simp add: set_eof_def)
  then show "stands p s \<Longrightarrow> stands (p\<lparr>parser_prev_descriptor := d\<rparr>) s" unfolding stands_def by (metis ready_prev)
qed

lemma stands_Cons: "stands p (c # s) \<longleftrightarrow> ready p \<and> rest p = c # s"
  by (auto simp: stands_def)

lemma stands_adv: "ready p \<Longrightarrow> rest p = s @ t \<Longrightarrow> stands (adv s p) t"
  by (simp add: stands_def rest_adv)

lemma stands_fin: "ready p \<Longrightarrow> rest p = s \<Longrightarrow> stands (fin [] s p) []"
  using rest_adv [of p s "[]"] ready_adv [of s p] by (auto simp: stands_def fin_def simp del: ready_adv)

lemma adv_prev [simp]: "parser_prev_descriptor (adv s p) = parser_prev_descriptor p"
  by (simp add: adv_def)

lemma fin_prev [simp]: "parser_prev_descriptor (fin t s p) = parser_prev_descriptor p"
  by (simp add: fin_def)

lemma getc_at_Nil: "stands p [] \<Longrightarrow> \<exists>q. rec_parser_getc p = (EOF, q) \<and> stands q [] \<and> parser_eof q
    \<and> parser_error q = REC_PARSER_NOERROR \<and> parser_prev_descriptor q = parser_prev_descriptor p"
proof -
  assume "stands p []"
  then consider "ready p" "rest p = []" | p0 where "ready p0" "p = set_eof p0" "rest p0 = []" by (auto simp: stands_def)
  then show ?thesis
  proof cases
    case 1
    then show ?thesis using getc_Nil [OF 1] by (auto simp: stands_def ready_def)
  next
    case 2
    then show ?thesis using getc_eof_Nil [OF 2(1,3)] by (auto simp: stands_def ready_def)
  qed
qed

lemma rset_loop_end:
  assumes "stands p []"
  shows "\<exists>q. rset_loop ext a n new p = Some (False, new, q) \<and> stands q [] \<and> parser_eof q
    \<and> parser_error q = REC_PARSER_NOERROR \<and> parser_prev_descriptor q = parser_prev_descriptor p"
  using getc_at_Nil [OF assms] by (subst rset_loop.simps) force

lemma rset_loop_NL:
  assumes "stands p (NL # s)"
  shows "rset_loop ext a n new p = rset_loop ext a n new (adv [NL] p)" and "stands (adv [NL] p) s"
proof -
  have p: "ready p" "rest p = NL # s" using assms by (simp_all add: stands_Cons)
  from getc_Cons [OF p] byte_int_EOF [of NL "parser_backend p"]
  show "rset_loop ext a n new p = rset_loop ext a n new (adv [NL] p)"
    by (subst rset_loop.simps) simp
  show "stands (adv [NL] p) s" using p stands_adv [of p "[NL]" s] by simp
qed

lemma ungetc_ascii:
  assumes "ready p" and "rest p = c # s" and "c \<noteq> CHR 0xFF" and "schar c \<ge> 0"
  shows "rec_parser_ungetc (schar c) (adv [c] p) = (byte_int (parser_backend p) c, p)"
  using ungetc_adv [OF assms(1-3)] assms(4) of_char_bounds [of c] by (auto simp: byte_int_def schar_def uchar_def split: if_splits)

lemma rset_loop_comment:
  assumes "stands p (blocks (SComment c # ds))" and "plain c"
  shows "\<exists>q. rset_loop ext a n new p = rset_loop ext a (Suc n) (rset_add new MSET_COMMENT (SComment c)) q
    \<and> stands q (blocks ds) \<and> parser_prev_descriptor q = parser_prev_descriptor p"
proof -
  define t where "t = (if ds = [] then [] else NL # blocks ds)"
  have r: "rest p = comment_text c @ NL # t" "rest p = CHR ''#'' # comment_body c @ NL # t" and p: "ready p"
    using assms(1) by (simp_all add: sdata_text_def comment_text_def stands_Cons t_def)
  have "after_comment t" by (simp add: t_def after_comment_def)
  note c = rec_parse_comment_ok [OF p r(1) this assms(2)]
  have u: "snd (rec_parser_ungetc (schar CHR ''#'') (adv ''#'' p)) = p"
    using ungetc_ascii [OF p r(2)] by (simp add: schar_def)
  let ?q = "fin t (comment_text c @ [NL]) p"
  have step: "rset_loop ext a n new p = rset_loop ext a (Suc n) (rset_add new MSET_COMMENT (SComment c)) ?q"
    using getc_Cons [OF p r(2)] byte_int_EOF [of "CHR ''#''" "parser_backend p"] c u by (subst rset_loop.simps) simp
  show ?thesis
  proof (cases "ds = []")
    case True
    then have "stands ?q []" using stands_fin [OF p] r(1) by (simp add: t_def)
    with step True show ?thesis by (intro exI [of _ ?q]) simp
  next
    case False
    then have "stands ?q (NL # blocks ds)" using stands_adv [OF p, of "comment_text c @ [NL]"] r(1) by (simp add: t_def fin_def)
    note q = rset_loop_NL [OF this]
    show ?thesis using q step by (intro exI [of _ "adv [NL] ?q"]) simp
  qed
qed

lemma record_text_start:
  assumes "writable r"
  obtains c s where "record_text r = c # s" "rec_parser_letter_p c \<or> c = CHR ''%''"
proof -
  obtain f ds where d: "record_text r @ [NL] = lines_text (DField f # ds)" "list_all rdata_ok (DField f # ds)"
    using assms by (rule writable_text)
  then obtain c n where c: "field_name f = c # n" "rec_parser_letter_p c \<or> c = CHR ''%''"
    by (cases "field_name f") (auto simp: field_ok_def)
  with d(1) that show ?thesis by (cases "record_text r") (auto simp: rdata_text_def field_text_def)
qed

lemma rset_loop_record:
  assumes "stands p (blocks (SRecord r # ds))" and "writable r"
  shows "\<exists>r' q. record_sim r r' \<and> stands q (blocks ds) \<and> parser_prev_descriptor q = parser_prev_descriptor p
    \<and> rset_loop ext a n new p =
      (if rec_record_field_p r' (FNAME REC_FIELD_REC)
       then if rec_rset_num_records new = 0 \<and> rset_descriptor new = None
            then (case rec_rset_set_descriptor ext new (Some r') of
                    None \<Rightarrow> None
                  | Some new1 \<Rightarrow> rset_loop ext a n (rec_rset_set_descriptor_pos new1 n) q)
            else Some (True, new, q\<lparr>parser_prev_descriptor := Some r'\<rparr>)
       else rset_loop ext a n (rset_add new MSET_RECORD (SRecord (rec_record_set_container r' (Some a)))) q)"
proof -
  define t where "t = (if ds = [] then [] else NL # blocks ds)"
  obtain c s where c: "record_text r = c # s" "rec_parser_letter_p c \<or> c = CHR ''%''" using assms(2) by (rule record_text_start)
  have r: "rest p = record_text r @ NL # t" "rest p = c # s @ NL # t" and p: "ready p"
    using assms(1) c(1) by (simp_all add: sdata_text_def stands_Cons t_def)
  have "after_record t" by (simp add: t_def after_record_def)
  from write_parse_record [OF assms(2) p r(1) this] obtain r' where
    r': "rec_parse_record p = (Some r', fin t (record_text r @ NL # end_text t) p)" "record_sim r r'"
    by (auto simp: record_sim_def)
  let ?q = "fin t (record_text r @ NL # end_text t) p"
  have sp: "c \<noteq> CHR 0xFF" "c \<noteq> NL" "c \<noteq> CHR '' ''" "c \<noteq> TAB" "c \<noteq> CHR ''#''" "schar c \<ge> 0"
    using c(2) by (auto simp: rec_parser_letter_p_def schar_def split: if_splits)
  have q: "stands ?q (blocks ds)"
    using stands_fin [OF p] stands_adv [OF p, of "record_text r @ [NL, NL]"] r(1)
    by (cases "ds = []") (simp_all add: t_def fin_def end_text_def)
  have g: "rec_parser_getc p = (byte_int (parser_backend p) c, adv [c] p)" "byte_int (parser_backend p) c \<noteq> EOF"
    using getc_Cons [OF p r(2) sp(1)] byte_int_EOF [OF sp(1)] by simp_all
  have u: "snd (rec_parser_ungetc (schar c) (adv [c] p)) = p" using ungetc_ascii [OF p r(2) sp(1,6)] by simp
  show ?thesis
    using g u r' q sp by (intro exI [of _ r'] exI [of _ ?q]) (subst rset_loop.simps, simp)
qed

section \<open>A run of blocks\<close>

definition descr_p :: "sdata \<Rightarrow> bool" where
  "descr_p d = (case d of SRecord r \<Rightarrow> rec_record_field_p r ''%rec'' | SComment c \<Rightarrow> False)"

fun comment_p :: "sdata \<Rightarrow> bool" where
  "comment_p (SRecord r) = False"
| "comment_p (SComment c) = True"

definition extends :: "rec_rset \<Rightarrow> sdata list \<Rightarrow> rec_rset \<Rightarrow> bool" where
  "extends new ds new' \<longleftrightarrow> rec_rset_wf new' \<and> rset_data new' = rset_data new @ ds
     \<and> rset_descriptor new' = rset_descriptor new \<and> rset_descriptor_pos new' = rset_descriptor_pos new"

lemma extends_Nil [simp]: "rec_rset_wf new \<Longrightarrow> extends new [] new"
  by (simp add: extends_def)

lemma extends_trans: "extends a xs b \<Longrightarrow> extends b ys c \<Longrightarrow> extends a (xs @ ys) c"
  by (simp add: extends_def)

definition sdata_tag :: "sdata \<Rightarrow> nat" where
  "sdata_tag d = (if comment_p d then MSET_COMMENT else MSET_RECORD)"

lemma rset_add_extends:
  assumes "rec_rset_wf new" and "rset_elem_ok \<lparr>elem_type = sdata_tag d, elem_data = d\<rparr>"
  shows "extends new [d] (rset_add new (sdata_tag d) d)"
  using assms rsetm.append_ok [of "rset_mset new" "sdata_tag d" d]
  by (simp add: extends_def rset_add_def rec_rset_wf_def rset_data_def)

lemma record_sim_container: "record_sim r r' \<Longrightarrow> record_sim r (rec_record_set_container r' a)"
  by (simp add: record_sim_def rec_record_set_container_def record_data_def rec_record_wf_def)

lemma no_records_iff:
  assumes "rec_rset_wf rset"
  shows "rec_rset_num_records rset = 0 \<longleftrightarrow> list_all comment_p (rset_data rset)"
proof -
  have "elem_records es = [] \<longleftrightarrow> list_all comment_p (map elem_data es)" if "list_all rset_elem_ok es" for es
    using that
  proof (induction es)
    case (Cons e es)
    then show ?case by (cases "elem_data e") (auto simp: elem_record_def as_record_def rset_elem_ok_def)
  qed simp
  then have "elem_records (mset_elems (rset_mset rset)) = [] \<longleftrightarrow> list_all comment_p (rset_data rset)"
    using assms by (simp add: rec_rset_wf_def typed_ok_def rset_data_def)
  then show ?thesis by (simp add: rec_rset_num_records_eq [OF assms] flip: rset_records_elems)
qed

lemma rset_loop_item:
  assumes "item_ok d" and "\<not> descr_p d" and "stands p (blocks (d # ds))"
  shows "\<exists>d' q. sdata_sim d d' \<and> rset_elem_ok \<lparr>elem_type = sdata_tag d', elem_data = d'\<rparr> \<and> stands q (blocks ds)
    \<and> parser_prev_descriptor q = parser_prev_descriptor p
    \<and> rset_loop ext a n new p = rset_loop ext a (n + (if comment_p d then 1 else 0)) (rset_add new (sdata_tag d') d') q"
proof (cases d)
  case (SComment c)
  then have "stands p (blocks (SComment c # ds))" "plain c" using assms by (simp_all add: item_ok_def)
  from rset_loop_comment [OF this, of ext a n new] obtain q where
    "rset_loop ext a n new p = rset_loop ext a (Suc n) (rset_add new MSET_COMMENT (SComment c)) q" "stands q (blocks ds)"
    "parser_prev_descriptor q = parser_prev_descriptor p" by blast
  with SComment plain_cstring [OF \<open>plain c\<close>] show ?thesis
    by (intro exI [of _ d] exI [of _ q]) (simp add: sdata_tag_def rset_elem_ok_def)
next
  case (SRecord r)
  then have "stands p (blocks (SRecord r # ds))" and w: "writable r" using assms by (simp_all add: item_ok_def)
  from rset_loop_record [OF this, of ext a n new] obtain r' q where sim: "record_sim r r'" and q: "stands q (blocks ds)"
    "parser_prev_descriptor q = parser_prev_descriptor p"
    and l: "rec_record_field_p r' (FNAME REC_FIELD_REC)
      \<or> rset_loop ext a n new p = rset_loop ext a n (rset_add new MSET_RECORD (SRecord (rec_record_set_container r' (Some a)))) q"
    by metis
  have "\<not> rec_record_field_p r' (FNAME REC_FIELD_REC)"
    using assms(2) SRecord record_sim_items [OF sim] w by (simp add: descr_p_def field_p_items writable_def)
  then show ?thesis
    using l q SRecord record_sim_container [OF sim]
    by (intro exI [of _ "SRecord (rec_record_set_container r' (Some a))"] exI [of _ q])
       (simp add: sdata_tag_def rset_elem_ok_def record_sim_def)
qed

lemma rset_loop_items:
  assumes "list_all item_ok ds" and "list_all (\<lambda>d. \<not> descr_p d) ds" and "stands p (blocks (ds @ zs))" and "rec_rset_wf new"
  shows "\<exists>ds' new' q. list_all2 sdata_sim ds ds' \<and> extends new ds' new'
    \<and> rset_loop ext a n new p = rset_loop ext a (n + length (filter comment_p ds)) new' q
    \<and> stands q (blocks zs) \<and> parser_prev_descriptor q = parser_prev_descriptor p"
  using assms
proof (induction ds arbitrary: n new p)
  case Nil
  then show ?case by (intro exI [of _ "[]"] exI [of _ new] exI [of _ p]) simp
next
  case (Cons d ds)
  from rset_loop_item [of d p "ds @ zs" ext a n new] Cons.prems
  obtain d' q where d': "sdata_sim d d'" "rset_elem_ok \<lparr>elem_type = sdata_tag d', elem_data = d'\<rparr>"
    and q: "stands q (blocks (ds @ zs))" "parser_prev_descriptor q = parser_prev_descriptor p"
    and l: "rset_loop ext a n new p = rset_loop ext a (n + (if comment_p d then 1 else 0)) (rset_add new (sdata_tag d') d') q" by auto
  note e = rset_add_extends [OF Cons.prems(4) d'(2)]
  have cnt: "n + length (filter comment_p (d # ds)) = n + (if comment_p d then 1 else 0) + length (filter comment_p ds)" by simp
  have "list_all item_ok ds" "list_all (\<lambda>d. \<not> descr_p d) ds" "rec_rset_wf (rset_add new (sdata_tag d') d')"
    using Cons.prems e by (simp_all add: extends_def)
  from Cons.IH [OF this(1,2) q(1) this(3), of "n + (if comment_p d then 1 else 0)"]
  obtain ds' new' q' where "list_all2 sdata_sim ds ds'" "extends (rset_add new (sdata_tag d') d') ds' new'"
    "rset_loop ext a n new p = rset_loop ext a (n + length (filter comment_p (d # ds))) new' q'"
    "stands q' (blocks zs)" "parser_prev_descriptor q' = parser_prev_descriptor q"
    unfolding l cnt by blast
  with extends_trans [OF e, of ds' new'] d'(1) q(2) show ?case
    by (intro exI [of _ "d' # ds'"] exI [of _ new'] exI [of _ q']) simp
qed

section \<open>A record set\<close>

text \<open>
  The record sets that can be read back. Only the first one may lack a descriptor, and then it
  has a record; only the first one may have comments in front of its descriptor.
\<close>

definition rset_writable :: "rec_ext \<Rightarrow> bool \<Rightarrow> rec_rset \<Rightarrow> bool" where
  "rset_writable ext first rset \<longleftrightarrow> rec_rset_wf rset \<and> list_all item_ok (rset_data rset)
     \<and> list_all (\<lambda>d. \<not> descr_p d) (rset_data rset)
     \<and> (case rset_descriptor rset of
          None \<Rightarrow> first \<and> \<not> list_all comment_p (rset_data rset) \<and> rset_descriptor_pos rset = 0
        | Some d \<Rightarrow>
            writable d \<and> rec_record_field_p d ''%rec'' \<and> descr_ok ext d
            \<and> rset_descriptor_pos rset \<le> length (rset_data rset)
            \<and> (if first then list_all comment_p (take (rset_descriptor_pos rset) (rset_data rset))
               else rset_descriptor_pos rset = 0))"

definition rset_sim :: "rec_rset \<Rightarrow> rec_rset \<Rightarrow> bool" where
  "rset_sim rset rset' \<longleftrightarrow> rec_rset_wf rset' \<and> list_all2 sdata_sim (rset_data rset) (rset_data rset')
     \<and> rel_option record_sim (rset_descriptor rset) (rset_descriptor rset')
     \<and> rset_descriptor_pos rset' = rset_descriptor_pos rset"

text \<open>Where a record set ends: at the end of the input or at the next descriptor.\<close>

definition next_set :: "sdata list \<Rightarrow> bool" where
  "next_set zs = (case zs of [] \<Rightarrow> True | SRecord d # _ \<Rightarrow> writable d \<and> rec_record_field_p d ''%rec'' | _ \<Rightarrow> False)"

definition after_set :: "sdata list \<Rightarrow> rec_parser \<Rightarrow> bool" where
  "after_set zs q =
     (case zs of
        SRecord d # zs' \<Rightarrow> stands q (blocks zs') \<and> (\<exists>d'. parser_prev_descriptor q = Some d' \<and> record_sim d d')
      | _ \<Rightarrow> stands q [] \<and> parser_prev_descriptor q = None)"

lemma rset_loop_tail:
  assumes "stands p (blocks zs)" and "next_set zs" and "parser_prev_descriptor p = None"
    and "rset_descriptor new \<noteq> None \<or> rec_rset_num_records new \<noteq> 0"
  shows "\<exists>ret q. rset_loop ext a n new p = Some (ret, new, q) \<and> (ret \<or> parser_error q = REC_PARSER_NOERROR) \<and> after_set zs q"
proof (cases zs)
  case Nil
  with assms rset_loop_end [of p ext a n new] show ?thesis by (auto simp: after_set_def)
next
  case (Cons z zs')
  with assms(2) obtain d where d: "zs = SRecord d # zs'" "writable d" "rec_record_field_p d ''%rec''"
    by (cases z) (auto simp: next_set_def)
  from rset_loop_record [of p d zs' ext a n new] assms d obtain d' q where sim: "record_sim d d'" and q: "stands q (blocks zs')"
    and l: "rec_record_field_p d' (FNAME REC_FIELD_REC) \<Longrightarrow>
      rset_loop ext a n new p = Some (True, new, q\<lparr>parser_prev_descriptor := Some d'\<rparr>)" by auto
  have "rec_record_field_p d' (FNAME REC_FIELD_REC)"
    using d(3) record_sim_items [OF sim] d(2) by (simp add: field_p_items writable_def)
  from l [OF this] sim q d(1) show ?thesis by (auto simp: after_set_def)
qed

lemma rset_data_new [simp]: "rset_data rec_rset_new = []" "rset_descriptor_pos rec_rset_new = 0"
  by (simp_all add: rec_rset_new_eq rset_data_def)

lemma set_descriptor_data:
  assumes "rec_rset_set_descriptor ext new d = Some new'" and "rec_rset_wf new" and "pred_option rec_record_wf d"
  shows "rec_rset_wf new'" "rset_data new' = rset_data new" "rset_descriptor new' = d"
    "rset_descriptor_pos new' = rset_descriptor_pos new" "rec_rset_num_records new' = rec_rset_num_records new"
proof -
  note core = rset_coreD [OF set_descriptor_core [OF assms(1)]]
  show "rec_rset_wf new'" using core(7) assms(2,3) by (simp add: rec_rset_wf_def)
  show "rset_data new' = rset_data new" "rset_descriptor new' = d" "rset_descriptor_pos new' = rset_descriptor_pos new"
    "rec_rset_num_records new' = rec_rset_num_records new"
    using core by (simp_all add: rset_data_def rec_rset_num_records_def)
qed

lemma record_sim_descr:
  assumes "record_sim d d'" and "writable d" and "descr_ok ext d"
  shows "\<exists>new'. rec_rset_set_descriptor ext new (Some d') = Some new'"
  using set_descriptor_defined [of ext d' new] record_sim_items [OF assms(1)] assms(2,3) by (simp add: descr_ok_def writable_def)

lemma sim_comments:
  assumes "list_all2 sdata_sim ds ds'"
  shows "list_all comment_p ds = list_all comment_p ds'"
proof -
  have sim: "sdata_sim d e \<Longrightarrow> comment_p d = comment_p e" for d e by (cases d; cases e) simp_all
  from assms show ?thesis by (induction rule: list_all2_induct) (auto dest: sim)
qed

text \<open>The elements behind the descriptor, up to the end of the set.\<close>

lemma rset_loop_body:
  assumes "list_all item_ok ds" and "list_all (\<lambda>d. \<not> descr_p d) ds" and "stands p (blocks (ds @ zs))" and "rec_rset_wf new"
    and "next_set zs" and "parser_prev_descriptor p = None" and "rset_descriptor new \<noteq> None \<or> \<not> list_all comment_p ds"
  shows "\<exists>ret ds' new' q. rset_loop ext a n new p = Some (ret, new', q) \<and> (ret \<or> parser_error q = REC_PARSER_NOERROR)
    \<and> (rset_descriptor new' \<noteq> None \<or> rec_rset_num_records new' > 0)
    \<and> after_set zs q \<and> list_all2 sdata_sim ds ds' \<and> extends new ds' new'"
proof -
  from rset_loop_items [OF assms(1-4), of ext a n] obtain ds' new' q where
    l: "list_all2 sdata_sim ds ds'" "extends new ds' new'"
      "rset_loop ext a n new p = rset_loop ext a (n + length (filter comment_p ds)) new' q"
      "stands q (blocks zs)" "parser_prev_descriptor q = parser_prev_descriptor p" by blast
  have "list_all comment_p ds = list_all comment_p ds'" using l(1) by (rule sim_comments)
  then have r: "rset_descriptor new' \<noteq> None \<or> rec_rset_num_records new' \<noteq> 0"
    using assms(7) l(2) no_records_iff [of new'] by (auto simp: extends_def)
  from rset_loop_tail [OF l(4) assms(5) _ r, of ext a "n + length (filter comment_p ds)"] l assms(6) r show ?thesis by fastforce
qed

lemma parse_rset_later:
  assumes "rset_writable ext False rset" and "rset_descriptor rset = Some d" and "stands p (blocks (rset_data rset @ zs))"
    and "next_set zs" and "parser_prev_descriptor p = Some d'" and "record_sim d d'"
  shows "\<exists>rset' q. rec_parse_rset ext a p = Some (Some rset', q) \<and> rset_sim rset rset' \<and> after_set zs q"
proof -
  note w = assms(1) [unfolded rset_writable_def assms(2) option.case]
  have wf: "rec_record_wf d'" using assms(6) by (simp add: record_sim_def)
  obtain new where new: "rec_rset_set_descriptor ext rec_rset_new (Some d') = Some new"
    using record_sim_descr [OF assms(6)] w by blast
  note nd = set_descriptor_data [OF new rec_rset_new_wf, simplified, OF wf]
  have "stands (p\<lparr>parser_prev_descriptor := None\<rparr>) (blocks (rset_data rset @ zs))" using assms(3) by simp
  from rset_loop_body [OF _ _ this nd(1) assms(4), of ext a 0] w nd obtain ret ds' new' q where
    l: "rset_loop ext a 0 new (p\<lparr>parser_prev_descriptor := None\<rparr>) = Some (ret, new', q)"
      "ret \<or> parser_error q = REC_PARSER_NOERROR" "rset_descriptor new' \<noteq> None \<or> rec_rset_num_records new' > 0"
      "after_set zs q" "list_all2 sdata_sim (rset_data rset) ds'" "extends new ds' new'" by auto
  have "rec_parse_rset ext a p = Some (Some new', q)"
    using l(2,3) by (simp add: rec_parse_rset_def assms(5) new l(1))
  moreover have "rset_sim rset new'" using l(5,6) nd assms(2,6) w by (simp add: rset_sim_def extends_def)
  ultimately show ?thesis using l(4) by blast
qed

lemma rset_loop_first_descr:
  assumes "rset_writable ext True rset" and "rset_descriptor rset = Some d" and "stands p (blocks (rset_items rset @ zs))"
    and "next_set zs" and "parser_prev_descriptor p = None"
    and "rec_rset_wf new" and "rset_data new = []" and "rset_descriptor new = None"
  shows "\<exists>ret new' q. rset_loop ext a 0 new p = Some (ret, new', q) \<and> (ret \<or> parser_error q = REC_PARSER_NOERROR)
    \<and> (rset_descriptor new' \<noteq> None \<or> rec_rset_num_records new' > 0) \<and> after_set zs q \<and> rset_sim rset new'"
proof -
  note w = assms(1) [unfolded rset_writable_def assms(2) option.case]
  let ?k = "rset_descriptor_pos rset"
  let ?cs = "take ?k (rset_data rset)" and ?es = "drop ?k (rset_data rset)"
  have split: "list_all P (rset_data rset) = (list_all P ?cs \<and> list_all P ?es)" for P
    by (metis append_take_drop_id list_all_append)
  have st: "stands p (blocks (?cs @ SRecord d # ?es @ zs))" using assms(2,3) by (simp add: rset_items_def)
  from rset_loop_items [OF _ _ st assms(6), of ext a 0] w split obtain cs' new1 q1 where
    l1: "list_all2 sdata_sim ?cs cs'" "extends new cs' new1"
      "rset_loop ext a 0 new p = rset_loop ext a (length (filter comment_p ?cs)) new1 q1"
      "stands q1 (blocks (SRecord d # ?es @ zs))" "parser_prev_descriptor q1 = None" using assms(5) by auto
  have k: "length (filter comment_p ?cs) = ?k" using w by (simp add: list_all_iff filter_id_conv)
  have "list_all comment_p ?cs = list_all comment_p cs'" using l1(1) by (rule sim_comments)
  then have empty: "rec_rset_num_records new1 = 0" "rset_descriptor new1 = None"
    using w l1(2) assms(7-8) no_records_iff [of new1] by (simp_all add: extends_def)
  from rset_loop_record [OF l1(4), of ext a ?k new1] w obtain d' q2 where
    l2: "record_sim d d'" "stands q2 (blocks (?es @ zs))" "parser_prev_descriptor q2 = None"
      "rec_record_field_p d' (FNAME REC_FIELD_REC) \<Longrightarrow> rset_loop ext a ?k new1 q1 =
        (case rec_rset_set_descriptor ext new1 (Some d') of
           None \<Rightarrow> None | Some new2 \<Rightarrow> rset_loop ext a ?k (rec_rset_set_descriptor_pos new2 ?k) q2)"
    unfolding empty l1(5) by auto
  have f: "rec_record_field_p d' (FNAME REC_FIELD_REC)"
    using w record_sim_items [OF l2(1)] by (simp add: field_p_items writable_def)
  obtain new2 where new2: "rec_rset_set_descriptor ext new1 (Some d') = Some new2" using record_sim_descr [OF l2(1)] w by blast
  have wf1: "rec_rset_wf new1" "pred_option rec_record_wf (Some d')" using l1(2) l2(1) by (simp_all add: extends_def record_sim_def)
  note nd2 = set_descriptor_data [OF new2 wf1]
  let ?new = "rec_rset_set_descriptor_pos new2 ?k"
  have nd3: "rec_rset_wf ?new" "rset_data ?new = cs'" "rset_descriptor ?new = Some d'" "rset_descriptor_pos ?new = ?k"
    using nd2 l1(2) assms(7-8) by (simp_all add: rec_rset_set_descriptor_pos_def rec_rset_wf_def rset_data_def extends_def)
  from rset_loop_body [OF _ _ l2(2) nd3(1) assms(4) l2(3), of ext a ?k] w split nd3 obtain ret es' new3 q3 where
    l3: "rset_loop ext a ?k ?new q2 = Some (ret, new3, q3)" "ret \<or> parser_error q3 = REC_PARSER_NOERROR"
      "rset_descriptor new3 \<noteq> None \<or> rec_rset_num_records new3 > 0" "after_set zs q3"
      "list_all2 sdata_sim ?es es'" "extends ?new es' new3" by auto
  have "list_all2 sdata_sim (?cs @ ?es) (cs' @ es')" using l1(1) l3(5) by (rule list_all2_appendI)
  then have "rset_sim rset new3" using l3(6) nd3 assms(2) l2(1) by (simp add: rset_sim_def extends_def)
  moreover have "rset_loop ext a 0 new p = Some (ret, new3, q3)" using l1(3) l2(4) [OF f] new2 l3(1) k by simp
  ultimately show ?thesis using l3(2-4) by blast
qed

lemma parse_rset_first:
  assumes "rset_writable ext True rset" and "stands p (blocks (rset_items rset @ zs))"
    and "next_set zs" and "parser_prev_descriptor p = None"
  shows "\<exists>rset' q. rec_parse_rset ext a p = Some (Some rset', q) \<and> rset_sim rset rset' \<and> after_set zs q"
proof -
  obtain new where new: "rec_rset_set_descriptor ext rec_rset_new None = Some new" using set_descriptor_None by blast
  note nd = set_descriptor_data [OF new rec_rset_new_wf, simplified]
  have p: "p\<lparr>parser_prev_descriptor := None\<rparr> = p" using assms(4) by simp
  have "\<exists>ret new' q. rset_loop ext a 0 new p = Some (ret, new', q) \<and> (ret \<or> parser_error q = REC_PARSER_NOERROR)
    \<and> (rset_descriptor new' \<noteq> None \<or> rec_rset_num_records new' > 0) \<and> after_set zs q \<and> rset_sim rset new'"
  proof (cases "rset_descriptor rset")
    case None
    note w = assms(1) [unfolded rset_writable_def None option.case]
    have "stands p (blocks (rset_data rset @ zs))" using assms(2) None by (simp add: rset_items_def)
    from rset_loop_body [OF _ _ this nd(1) assms(3,4), of ext a 0] w nd None show ?thesis
      by (auto simp: rset_sim_def extends_def)
  next
    case (Some d)
    with rset_loop_first_descr [OF assms(1) Some assms(2-4) nd(1)] nd show ?thesis by simp
  qed
  then show ?thesis by (auto simp: rec_parse_rset_def assms(4) new p)
qed

section \<open>A database\<close>

definition db_writable :: "rec_ext \<Rightarrow> rec_db \<Rightarrow> bool" where
  "db_writable ext db \<longleftrightarrow> rec_db_wf db
     \<and> (case db_rset_list db of [] \<Rightarrow> True | rset # rsets \<Rightarrow> rset_writable ext True rset \<and> list_all (rset_writable ext False) rsets)"

lemma rset_writable_later:
  assumes "rset_writable ext False rset"
  obtains d where "rset_descriptor rset = Some d" "rset_items rset = SRecord d # rset_data rset" "writable d"
    "rec_record_field_p d ''%rec''"
  using assms by (auto simp: rset_writable_def rset_items_def split: option.splits)

lemma next_set_later: "list_all (rset_writable ext False) rsets \<Longrightarrow> next_set (concat (map rset_items rsets))"
  by (cases rsets) (auto simp: next_set_def elim!: rset_writable_later)

lemma db_loop_end:
  assumes "after_set [] p"
  shows "\<exists>q. db_loop ext new p = Some (new, q) \<and> parser_eof q \<and> parser_error q = REC_PARSER_NOERROR"
proof -
  have p: "stands p []" "parser_prev_descriptor p = None" using assms by (simp_all add: after_set_def)
  obtain r where r: "rec_rset_set_descriptor ext rec_rset_new None = Some r" using set_descriptor_None by blast
  note nd = set_descriptor_data [OF r rec_rset_new_wf, simplified]
  have "stands (p\<lparr>parser_prev_descriptor := None\<rparr>) []" using p(1) by simp
  from rset_loop_end [OF this, of ext "rec_db_size new" 0 r] obtain q where
    "rset_loop ext (rec_db_size new) 0 r (p\<lparr>parser_prev_descriptor := None\<rparr>) = Some (False, r, q)" "parser_eof q"
    "parser_error q = REC_PARSER_NOERROR" by blast
  then show ?thesis
    using nd rec_rset_new_empty by (subst db_loop.simps) (simp add: rec_parse_rset_def p(2) r)
qed

lemma db_loop_later:
  assumes "list_all (rset_writable ext False) rsets" and "after_set (concat (map rset_items rsets)) p" and "rec_db_wf new"
  shows "\<exists>rsets' new' q. db_loop ext new p = Some (new', q) \<and> parser_eof q \<and> parser_error q = REC_PARSER_NOERROR \<and> rec_db_wf new'
    \<and> list_all2 rset_sim rsets rsets' \<and> db_rset_list new' = db_rset_list new @ rsets'"
  using assms
proof (induction rsets arbitrary: p new)
  case Nil
  then show ?case using db_loop_end [of p ext new] by auto
next
  case (Cons rset rsets)
  obtain d where d: "rset_descriptor rset = Some d" "rset_items rset = SRecord d # rset_data rset"
    using Cons.prems(1) by (auto elim: rset_writable_later)
  let ?zs = "concat (map rset_items rsets)"
  obtain d' where d': "stands p (blocks (rset_data rset @ ?zs))" "parser_prev_descriptor p = Some d'" "record_sim d d'"
    using Cons.prems(2) d(2) by (auto simp: after_set_def)
  have z: "next_set ?zs" using Cons.prems(1) next_set_later [of ext rsets] by simp
  have "rset_writable ext False rset" using Cons.prems(1) by simp
  from parse_rset_later [OF this d(1) d'(1) z d'(2,3), of "rec_db_size new"] obtain rset' q where
    l: "rec_parse_rset ext (rec_db_size new) p = Some (Some rset', q)" "rset_sim rset rset'" "after_set ?zs q" by blast
  let ?new = "rec_db_insert_rset new rset' (rec_db_size new)"
  have step: "db_loop ext new p = db_loop ext ?new q" using l(1) by (subst db_loop.simps) simp
  show ?case
    using Cons.IH [OF _ l(3), of ?new] Cons.prems(1,3) l(2) step insert_rset_last [OF Cons.prems(3), of rset']
    by (fastforce intro: list.rel_intros)
qed

lemma db_parse_ok:
  assumes "db_writable ext db" and "ready p" and "rest p = blocks (db_items db)" and "parser_prev_descriptor p = None"
  shows "\<exists>db' q. rec_parse_db ext p = Some (Some db', q) \<and> parser_error q = REC_PARSER_NOERROR
    \<and> rec_db_wf db' \<and> list_all2 rset_sim (db_rset_list db) (db_rset_list db')"
proof (cases "db_rset_list db")
  case Nil
  then have "after_set [] p" using assms by (simp add: after_set_def stands_def db_items_def)
  from db_loop_end [OF this, of ext rec_db_new] obtain q where
    "db_loop ext rec_db_new p = Some (rec_db_new, q)" "parser_eof q" "parser_error q = REC_PARSER_NOERROR" by blast
  then have "rec_parse_db ext p = Some (Some rec_db_new, q)" "parser_error q = REC_PARSER_NOERROR" by (simp_all add: rec_parse_db_def)
  moreover have "db_rset_list rec_db_new = []" by (simp add: rec_db_new_def)
  ultimately show ?thesis using Nil by (intro exI [of _ rec_db_new] exI [of _ q]) simp
next
  case (Cons rset rsets)
  let ?zs = "concat (map rset_items rsets)"
  have w: "rset_writable ext True rset" "list_all (rset_writable ext False) rsets" using assms(1) Cons by (simp_all add: db_writable_def)
  have "stands p (blocks (rset_items rset @ ?zs))" using assms(2,3) Cons by (simp add: stands_def db_items_def)
  from parse_rset_first [OF w(1) this next_set_later [OF w(2)] assms(4), of "rec_db_size rec_db_new"] obtain rset' q where
    l: "rec_parse_rset ext (rec_db_size rec_db_new) p = Some (Some rset', q)" "rset_sim rset rset'" "after_set ?zs q" by blast
  let ?new = "rec_db_insert_rset rec_db_new rset' (rec_db_size rec_db_new)"
  have new: "rec_db_wf ?new" "db_rset_list ?new = [rset']"
    using insert_rset_last [OF rec_db_new_wf, of rset'] by (simp, simp add: rec_db_new_def)
  have "db_loop ext rec_db_new p = db_loop ext ?new q" using l(1) by (subst db_loop.simps) simp
  with db_loop_later [OF w(2) l(3) new(1)] new(2) l(2) Cons show ?thesis by (fastforce simp: rec_parse_db_def)
qed

lemma item_ok_plain:
  assumes "item_ok d"
  shows "sdata_plain d" and "plain (sdata_text d)"
proof -
  show "sdata_plain d" using assms writable_plain by (cases d) (auto simp: item_ok_def sdata_plain_def writable_def)
  have "plain (record_text r)" if "writable r" for r
    using that lines_text_plain by (metis plain_simps(3) writable_text)
  then show "plain (sdata_text d)" using assms by (cases d) (auto simp: item_ok_def sdata_text_def comment_text_def)
qed

lemma rset_writable_items:
  assumes "rset_writable ext b rset"
  shows "list_all item_ok (rset_items rset)" "rset_items rset \<noteq> []" "rset_plain rset"
  using assms item_ok_plain(1)
  by (auto simp: rset_writable_def rset_items_def rset_plain_def descr_plain_def list_all_iff item_ok_def sdata_plain_def
      writable_def writable_plain split: option.splits dest: in_set_takeD in_set_dropD)

lemma db_writable_items:
  assumes "db_writable ext db"
  shows "list_all item_ok (db_items db)" and "db_plain db" and "plain (blocks (db_items db))"
proof -
  have all: "\<forall>rset \<in> set (db_rset_list db). list_all item_ok (rset_items rset) \<and> rset_items rset \<noteq> [] \<and> rset_plain rset"
    using assms rset_writable_items by (auto simp: db_writable_def list_all_iff split: list.splits)
  then show items: "list_all item_ok (db_items db)" by (auto simp: db_items_def list_all_iff)
  show "db_plain db" using assms all by (simp add: db_plain_def db_writable_def list_all_iff)
  have "list_all item_ok ds \<Longrightarrow> plain (blocks ds)" for ds
    using item_ok_plain(2) by (induction ds rule: blocks.induct) auto
  with items show "plain (blocks (db_items db))" by blast
qed

text \<open>What is read back can be written again, with the same text.\<close>

lemma writable_lines: "writable r \<Longrightarrow> record_text r @ [NL] = lines_text (record_data r)"
  by (rule record_lines_text) (auto simp: writable_def)

lemma record_sim_text:
  assumes "record_sim r r'" and "writable r"
  shows "writable r'" and "record_text r' = record_text r"
proof -
  note c = assms(1) [unfolded record_sim_def]
  show w: "writable r'" using writable_content [OF assms(2)] c by blast
  have "lines_text (record_data r') = lines_text (record_data r)" using content_text c by (metis join_comments_text)
  with writable_lines [OF w] writable_lines [OF assms(2)] show "record_text r' = record_text r" by (metis append_same_eq)
qed

lemma sdata_sim_text:
  assumes "sdata_sim d d'" and "item_ok d"
  shows "item_ok d' \<and> sdata_text d' = sdata_text d"
  using assms record_sim_text by (cases d; cases d') (auto simp: item_ok_def sdata_text_def)

lemma sim_blocks: "list_all2 sdata_sim ds ds' \<Longrightarrow> list_all item_ok ds \<Longrightarrow> list_all item_ok ds' \<and> blocks ds' = blocks ds"
  by (induction rule: list_all2_induct) (auto simp: sdata_sim_text)

lemma rset_sim_items:
  assumes "rset_sim rset rset'"
  shows "list_all2 sdata_sim (rset_items rset) (rset_items rset')"
  using assms by (auto simp: rset_sim_def rset_items_def list_all2_takeI list_all2_dropI intro!: list_all2_appendI split: option.splits)

lemma rset_sim_plain:
  assumes "rset_sim rset rset'" and "rset_writable ext b rset"
  shows "rset_plain rset' \<and> rset_items rset' \<noteq> []"
proof -
  have items: "list_all item_ok (rset_items rset')" "rset_items rset' \<noteq> []"
    using sim_blocks [OF rset_sim_items [OF assms(1)]] rset_sim_items [OF assms(1)] rset_writable_items [OF assms(2)] by auto
  moreover have "set (rset_data rset') \<subseteq> set (rset_items rset')"
    by (auto simp: rset_items_def split: option.split) (metis Un_iff append_take_drop_id set_append)
  ultimately have "list_all sdata_plain (rset_data rset')" using item_ok_plain(1) by (auto simp: list_all_iff)
  moreover have "descr_plain rset'"
    using items(1) item_ok_plain(1) by (auto simp: descr_plain_def rset_items_def split: option.splits)
  ultimately show ?thesis using assms(1) items(2) by (simp add: rset_plain_def rset_sim_def)
qed

lemma db_sim_text:
  assumes "list_all2 rset_sim (db_rset_list db) (db_rset_list db')" and "db_writable ext db" and "rec_db_wf db'"
  shows "db_plain db'" and "blocks (db_items db') = blocks (db_items db)"
proof -
  have w: "\<forall>rset \<in> set (db_rset_list db). \<exists>b. rset_writable ext b rset"
    using assms(2) by (auto simp: db_writable_def list_all_iff split: list.splits)
  have "list_all (\<lambda>rset. rset_plain rset \<and> rset_items rset \<noteq> []) (db_rset_list db')"
    using assms(1) w by (induction rule: list_all2_induct) (auto dest: rset_sim_plain)
  then show "db_plain db'" using assms(3) by (simp add: db_plain_def)
  have "list_all2 sdata_sim (db_items db) (db_items db')"
    unfolding db_items_def using assms(1) by (induction rule: list_all2_induct) (auto intro: list_all2_appendI rset_sim_items)
  then show "blocks (db_items db') = blocks (db_items db)" using sim_blocks db_writable_items [OF assms(2)] by blast
qed

section \<open>Properties\<close>

text \<open>
  C1. Writing a database and parsing the text gives the database back: \<open>rec_write_db\<close> succeeds,
  \<open>rec_parse_db\<close> accepts its output and returns a database with the same record sets in the same
  order, each with its descriptor at the same position and the same records and comments (in a
  record, consecutive comments are joined), and writing that database produces the same text
  again. Only the first record set may be the default one, and only its descriptor may follow
  comments; the descriptors have a \<open>%rec\<close> field and valid directives, other records have none.
\<close>

theorem db_write_parse_roundtrip:
  assumes "db_writable ext db" and "length (blocks (db_items db)) < 2 ^ 64"
  shows "\<exists>w db' q w'. rec_write_db db rec_writer_new_str = (True, w)
    \<and> rec_parse_db ext (rec_parser_new_str (rec_writer_destroy w) src) = Some (Some db', q)
    \<and> rec_db_wf db' \<and> list_all2 rset_sim (db_rset_list db) (db_rset_list db')
    \<and> rec_write_db db' rec_writer_new_str = (True, w') \<and> rec_writer_destroy w' = rec_writer_destroy w"
proof -
  note items = db_writable_items [OF assms(1)]
  obtain w where w: "rec_write_db db rec_writer_new_str = (True, w)" "rec_writer_destroy w = blocks (db_items db)"
    using items(2) by (rule rec_write_db_str)
  let ?p = "rec_parser_new_str (blocks (db_items db)) src"
  have "parser_prev_descriptor ?p = None" by (simp add: rec_parser_new_str_def rec_parser_new_mem_def rec_parser_init_common_def)
  from db_parse_ok [OF assms(1) new_str_ready [OF items(3) assms(2)] this] obtain db' q where
    db': "rec_parse_db ext ?p = Some (Some db', q)" "rec_db_wf db'" "list_all2 rset_sim (db_rset_list db) (db_rset_list db')" by blast
  note tx = db_sim_text [OF db'(3) assms(1) db'(2)]
  obtain w' where "rec_write_db db' rec_writer_new_str = (True, w')" "rec_writer_destroy w' = blocks (db_items db')"
    using tx(1) by (rule rec_write_db_str)
  with w db' tx(2) show ?thesis by auto
qed

definition sample_book :: rec_record where
  "sample_book = record_add (record_add rec_record_new MSET_FIELD (DField (rec_field_new ''Title'' ''Ada'')))
     MSET_COMMENT (DComment '' note'')"

definition sample_books :: rec_rset where
  "sample_books = rset_add (rset_add (rec_rset_new\<lparr>rset_descriptor := Some sample_descriptor, rset_descriptor_pos := 1\<rparr>)
     MSET_COMMENT (SComment '' books'')) MSET_RECORD (SRecord sample_book)"

definition sample_db :: rec_db where
  "sample_db = rec_db_insert_rset (rec_db_insert_rset rec_db_new sample_books 0) (rec_rset_new\<lparr>rset_descriptor := Some sample_descriptor\<rparr>) 1"

lemma sample_descriptor_eq: "sample_descriptor = record_add (record_add rec_record_new MSET_FIELD (DField (rec_field_new ''%rec'' ''Book'')))
    MSET_FIELD (DField (rec_field_new ''%type'' ''Id,Year int''))"
  by (simp add: sample_descriptor_def record_add_def)

lemma sample_data:
  "record_data sample_book = [DField (rec_field_new ''Title'' ''Ada''), DComment '' note'']"
  "record_data sample_descriptor = [DField (rec_field_new ''%rec'' ''Book''), DField (rec_field_new ''%type'' ''Id,Year int'')]"
  by (code_simp, code_simp)

lemma sample_writable: "writable sample_book" "writable sample_descriptor"
proof -
  have "rec_record_wf sample_book" unfolding sample_book_def by (intro record_add_wf) (simp_all add: record_elem_ok_def)
  then show "writable sample_book"
    by (simp add: writable_def sample_data field_ok_def field_op_defs fname_char_def rec_parser_letter_p_def rec_parser_digit_p_def schar_def)
  have "rec_record_wf sample_descriptor" unfolding sample_descriptor_eq by (intro record_add_wf) (simp_all add: record_elem_ok_def)
  then show "writable sample_descriptor"
    by (simp add: writable_def sample_data field_ok_def field_op_defs fname_char_def rec_parser_letter_p_def rec_parser_digit_p_def schar_def)
qed

lemma sample_descriptor_ok: "descr_ok sample_ext sample_descriptor" "rec_record_field_p sample_descriptor ''%rec''"
  "\<not> rec_record_field_p sample_book ''%rec''"
  by (code_simp, code_simp, code_simp)

lemma sample_rset_wf: "rec_rset_wf (rec_rset_new\<lparr>rset_descriptor := Some sample_descriptor, rset_descriptor_pos := n\<rparr>)"
  using rec_rset_new_wf sample_writable(2) by (simp add: rec_rset_wf_def writable_def del: rec_rset_new_wf)

lemma sample_books_extends:
  "extends (rec_rset_new\<lparr>rset_descriptor := Some sample_descriptor, rset_descriptor_pos := 1\<rparr>) [SComment '' books'', SRecord sample_book] sample_books"
proof -
  let ?r = "rec_rset_new\<lparr>rset_descriptor := Some sample_descriptor, rset_descriptor_pos := 1\<rparr>"
  have 1: "extends ?r [SComment '' books''] (rset_add ?r MSET_COMMENT (SComment '' books''))"
    using rset_add_extends [OF sample_rset_wf [of 1], of "SComment '' books''"] by (simp add: sdata_tag_def rset_elem_ok_def)
  then have "rec_rset_wf (rset_add ?r MSET_COMMENT (SComment '' books''))" by (simp add: extends_def)
  from rset_add_extends [OF this, of "SRecord sample_book"] sample_writable(1)
  have "extends (rset_add ?r MSET_COMMENT (SComment '' books'')) [SRecord sample_book] sample_books"
    by (simp add: sdata_tag_def rset_elem_ok_def sample_books_def writable_def)
  from extends_trans [OF 1 this] show ?thesis by simp
qed

lemma sample_db_writable: "db_writable sample_ext sample_db"
proof -
  have d: "rset_data (rec_rset_new\<lparr>rset_descriptor := x, rset_descriptor_pos := n\<rparr>) = []" for x n
    by (simp add: rset_data_def rec_rset_new_eq)
  have "rset_writable sample_ext True sample_books"
    using sample_books_extends sample_writable sample_descriptor_ok
    by (simp add: rset_writable_def extends_def d item_ok_def descr_p_def)
  moreover have "rset_writable sample_ext False (rec_rset_new\<lparr>rset_descriptor := Some sample_descriptor\<rparr>)"
    using sample_rset_wf [of 0] sample_writable sample_descriptor_ok
    by (simp add: rset_writable_def rset_data_def rec_rset_new_eq)
  ultimately show ?thesis by (simp add: db_writable_def sample_db_def rec_db_insert_rset_def rec_db_new_def rec_db_wf_def)
qed

lemma sample_db_length: "length (blocks (db_items sample_db)) < 2 ^ 64"
proof -
  have "length (blocks (db_items sample_db)) = 89" by code_simp
  then show ?thesis by simp
qed

theorem db_write_parse_roundtrip_witness:
  "\<exists>w db' q w'. rec_write_db sample_db rec_writer_new_str = (True, w)
    \<and> rec_parse_db sample_ext (rec_parser_new_str (rec_writer_destroy w) None) = Some (Some db', q)
    \<and> rec_db_wf db' \<and> list_all2 rset_sim (db_rset_list sample_db) (db_rset_list db')
    \<and> rec_write_db db' rec_writer_new_str = (True, w') \<and> rec_writer_destroy w' = rec_writer_destroy w"
  by (rule db_write_parse_roundtrip [OF sample_db_writable sample_db_length])

end
