(* ===== verification/Rec_Crypt_Laws.thy ===== *)
theory Rec_Crypt_Laws
  imports Rec_Crypt
begin

text \<open>
  Encrypting a field and decrypting it again, over any cipher whose decryption inverts its
  encryption on whole blocks, with keys and initial vectors of 16 bytes, and any Base64 whose decoder
  inverts its encoder.
\<close>

section \<open>What the libraries promise\<close>

definition crypt_laws :: "crypt_env \<Rightarrow> bool" where
  "crypt_laws env \<longleftrightarrow>
     (\<forall>key iv s. length key = 16 \<and> length iv = 16 \<and> length s mod 16 = 0 \<longrightarrow>
        (\<exists>e. ext_encrypt env key iv s = Some e \<and> length e = length s \<and> ext_decrypt env key iv e = Some s))
     \<and> (\<forall>s. ext_base64_decode env (ext_base64_encode env s) = Some s \<and> cstring (ext_base64_encode env s))"

lemma crypt_cipher:
  assumes "crypt_laws env" and "length salt \<le> 16" and "length s mod 16 = 0"
  shows "\<exists>e. ext_encrypt env (aes_key password) (aes_iv salt) s = Some e \<and> length e = length s
    \<and> ext_decrypt env (aes_key password) (aes_iv salt) e = Some s"
proof -
  have "length (aes_key password) = 16" "length (aes_iv salt) = 16"
    using assms(2) by (simp_all add: aes_key_def aes_iv_def AESV2_KEYSIZE_def AESV2_BLKSIZE_def)
  moreover have "length key = 16 \<and> length iv = 16 \<longrightarrow>
      (\<exists>e. ext_encrypt env key iv s = Some e \<and> length e = length s \<and> ext_decrypt env key iv e = Some s)" for key iv
    using assms(1,3) by (auto simp: crypt_laws_def)
  ultimately show ?thesis by blast
qed

lemma crc_bytes_length [simp]: "length (crc_bytes w) = 4"
  by (simp add: crc_bytes_def)

lemma padded_blocks: "(n + aes_padding n) mod 16 = 0"
proof (cases "n mod 16 = 0")
  case False
  then have "n + aes_padding n = n div 16 * 16 + 16"
    using div_mult_mod_eq [of n 16] mod_less_divisor [of 16 n] by (simp add: aes_padding_def AESV2_BLKSIZE_def) arith
  then show ?thesis by simp
qed (simp add: aes_padding_def AESV2_BLKSIZE_def)

lemma is_prefix_append [simp]: "is_prefix p (p @ s)"
  by (induction p) simp_all

lemma strdup_pad: "cstring s \<Longrightarrow> strdup (s @ replicate n NUL) = s"
  by (cases n) (simp_all add: strdup_def cstring_def list_all_iff takeWhile_append)

section \<open>Buffers\<close>

text \<open>A string with its CRC and the padding, as it is read back: up to the first zero byte.\<close>

lemma strdup_cut:
  assumes "cstring input" and "\<not> cstring crc"
  obtains j where "j < length crc" "strdup (input @ crc @ pad) = input @ take j crc"
proof -
  have "takeWhile (\<lambda>c. c \<noteq> NUL) crc \<noteq> crc" using assms(2) by (auto simp: cstring_def list_all_iff takeWhile_eq_all_conv)
  then have l: "length (takeWhile (\<lambda>c. c \<noteq> NUL) crc) < length crc"
    by (metis length_takeWhile_le le_neq_implies_less take_all order_refl takeWhile_eq_take)
  have nul: "NUL \<in> set crc" using assms(2) by (auto simp: cstring_def list_all_iff)
  have "strdup (input @ crc @ pad) = input @ takeWhile (\<lambda>c. c \<noteq> NUL) (crc @ pad)"
    using assms(1) by (auto simp: strdup_def cstring_def list_all_iff takeWhile_append)
  also have "takeWhile (\<lambda>c. c \<noteq> NUL) (crc @ pad) = takeWhile (\<lambda>c. c \<noteq> NUL) crc" by (rule takeWhile_append1 [OF nul]) simp
  also have "\<dots> = take (length (takeWhile (\<lambda>c. c \<noteq> NUL) crc)) crc" by (rule takeWhile_eq_take)
  finally show thesis using that [OF l] by simp
qed

lemma encrypt_decrypt:
  assumes "crypt_laws env" and "password \<noteq> []" and "length salt = 4" and "cstring input" and "ext_behind env input = Some behind"
  defines "crc \<equiv> crc_bytes (ext_crc32 env input)"
  shows "\<exists>out. rec_encrypt env salt input password = Ok out
    \<and> (cstring crc \<and> (length input + 4) mod 16 = 0 \<longrightarrow> rec_decrypt env out password = Undef)
    \<and> (rec_decrypt env out password = Ok input \<longleftrightarrow> input \<noteq> [] \<and> cstring crc \<and> (length input + 4) mod 16 \<noteq> 0)"
proof -
  let ?real = "input @ crc"
  define pad where "pad = replicate (aes_padding (length ?real)) NUL"
  have crc4: "length crc = 4" by (simp add: crc_def)
  have len: "length (?real @ pad) mod 16 = 0" using padded_blocks [of "length ?real"] by (simp add: add.assoc pad_def)
  obtain e where e: "ext_encrypt env (aes_key password) (aes_iv salt) (?real @ pad) = Some e"
    "length e = length (?real @ pad)" "ext_decrypt env (aes_key password) (aes_iv salt) e = Some (?real @ pad)"
    using crypt_cipher [OF assms(1) _ len, of salt password] assms(3) by auto
  have pad: "pad = [] \<longleftrightarrow> (length input + 4) mod 16 = 0" by (auto simp: pad_def crc4 aes_padding_def AESV2_BLKSIZE_def)
  have salt: "(length (e @ salt) + 12) mod AESV2_BLKSIZE = 0"
  proof -
    have "length (e @ salt) + 12 = length (?real @ pad) + 16" using e(2) assms(3) by simp
    then show ?thesis using len unfolding AESV2_BLKSIZE_def by (metis mod_add_self2)
  qed
  have enc: "rec_encrypt env salt input password = Ok (e @ salt)"
    using e(1) assms(2,5) by (simp add: rec_encrypt_def Let_def pad_def crc_def)
  let ?s = "strdup (?real @ pad)"
  have dec: "rec_decrypt env (e @ salt) password =
      (if NUL \<notin> set (?real @ pad) then Undef
       else if length ?s > 4
       then if drop (length ?s - 4) ?s = crc_bytes (ext_crc32 env (take (length ?s - 4) ?s)) then Ok (take (length ?s - 4) ?s) else Fail
       else Fail)"
    using assms(2,3) e(3) salt by (simp add: rec_decrypt_def Let_def SALT_SIZE_def)
  show ?thesis
  proof (cases "cstring crc")
    case True
    then have cs: "cstring ?real" using assms(4) by simp
    then have nul: "NUL \<notin> set (?real @ pad) \<longleftrightarrow> pad = []"
      by (cases "aes_padding (length ?real)") (auto simp: cstring_def list_all_iff pad_def)
    have s: "?s = ?real" unfolding pad_def by (rule strdup_pad [OF cs])
    have "rec_decrypt env (e @ salt) password = (if pad = [] then Undef else if input \<noteq> [] then Ok input else Fail)"
      unfolding dec nul s using crc4 by (simp add: crc_def)
    then show ?thesis using True enc pad by auto
  next
    case False
    obtain j where j: "j < length crc" "strdup (input @ crc @ pad) = input @ take j crc" using strdup_cut [OF assms(4) False] .
    then have s: "?s = input @ take j crc" by simp
    have "length (take (length ?s - 4) ?s) < length input \<or> \<not> length ?s > 4" using j(1) crc4 unfolding s by auto
    then have "take (length ?s - 4) ?s \<noteq> input \<or> \<not> length ?s > 4" by (metis nat_neq_iff)
    then have "rec_decrypt env (e @ salt) password \<noteq> Ok input" unfolding dec by (auto split: if_splits)
    then show ?thesis using False enc by blast
  qed
qed

section \<open>Properties\<close>

text \<open>
  C40. A confidential field and its password. Let the field not be encrypted yet and the three bytes that
  \<open>rec_encrypt\<close> copies from behind its value be readable. With an empty password, which \<open>recfix -s\<close>
  admits, the encryption is undefined. With another one it succeeds and gives a value with the prefix, and
  decrypting that gives the original field back exactly when the value is not empty, its CRC has no zero
  byte (the CRC is read as part of a C string), and value and CRC do not fill whole AES blocks: when they
  do there is no padding, and if the CRC has no zero byte either, \<open>rec_decrypt\<close> looks for the end of the
  string behind its buffer.
\<close>

theorem field_encrypt_decrypt:
  assumes "crypt_laws env" and "length salt = 4" and "cstring (field_value f)"
    and "\<not> is_prefix REC_ENCRYPTED_PREFIX (field_value f)" and "ext_behind env (field_value f) = Some behind"
  shows "(password = [] \<longrightarrow> rec_encrypt_field env salt f password = None)
    \<and> (password \<noteq> [] \<longrightarrow>
        (\<exists>f'. rec_encrypt_field env salt f password = Some (True, f') \<and> is_prefix REC_ENCRYPTED_PREFIX (field_value f')
          \<and> (rec_decrypt_field env f' password = Some (True, f) \<longleftrightarrow>
               field_value f \<noteq> [] \<and> cstring (crc_bytes (ext_crc32 env (field_value f))) \<and> (length (field_value f) + 4) mod 16 \<noteq> 0)
          \<and> (cstring (crc_bytes (ext_crc32 env (field_value f))) \<and> (length (field_value f) + 4) mod 16 = 0 \<longrightarrow>
               rec_decrypt_field env f' password = None)))"
proof (cases "password = []")
  case True
  then show ?thesis using assms(4,5) by (simp add: rec_encrypt_field_def rec_encrypt_def Let_def)
next
  case False
  let ?crc = "crc_bytes (ext_crc32 env (field_value f))"
  obtain out where out: "rec_encrypt env salt (field_value f) password = Ok out"
    "cstring ?crc \<and> (length (field_value f) + 4) mod 16 = 0 \<Longrightarrow> rec_decrypt env out password = Undef"
    "rec_decrypt env out password = Ok (field_value f) \<longleftrightarrow> field_value f \<noteq> [] \<and> cstring ?crc \<and> (length (field_value f) + 4) mod 16 \<noteq> 0"
    using encrypt_decrypt [OF assms(1) False assms(2,3,5)] by blast
  let ?v = "REC_ENCRYPTED_PREFIX @ ext_base64_encode env out"
  have b: "ext_base64_decode env (ext_base64_encode env out) = Some out" "cstring (ext_base64_encode env out)"
    using assms(1) by (simp_all add: crypt_laws_def)
  then have v: "strdup ?v = ?v" by (simp add: REC_ENCRYPTED_PREFIX_def)
  let ?f' = "rec_field_set_value f ?v"
  have enc: "rec_encrypt_field env salt f password = Some (True, ?f')"
    using out(1) assms(4) by (simp add: rec_encrypt_field_def)
  have val: "field_value ?f' = ?v" using v by (simp add: rec_field_set_value_def)
  have dec: "rec_decrypt_field env ?f' password =
      (case rec_decrypt env out password of Undef \<Rightarrow> None | Fail \<Rightarrow> Some (True, ?f') | Ok s \<Rightarrow> Some (True, rec_field_set_value ?f' s))"
    by (simp add: rec_decrypt_field_def val b(1))
  have "?v \<noteq> field_value f" using assms(4) by (metis is_prefix_append)
  then have ne: "?f' \<noteq> f" using val by metis
  have set: "rec_field_set_value ?f' s = f \<longleftrightarrow> strdup s = field_value f" for s
    by (cases f) (auto simp: rec_field_set_value_def)
  have small: "strdup s = s" if "rec_decrypt env out password = Ok s" for s
  proof -
    have "cstring (take k (strdup x))" for k x by (metis append_take_drop_id cstring_append cstring_strdup)
    then have "cstring s" using that by (auto simp: rec_decrypt_def Let_def split: if_splits option.splits)
    then show ?thesis by simp
  qed
  have "rec_decrypt_field env ?f' password = Some (True, f) \<longleftrightarrow> rec_decrypt env out password = Ok (field_value f)"
    using ne set small by (auto simp: dec split: outcome.splits)
  moreover have "rec_decrypt_field env ?f' password = None" if "rec_decrypt env out password = Undef"
    using that by (simp add: dec)
  ultimately show ?thesis using False enc val out(2,3) by auto
qed

text \<open>A cipher for the witness: the identity, with a hexadecimal text encoding.\<close>

definition hex_digit :: "nat \<Rightarrow> char" where
  "hex_digit n = char_of (65 + n)"

fun hex_encode :: "string \<Rightarrow> string" where
  "hex_encode [] = []"
| "hex_encode (c # s) = hex_digit (of_char c div 16) # hex_digit (of_char c mod 16) # hex_encode s"

fun hex_decode :: "string \<Rightarrow> string option" where
  "hex_decode [] = Some []"
| "hex_decode (a # b # s) = map_option (Cons (char_of ((of_char a - 65) * 16 + (of_char b - 65) :: nat))) (hex_decode s)"
| "hex_decode [a] = None"

definition sample_crypt :: crypt_env where
  "sample_crypt = \<lparr>ext_crc32 = (\<lambda>s. 0x01010101), ext_encrypt = (\<lambda>key iv s. Some s), ext_decrypt = (\<lambda>key iv s. Some s),
     ext_base64_encode = hex_encode, ext_base64_decode = hex_decode, ext_behind = (\<lambda>s. Some ''xyz'')\<rparr>"

lemma hex_digit_simps: "n < 16 \<Longrightarrow> of_char (hex_digit n) = 65 + n" "n < 16 \<Longrightarrow> hex_digit n \<noteq> NUL"
proof -
  assume n: "n < 16"
  then show 1: "of_char (hex_digit n) = 65 + n" by (simp add: hex_digit_def of_char_of)
  show "hex_digit n \<noteq> NUL" using 1 by auto
qed

lemma of_char_nat: "(of_char c :: nat) < 256"
  by (metis of_char_of char_of_char mod_less_divisor zero_less_numeral of_char_mod_256)

lemma sample_crypt_laws: "crypt_laws sample_crypt"
proof -
  have "hex_decode (hex_encode s) = Some s \<and> cstring (hex_encode s)" for s
  proof (induction s)
    case (Cons c s)
    have "(of_char c :: nat) div 16 < 16" "(of_char c :: nat) mod 16 < 16" using of_char_nat [of c] by (simp_all add: less_mult_imp_div_less)
    with Cons show ?case by (simp add: hex_digit_simps)
  qed simp
  then show ?thesis by (simp add: crypt_laws_def sample_crypt_def)
qed

theorem field_encrypt_decrypt_witness:
  "\<exists>f'. rec_encrypt_field sample_crypt ''salt'' (rec_field_new ''Password'' ''secret'') ''key'' = Some (True, f')
    \<and> is_prefix REC_ENCRYPTED_PREFIX (field_value f')
    \<and> rec_decrypt_field sample_crypt f' ''key'' = Some (True, rec_field_new ''Password'' ''secret'')"
proof -
  let ?f = "rec_field_new ''Password'' ''secret''"
  have v: "field_value ?f = ''secret''" by code_simp
  have "cstring (crc_bytes (ext_crc32 sample_crypt ''secret''))"
  proof -
    have "[0..<4] = [0, 1, 2, 3 :: nat]" by (simp add: upt_rec)
    moreover have "char_of (n :: nat) = NUL \<Longrightarrow> n mod 256 = 0" for n using of_char_of [of n] by simp
    ultimately show ?thesis by (auto simp: crc_bytes_def sample_crypt_def) fastforce+
  qed
  with field_encrypt_decrypt [OF sample_crypt_laws, of "''salt''" ?f "''xyz''" "''key''"] show ?thesis
    by (auto simp: v REC_ENCRYPTED_PREFIX_def sample_crypt_def)
qed

end
