(* ===== verification/Rec_Sex_Laws.thy ===== *)
theory Rec_Sex_Laws
  imports Rec_Sex
begin

text \<open>
  The grammar of selection expressions. A tree printed with only the parentheses its
  operators need, by level and associativity, is read back by the shift and reduce parser:
  the precedences of the grammar are those of the levels, implication is right
  associative, every other operator left associative, and a conditional extends as far
  to the right as it can.
\<close>

section \<open>Printing\<close>

fun op_tok :: "rec_sex_op \<Rightarrow> sex_token" where
  "op_tok REC_SEX_OP_IMPLIES = REC_SEX_TOK_IMPLIES"
| "op_tok REC_SEX_OP_AND = REC_SEX_TOK_AND"
| "op_tok REC_SEX_OP_OR = REC_SEX_TOK_OR"
| "op_tok REC_SEX_OP_EQL = REC_SEX_TOK_EQL"
| "op_tok REC_SEX_OP_NEQ = REC_SEX_TOK_NEQ"
| "op_tok REC_SEX_OP_LT = REC_SEX_TOK_LT"
| "op_tok REC_SEX_OP_GT = REC_SEX_TOK_GT"
| "op_tok REC_SEX_OP_LTE = REC_SEX_TOK_LTE"
| "op_tok REC_SEX_OP_GTE = REC_SEX_TOK_GTE"
| "op_tok REC_SEX_OP_SAMETIME = REC_SEX_TOK_SAMETIME"
| "op_tok REC_SEX_OP_AFTER = REC_SEX_TOK_AFTER"
| "op_tok REC_SEX_OP_BEFORE = REC_SEX_TOK_BEFORE"
| "op_tok REC_SEX_OP_SUB = REC_SEX_TOK_SUB"
| "op_tok REC_SEX_OP_ADD = REC_SEX_TOK_ADD"
| "op_tok REC_SEX_OP_MUL = REC_SEX_TOK_MUL"
| "op_tok REC_SEX_OP_DIV = REC_SEX_TOK_DIV"
| "op_tok REC_SEX_OP_MOD = REC_SEX_TOK_MOD"
| "op_tok REC_SEX_OP_MAT = REC_SEX_TOK_MAT"
| "op_tok REC_SEX_OP_CONCAT = REC_SEX_TOK_AMP"
| "op_tok REC_SEX_OP_NOT = REC_SEX_TOK_NOT"
| "op_tok REC_SEX_OP_SHA = REC_SEX_TOK_SHARP"
| "op_tok REC_SEX_OP_COND = REC_SEX_TOK_QM"

definition binary :: "rec_sex_op \<Rightarrow> bool" where
  "binary op \<longleftrightarrow> op \<noteq> REC_SEX_OP_NOT \<and> op \<noteq> REC_SEX_OP_SHA \<and> op \<noteq> REC_SEX_OP_COND"

lemma tok_op_tok: "binary op \<Longrightarrow> tok_op (op_tok op) = Some op"
  by (cases op) (simp_all add: binary_def)

lemma binary_level: "binary op \<Longrightarrow> 1 \<le> op_level op \<and> op_level op \<le> 7"
  by (cases op) (simp_all add: binary_def)

lemma tok_op_binary: "tok_op t = Some op \<Longrightarrow> binary op \<and> t = op_tok op"
  by (induction t rule: tok_op.induct) (auto simp: binary_def)

definition parens :: "bool \<Rightarrow> sex_token list \<Rightarrow> sex_token list" where
  "parens b ts = (if b then REC_SEX_TOK_BP # ts @ [REC_SEX_TOK_EP] else ts)"

text \<open>The level the operands of a binary operator are printed at: one more on the side it does not associate to.\<close>

definition left_level :: "rec_sex_op \<Rightarrow> nat" where
  "left_level op = (if op_level op = 1 then 2 else op_level op)"

definition right_level :: "rec_sex_op \<Rightarrow> nat" where
  "right_level op = (if op_level op = 1 then 1 else op_level op + 1)"

fun show_sex :: "nat \<Rightarrow> rec_sex_ast_node \<Rightarrow> sex_token list" where
  "show_sex p (REC_SEX_INT v) = [REC_SEX_TOK_INT v]"
| "show_sex p (REC_SEX_REAL v) = [REC_SEX_TOK_REAL v]"
| "show_sex p (REC_SEX_STR v) = [REC_SEX_TOK_STR v]"
| "show_sex p (REC_SEX_NAME n sub i fx) = [REC_SEX_TOK_NAM n sub i]"
| "show_sex p (REC_SEX_OP op [a]) =
     parens (op_level op < p) (op_tok op # show_sex 9 a)"
| "show_sex p (REC_SEX_OP op [a, b]) =
     parens (op_level op < p) (show_sex (left_level op) a @ op_tok op # show_sex (right_level op) b)"
| "show_sex p (REC_SEX_OP op [a, b, c]) =
     parens (op_level op < p)
       (show_sex 1 a @ REC_SEX_TOK_QM # show_sex 0 b @ REC_SEX_TOK_COLON # show_sex 0 c)"
| "show_sex p (REC_SEX_OP op cs) = []"

text \<open>The trees the grammar builds.\<close>

fun sex_wf :: "rec_sex_ast_node \<Rightarrow> bool" where
  "sex_wf (REC_SEX_NAME n sub i fx) = (fx = None)"
| "sex_wf (REC_SEX_OP op [a]) =
     (op = REC_SEX_OP_NOT \<and> sex_wf a \<or> op = REC_SEX_OP_SHA \<and> (\<exists>n sub i. a = REC_SEX_NAME n sub i None))"
| "sex_wf (REC_SEX_OP op [a, b]) =
     (binary op \<and> sex_wf a \<and> sex_wf b \<and> (op = REC_SEX_OP_MAT \<longrightarrow> \<not> int_node a \<and> \<not> int_node b))"
| "sex_wf (REC_SEX_OP op [a, b, c]) = (op = REC_SEX_OP_COND \<and> sex_wf a \<and> sex_wf b \<and> sex_wf c)"
| "sex_wf (REC_SEX_OP op cs) = False"
| "sex_wf _ = True"

section \<open>Reading back\<close>

text \<open>A stack on which an expression of level at least \<open>p\<close> can be read completely.\<close>

definition ctx_ok :: "sex_sym list \<Rightarrow> nat \<Rightarrow> bool" where
  "ctx_ok st p \<longleftrightarrow>
     (case st of
        [] \<Rightarrow> True
      | Exp e # _ \<Rightarrow> False
      | Term t # _ \<Rightarrow>
          t \<in> {REC_SEX_TOK_BP, REC_SEX_TOK_QM, REC_SEX_TOK_COLON}
          \<or> t = REC_SEX_TOK_NOT \<and> 9 \<le> p
          \<or> (\<exists>op. tok_op t = Some op \<and> (op_level op < p \<or> op_level op = 1 \<and> p = 1)))"

text \<open>A next token that does not extend an expression of level \<open>l\<close>.\<close>

definition la_ok :: "nat \<Rightarrow> sex_token list \<Rightarrow> bool" where
  "la_ok l ts \<longleftrightarrow>
     (case lookahead ts of
        None \<Rightarrow> True
      | Some t \<Rightarrow>
          (t = REC_SEX_TOK_QM \<longrightarrow> 0 < l)
          \<and> (\<forall>op. tok_op t = Some op \<longrightarrow> op_level op < l \<or> op_level op = l \<and> l \<noteq> 1))"

definition node_level :: "nat \<Rightarrow> rec_sex_ast_node \<Rightarrow> nat" where
  "node_level p e = (case e of REC_SEX_OP op cs \<Rightarrow> if op_level op < p then 10 else op_level op | _ \<Rightarrow> 10)"

lemma node_level_ge: "p \<le> 10 \<Longrightarrow> p \<le> node_level p e"
  by (auto simp: node_level_def split: rec_sex_ast_node.splits)

lemma la_ok_mono: "la_ok l ts \<Longrightarrow> l \<le> l' \<Longrightarrow> la_ok l' ts"
  by (auto simp: la_ok_def split: option.splits)

lemma la_ok_high: "9 \<le> l \<Longrightarrow> la_ok l ts"
  using binary_level tok_op_binary by (fastforce simp: la_ok_def split: option.splits)

lemma ctx_ok_mono: "ctx_ok st p \<Longrightarrow> p \<le> q \<Longrightarrow> ctx_ok st q"
  by (auto simp: ctx_ok_def split: list.splits sex_sym.splits)

lemma tok_op_special [simp]:
  "tok_op t = Some op \<Longrightarrow> t \<noteq> REC_SEX_TOK_NOT \<and> t \<noteq> REC_SEX_TOK_COLON \<and> t \<noteq> REC_SEX_TOK_QM
     \<and> t \<noteq> REC_SEX_TOK_SHARP \<and> t \<noteq> REC_SEX_TOK_BP \<and> t \<noteq> REC_SEX_TOK_EP"
  by auto

lemma ctx_operand:
  assumes "ctx_ok st p"
  shows "sex_reduce st la = None" and "sex_shift st t = shift_operand st t"
  using assms
  by (auto simp: ctx_ok_def sex_reduce_def sex_shift_def split: list.splits sex_sym.splits)

lemma parse_shift:
  assumes "ctx_ok st p" and "shift_operand st t = Some st'"
  shows "sexparse st (t # ts) = sexparse st' ts"
  using ctx_operand [OF assms(1)] assms(2) by (subst sexparse.simps) simp

text \<open>An infix token of a level the stack allows is shifted.\<close>

lemma parse_infix:
  assumes "ctx_ok st p" and "tok_op t = Some op" and "p \<le> op_level op"
  shows "sexparse (Exp a # st) (t # ts) = sexparse (Term t # Exp a # st) ts"
proof -
  have "op_level op \<le> 7" using assms(2) tok_op_binary binary_level by blast
  then have "sex_reduce (Exp a # st) (lookahead (t # ts)) = None"
    using assms by (auto simp: ctx_ok_def sex_reduce_def lookahead_def reduce_before_def
        split: list.splits sex_sym.splits)
  then show ?thesis using assms(2) by (subst sexparse.simps) (simp add: sex_shift_def)
qed

lemma parse_question:
  assumes "ctx_ok st 0"
  shows "sexparse (Exp a # st) (REC_SEX_TOK_QM # ts) = sexparse (Term REC_SEX_TOK_QM # Exp a # st) ts"
proof -
  have "sex_reduce (Exp a # st) (lookahead (REC_SEX_TOK_QM # ts)) = None"
    using assms by (auto simp: ctx_ok_def sex_reduce_def lookahead_def split: list.splits sex_sym.splits)
  then show ?thesis by (subst sexparse.simps) (simp add: sex_shift_def)
qed

lemma parse_colon:
  "sexparse (Exp b # Term REC_SEX_TOK_QM # st) (REC_SEX_TOK_COLON # ts) =
   sexparse (Term REC_SEX_TOK_COLON # Exp b # Term REC_SEX_TOK_QM # st) ts"
proof -
  have "sex_reduce (Exp b # Term REC_SEX_TOK_QM # st) (lookahead (REC_SEX_TOK_COLON # ts)) = None"
    by (auto simp: sex_reduce_def split: list.splits sex_sym.splits)
  then show ?thesis by (subst sexparse.simps) (simp add: sex_shift_def)
qed

lemma parse_close:
  "sexparse (Exp e # Term REC_SEX_TOK_BP # st) (REC_SEX_TOK_EP # ts) = sexparse (Exp e # st) ts"
proof -
  have "sex_reduce (Exp e # Term REC_SEX_TOK_BP # st) (lookahead (REC_SEX_TOK_EP # ts)) = None"
    by (auto simp: sex_reduce_def split: list.splits sex_sym.splits)
  then show ?thesis by (subst sexparse.simps) (simp add: sex_shift_def)
qed

lemma reduce_binary:
  assumes "tok_op t = Some op" and "la_ok (op_level op) ts" and "op = REC_SEX_OP_MAT \<longrightarrow> \<not> int_node a \<and> \<not> int_node b"
  shows "sexparse (Exp b # Term t # Exp a # st) ts = sexparse (Exp (REC_SEX_OP op [a, b]) # st) ts"
proof -
  have "reduce_before op (lookahead ts)"
    using assms(2) by (auto simp: la_ok_def reduce_before_def split: option.splits)
  then have "sex_reduce (Exp b # Term t # Exp a # st) (lookahead ts) = Some (Some (Exp (REC_SEX_OP op [a, b]) # st))"
    using assms(1,3) by (auto simp: sex_reduce_def CREATE_NODE_OP2_def REC_SEX_AST_MAX_CHILDREN_def)
  then show ?thesis by (subst sexparse.simps) simp
qed

lemma reduce_not:
  "sexparse (Exp a # Term REC_SEX_TOK_NOT # st) ts = sexparse (Exp (REC_SEX_OP REC_SEX_OP_NOT [a]) # st) ts"
  by (subst sexparse.simps) (simp add: sex_reduce_def CREATE_NODE_OP1_def REC_SEX_AST_MAX_CHILDREN_def)

lemma reduce_cond:
  assumes "la_ok 0 ts"
  shows "sexparse (Exp c # Term REC_SEX_TOK_COLON # Exp b # Term REC_SEX_TOK_QM # Exp a # st) ts =
    sexparse (Exp (REC_SEX_OP REC_SEX_OP_COND [a, b, c]) # st) ts"
proof -
  have "lookahead ts \<noteq> Some REC_SEX_TOK_QM \<and> Option.bind (lookahead ts) tok_op = None"
  proof (cases "lookahead ts")
    case (Some t)
    have "tok_op t \<noteq> Some op" for op
      using assms Some tok_op_binary [of t op] binary_level [of op] by (auto simp: la_ok_def)
    with assms Some show ?thesis by (auto simp: la_ok_def)
  qed simp
  then show ?thesis
    by (subst sexparse.simps) (simp add: sex_reduce_def CREATE_NODE_OP3_def REC_SEX_AST_MAX_CHILDREN_def)
qed

text \<open>One operator, given that its operands are read back.\<close>

lemma parse_binary:
  assumes wf: "binary op" "op = REC_SEX_OP_MAT \<longrightarrow> \<not> int_node a \<and> \<not> int_node b"
    and st: "ctx_ok st p" "p \<le> op_level op" and la: "la_ok (op_level op) ts"
    and a: "\<And>st ts. ctx_ok st (left_level op) \<Longrightarrow> la_ok (node_level (left_level op) a) ts \<Longrightarrow>
      sexparse st (show_sex (left_level op) a @ ts) = sexparse (Exp a # st) ts"
    and b: "\<And>st ts. ctx_ok st (right_level op) \<Longrightarrow> la_ok (node_level (right_level op) b) ts \<Longrightarrow>
      sexparse st (show_sex (right_level op) b @ ts) = sexparse (Exp b # st) ts"
  shows "sexparse st (show_sex (left_level op) a @ op_tok op # show_sex (right_level op) b @ ts) =
    sexparse (Exp (REC_SEX_OP op [a, b]) # st) ts"
proof -
  let ?l = "op_level op"
  note t = tok_op_tok [OF wf(1)] and lev = binary_level [OF wf(1)]
  have "?l \<le> left_level op" "left_level op \<le> 10" "?l \<le> right_level op" "right_level op \<le> 10"
    using lev by (auto simp: left_level_def right_level_def)
  note levels = this node_level_ge [OF this(2), of a] node_level_ge [OF this(4), of b]
  have "la_ok (node_level (left_level op) a) (op_tok op # show_sex (right_level op) b @ ts)"
    using levels t by (auto simp: la_ok_def lookahead_def left_level_def split: if_splits)
  then have "sexparse st (show_sex (left_level op) a @ op_tok op # show_sex (right_level op) b @ ts) =
      sexparse (Exp a # st) (op_tok op # show_sex (right_level op) b @ ts)"
    using st levels(1) by (intro a) (rule ctx_ok_mono [of _ p], auto)
  also have "\<dots> = sexparse (Term (op_tok op) # Exp a # st) (show_sex (right_level op) b @ ts)"
    by (rule parse_infix [OF st(1) t st(2)])
  also have "\<dots> = sexparse (Exp b # Term (op_tok op) # Exp a # st) ts"
    using t levels by (intro b la_ok_mono [OF la]) (auto simp: ctx_ok_def right_level_def)
  also have "\<dots> = sexparse (Exp (REC_SEX_OP op [a, b]) # st) ts"
    by (rule reduce_binary [OF t la wf(2)])
  finally show ?thesis .
qed

lemma parse_parens:
  assumes "ctx_ok st p" and "\<And>st ts. ctx_ok st 0 \<Longrightarrow> la_ok 0 ts \<Longrightarrow> sexparse st (body @ ts) = sexparse (Exp e # st) ts"
  shows "sexparse st (parens True body @ ts) = sexparse (Exp e # st) ts"
proof -
  have "sexparse st (parens True body @ ts) = sexparse (Term REC_SEX_TOK_BP # st) (body @ REC_SEX_TOK_EP # ts)"
    using parse_shift [OF assms(1), of REC_SEX_TOK_BP] by (simp add: parens_def shift_operand_def)
  also have "\<dots> = sexparse (Exp e # Term REC_SEX_TOK_BP # st) (REC_SEX_TOK_EP # ts)"
    by (rule assms(2)) (simp_all add: ctx_ok_def la_ok_def lookahead_def)
  also have "\<dots> = sexparse (Exp e # st) ts" by (rule parse_close)
  finally show ?thesis .
qed

text \<open>An operator printed at level \<open>p\<close>, from the same without parentheses.\<close>

lemma parse_level:
  assumes "ctx_ok st p" and "la_ok (node_level p (REC_SEX_OP op cs)) ts"
    and "\<And>st q ts. ctx_ok st q \<Longrightarrow> q \<le> op_level op \<Longrightarrow> la_ok (op_level op) ts \<Longrightarrow>
      sexparse st (body @ ts) = sexparse (Exp e # st) ts"
  shows "sexparse st (parens (op_level op < p) body @ ts) = sexparse (Exp e # st) ts"
proof (cases "op_level op < p")
  case True
  have "sexparse st' (body @ us) = sexparse (Exp e # st') us" if "ctx_ok st' 0" "la_ok 0 us" for st' us
    using that by (intro assms(3) [of st' 0]) (auto intro: la_ok_mono)
  with True show ?thesis using parse_parens [OF assms(1)] by simp
next
  case False
  with assms show ?thesis by (auto simp: parens_def node_level_def)
qed

lemma sexparse_show_sex:
  "sex_wf e \<Longrightarrow> ctx_ok st p \<Longrightarrow> la_ok (node_level p e) ts \<Longrightarrow> sexparse st (show_sex p e @ ts) = sexparse (Exp e # st) ts"
proof (induction p e arbitrary: st ts rule: show_sex.induct)
  case (5 p op a)
  then consider "op = REC_SEX_OP_NOT" "sex_wf a" | n sub i where "op = REC_SEX_OP_SHA" "a = REC_SEX_NAME n sub i None"
    by auto
  then show ?case
  proof cases
    case 1
    have "sexparse st' (REC_SEX_TOK_NOT # show_sex 9 a @ us) = sexparse (Exp (REC_SEX_OP REC_SEX_OP_NOT [a]) # st') us"
      if "ctx_ok st' q" for st' q us
    proof -
      have "sexparse st' (REC_SEX_TOK_NOT # show_sex 9 a @ us) = sexparse (Term REC_SEX_TOK_NOT # st') (show_sex 9 a @ us)"
        by (rule parse_shift [OF that]) (simp add: shift_operand_def)
      also have "\<dots> = sexparse (Exp a # Term REC_SEX_TOK_NOT # st') us"
        using 1 node_level_ge [of 9 a] by (intro 5) (auto simp: ctx_ok_def intro: la_ok_high)
      also have "\<dots> = sexparse (Exp (REC_SEX_OP REC_SEX_OP_NOT [a]) # st') us" by (rule reduce_not)
      finally show ?thesis .
    qed
    with 1 show ?thesis using parse_level [OF 5(3,4)] by simp
  next
    case 2
    have "sexparse st' (REC_SEX_TOK_SHARP # REC_SEX_TOK_NAM n sub i # us) =
        sexparse (Exp (REC_SEX_OP REC_SEX_OP_SHA [a]) # st') us" if "ctx_ok st' q" for st' q us
    proof -
      have "sexparse st' (REC_SEX_TOK_SHARP # REC_SEX_TOK_NAM n sub i # us) =
          sexparse (Term REC_SEX_TOK_SHARP # st') (REC_SEX_TOK_NAM n sub i # us)"
        by (rule parse_shift [OF that]) (simp add: shift_operand_def)
      also have "\<dots> = sexparse (Exp (REC_SEX_OP REC_SEX_OP_SHA [a]) # st') us"
        using 2 by (subst sexparse.simps)
          (simp add: sex_reduce_def sex_shift_def CREATE_NODE_OP1_def REC_SEX_AST_MAX_CHILDREN_def)
      finally show ?thesis .
    qed
    with 2 show ?thesis using parse_level [OF 5(3,4)] by simp
  qed
next
  case (6 p op a b)
  then have wf: "binary op" "sex_wf a" "sex_wf b" "op = REC_SEX_OP_MAT \<longrightarrow> \<not> int_node a \<and> \<not> int_node b" by auto
  show ?case
    using parse_level [OF 6(4,5), of "show_sex (left_level op) a @ op_tok op # show_sex (right_level op) b"]
      parse_binary [OF wf(1,4) _ _ _ 6(1) [OF wf(2)] 6(2) [OF wf(3)]] by simp
next
  case (7 p op a b c)
  then have wf: "op = REC_SEX_OP_COND" "sex_wf a" "sex_wf b" "sex_wf c" by auto
  have body: "sexparse st' ((show_sex 1 a @ REC_SEX_TOK_QM # show_sex 0 b @ REC_SEX_TOK_COLON # show_sex 0 c) @ us) =
      sexparse (Exp (REC_SEX_OP REC_SEX_OP_COND [a, b, c]) # st') us" if "ctx_ok st' 0" "la_ok 0 us" for st' us
  proof -
    let ?q = "REC_SEX_TOK_QM # show_sex 0 b @ REC_SEX_TOK_COLON # show_sex 0 c @ us"
    have "sexparse st' (show_sex 1 a @ ?q) = sexparse (Exp a # st') ?q"
      using that wf node_level_ge [of 1 a]
      by (intro 7(1)) (auto simp: la_ok_def lookahead_def intro: ctx_ok_mono)
    also have "\<dots> = sexparse (Term REC_SEX_TOK_QM # Exp a # st') (show_sex 0 b @ REC_SEX_TOK_COLON # show_sex 0 c @ us)"
      by (rule parse_question [OF that(1)])
    also have "\<dots> = sexparse (Exp b # Term REC_SEX_TOK_QM # Exp a # st') (REC_SEX_TOK_COLON # show_sex 0 c @ us)"
      using wf by (intro 7(2)) (auto simp: ctx_ok_def la_ok_def lookahead_def)
    also have "\<dots> = sexparse (Term REC_SEX_TOK_COLON # Exp b # Term REC_SEX_TOK_QM # Exp a # st') (show_sex 0 c @ us)"
      by (rule parse_colon)
    also have "\<dots> = sexparse (Exp c # Term REC_SEX_TOK_COLON # Exp b # Term REC_SEX_TOK_QM # Exp a # st') us"
      using wf that(2) by (intro 7(3)) (auto simp: ctx_ok_def intro: la_ok_mono)
    also have "\<dots> = sexparse (Exp (REC_SEX_OP REC_SEX_OP_COND [a, b, c]) # st') us"
      by (rule reduce_cond [OF that(2)])
    finally show ?thesis by simp
  qed
  show ?case using parse_level [OF 7(5,6), of "show_sex 1 a @ REC_SEX_TOK_QM # show_sex 0 b @ REC_SEX_TOK_COLON # show_sex 0 c"]
    body wf(1) by simp
qed (auto intro!: parse_shift simp: shift_operand_def)

lemma sexparse_print: "sex_wf e \<Longrightarrow> sexparse [] (show_sex 0 e) = Some e"
proof -
  assume "sex_wf e"
  then have "sexparse [] (show_sex 0 e @ []) = sexparse [Exp e] []"
    by (intro sexparse_show_sex) (simp_all add: ctx_ok_def la_ok_def lookahead_def)
  also have "\<dots> = Some e" by (subst sexparse.simps) (simp add: sex_reduce_def)
  finally show ?thesis by simp
qed

section \<open>What the parser builds\<close>

definition stack_wf :: "sex_sym list \<Rightarrow> bool" where
  "stack_wf st \<longleftrightarrow> (\<forall>e. Exp e \<in> set st \<longrightarrow> sex_wf e)"

lemma stack_wf_simps [simp]:
  "stack_wf []" "stack_wf (Exp e # st) \<longleftrightarrow> sex_wf e \<and> stack_wf st" "stack_wf (Term t # st) \<longleftrightarrow> stack_wf st"
  by (auto simp: stack_wf_def)

lemma sex_reduce_wf: "sex_reduce st la = Some (Some st') \<Longrightarrow> stack_wf st \<Longrightarrow> stack_wf st'"
  using tok_op_binary
  by (auto simp: sex_reduce_def CREATE_NODE_OP1_def CREATE_NODE_OP2_def CREATE_NODE_OP3_def REC_SEX_AST_MAX_CHILDREN_def
      split: list.splits sex_sym.splits if_splits option.splits)

lemma sex_shift_wf: "sex_shift st t = Some st' \<Longrightarrow> stack_wf st \<Longrightarrow> stack_wf st'"
  by (auto simp: sex_shift_def shift_operand_def CREATE_NODE_OP1_def REC_SEX_AST_MAX_CHILDREN_def
      split: list.splits sex_sym.splits if_splits sex_token.splits)

lemma sexparse_wf: "sexparse st ts = Some e \<Longrightarrow> stack_wf st \<Longrightarrow> sex_wf e"
proof (induction st ts rule: sexparse.induct)
  case (1 st ts)
  note IH = 1(1,2) and prems = 1(3,4)
  show ?case
  proof (cases "sex_reduce st (lookahead ts)")
    case (Some r)
    with prems obtain st' where "sex_reduce st (lookahead ts) = Some (Some st')" "sexparse st' ts = Some e"
      by (subst (asm) sexparse.simps) (auto split: option.splits)
    with IH(2) prems(2) sex_reduce_wf show ?thesis by blast
  next
    case None
    show ?thesis
    proof (cases ts)
      case Nil
      with None prems show ?thesis
        by (subst (asm) sexparse.simps) (auto split: list.splits sex_sym.splits)
    next
      case (Cons t us)
      with None prems obtain st' where "sex_shift st t = Some st'" "sexparse st' us = Some e"
        by (subst (asm) sexparse.simps) (auto split: option.splits)
      with IH(1) [OF None Cons] prems(2) sex_shift_wf show ?thesis by blast
    qed
  qed
qed

text \<open>
  C33. The parser reads a printed tree back exactly when the tree is one the grammar can build:
  the printed form has only the parentheses the precedences and associativities of the
  grammar ask for, and no other tree is ever the result of parsing.
\<close>

theorem sex_print_parse: "sexparse [] (show_sex 0 e) = Some e \<longleftrightarrow> sex_wf e"
  using sexparse_print [of e] sexparse_wf [of "[]" "show_sex 0 e" e] by auto

end
