(* ===== verification/Rec_Sex_Eval_Laws.thy ===== *)
theory Rec_Sex_Eval_Laws
  imports Rec_Sex_Eval Rec_Sex_Laws Rec_Roundtrip
begin

text \<open>
  Evaluation. A value depends only on the names and values of the fields of the record, not on
  marks or locations. Conditions (comparisons of names and literals, combined by the logical
  operators) never run into undefined behaviour. On a record with several fields of a
  name, \<open>rec_sex_eval\<close> holds when the expression holds for the record or for one of the choices
  of a single field of such a name.
\<close>

section \<open>What an evaluation depends on\<close>

definition fkeys :: "rec_record \<Rightarrow> (string \<times> string) list" where
  "fkeys r = map (\<lambda>f. (field_name f, field_value f)) (map snd (rec_record_fields r))"

lemma named_values:
  "map snd (filter (\<lambda>(m, v). m = n) (fkeys r)) =
   map (\<lambda>(i, f). field_value f) (filter (\<lambda>(i, f). field_name f = n) (rec_record_fields r))"
  by (simp add: fkeys_def filter_map comp_def case_prod_beta')

lemma value_by_name:
  "(case rec_record_get_field_by_name r n k of Some (i, f) \<Rightarrow> field_value f | None \<Rightarrow> []) =
   (let vs = map snd (filter (\<lambda>(m, v). m = n) (fkeys r)) in if k < length vs then vs ! k else [])"
  unfolding named_values rec_record_get_field_by_name_eq by (simp add: Let_def case_prod_beta')

lemma num_by_name: "rec_record_get_num_fields_by_name r n = length (filter (\<lambda>(m, v). m = n) (fkeys r))"
  by (simp add: rec_record_get_num_fields_by_name_def rec_field_name_equal_p_def fkeys_def filter_map comp_def case_prod_beta')

lemma eval_name_keys: "fkeys r = fkeys r' \<Longrightarrow> eval_name r n sub i fx = eval_name r' n sub i fx"
  unfolding eval_name_def value_by_name by (cases fx) simp_all

lemma eval_hash_keys: "fkeys r = fkeys r' \<Longrightarrow> eval_hash r cs = eval_hash r' cs"
  by (auto simp: eval_hash_def num_by_name split: list.splits rec_sex_ast_node.splits)

lemma eval_keys:
  "fkeys r = fkeys r' \<Longrightarrow> rec_sex_eval_node env ci r e = rec_sex_eval_node env ci r' e"
  "fkeys r = fkeys r' \<Longrightarrow> eval_children env ci r es = eval_children env ci r' es"
proof (induction env ci r e and env ci r es rule: rec_sex_eval_node_eval_children.induct)
  case (4 env ci r n sub i fx)
  then show ?case using eval_name_keys [of r r'] by simp
next
  case (5 env ci r op cs)
  then show ?case using eval_hash_keys [of r r'] by simp
next
  case (7 env ci r c cs)
  then show ?case by (cases "rec_sex_eval_node env ci r' c") (auto split: outcome.splits)
qed simp_all

lemma EXEC_keys: "fkeys r = fkeys r' \<Longrightarrow> EXEC_AST env ci r e = EXEC_AST env ci r' e"
  using eval_keys(1) [of r r'] by (simp add: EXEC_AST_def)

text \<open>Without indexes nothing is fixed, and the tree stays as it is.\<close>

fun no_index :: "rec_sex_ast_node \<Rightarrow> bool" where
  "no_index (REC_SEX_NAME n sub i fx) = (i = -1 \<and> fx = None)"
| "no_index (REC_SEX_OP op cs) = list_all no_index cs"
| "no_index _ = True"

lemma eval_no_index:
  "no_index e \<Longrightarrow> snd (rec_sex_eval_node env ci r e) = e"
  "list_all no_index es \<Longrightarrow> snd (eval_children env ci r es) = es"
proof (induction env ci r e and env ci r es rule: rec_sex_eval_node_eval_children.induct)
  case (4 env ci r n sub i fx)
  then show ?case by (simp add: eval_name_def Let_def)
next
  case (5 env ci r op cs)
  then show ?case by (auto split: prod.splits outcome.splits)
next
  case (7 env ci r c cs)
  then show ?case by (auto split: prod.splits outcome.splits)
qed simp_all

lemma unfix_no_index: "no_index e \<Longrightarrow> rec_sex_ast_node_unfix e = e"
proof (induction e rule: rec_sex_ast_node_unfix.induct)
  case (1 op cs)
  then show ?case by (auto simp: list_all_iff intro: map_idI)
qed auto

lemma EXEC_no_index: "no_index e \<Longrightarrow> EXEC_AST env ci r e = (fst (EXEC_AST env ci r e), e)"
  using eval_no_index(1) [of e env ci r] by (simp add: EXEC_AST_def case_prod_beta)

section \<open>Conditions are defined\<close>

fun operand :: "rec_sex_ast_node \<Rightarrow> bool" where
  "operand (REC_SEX_INT v) = (v \<noteq> None)"
| "operand (REC_SEX_REAL v) = (v \<noteq> None)"
| "operand (REC_SEX_STR s) = True"
| "operand (REC_SEX_NAME n sub i fx) = True"
| "operand (REC_SEX_OP op cs) = (op = REC_SEX_OP_SHA \<and> (\<exists>n sub i fx. cs = [REC_SEX_NAME n sub i fx]))"

definition comparison :: "rec_sex_op \<Rightarrow> bool" where
  "comparison op \<longleftrightarrow> op \<in> {REC_SEX_OP_EQL, REC_SEX_OP_NEQ, REC_SEX_OP_LT, REC_SEX_OP_LTE, REC_SEX_OP_GT, REC_SEX_OP_GTE,
     REC_SEX_OP_MAT, REC_SEX_OP_BEFORE, REC_SEX_OP_AFTER, REC_SEX_OP_SAMETIME}"

text \<open>The left operand of a comparison must not be a real literal.\<close>

fun condition :: "rec_sex_ast_node \<Rightarrow> bool" where
  "condition (REC_SEX_OP op [a, b]) =
     (comparison op \<and> operand a \<and> operand b \<and> (\<forall>v. a \<noteq> REC_SEX_REAL v)
      \<or> op \<in> {REC_SEX_OP_AND, REC_SEX_OP_OR, REC_SEX_OP_IMPLIES} \<and> condition a \<and> condition b)"
| "condition (REC_SEX_OP op [a]) = (op = REC_SEX_OP_NOT \<and> condition a)"
| "condition _ = False"

definition truth_value :: "rec_sex_val outcome \<Rightarrow> bool" where
  "truth_value v \<longleftrightarrow> v \<in> {Ok (REC_SEX_VAL_INT 0), Ok (REC_SEX_VAL_INT 1), Fail}"

lemma operand_value:
  assumes "operand e"
  obtains v e' where "rec_sex_eval_node env ci r e = (Ok v, e')" "(\<forall>x. e \<noteq> REC_SEX_REAL x) \<longrightarrow> (\<forall>x. v \<noteq> REC_SEX_VAL_REAL x)"
proof (cases e)
  case (REC_SEX_NAME n sub i fx)
  have "\<exists>s e'. eval_name r n sub i fx = (Ok (REC_SEX_VAL_STR s), e')" by (cases fx) (simp_all add: eval_name_def Let_def)
  with REC_SEX_NAME show ?thesis using that by fastforce
qed (use assms that in \<open>auto simp: literal_def eval_hash_def split: option.splits\<close>)

lemma truth_bool_val [simp]: "truth_value (bool_val b)"
  by (simp add: truth_value_def bool_val_def)

lemma truth_Fail [simp]: "truth_value Fail"
  by (simp add: truth_value_def)

lemma both_truth:
  "a \<noteq> Undef \<Longrightarrow> b \<noteq> Undef \<Longrightarrow> (\<And>x y. truth_value (f x y)) \<Longrightarrow> truth_value (both a b f)"
  by (cases a; cases b) simp_all

lemma ATOD_defined: "ATOD_VAL ext v \<noteq> Undef"
  by (simp add: ATOD_VAL_def split: rec_sex_val.splits option.splits)

lemma ATOTS_defined: "ATOTS_VAL ext v \<noteq> Undef"
  by (simp add: ATOTS_VAL_def split: rec_sex_val.splits option.splits)

lemma ATOI_defined: "\<forall>x. v \<noteq> REC_SEX_VAL_REAL x \<Longrightarrow> ATOI_VAL v \<noteq> Undef"
  by (simp add: ATOI_VAL_def split: rec_sex_val.splits option.splits)

lemma not_real_right:
  "\<not> rec_sex_op_real_p ext v1 v2 \<Longrightarrow> \<forall>x. v1 \<noteq> REC_SEX_VAL_REAL x \<Longrightarrow> \<forall>x. v2 \<noteq> REC_SEX_VAL_REAL x"
  by (auto simp: rec_sex_op_real_p_def Let_def split: rec_sex_val.splits if_splits)

lemma num_op_truth:
  assumes "\<forall>x. v1 \<noteq> REC_SEX_VAL_REAL x" and "\<And>x y. truth_value (fr x y)" and "\<And>x y. truth_value (fi x y)"
  shows "truth_value (num_op ext fr fi v1 v2)"
  using assms not_real_right [of ext v1 v2]
  by (auto simp: num_op_def intro!: both_truth ATOD_defined ATOI_defined)

lemma comparison_truth:
  "comparison op \<Longrightarrow> \<forall>x. v1 \<noteq> REC_SEX_VAL_REAL x \<Longrightarrow> truth_value (binary_op env ci op v1 v2)"
  unfolding comparison_def
  by (auto simp: time_op_def split: rec_sex_val.splits intro!: num_op_truth both_truth ATOTS_defined)

lemma logical_truth:
  assumes "op \<in> {REC_SEX_OP_AND, REC_SEX_OP_OR, REC_SEX_OP_IMPLIES}" and "\<forall>x. v1 \<noteq> REC_SEX_VAL_REAL x" "\<forall>x. v2 \<noteq> REC_SEX_VAL_REAL x"
  shows "truth_value (binary_op env ci op v1 v2)"
  using assms by (auto simp: int_op_def intro!: both_truth ATOI_defined)

lemma truth_Ok: "truth_value (Ok v) \<Longrightarrow> \<forall>x. v \<noteq> REC_SEX_VAL_REAL x"
  by (auto simp: truth_value_def)

lemma condition_truth: "condition e \<Longrightarrow> truth_value (fst (rec_sex_eval_node env ci r e))"
proof (induction e rule: condition.induct)
  case (1 op a b)
  then consider "comparison op" "operand a" "operand b" "\<forall>v. a \<noteq> REC_SEX_REAL v"
    | "op \<in> {REC_SEX_OP_AND, REC_SEX_OP_OR, REC_SEX_OP_IMPLIES}" "condition a" "condition b" by auto
  then show ?case
  proof cases
    case 1
    obtain v a' where a: "rec_sex_eval_node env ci r a = (Ok v, a')" "\<forall>x. v \<noteq> REC_SEX_VAL_REAL x"
      using 1(4) operand_value [OF 1(2), of env ci r] by metis
    obtain w b' where b: "rec_sex_eval_node env ci r b = (Ok w, b')"
      using operand_value [OF 1(3), of env ci r] by metis
    have "op \<noteq> REC_SEX_OP_SHA" using 1(1) by (auto simp: comparison_def)
    with a b show ?thesis using comparison_truth [OF 1(1) a(2)] by (simp add: apply_op_def)
  next
    case 2
    have ta: "truth_value (fst (rec_sex_eval_node env ci r a))" and tb: "truth_value (fst (rec_sex_eval_node env ci r b))"
      using 2 "1.IH" by auto
    have "op \<noteq> REC_SEX_OP_SHA" using 2(1) by auto
    moreover have "fst (rec_sex_eval_node env ci r a) \<noteq> Undef" "fst (rec_sex_eval_node env ci r b) \<noteq> Undef"
      using ta tb by (auto simp: truth_value_def)
    ultimately show ?thesis
      using ta tb logical_truth [OF 2(1)] truth_Ok
      by (auto simp: apply_op_def split: prod.splits outcome.splits)
  qed
next
  case (2 op a)
  then have ta: "truth_value (fst (rec_sex_eval_node env ci r a))" and "op = REC_SEX_OP_NOT" by auto
  then show ?case
    by (auto simp: apply_op_def ATOI_VAL_def truth_value_def bool_val_def split: prod.splits outcome.splits)
qed simp_all

lemma condition_defined: "condition e \<Longrightarrow> fst (EXEC_AST env ci r e) \<noteq> None"
  using condition_truth [of e env ci r]
  by (auto simp: EXEC_AST_def truth_value_def split: prod.splits)

section \<open>Marks\<close>

abbreviation unmarked :: "rdata mset_elem \<Rightarrow> rdata mset_elem" where
  "unmarked \<equiv> set_elem_mark 0"

lemma reset_marks_elems:
  assumes "rec_record_wf r"
  shows "record_mset (rec_record_reset_marks r) = (record_mset r)\<lparr>mset_elems := map unmarked (mset_elems (record_mset r))\<rparr>"
proof -
  have "list_all record_elem_ok (mset_elems (record_mset r))" using assms by (simp add: rec_record_wf_def record_mset_ok_def)
  then have "map (\<lambda>e. if elem_type e = MSET_FIELD then set_elem_mark 0 e else e) (mset_elems (record_mset r))
      = map unmarked (mset_elems (record_mset r))"
    by (auto simp: list_all_iff record_elem_ok_def set_elem_mark_def split: rdata.splits)
  then show ?thesis by (simp add: rec_record_reset_marks_def Let_def)
qed

text \<open>Two records that differ only in the marks of their fields.\<close>

definition same_but_marks :: "rec_record \<Rightarrow> rec_record \<Rightarrow> bool" where
  "same_but_marks r r' \<longleftrightarrow> map unmarked (mset_elems (record_mset r)) = map unmarked (mset_elems (record_mset r'))"

lemma elem_fields_unmarked:
  "map (\<lambda>f. (field_name f, field_value f)) (elem_fields (map unmarked es)) = map (\<lambda>f. (field_name f, field_value f)) (elem_fields es)"
  by (induction es) (auto simp: set_elem_mark_def as_field_def rec_field_set_mark_def split: rdata.splits)

lemma fkeys_elems: "fkeys r = map (\<lambda>f. (field_name f, field_value f)) (elem_fields (mset_elems (record_mset r)))"
  by (simp only: fkeys_def rec_record_fields_elems)

lemma same_but_marks_keys: "same_but_marks r r' \<Longrightarrow> fkeys r = fkeys r'"
  unfolding fkeys_elems same_but_marks_def by (metis elem_fields_unmarked)

lemma elem_mark_ok: "record_elem_ok (set_elem_mark k e) \<longleftrightarrow> record_elem_ok e"
  by (simp add: record_elem_ok_def set_elem_mark_def rec_field_set_mark_def rec_field_wf_def split: rdata.splits)

lemma set_elem_mark_type [simp]: "elem_type (set_elem_mark k e) = elem_type e"
  by (simp add: set_elem_mark_def split: rdata.splits)

lemma record_elems_wf:
  assumes "rec_record_wf r" and "map elem_type es = map elem_type (mset_elems (record_mset r))" and "list_all record_elem_ok es"
  shows "rec_record_wf (r\<lparr>record_mset := (record_mset r)\<lparr>mset_elems := es\<rparr>\<rparr>)"
  using assms recm.retype_ok [of "record_mset r" es] by (simp add: rec_record_wf_def record_mset_ok_typed)

lemma reset_marks_wf: "rec_record_wf r \<Longrightarrow> rec_record_wf (rec_record_reset_marks r)"
proof -
  assume r: "rec_record_wf r"
  then have "list_all record_elem_ok (mset_elems (record_mset r))" by (simp add: rec_record_wf_def record_mset_ok_def)
  then have "list_all record_elem_ok (map unmarked (mset_elems (record_mset r)))"
    by (simp add: list_all_iff elem_mark_ok)
  moreover have "map elem_type (map unmarked (mset_elems (record_mset r))) = map elem_type (mset_elems (record_mset r))"
    by simp
  ultimately have "rec_record_wf (r\<lparr>record_mset := (record_mset r)\<lparr>mset_elems := map unmarked (mset_elems (record_mset r))\<rparr>\<rparr>)"
    using record_elems_wf [OF r] by blast
  then show ?thesis using r reset_marks_elems [OF r]
    by (simp add: rec_record_wf_def rec_record_reset_marks_def Let_def)
qed

lemma mark_field_elems:
  "record_mset (snd (rec_record_mark_field r pos k)) = record_mset r
   \<or> record_mset (snd (rec_record_mark_field r pos k)) =
       (record_mset r)\<lparr>mset_elems := (mset_elems (record_mset r))[pos := set_elem_mark k (mset_elems (record_mset r) ! pos)]\<rparr>"
  by (simp add: rec_record_mark_field_def Let_def)

lemma unmarked_mark: "map unmarked (es[pos := set_elem_mark k (es ! pos)]) = map unmarked es"
proof (cases "pos < length es")
  case True
  have "unmarked (set_elem_mark k e) = unmarked e" for e
    by (simp add: set_elem_mark_def rec_field_set_mark_def split: rdata.splits)
  with True show ?thesis by (metis list_update_id map_update)
qed (simp add: list_update_beyond)

lemma mark_field_ok:
  assumes "rec_record_wf r"
  shows "rec_record_wf (snd (rec_record_mark_field r pos k))" and "same_but_marks (snd (rec_record_mark_field r pos k)) r"
proof -
  let ?es = "mset_elems (record_mset r)"
  have "list_all record_elem_ok ?es" using assms by (simp add: rec_record_wf_def record_mset_ok_def)
  then have "list_all record_elem_ok (?es[pos := set_elem_mark k (?es ! pos)])"
    by (cases "pos < length ?es") (simp_all add: list_all_length nth_list_update elem_mark_ok list_update_beyond)
  moreover have "map elem_type (?es[pos := set_elem_mark k (?es ! pos)]) = map elem_type ?es"
    by (simp add: map_update) (metis list_update_id map_update)
  ultimately have "rec_record_wf (r\<lparr>record_mset := (record_mset r)\<lparr>mset_elems := ?es[pos := set_elem_mark k (?es ! pos)]\<rparr>\<rparr>)"
    using record_elems_wf [OF assms] by blast
  with assms show "rec_record_wf (snd (rec_record_mark_field r pos k))"
    by (simp add: rec_record_mark_field_def Let_def)
  show "same_but_marks (snd (rec_record_mark_field r pos k)) r"
    using mark_field_elems [of r pos k] unmarked_mark [of ?es pos k] by (auto simp: same_but_marks_def)
qed

text \<open>A record with only one of the fields of a name.\<close>

lemma single_field_ok:
  assumes "rec_record_wf r" and "rec_field_wf f"
  shows "\<exists>w. single_field r n f = Some w \<and> rec_record_wf w
    \<and> fkeys w = filter (\<lambda>(m, v). m \<noteq> n) (fkeys r) @ [(field_name f, field_value f)]"
proof -
  let ?w = "rec_record_remove_field_by_name r n (-1)"
  have w: "rec_record_wf ?w" using assms(1) by (rule rec_record_remove_field_by_name_wf)
  then have ok: "record_mset_ok (record_mset ?w)" by (simp add: rec_record_wf_def)
  have e: "record_elem_ok \<lparr>elem_type = MSET_FIELD, elem_data = DField (rec_field_dup f)\<rparr>"
    using assms(2) by (simp add: record_elem_ok_def rec_field_dup_id)
  let ?v = "?w\<lparr>record_mset := snd (rec_mset_append (record_mset ?w) MSET_FIELD (DField (rec_field_dup f)) MSET_ANY)\<rparr>"
  have "single_field r n f = Some ?v" using assms(1) by (simp add: single_field_def rec_record_dup_id Let_def)
  moreover have "rec_record_wf ?v" using w record_append_ok(1) [OF ok e] by (simp add: rec_record_wf_def)
  moreover have "elem_fields (mset_elems (record_mset ?v)) = elem_fields (mset_elems (record_mset ?w)) @ [f]"
    using record_append_ok(2) [OF ok e] assms(2) by (simp add: as_field_def rec_field_dup_id)
  then have "fkeys ?v = fkeys ?w @ [(field_name f, field_value f)]" by (simp add: fkeys_elems)
  moreover have "fkeys ?w = filter (\<lambda>(m, v). m \<noteq> n) (fkeys r)"
    unfolding fkeys_def rec_record_remove_all_fields [OF assms(1)] by (simp add: filter_map comp_def)
  ultimately show ?thesis by auto
qed

section \<open>Choosing single fields\<close>

definition sex_holds :: "sex_env \<Rightarrow> bool \<Rightarrow> rec_sex_ast_node \<Rightarrow> rec_record \<Rightarrow> bool" where
  "sex_holds env ci e r \<longleftrightarrow> (\<exists>s. fst (EXEC_AST env ci r e) = Some (True, s))"

lemma sex_holds_keys: "fkeys r = fkeys r' \<Longrightarrow> sex_holds env ci e r = sex_holds env ci e r'"
  using EXEC_keys [of r r'] by (simp add: sex_holds_def)

lemma EXEC_true: "fst (EXEC_AST env ci r e) = Some (True, s) \<Longrightarrow> s"
  by (auto simp: EXEC_AST_def split: prod.splits outcome.splits rec_sex_val.splits)

text \<open>The expression holds when the only field of a name has a certain value.\<close>

definition choice_holds :: "sex_env \<Rightarrow> bool \<Rightarrow> rec_sex_ast_node \<Rightarrow> (string \<times> string) list \<Rightarrow> string \<Rightarrow> string \<Rightarrow> bool" where
  "choice_holds env ci e ks n v \<longleftrightarrow>
     (\<exists>w. fkeys w = filter (\<lambda>(m, v). m \<noteq> n) ks @ [(n, v)] \<and> sex_holds env ci e w)"

lemma choice_holds_single:
  assumes w: "fkeys w = filter (\<lambda>(m, v). m \<noteq> n) ks @ [(n, v)]"
  shows "choice_holds env ci e ks n v \<longleftrightarrow> sex_holds env ci e w"
proof
  assume "choice_holds env ci e ks n v"
  then obtain w' where w': "fkeys w' = filter (\<lambda>(m, v). m \<noteq> n) ks @ [(n, v)]" "sex_holds env ci e w'"
    unfolding choice_holds_def by blast
  have "fkeys w' = fkeys w" unfolding w w'(1) ..
  from sex_holds_keys [OF this] w'(2) show "sex_holds env ci e w" by blast
next
  assume "sex_holds env ci e w"
  with w show "choice_holds env ci e ks n v" unfolding choice_holds_def by blast
qed

definition marked_names :: "rec_record \<Rightarrow> string set" where
  "marked_names r = field_name ` {f \<in> set (elem_fields (mset_elems (record_mset r))). field_mark f \<noteq> 0}"

lemma map_filter_mem: "x \<in> set (List.map_filter f xs) \<longleftrightarrow> list_ex (\<lambda>d. f d = Some x) xs"
  by (induction xs) (auto simp: map_filter_simps split: option.splits)

lemma field_elem:
  "(if elem_type d = MSET_FIELD then as_field (elem_data d) else None) = Some g \<longleftrightarrow> elem_type d = MSET_FIELD \<and> elem_data d = DField g"
  unfolding as_field_def by (cases "elem_data d") simp_all

lemma elem_fields_mem:
  "g \<in> set (elem_fields es) \<longleftrightarrow> (\<exists>d \<in> set es. elem_type d = MSET_FIELD \<and> elem_data d = DField g)"
  unfolding elem_fields_def map_filter_mem field_elem list_ex_iff ..

lemma as_field_Some [simp]: "as_field d = Some f \<longleftrightarrow> d = DField f"
  by (cases d) (simp_all add: as_field_def)

lemma rec_record_fields_mem:
  "(i, f) \<in> set (rec_record_fields r) \<longleftrightarrow>
   i < length (mset_elems (record_mset r)) \<and> elem_type (mset_elems (record_mset r) ! i) = MSET_FIELD
     \<and> elem_data (mset_elems (record_mset r) ! i) = DField f"
proof -
  have m: "(i, f) \<in> set (List.map_filter (\<lambda>(i, d). map_option (Pair i) (as_field d)) xs) \<longleftrightarrow> (i, DField f) \<in> set xs"
    for xs :: "(nat \<times> rdata) list" by (induction xs) (auto simp: List.map_filter_simps split: option.splits)
  have "(i, d) \<in> set (rec_mset_items MSET_FIELD m) \<longleftrightarrow> i < length (mset_elems m) \<and> elem_type (mset_elems m ! i) = MSET_FIELD \<and> elem_data (mset_elems m ! i) = d"
    for d and m :: "rdata rec_mset" by (force simp: rec_mset_items_def in_set_enumerate_eq)
  then show ?thesis by (simp add: rec_record_fields_def m)
qed

lemma mark_field_names:
  assumes "(pos, f) \<in> set (rec_record_fields r)"
  shows "marked_names (snd (rec_record_mark_field r pos k)) \<subseteq> insert (field_name f) (marked_names r)"
proof
  let ?es = "mset_elems (record_mset r)"
  fix n assume "n \<in> marked_names (snd (rec_record_mark_field r pos k))"
  then obtain g where g: "g \<in> set (elem_fields (mset_elems (record_mset (snd (rec_record_mark_field r pos k)))))"
    "field_mark g \<noteq> 0" "n = field_name g" unfolding marked_names_def by blast
  have f: "elem_data (?es ! pos) = DField f" using assms by (simp add: rec_record_fields_mem)
  have sub: "set (mset_elems (record_mset (snd (rec_record_mark_field r pos k)))) \<subseteq> insert (set_elem_mark k (?es ! pos)) (set ?es)"
    using mark_field_elems [of r pos k] set_update_subset_insert [of ?es pos "set_elem_mark k (?es ! pos)"] by auto
  from g(1) obtain d where d: "elem_type d = MSET_FIELD" "elem_data d = DField g"
    and "d \<in> set (mset_elems (record_mset (snd (rec_record_mark_field r pos k))))"
    unfolding elem_fields_mem by blast
  with sub have d3: "d \<in> set ?es \<or> d = set_elem_mark k (?es ! pos)" by blast
  from d3 show "n \<in> insert (field_name f) (marked_names r)"
  proof
    assume "d \<in> set ?es"
    with d have "g \<in> set (elem_fields ?es)" unfolding elem_fields_mem by blast
    with g(2,3) show ?thesis unfolding marked_names_def by blast
  next
    assume "d = set_elem_mark k (?es ! pos)"
    with d(2) f g(3) show ?thesis by (auto simp: set_elem_mark_def rec_field_set_mark_def)
  qed
qed

lemma field_by_name_Some:
  assumes "rec_record_wf r" and "j < rec_record_get_num_fields_by_name r n"
  shows "\<exists>pos f. rec_record_get_field_by_name r n j = Some (pos, f) \<and> (pos, f) \<in> set (rec_record_fields r)
    \<and> field_name f = n \<and> rec_field_wf f \<and> field_value f = map snd (filter (\<lambda>(m, v). m = n) (fkeys r)) ! j"
proof -
  let ?gs = "filter (\<lambda>(i, f). field_name f = n) (rec_record_fields r)"
  have len: "j < length ?gs"
    using assms(2) by (simp add: rec_record_get_num_fields_by_name_def rec_field_name_equal_p_def)
  obtain pos f where pf: "?gs ! j = (pos, f)" by (cases "?gs ! j")
  then have mem: "(pos, f) \<in> set ?gs" using nth_mem [OF len] by simp
  then have "DField f = elem_data (mset_elems (record_mset r) ! pos)" "pos < length (mset_elems (record_mset r))"
    by (auto simp: rec_record_fields_mem)
  moreover have "list_all record_elem_ok (mset_elems (record_mset r))"
    using assms(1) by (simp add: rec_record_wf_def record_mset_ok_def)
  ultimately have "rec_field_wf f" by (metis list_all_length record_elem_ok_def rdata.case(1))
  then show ?thesis
    using mem pf len by (auto simp: rec_record_get_field_by_name_eq Let_def named_values)
qed

lemma eval_values_ok:
  assumes defd: "\<And>r. fst (EXEC_AST env ci r e) \<noteq> None" and ni: "no_index e" and ks: "fkeys r0 = ks"
  shows "rec_record_wf r \<Longrightarrow> same_but_marks r r0 \<Longrightarrow> \<not> fst res \<Longrightarrow> \<forall>j \<in> set js. j < rec_record_get_num_fields_by_name r n \<Longrightarrow>
    \<exists>res' r'. eval_values env ci n js res e r = Some (res', e, r') \<and> rec_record_wf r' \<and> same_but_marks r' r0
      \<and> (fst res' \<longrightarrow> snd res') \<and> marked_names r' \<subseteq> insert n (marked_names r)
      \<and> (fst res' \<longleftrightarrow> (\<exists>j \<in> set js. choice_holds env ci e ks n (map snd (filter (\<lambda>(m, v). m = n) ks) ! j)))"
proof (induction js arbitrary: res r)
  case Nil
  then show ?case by auto
next
  case (Cons j js)
  have kr: "fkeys r = ks" using Cons.prems(2) ks same_but_marks_keys by simp
  obtain pos f where f: "rec_record_get_field_by_name r n j = Some (pos, f)" "(pos, f) \<in> set (rec_record_fields r)"
    "field_name f = n" "rec_field_wf f" "field_value f = map snd (filter (\<lambda>(m, v). m = n) ks) ! j"
    using field_by_name_Some [OF Cons.prems(1), of j n] Cons.prems(4) kr by auto
  let ?r1 = "snd (rec_record_mark_field r pos 1)" and ?f1 = "rec_field_set_mark f 1"
  have r1: "rec_record_wf ?r1" "same_but_marks ?r1 r" using mark_field_ok [OF Cons.prems(1)] by auto
  then have s1: "same_but_marks ?r1 r0" using Cons.prems(2) by (simp add: same_but_marks_def)
  have k1: "fkeys ?r1 = ks" using s1 ks same_but_marks_keys by simp
  have "rec_field_wf ?f1" using f(4) by (simp add: rec_field_set_wf)
  then obtain w where w: "single_field ?r1 n ?f1 = Some w"
    "fkeys w = filter (\<lambda>(m, v). m \<noteq> n) ks @ [(n, field_value f)]"
    using single_field_ok [OF r1(1), of ?f1 n] k1 f(3) by (auto simp: rec_field_set_mark_def)
  have ch: "choice_holds env ci e ks n (field_value f) \<longleftrightarrow> sex_holds env ci e w"
    by (rule choice_holds_single [OF w(2)])
  obtain res1 where ex: "EXEC_AST env ci w e = (Some res1, e)"
    using defd [of w] EXEC_no_index [OF ni, of env ci w] by (metis not_None_eq prod.collapse)
  have m1: "marked_names ?r1 \<subseteq> insert n (marked_names r)" using mark_field_names [OF f(2)] f(3) by simp
  show ?case
  proof (cases "fst res1")
    case True
    then have "snd res1" using ex EXEC_true [of env ci w e "snd res1"] by (cases res1) simp
    moreover have "sex_holds env ci e w" using ex True by (cases res1) (auto simp: sex_holds_def)
    ultimately show ?thesis using f w ex True r1(1) s1 m1 ch by auto
  next
    case False
    then have nh: "\<not> sex_holds env ci e w" using ex by (cases res1) (auto simp: sex_holds_def)
    have num: "rec_record_get_num_fields_by_name ?r1 n = rec_record_get_num_fields_by_name r n"
      using k1 kr by (simp add: num_by_name)
    from Cons.IH [OF r1(1) s1 False] Cons.prems(4) num obtain res' r' where
      "eval_values env ci n js res1 e ?r1 = Some (res', e, r')" "rec_record_wf r'" "same_but_marks r' r0"
      "fst res' \<longrightarrow> snd res'" "marked_names r' \<subseteq> insert n (marked_names ?r1)"
      "fst res' \<longleftrightarrow> (\<exists>j \<in> set js. choice_holds env ci e ks n (map snd (filter (\<lambda>(m, v). m = n) ks) ! j))"
      by auto
    then show ?thesis using f w ex False nh ch m1 by auto
  qed
qed

text \<open>The names whose fields are tried one at a time.\<close>

definition splits_name :: "rec_sex_ast_node \<Rightarrow> rec_record \<Rightarrow> string \<Rightarrow> bool" where
  "splits_name e r n \<longleftrightarrow>
     rec_record_get_num_fields_by_name r n > 1 \<and> rec_sex_ast_name_p e n (rec_record_get_num_fields_by_name r n)
     \<and> \<not> rec_sex_ast_hash_name_p e n"

lemma splits_name_keys: "fkeys r = fkeys r' \<Longrightarrow> splits_name e r n = splits_name e r' n"
  by (simp add: splits_name_def num_by_name)

definition some_choice :: "sex_env \<Rightarrow> bool \<Rightarrow> rec_sex_ast_node \<Rightarrow> (string \<times> string) list \<Rightarrow> string \<Rightarrow> bool" where
  "some_choice env ci e ks n \<longleftrightarrow> (\<exists>v. (n, v) \<in> set ks \<and> choice_holds env ci e ks n v)"

lemma some_choice_index:
  "some_choice env ci e ks n \<longleftrightarrow>
   (\<exists>j \<in> set [0..<length (filter (\<lambda>(m, v). m = n) ks)]. choice_holds env ci e ks n (map snd (filter (\<lambda>(m, v). m = n) ks) ! j))"
proof -
  let ?vs = "map snd (filter (\<lambda>(m, v). m = n) ks)"
  have "(n, v) \<in> set ks \<longleftrightarrow> v \<in> set ?vs" for v by force
  then have "some_choice env ci e ks n \<longleftrightarrow> (\<exists>v \<in> set ?vs. choice_holds env ci e ks n v)" unfolding some_choice_def by blast
  also have "\<dots> \<longleftrightarrow> (\<exists>j < length ?vs. choice_holds env ci e ks n (?vs ! j))" by (metis in_set_conv_nth)
  finally show ?thesis by auto
qed

lemma same_but_marks_field:
  assumes "same_but_marks r r0" and "(pos, f0) \<in> set (rec_record_fields r0)"
  obtains f where "(pos, f) \<in> set (rec_record_fields r)" "field_name f = field_name f0"
proof -
  let ?es = "mset_elems (record_mset r)" and ?ds = "mset_elems (record_mset r0)"
  have um: "map unmarked ?es = map unmarked ?ds" using assms(1) by (simp add: same_but_marks_def)
  from assms(2) have p: "pos < length ?ds" "elem_type (?ds ! pos) = MSET_FIELD" "elem_data (?ds ! pos) = DField f0"
    by (auto simp: rec_record_fields_mem)
  have len: "pos < length ?es" using um p(1) by (metis length_map)
  have u: "unmarked (?es ! pos) = unmarked (?ds ! pos)" using um p(1) len by (metis nth_map)
  then have t: "elem_type (?es ! pos) = MSET_FIELD" using p(2) set_elem_mark_type by metis
  have d: "elem_data (unmarked (?es ! pos)) = DField (rec_field_set_mark f0 0)"
    unfolding u using p(3) by (simp add: set_elem_mark_def)
  show ?thesis
  proof (cases "elem_data (?es ! pos)")
    case (DField f)
    with d have "rec_field_set_mark f 0 = rec_field_set_mark f0 0" by (simp add: set_elem_mark_def)
    then have "field_name (rec_field_set_mark f 0) = field_name (rec_field_set_mark f0 0)" by simp
    then have "field_name f = field_name f0" by (simp add: rec_field_set_mark_def)
    with that [of f] DField len t show ?thesis by (simp add: rec_record_fields_mem)
  next
    case (DComment c)
    with d show ?thesis by (simp add: set_elem_mark_def)
  qed
qed

lemma eval_fields_ok:
  assumes defd: "\<And>r. fst (EXEC_AST env ci r e) \<noteq> None" and ni: "no_index e" and ks: "fkeys r0 = ks"
  shows "rec_record_wf r \<Longrightarrow> same_but_marks r r0 \<Longrightarrow> \<not> fst res \<Longrightarrow> \<forall>n \<in> marked_names r. \<not> some_choice env ci e ks n \<Longrightarrow>
    set ps \<subseteq> set (rec_record_fields r0) \<Longrightarrow>
    \<exists>res' r'. eval_fields env ci (map fst ps) res e r = Some (res', e, r') \<and> rec_record_wf r' \<and> same_but_marks r' r0
      \<and> (fst res' \<longrightarrow> snd res')
      \<and> (fst res' \<longleftrightarrow> (\<exists>f \<in> snd ` set ps. splits_name e r0 (field_name f) \<and> some_choice env ci e ks (field_name f)))"
proof (induction ps arbitrary: res r)
  case Nil
  then show ?case by auto
next
  case (Cons p ps)
  obtain pos f0 where p: "p = (pos, f0)" by (cases p)
  with Cons.prems(5) have "(pos, f0) \<in> set (rec_record_fields r0)" by simp
  from same_but_marks_field [OF Cons.prems(2) this] obtain f where
    f: "(pos, f) \<in> set (rec_record_fields r)" "field_name f = field_name f0" by blast
  let ?n = "field_name f0" and ?nf = "rec_record_get_num_fields_by_name r (field_name f0)"
  have kr: "fkeys r = ks" using Cons.prems(2) ks same_but_marks_keys by simp
  have at: "as_field (elem_data (mset_elems (record_mset r) ! pos)) = Some f" using f(1) by (simp add: rec_record_fields_mem)
  have sp: "splits_name e r ?n = splits_name e r0 ?n" using splits_name_keys kr ks by simp
  show ?case
  proof (cases "splits_name e r ?n \<and> field_mark f = 0")
    case True
    then have step: "eval_fields env ci (map fst (p # ps)) res e r =
      (case eval_values env ci ?n [0..<?nf] res e r of None \<Rightarrow> None
       | Some (res1, ast1, r1) \<Rightarrow>
           if fst res1 then Some (res1, ast1, r1) else eval_fields env ci (map fst ps) res1 ast1 r1)"
      using at f(2) p by (simp add: splits_name_def)
    have nf: "?nf = length (filter (\<lambda>(m, v). m = ?n) ks)" by (simp add: num_by_name kr)
    have "\<forall>j \<in> set [0..<?nf]. j < ?nf" by simp
    from eval_values_ok [OF defd ni ks Cons.prems(1-3) this] obtain res1 r1 where
      ev: "eval_values env ci ?n [0..<?nf] res e r = Some (res1, e, r1)" "rec_record_wf r1" "same_but_marks r1 r0"
      "fst res1 \<longrightarrow> snd res1" "marked_names r1 \<subseteq> insert ?n (marked_names r)"
      and res1: "fst res1 \<longleftrightarrow> some_choice env ci e ks ?n"
      unfolding some_choice_index nf by blast
    show ?thesis
    proof (cases "fst res1")
      case True
      then show ?thesis using step ev res1 \<open>splits_name e r ?n \<and> field_mark f = 0\<close> sp p by auto
    next
      case False
      with res1 ev(5) Cons.prems(4) have "\<forall>n \<in> marked_names r1. \<not> some_choice env ci e ks n" by auto
      from Cons.IH [OF ev(2,3) False this] Cons.prems(5) show ?thesis using step ev(1) False res1 p by auto
    qed
  next
    case False
    then have step: "eval_fields env ci (map fst (p # ps)) res e r = eval_fields env ci (map fst ps) res e r"
      using at f(2) p by (auto simp: splits_name_def)
    have "f \<in> set (elem_fields (mset_elems (record_mset r)))"
      using f(1) unfolding rec_record_fields_elems [symmetric] by force
    then have "field_mark f \<noteq> 0 \<longrightarrow> ?n \<in> marked_names r" unfolding marked_names_def f(2) [symmetric] by blast
    with False Cons.prems(4) sp have "\<not> (splits_name e r0 ?n \<and> some_choice env ci e ks ?n)" by blast
    then show ?thesis using Cons.IH [OF Cons.prems(1-4)] Cons.prems(5) step p by auto
  qed
qed

lemma reset_marks_same: "rec_record_wf r \<Longrightarrow> same_but_marks (rec_record_reset_marks r) r"
proof -
  have "unmarked (unmarked e) = unmarked e" for e by (simp add: set_elem_mark_def rec_field_set_mark_def split: rdata.splits)
  then show "rec_record_wf r \<Longrightarrow> same_but_marks (rec_record_reset_marks r) r"
    by (simp add: same_but_marks_def reset_marks_elems)
qed

lemma reset_marks_names:
  assumes "rec_record_wf r"
  shows "marked_names (rec_record_reset_marks r) = {}"
proof -
  have um: "elem_data (unmarked d) = DField f \<Longrightarrow> field_mark f = 0" for d f
    by (cases "elem_data d") (auto simp: set_elem_mark_def rec_field_set_mark_def)
  have "f \<in> set (elem_fields (map unmarked es)) \<Longrightarrow> field_mark f = 0" for f es
    unfolding elem_fields_mem set_map using um by blast
  then show ?thesis unfolding marked_names_def reset_marks_elems [OF assms] by auto
qed

lemma some_choice_single:
  assumes "rec_record_wf r" and "(pos, f) \<in> set (rec_record_fields r)"
  shows "choice_holds env ci e (fkeys r) (field_name f) (field_value f)
    \<longleftrightarrow> sex_holds env ci e (the (single_field r (field_name f) f))"
proof -
  have "list_all record_elem_ok (mset_elems (record_mset r))"
    using assms(1) by (simp add: rec_record_wf_def record_mset_ok_def)
  moreover have "DField f = elem_data (mset_elems (record_mset r) ! pos)" "pos < length (mset_elems (record_mset r))"
    using assms(2) by (auto simp: rec_record_fields_mem)
  ultimately have "rec_field_wf f" by (metis list_all_length record_elem_ok_def rdata.case(1))
  from single_field_ok [OF assms(1) this] choice_holds_single show ?thesis by fastforce
qed

lemma fkeys_mem: "k \<in> set (fkeys r) \<longleftrightarrow> (\<exists>f \<in> set (map snd (rec_record_fields r)). k = (field_name f, field_value f))"
  unfolding fkeys_def by (simp only: set_map image_iff)

lemma choices_fields:
  assumes "rec_record_wf r" and k: "fkeys r1 = fkeys r"
  shows "(\<exists>f \<in> snd ` set (rec_record_fields r1). splits_name e r1 (field_name f) \<and> some_choice env ci e (fkeys r) (field_name f))
    \<longleftrightarrow> (\<exists>f \<in> set (map snd (rec_record_fields r)). splits_name e r (field_name f)
           \<and> sex_holds env ci e (the (single_field r (field_name f) f)))" (is "?L \<longleftrightarrow> ?R")
proof -
  have single: "choice_holds env ci e (fkeys r) (field_name f) (field_value f)
      \<longleftrightarrow> sex_holds env ci e (the (single_field r (field_name f) f))" if "f \<in> set (map snd (rec_record_fields r))" for f
    using that some_choice_single [OF assms(1)] by force
  have "?L \<longleftrightarrow> (\<exists>n v. (n, v) \<in> set (fkeys r1) \<and> splits_name e r1 n \<and> some_choice env ci e (fkeys r) n)"
    unfolding fkeys_mem by auto
  also have "\<dots> \<longleftrightarrow> (\<exists>n v. (n, v) \<in> set (fkeys r) \<and> splits_name e r n \<and> choice_holds env ci e (fkeys r) n v)"
    unfolding k splits_name_keys [OF k] some_choice_def by blast
  also have "\<dots> \<longleftrightarrow> ?R" unfolding fkeys_mem using single by blast
  finally show ?thesis .
qed

text \<open>What a condition selects, and the expressions this is stated for.\<close>

definition sex_selects :: "sex_env \<Rightarrow> rec_sex \<Rightarrow> rec_record \<Rightarrow> bool" where
  "sex_selects env sex r =
     (case sex_ast sex of
        None \<Rightarrow> False
      | Some e \<Rightarrow> sex_holds env (sex_case_insensitive sex) e r
          \<or> (\<exists>f \<in> set (map snd (rec_record_fields r)). splits_name e r (field_name f)
               \<and> sex_holds env (sex_case_insensitive sex) e (the (single_field r (field_name f) f))))"

definition sex_plain :: "rec_sex \<Rightarrow> bool" where
  "sex_plain sex = (case sex_ast sex of None \<Rightarrow> False | Some e \<Rightarrow> condition e \<and> no_index e)"

lemma sex_eval_selects:
  assumes "rec_record_wf r" and "sex_ast sex = Some e" and "condition e" and "no_index e"
  shows "\<exists>res status r'. rec_sex_eval env sex r = Some (res, status, sex, r') \<and> rec_record_wf r' \<and> same_but_marks r' r
    \<and> (res \<longleftrightarrow> sex_selects env sex r)"
proof -
  let ?ci = "sex_case_insensitive sex" and ?r1 = "rec_record_reset_marks r"
  have sel: "sex_selects env sex r \<longleftrightarrow> sex_holds env ?ci e r
        \<or> (\<exists>f \<in> set (map snd (rec_record_fields r)). splits_name e r (field_name f)
             \<and> sex_holds env ?ci e (the (single_field r (field_name f) f)))"
    by (simp add: sex_selects_def assms(2))
  have defd: "fst (EXEC_AST env ?ci r e) \<noteq> None" for r by (rule condition_defined [OF assms(3)])
  obtain res where ex: "EXEC_AST env ?ci r e = (Some res, e)"
    using defd [of r] EXEC_no_index [OF assms(4), of env ?ci r] by (metis not_None_eq prod.collapse)
  have same: "sex\<lparr>sex_ast := Some e\<rparr> = sex" using assms(2) by (metis rec_sex.surjective rec_sex.update_convs(1))
  note start = assms(2) unfix_no_index [OF assms(4)] ex same
  show ?thesis
  proof (cases "fst res")
    case True
    then have "sex_holds env ?ci e r" using ex by (cases res) (auto simp: sex_holds_def)
    moreover have "snd res" using ex True EXEC_true [of env ?ci r e "snd res"] by (cases res) simp
    ultimately show ?thesis using True assms(1) start by (cases res) (auto simp: rec_sex_eval_def same_but_marks_def sel)
  next
    case False
    then have nh: "\<not> sex_holds env ?ci e r" using ex by (cases res) (auto simp: sex_holds_def)
    have k: "fkeys ?r1 = fkeys r" using same_but_marks_keys [OF reset_marks_same [OF assms(1)]] .
    have m: "\<forall>n \<in> marked_names ?r1. \<not> some_choice env ?ci e (fkeys r) n" using reset_marks_names [OF assms(1)] by simp
    have "same_but_marks ?r1 ?r1" by (simp add: same_but_marks_def)
    from eval_fields_ok [OF defd assms(4) k reset_marks_wf [OF assms(1)] this False m subset_refl]
    obtain res' r' where ev: "eval_fields env ?ci (map fst (rec_record_fields ?r1)) res e ?r1 = Some (res', e, r')"
      "rec_record_wf r'" "same_but_marks r' ?r1" "fst res' \<longrightarrow> snd res'"
      and res': "fst res' \<longleftrightarrow> (\<exists>f \<in> snd ` set (rec_record_fields ?r1). splits_name e ?r1 (field_name f) \<and> some_choice env ?ci e (fkeys r) (field_name f))"
      by blast
    have "same_but_marks r' r" using ev(3) reset_marks_same [OF assms(1)] by (simp add: same_but_marks_def)
    moreover have "rec_sex_eval env sex r = Some (fst res' \<and> snd res', snd res', sex, r')"
      using start False ev(1) by (cases res') (simp add: rec_sex_eval_def)
    moreover have "(fst res' \<and> snd res') = fst res'" using ev(4) by blast
    ultimately show ?thesis using res' ev(2) nh unfolding sel choices_fields [OF assms(1) k] by auto
  qed
qed

lemma sex_eval_plain:
  assumes "rec_record_wf r" and "sex_plain sex"
  shows "\<exists>status r'. rec_sex_eval env sex r = Some (sex_selects env sex r, status, sex, r') \<and> rec_record_wf r' \<and> same_but_marks r' r"
  using assms sex_eval_selects [OF assms(1)] by (fastforce simp: sex_plain_def split: option.splits)

text \<open>
  C34. On a well-formed record, evaluating a condition without subscripts (comparisons of names,
  literals and counts, combined by the logical operators) is defined, leaves the expression
  and everything but the marks of the record as they were, and holds exactly when the condition
  holds for the record as it is, or for one of the records in which the fields of a repeated name
  that the condition mentions (and does not count) are replaced by one of them.
\<close>

theorem sex_eval_choices:
  assumes "rec_record_wf r" and "sex_ast sex = Some e" and "condition e" and "no_index e"
  shows "\<exists>res status r'. rec_sex_eval env sex r = Some (res, status, sex, r') \<and> rec_record_wf r' \<and> same_but_marks r' r
    \<and> (res \<longleftrightarrow> sex_holds env (sex_case_insensitive sex) e r
        \<or> (\<exists>f \<in> set (map snd (rec_record_fields r)). splits_name e r (field_name f)
             \<and> sex_holds env (sex_case_insensitive sex) e (the (single_field r (field_name f) f))))"
  using sex_eval_selects [OF assms, of env] unfolding sex_selects_def assms(2) by simp

definition sample_env :: sex_env where
  "sample_env = \<lparr>ext_regcomp = (\<lambda>s. True), ext_regexec = (\<lambda>r s. r = s), ext_parse_datetime = (\<lambda>s. None),
     ext_strtod = (\<lambda>s. (0, s)), ext_match = (\<lambda>ci s t. s = t), ext_fadd = (\<lambda>x y. 0), ext_fmul = (\<lambda>x y. 0),
     ext_fdiv = (\<lambda>x y. 0), ext_show_real = (\<lambda>x. [])\<rparr>"

definition sample_sex :: rec_sex where
  "sample_sex = \<lparr>sex_ast = Some (REC_SEX_OP REC_SEX_OP_EQL [REC_SEX_NAME ''Email'' None (-1) None, REC_SEX_STR ''b'']),
     sex_case_insensitive = False\<rparr>"

definition sample_mails :: rec_record where
  "sample_mails = record_add (record_add rec_record_new MSET_FIELD (DField (rec_field_new ''Email'' ''a'')))
     MSET_FIELD (DField (rec_field_new ''Email'' ''b''))"

lemma sample_mails_wf: "rec_record_wf sample_mails"
  unfolding sample_mails_def by (intro record_add_wf) (simp_all add: record_elem_ok_def)

lemma sample_mails_fields: "map snd (rec_record_fields sample_mails) = [rec_field_new ''Email'' ''a'', rec_field_new ''Email'' ''b'']"
  by code_simp

theorem sex_eval_choices_witness:
  "\<exists>status r'. rec_sex_eval sample_env sample_sex sample_mails = Some (True, status, sample_sex, r')"
proof -
  let ?e = "the (sex_ast sample_sex)" and ?f = "rec_field_new ''Email'' ''b''"
  have e: "sex_ast sample_sex = Some ?e" "condition ?e" "no_index ?e" "\<not> sex_case_insensitive sample_sex"
    by (simp_all add: sample_sex_def comparison_def)
  have "fkeys (the (single_field sample_mails ''Email'' ?f)) = [(''Email'', ''b'')]" by code_simp
  then have "sex_holds sample_env False ?e (the (single_field sample_mails ''Email'' ?f))"
    by (simp add: sex_holds_def EXEC_AST_def sample_sex_def eval_name_def effective_name_def value_by_name Let_def apply_op_def
        str_eq_def bool_val_def ex_bool_eq)
  moreover have "splits_name ?e sample_mails ''Email''" by code_simp
  moreover have "field_name ?f = ''Email''" by code_simp
  ultimately have choice: "\<exists>f \<in> set (map snd (rec_record_fields sample_mails)). splits_name ?e sample_mails (field_name f)
      \<and> sex_holds sample_env False ?e (the (single_field sample_mails (field_name f) f))"
    unfolding sample_mails_fields by (intro bexI [of _ ?f]) (simp_all only: set_simps insert_iff simp_thms)
  have ci: "sex_case_insensitive sample_sex = False" using e(4) by simp
  obtain res status r' where "rec_sex_eval sample_env sample_sex sample_mails = Some (res, status, sample_sex, r')" res
    using sex_eval_choices [OF sample_mails_wf e(1-3), of sample_env] choice unfolding ci by blast
  then show ?thesis by auto
qed

end
