(* ===== verification/Rec_Db_Laws.thy ===== *)
theory Rec_Db_Laws
  imports Rec_Db_Ops Rec_Db_Roundtrip Rec_Crypt_Laws Rec_Sex_Eval_Laws
begin

text \<open>
  Laws of the database operations: the random indexes are different numbers in range, a query
  delivers copies of exactly the selected records and leaves the database alone, a deletion
  removes exactly the selected records, an insertion puts the record behind the last one, and a
  join pairs the records whose field and key agree.
\<close>

section \<open>Random indexes\<close>

definition index_pairs :: "size_t list \<Rightarrow> size_t list" where
  "index_pairs vs = concat (map (\<lambda>v. [v, REC_Q_NOINDEX]) vs)"

lemma index_pairs_simps [simp]:
  "index_pairs [] = []" "index_pairs (v # vs) = v # REC_Q_NOINDEX # index_pairs vs"
  "index_pairs (vs @ ws) = index_pairs vs @ index_pairs ws" "length (index_pairs vs) = 2 * length vs"
  by (simp_all add: index_pairs_def) (induction vs, simp_all)

lemma index_pairs_p:
  "REC_Q_NOINDEX \<notin> set vs \<Longrightarrow>
   rec_db_index_p (index_pairs vs @ REC_Q_NOINDEX # REC_Q_NOINDEX # ws) n \<longleftrightarrow> n \<in> set vs"
  by (induction vs) auto

lemma less_not_noindex: "(v :: size_t) < limit \<Longrightarrow> v \<noteq> REC_Q_NOINDEX"
  by (auto simp: REC_Q_NOINDEX_def)

lemma unat_of_nat_below: "i < unat (limit :: size_t) \<Longrightarrow> unat (of_nat i :: size_t) = i"
proof -
  assume "i < unat limit"
  also have "unat limit < 2 ^ 64" using unsigned_less [where 'a = nat and 'b = 64, of limit] by simp
  finally show "unat (of_nat i :: size_t) = i" by (intro of_nat_inverse) simp_all
qed

text \<open>With fewer than \<open>limit\<close> numbers taken there is a free one.\<close>

lemma pick_index_free:
  assumes "\<And>n. rec_db_index_p index n \<longleftrightarrow> n \<in> set vs" and "length vs < unat limit" and "v < limit"
  shows "pick_index index limit v < limit" and "pick_index index limit v \<notin> set vs"
proof -
  let ?P = "\<lambda>i. \<not> rec_db_index_p index (of_nat i)"
  have "\<not> (unat ` set vs \<supseteq> {0..<unat limit})"
    using card_mono [of "unat ` set vs" "{0..<unat limit}"] card_image_le [of "set vs" unat] card_length [of vs] assms(2) by auto
  then obtain i where "i < unat limit" "i \<notin> unat ` set vs" using atLeast0LessThan by blast
  moreover have "of_nat i \<notin> set vs"
    using calculation unat_of_nat_below [of i limit] by (metis imageI)
  ultimately have "i \<in> set [0..<unat limit] \<and> ?P i" using assms(1) by simp
  then obtain j where j: "find ?P [0..<unat limit] = Some j" "?P j" "j < unat limit"
    by (metis (no_types, lifting) atLeastLessThan_iff find_None_iff find_Some_iff not_Some_eq nth_mem set_upt)
  then have "(of_nat j :: size_t) < limit" using unat_of_nat_below [of j limit] by (simp add: word_less_nat_alt)
  with j assms show "pick_index index limit v < limit" "pick_index index limit v \<notin> set vs"
    by (auto simp: pick_index_def)
qed

lemma random_indexes_pairs:
  assumes "i + k = num" and "num \<le> unat limit" and "length vs = i" and "distinct vs" and "\<forall>v \<in> set vs. v < limit"
    and "index = index_pairs vs @ replicate ((k + 1) * 2) REC_Q_NOINDEX"
  shows "\<exists>ws. length ws = num \<and> distinct ws \<and> (\<forall>v \<in> set ws. v < limit)
    \<and> random_indexes rnd limit [i..<num] index = index_pairs ws @ [REC_Q_NOINDEX, REC_Q_NOINDEX]"
  using assms
proof (induction k arbitrary: i vs index)
  case 0
  then show ?case by (intro exI [of _ vs]) (simp add: numeral_eq_Suc)
next
  case (Suc k)
  have nx: "REC_Q_NOINDEX \<notin> set vs" using Suc.prems(5) less_not_noindex by blast
  have "rec_db_index_p index n \<longleftrightarrow> n \<in> set vs" for n
    using index_pairs_p [OF nx, of "replicate ((Suc k) * 2) REC_Q_NOINDEX" n] Suc.prems(6) by simp
  moreover have "length vs < unat limit" using Suc.prems(1,2,3) by simp
  moreover have "rnd i mod limit < limit" using calculation(2) by (intro word_mod_less_divisor) (simp add: word_less_nat_alt)
  ultimately have v: "pick_index index limit (rnd i mod limit) < limit" "pick_index index limit (rnd i mod limit) \<notin> set vs"
    using pick_index_free by blast+
  let ?v = "pick_index index limit (rnd i mod limit)"
  have "index[2 * i := ?v, 2 * i + 1 := REC_Q_NOINDEX] = index_pairs (vs @ [?v]) @ replicate ((k + 1) * 2) REC_Q_NOINDEX"
    using Suc.prems(3,6) by (simp add: list_update_append)
  moreover have "[i..<num] = i # [Suc i..<num]" using Suc.prems(1) by (simp add: upt_conv_Cons)
  ultimately show ?case
    using Suc.IH [of "Suc i" "vs @ [?v]" "index[2 * i := ?v, 2 * i + 1 := REC_Q_NOINDEX]"] Suc.prems v by simp
qed

lemma add_random_indexes_ok:
  assumes "num \<le> unat limit"
  shows "\<exists>index vs. rec_db_add_random_indexes rnd num limit = Some index \<and> length vs = num \<and> distinct vs
    \<and> (\<forall>v \<in> set vs. v < limit) \<and> (\<forall>n. rec_db_index_p index n \<longleftrightarrow> n \<in> set vs)"
proof -
  obtain ws where ws: "length ws = num" "distinct ws" "\<forall>v \<in> set ws. v < limit"
    "random_indexes rnd limit [0..<num] (replicate ((num + 1) * 2) REC_Q_NOINDEX) = index_pairs ws @ [REC_Q_NOINDEX, REC_Q_NOINDEX]"
    using random_indexes_pairs [of 0 num num limit "[]" "replicate ((num + 1) * 2) REC_Q_NOINDEX" rnd] assms by fastforce
  have "REC_Q_NOINDEX \<notin> set ws" using ws(3) less_not_noindex by blast
  then have "rec_db_index_p (index_pairs ws @ [REC_Q_NOINDEX, REC_Q_NOINDEX]) n \<longleftrightarrow> n \<in> set ws" for n
    using index_pairs_p [of ws "[]"] by simp
  moreover have "limit \<noteq> 0 \<or> num = 0" using assms by (cases "limit = 0") simp_all
  ultimately show ?thesis using ws unfolding rec_db_add_random_indexes_def by auto
qed

section \<open>Selecting records\<close>

text \<open>The records chosen: by a string they contain, by a selection expression, or by their number.\<close>

definition chosen :: "sex_env \<Rightarrow> size_t list option \<Rightarrow> rec_sex option \<Rightarrow> string option \<Rightarrow> bool \<Rightarrow> nat \<Rightarrow> rec_record \<Rightarrow> bool" where
  "chosen env index sex fast_string ci num r =
     (case fast_string of
        Some str \<Rightarrow> rec_record_contains_value r str ci
      | None \<Rightarrow>
          (case sex of
             Some s \<Rightarrow> sex_selects env s r
           | None \<Rightarrow> (case index of Some ix \<Rightarrow> rec_db_index_p ix (of_nat num) | None \<Rightarrow> True)))"

lemma same_but_marks_refl [simp]: "same_but_marks r r"
  by (simp add: same_but_marks_def)

lemma same_but_marks_trans: "same_but_marks r s \<Longrightarrow> same_but_marks s t \<Longrightarrow> same_but_marks r t"
  by (simp add: same_but_marks_def)

lemma selected_chosen:
  assumes "rec_record_wf r" and "pred_option sex_plain sex"
  shows "\<exists>r'. rec_db_record_selected_p env num r index sex fast_string ci = Some (chosen env index sex fast_string ci num r, sex, r')
    \<and> rec_record_wf r' \<and> same_but_marks r' r"
proof (cases fast_string)
  case (Some str)
  then show ?thesis using assms by (simp add: rec_db_record_selected_p_def chosen_def)
next
  case None
  show ?thesis
  proof (cases sex)
    case sex: (Some s)
    then obtain status r' where "rec_sex_eval env s r = Some (sex_selects env s r, status, s, r')" "rec_record_wf r'" "same_but_marks r' r"
      using sex_eval_plain [OF assms(1), of s env] assms(2) by auto
    then show ?thesis using None sex by (simp add: rec_db_record_selected_p_def chosen_def)
  next
    case sex: None
    show ?thesis
    proof (cases index)
    qed (use None sex assms(1) in \<open>simp_all add: rec_db_record_selected_p_def chosen_def\<close>)
  qed
qed

definition chosen_records :: "(nat \<Rightarrow> rec_record \<Rightarrow> bool) \<Rightarrow> nat \<Rightarrow> rec_record list \<Rightarrow> rec_record list" where
  "chosen_records P num rs = map snd (filter (\<lambda>(n, r). P n r) (enumerate num rs))"

lemma chosen_records_simps [simp]:
  "chosen_records P num [] = []"
  "chosen_records P num (r # rs) = (if P num r then [r] else []) @ chosen_records P (Suc num) rs"
  by (simp_all add: chosen_records_def)

text \<open>
  Elements of a record set that are the same but for the marks an evaluation leaves in the fields
  of records, and record sets with such elements.
\<close>

definition elem_marked :: "sdata mset_elem \<Rightarrow> sdata mset_elem \<Rightarrow> bool" where
  "elem_marked e e' \<longleftrightarrow> e = e' \<or> (\<exists>r r'. elem_record e = Some r \<and> elem_record e' = Some r' \<and> same_but_marks r r')"

definition marks_only :: "rec_rset \<Rightarrow> rec_rset \<Rightarrow> bool" where
  "marks_only rset' rset \<longleftrightarrow> rec_rset_wf rset' \<and> rset' = rset\<lparr>rset_mset := rset_mset rset'\<rparr>
     \<and> list_all2 elem_marked (mset_elems (rset_mset rset')) (mset_elems (rset_mset rset))"

lemma elem_marked_refl [simp]: "elem_marked e e"
  by (simp add: elem_marked_def)

lemma elem_marked_trans: "elem_marked e f \<Longrightarrow> elem_marked f g \<Longrightarrow> elem_marked e g"
  unfolding elem_marked_def by (metis option.inject same_but_marks_trans)

lemma elem_marked_list_refl [simp]: "list_all2 elem_marked es es"
  by (simp add: list_all2_refl)

lemma marks_only_refl: "rec_rset_wf rset \<Longrightarrow> marks_only rset rset"
  by (simp add: marks_only_def)

lemma marks_only_trans:
  assumes "marks_only r s" and "marks_only s t"
  shows "marks_only r t"
proof -
  have "list_all2 elem_marked (mset_elems (rset_mset r)) (mset_elems (rset_mset t))"
    by (rule list_all2_trans [OF elem_marked_trans]) (use assms in \<open>auto simp only: marks_only_def\<close>)
  moreover have "s\<lparr>rset_mset := rset_mset r\<rparr> = t\<lparr>rset_mset := rset_mset s\<rparr>\<lparr>rset_mset := rset_mset r\<rparr>"
    using assms(2) unfolding marks_only_def by (metis (no_types))
  ultimately show ?thesis using assms(1) unfolding marks_only_def by simp
qed

text \<open>Storing a record that differs only in marks.\<close>

lemma set_record_marks:
  assumes "rec_rset_wf rset" and "pos \<in> set (record_positions (mset_elems (rset_mset rset)))"
    and "rec_record_wf r" and "same_but_marks r (rec_at (rset_mset rset) pos)"
  shows "marks_only (rset_set_record rset pos r) rset"
    and "\<forall>j. j \<noteq> pos \<longrightarrow> mset_elems (rset_mset (rset_set_record rset pos r)) ! j = mset_elems (rset_mset rset) ! j"
    and "record_positions (mset_elems (rset_mset (rset_set_record rset pos r))) = record_positions (mset_elems (rset_mset rset))"
proof -
  let ?m = "rset_mset rset" and ?m' = "rset_mset (rset_set_record rset pos r)"
  have ok: "typed_ok rset_table rset_elem_ok ?m" using assms(1) by (simp add: rec_rset_wf_def)
  have m': "?m' = rec_mset_elem_set_data ?m pos (SRecord r)" by (simp add: rset_set_record_def)
  note hold = set_record_holds [OF record_positions_ok(1) [OF ok] assms(2,3), folded m']
  show "\<forall>j. j \<noteq> pos \<longrightarrow> mset_elems ?m' ! j = mset_elems ?m ! j" by (rule hold(3))
  show "record_positions (mset_elems ?m') = record_positions (mset_elems ?m)"
    by (rule record_positions_cong [OF hold(4,5)])
  obtain q where q: "elem_record (mset_elems ?m ! pos) = Some q" using assms(2) by (auto simp: record_positions_def)
  then obtain q' where q': "elem_record (mset_elems ?m' ! pos) = Some q'" using hold(5) by (metis not_None_eq)
  have "same_but_marks q' q" using assms(4) hold(2) elem_record_at [OF q] elem_record_at [OF q'] by simp
  then have "elem_marked (mset_elems ?m' ! pos) (mset_elems ?m ! pos)" using q q' by (auto simp: elem_marked_def)
  then have "elem_marked (mset_elems ?m' ! j) (mset_elems ?m ! j)" for j
    using hold(3) by (cases "j = pos") simp_all
  then have "list_all2 elem_marked (mset_elems ?m') (mset_elems ?m)" using hold(4) by (simp add: list_all2_conv_all_nth)
  moreover have "rec_rset_wf (rset_set_record rset pos r)"
    using assms(1) hold(1) m' by (simp add: rec_rset_wf_def rset_set_record_def holds_records_def)
  ultimately show "marks_only (rset_set_record rset pos r) rset" by (simp add: marks_only_def rset_set_record_def)
qed

section \<open>Queries\<close>

lemma append_record_ok:
  assumes "rec_rset_wf res" and "rset_data res = map SRecord rs" and "rec_record_wf r"
  shows "rec_rset_wf (rset_append_record res r MSET_RECORD)"
    and "rset_data (rset_append_record res r MSET_RECORD) = map SRecord (rs @ [r])"
proof -
  let ?m = "rset_mset res"
  have ok: "typed_ok rset_table rset_elem_ok ?m" using assms(1) by (simp add: rec_rset_wf_def)
  have e: "rset_elem_ok \<lparr>elem_type = MSET_RECORD, elem_data = SRecord r\<rparr>" using assms(3) by (simp add: rset_elem_ok_def)
  have "elem_type x = MSET_RECORD" if "x \<in> set (mset_elems ?m)" for x
  proof -
    have "rset_elem_ok x" using ok that by (simp add: typed_ok_def list_all_iff)
    moreover have "elem_data x \<in> set (map SRecord rs)"
      using that assms(2) by (metis image_eqI list.set_map rset_data_def)
    ultimately show ?thesis by (auto simp: rset_elem_ok_def)
  qed
  then have "count_type (mset_elems ?m) MSET_RECORD = length (mset_elems ?m)" by (simp add: count_type_def filter_id_conv)
  then have c: "rec_mset_count ?m MSET_RECORD = length (mset_elems ?m)"
    using mset_wf_count [OF rsetm.ok_wf(1) [OF ok], of MSET_RECORD] by (simp add: rec_mset_count_def MAX_NTYPES_def)
  show "rec_rset_wf (rset_append_record res r MSET_RECORD)"
    using assms(1) rsetm.insert_ok(1) [OF ok e] by (simp add: rset_append_record_def rec_mset_append_def rec_rset_wf_def)
  show "rset_data (rset_append_record res r MSET_RECORD) = map SRecord (rs @ [r])"
    using assms(2) rsetm.insert_ok(3) [OF ok e, of "length (mset_elems ?m)"] c
    by (simp add: rset_append_record_def rec_mset_append_def rset_data_def)
qed

lemma record_wf_container [simp]: "rec_record_wf (rec_record_set_container r a) = rec_record_wf r"
  by (simp add: rec_record_wf_def rec_record_set_container_def)

lemma rset_records_wf:
  assumes "rec_rset_wf rset" and "pos \<in> set (record_positions (mset_elems (rset_mset rset)))"
  shows "rec_record_wf (rec_at (rset_mset rset) pos)"
  using assms record_positions_ok(1) holds_records_wf by (auto simp: rec_rset_wf_def)

lemma same_but_marks_num:
  assumes "same_but_marks r s" and "rec_record_wf r" and "rec_record_wf s"
  shows "rec_record_num_elems r = rec_record_num_elems s"
proof -
  have "rec_record_num_elems q = length (map unmarked (mset_elems (record_mset q)))" if "rec_record_wf q" for q
    using mset_wf_count [OF recm.ok_wf(1), of "record_mset q" MSET_ANY] that
    by (simp add: rec_record_num_elems_def rec_mset_count_def rec_record_wf_def record_mset_ok_typed MAX_NTYPES_def)
  then show ?thesis using assms unfolding same_but_marks_def by metis
qed

text \<open>
  The result of a query: the chosen records that are not empty, in their order, in a new record set. With
  \<open>REC_F_UNIQ\<close> each loses its duplicated fields.
\<close>

definition query_copy :: "db_env \<Rightarrow> int \<Rightarrow> rec_record \<Rightarrow> rec_record" where
  "query_copy env flags q =
     rec_record_set_container (if flag_p flags REC_F_UNIQ then rec_record_uniq q else q) (Some (env_fresh env))"

definition query_copies :: "db_env \<Rightarrow> int \<Rightarrow> rec_record \<Rightarrow> rec_record \<Rightarrow> bool" where
  "query_copies env flags r' r \<longleftrightarrow> (\<exists>q. same_but_marks q r \<and> r' = query_copy env flags q)"

lemma query_copy_wf: "rec_record_wf q \<Longrightarrow> rec_record_wf (query_copy env flags q)"
  by (simp add: query_copy_def rec_record_uniq_keys(2))

lemma query_copies_marks:
  assumes "query_copies env flags r' r" and "\<not> flag_p flags REC_F_UNIQ"
  shows "same_but_marks r' r \<and> record_container r' = Some (env_fresh env)"
  using assms by (auto simp: query_copies_def query_copy_def same_but_marks_def rec_record_set_container_def)

lemma query_loop:
  assumes "rec_rset_wf rset" and "set ps \<subseteq> set (record_positions (mset_elems (rset_mset rset)))" and "distinct ps"
    and "rec_rset_wf res" and "rset_data res = map SRecord rs" and "pred_option sex_plain sex"
  shows "\<exists>res' rset' rs'. for_records (query_step env db index fast_string None None flags) num ps (Some res, rset, sex) = Some (Some res', rset', sex)
    \<and> marks_only rset' rset \<and> rec_rset_wf res' \<and> rset_data res' = map SRecord (rs @ rs') \<and> rset_descriptor res' = rset_descriptor res
    \<and> list_all2 (query_copies env flags) rs'
        (filter (\<lambda>r. rec_record_num_elems r \<noteq> 0)
            (chosen_records (chosen (env_sex env) index sex fast_string (flag_p flags REC_F_ICASE)) num (map (rec_at (rset_mset rset)) ps)))"
  using assms(1-5)
proof (induction ps arbitrary: num rset res rs)
  case Nil
  then show ?case by (auto simp: marks_only_refl)
next
  case (Cons pos ps)
  let ?r = "rec_at (rset_mset rset) pos" and ?P = "chosen (env_sex env) index sex fast_string (flag_p flags REC_F_ICASE)"
  let ?rest = "\<lambda>num rs. filter (\<lambda>r. rec_record_num_elems r \<noteq> 0) (chosen_records ?P num rs)"
  have pos: "pos \<in> set (record_positions (mset_elems (rset_mset rset)))" using Cons.prems(2) by simp
  note wf = rset_records_wf [OF Cons.prems(1) pos]
  obtain r' where sel: "rec_db_record_selected_p (env_sex env) num ?r index sex fast_string (flag_p flags REC_F_ICASE) = Some (?P num ?r, sex, r')"
    and r': "rec_record_wf r'" "same_but_marks r' ?r"
    using selected_chosen [OF wf assms(6)] by blast
  let ?rset = "rset_set_record rset pos r'" and ?q = "query_copy env flags r'"
  let ?new = "rset_append_record res ?q MSET_RECORD"
  note set = set_record_marks [OF Cons.prems(1) pos r']
  have wf': "rec_rset_wf ?rset" using set(1) by (simp add: marks_only_def)
  have same: "map (rec_at (rset_mset ?rset)) ps = map (rec_at (rset_mset rset)) ps"
    using set(2) Cons.prems(3) by (intro map_cong) (auto simp: rec_at_def)
  have ps: "set ps \<subseteq> set (record_positions (mset_elems (rset_mset ?rset)))" "distinct ps"
    using set(3) Cons.prems(2,3) by simp_all
  have num: "rec_record_num_elems r' = rec_record_num_elems ?r" by (rule same_but_marks_num [OF r'(2) r'(1) wf])
  have dup: "rec_db_process_fex env db ?rset (Some r') None = Some r'"
    using rec_record_dup_id [OF r'(1)] by (simp add: rec_db_process_fex_def)
  have step: "query_step env db index fast_string None None flags num pos (Some res, rset, sex) =
    Some (Some (if ?P num ?r \<and> rec_record_num_elems ?r \<noteq> 0 then ?new else res), ?rset, sex)"
    using dup num by (simp add: query_step_def sel query_record_def query_copy_def Let_def)
  show ?case
  proof (cases "?P num ?r \<and> rec_record_num_elems ?r \<noteq> 0")
    case True
    have new: "rec_rset_wf ?new" "rset_data ?new = map SRecord (rs @ [?q])"
      using append_record_ok [OF Cons.prems(4,5) query_copy_wf [OF r'(1)]] by blast+
    have d: "rset_descriptor ?new = rset_descriptor res" by (simp add: rset_append_record_def)
    from Cons.IH [OF wf' ps new, of "Suc num"] obtain res' rset' rs' where
      IH: "for_records (query_step env db index fast_string None None flags) (Suc num) ps (Some ?new, ?rset, sex) = Some (Some res', rset', sex)"
        "marks_only rset' ?rset" "rec_rset_wf res'" "rset_data res' = map SRecord (rs @ ?q # rs')"
        "rset_descriptor res' = rset_descriptor res"
        "list_all2 (query_copies env flags) rs' (?rest (Suc num) (map (rec_at (rset_mset rset)) ps))"
      unfolding same d by auto
    have "query_copies env flags ?q ?r" using r'(2) by (auto simp: query_copies_def)
    then show ?thesis using IH marks_only_trans [OF IH(2) set(1)] True by (intro exI [of _ res'] exI [of _ rset'] exI [of _ "?q # rs'"]) (simp add: step)
  next
    case False
    have skip: "?rest num (map (rec_at (rset_mset rset)) (pos # ps)) = ?rest (Suc num) (map (rec_at (rset_mset rset)) ps)"
      using False by auto
    from Cons.IH [OF wf' ps Cons.prems(4,5), of "Suc num"] obtain res' rset' rs' where
      "for_records (query_step env db index fast_string None None flags) (Suc num) ps (Some res, ?rset, sex) = Some (Some res', rset', sex)"
        "marks_only rset' ?rset" "rec_rset_wf res'" "rset_data res' = map SRecord (rs @ rs')"
        "rset_descriptor res' = rset_descriptor res"
        "list_all2 (query_copies env flags) rs' (?rest (Suc num) (map (rec_at (rset_mset rset)) ps))"
      unfolding same by blast
    moreover from this have "marks_only rset' rset" using marks_only_trans [OF _ set(1)] by blast
    ultimately show ?thesis unfolding skip using False by (simp only: for_records.simps step if_False Option.bind_lunit) blast
  qed
qed

lemma by_type_bound: "rec_db_get_rset_by_type db type = Some i \<Longrightarrow> i < length (db_rset_list db)"
  using find_index_Some by (fastforce simp: rec_db_get_rset_by_type_def)

lemma query_descriptor_ok:
  assumes "query_descriptor env rset flags = Some res" and "pred_option rec_record_wf (rset_descriptor rset)"
  shows "rec_rset_wf res" and "rset_data res = []"
    and "rset_descriptor res = (if flag_p flags REC_F_DESCRIPTOR then rset_descriptor rset else None)"
proof -
  have "rec_rset_wf res \<and> rset_data res = [] \<and> rset_descriptor res = (if flag_p flags REC_F_DESCRIPTOR then rset_descriptor rset else None)"
  proof (cases "flag_p flags REC_F_DESCRIPTOR")
    case True
    have "rec_rset_set_descriptor (env_ext env) rec_rset_new (rset_descriptor rset) = Some res"
      using assms True by (cases "rset_descriptor rset") (simp_all add: query_descriptor_def rec_record_dup_id)
    from set_descriptor_data [OF this rec_rset_new_wf assms(2)] True show ?thesis by simp
  next
    case False
    then have "res = rec_rset_new" using assms(1) by (simp add: query_descriptor_def)
    moreover have "rset_descriptor rec_rset_new = None" by (simp add: rec_rset_new_eq)
    ultimately show ?thesis using False by simp
  qed
  then show "rec_rset_wf res" "rset_data res = []"
    "rset_descriptor res = (if flag_p flags REC_F_DESCRIPTOR then rset_descriptor rset else None)" by blast+
qed

lemma query_general:
  assumes "rec_db_get_rset_by_type db type = Some i" and "rec_rset_wf (db_rset_list db ! i)"
    and "rset_order_by_fields (db_rset_list db ! i) = None"
    and "pred_option rec_record_wf (rset_descriptor (db_rset_list db ! i))"
    and "query_descriptor env (db_rset_list db ! i) flags = Some res0"
    and "effective_index env index random (db_rset_list db ! i) = Some ix" and "pred_option sex_plain sex"
  shows "\<exists>res rset' rs. rec_db_query env db type None index sex fast_string random None None None None flags =
       Some (Some res, db_put db (Some i) rset', sex)
    \<and> marks_only rset' (db_rset_list db ! i) \<and> rec_rset_wf res \<and> rset_data res = map SRecord rs
    \<and> rset_descriptor res = (if flag_p flags REC_F_DESCRIPTOR then rset_descriptor (db_rset_list db ! i) else None)
    \<and> list_all2 (query_copies env flags) rs
        (filter (\<lambda>r. rec_record_num_elems r \<noteq> 0)
           (chosen_records (chosen (env_sex env) ix sex fast_string (flag_p flags REC_F_ICASE)) 0
              (map snd (rec_rset_records (db_rset_list db ! i)))))"
proof -
  let ?rset = "db_rset_list db ! i" and ?ps = "record_positions (mset_elems (rset_mset (db_rset_list db ! i)))"
  note res0 = query_descriptor_ok [OF assms(5,4)]
  have ps: "map fst (rec_rset_records ?rset) = ?ps" "map snd (rec_rset_records ?rset) = map (rec_at (rset_mset ?rset)) ?ps"
    by (simp_all add: rset_records_positions comp_def)
  have sort: "query_sorted env ?rset None None = Some ?rset" using assms(3) by (simp add: query_sorted_def rec_rset_sort_def)
  have "typed_ok rset_table rset_elem_ok (rset_mset ?rset)" using assms(2) by (simp add: rec_rset_wf_def)
  then have "distinct ?ps" by (rule record_positions_ok(2))
  moreover have "rset_data res0 = map SRecord []" using res0(2) by simp
  ultimately obtain res rset' rs where loop:
    "for_records (query_step env db ix fast_string None None flags) 0 ?ps (Some res0, ?rset, sex) = Some (Some res, rset', sex)"
    "marks_only rset' ?rset" "rec_rset_wf res" "rset_data res = map SRecord ([] @ rs)" "rset_descriptor res = rset_descriptor res0"
    "list_all2 (query_copies env flags) rs
        (filter (\<lambda>r. rec_record_num_elems r \<noteq> 0)
           (chosen_records (chosen (env_sex env) ix sex fast_string (flag_p flags REC_F_ICASE)) 0 (map (rec_at (rset_mset ?rset)) ?ps)))"
    using query_loop [OF assms(2) subset_refl _ res0(1) _ assms(7), of "[]"] by blast
  have "rec_db_query env db type None index sex fast_string random None None None None flags = Some (Some res, db_put db (Some i) rset', sex)"
    by (simp add: rec_db_query_def query_join_def query_on_def assms(1,5,6) sort ps(1) loop(1))
  then show ?thesis using loop(2-6) res0(3) unfolding ps(2) by fastforce
qed

lemma query_ok:
  assumes "rec_db_get_rset_by_type db type = Some i" and "rec_rset_wf (db_rset_list db ! i)"
    and "rset_order_by_fields (db_rset_list db ! i) = None" and "\<not> flag_p flags REC_F_DESCRIPTOR" and "\<not> flag_p flags REC_F_UNIQ"
    and "pred_option sex_plain sex" and "effective_index env index random (db_rset_list db ! i) = Some ix"
  shows "\<exists>res rset' rs. rec_db_query env db type None index sex fast_string random None None None None flags =
       Some (Some res, db_put db (Some i) rset', sex)
    \<and> marks_only rset' (db_rset_list db ! i) \<and> rec_rset_wf res \<and> rset_data res = map SRecord rs
    \<and> list_all2 (\<lambda>r' r. same_but_marks r' r \<and> record_container r' = Some (env_fresh env)) rs
        (filter (\<lambda>r. rec_record_num_elems r \<noteq> 0)
           (chosen_records (chosen (env_sex env) ix sex fast_string (flag_p flags REC_F_ICASE)) 0
              (map snd (rec_rset_records (db_rset_list db ! i)))))"
proof -
  have d: "query_descriptor env (db_rset_list db ! i) flags = Some rec_rset_new" using assms(4) by (simp add: query_descriptor_def)
  have w: "pred_option rec_record_wf (rset_descriptor (db_rset_list db ! i))" using assms(2) by (simp add: rec_rset_wf_def)
  have marks: "list_all2 (\<lambda>r' r. same_but_marks r' r \<and> record_container r' = Some (env_fresh env)) rs qs"
    if "list_all2 (query_copies env flags) rs qs" for rs qs
    using that query_copies_marks [OF _ assms(5)] by (rule list_all2_mono)
  from query_general [OF assms(1-3) w d assms(7,6), of fast_string] show ?thesis by (elim exE conjE) (intro exI conjI marks; assumption)
qed

text \<open>
  C2. A query answers with the chosen records. For a type with a well-formed record set that is not kept
  sorted, a query without join, field expression, password, sorting and grouping is defined, whatever
  chooses the records: a string they contain, a condition (comparisons of fields without subscripts,
  and their logical combinations), their numbers, or random numbers. The result is a well-formed record set with exactly the chosen records that are not empty, in
  their order, each with the new set as its container and, with \<open>REC_F_UNIQ\<close>, without its duplicated
  fields; with \<open>REC_F_DESCRIPTOR\<close> it has the descriptor of the set, as far as that is defined. The database
  keeps its record sets: only marks of fields in the set of the type may change. (A query that sorts or
  groups, and any query of a set with a \<open>%sort\<close>, reorders the set of the database itself.)
\<close>

theorem query_selects:
  assumes "rec_db_get_rset_by_type db type = Some i" and "rec_rset_wf (db_rset_list db ! i)"
    and "rset_order_by_fields (db_rset_list db ! i) = None"
    and "query_descriptor env (db_rset_list db ! i) flags = Some res0"
    and "effective_index env index random (db_rset_list db ! i) = Some ix" and "pred_option sex_plain sex"
  shows "\<exists>res rset' rs. rec_db_query env db type None index sex fast_string random None None None None flags =
       Some (Some res, db_put db (Some i) rset', sex)
    \<and> marks_only rset' (db_rset_list db ! i) \<and> rec_rset_wf res \<and> rset_data res = map SRecord rs
    \<and> rset_descriptor res = (if flag_p flags REC_F_DESCRIPTOR then rset_descriptor (db_rset_list db ! i) else None)
    \<and> list_all2 (\<lambda>r' r. \<exists>q. same_but_marks q r \<and>
           r' = rec_record_set_container (if flag_p flags REC_F_UNIQ then rec_record_uniq q else q) (Some (env_fresh env))) rs
        (filter (\<lambda>r. rec_record_num_elems r \<noteq> 0)
           (chosen_records (chosen (env_sex env) ix sex fast_string (flag_p flags REC_F_ICASE)) 0
              (map snd (rec_rset_records (db_rset_list db ! i)))))"
proof -
  have "pred_option rec_record_wf (rset_descriptor (db_rset_list db ! i))" using assms(2) by (simp add: rec_rset_wf_def)
  from query_general [OF assms(1-3) this assms(4-6)] show ?thesis
    unfolding query_copies_def [abs_def] query_copy_def .
qed

definition sample_db_env :: db_env where
  "sample_db_env = \<lparr>env_sex = sample_env, env_crypt = sample_crypt, env_salts = (\<lambda>i. ''salt''), env_random = (\<lambda>i. 5),
     env_now = ''now'', env_sorted_add = (\<lambda>cmp e es. es @ [e]), env_fresh = 9\<rparr>"

definition sample_pairs_db :: rec_db where
  "sample_pairs_db = rec_db_insert_rset rec_db_new sample_set 0"

lemma sample_pairs:
  "rec_db_get_rset_by_type sample_pairs_db None = Some 0" "db_rset_list sample_pairs_db ! 0 = sample_set"
  "rset_order_by_fields sample_set = None" "rec_rset_num_records sample_set = 2"
  "map snd (rec_rset_records sample_set) = [sample_pair ''1'', sample_pair ''2'']"
  "rec_record_num_elems (sample_pair ''1'') = 2" "rec_record_num_elems (sample_pair ''2'') = 2"
  by code_simp+

theorem query_selects_witness:
  "\<exists>res rset' r. rec_db_query sample_db_env sample_pairs_db None None None None (Some ''2'') 0 None None None None 0 =
       Some (Some res, db_put sample_pairs_db (Some 0) rset', None)
     \<and> rset_data res = [SRecord r] \<and> same_but_marks r (sample_pair ''2'')"
proof -
  have p: "rec_rset_wf (db_rset_list sample_pairs_db ! 0)" "rset_order_by_fields (db_rset_list sample_pairs_db ! 0) = None"
    using sample_set_wf sample_pairs by simp_all
  have f: "query_descriptor sample_db_env (db_rset_list sample_pairs_db ! 0) 0 = Some rec_rset_new"
    by (simp add: query_descriptor_def flag_p_def)
  have e: "effective_index sample_db_env None 0 (db_rset_list sample_pairs_db ! 0) = Some None" by (simp add: effective_index_def)
  have u: "\<not> flag_p 0 REC_F_UNIQ" by (simp add: flag_p_def)
  have "rec_record_contains_value (sample_pair ''1'') ''2'' False = False" "rec_record_contains_value (sample_pair ''2'') ''2'' False"
    by code_simp+
  then have "filter (\<lambda>r. rec_record_num_elems r \<noteq> 0)
      (chosen_records (chosen (env_sex sample_db_env) None None (Some ''2'') (flag_p 0 REC_F_ICASE)) 0
         (map snd (rec_rset_records (db_rset_list sample_pairs_db ! 0)))) = [sample_pair ''2'']"
    by (simp add: sample_pairs chosen_def flag_p_def)
  then show ?thesis
    using query_selects [OF sample_pairs(1) p f e, of None "Some ''2''"] u
    by (auto simp: list_all2_Cons2 same_but_marks_def rec_record_set_container_def)
qed

text \<open>Choosing by numbers, and the numbers a random index stands for.\<close>

lemma chosen_records_numbers:
  "chosen_records (\<lambda>n r. Q n) 0 rs = map ((!) rs) (filter Q [0..<length rs])"
proof -
  have "enumerate 0 rs = map (\<lambda>n. (n, rs ! n)) [0..<length rs]"
    by (intro nth_equalityI) (simp_all add: nth_enumerate_eq)
  then show ?thesis by (simp add: chosen_records_def filter_map comp_def)
qed

lemma distinct_numbers:
  assumes "distinct vs" and "\<forall>v \<in> set vs. v < of_nat len" and "len < 2 ^ 64"
  shows "length (filter (\<lambda>n. (of_nat n :: size_t) \<in> set vs) [0..<len]) = length vs"
proof -
  have small: "unat (of_nat n :: size_t) = n" if "n \<le> len" for n
    using that assms(3) by (simp add: unat_of_nat)
  have "unat v < len" if "v \<in> set vs" for v
    using that assms(2) small [of len] by (auto simp: word_less_nat_alt)
  then have "{n \<in> {..<len}. (of_nat n :: size_t) \<in> set vs} = unat ` set vs"
    using small by (auto simp: image_iff) (metis less_imp_le_nat)
  moreover have "card (unat ` set vs) = card (set vs)" by (intro card_image inj_onI) (simp add: word_unat_eq_iff)
  ultimately have "card {n \<in> {..<len}. (of_nat n :: size_t) \<in> set vs} = length vs" using distinct_card [OF assms(1)] by simp
  moreover have "set (filter (\<lambda>n. (of_nat n :: size_t) \<in> set vs) [0..<len]) = {n \<in> {..<len}. (of_nat n :: size_t) \<in> set vs}" by auto
  ultimately show ?thesis by (metis distinct_card distinct_filter distinct_upt)
qed

text \<open>
  C39. A random query samples without repetition: asking for at most as many records as the set has
  delivers exactly that many, at different positions of the set and in their order. Records are
  assumed not to be empty, as the parser delivers them.
\<close>

theorem query_random_sample:
  assumes "rec_db_get_rset_by_type db type = Some i" and "rec_rset_wf (db_rset_list db ! i)"
    and "rset_order_by_fields (db_rset_list db ! i) = None" and "\<not> flag_p flags REC_F_DESCRIPTOR" and "\<not> flag_p flags REC_F_UNIQ"
    and "0 < random" and "random \<le> rec_rset_num_records (db_rset_list db ! i)" and "rec_rset_num_records (db_rset_list db ! i) < 2 ^ 64"
    and "list_all (\<lambda>(pos, r). rec_record_num_elems r \<noteq> 0) (rec_rset_records (db_rset_list db ! i))"
  shows "\<exists>res rset' rs ns. rec_db_query env db type None index None None random None None None None flags =
       Some (Some res, db_put db (Some i) rset', None)
    \<and> rset_data res = map SRecord rs \<and> length ns = random \<and> sorted_wrt (<) ns \<and> set ns \<subseteq> {..<rec_rset_num_records (db_rset_list db ! i)}
    \<and> list_all2 same_but_marks rs (map (\<lambda>n. snd (rec_rset_records (db_rset_list db ! i) ! n)) ns)"
proof -
  let ?rset = "db_rset_list db ! i" and ?rs = "map snd (rec_rset_records (db_rset_list db ! i))"
  let ?num = "rec_rset_num_records ?rset"
  have len: "?num = length ?rs" using rec_rset_num_records_eq [OF assms(2)] by simp
  have "unat (of_nat ?num :: size_t) = ?num" using assms(8) by (simp add: unat_of_nat)
  then obtain ix vs where ix: "rec_db_add_random_indexes (env_random env) random (of_nat ?num) = Some ix"
    and vs: "length vs = random" "distinct vs" "\<forall>v \<in> set vs. v < of_nat ?num" "\<And>n. rec_db_index_p ix n \<longleftrightarrow> n \<in> set vs"
    using add_random_indexes_ok [of random "of_nat ?num" "env_random env"] assms(7) by auto
  have eff: "effective_index env index random ?rset = Some (Some ix)" using ix assms(6) by (simp add: effective_index_def)
  define ns where "ns = filter (\<lambda>n. (of_nat n :: size_t) \<in> set vs) [0..<?num]"
  have "chosen_records (chosen (env_sex env) (Some ix) None None (flag_p flags REC_F_ICASE)) 0 ?rs
      = chosen_records (\<lambda>n r. (of_nat n :: size_t) \<in> set vs) 0 ?rs"
    by (simp add: chosen_def [abs_def] vs(4))
  also have "\<dots> = map ((!) ?rs) ns" unfolding chosen_records_numbers ns_def len ..
  also have "\<dots> = map (\<lambda>n. snd (rec_rset_records ?rset ! n)) ns" using len by (auto simp: ns_def)
  finally have ch: "filter (\<lambda>r. rec_record_num_elems r \<noteq> 0)
      (chosen_records (chosen (env_sex env) (Some ix) None None (flag_p flags REC_F_ICASE)) 0 ?rs) = map (\<lambda>n. snd (rec_rset_records ?rset ! n)) ns"
    using assms(9) len by (auto simp: filter_id_conv ns_def list_all_length case_prod_beta')
  have "length ns = random" using distinct_numbers [OF vs(2,3) assms(8)] vs(1) by (simp add: ns_def)
  moreover have "sorted_wrt (<) ns" "set ns \<subseteq> {..<?num}" by (auto simp: ns_def sorted_wrt_filter)
  moreover have "list_all2 same_but_marks rs qs"
    if "list_all2 (\<lambda>r' r. same_but_marks r' r \<and> record_container r' = Some (env_fresh env)) rs qs" for rs qs
    using that by (rule list_all2_mono) simp
  ultimately show ?thesis
    using query_ok [OF assms(1-5) _ eff, of None None] unfolding ch by simp blast
qed

theorem query_random_sample_witness:
  "\<exists>res rset' r. rec_db_query sample_db_env sample_pairs_db None None None None None 1 None None None None 0 =
       Some (Some res, db_put sample_pairs_db (Some 0) rset', None)
     \<and> rset_data res = [SRecord r]"
proof -
  have p: "rec_rset_wf (db_rset_list sample_pairs_db ! 0)" "rset_order_by_fields (db_rset_list sample_pairs_db ! 0) = None"
    using sample_set_wf sample_pairs by simp_all
  have f: "\<not> flag_p 0 REC_F_DESCRIPTOR" "\<not> flag_p 0 REC_F_UNIQ" by (simp_all add: flag_p_def)
  have "list_all (\<lambda>r. rec_record_num_elems r \<noteq> 0) (map snd (rec_rset_records sample_set))"
    unfolding sample_pairs(5) by (simp add: sample_pairs)
  then have ne: "list_all (\<lambda>(pos, r). rec_record_num_elems r \<noteq> 0) (rec_rset_records (db_rset_list sample_pairs_db ! 0))"
    by (simp add: sample_pairs(2) list_all_iff case_prod_beta')
  obtain res rset' rs ns where "rec_db_query sample_db_env sample_pairs_db None None None None None 1 None None None None 0 =
       Some (Some res, db_put sample_pairs_db (Some 0) rset', None)" "rset_data res = map SRecord rs" "length ns = 1"
      "list_all2 same_but_marks rs (map (\<lambda>n. snd (rec_rset_records (db_rset_list sample_pairs_db ! 0) ! n)) ns)"
    using query_random_sample [OF sample_pairs(1) p f _ _ _ ne, of 1 sample_db_env None] sample_pairs(2,4) by auto
  moreover from this obtain r where "rs = [r]" by (auto dest!: list_all2_lengthD simp: length_Suc_conv)
  ultimately show ?thesis by auto
qed

end
