(* ===== verification/Rec_Db_Change.thy ===== *)
theory Rec_Db_Change
  imports Rec_Db_Laws
begin

text \<open>
  Laws of the operations that change a database: a deletion removes exactly the chosen records, an
  insertion puts the record behind the last one, and a join pairs the records whose field and key
  agree.
\<close>

section \<open>Deletion\<close>

text \<open>The elements that stay: comments, and the records that are not chosen; records are numbered from \<open>num\<close>.\<close>

fun undeleted :: "(nat \<Rightarrow> rec_record \<Rightarrow> bool) \<Rightarrow> nat \<Rightarrow> sdata mset_elem list \<Rightarrow> sdata mset_elem list" where
  "undeleted P num [] = []"
| "undeleted P num (e # es) =
     (case elem_record e of
        None \<Rightarrow> e # undeleted P num es
      | Some r \<Rightarrow> (if P num r then [] else [e]) @ undeleted P (Suc num) es)"

lemma undeleted_records: "elem_records (undeleted P num es) = chosen_records (\<lambda>n r. \<not> P n r) num (elem_records es)"
  by (induction es arbitrary: num) (auto split: option.splits)

lemma undeleted_comments:
  "filter (\<lambda>e. elem_type e = MSET_COMMENT) (undeleted P num es) = filter (\<lambda>e. elem_type e = MSET_COMMENT) es"
  by (induction es arbitrary: num) (auto simp: elem_record_def split: option.splits if_splits)

lemma undeleted_none: "elem_records es = [] \<Longrightarrow> undeleted P num es = es"
  by (induction es) (auto split: option.splits)

lemma delete_loop_ok:
  assumes "typed_ok rset_table rset_elem_ok m" and "i \<le> length (mset_elems m)" and "\<not> flag_p flags REC_F_COMMENT_OUT"
    and "pred_option sex_plain sex"
  shows "\<exists>m'. delete_loop env index fast_string flags num i sex m = Some (sex, m') \<and> typed_ok rset_table rset_elem_ok m'
    \<and> list_all2 elem_marked (mset_elems m') (take i (mset_elems m)
         @ undeleted (chosen env index sex fast_string (flag_p flags REC_F_ICASE)) num (drop i (mset_elems m)))"
  using assms(1,2)
proof (induction "length (mset_elems m) - i" arbitrary: num i m)
  case 0
  then show ?case by (simp add: delete_loop.simps)
next
  case (Suc k)
  let ?es = "mset_elems m" and ?e = "mset_elems m ! i" and ?P = "chosen env index sex fast_string (flag_p flags REC_F_ICASE)"
  have i: "i < length ?es" and k: "k = length ?es - Suc i" using Suc.hyps(2) by simp_all
  then have split: "drop i ?es = ?e # drop (Suc i) ?es" "take (Suc i) ?es = take i ?es @ [?e]"
    by (simp_all add: Cons_nth_drop_Suc take_Suc_conv_app_nth)
  have ok: "rset_elem_ok ?e" using Suc.prems(1) i by (simp add: typed_ok_def list_all_length)
  then show ?case
  proof (cases rule: rset_elem_okE)
    case (2 c)
    then have "elem_record ?e = None" by (simp add: elem_record_def)
    moreover have "delete_loop env index fast_string flags num i sex m = delete_loop env index fast_string flags num (Suc i) sex m"
      using 2 i by (subst delete_loop.simps) simp
    ultimately show ?thesis using Suc.hyps(1) [of m "Suc i" num] Suc.hyps(2) Suc.prems(1) i by (simp add: split)
  next
    case (1 r)
    obtain r' where sel: "rec_db_record_selected_p env num r index sex fast_string (flag_p flags REC_F_ICASE) = Some (?P num r, sex, r')"
      and r': "rec_record_wf r'" "same_but_marks r' r"
      using selected_chosen [OF 1(3) assms(4)] by blast
    have er: "elem_record ?e = Some r" using 1 by (simp add: elem_record_def as_record_def)
    show ?thesis
    proof (cases "?P num r")
      case True
      let ?m = "snd (rec_mset_remove_elem m i)"
      have "delete_loop env index fast_string flags num i sex m = delete_loop env index fast_string flags (Suc num) i sex ?m"
        using 1 i sel True assms(3) by (subst delete_loop.simps) simp
      moreover have "mset_elems ?m = take i ?es @ drop (Suc i) ?es" by (rule elems_remove [OF i])
      ultimately show ?thesis
        using Suc.hyps(1) [of ?m i "Suc num"] Suc.hyps(2) rsetm.remove_ok [OF Suc.prems(1), of i] i True er by (simp add: split)
    next
      case False
      let ?m = "rec_mset_elem_set_data m i (SRecord r')" and ?e' = "?e\<lparr>elem_data := SRecord r'\<rparr>"
      have "delete_loop env index fast_string flags num i sex m = delete_loop env index fast_string flags (Suc num) (Suc i) sex ?m"
        using 1 i sel False assms(3) by (subst delete_loop.simps) simp
      moreover have m: "mset_elems ?m = ?es[i := ?e']" by (simp add: rec_mset_elem_set_data_def)
      have "typed_ok rset_table rset_elem_ok ?m"
        using Suc.prems(1) i 1 r'(1) by (intro rsetm.set_data_ok) (simp_all add: rset_elem_ok_def)
      moreover have "k = length (mset_elems ?m) - Suc i" "Suc i \<le> length (mset_elems ?m)" using k i by (simp_all add: m)
      ultimately obtain m' where m': "delete_loop env index fast_string flags num i sex m = Some (sex, m')"
        "typed_ok rset_table rset_elem_ok m'"
        "list_all2 elem_marked (mset_elems m') (take (Suc i) (?es[i := ?e']) @ undeleted ?P (Suc num) (drop (Suc i) (?es[i := ?e'])))"
        using Suc.hyps(1) [of ?m "Suc i" "Suc num"] unfolding m by metis
      have "elem_record ?e' = Some r'" using 1 by (simp add: elem_record_def as_record_def)
      then have "elem_marked ?e' ?e" unfolding elem_marked_def using er r'(2) by blast
      moreover have "take (Suc i) (?es[i := ?e']) = take i ?es @ [?e']" "drop (Suc i) (?es[i := ?e']) = drop (Suc i) ?es"
        using i by (simp_all add: take_Suc_conv_app_nth)
      moreover have "undeleted ?P num (drop i ?es) = ?e # undeleted ?P (Suc num) (drop (Suc i) ?es)"
        unfolding split(1) using er False by simp
      ultimately have mk: "list_all2 elem_marked (take (Suc i) (?es[i := ?e']) @ undeleted ?P (Suc num) (drop (Suc i) (?es[i := ?e'])))
          (take i ?es @ undeleted ?P num (drop i ?es))"
        by (simp only: append_assoc append_Cons append_Nil list_all2_append list_all2_Cons elem_marked_list_refl simp_thms)
      have "list_all2 elem_marked (mset_elems m') (take i ?es @ undeleted ?P num (drop i ?es))"
        by (rule list_all2_trans [OF elem_marked_trans m'(3) mk])
      then show ?thesis by (intro exI [of _ m'] conjI m'(1,2))
    qed
  qed
qed

lemma marked_records:
  "list_all2 elem_marked es fs \<Longrightarrow> list_all2 same_but_marks (elem_records es) (elem_records fs)"
proof (induction rule: list_all2_induct)
  case (Cons e es f fs)
  consider "e = f" | r r' where "elem_record e = Some r" "elem_record f = Some r'" "same_but_marks r r'"
    using Cons(1) unfolding elem_marked_def by blast
  then show ?case
  proof cases
    case 1
    then show ?thesis using Cons(3) by (cases "elem_record f") simp_all
  next
    case 2
    then show ?thesis using Cons(3) by simp
  qed
qed simp

lemma marked_comments:
  "list_all2 elem_marked es fs \<Longrightarrow>
   filter (\<lambda>e. elem_type e = MSET_COMMENT) es = filter (\<lambda>e. elem_type e = MSET_COMMENT) fs"
proof (induction rule: list_all2_induct)
  case (Cons e es f fs)
  have t: "elem_record g = Some q \<Longrightarrow> elem_type g \<noteq> MSET_COMMENT" for g q by (simp add: elem_record_def split: if_splits)
  consider "e = f" | r r' where "elem_record e = Some r" "elem_record f = Some r'"
    using Cons(1) unfolding elem_marked_def by blast
  then show ?case by cases (use Cons(3) t in simp_all)
qed simp

lemma target_rset_bound: "rec_db_wf db \<Longrightarrow> target_rset db type = Some i \<Longrightarrow> i < length (db_rset_list db)"
  using by_type_bound by (fastforce simp: target_rset_def rec_db_wf_def rec_db_size_def split: option.splits if_splits)

lemma delete_ok:
  assumes "target_rset db type = Some i" and "rec_rset_wf (db_rset_list db ! i)" and "\<not> flag_p flags REC_F_COMMENT_OUT"
    and "pred_option sex_plain sex" and "effective_index env index random (db_rset_list db ! i) = Some ix"
    and P_def: "P = chosen (env_sex env) ix sex fast_string (flag_p flags REC_F_ICASE)"
  shows "\<exists>m. rec_db_delete env db type index sex fast_string random flags =
       Some (True, db_put db (Some i) ((db_rset_list db ! i)\<lparr>rset_mset := m\<rparr>), sex)
    \<and> typed_ok rset_table rset_elem_ok m
    \<and> list_all2 elem_marked (mset_elems m) (undeleted P 0 (mset_elems (rset_mset (db_rset_list db ! i))))"
proof -
  let ?rset = "db_rset_list db ! i"
  have ok: "typed_ok rset_table rset_elem_ok (rset_mset ?rset)" using assms(2) by (simp add: rec_rset_wf_def)
  show ?thesis
  proof (cases "rec_rset_num_records ?rset = 0")
    case True
    then have "map snd (rec_rset_records ?rset) = []" using rec_rset_num_records_eq [OF assms(2)] by simp
    then have "undeleted P 0 (mset_elems (rset_mset ?rset)) = mset_elems (rset_mset ?rset)"
      unfolding rset_records_elems by (rule undeleted_none)
    moreover have "rec_db_delete env db type index sex fast_string random flags = Some (True, db, sex)"
      using assms(1) True by (simp add: rec_db_delete_def)
    ultimately show ?thesis using ok by (intro exI [of _ "rset_mset ?rset"]) (simp add: db_put_def)
  next
    case False
    obtain m where m: "delete_loop (env_sex env) ix fast_string flags 0 0 sex (rset_mset ?rset) = Some (sex, m)"
      "typed_ok rset_table rset_elem_ok m"
      "list_all2 elem_marked (mset_elems m) (undeleted P 0 (mset_elems (rset_mset ?rset)))"
      using delete_loop_ok [OF ok _ assms(3,4), of 0 "env_sex env" ix fast_string 0] unfolding P_def [symmetric] by auto
    have "rec_db_delete env db type index sex fast_string random flags =
        Some (True, db_put db (Some i) (?rset\<lparr>rset_mset := m\<rparr>), sex)"
      using assms(1,5) False m(1) by (simp add: rec_db_delete_def)
    then show ?thesis using m(2,3) by blast
  qed
qed

text \<open>
  C3. A deletion removes exactly the chosen records. On the target record set of a database,
  whatever chooses the records, \<open>rec_db_delete\<close> is defined and succeeds: the record set stays
  well-formed and keeps its descriptor, its records are the ones not chosen, in their order, up to
  the marks of their fields, and its comments are untouched. The other record sets stay as they are.
\<close>

theorem delete_selected:
  assumes "rec_db_wf db" and "target_rset db type = Some i" and "rec_rset_wf (db_rset_list db ! i)"
    and "\<not> flag_p flags REC_F_COMMENT_OUT" and "pred_option sex_plain sex"
  shows "\<exists>db' rset'. rec_db_delete env db type index sex fast_string 0 flags = Some (True, db', sex)
    \<and> rec_db_wf db' \<and> db_rset_list db' = (db_rset_list db)[i := rset']
    \<and> rec_rset_wf rset' \<and> rset_descriptor rset' = rset_descriptor (db_rset_list db ! i)
    \<and> list_all2 same_but_marks (map snd (rec_rset_records rset'))
        (chosen_records (\<lambda>n r. \<not> chosen (env_sex env) index sex fast_string (flag_p flags REC_F_ICASE) n r) 0
           (map snd (rec_rset_records (db_rset_list db ! i))))
    \<and> rec_mset_data MSET_COMMENT (rset_mset rset') = rec_mset_data MSET_COMMENT (rset_mset (db_rset_list db ! i))"
proof -
  let ?rset = "db_rset_list db ! i" and ?P = "chosen (env_sex env) index sex fast_string (flag_p flags REC_F_ICASE)"
  have "effective_index env index 0 ?rset = Some index" by (simp add: effective_index_def)
  then obtain m where m: "rec_db_delete env db type index sex fast_string 0 flags =
        Some (True, db_put db (Some i) (?rset\<lparr>rset_mset := m\<rparr>), sex)"
    "typed_ok rset_table rset_elem_ok m" "list_all2 elem_marked (mset_elems m) (undeleted ?P 0 (mset_elems (rset_mset ?rset)))"
    using delete_ok [OF assms(2-5) _ refl] by blast
  have "rec_rset_wf (?rset\<lparr>rset_mset := m\<rparr>)" using assms(3) m(2) by (simp add: rec_rset_wf_def)
  moreover have "list_all2 same_but_marks (map snd (rec_rset_records (?rset\<lparr>rset_mset := m\<rparr>)))
      (chosen_records (\<lambda>n r. \<not> ?P n r) 0 (map snd (rec_rset_records ?rset)))"
    using marked_records [OF m(3)] unfolding rset_records_elems undeleted_records by simp
  moreover have "rec_mset_data MSET_COMMENT m = rec_mset_data MSET_COMMENT (rset_mset ?rset)"
    using marked_comments [OF m(3)] undeleted_comments [of ?P 0] by (simp add: rec_mset_data_def)
  ultimately show ?thesis using m(1) assms(1)
    by (intro exI [of _ "db_put db (Some i) (?rset\<lparr>rset_mset := m\<rparr>)"] exI [of _ "?rset\<lparr>rset_mset := m\<rparr>"])
       (simp add: db_put_def rec_db_wf_def)
qed

theorem delete_selected_witness:
  "\<exists>db' rset' r. rec_db_delete sample_db_env sample_pairs_db None None None (Some ''2'') 0 0 = Some (True, db', None)
     \<and> db_rset_list db' = [rset'] \<and> map snd (rec_rset_records rset') = [r] \<and> same_but_marks r (sample_pair ''1'')"
proof -
  have t: "target_rset sample_pairs_db None = Some 0" and l: "db_rset_list sample_pairs_db = [sample_set]"
    and w: "rec_db_wf sample_pairs_db" by code_simp+
  have p: "rec_rset_wf (db_rset_list sample_pairs_db ! 0)" using sample_set_wf sample_pairs by simp
  have f: "\<not> flag_p 0 REC_F_COMMENT_OUT" by (simp add: flag_p_def)
  have "rec_record_contains_value (sample_pair ''1'') ''2'' False = False" "rec_record_contains_value (sample_pair ''2'') ''2'' False"
    by code_simp+
  then have "chosen_records (\<lambda>n r. \<not> chosen (env_sex sample_db_env) None None (Some ''2'') (flag_p 0 REC_F_ICASE) n r) 0
         (map snd (rec_rset_records (db_rset_list sample_pairs_db ! 0))) = [sample_pair ''1'']"
    by (simp add: sample_pairs chosen_def flag_p_def)
  then show ?thesis
    using delete_selected [OF w t p f, of None sample_db_env None "Some ''2''"]
    by (fastforce simp: list_all2_Cons2 l)
qed

section \<open>Insertion\<close>

lemma elem_records_append [simp]: "elem_records (es @ fs) = elem_records es @ elem_records fs"
  by (induction es) (auto split: option.splits)

lemma sorted_le_last: "sorted xs \<Longrightarrow> x \<in> set xs \<Longrightarrow> x \<le> last (xs :: nat list)"
  by (induction xs) (auto intro: last_in_set)

lemma record_positions_drop:
  assumes "record_positions es \<noteq> []" and "p = last (record_positions es)"
  shows "elem_records (drop (Suc p) es) = []"
proof -
  have none: "elem_record (es ! j) = None" if "p < j" "j < length es" for j
  proof (rule ccontr)
    assume "elem_record (es ! j) \<noteq> None"
    then have "j \<in> set (record_positions es)" using that(2) by (simp add: record_positions_def)
    moreover have "sorted (record_positions es)" unfolding record_positions_def by (intro sorted_wrt_filter) simp
    ultimately have "j \<le> p" unfolding assms(2) by (intro sorted_le_last)
    with that(1) show False by simp
  qed
  have "list_all (\<lambda>e. elem_record e = None) (drop (Suc p) es)" using none by (simp add: list_all_length)
  then show ?thesis unfolding elem_records_def list_all_iff map_filter_def by (simp add: filter_empty_conv)
qed

lemma record_insert_ok:
  assumes "rec_rset_wf rset" and "rec_record_wf r"
  shows "\<exists>p. insert_record rset r = Some (rset\<lparr>rset_mset := snd (rec_mset_insert_at (rset_mset rset) MSET_RECORD (SRecord r) p)\<rparr>)
    \<and> elem_records (drop p (mset_elems (rset_mset rset))) = []"
proof -
  let ?es = "mset_elems (rset_mset rset)"
  have n: "rec_rset_num_records rset = length (record_positions ?es)"
    using rec_rset_num_records_eq [OF assms(1)] by (simp add: rset_records_positions)
  have ps: "map fst (rec_rset_records rset) = record_positions ?es" by (simp add: rset_records_positions comp_def)
  show ?thesis
  proof (cases "record_positions ?es = []")
    case True
    then have "elem_records ?es = []" by (simp add: elem_records_positions)
    then have "elem_records (take p ?es @ drop p ?es) = []" for p by simp
    then have "elem_records (drop p ?es) = []" for p by (simp only: elem_records_append append_is_Nil_conv)
    then show ?thesis using True n by (intro exI [of _ "rset_descriptor_pos rset"]) (simp add: insert_record_def)
  next
    case False
    then have "last_record_pos rset = Some (last (record_positions ?es))"
      by (simp add: last_record_pos_def ps n last_conv_nth Let_def)
    then show ?thesis using False n record_positions_drop [OF False refl] by (auto simp: insert_record_def)
  qed
qed

text \<open>
  C4. An insertion without a selection puts the record behind the last one. For a type with a
  well-formed record set, \<open>rec_db_insert\<close> is defined and succeeds; the records of the set are the
  old ones followed by the given record, completed with its automatic fields and contained in the
  set. The set stays well-formed and keeps its descriptor and its comments, and the other record
  sets of the database stay as they are.
\<close>

theorem insert_appends:
  assumes "rec_db_wf db" and "rec_db_get_rset_by_type db type = Some i" and "rec_rset_wf (db_rset_list db ! i)"
    and "rec_record_num_fields record \<noteq> 0"
    and "insert_auto env (db_rset_list db ! i) flags (rec_record_set_container record (Some i)) = Some r" and "rec_record_wf r"
  shows "\<exists>db' rset'. rec_db_insert env db type None None None 0 None (Some record) flags = Some (True, db', None)
    \<and> rec_db_wf db' \<and> db_rset_list db' = (db_rset_list db)[i := rset']
    \<and> rec_rset_wf rset' \<and> rset_descriptor rset' = rset_descriptor (db_rset_list db ! i)
    \<and> map snd (rec_rset_records rset') = map snd (rec_rset_records (db_rset_list db ! i)) @ [r]
    \<and> rec_mset_data MSET_COMMENT (rset_mset rset') = rec_mset_data MSET_COMMENT (rset_mset (db_rset_list db ! i))"
proof -
  let ?rset = "db_rset_list db ! i" and ?es = "mset_elems (rset_mset (db_rset_list db ! i))"
  have ok: "typed_ok rset_table rset_elem_ok (rset_mset ?rset)" using assms(3) by (simp add: rec_rset_wf_def)
  have e: "rset_elem_ok \<lparr>elem_type = MSET_RECORD, elem_data = SRecord r\<rparr>" using assms(6) by (simp add: rset_elem_ok_def)
  obtain p where p: "insert_record ?rset r = Some (?rset\<lparr>rset_mset := snd (rec_mset_insert_at (rset_mset ?rset) MSET_RECORD (SRecord r) p)\<rparr>)"
    "elem_records (drop p ?es) = []"
    using record_insert_ok [OF assms(3,6)] by blast
  define m where "m = snd (rec_mset_insert_at (rset_mset ?rset) MSET_RECORD (SRecord r) p)"
  note ins = rsetm.insert_ok [OF ok e, of p, folded m_def]
  have "elem_records ?es = elem_records (take p ?es @ drop p ?es)" by simp
  then have "elem_records ?es = elem_records (take p ?es)" by (simp only: elem_records_append p(2) append_Nil2)
  then have rs: "map snd (rec_rset_records (?rset\<lparr>rset_mset := m\<rparr>)) = map snd (rec_rset_records ?rset) @ [r]"
    unfolding rset_records_elems by (simp add: ins(3) p(2) elem_record_def as_record_def)
  have "rec_mset_data MSET_COMMENT (rset_mset ?rset) =
      map elem_data (filter (\<lambda>e. MSET_COMMENT = MSET_ANY \<or> elem_type e = MSET_COMMENT) (take p ?es @ drop p ?es))"
    by (simp only: rec_mset_data_def append_take_drop_id)
  then have cs: "rec_mset_data MSET_COMMENT m = rec_mset_data MSET_COMMENT (rset_mset ?rset)"
    unfolding filter_append by (simp add: rec_mset_data_def ins(3))
  have "rec_db_insert env db type None None None 0 None (Some record) flags = Some (True, db_put db (Some i) (?rset\<lparr>rset_mset := m\<rparr>), None)"
    using assms(2,4,5) p(1) by (simp add: rec_db_insert_def insert_append_def insert_encrypt_def m_def Let_def)
  moreover have "rec_rset_wf (?rset\<lparr>rset_mset := m\<rparr>)" using assms(3) ins(1) by (simp add: rec_rset_wf_def)
  ultimately show ?thesis using rs cs assms(1)
    by (intro exI [of _ "db_put db (Some i) (?rset\<lparr>rset_mset := m\<rparr>)"] exI [of _ "?rset\<lparr>rset_mset := m\<rparr>"])
       (simp add: db_put_def rec_db_wf_def)
qed

theorem insert_appends_witness:
  "\<exists>db' rset'. rec_db_insert sample_db_env sample_pairs_db None None None None 0 None (Some (sample_pair ''3'')) REC_F_NOAUTO = Some (True, db', None)
     \<and> db_rset_list db' = [rset']
     \<and> map snd (rec_rset_records rset') = [sample_pair ''1'', sample_pair ''2'', rec_record_set_container (sample_pair ''3'') (Some 0)]"
proof -
  have l: "db_rset_list sample_pairs_db = [sample_set]" and w: "rec_db_wf sample_pairs_db"
    and n: "rec_record_num_fields (sample_pair ''3'') = 2" by code_simp+
  have p: "rec_rset_wf (db_rset_list sample_pairs_db ! 0)" using sample_set_wf sample_pairs by simp
  have a: "insert_auto sample_db_env (db_rset_list sample_pairs_db ! 0) REC_F_NOAUTO (rec_record_set_container (sample_pair ''3'') (Some 0))
      = Some (rec_record_set_container (sample_pair ''3'') (Some 0))"
    by (simp add: insert_auto_def flag_p_def REC_F_NOAUTO_def)
  show ?thesis
    using insert_appends [OF w sample_pairs(1) p _ a] n sample_pair_wf [of "''3''"] sample_pairs(2,5) by (auto simp: l)
qed

end
