(* ===== verification/Rec_Db_Join.thy ===== *)
theory Rec_Db_Join
  imports Rec_Db_Change
begin

text \<open>
  Joins: the result of \<open>rec_db_join\<close> holds, for every pair of records whose field and key agree, the
  fields of the first record without the joining field and the fields of the second one with
  prefixed names.
\<close>

section \<open>Removing the joining field\<close>

lemma count_name_matches:
  assumes "rec_record_wf r"
  shows "rec_record_get_num_fields_by_name r n = length (filter (name_matches n) (mset_elems (record_mset r)))"
proof -
  have "length (filter (\<lambda>f. field_name f = n) (elem_fields es)) = length (filter (name_matches n) es)"
    if "list_all record_elem_ok es" for es
    using that
  proof (induction es)
    case (Cons e es)
    then have "record_elem_ok e" by simp
    then show ?case using Cons by (cases rule: record_elem_okE) (simp_all add: name_matches_def)
  qed simp
  then show ?thesis
    using assms by (simp add: rec_record_get_num_fields_by_name_eq rec_record_wf_def record_mset_ok_def)
qed

lemma remove_while_ok:
  assumes "rec_record_wf r" and "length (mset_elems (record_mset r)) \<le> 2 ^ 64"
    and "rec_record_get_num_fields_by_name r n = k"
  shows "rec_record_wf (remove_while n k r)
    \<and> mset_elems (record_mset (remove_while n k r)) = filter (\<lambda>e. \<not> name_matches n e) (mset_elems (record_mset r))"
  using assms
proof (induction k arbitrary: r)
  case 0
  then have "filter (name_matches n) (mset_elems (record_mset r)) = []" using count_name_matches [OF 0(1), of n] by simp
  then show ?case using 0(1) by (auto simp: filter_empty_conv filter_id_conv)
next
  case (Suc k)
  let ?es = "mset_elems (record_mset r)" and ?r = "rec_record_remove_field_by_name r n 0"
  have ok: "record_mset_ok (record_mset r)" using Suc.prems(1) by (simp add: rec_record_wf_def)
  have es: "mset_elems (record_mset ?r) = remove_named n 0 0 ?es"
    using remove_by_name_loop_ok [OF ok, of n 0 0 0] by (simp add: rec_record_remove_field_by_name_def)
  note one = remove_named_one [of 0 0 ?es n, simplified, OF Suc.prems(2) [simplified]]
  have wf: "rec_record_wf ?r" by (rule rec_record_remove_field_by_name_wf [OF Suc.prems(1)])
  have "length (filter (name_matches n) ?es) = Suc k" using count_name_matches [OF Suc.prems(1), of n] Suc.prems(3) by simp
  then have "rec_record_get_num_fields_by_name ?r n = k" using count_name_matches [OF wf, of n] one by (simp add: es)
  moreover have "length (remove_named n 0 num fs) \<le> length fs" for num fs by (induction fs arbitrary: num) (auto intro: le_SucI)
  then have "length (mset_elems (record_mset ?r)) \<le> 2 ^ 64" using Suc.prems(2) unfolding es by (rule order_trans)
  ultimately show ?case using Suc.IH [OF wf] Suc.prems(3) one by (simp add: es)
qed

section \<open>Merging two records\<close>

definition prefixed :: "string \<Rightarrow> rec_field \<Rightarrow> rdata mset_elem" where
  "prefixed p f = \<lparr>elem_type = MSET_FIELD, elem_data = DField (rec_field_set_name (rec_field_dup f) (p @ ''_'' @ field_name f))\<rparr>"

lemma append_field_ok:
  assumes "rec_record_wf r" and "rec_field_wf f"
  shows "rec_record_wf (record_append_field r f MSET_ANY)"
    and "mset_elems (record_mset (record_append_field r f MSET_ANY)) =
      mset_elems (record_mset r) @ [\<lparr>elem_type = MSET_FIELD, elem_data = DField f\<rparr>]"
proof -
  have "record_elem_ok \<lparr>elem_type = MSET_FIELD, elem_data = DField f\<rparr>" using assms(2) by (simp add: record_elem_ok_def)
  then show "rec_record_wf (record_append_field r f MSET_ANY)"
    "mset_elems (record_mset (record_append_field r f MSET_ANY)) =
      mset_elems (record_mset r) @ [\<lparr>elem_type = MSET_FIELD, elem_data = DField f\<rparr>]"
    using assms(1) record_append_ok [of "record_mset r" MSET_FIELD "DField f"]
    by (simp_all add: rec_record_wf_def record_append_field_def)
qed

lemma merge_fold:
  assumes "rec_record_wf r" and "list_all (rec_field_wf \<circ> snd) fs"
  shows "rec_record_wf (fold (\<lambda>(_, f) m. record_append_field m (rec_field_set_name (rec_field_dup f) (p @ ''_'' @ field_name f)) MSET_ANY) fs r)
    \<and> mset_elems (record_mset (fold (\<lambda>(_, f) m. record_append_field m (rec_field_set_name (rec_field_dup f) (p @ ''_'' @ field_name f)) MSET_ANY) fs r))
      = mset_elems (record_mset r) @ map (prefixed p \<circ> snd) fs"
  using assms
proof (induction fs arbitrary: r)
  case (Cons x fs)
  obtain i f where x: "x = (i, f)" by fastforce
  have "rec_field_wf (rec_field_set_name (rec_field_dup f) n)" for n
    using Cons.prems(2) by (simp add: x rec_field_dup_id rec_field_set_wf)
  from append_field_ok [OF Cons.prems(1) this] Cons.IH [OF append_field_ok(1) [OF Cons.prems(1) this]] Cons.prems(2)
  show ?case by (simp add: x prefixed_def)
qed simp

text \<open>The names and values of a joined record.\<close>

definition joined_keys :: "string \<Rightarrow> rec_record \<Rightarrow> rec_record \<Rightarrow> (string \<times> string) list" where
  "joined_keys field r1 r2 =
     filter (\<lambda>(n, v). n \<noteq> field) (fkeys r1) @ map (\<lambda>(n, v). (field @ ''_'' @ n, v)) (fkeys r2)"

lemma elem_fields_prefixed:
  assumes "cstring p" and "list_all (rec_field_wf \<circ> snd) fs"
  shows "map (\<lambda>f. (field_name f, field_value f)) (elem_fields (map (prefixed p \<circ> snd) fs)) =
    map (\<lambda>f. (p @ ''_'' @ field_name f, field_value f)) (map snd fs)"
  using assms(2)
proof (induction fs)
  case (Cons x fs)
  have "rec_field_wf (snd x)" using Cons.prems by simp
  then have "cstring (p @ ''_'' @ field_name (snd x))" "rec_field_dup (snd x) = snd x"
    using assms(1) by (simp_all add: rec_field_wf_def rec_field_dup_id cstring_def)
  then show ?case using Cons by (simp add: prefixed_def rec_field_set_name_def)
qed simp

lemma joined_record:
  assumes "rec_record_wf r1" and "rec_record_wf r2" and "cstring field"
    and "rec_record_num_elems r1 < 2 ^ 63" and "rec_record_num_elems r2 < 2 ^ 63"
  shows "\<exists>r. rec_db_merge_records r1 r2 field = Some r
    \<and> rec_record_wf (remove_while field (rec_record_get_num_fields_by_name r field) r)
    \<and> fkeys (remove_while field (rec_record_get_num_fields_by_name r field) r) = joined_keys field r1 r2"
proof -
  let ?fs = "rec_record_fields r2"
  have fs: "list_all (rec_field_wf \<circ> snd) ?fs" by (rule record_fields_wf [OF assms(2)])
  obtain r where r: "rec_db_merge_records r1 r2 field = Some r" "rec_record_wf r"
    "mset_elems (record_mset r) = mset_elems (record_mset r1) @ map (prefixed field \<circ> snd) ?fs"
    using merge_fold [OF assms(1) fs, of field] by (simp add: rec_db_merge_records_def rec_record_dup_id [OF assms(1)])
  have n: "rec_record_num_elems q = length (mset_elems (record_mset q))" if "rec_record_wf q" for q
    using mset_wf_count [OF recm.ok_wf(1), of "record_mset q" MSET_ANY] that
    by (simp add: rec_record_num_elems_def rec_mset_count_def rec_record_wf_def record_mset_ok_typed MAX_NTYPES_def)
  have "length (elem_fields es) \<le> length es" for es by (induction es) (auto split: option.split)
  then have "length (map snd ?fs) \<le> length (mset_elems (record_mset r2))" unfolding rec_record_fields_elems .
  then have "length (mset_elems (record_mset r)) \<le> 2 ^ 64" using assms(4,5) n [OF assms(1)] n [OF assms(2)] unfolding r(3) by simp
  from remove_while_ok [OF r(2) this refl, of field]
  have w: "rec_record_wf (remove_while field (rec_record_get_num_fields_by_name r field) r)"
    and e: "mset_elems (record_mset (remove_while field (rec_record_get_num_fields_by_name r field) r)) =
      filter (\<lambda>e. \<not> name_matches field e) (mset_elems (record_mset r1) @ map (prefixed field \<circ> snd) ?fs)"
    by (simp_all add: r(3))
  have "fkeys (remove_while field (rec_record_get_num_fields_by_name r field) r) =
      filter (\<lambda>(n, v). n \<noteq> field) (map (\<lambda>f. (field_name f, field_value f)) (elem_fields (mset_elems (record_mset r1) @ map (prefixed field \<circ> snd) ?fs)))"
    unfolding fkeys_elems e elem_fields_filter_names by (simp add: filter_map comp_def)
  also have "\<dots> = joined_keys field r1 r2"
    using elem_fields_prefixed [OF assms(3) fs]
    by (simp add: joined_keys_def fkeys_elems [of r1] fkeys_def [of r2] filter_map comp_def)
  finally show ?thesis using r(1) w by blast
qed

section \<open>The loops\<close>

text \<open>The pairs that are joined: the first key of the second record is a value of the field in the first one.\<close>

definition joins :: "string \<Rightarrow> string \<Rightarrow> rec_record \<Rightarrow> rec_record \<Rightarrow> bool" where
  "joins field key r1 r2 \<longleftrightarrow> hd (named_values_of key r2) \<in> set (named_values_of field r1)"

definition joinable :: "rec_record \<Rightarrow> bool" where
  "joinable r \<longleftrightarrow> rec_record_wf r \<and> rec_record_num_elems r < 2 ^ 63"

text \<open>The state of the loops: a new record set with records of these names and values.\<close>

definition join_state :: "(string \<times> string) list list \<Rightarrow> rec_rset \<Rightarrow> bool" where
  "join_state ks j \<longleftrightarrow> rec_rset_wf j \<and> map fkeys (map snd (rec_rset_records j)) = ks"

lemma join_append:
  assumes "join_state ks j" and "rec_record_wf r"
  shows "join_state (ks @ [fkeys r]) (j\<lparr>rset_mset := snd (rec_mset_append (rset_mset j) MSET_RECORD
      (SRecord (rec_record_set_container r (Some a))) MSET_ANY)\<rparr>)" (is "join_state _ (j\<lparr>rset_mset := ?m\<rparr>)")
proof -
  let ?r = "rec_record_set_container r (Some a)"
  have j: "rec_rset_wf j" "map fkeys (map snd (rec_rset_records j)) = ks" using assms(1) by (simp_all add: join_state_def)
  then have ok: "typed_ok rset_table rset_elem_ok (rset_mset j)" by (simp add: rec_rset_wf_def)
  have e: "rset_elem_ok \<lparr>elem_type = MSET_RECORD, elem_data = SRecord ?r\<rparr>" using assms(2) by (simp add: rset_elem_ok_def)
  note app = rsetm.append_ok [OF ok e]
  have "fkeys ?r = fkeys r" by (simp add: fkeys_elems rec_record_set_container_def)
  then have "map fkeys (elem_records (mset_elems ?m)) = map fkeys (elem_records (mset_elems (rset_mset j))) @ [fkeys r]"
    unfolding app(2) by (simp add: elem_record_def as_record_def)
  then have "map fkeys (map snd (rec_rset_records (j\<lparr>rset_mset := ?m\<rparr>))) = ks @ [fkeys r]"
    using j(2) unfolding rset_records_elems by simp
  then show ?thesis unfolding join_state_def using j(1) app(1) by (simp add: rec_rset_wf_def)
qed

lemma join_records_ok:
  assumes "joinable r1" and "cstring field" and "list_all (\<lambda>r. joinable r \<and> named_values_of key r \<noteq> []) rs" and "join_state ks j"
  shows "\<exists>j'. join_records a field key 0 r1 rs j = Some j' \<and> join_state (ks @ map (joined_keys field r1) (filter (joins field key r1) rs)) j'"
  using assms(3,4)
proof (induction rs arbitrary: ks j)
  case (Cons r2 rs)
  have r2: "joinable r2" "named_values_of key r2 \<noteq> []" and rs: "list_all (\<lambda>r. joinable r \<and> named_values_of key r \<noteq> []) rs"
    using Cons.prems(1) by simp_all
  obtain pos f where f: "rec_record_get_field_by_name r2 key 0 = Some (pos, f)" "hd (named_values_of key r2) = field_value f"
    using r2(2) by (cases "filter (\<lambda>(i, f). field_name f = key) (rec_record_fields r2)")
      (auto simp: named_values_of_eq rec_record_get_field_by_name_eq)
  show ?case
  proof (cases "joins field key r1 r2")
    case False
    then have "join_records a field key 0 r1 (r2 # rs) j = join_records a field key 0 r1 rs j"
      using f by (simp add: joins_def)
    then show ?thesis using Cons.IH [OF rs Cons.prems(2)] False by simp
  next
    case True
    obtain r where r: "rec_db_merge_records r1 r2 field = Some r"
      "rec_record_wf (remove_while field (rec_record_get_num_fields_by_name r field) r)"
      "fkeys (remove_while field (rec_record_get_num_fields_by_name r field) r) = joined_keys field r1 r2"
      using joined_record [of r1 r2 field] assms(1,2) r2(1) unfolding joinable_def by blast
    let ?r = "remove_while field (rec_record_get_num_fields_by_name r field) r"
    have "join_records a field key 0 r1 (r2 # rs) j = join_records a field key 0 r1 rs
        (j\<lparr>rset_mset := snd (rec_mset_append (rset_mset j) MSET_RECORD (SRecord (rec_record_set_container ?r (Some a))) MSET_ANY)\<rparr>)"
      using f True r(1) by (simp add: joins_def Let_def)
    then show ?thesis using Cons.IH [OF rs join_append [OF Cons.prems(2) r(2), of a]] True r(3) by simp
  qed
qed simp

lemma join_record_ok:
  assumes "joinable r1" and "rec_record_get_num_fields_by_name r1 field \<le> 1" and "cstring field"
    and "list_all (\<lambda>r. joinable r \<and> named_values_of key r \<noteq> []) rs" and "join_state ks j"
  shows "\<exists>j'. join_record a field key rs r1 (Some j) = Some j' \<and> join_state (ks @ map (joined_keys field r1) (filter (joins field key r1) rs)) j'"
proof (cases "rec_record_get_num_fields_by_name r1 field")
  case 0
  then have "named_values_of field r1 = []" by (simp add: named_values_of_def)
  then have "filter (joins field key r1) rs = []" by (simp add: joins_def filter_empty_conv)
  then show ?thesis using 0 assms(5) by (simp add: join_record_def)
next
  case (Suc k)
  then have "rec_record_get_num_fields_by_name r1 field = 1" using assms(2) by simp
  then show ?thesis using join_records_ok [OF assms(1,3-5), of a] by (simp add: join_record_def)
qed

lemma join_fold_ok:
  assumes "list_all (\<lambda>r. joinable r \<and> rec_record_get_num_fields_by_name r field \<le> 1) rs1" and "cstring field"
    and "list_all (\<lambda>r. joinable r \<and> named_values_of key r \<noteq> []) rs2" and "join_state ks j"
  shows "\<exists>j'. fold (join_record a field key rs2) rs1 (Some j) = Some j'
    \<and> join_state (ks @ concat (map (\<lambda>r1. map (joined_keys field r1) (filter (joins field key r1) rs2)) rs1)) j'"
  using assms(1,4)
proof (induction rs1 arbitrary: ks j)
  case (Cons r1 rs1)
  then obtain j1 where j1: "join_record a field key rs2 r1 (Some j) = Some j1"
    "join_state (ks @ map (joined_keys field r1) (filter (joins field key r1) rs2)) j1"
    using join_record_ok [of r1 field key rs2 ks j a] assms(2,3) by auto
  have "list_all (\<lambda>r. joinable r \<and> rec_record_get_num_fields_by_name r field \<le> 1) rs1" using Cons.prems(1) by simp
  from Cons.IH [OF this j1(2)] j1(1) show ?case by simp
qed simp

lemma join_descriptor:
  "descr_ok ext (record_append_field rec_record_new (rec_field_new (FNAME REC_FIELD_REC) v) MSET_ANY)"
proof -
  let ?r = "record_append_field rec_record_new (rec_field_new (FNAME REC_FIELD_REC) v) MSET_ANY"
  have "rec_field_wf (rec_field_new (FNAME REC_FIELD_REC) v)" by simp
  from append_field_ok(2) [OF rec_record_new_wf this]
  have "fkeys ?r = [(field_name (rec_field_new (FNAME REC_FIELD_REC) v), field_value (rec_field_new (FNAME REC_FIELD_REC) v))]"
    by (simp add: fkeys_elems rec_record_new_eq)
  then have "record_items ?r = [(''%rec'', strdup v)]"
    by (simp add: record_items_def fkeys_def comp_def case_prod_beta' rec_field_new_def field_op_defs)
  then show ?thesis by (simp add: descr_ok_def directive_ok_def)
qed

text \<open>
  C5. The join of two record sets has exactly the matching pairs. When the records of the first set
  have the joining field at most once and the records of the second set have their key, \<open>rec_db_join\<close>
  is defined and delivers a well-formed record set with one record for every record of the first
  and every record of the second set whose first key is the value of the field, in the order of
  the first and then of the second set: the fields of the first record without the joining field,
  followed by the fields of the second one with the name of the field as prefix.
\<close>

theorem join_pairs:
  assumes "rec_db_get_rset_by_type db (Some t1) = Some i1" and "rec_db_get_rset_by_type db type2 = Some i2"
    and "rec_rset_key (db_rset_list db ! i2) = Some key" and "cstring field"
    and "list_all (\<lambda>(pos, r). joinable r \<and> rec_record_get_num_fields_by_name r field \<le> 1) (rec_rset_records (db_rset_list db ! i1))"
    and "list_all (\<lambda>(pos, r). joinable r \<and> rec_record_field_p r key) (rec_rset_records (db_rset_list db ! i2))"
  shows "\<exists>join. rec_db_join env db (Some t1) field type2 = Some (Some join) \<and> rec_rset_wf join
    \<and> map fkeys (map snd (rec_rset_records join)) =
        concat (map (\<lambda>r1. map (joined_keys field r1) (filter (joins field key r1) (map snd (rec_rset_records (db_rset_list db ! i2)))))
          (map snd (rec_rset_records (db_rset_list db ! i1))))"
proof -
  let ?rs1 = "map snd (rec_rset_records (db_rset_list db ! i1))" and ?rs2 = "map snd (rec_rset_records (db_rset_list db ! i2))"
  let ?d = "record_append_field rec_record_new (rec_field_new (FNAME REC_FIELD_REC) (rec_concat_strings t1 ''_'' field)) MSET_ANY"
  have 1: "list_all (\<lambda>r. joinable r \<and> rec_record_get_num_fields_by_name r field \<le> 1) ?rs1"
    using assms(5) by (simp add: list_all_iff case_prod_beta')
  have "named_values_of key r \<noteq> []" if "rec_record_field_p r key" for r
    using that by (simp add: named_values_of_def rec_record_field_p_def)
  then have 2: "list_all (\<lambda>r. joinable r \<and> named_values_of key r \<noteq> []) ?rs2"
    using assms(6) by (auto simp: list_all_iff case_prod_beta')
  have "join_state [] rec_rset_new" unfolding join_state_def rset_records_elems using rec_rset_new_wf by (simp add: rec_rset_new_eq)
  from join_fold_ok [OF 1 assms(4) 2 this, of "env_fresh env"] obtain j where
    j: "fold (join_record (env_fresh env) field key ?rs2) ?rs1 (Some rec_rset_new) = Some j"
    "join_state (concat (map (\<lambda>r1. map (joined_keys field r1) (filter (joins field key r1) ?rs2)) ?rs1)) j" by auto
  obtain join where join: "rec_rset_set_descriptor (env_ext env) j (Some ?d) = Some join"
    using set_descriptor_defined [OF join_descriptor] by blast
  note core = rset_coreD [OF set_descriptor_core [OF join]]
  have "rec_record_wf ?d" by (intro append_field_ok(1)) simp_all
  then have "rec_rset_wf join" using core(7) j(2) by (simp add: join_state_def rec_rset_wf_def)
  moreover have "rec_rset_records join = rec_rset_records j" using core(3) by (simp add: rec_rset_records_def)
  moreover have "rec_db_join env db (Some t1) field type2 = Some (Some join)"
    using assms(1-3) j(1) join by (simp add: rec_db_join_def Let_def)
  ultimately show ?thesis using j(2) unfolding join_state_def by auto
qed

definition sample_fields :: "(string \<times> string) list \<Rightarrow> rec_record" where
  "sample_fields kvs = fold (\<lambda>(n, v) r. record_add r MSET_FIELD (DField (rec_field_new n v))) kvs rec_record_new"

definition sample_rset :: "string \<Rightarrow> string \<Rightarrow> rec_record list \<Rightarrow> rec_rset" where
  "sample_rset ty key rs = fold (\<lambda>r s. rset_append_record s r MSET_ANY) rs
     (rec_rset_new\<lparr>rset_descriptor := Some (sample_fields [(''%rec'', ty), (''%key'', key)]),
        rset_field_props := [\<lparr>props_fname = key, props_key_p = True, props_auto_p = False, props_confidential_p = False,
          props_type = None, props_type_name = None\<rparr>]\<rparr>)"

definition sample_staff :: rec_db where
  "sample_staff = rec_db_insert_rset (rec_db_insert_rset rec_db_new
     (sample_rset ''Person'' ''Name'' [sample_fields [(''Name'', ''Ada''), (''Dept'', ''b'')], sample_fields [(''Name'', ''Bob'')]]) 0)
     (sample_rset ''Dept'' ''Id'' [sample_fields [(''Id'', ''a''), (''City'', ''Rome'')], sample_fields [(''Id'', ''b''), (''City'', ''Oslo'')]]) 1"

lemma sample_fields_wf: "rec_record_wf (sample_fields kvs)"
proof -
  have "rec_record_wf (fold (\<lambda>(n, v) r. record_add r MSET_FIELD (DField (rec_field_new n v))) kvs r)" if "rec_record_wf r" for r
    using that
  proof (induction kvs arbitrary: r)
    case (Cons kv kvs)
    obtain n v where kv: "kv = (n, v)" by fastforce
    have "rec_record_wf (record_add r MSET_FIELD (DField (rec_field_new n v)))"
      using Cons.prems by (intro record_add_wf) (simp_all add: record_elem_ok_def)
    from Cons.IH [OF this] show ?case by (simp add: kv)
  qed simp
  then show ?thesis by (simp add: sample_fields_def)
qed

lemma list_all_snd: "list_all P (map snd xs) = list_all (\<lambda>(i, x). P x) xs"
  by (simp add: list_all_iff case_prod_beta')

theorem join_pairs_witness:
  "\<exists>join. rec_db_join sample_db_env sample_staff (Some ''Person'') ''Dept'' (Some ''Dept'') = Some (Some join)
     \<and> map fkeys (map snd (rec_rset_records join)) = [[(''Name'', ''Ada''), (''Dept_Id'', ''b''), (''Dept_City'', ''Oslo'')]]"
proof -
  let ?p = "sample_fields [(''Name'', ''Ada''), (''Dept'', ''b'')]" and ?q = "sample_fields [(''Name'', ''Bob'')]"
  let ?a = "sample_fields [(''Id'', ''a''), (''City'', ''Rome'')]" and ?b = "sample_fields [(''Id'', ''b''), (''City'', ''Oslo'')]"
  have t: "rec_db_get_rset_by_type sample_staff (Some ''Person'') = Some 0" "rec_db_get_rset_by_type sample_staff (Some ''Dept'') = Some 1"
    "rec_rset_key (db_rset_list sample_staff ! 1) = Some ''Id''" "cstring ''Dept''"
    by code_simp+
  have rs: "map snd (rec_rset_records (db_rset_list sample_staff ! 0)) = [?p, ?q]" "map snd (rec_rset_records (db_rset_list sample_staff ! 1)) = [?a, ?b]"
    by code_simp+
  have n: "rec_record_num_elems ?p = 2" "rec_record_num_elems ?q = 1" "rec_record_num_elems ?a = 2" "rec_record_num_elems ?b = 2"
    "rec_record_get_num_fields_by_name ?p ''Dept'' = 1" "rec_record_get_num_fields_by_name ?q ''Dept'' = 0"
    "rec_record_field_p ?a ''Id''" "rec_record_field_p ?b ''Id''"
    by code_simp+
  have k: "concat (map (\<lambda>r1. map (joined_keys ''Dept'' r1) (filter (joins ''Dept'' ''Id'' r1) [?a, ?b])) [?p, ?q]) =
      [[(''Name'', ''Ada''), (''Dept_Id'', ''b''), (''Dept_City'', ''Oslo'')]]"
    by code_simp
  have "joinable ?p" "joinable ?q" "joinable ?a" "joinable ?b" by (simp_all add: joinable_def sample_fields_wf n)
  then have j: "list_all (\<lambda>(pos, r). joinable r \<and> rec_record_get_num_fields_by_name r ''Dept'' \<le> 1) (rec_rset_records (db_rset_list sample_staff ! 0))"
    "list_all (\<lambda>(pos, r). joinable r \<and> rec_record_field_p r ''Id'') (rec_rset_records (db_rset_list sample_staff ! 1))"
    unfolding list_all_snd [symmetric] rs by (simp_all add: n)
  obtain join where "rec_db_join sample_db_env sample_staff (Some ''Person'') ''Dept'' (Some ''Dept'') = Some (Some join)"
    "map fkeys (map snd (rec_rset_records join)) = [[(''Name'', ''Ada''), (''Dept_Id'', ''b''), (''Dept_City'', ''Oslo'')]]"
    using join_pairs [OF t j, of sample_db_env] unfolding rs k by (elim exE conjE) (rule that)
  then show ?thesis by (intro exI conjI)
qed

end
