(* ===== verification/Rec_Int_Laws.thy ===== *)
theory Rec_Int_Laws
  imports Rec_Int Rec_Db_Join
begin

text \<open>
  Laws of the integrity checks: a record passes exactly when it satisfies what its descriptor
  declares, and in a database without errors keys are unique, record sets have their sizes and
  all records are valid.
\<close>

section \<open>What a check computes\<close>

text \<open>
  A check adds a number of errors to its state; the number is 0 exactly when the condition holds,
  and then no message is written.
\<close>

definition checks :: "bool \<Rightarrow> check_state \<Rightarrow> check_state \<Rightarrow> bool" where
  "checks P st st' \<longleftrightarrow> fst st \<le> fst st' \<and> (fst st' = fst st \<longleftrightarrow> P) \<and> (P \<longrightarrow> st' = st)"

lemma checks_refl: "P \<Longrightarrow> checks P st st"
  by (simp add: checks_def)

lemma checks_report: "\<not> P \<Longrightarrow> checks P st (report msg st)"
  by (simp add: checks_def report_def case_prod_beta)

lemma checks_trans: "checks P s t \<Longrightarrow> checks Q t u \<Longrightarrow> R = (P \<and> Q) \<Longrightarrow> checks R s u"
  unfolding checks_def by auto

lemma checks_le: "checks P s t \<Longrightarrow> fst s \<le> fst t"
  by (simp add: checks_def)

lemma checks_fold:
  assumes "\<And>x st. x \<in> set xs \<Longrightarrow> checks (P x) st (f x st)"
  shows "checks (\<forall>x \<in> set xs. P x) st (fold f xs st)"
  using assms
proof (induction xs arbitrary: st)
  case Nil
  then show ?case by (simp add: checks_refl)
next
  case (Cons x xs)
  have "checks (\<forall>x \<in> set xs. P x) (f x st) (fold f xs (f x st))" using Cons.IH Cons.prems by simp
  from checks_trans [OF Cons.prems [of x st] this] show ?case by simp
qed

lemma checks_names: "checks (\<forall>n \<in> set names. \<not> P n) st (report_names P msg names st)"
  unfolding report_names_def by (rule checks_fold) (simp add: checks_refl checks_report)

section \<open>The names and values of a record\<close>

definition values_of :: "rec_record \<Rightarrow> string \<Rightarrow> string list" where
  "values_of r n = map snd (filter (\<lambda>(m, v). m = n) (fkeys r))"

lemma num_values: "rec_record_get_num_fields_by_name r n = length (values_of r n)"
  by (simp add: num_by_name values_of_def)

lemma first_value:
  "rec_record_get_field_by_name r n 0 = None \<longleftrightarrow> values_of r n = []"
  "rec_record_get_field_by_name r n 0 = Some (pos, f) \<Longrightarrow> values_of r n \<noteq> [] \<and> hd (values_of r n) = field_value f \<and> field_name f = n"
proof -
  let ?gs = "filter (\<lambda>(i, f). field_name f = n) (rec_record_fields r)"
  have v: "values_of r n = map (\<lambda>(i, f). field_value f) ?gs" by (simp add: values_of_def named_values)
  show "rec_record_get_field_by_name r n 0 = None \<longleftrightarrow> values_of r n = []"
    by (simp add: rec_record_get_field_by_name_eq v Let_def)
  assume "rec_record_get_field_by_name r n 0 = Some (pos, f)"
  then have g: "?gs \<noteq> []" "?gs ! 0 = (pos, f)" by (simp_all add: rec_record_get_field_by_name_eq Let_def split: if_splits)
  then have "(pos, f) \<in> set ?gs" by (metis length_greater_0_conv nth_mem)
  then show "values_of r n \<noteq> [] \<and> hd (values_of r n) = field_value f \<and> field_name f = n"
    using g by (simp add: v hd_map hd_conv_nth)
qed

lemma fields_by_name_eq: "fields_by_name r n = map snd (filter (\<lambda>(i, f). field_name f = n) (rec_record_fields r))"
proof -
  let ?gs = "filter (\<lambda>(i, f). field_name f = n) (rec_record_fields r)"
  have len: "rec_record_get_num_fields_by_name r n = length ?gs"
    by (simp add: rec_record_get_num_fields_by_name_def rec_field_name_equal_p_def)
  have "fields_by_name r n = map (\<lambda>i. snd (?gs ! i)) [0..<length ?gs]"
    unfolding fields_by_name_def len map_filter_def by (simp add: rec_record_get_field_by_name_eq Let_def comp_def)
  also have "\<dots> = map snd ?gs" by (intro nth_equalityI) simp_all
  finally show ?thesis .
qed

section \<open>Lists of fields\<close>

text \<open>The names a directive lists in a descriptor; values that are not lists of names are ignored.\<close>

definition names_in :: "string \<Rightarrow> string list" where
  "names_in v = (case rec_fex_new (Some v) REC_FEX_SIMPLE of None \<Rightarrow> [] | Some fex \<Rightarrow> map strdup (fex_names fex))"

definition listed :: "rec_record \<Rightarrow> rec_std_field \<Rightarrow> string list" where
  "listed d sf = concat (map names_in (values_of d (FNAME sf)))"

lemma parse_simple_loop_named:
  "parse_simple_loop ss es = Some es' \<Longrightarrow> list_all (\<lambda>e. fex_elem_field_name e \<noteq> None) es \<Longrightarrow>
   list_all (\<lambda>e. fex_elem_field_name e \<noteq> None) es'"
  by (induction ss es rule: parse_simple_loop.induct)
     (auto simp: parse_simple_elem_def split: if_splits option.splits prod.splits)

lemma simple_fex_named:
  "rec_fex_new (Some v) REC_FEX_SIMPLE = Some fex \<Longrightarrow> list_all (\<lambda>e. fex_elem_field_name e \<noteq> None) (fex_elems fex)"
  by (auto simp: rec_fex_new_def rec_fex_parse_str_simple_def split: option.splits if_splits dest!: parse_simple_loop_named)

lemma append_elems_ok:
  assumes "list_all (\<lambda>e. fex_elem_field_name e \<noteq> None) es" and "length (fex_elems res) \<le> REC_FEX_MAX_ELEMS"
  shows "(length (fex_elems res) + length es \<le> REC_FEX_MAX_ELEMS \<longrightarrow>
      (\<exists>res'. append_elems es res = Some res' \<and> fex_names res' = fex_names res @ map strdup (List.map_filter fex_elem_field_name es)
           \<and> length (fex_elems res') = length (fex_elems res) + length es))
    \<and> (\<not> length (fex_elems res) + length es \<le> REC_FEX_MAX_ELEMS \<longrightarrow> append_elems es res = None)"
  using assms
proof (induction es arbitrary: res)
  case (Cons e es)
  obtain n where n: "fex_elem_field_name e = Some n" using Cons.prems(1) by auto
  show ?case
  proof (cases "length (fex_elems res) \<ge> REC_FEX_MAX_ELEMS")
    case True
    then show ?thesis using n by (simp add: rec_fex_append_def)
  next
    case False
    then obtain res1 where a: "rec_fex_append res n (fex_elem_min e) (fex_elem_max e) = (True, res1)"
      "length (fex_elems res1) = Suc (length (fex_elems res))" "fex_names res1 = fex_names res @ [strdup n]"
      by (simp add: rec_fex_append_def fex_names_def map_filter_def)
    have "append_elems (e # es) res = append_elems es res1" using n a(1) by simp
    then show ?thesis using Cons.IH [of res1] Cons.prems(1) a(2,3) False n by (simp add: map_filter_simps)
  qed
qed simp

lemma length_names: "list_all (\<lambda>e. fex_elem_field_name e \<noteq> None) es \<Longrightarrow> length (List.map_filter fex_elem_field_name es) = length es"
  by (induction es) (auto simp: map_filter_simps)

lemma collect_fields_ok:
  assumes "length (fex_elems res) \<le> REC_FEX_MAX_ELEMS" and "ns = concat (map names_in (map field_value fs))"
  shows "(length (fex_elems res) + length ns \<le> REC_FEX_MAX_ELEMS \<longrightarrow>
      (\<exists>res'. collect_fields fs res = Some res' \<and> fex_names res' = fex_names res @ ns
           \<and> length (fex_elems res') = length (fex_elems res) + length ns))
    \<and> (\<not> length (fex_elems res) + length ns \<le> REC_FEX_MAX_ELEMS \<longrightarrow> collect_fields fs res = None)"
  using assms(1) unfolding assms(2)
proof (induction fs arbitrary: res)
  case (Cons f fs)
  let ?rest = "concat (map names_in (map field_value fs))"
  show ?case
  proof (cases "rec_fex_new (Some (field_value f)) REC_FEX_SIMPLE")
    case None
    then have "names_in (field_value f) = []" by (simp add: names_in_def)
    then show ?thesis using Cons.IH [OF Cons.prems] None by simp
  next
    case (Some fex)
    note named = simple_fex_named [OF Some]
    have nm: "names_in (field_value f) = map strdup (List.map_filter fex_elem_field_name (fex_elems fex))"
      using Some by (simp add: names_in_def fex_names_def)
    have ln: "length (names_in (field_value f)) = length (fex_elems fex)" using length_names [OF named] by (simp add: nm)
    note app = append_elems_ok [OF named Cons.prems, folded nm, folded ln]
    show ?thesis
    proof (cases "length (fex_elems res) + length (names_in (field_value f)) \<le> REC_FEX_MAX_ELEMS")
      case True
      then obtain res1 where r1: "append_elems (fex_elems fex) res = Some res1" "fex_names res1 = fex_names res @ names_in (field_value f)"
        "length (fex_elems res1) = length (fex_elems res) + length (names_in (field_value f))"
        using app by auto
      have "collect_fields (f # fs) res = collect_fields fs res1" using Some r1(1) by simp
      then show ?thesis using Cons.IH [of res1] True r1(2,3) by (simp add: add.assoc)
    next
      case False
      then have "collect_fields (f # fs) res = None" using Some app by simp
      then show ?thesis using False by simp
    qed
  qed
qed simp

lemma collect_field_list:
  "rec_int_collect_field_list d (FNAME sf) =
     (if length (listed d sf) \<le> REC_FEX_MAX_ELEMS
      then Some (the (rec_int_collect_field_list d (FNAME sf))) else None)"
  "length (listed d sf) \<le> REC_FEX_MAX_ELEMS \<Longrightarrow> fex_names (the (rec_int_collect_field_list d (FNAME sf))) = listed d sf
     \<and> rec_fex_size (the (rec_int_collect_field_list d (FNAME sf))) = length (listed d sf)"
proof -
  have "map field_value (fields_by_name d (FNAME sf)) = values_of d (FNAME sf)"
    unfolding fields_by_name_eq values_of_def named_values by (simp add: comp_def case_prod_beta')
  then have l: "listed d sf = concat (map names_in (map field_value (fields_by_name d (FNAME sf))))" by (simp add: listed_def)
  note ok = collect_fields_ok [OF _ l, of "\<lparr>fex_str = None, fex_elems = []\<rparr>", simplified]
  have n: "fex_names \<lparr>fex_str = None, fex_elems = []\<rparr> = []" by (simp add: fex_names_def map_filter_simps)
  have c: "rec_int_collect_field_list d (FNAME sf) = collect_fields (fields_by_name d (FNAME sf)) \<lparr>fex_str = None, fex_elems = []\<rparr>"
    by (simp add: rec_int_collect_field_list_def rec_fex_new_def)
  show "rec_int_collect_field_list d (FNAME sf) =
     (if length (listed d sf) \<le> REC_FEX_MAX_ELEMS then Some (the (rec_int_collect_field_list d (FNAME sf))) else None)"
    using ok unfolding c by (auto split: if_splits)
  show "length (listed d sf) \<le> REC_FEX_MAX_ELEMS \<Longrightarrow> fex_names (the (rec_int_collect_field_list d (FNAME sf))) = listed d sf
     \<and> rec_fex_size (the (rec_int_collect_field_list d (FNAME sf))) = length (listed d sf)"
    using ok unfolding c by (auto simp: n rec_fex_size_def split: if_splits)
qed

section \<open>The parts of a valid record\<close>

text \<open>More than \<open>REC_FEX_MAX_ELEMS\<close> names of one directive are an error of their own.\<close>

abbreviation fits :: "rec_record \<Rightarrow> rec_std_field \<Rightarrow> bool" where
  "fits d sf \<equiv> length (listed d sf) \<le> REC_FEX_MAX_ELEMS"

lemma checks_listed:
  assumes "rset_descriptor rset = Some d"
  shows "checks (fits d sf \<and> (\<forall>n \<in> set (listed d sf). \<not> P (length (values_of r n)))) (0, errors) (check_listed sf P msg rset r errors)"
proof (cases "fits d sf")
  case False
  then have "rec_int_collect_field_list d (FNAME sf) = None" using collect_field_list(1) by metis
  then show ?thesis using False assms by (simp add: check_listed_def checks_def)
next
  case True
  then obtain fex where fex: "rec_int_collect_field_list d (FNAME sf) = Some fex" using collect_field_list(1) by metis
  then have "fex_names fex = listed d sf" using collect_field_list(2) [OF True] by simp
  then show ?thesis
    using checks_names [of "listed d sf" "\<lambda>n. P (length (values_of r n))" "(0, errors)" "\<lambda>n. at_record r (msg n)"] True assms fex
    by (simp add: check_listed_def num_values)
qed

lemma member_names: "rec_fex_member_p fex n (- 1) (- 1) \<longleftrightarrow> n \<in> set (fex_names fex)"
  by (auto simp: rec_fex_member_p_def fex_names_def rec_field_name_equal_p_def map_filter_def list_ex_iff image_iff split: option.splits)

definition allowed_ok :: "rec_record \<Rightarrow> rec_record \<Rightarrow> bool" where
  "allowed_ok d r \<longleftrightarrow> listed d REC_FIELD_ALLOWED \<noteq> [] \<longrightarrow>
     (\<forall>(n, v) \<in> set (fkeys r). n \<in> set (listed d REC_FIELD_ALLOWED @ listed d REC_FIELD_MANDATORY @ listed d REC_FIELD_KEY))"

lemma checks_allowed:
  assumes "rset_descriptor rset = Some d"
  shows "checks (fits d REC_FIELD_ALLOWED \<and> fits d REC_FIELD_MANDATORY \<and> fits d REC_FIELD_KEY \<and> allowed_ok d r)
    (0, errors) (rec_int_check_record_allowed rset r errors)"
proof (cases "fits d REC_FIELD_ALLOWED \<and> fits d REC_FIELD_MANDATORY \<and> fits d REC_FIELD_KEY")
  case False
  then have "rec_int_collect_field_list d (FNAME REC_FIELD_ALLOWED) = None \<or> rec_int_collect_field_list d (FNAME REC_FIELD_MANDATORY) = None
      \<or> rec_int_collect_field_list d (FNAME REC_FIELD_KEY) = None"
    using collect_field_list(1) by metis
  then have "rec_int_check_record_allowed rset r errors = (1, ADD_ERROR errors (''out of memory'' @ [NL]))"
    unfolding rec_int_check_record_allowed_def assms by (auto split: option.split)
  then show ?thesis using False by (auto simp: checks_def)
next
  case True
  then obtain a m k where c: "rec_int_collect_field_list d (FNAME REC_FIELD_ALLOWED) = Some a"
    "rec_int_collect_field_list d (FNAME REC_FIELD_MANDATORY) = Some m" "rec_int_collect_field_list d (FNAME REC_FIELD_KEY) = Some k"
    using collect_field_list(1) by metis
  then have n: "fex_names a = listed d REC_FIELD_ALLOWED" "rec_fex_size a = length (listed d REC_FIELD_ALLOWED)"
    "fex_names m = listed d REC_FIELD_MANDATORY" "fex_names k = listed d REC_FIELD_KEY"
    using collect_field_list(2) [of d] True by fastforce+
  have names: "map (\<lambda>(pos, f). field_name f) (rec_record_fields r) = map fst (fkeys r)" by (simp add: fkeys_def case_prod_beta')
  show ?thesis
  proof (cases "listed d REC_FIELD_ALLOWED = []")
    case empty: True
    then show ?thesis using True by (simp add: rec_int_check_record_allowed_def assms c n allowed_ok_def checks_def del: rec_std_field_name.simps)
  next
    case False
    let ?P = "\<lambda>n. n \<notin> set (listed d REC_FIELD_ALLOWED) \<and> n \<notin> set (listed d REC_FIELD_MANDATORY) \<and> n \<notin> set (listed d REC_FIELD_KEY)"
    have "rec_int_check_record_allowed rset r errors =
        report_names ?P (\<lambda>n. at_record r (''field '' @ quoted n @ '' not allowed in this record set'')) (map fst (fkeys r)) (0, errors)"
      using False by (simp add: rec_int_check_record_allowed_def assms c n member_names names del: rec_std_field_name.simps)
    moreover have "(\<forall>n \<in> set (map fst (fkeys r)). \<not> ?P n) \<longleftrightarrow> allowed_ok d r" using False by (auto simp: allowed_ok_def)
    ultimately show ?thesis using checks_names [of "map fst (fkeys r)" ?P "(0, errors)"] True by simp
  qed
qed

lemma checks_secrets:
  "checks (\<forall>(n, v) \<in> set (fkeys r). rec_rset_field_confidential_p rset n \<longrightarrow> is_prefix REC_ENCRYPTED_PREFIX v)
     (0, errors) (rec_int_check_record_secrets rset r errors)"
proof -
  have "checks (\<forall>x \<in> set (rec_record_fields r). rec_rset_field_confidential_p rset (field_name (snd x)) \<longrightarrow> is_prefix REC_ENCRYPTED_PREFIX (field_value (snd x)))
      (0, errors) (rec_int_check_record_secrets rset r errors)"
    unfolding rec_int_check_record_secrets_def by (rule checks_fold) (auto simp: checks_refl checks_report split: prod.splits)
  then show ?thesis by (simp add: fkeys_def case_prod_beta')
qed

text \<open>Types: a value is accepted by the type of its field, for a foreign key by the type of the key it refers to.\<close>

definition foreign_type :: "rec_db \<Rightarrow> rec_type \<Rightarrow> rec_type option option" where
  "foreign_type db ty =
     (if rec_type_kind ty = REC_TYPE_REC
      then (case rec_db_get_rset_by_type db (rec_type_rec ty) of None \<Rightarrow> Some None | Some i \<Rightarrow> key_type (db_rset_list db ! i))
      else Some (Some ty))"

definition types_defined :: "rec_db \<Rightarrow> rec_rset \<Rightarrow> string \<Rightarrow> bool" where
  "types_defined db rset n \<longleftrightarrow> (\<forall>ty. rec_rset_get_field_type rset n = Some ty \<longrightarrow> foreign_type db ty \<noteq> None)"

definition type_ok :: "rec_ext \<Rightarrow> rec_db \<Rightarrow> rec_rset \<Rightarrow> string \<times> string \<Rightarrow> bool" where
  "type_ok ext db rset = (\<lambda>(n, v).
     \<forall>ty kt. rec_rset_get_field_type rset n = Some ty \<longrightarrow> foreign_type db ty = Some (Some kt) \<longrightarrow> fst (rec_type_check ext kt v))"

lemma check_field_type_eq:
  "rec_int_check_field_type env db rset f e =
     (case rec_rset_get_field_type rset (field_name f) of
        None \<Rightarrow> Some (True, e)
      | Some ty \<Rightarrow> map_option (\<lambda>kt. case kt of None \<Rightarrow> (True, e) | Some k \<Rightarrow> check_value env k f e) (foreign_type db ty))"
  by (simp add: rec_int_check_field_type_def foreign_type_def split: option.split)

lemma check_field_type:
  obtains (undef) "rec_int_check_field_type env db rset f (Some errors) = None" "\<not> types_defined db rset (field_name f)"
    | (ok) "rec_int_check_field_type env db rset f (Some errors) = Some (True, Some errors)"
        "types_defined db rset (field_name f)" "type_ok (int_ext env) db rset (field_name f, field_value f)"
    | (bad) errors' where "rec_int_check_field_type env db rset f (Some errors) = Some (False, Some errors')"
        "types_defined db rset (field_name f)" "\<not> type_ok (int_ext env) db rset (field_name f, field_value f)"
proof (cases "rec_rset_get_field_type rset (field_name f)")
  case None
  then show ?thesis using ok by (simp add: check_field_type_eq types_defined_def type_ok_def)
next
  case ty: (Some ty)
  show ?thesis
  proof (cases "foreign_type db ty")
    case None
    then show ?thesis using undef ty by (simp add: check_field_type_eq types_defined_def)
  next
    case kt: (Some kt)
    show ?thesis
    proof (cases kt)
      case None
      then show ?thesis using ok ty kt by (simp add: check_field_type_eq types_defined_def type_ok_def)
    next
      case (Some k)
      obtain b msg where b: "rec_type_check (int_ext env) k (field_value f) = (b, msg)" by fastforce
      show ?thesis
      proof (cases b)
        case True
        then show ?thesis using ok ty kt Some b by (simp add: check_field_type_eq types_defined_def type_ok_def check_value_def)
      next
        case False
        then show ?thesis using bad ty kt Some b by (simp add: check_field_type_eq types_defined_def type_ok_def check_value_def)
      qed
    qed
  qed
qed

lemma check_types_ok:
  "check_types env db rset fs st = Some st' \<Longrightarrow>
   checks (\<forall>f \<in> set fs. type_ok (int_ext env) db rset (field_name f, field_value f)) st st'"
proof (induction fs arbitrary: st)
  case (Cons f fs)
  obtain res errors where st: "st = (res, errors)" by fastforce
  show ?case
  proof (cases rule: check_field_type [of env db rset f errors])
    case undef
    then show ?thesis using Cons.prems by (simp add: st)
  next
    case ok
    then have "check_types env db rset fs st = Some st'" using Cons.prems by (simp add: st)
    from Cons.IH [OF this] ok(3) show ?thesis by simp
  next
    case (bad errors')
    then have "check_types env db rset fs (res + 1, errors') = Some st'" using Cons.prems by (simp add: st)
    from checks_le [OF Cons.IH [OF this]] bad(3) show ?thesis by (auto simp: checks_def st)
  qed
qed (simp add: checks_refl)

lemma check_types_defined:
  "(\<forall>f \<in> set fs. types_defined db rset (field_name f)) \<Longrightarrow> \<exists>st'. check_types env db rset fs st = Some st'"
proof (induction fs arbitrary: st)
  case (Cons f fs)
  obtain res errors where st: "st = (res, errors)" by fastforce
  show ?case by (cases rule: check_field_type [of env db rset f errors]) (use Cons in \<open>simp_all add: st\<close>)
qed simp

text \<open>Constraints: what an expression selects depends on the names and values of the record only.\<close>

lemma sex_selects_keys:
  assumes "rec_record_wf r" and "rec_record_wf r'" and "fkeys r = fkeys r'"
  shows "sex_selects env sex r = sex_selects env sex r'"
proof (cases "sex_ast sex")
  case (Some e)
  let ?ci = "sex_case_insensitive sex"
  have "(\<exists>f \<in> set (map snd (rec_record_fields r)). splits_name e r (field_name f) \<and> sex_holds env ?ci e (the (single_field r (field_name f) f)))
      \<longleftrightarrow> (\<exists>f \<in> set (map snd (rec_record_fields r')). splits_name e r' (field_name f) \<and> sex_holds env ?ci e (the (single_field r' (field_name f) f)))"
    using choices_fields [OF assms(1) refl, of e env ?ci] choices_fields [OF assms(2) assms(3), of e env ?ci] unfolding assms(3) by blast
  then show ?thesis using sex_holds_keys [OF assms(3), of env ?ci e] by (simp only: sex_selects_def Some option.case)
qed (simp add: sex_selects_def)

lemma check_constraints_ok:
  assumes "list_all sex_plain sexes" and "rec_record_wf r"
  shows "\<exists>r' st'. check_constraints env i sexes r st = Some (sexes, r', st') \<and> rec_record_wf r' \<and> same_but_marks r' r
    \<and> checks (\<forall>s \<in> set sexes. sex_selects env s r) st st'"
  using assms
proof (induction sexes arbitrary: i r st)
  case Nil
  then show ?case by (simp add: checks_refl)
next
  case (Cons s sexes)
  have s: "sex_plain s" and sexes: "list_all sex_plain sexes" using Cons.prems(1) by simp_all
  obtain status r1 where r1: "rec_sex_eval env s r = Some (sex_selects env s r, status, s, r1)" "rec_record_wf r1" "same_but_marks r1 r"
    using sex_eval_plain [OF Cons.prems(2) s, of env] by blast
  let ?st = "if sex_selects env s r then st else report (at_record r1 (''%constraint['' @ show_int (int32 (int i)) @ ''] violated in record'')) st"
  obtain r2 st' where r2: "check_constraints env (Suc i) sexes r1 ?st = Some (sexes, r2, st')" "rec_record_wf r2" "same_but_marks r2 r1"
    "checks (\<forall>s \<in> set sexes. sex_selects env s r1) ?st st'"
    using Cons.IH [OF sexes r1(2), of "Suc i" ?st] by blast
  have "sex_selects env t r1 = sex_selects env t r" for t
    by (rule sex_selects_keys [OF r1(2) Cons.prems(2) same_but_marks_keys [OF r1(3)]])
  then have rest: "checks (\<forall>s \<in> set sexes. sex_selects env s r) ?st st'" using r2(4) by simp
  have "checks (sex_selects env s r) st ?st" by (simp add: checks_refl checks_report)
  then have "checks (\<forall>s \<in> set (s # sexes). sex_selects env s r) st st'" by (rule checks_trans [OF _ rest]) simp
  then show ?case using r1(1) r2(1,2) same_but_marks_trans [OF r2(3) r1(3)] by simp
qed

text \<open>Keys: exactly one field of the name, whose value no other record has as its first.\<close>

definition key_names :: "rec_record \<Rightarrow> string list" where
  "key_names d = List.map_filter rec_parse_field_name_str (values_of d (FNAME REC_FIELD_KEY))"

definition key_ok :: "rec_rset \<Rightarrow> nat option \<Rightarrow> rec_record \<Rightarrow> string \<Rightarrow> bool" where
  "key_ok rset orig r name \<longleftrightarrow> length (values_of r name) = 1
     \<and> (\<forall>(pos, other) \<in> set (rec_rset_records rset). orig \<noteq> Some pos \<longrightarrow> values_of other name \<noteq> [] \<longrightarrow>
          hd (values_of other name) \<noteq> hd (values_of r name))"

lemma duplicated_key_values:
  "duplicated_key rset orig name key \<longleftrightarrow>
     (\<exists>(pos, other) \<in> set (rec_rset_records rset). orig \<noteq> Some pos \<and> values_of other name \<noteq> []
        \<and> hd (values_of other name) = field_value key)"
proof -
  have "(case rec_record_get_field_by_name other name 0 of None \<Rightarrow> False | Some (_, k) \<Rightarrow> field_value k = field_value key)
      \<longleftrightarrow> values_of other name \<noteq> [] \<and> hd (values_of other name) = field_value key" for other
    using first_value(1) [of other name] first_value(2) [of other name]
    by (cases "rec_record_get_field_by_name other name 0") (auto split: prod.splits)
  then show ?thesis by (simp add: duplicated_key_def list_ex_iff)
qed

lemma check_keys_ok:
  "checks (\<forall>f \<in> set fs. \<forall>name. rec_parse_field_name_str (field_value f) = Some name \<longrightarrow> key_ok rset orig r name)
     st (check_keys rset orig orig_record r fs st)"
proof (induction fs arbitrary: st)
  case Nil
  then show ?case by (simp add: checks_refl)
next
  case (Cons f fs)
  let ?rest = "\<forall>f \<in> set fs. \<forall>name. rec_parse_field_name_str (field_value f) = Some name \<longrightarrow> key_ok rset orig r name"
  have rep: "checks False st (check_keys rset orig orig_record r fs (report msg st))" for msg
    by (rule checks_trans [OF checks_report [of False] Cons.IH]) simp_all
  show ?case
  proof (cases "rec_parse_field_name_str (field_value f)")
    case None
    then show ?thesis using Cons.IH by simp
  next
    case (Some name)
    show ?thesis
    proof (cases "length (values_of r name) = 1")
      case False
      then have "\<not> key_ok rset orig r name" by (simp add: key_ok_def)
      moreover have "length (values_of r name) = 0 \<or> length (values_of r name) > 1" using False by linarith
      ultimately show ?thesis using Some rep by (auto simp: num_values)
    next
      case True
      then have "rec_record_get_field_by_name r name 0 \<noteq> None" using first_value(1) [of r name] by auto
      then obtain pos key where k: "rec_record_get_field_by_name r name 0 = Some (pos, key)" by auto
      then have "hd (values_of r name) = field_value key" using first_value(2) by blast
      then have dup: "duplicated_key rset orig name key \<longleftrightarrow> \<not> key_ok rset orig r name"
        using True unfolding duplicated_key_values key_ok_def by auto
      show ?thesis
      proof (cases "key_ok rset orig r name")
        case ok: True
        then show ?thesis using Some True k dup Cons.IH by (simp add: num_values)
      next
        case False
        then show ?thesis using Some True k dup checks_report [of False st] by (simp add: num_values)
      qed
    qed
  qed
qed

lemma checks_key:
  assumes "rset_descriptor rset = Some d"
  shows "checks (\<forall>name \<in> set (key_names d). key_ok rset orig r name) (0, errors) (rec_int_check_record_key rset orig orig_record r errors)"
proof -
  have v: "map field_value (fields_by_name d (FNAME REC_FIELD_KEY)) = values_of d (FNAME REC_FIELD_KEY)"
    unfolding fields_by_name_eq values_of_def named_values by (simp add: comp_def case_prod_beta')
  have "(\<forall>f \<in> set (fields_by_name d (FNAME REC_FIELD_KEY)). \<forall>name. rec_parse_field_name_str (field_value f) = Some name \<longrightarrow> key_ok rset orig r name)
      \<longleftrightarrow> (\<forall>name \<in> set (key_names d). key_ok rset orig r name)"
    unfolding key_names_def v [symmetric] map_filter_def by (auto simp del: rec_std_field_name.simps)
  then show ?thesis
    using check_keys_ok [of "fields_by_name d (FNAME REC_FIELD_KEY)" rset orig r "(0, errors)" orig_record] assms
    by (simp add: rec_int_check_record_key_def del: rec_std_field_name.simps)
qed

section \<open>Valid records\<close>

text \<open>What a descriptor demands of a record of its set.\<close>

definition record_valid :: "int_env \<Rightarrow> rec_db \<Rightarrow> rec_rset \<Rightarrow> rec_record \<Rightarrow> nat option \<Rightarrow> rec_record \<Rightarrow> bool" where
  "record_valid env db rset d orig r \<longleftrightarrow>
     (\<forall>name \<in> set (key_names d). key_ok rset orig r name)
     \<and> (\<forall>nv \<in> set (fkeys r). type_ok (int_ext env) db rset nv)
     \<and> (\<forall>n \<in> set (listed d REC_FIELD_MANDATORY). values_of r n \<noteq> [])
     \<and> (\<forall>n \<in> set (listed d REC_FIELD_UNIQUE). length (values_of r n) \<le> 1)
     \<and> (\<forall>n \<in> set (listed d REC_FIELD_PROHIBIT). values_of r n = [])
     \<and> (\<forall>(n, v) \<in> set (fkeys r). rec_rset_field_confidential_p rset n \<longrightarrow> is_prefix REC_ENCRYPTED_PREFIX v)
     \<and> (\<forall>s \<in> set (rset_constraints rset). sex_selects (int_sex env) s r)
     \<and> allowed_ok d r"

definition lists_fit :: "rec_record \<Rightarrow> bool" where
  "lists_fit d \<longleftrightarrow>
     list_all (fits d) [REC_FIELD_MANDATORY, REC_FIELD_UNIQUE, REC_FIELD_PROHIBIT, REC_FIELD_ALLOWED, REC_FIELD_KEY]"

lemma checks_0: "checks P (0, e) (k, e') \<longleftrightarrow> 0 \<le> k \<and> (k = 0 \<longleftrightarrow> P) \<and> (P \<longrightarrow> e' = e)"
  by (auto simp: checks_def)

lemma checks_sum: "checks P (0, e) (k, e1) \<Longrightarrow> checks Q (0, e1) (l, e2) \<Longrightarrow> checks (P \<and> Q) (0, e) (k + l, e2)"
  unfolding checks_0 by auto

lemma check_record_some:
  assumes "rec_int_check_record env db rset orig orig_record r errors = Some (rset', r', k, errors')"
    and "rset_descriptor rset = Some d" and "rec_record_wf r" and "list_all sex_plain (rset_constraints rset)"
  shows "rset' = rset \<and> rec_record_wf r' \<and> same_but_marks r' r
    \<and> checks (lists_fit d \<and> record_valid env db rset d orig r) (0, errors) (k, errors')"
proof -
  obtain k1 e1 where 1: "rec_int_check_record_key rset orig orig_record r errors = (k1, e1)" by fastforce
  obtain k2 e2 where 2: "rec_int_check_record_types env db rset r e1 = Some (k2, e2)"
    using assms(1) by (auto simp: rec_int_check_record_def 1 bind_eq_Some_conv)
  obtain k3 e3 where 3: "rec_int_check_record_mandatory rset r e2 = (k3, e3)" by fastforce
  obtain k4 e4 where 4: "rec_int_check_record_unique rset r e3 = (k4, e4)" by fastforce
  obtain k5 e5 where 5: "rec_int_check_record_secrets rset r e4 = (k5, e5)" by fastforce
  obtain k6 e6 where 6: "rec_int_check_record_prohibit rset r e5 = (k6, e6)" by fastforce
  obtain q k7 e7 where 7: "check_constraints (int_sex env) 0 (rset_constraints rset) r (0, e6) = Some (rset_constraints rset, q, k7, e7)"
    "rec_record_wf q" "same_but_marks q r" "checks (\<forall>s \<in> set (rset_constraints rset). sex_selects (int_sex env) s r) (0, e6) (k7, e7)"
    using check_constraints_ok [OF assms(4,3), of "int_sex env" 0 "(0, e6)"] by auto
  then have c7: "rec_int_check_record_sex_constraints (int_sex env) rset r e6 = Some (rset, q, k7, e7)"
    by (simp add: rec_int_check_record_sex_constraints_def)
  obtain k8 e8 where 8: "rec_int_check_record_allowed rset q e7 = (k8, e8)" by fastforce
  have eq: "rset' = rset" "r' = q" "k = k1 + k2 + k3 + k4 + k5 + k6 + k7 + k8" "errors' = e8"
    using assms(1) by (simp_all add: rec_int_check_record_def 1 2 3 4 5 6 c7 8)
  note keys = same_but_marks_keys [OF 7(3)]
  have c1: "checks (\<forall>name \<in> set (key_names d). key_ok rset orig r name) (0, errors) (k1, e1)"
    using checks_key [OF assms(2), of orig r errors orig_record] 1 by simp
  have c2: "checks (\<forall>nv \<in> set (fkeys r). type_ok (int_ext env) db rset nv) (0, e1) (k2, e2)"
    using check_types_ok [OF 2 [unfolded rec_int_check_record_types_def]] by (simp add: fkeys_def)
  have c3: "checks (fits d REC_FIELD_MANDATORY \<and> (\<forall>n \<in> set (listed d REC_FIELD_MANDATORY). values_of r n \<noteq> [])) (0, e2) (k3, e3)"
    unfolding 3 [symmetric] rec_int_check_record_mandatory_def
    by (rule back_subst [of "\<lambda>P. checks P _ _", OF checks_listed [OF assms(2)]]) (simp add: not_less)
  have c4: "checks (fits d REC_FIELD_UNIQUE \<and> (\<forall>n \<in> set (listed d REC_FIELD_UNIQUE). length (values_of r n) \<le> 1)) (0, e3) (k4, e4)"
    unfolding 4 [symmetric] rec_int_check_record_unique_def
    by (rule back_subst [of "\<lambda>P. checks P _ _", OF checks_listed [OF assms(2)]]) (simp add: not_less)
  have c5: "checks (\<forall>(n, v) \<in> set (fkeys r). rec_rset_field_confidential_p rset n \<longrightarrow> is_prefix REC_ENCRYPTED_PREFIX v) (0, e4) (k5, e5)"
    using checks_secrets [of r rset e4] 5 by simp
  have c6: "checks (fits d REC_FIELD_PROHIBIT \<and> (\<forall>n \<in> set (listed d REC_FIELD_PROHIBIT). values_of r n = [])) (0, e5) (k6, e6)"
    unfolding 6 [symmetric] rec_int_check_record_prohibit_def
    by (rule back_subst [of "\<lambda>P. checks P _ _", OF checks_listed [OF assms(2)]]) (simp add: not_less)
  have "allowed_ok d q = allowed_ok d r" by (simp add: allowed_ok_def keys)
  then have c8: "checks (fits d REC_FIELD_ALLOWED \<and> fits d REC_FIELD_MANDATORY \<and> fits d REC_FIELD_KEY \<and> allowed_ok d r) (0, e7) (k8, e8)"
    using checks_allowed [OF assms(2), of q e7] 8 by simp
  note sum = checks_sum [OF checks_sum [OF checks_sum [OF checks_sum [OF checks_sum [OF checks_sum [OF checks_sum [OF c1 c2] c3] c4] c5] c6] 7(4)] c8]
  have "checks (lists_fit d \<and> record_valid env db rset d orig r) (0, errors) (k, errors')"
    unfolding eq(3,4) by (rule back_subst [of "\<lambda>P. checks P _ _", OF sum]) (auto simp only: record_valid_def lists_fit_def list.pred_inject)
  then show ?thesis using eq(1,2) 7(2,3) by simp
qed

lemma check_record_defined:
  assumes "\<forall>(n, v) \<in> set (fkeys r). types_defined db rset n" and "rec_record_wf r" and "list_all sex_plain (rset_constraints rset)"
  shows "rec_int_check_record env db rset orig orig_record r errors \<noteq> None"
proof -
  have "\<forall>f \<in> set (map snd (rec_record_fields r)). types_defined db rset (field_name f)" using assms(1) by (auto simp: fkeys_def)
  then have 2: "\<exists>k e. rec_int_check_record_types env db rset r e1 = Some (k, e)" for e1
    using check_types_defined [of "map snd (rec_record_fields r)" db rset env "(0, e1)"] by (auto simp: rec_int_check_record_types_def)
  have 7: "\<exists>q k e. rec_int_check_record_sex_constraints (int_sex env) rset r e6 = Some (rset, q, k, e)" for e6
    using check_constraints_ok [OF assms(3,2), of "int_sex env" 0 "(0, e6)"] by (auto simp: rec_int_check_record_sex_constraints_def)
  show ?thesis using 2 7 unfolding rec_int_check_record_def
    by (auto simp: split_beta bind_eq_None_conv) (metis (no_types, lifting) option.discI)+
qed

section \<open>Marks do not matter\<close>

lemma marks_only_fields:
  assumes "marks_only rset' rset"
  shows "rset_descriptor rset' = rset_descriptor rset" "rset_field_props rset' = rset_field_props rset"
    "rset_type_reg rset' = rset_type_reg rset" "rset_constraints rset' = rset_constraints rset"
    "rset_min_size rset' = rset_min_size rset" "rset_max_size rset' = rset_max_size rset"
proof -
  have eq: "rset' = rset\<lparr>rset_mset := rset_mset rset'\<rparr>" using assms by (simp only: marks_only_def)
  show "rset_descriptor rset' = rset_descriptor rset" by (subst eq) simp
  show "rset_field_props rset' = rset_field_props rset" by (subst eq) simp
  show "rset_type_reg rset' = rset_type_reg rset" by (subst eq) simp
  show "rset_constraints rset' = rset_constraints rset" by (subst eq) simp
  show "rset_min_size rset' = rset_min_size rset" by (subst eq) simp
  show "rset_max_size rset' = rset_max_size rset" by (subst eq) simp
qed

lemma marks_only_derived:
  assumes "marks_only rset' rset"
  shows "rec_rset_get_field_type rset' = rec_rset_get_field_type rset" "rec_rset_type rset' = rec_rset_type rset"
    "key_type rset' = key_type rset" "rec_rset_field_confidential_p rset' = rec_rset_field_confidential_p rset"
proof -
  note f = marks_only_fields [OF assms]
  show t: "rec_rset_get_field_type rset' = rec_rset_get_field_type rset"
    by (simp add: fun_eq_iff rec_rset_get_field_type_def rec_rset_get_props_def f(2,3) Let_def split: option.split)
  show "rec_rset_type rset' = rec_rset_type rset" by (simp add: rec_rset_type_def f(1))
  show "key_type rset' = key_type rset" unfolding key_type_def rec_rset_key_def f(2) t ..
  show "rec_rset_field_confidential_p rset' = rec_rset_field_confidential_p rset"
    by (simp add: fun_eq_iff rec_rset_field_confidential_p_def rec_rset_confidential_def f(2))
qed

lemma elem_marked_record: "elem_marked e e' \<Longrightarrow> map_option fkeys (elem_record e) = map_option fkeys (elem_record e')"
  unfolding elem_marked_def by (auto dest: same_but_marks_keys)

lemma marks_only_records:
  assumes "marks_only rset' rset"
  shows "map (\<lambda>(pos, r). (pos, fkeys r)) (rec_rset_records rset') = map (\<lambda>(pos, r). (pos, fkeys r)) (rec_rset_records rset)"
proof -
  let ?es' = "mset_elems (rset_mset rset')" and ?es = "mset_elems (rset_mset rset)"
  have len: "length ?es' = length ?es" and m: "\<And>j. j < length ?es \<Longrightarrow> elem_marked (?es' ! j) (?es ! j)"
    using assms by (auto simp: marks_only_def list_all2_conv_all_nth)
  have k: "map_option fkeys (elem_record (?es' ! j)) = map_option fkeys (elem_record (?es ! j))" if "j < length ?es" for j
    using elem_marked_record [OF m [OF that]] .
  have ps: "record_positions ?es' = record_positions ?es"
    unfolding record_positions_def len by (rule filter_cong [OF refl]) (use k in \<open>metis atLeastLessThan_iff map_option_is_None set_upt\<close>)
  have "fkeys (rec_at (rset_mset rset') j) = fkeys (rec_at (rset_mset rset) j)" if j: "j \<in> set (record_positions ?es)" for j
  proof -
    obtain r where r: "j < length ?es" "elem_record (?es ! j) = Some r" using j by (auto simp: record_positions_def)
    then obtain r' where r': "elem_record (?es' ! j) = Some r'" "fkeys r' = fkeys r" using k [OF r(1)] by auto
    show ?thesis using elem_record_at [OF r(2)] elem_record_at [OF r'(1)] r'(2) by simp
  qed
  then show ?thesis unfolding rset_records_positions ps by simp
qed

definition db_marks :: "rec_db \<Rightarrow> rec_db \<Rightarrow> bool" where
  "db_marks db' db \<longleftrightarrow> db_size db' = db_size db \<and> list_all2 marks_only (db_rset_list db') (db_rset_list db)"

lemma db_marks_by_type:
  assumes "db_marks db' db"
  shows "rec_db_get_rset_by_type db' t = rec_db_get_rset_by_type db t"
proof -
  have "find_index (\<lambda>rset. rec_rset_type rset = t) i xs = find_index (\<lambda>rset. rec_rset_type rset = t) i ys" if "list_all2 marks_only xs ys" for xs ys i
    using that by (induction arbitrary: i rule: list_all2_induct) (simp_all add: marks_only_derived(2))
  then show ?thesis using assms by (simp add: db_marks_def rec_db_get_rset_by_type_def)
qed

lemma db_marks_foreign:
  assumes "db_marks db' db"
  shows "foreign_type db' ty = foreign_type db ty"
proof (cases "rec_db_get_rset_by_type db (rec_type_rec ty)")
  case None
  then show ?thesis by (simp add: foreign_type_def db_marks_by_type [OF assms])
next
  case (Some i)
  have "marks_only (db_rset_list db' ! i) (db_rset_list db ! i)"
    using assms by_type_bound [OF Some] by (simp add: db_marks_def list_all2_conv_all_nth)
  then show ?thesis by (simp add: foreign_type_def db_marks_by_type [OF assms] Some marks_only_derived(3))
qed

lemma record_valid_marks:
  assumes "db_marks db' db" and "marks_only rset' rset" and "rec_record_wf r'" and "rec_record_wf r" and "fkeys r' = fkeys r"
  shows "record_valid env db' rset' d orig r' = record_valid env db rset d orig r"
proof -
  have v: "values_of r' n = values_of r n" for n by (simp add: values_of_def assms(5))
  have conv: "(\<forall>(pos, other) \<in> set (rec_rset_records s). Q pos (values_of other n)) \<longleftrightarrow>
      (\<forall>(pos, ks) \<in> set (map (\<lambda>(pos, r). (pos, fkeys r)) (rec_rset_records s)). Q pos (map snd (filter (\<lambda>(m, v). m = n) ks)))" for Q n s
    by (auto simp: values_of_def)
  have "key_ok rset' orig r' n = key_ok rset orig r n" for n
    unfolding key_ok_def v
    using conv [of rset' "\<lambda>pos vs. orig \<noteq> Some pos \<longrightarrow> vs \<noteq> [] \<longrightarrow> hd vs \<noteq> hd (values_of r n)" n]
      conv [of rset "\<lambda>pos vs. orig \<noteq> Some pos \<longrightarrow> vs \<noteq> [] \<longrightarrow> hd vs \<noteq> hd (values_of r n)" n]
    unfolding marks_only_records [OF assms(2)] by argo
  moreover have "type_ok (int_ext env) db' rset' nv = type_ok (int_ext env) db rset nv" for nv
    by (simp add: type_ok_def marks_only_derived(1) [OF assms(2)] db_marks_foreign [OF assms(1)] case_prod_beta)
  moreover have "sex_selects (int_sex env) s r' = sex_selects (int_sex env) s r" for s by (rule sex_selects_keys [OF assms(3-5)])
  moreover have "allowed_ok d r' = allowed_ok d r" by (simp add: allowed_ok_def assms(5))
  ultimately show ?thesis
    unfolding record_valid_def v assms(5) marks_only_fields(4) [OF assms(2)] marks_only_derived(4) [OF assms(2)] by simp
qed

section \<open>Record sets and databases without errors\<close>

lemma check_record_any:
  assumes "rec_int_check_record env db rset orig orig_record r errors = Some (rset', r', k, errors')"
    and "rec_record_wf r" and "list_all sex_plain (rset_constraints rset)"
  shows "rset' = rset \<and> rec_record_wf r' \<and> same_but_marks r' r \<and> 0 \<le> k"
proof (cases "rset_descriptor rset")
  case (Some d)
  then show ?thesis using check_record_some [OF assms(1) Some assms(2,3)] by (simp add: checks_0)
next
  case None
  have z: "rec_int_check_record_key rset orig orig_record r e = (0, e)" "rec_int_check_record_mandatory rset r e = (0, e)"
    "rec_int_check_record_unique rset r e = (0, e)" "rec_int_check_record_prohibit rset r e = (0, e)"
    "rec_int_check_record_allowed rset q e = (0, e)" for e q
    by (simp_all add: None rec_int_check_record_key_def rec_int_check_record_mandatory_def rec_int_check_record_unique_def
        rec_int_check_record_prohibit_def rec_int_check_record_allowed_def check_listed_def)
  obtain k2 e2 where 2: "rec_int_check_record_types env db rset r errors = Some (k2, e2)"
    using assms(1) by (auto simp: rec_int_check_record_def z bind_eq_Some_conv)
  obtain k5 e5 where 5: "rec_int_check_record_secrets rset r e2 = (k5, e5)" by fastforce
  obtain q k7 e7 where 7: "check_constraints (int_sex env) 0 (rset_constraints rset) r (0, e5) = Some (rset_constraints rset, q, k7, e7)"
    "rec_record_wf q" "same_but_marks q r" "checks (\<forall>s \<in> set (rset_constraints rset). sex_selects (int_sex env) s r) (0, e5) (k7, e7)"
    using check_constraints_ok [OF assms(3,2), of "int_sex env" 0 "(0, e5)"] by auto
  then have c7: "rec_int_check_record_sex_constraints (int_sex env) rset r e5 = Some (rset, q, k7, e7)"
    by (simp add: rec_int_check_record_sex_constraints_def)
  have eq: "rset' = rset" "r' = q" "k = k2 + k5 + k7" using assms(1) by (simp_all add: rec_int_check_record_def z 2 5 c7)
  have "0 \<le> k2" using check_types_ok [OF 2 [unfolded rec_int_check_record_types_def]] by (simp add: checks_0)
  moreover have "0 \<le> k5" using checks_secrets [of r rset e2] by (simp add: 5 checks_0)
  ultimately show ?thesis using 7(2-4) eq by (simp add: checks_0)
qed

lemma db_put_marks:
  assumes "db_marks db1 db" and "i < length (db_rset_list db)" and "marks_only rset (db_rset_list db ! i)"
  shows "db_marks (db_put db1 (Some i) rset) db"
proof -
  have "list_all2 marks_only ((db_rset_list db1)[i := rset]) ((db_rset_list db)[i := db_rset_list db ! i])"
    using assms by (intro list_all2_update_cong) (simp_all add: db_marks_def)
  then show ?thesis using assms(1) by (simp add: db_marks_def db_put_def)
qed

text \<open>
  The loop over the records: \<open>rset0\<close> and \<open>db0\<close> are the sets before any evaluation left marks.
\<close>

lemma check_records_ok:
  assumes "check_records env db i ps rset (res, errors) = Some (rset', res', errors')"
    and "db_marks db db0" and "i < length (db_rset_list db0)" and "rset0 = db_rset_list db0 ! i"
    and "marks_only rset rset0" and "list_all sex_plain (rset_constraints rset0)"
    and "set ps \<subseteq> set (record_positions (mset_elems (rset_mset rset0)))" and "distinct ps"
    and "\<forall>j \<in> set ps. mset_elems (rset_mset rset) ! j = mset_elems (rset_mset rset0) ! j" and "rec_rset_wf rset0"
  shows "marks_only rset' rset0 \<and> res \<le> res'
    \<and> (res' = res \<longrightarrow> (\<forall>d. rset_descriptor rset0 = Some d \<longrightarrow>
         (\<forall>pos \<in> set ps. record_valid env db0 rset0 d (Some pos) (rec_at (rset_mset rset0) pos))))"
  using assms(1,5,7-9)
proof (induction ps arbitrary: rset res errors)
  case Nil
  then show ?case by simp
next
  case (Cons pos ps)
  let ?r = "rec_at (rset_mset rset) pos"
  have pos0: "pos \<in> set (record_positions (mset_elems (rset_mset rset0)))" using Cons.prems(3) by simp
  have r0: "?r = rec_at (rset_mset rset0) pos" using Cons.prems(5) by (simp add: rec_at_def)
  note wf0 = rset_records_wf [OF assms(10) pos0]
  have wf: "rec_rset_wf rset" using Cons.prems(2) by (simp add: marks_only_def)
  have "map fst (map (\<lambda>(pos, r). (pos, fkeys r)) (rec_rset_records rset)) = map fst (map (\<lambda>(pos, r). (pos, fkeys r)) (rec_rset_records rset0))"
    unfolding marks_only_records [OF Cons.prems(2)] ..
  then have ps: "record_positions (mset_elems (rset_mset rset)) = record_positions (mset_elems (rset_mset rset0))"
    by (simp add: rset_records_positions comp_def)
  then have pos: "pos \<in> set (record_positions (mset_elems (rset_mset rset)))" using pos0 by simp
  obtain rset1 r1 k e1 where chk: "rec_int_check_record env (db_put db (Some i) rset) rset (Some pos) ?r ?r errors = Some (rset1, r1, k, e1)"
    and rest: "check_records env db i ps (rset_set_record rset1 pos r1) (res + k, e1) = Some (rset', res', errors')"
    using Cons.prems(1) by (auto simp: Let_def bind_eq_Some_conv)
  have plain: "list_all sex_plain (rset_constraints rset)" using assms(6) marks_only_fields(4) [OF Cons.prems(2)] by simp
  have wfr: "rec_record_wf ?r" using r0 wf0 by simp
  from check_record_any [OF chk wfr plain] have r1: "rset1 = rset" "rec_record_wf r1" "same_but_marks r1 ?r" "0 \<le> k" by auto
  note set = set_record_marks [OF wf pos r1(2,3)]
  have "marks_only (rset_set_record rset pos r1) rset0" by (rule marks_only_trans [OF set(1) Cons.prems(2)])
  moreover have "\<forall>j \<in> set ps. mset_elems (rset_mset (rset_set_record rset pos r1)) ! j = mset_elems (rset_mset rset0) ! j"
    using set(2) Cons.prems(4,5) by auto
  ultimately have IH: "marks_only rset' rset0 \<and> res + k \<le> res' \<and> (res' = res + k \<longrightarrow> (\<forall>d. rset_descriptor rset0 = Some d \<longrightarrow>
      (\<forall>pos \<in> set ps. record_valid env db0 rset0 d (Some pos) (rec_at (rset_mset rset0) pos))))"
    using Cons.IH [OF rest [unfolded r1(1)]] Cons.prems(3,4) by simp
  have "record_valid env db0 rset0 d (Some pos) (rec_at (rset_mset rset0) pos)" if d: "rset_descriptor rset0 = Some d" and "k = 0" for d
  proof -
    have "rset_descriptor rset = Some d" using d marks_only_fields(1) [OF Cons.prems(2)] by simp
    from check_record_some [OF chk this wfr plain] have "record_valid env (db_put db (Some i) rset) rset d (Some pos) ?r"
      using \<open>k = 0\<close> by (simp add: checks_0)
    moreover have "db_marks (db_put db (Some i) rset) db0" using db_put_marks [OF assms(2,3)] Cons.prems(2) assms(4) by simp
    ultimately show ?thesis using record_valid_marks [OF _ Cons.prems(2) wfr wf0] r0 by simp
  qed
  then show ?case using IH r1(4) by auto
qed

definition size_ok :: "rec_rset \<Rightarrow> bool" where
  "size_ok rset \<longleftrightarrow> rset_min_size rset \<le> of_nat (rec_rset_num_records rset) \<and> of_nat (rec_rset_num_records rset) \<le> rset_max_size rset"

lemma report_fst [simp]: "fst (report msg st) = fst st + 1"
  by (simp add: report_def case_prod_beta)

lemma report_size_le: "report_size rset before after st = Some st' \<Longrightarrow> fst st' = fst st + 1"
  by (auto simp: report_size_def split: option.splits)

lemma check_size_ok: "check_size rset st = Some st' \<Longrightarrow> fst st \<le> fst st' \<and> (fst st' = fst st \<longrightarrow> size_ok rset)"
  unfolding check_size_def size_ok_def Let_def
  by (auto simp: bind_eq_Some_conv split: if_splits dest!: report_size_le)

text \<open>The checks of a descriptor only count upwards.\<close>

lemma report_names_le: "fst st \<le> fst (report_names P msg names st)"
  using checks_le [OF checks_names] .

lemma check_type_spec_le: "check_type_spec env rset f p msg st = Some st' \<Longrightarrow> fst st \<le> fst st'"
  by (auto simp: check_type_spec_def split: if_splits option.splits prod.splits)

lemma check_directive_le:
  assumes "check_directive env rset d pf st = Some st'"
  shows "fst st \<le> fst st'"
proof -
  obtain pos f where pf: "pf = (pos, f)" by fastforce
  have t: "check_type_directive env rset f st = Some st' \<Longrightarrow> fst st \<le> fst st'"
    "check_typedef_directive env rset f st = Some st' \<Longrightarrow> fst st \<le> fst st'"
    by (auto simp: check_type_directive_def check_typedef_directive_def Let_def split: option.splits dest!: check_type_spec_le)
  show ?thesis using assms t unfolding check_directive_def pf by (auto simp: Let_def split: if_splits)
qed

lemma check_auto_le: "fst st \<le> fst (check_auto rset d f st)"
  by (simp add: check_auto_def report_names_le split: option.split)

lemma check_directives_le: "check_directives env rset d fs st = Some st' \<Longrightarrow> fst st \<le> fst st'"
proof (induction fs arbitrary: st)
  case (Cons pf fs)
  then obtain st1 where "check_directive env rset d pf st = Some st1" "check_directives env rset d fs (check_auto rset d (snd pf) st1) = Some st'"
    by (auto simp: bind_eq_Some_conv)
  then show ?case using check_directive_le check_auto_le [of st1 rset d "snd pf"] Cons.IH by fastforce
qed simp

lemma check_once_le: "fst st \<le> fst (check_once d sf st)"
  by (simp add: check_once_def)

lemma check_descriptor_le:
  assumes "rec_int_check_descriptor env rset errors = Some (k, errors')"
  shows "0 \<le> k"
proof (cases "rset_descriptor rset")
  case None
  then show ?thesis using assms by (simp add: rec_int_check_descriptor_def)
next
  case (Some d)
  obtain pos f where f: "rec_record_get_field_by_name d (FNAME REC_FIELD_REC) 0 = Some (pos, f)"
    using assms Some by (auto simp: rec_int_check_descriptor_def Let_def split: option.splits)
  define num where "num = rec_record_get_num_fields_by_name d (FNAME REC_FIELD_REC)"
  define st1 where "st1 = (if num = 0 then report (at_record d ''missing %rec field in record descriptor'') (0, errors)
      else if num > 1 then report (at_record d ''too many %rec fields in record descriptor'') (0, errors) else (0, errors))"
  define st2 where "st2 = (if rec_int_rec_type_p (field_value f) then st1 else report (at_field f (''invalid record type '' @ field_value f)) st1)"
  have st: "check_directives env rset d (rec_record_fields d)
      (check_once d REC_FIELD_SORT (check_once d REC_FIELD_SIZE (check_once d REC_FIELD_KEY st2))) = Some (k, errors')"
    using assms unfolding rec_int_check_descriptor_def Some option.case f prod.case Let_def st2_def st1_def num_def .
  have "0 \<le> fst st2" by (simp add: st2_def st1_def)
  also have "\<dots> \<le> fst (check_once d REC_FIELD_SORT (check_once d REC_FIELD_SIZE (check_once d REC_FIELD_KEY st2)))"
    using check_once_le order_trans by metis
  finally show ?thesis using check_directives_le [OF st] by simp
qed

definition rset_valid :: "int_env \<Rightarrow> rec_db \<Rightarrow> rec_rset \<Rightarrow> bool" where
  "rset_valid env db rset \<longleftrightarrow> size_ok rset
     \<and> (\<forall>d. rset_descriptor rset = Some d \<longrightarrow> (\<forall>(pos, r) \<in> set (rec_rset_records rset). record_valid env db rset d (Some pos) r))"

definition rset_ready :: "rec_rset \<Rightarrow> bool" where
  "rset_ready rset \<longleftrightarrow> rec_rset_wf rset \<and> list_all sex_plain (rset_constraints rset)"

lemma db_put_same: "db_put db (Some i) (db_rset_list db ! i) = db"
  by (simp add: db_put_def)

lemma db_marks_refl:
  assumes "db_marks db db0"
  shows "db_marks db db"
proof -
  have "marks_only (db_rset_list db ! i) (db_rset_list db ! i)" if "i < length (db_rset_list db)" for i
    using assms that by (intro marks_only_refl) (auto simp: db_marks_def marks_only_def list_all2_conv_all_nth)
  then show ?thesis by (simp add: db_marks_def list_all2_conv_all_nth)
qed

lemma rset_valid_marks:
  assumes "db_marks db' db" and "marks_only rset' rset" and "rec_rset_wf rset" and "rset_valid env db' rset'"
  shows "rset_valid env db rset"
proof -
  have wf': "rec_rset_wf rset'" using assms(2) by (simp add: marks_only_def)
  have recs: "map (\<lambda>(pos, r). (pos, fkeys r)) (rec_rset_records rset') = map (\<lambda>(pos, r). (pos, fkeys r)) (rec_rset_records rset)"
    by (rule marks_only_records [OF assms(2)])
  then have "rec_rset_num_records rset' = rec_rset_num_records rset"
    using rec_rset_num_records_eq wf' assms(3) by (metis length_map)
  then have "size_ok rset" using assms(4) by (simp add: rset_valid_def size_ok_def marks_only_fields [OF assms(2)])
  moreover have "record_valid env db rset d (Some pos) r"
    if d: "rset_descriptor rset = Some d" and r: "(pos, r) \<in> set (rec_rset_records rset)" for d pos r
  proof -
    have "(pos, fkeys r) \<in> set (map (\<lambda>(pos, r). (pos, fkeys r)) (rec_rset_records rset'))" unfolding recs using r by force
    then obtain r' where r': "(pos, r') \<in> set (rec_rset_records rset')" "fkeys r' = fkeys r" by auto
    have wfs: "rec_record_wf r'" "rec_record_wf r"
      using r'(1) r rset_records_wf [OF wf'] rset_records_wf [OF assms(3)] by (auto simp: rset_records_positions)
    have "record_valid env db' rset' d (Some pos) r'"
      using assms(4) d r'(1) marks_only_fields(1) [OF assms(2)] by (auto simp: rset_valid_def)
    then show ?thesis using record_valid_marks [OF assms(1,2) wfs r'(2)] by simp
  qed
  ultimately show ?thesis by (auto simp: rset_valid_def)
qed

lemma check_rset_ok:
  assumes "rec_int_check_rset env db i cd False errors = Some (db', k, errors')"
    and "db_marks db db" and "i < length (db_rset_list db)" and "rset_ready (db_rset_list db ! i)"
  shows "db_marks db' db \<and> 0 \<le> k \<and> (k = 0 \<longrightarrow> rset_valid env db (db_rset_list db ! i))"
proof -
  let ?rset = "db_rset_list db ! i" and ?ps = "record_positions (mset_elems (rset_mset (db_rset_list db ! i)))"
  have ready: "rec_rset_wf ?rset" "list_all sex_plain (rset_constraints ?rset)" using assms(4) by (simp_all add: rset_ready_def)
  obtain go rset2 where body: "check_rset_body env db i cd ?rset (0, errors) = Some (go, rset2, k, errors')"
    and db': "db' = db_put db (Some i) rset2"
    using assms(1) by (auto simp: rec_int_check_rset_def bind_eq_Some_conv)
  obtain k1 e1 where d: "0 \<le> k1" "(if k1 > 0 then Some (False, ?rset, k1, e1) else Option.bind (check_size ?rset (k1, e1)) (\<lambda>st2.
              map_option (\<lambda>(rset', st'). (True, rset', st')) (check_records env db i (map fst (rec_rset_records ?rset)) ?rset st2)))
          = Some (go, rset2, k, errors')"
    using body check_descriptor_le by (fastforce simp: check_rset_body_def bind_eq_Some_conv split: if_splits)
  show ?thesis
  proof (cases "k1 > 0")
    case True
    then have "rset2 = ?rset" "k = k1" using d(2) by simp_all
    then show ?thesis using True assms(2) db' by (simp add: db_put_same)
  next
    case False
    then have k1: "k1 = 0" using d(1) by simp
    obtain k2 e2 where sz: "check_size ?rset (0, e1) = Some (k2, e2)"
      and rs: "check_records env db i (map fst (rec_rset_records ?rset)) ?rset (k2, e2) = Some (rset2, k, errors')"
      using d(2) False k1 by (auto simp: bind_eq_Some_conv)
    have ps: "map fst (rec_rset_records ?rset) = ?ps" by (simp add: rset_records_positions comp_def)
    have dist: "distinct ?ps" using ready(1) record_positions_ok(2) by (simp add: rec_rset_wf_def)
    have loop: "marks_only rset2 ?rset" "k2 \<le> k"
      "k = k2 \<longrightarrow> (\<forall>d. rset_descriptor ?rset = Some d \<longrightarrow> (\<forall>pos \<in> set ?ps. record_valid env db ?rset d (Some pos) (rec_at (rset_mset ?rset) pos)))"
      using check_records_ok [OF rs [unfolded ps] assms(2,3) refl marks_only_refl [OF ready(1)] ready(2) subset_refl dist _ ready(1)] by auto
    have "0 \<le> k2" "k2 = 0 \<longrightarrow> size_ok ?rset" using check_size_ok [OF sz] by simp_all
    then have "0 \<le> k" "k = 0 \<longrightarrow> rset_valid env db ?rset" using loop(2,3) by (auto simp: rset_valid_def rset_records_positions)
    then show ?thesis using db_put_marks [OF assms(2,3) loop(1)] db' by simp
  qed
qed

lemma check_db_loop_ok:
  assumes "check_db_loop env cd False ns db (ret, errors) = Some (db', ret', errors')"
    and "db_marks db db0" and "\<forall>n \<in> set ns. n < length (db_rset_list db0)" and "\<forall>rset \<in> set (db_rset_list db0). rset_ready rset"
  shows "db_marks db' db0 \<and> ret \<le> ret' \<and> (ret' = ret \<longrightarrow> (\<forall>n \<in> set ns. rset_valid env db0 (db_rset_list db0 ! n)))"
  using assms(1-3)
proof (induction ns arbitrary: db ret errors)
  case (Cons n ns)
  obtain db1 k e1 where chk: "rec_int_check_rset env db n cd False errors = Some (db1, k, e1)"
    and rest: "check_db_loop env cd False ns db1 (ret + k, e1) = Some (db', ret', errors')"
    using Cons.prems(1) by (auto simp: bind_eq_Some_conv)
  have n: "n < length (db_rset_list db0)" and len: "length (db_rset_list db) = length (db_rset_list db0)"
    using Cons.prems(2,3) by (auto simp: db_marks_def dest: list_all2_lengthD)
  have m: "marks_only (db_rset_list db ! n) (db_rset_list db0 ! n)" using Cons.prems(2) n by (simp add: db_marks_def list_all2_conv_all_nth)
  have r0: "rset_ready (db_rset_list db0 ! n)" using assms(4) n by simp
  then have r: "rset_ready (db_rset_list db ! n)" using m marks_only_fields(4) [OF m] by (simp add: rset_ready_def marks_only_def)
  have n': "n < length (db_rset_list db)" using n len by simp
  from check_rset_ok [OF chk db_marks_refl [OF Cons.prems(2)] n' r]
  have c: "db_marks db1 db" "0 \<le> k" "k = 0 \<longrightarrow> rset_valid env db (db_rset_list db ! n)" by auto
  have v: "k = 0 \<longrightarrow> rset_valid env db0 (db_rset_list db0 ! n)"
    using c(3) rset_valid_marks [OF Cons.prems(2) m] r0 by (auto simp: rset_ready_def)
  have l: "list_all2 marks_only (db_rset_list db1) (db_rset_list db)" "list_all2 marks_only (db_rset_list db) (db_rset_list db0)"
    using c(1) Cons.prems(2) unfolding db_marks_def by blast+
  have "list_all2 marks_only (db_rset_list db1) (db_rset_list db0)" by (rule list_all2_trans [OF marks_only_trans l])
  then have "db_marks db1 db0" using c(1) Cons.prems(2) by (simp add: db_marks_def)
  from Cons.IH [OF rest this] Cons.prems(3) c(2) v show ?case by auto
qed simp

lemma valid_keys_distinct:
  assumes "rset_valid env db rset" and "rec_rset_wf rset" and "rset_descriptor rset = Some d" and "name \<in> set (key_names d)"
  shows "distinct (map (\<lambda>(pos, r). hd (values_of r name)) (rec_rset_records rset))"
    and "\<forall>(pos, r) \<in> set (rec_rset_records rset). length (values_of r name) = 1"
proof -
  have k: "key_ok rset (Some pos) r name" if "(pos, r) \<in> set (rec_rset_records rset)" for pos r
    using assms(1,3,4) that by (auto simp: rset_valid_def record_valid_def)
  then show one: "\<forall>(pos, r) \<in> set (rec_rset_records rset). length (values_of r name) = 1" by (auto simp: key_ok_def)
  have pos: "distinct (map fst (rec_rset_records rset))"
    using assms(2) record_positions_ok(2) by (simp add: rset_records_positions comp_def rec_rset_wf_def)
  have "x = y" if x: "x \<in> set (rec_rset_records rset)" and y: "y \<in> set (rec_rset_records rset)"
    and eq: "hd (values_of (snd x) name) = hd (values_of (snd y) name)" for x y
  proof -
    have kx: "key_ok rset (Some (fst x)) (snd x) name" using k [of "fst x" "snd x"] x by simp
    have "values_of (snd y) name \<noteq> []" using one y by force
    then have "fst x = fst y" using kx y eq unfolding key_ok_def by (metis (mono_tags, lifting) case_prodD option.inject prod.collapse)
    then show "x = y" using pos x y by (metis distinct_map inj_on_eq_iff)
  qed
  then have "inj_on (\<lambda>(pos, r). hd (values_of r name)) (set (rec_rset_records rset))" by (auto simp: inj_on_def)
  moreover have "distinct (rec_rset_records rset)" using pos by (simp add: distinct_map)
  ultimately show "distinct (map (\<lambda>(pos, r). hd (values_of r name)) (rec_rset_records rset))" by (simp add: distinct_map)
qed

definition sample_int_env :: int_env where
  "sample_int_env = \<lparr>int_sex = sample_env, int_file = (\<lambda>f. None), int_fetch = (\<lambda>u. None)\<rparr>"

definition sample_person_descr :: rec_record where
  "sample_person_descr = sample_fields [(''%rec'', ''Person''), (''%key'', ''Name''), (''%mandatory'', ''Age'')]"

definition sample_people :: rec_rset where
  "sample_people = fold (\<lambda>r s. rset_append_record s r MSET_ANY)
     [sample_fields [(''Name'', ''Ada''), (''Age'', ''36'')], sample_fields [(''Name'', ''Bob''), (''Age'', ''7'')]]
     (rec_rset_new\<lparr>rset_descriptor := Some sample_person_descr\<rparr>)"

definition sample_people_db :: rec_db where
  "sample_people_db = rec_db_insert_rset rec_db_new sample_people 0"

lemma append_any_wf: "rec_rset_wf s \<Longrightarrow> rec_record_wf r \<Longrightarrow> rec_rset_wf (rset_append_record s r MSET_ANY)"
  using rsetm.append_ok(1) [of "rset_mset s" MSET_RECORD "SRecord r"]
  by (simp add: rec_rset_wf_def rset_append_record_def rset_elem_ok_def)

lemma sample_people_ready: "rset_ready sample_people"
proof -
  have "rec_rset_wf (rec_rset_new\<lparr>rset_descriptor := Some sample_person_descr\<rparr>)"
    using rec_rset_new_wf sample_fields_wf by (simp add: rec_rset_wf_def sample_person_descr_def del: rec_rset_new_wf)
  then have "rec_rset_wf sample_people" unfolding sample_people_def by (simp add: append_any_wf sample_fields_wf)
  moreover have "rset_constraints sample_people = []" by code_simp
  ultimately show ?thesis by (simp add: rset_ready_def)
qed

text \<open>
  C7. A record passes the integrity checks exactly when it satisfies its descriptor. For a
  well-formed record and constraints that are conditions, \<open>rec_int_check_record\<close> is defined
  when the types of its fields are; it changes nothing but marks, counts no negative number of
  errors, and counts none (and writes no message) exactly when the record has each key once with a value no
  other record has, its values have the declared types (for foreign keys the type of the
  referred key), the mandatory fields occur, the unique ones at most once, the prohibited ones
  not, confidential values are encrypted, all constraints hold, and only allowed fields occur.
  More names in a directive than a field expression can hold are an error too.
\<close>

theorem check_record_iff_valid:
  assumes "rset_descriptor rset = Some d" and "rec_record_wf r" and "list_all sex_plain (rset_constraints rset)"
    and "list_all (\<lambda>(n, v). types_defined db rset n) (fkeys r)"
  shows "\<exists>r' k errors'. rec_int_check_record env db rset orig orig_record r errors = Some (rset, r', k, errors')
    \<and> same_but_marks r' r \<and> 0 \<le> k \<and> (k = 0 \<longleftrightarrow> lists_fit d \<and> record_valid env db rset d orig r) \<and> (k = 0 \<longrightarrow> errors' = errors)"
proof -
  have "\<forall>(n, v) \<in> set (fkeys r). types_defined db rset n" using assms(4) by (simp add: list_all_iff)
  then obtain rset' r' k errors' where chk: "rec_int_check_record env db rset orig orig_record r errors = Some (rset', r', k, errors')"
    using check_record_defined [OF _ assms(2,3)] by (metis option.exhaust prod.exhaust)
  from check_record_some [OF chk assms(1-3)] chk show ?thesis by (auto simp: checks_0)
qed

theorem check_record_iff_valid_witness:
  "\<exists>r' k errors'. rec_int_check_record sample_int_env sample_people_db sample_people None
       (sample_fields [(''Name'', ''Eve'')]) (sample_fields [(''Name'', ''Eve'')]) rec_buf_new = Some (sample_people, r', k, errors')
     \<and> 0 < k"
proof -
  let ?r = "sample_fields [(''Name'', ''Eve'')]"
  have d: "rset_descriptor sample_people = Some sample_person_descr" and c: "rset_constraints sample_people = []"
    and p: "rset_field_props sample_people = []" by code_simp+
  have t: "list_all (\<lambda>(n, v). types_defined sample_people_db sample_people n) (fkeys ?r)"
    by (simp add: list_all_iff types_defined_def rec_rset_get_field_type_def rec_rset_get_props_def p)
  have "listed sample_person_descr REC_FIELD_MANDATORY = [''Age'']" "values_of ?r ''Age'' = []" by code_simp+
  then have "\<not> record_valid sample_int_env sample_people_db sample_people sample_person_descr None ?r" by (simp add: record_valid_def)
  moreover obtain r' k errors' where "rec_int_check_record sample_int_env sample_people_db sample_people None ?r ?r rec_buf_new = Some (sample_people, r', k, errors')"
    "0 \<le> k" "k = 0 \<longleftrightarrow> lists_fit sample_person_descr \<and> record_valid sample_int_env sample_people_db sample_people sample_person_descr None ?r"
    using check_record_iff_valid [OF d sample_fields_wf _ t, of sample_int_env None ?r rec_buf_new] c by auto
  ultimately show ?thesis by auto
qed

text \<open>A check leaves marks only, and when it counts no error every record set is valid.\<close>

lemma check_db_ok:
  assumes "rec_db_wf db" and "list_all rset_ready (db_rset_list db)"
    and "rec_int_check_db env db check_descriptors_p False errors = Some (db', k, errors')"
  shows "db_marks db' db \<and> 0 \<le> k \<and> (k = 0 \<longrightarrow> list_all (rset_valid env db) (db_rset_list db))"
proof -
  have ready: "\<forall>rset \<in> set (db_rset_list db). rset_ready rset" using assms(2) by (simp add: list_all_iff)
  have "list_all2 marks_only (db_rset_list db) (db_rset_list db)"
    using ready by (auto simp: list_all2_conv_all_nth rset_ready_def intro: marks_only_refl)
  then have m: "db_marks db db" by (simp add: db_marks_def)
  have size: "rec_db_size db = length (db_rset_list db)" using assms(1) by (simp add: rec_db_wf_def rec_db_size_def)
  from check_db_loop_ok [OF assms(3) [unfolded rec_int_check_db_def] m _ ready] show ?thesis
    by (auto simp: size list_all_length)
qed

text \<open>
  C6. A database without errors is consistent. When \<open>rec_int_check_db\<close> counts no error, every
  record set has a number of records its \<open>%size\<close> admits, every record of a set with a descriptor
  is valid, and every key has exactly one value in each record and different values in
  different records. Remote descriptors are not fetched; the record sets are well formed and
  their constraints are conditions.
\<close>

theorem check_db_consistent:
  assumes "rec_db_wf db" and "list_all rset_ready (db_rset_list db)"
    and "rec_int_check_db env db check_descriptors_p False errors = Some (db', 0, errors')"
  shows "\<forall>rset \<in> set (db_rset_list db). size_ok rset \<and>
    (\<forall>d. rset_descriptor rset = Some d \<longrightarrow>
      (\<forall>(pos, r) \<in> set (rec_rset_records rset). record_valid env db rset d (Some pos) r) \<and>
      (\<forall>name \<in> set (key_names d). (\<forall>(pos, r) \<in> set (rec_rset_records rset). length (values_of r name) = 1)
         \<and> distinct (map (\<lambda>(pos, r). hd (values_of r name)) (rec_rset_records rset))))"
proof
  fix rset assume rset: "rset \<in> set (db_rset_list db)"
  then have "rset_valid env db rset" using check_db_ok [OF assms] by (simp add: list_all_iff)
  moreover have "rec_rset_wf rset" using assms(2) rset by (simp add: list_all_iff rset_ready_def)
  ultimately show "size_ok rset \<and> (\<forall>d. rset_descriptor rset = Some d \<longrightarrow>
      (\<forall>(pos, r) \<in> set (rec_rset_records rset). record_valid env db rset d (Some pos) r) \<and>
      (\<forall>name \<in> set (key_names d). (\<forall>(pos, r) \<in> set (rec_rset_records rset). length (values_of r name) = 1)
         \<and> distinct (map (\<lambda>(pos, r). hd (values_of r name)) (rec_rset_records rset))))"
    using valid_keys_distinct [of env db rset] unfolding rset_valid_def by blast
qed

theorem check_db_consistent_witness:
  "size_ok sample_people \<and> map (\<lambda>(pos, r). hd (values_of r ''Name'')) (rec_rset_records sample_people) = [''Ada'', ''Bob'']
   \<and> distinct (map (\<lambda>(pos, r). hd (values_of r ''Name'')) (rec_rset_records sample_people))"
proof -
  have w: "rec_db_wf sample_people_db" and l: "db_rset_list sample_people_db = [sample_people]"
    and d: "rset_descriptor sample_people = Some sample_person_descr" and k: "key_names sample_person_descr = [''Name'']"
    and v: "map (\<lambda>(pos, r). hd (values_of r ''Name'')) (rec_rset_records sample_people) = [''Ada'', ''Bob'']" by code_simp+
  have "case rec_int_check_db sample_int_env sample_people_db True False rec_buf_new of None \<Rightarrow> False | Some (db', k, e) \<Rightarrow> k = 0"
    by code_simp
  then obtain db' e where "rec_int_check_db sample_int_env sample_people_db True False rec_buf_new = Some (db', 0, e)"
    by (auto split: option.splits prod.splits)
  from check_db_consistent [OF w _ this] show ?thesis using sample_people_ready by (simp add: l d k v)
qed

end
