(* ===== verification/Rec_Parser_Names.thy ===== *)
theory Rec_Parser_Names
  imports Rec_Parser_Laws
begin

text \<open>
  \<open>rec_parse_field_name_str\<close> decides the syntax of field names: it accepts the names
  \<open>[a-zA-Z%][a-zA-Z0-9_]*\<close>, with or without the colon, and whatever follows the colon and a byte
  \<open>0xFF\<close>, which a parser in memory reads as \<open>EOF\<close>.
\<close>

lemma getc_FF:
  assumes "ready p" and "rest p = CHR 0xFF # cs" and "parser_backend p = InBuffer"
  shows "rec_parser_getc p = (EOF, set_eof (p\<lparr>parser_pos := parser_pos p + 1\<rparr>))"
proof -
  have "parser_pos p < length (parser_input p)"
    using assms(2) by (metis drop_all list.simps(3) not_le_imp_less rest_def)
  moreover have "parser_input p ! parser_pos p = CHR 0xFF"
    using assms(2) by (metis calculation nth_via_drop rest_def)
  moreover have "byte_int InBuffer (CHR 0xFF) = EOF" by (simp add: byte_int_def schar_EOF_iff)
  ultimately show ?thesis
    using assms(3) by (simp add: rec_parser_getc_def Let_def)
qed

lemma set_eof_eof [simp]: "parser_eof (set_eof p)"
  by (simp add: set_eof_def)

lemma field_name_loop_bad:
  assumes "ready p" and "rest p = s @ d # t" and "list_all fname_char s" and "\<not> fname_char d" and "d \<noteq> CHR '':''"
    and "parser_backend p = InBuffer" and "holds buf w"
  shows "\<exists>ret buf' p'. field_name_loop buf p = (Some (ret, buf'), p') \<and> (ret \<longrightarrow> parser_eof p')"
  using assms
proof (induction s arbitrary: p buf w)
  case Nil
  show ?case
  proof (cases "d = CHR 0xFF")
    case True
    then have "rec_parser_getc p = (EOF, set_eof (p\<lparr>parser_pos := parser_pos p + 1\<rparr>))"
      using Nil.prems(2,6) by (intro getc_FF [OF Nil.prems(1)]) simp_all
    then show ?thesis by (subst field_name_loop.simps) (simp add: exI [of _ True])
  next
    case False
    then have "rec_parser_getc p = (byte_int (parser_backend p) d, adv [d] p)"
      using Nil.prems(2) by (intro getc_Cons [OF Nil.prems(1), of _ t]) simp_all
    then show ?thesis
      using Nil.prems(4,5) byte_int_EOF [OF False] by (subst field_name_loop.simps) (auto simp: Let_def fname_char_def)
  qed
next
  case (Cons c s)
  have c: "c \<noteq> CHR 0xFF" "rec_parser_letter_p c \<or> rec_parser_digit_p c \<or> c = CHR ''_''"
    using Cons.prems(3) fname_char_special by (auto simp: fname_char_def)
  have g: "rec_parser_getc p = (byte_int (parser_backend p) c, adv [c] p)"
    using Cons.prems c by (intro getc_Cons) simp_all
  obtain r b where b: "rec_buf_putc (schar c) buf = (r, b)" "r \<noteq> EOF" "holds b (w @ [c])"
    using Cons.prems(7) c(1) by (rule holds_putc)
  have "\<not> rec_parser_error_p (adv [c] p)"
    using Cons.prems(1) by (simp add: ready_def rec_parser_error_p_def)
  then have "field_name_loop buf p = field_name_loop b (adv [c] p)"
    using g b c byte_int_EOF [OF c(1)] by (subst field_name_loop.simps) (simp add: Let_def)
  moreover have "rest (adv [c] p) = s @ d # t"
    using Cons.prems(2) by (intro rest_adv) simp
  ultimately show ?case
    using Cons.IH [of "adv [c] p" b "w @ [c]"] Cons.prems b(3) by simp
qed

lemma rec_parse_field_name_bad_start:
  assumes "ready p" and "rest p = c # t" and "parser_backend p = InBuffer" and "\<not> (rec_parser_letter_p c \<or> c = CHR ''%'')"
  shows "fst (rec_parse_field_name p) = None"
proof (cases "c = CHR 0xFF")
  case True
  then show ?thesis using getc_FF [OF assms(1)] assms(2,3) by (simp add: rec_parse_field_name_def)
next
  case False
  then show ?thesis using getc_Cons [OF assms(1,2)] assms(4) by (simp add: rec_parse_field_name_def Let_def)
qed

lemma rec_parse_field_name_bad:
  assumes "ready p" and "rest p = c # s @ d # t" and "rec_parser_letter_p c \<or> c = CHR ''%''"
    and "list_all fname_char s" and "\<not> fname_char d" and "d \<noteq> CHR '':''" and "parser_backend p = InBuffer"
  shows "fst (rec_parse_field_name p) = None"
proof -
  have c: "c \<noteq> CHR 0xFF" using fname_start_special [OF assms(3)] by simp
  obtain r b where b: "rec_buf_putc (schar c) rec_buf_new = (r, b)" "r \<noteq> EOF" "holds b ([] @ [c])"
    using holds_new c by (rule holds_putc)
  have "rest (adv [c] p) = s @ d # t" using assms(2) by (intro rest_adv) simp
  with field_name_loop_bad [of "adv [c] p" s d t b "[c]"] assms b(3) obtain ret buf' p' where
    "field_name_loop b (adv [c] p) = (Some (ret, buf'), p')" "ret \<longrightarrow> parser_eof p'" by auto
  with getc_Cons [OF assms(1,2) c] assms(3) b byte_int_EOF [OF c] ready_simps [OF assms(1)] show ?thesis
    by (simp add: rec_parse_field_name_def Let_def)
qed

text \<open>In memory, what follows the colon stops \<open>field_name_end\<close> before the end of the input, but for a byte \<open>0xFF\<close>.\<close>

lemma field_name_end_more:
  assumes "ready p" and "rest p = c # t" and "c \<noteq> CHR 0xFF" and "parser_backend p = InBuffer"
  shows "\<not> parser_eof (field_name_end p)"
proof -
  have "rec_parser_ungetc (schar c) (adv [c] p) = (schar c, p)"
    using ungetc_adv [OF assms(1-3)] assms(4) by (simp add: byte_int_def)
  then show ?thesis
    using getc_Cons [OF assms(1-3)] byte_int_EOF [OF assms(3)] assms(1)
    by (auto simp: field_name_end_def Let_def ready_def)
qed

lemma field_name_end_FF:
  assumes "ready p" and "rest p = CHR 0xFF # t" and "parser_backend p = InBuffer"
  shows "parser_eof (field_name_end p)"
  using getc_FF [OF assms] by (simp add: field_name_end_def)

lemma parse_name_colon:
  assumes "cstring s" and "s \<noteq> []" and "last s = CHR '':''" and "length s < 2 ^ 64"
    and "rec_parse_field_name (rec_parser_new_str s (Some x)) = (Some n, p')"
  shows "valid_fname n \<and> (parser_eof p' \<longleftrightarrow> s = n @ '':'' \<or> (\<exists>t. s = n @ CHR '':'' # CHR 0xFF # t))"
proof -
  let ?p = "rec_parser_new_str s (Some x)"
  have p: "ready ?p" "rest ?p = s" "parser_backend ?p = InBuffer"
    using assms(1,4) by (simp_all add: ready_def rest_def rec_parser_new_str_def rec_parser_new_mem_def rec_parser_init_common_def)
  obtain c s1 where s: "s = c # s1" using assms(2) by (cases s) auto
  have c: "rec_parser_letter_p c \<or> c = CHR ''%''"
    using rec_parse_field_name_bad_start [OF p(1), of c s1] p(2,3) s assms(5) by auto
  have nc: "c \<noteq> CHR '':''" using fname_start_special [OF c] by simp
  obtain u d t where u: "s1 = u @ d # t" "list_all fname_char u" "\<not> fname_char d"
  proof -
    have "last s1 = CHR '':''" "s1 \<noteq> []" using assms(3) s nc by (auto split: if_splits)
    then have "CHR '':'' \<in> set s1" by (metis last_in_set)
    then have "dropWhile fname_char s1 \<noteq> []" by (metis dropWhile_eq_Nil_conv fname_char_special(1))
    then obtain d t where "dropWhile fname_char s1 = d # t" by (cases "dropWhile fname_char s1") auto
    with that [of "takeWhile fname_char s1" d t] takeWhile_dropWhile_id [of fname_char s1] show ?thesis
      by (metis dropWhile_eq_Cons_conv list_all_iff set_takeWhileD)
  qed
  have d: "d = CHR '':''"
    using rec_parse_field_name_bad [OF p(1) _ c u(2,3), of t] p(2,3) s u(1) assms(5) by fastforce
  have v: "valid_fname (c # u)" using c u(2) by simp
  have r: "rest ?p = (c # u) @ CHR '':'' # t" using p(2) s u(1) d by simp
  with rec_parse_field_name_ok [OF p(1) _ v] assms(5) have n: "n = c # u" "p' = field_name_end (adv ((c # u) @ '':'') ?p)"
    by auto
  have r1: "rest (adv ((c # u) @ '':'') ?p) = t" using r by (intro rest_adv) simp
  have "parser_eof p' \<longleftrightarrow> t = [] \<or> (\<exists>t'. t = CHR 0xFF # t')"
  proof (cases t)
    case Nil
    then show ?thesis using field_name_end_eof [of "adv ((c # u) @ '':'') ?p"] p(1) r1 n(2) by simp
  next
    case (Cons y ys)
    then show ?thesis
      using field_name_end_more [of "adv ((c # u) @ '':'') ?p" y ys] field_name_end_FF [of "adv ((c # u) @ '':'') ?p" ys] p r1 n(2)
      by (cases "y = CHR 0xFF") simp_all
  qed
  with v n s u(1) d show ?thesis by auto
qed

text \<open>The strings that are read as a name: what is behind \<open>0xFF\<close> is not read.\<close>

definition spells_name :: "string \<Rightarrow> string \<Rightarrow> bool" where
  "spells_name s n \<longleftrightarrow> valid_fname n \<and> (s = n \<or> s = n @ '':'' \<or> (\<exists>t. s = n @ CHR '':'' # CHR 0xFF # t))"

lemma rec_parse_field_name_str_iff:
  assumes "cstring s" and "length s < 2 ^ 64 - 1"
  shows "rec_parse_field_name_str s = Some n \<longleftrightarrow> spells_name s n"
proof -
  define s2 where "s2 = (if s \<noteq> [] \<and> last s = CHR '':'' then s else s @ '':'')"
  let ?p = "rec_parser_new_str s2 (Some ''dummy'')"
  have s2: "cstring s2" "s2 \<noteq> []" "last s2 = CHR '':''" "length s2 < 2 ^ 64"
    using assms by (auto simp: s2_def)
  have e: "rec_parse_field_name_str s = Some n \<longleftrightarrow>
      (\<exists>p'. rec_parse_field_name ?p = (Some n, p') \<and> parser_eof p')"
    using assms(1) by (auto simp: rec_parse_field_name_str_def Let_def s2_def [symmetric] split: prod.splits)
  have spell: "valid_fname n \<and> (s2 = n @ '':'' \<or> (\<exists>t. s2 = n @ CHR '':'' # CHR 0xFF # t)) \<longleftrightarrow> spells_name s n"
  proof (cases "valid_fname n")
    case True
    then have l: "n = [] \<or> last n \<noteq> CHR '':''" using valid_fname_no_colon [OF True] by (metis last_in_set)
    have a: "s2 = n @ '':'' \<longleftrightarrow> s = n \<or> s = n @ '':''" using l by (auto simp: s2_def)
    have b: "(\<exists>t. s2 = n @ CHR '':'' # CHR 0xFF # t) \<longleftrightarrow> (\<exists>t. s = n @ CHR '':'' # CHR 0xFF # t)" (is "?l \<longleftrightarrow> ?r")
    proof
      assume ?l
      then obtain t where t: "s2 = n @ CHR '':'' # CHR 0xFF # t" by blast
      show ?r
      proof (cases "s \<noteq> [] \<and> last s = CHR '':''")
        case False
        then have "s @ '':'' = (n @ [CHR '':'', CHR 0xFF]) @ t" using t by (auto simp: s2_def)
        moreover have "t \<noteq> []" using calculation by (auto simp: append_eq_append_conv2 append_eq_Cons_conv Cons_eq_append_conv)
        ultimately have "s = (n @ [CHR '':'', CHR 0xFF]) @ butlast t" by (metis butlast_append butlast_snoc)
        then show ?thesis by simp
      qed (use t in \<open>auto simp: s2_def\<close>)
    next
      assume ?r
      then show ?l by (auto simp: s2_def)
    qed
    show ?thesis using True a b by (auto simp: spells_name_def)
  qed (simp add: spells_name_def)
  show ?thesis
  proof
    assume "rec_parse_field_name_str s = Some n"
    then obtain p' where "rec_parse_field_name ?p = (Some n, p')" "parser_eof p'" using e by blast
    with parse_name_colon [OF s2] show "spells_name s n" unfolding spell [symmetric] by blast
  next
    assume "spells_name s n"
    then have v: "valid_fname n" and t: "s2 = n @ '':'' \<or> (\<exists>t. s2 = n @ CHR '':'' # CHR 0xFF # t)"
      unfolding spell [symmetric] by blast+
    then obtain t where r: "s2 = n @ CHR '':'' # t" by auto
    have p: "ready ?p" "rest ?p = n @ CHR '':'' # t"
      using s2(1,4) r by (simp_all add: ready_def rest_def rec_parser_new_str_def rec_parser_new_mem_def rec_parser_init_common_def)
    obtain p' where "rec_parse_field_name ?p = (Some n, p')" using rec_parse_field_name_ok [OF p v] by blast
    moreover from parse_name_colon [OF s2 this] t have "parser_eof p'" by blast
    ultimately show "rec_parse_field_name_str s = Some n" unfolding e by blast
  qed
qed

end
