(* ===== verification/Rec_Types_Reg.thy ===== *)
theory Rec_Types_Reg
  imports Rec_Types
begin

text \<open>
  Type registries. What a name means is given by the relation \<open>resolves\<close>: the type of its
  entry, or what the name it is a synonym of resolves to. The lookup of \<open>src/rec-types.c\<close> with
  its visited flags always returns on a registry built by the insertions, finds exactly what the
  name resolves to, and gives NULL for dangling and circular synonyms.
\<close>

section \<open>Resolution of names\<close>

inductive resolves :: "(string \<Rightarrow> rec_type_reg_entry option) \<Rightarrow> string \<Rightarrow> rec_type \<Rightarrow> bool"
  for find_entry :: "string \<Rightarrow> rec_type_reg_entry option" where
  direct: "find_entry n = Some e \<Longrightarrow> entry_type e = Some ty \<Longrightarrow> resolves find_entry n ty"
| synonym: "find_entry n = Some e \<Longrightarrow> entry_type e = None \<Longrightarrow> entry_to_type e = Some m \<Longrightarrow>
    resolves find_entry m ty \<Longrightarrow> resolves find_entry n ty"

inductive_cases resolvesE: "resolves f n ty"

fun resolve_in :: "(string \<Rightarrow> rec_type_reg_entry option) \<Rightarrow> nat \<Rightarrow> string \<Rightarrow> rec_type option" where
  "resolve_in f k n =
     (case f n of
        None \<Rightarrow> None
      | Some e \<Rightarrow>
          (case entry_type e of
             Some ty \<Rightarrow> if k = 0 then Some ty else None
           | None \<Rightarrow>
               (case k of
                  0 \<Rightarrow> None
                | Suc l \<Rightarrow> Option.bind (entry_to_type e) (resolve_in f l))))"

declare resolve_in.simps [simp del]

lemma resolves_iff: "resolves f n ty \<longleftrightarrow> (\<exists>k. resolve_in f k n = Some ty)"
proof
  assume "resolves f n ty"
  then show "\<exists>k. resolve_in f k n = Some ty"
  proof induction
    case (direct n e ty)
    then have "resolve_in f 0 n = Some ty" by (simp add: resolve_in.simps)
    then show ?case by blast
  next
    case (synonym n e m ty)
    then obtain k where "resolve_in f k m = Some ty" by blast
    with synonym have "resolve_in f (Suc k) n = Some ty" by (simp add: resolve_in.simps)
    then show ?case by blast
  qed
next
  assume "\<exists>k. resolve_in f k n = Some ty"
  then obtain k where "resolve_in f k n = Some ty" by blast
  then show "resolves f n ty"
  proof (induction f k n rule: resolve_in.induct)
    case (1 f k n)
    then show ?case
      by (subst (asm) (2) resolve_in.simps)
        (auto split: option.splits if_splits nat.splits simp: bind_eq_Some_conv
          intro: resolves.direct resolves.synonym)
  qed
qed

lemma resolve_in_unique: "resolve_in f k n = Some ty \<Longrightarrow> resolve_in f l n = Some ty' \<Longrightarrow> k = l"
proof (induction f k n arbitrary: l rule: resolve_in.induct)
  case (1 f k n)
  from 1(2,3) show ?case
    by (subst (asm) (1 2) resolve_in.simps)
      (auto split: option.splits if_splits nat.splits simp: bind_eq_Some_conv dest: 1(1))
qed

section \<open>The store of entries\<close>

locale entry_store =
  fixes put :: "rec_type_reg_entry \<Rightarrow> 's \<Rightarrow> 's"
    and find_entry :: "'s \<Rightarrow> string \<Rightarrow> rec_type_reg_entry option"
  assumes find_put: "find_entry (put e s) n = (if n = entry_type_name e then Some e else find_entry s n)"
begin

lemma resolves_put_type:
  "entry_type e = Some ty \<Longrightarrow> resolves (find_entry (put e s)) (entry_type_name e) ty"
  by (rule resolves.direct [of _ _ e]) (simp_all add: find_put)

lemma resolves_put_synonym:
  assumes "entry_type e = None" and "entry_to_type e = Some m"
  shows "resolves (find_entry (put e s)) (entry_type_name e) ty \<longleftrightarrow> resolves (find_entry (put e s)) m ty"
proof
  assume "resolves (find_entry (put e s)) (entry_type_name e) ty"
  then show "resolves (find_entry (put e s)) m ty"
    by (rule resolvesE) (use assms in \<open>auto simp: find_put\<close>)
next
  assume "resolves (find_entry (put e s)) m ty"
  then show "resolves (find_entry (put e s)) (entry_type_name e) ty"
    by (rule resolves.synonym [of _ _ e, rotated 3]) (use assms in \<open>auto simp: find_put\<close>)
qed

text \<open>A name whose old resolution does not pass through the new entry keeps it.\<close>

lemma resolves_put_new:
  "resolves (find_entry s) n ty \<Longrightarrow> find_entry s (entry_type_name e) = None \<Longrightarrow> resolves (find_entry (put e s)) n ty"
proof (induction rule: resolves.induct)
  case (direct n d ty)
  then show ?case by (intro resolves.direct [of _ n d]) (auto simp: find_put)
next
  case (synonym n d m ty)
  then show ?case by (intro resolves.synonym [of _ n d m]) (auto simp: find_put)
qed

end

definition reg_find :: "rec_type_reg \<Rightarrow> string \<Rightarrow> rec_type_reg_entry option" where
  "reg_find reg n = List.find (\<lambda>e. entry_type_name e = n) reg"

lemma reg_find_simps [simp]:
  "reg_find [] n = None"
  "reg_find (e # reg) n = (if entry_type_name e = n then Some e else reg_find reg n)"
  by (simp_all add: reg_find_def)

lemma reg_find_put: "reg_find (reg_put e reg) n = (if n = entry_type_name e then Some e else reg_find reg n)"
  by (induction reg) auto

interpretation reg: entry_store reg_put reg_find
  by unfold_locales (rule reg_find_put)

section \<open>Well-formed registries\<close>

definition entry_ok :: "rec_type_reg_entry \<Rightarrow> bool" where
  "entry_ok e \<longleftrightarrow> (entry_type e = None \<longrightarrow> entry_to_type e \<noteq> None) \<and> \<not> entry_visited_p e"

definition reg_ok :: "rec_type_reg \<Rightarrow> bool" where
  "reg_ok reg \<longleftrightarrow> distinct (map entry_type_name reg) \<and> list_all entry_ok reg"

lemma reg_put_names: "set (map entry_type_name (reg_put e reg)) = insert (entry_type_name e) (set (map entry_type_name reg))"
  by (induction reg) auto

lemma reg_put_ok: "reg_ok reg \<Longrightarrow> entry_ok e \<Longrightarrow> reg_ok (reg_put e reg)"
proof (induction reg)
  case (Cons d reg)
  then show ?case using reg_put_names [of e reg] by (auto simp: reg_ok_def)
qed (simp add: reg_ok_def)

lemma reg_new_ok: "reg_ok rec_type_reg_new"
  by (simp add: reg_ok_def rec_type_reg_new_def)

lemma reg_add_ok: "reg_ok reg \<Longrightarrow> reg_ok (rec_type_reg_add reg ty)"
  by (auto simp: rec_type_reg_add_def entry_ok_def split: option.splits intro!: reg_put_ok)

lemma reg_add_synonym_ok: "reg_ok reg \<Longrightarrow> reg_ok (rec_type_reg_add_synonym reg n m)"
  by (auto simp: rec_type_reg_add_synonym_def entry_ok_def intro!: reg_put_ok)

section \<open>The lookup\<close>

text \<open>During a lookup some flags are set; the names and contents of the entries stay.\<close>

definition mark :: "string \<Rightarrow> rec_type_reg \<Rightarrow> rec_type_reg" where
  "mark n reg = map (\<lambda>e. if entry_type_name e = n then e\<lparr>entry_visited_p := True\<rparr> else e) reg"

definition visited :: "rec_type_reg \<Rightarrow> string set" where
  "visited reg = entry_type_name ` {e \<in> set reg. entry_visited_p e}"

definition unvisited :: "rec_type_reg \<Rightarrow> nat" where
  "unvisited reg = length (filter (\<lambda>e. \<not> entry_visited_p e) reg)"

lemma reset_visited_names [simp]: "map entry_type_name (reset_visited reg) = map entry_type_name reg"
  by (simp add: reset_visited_def)

lemma reset_visited_idem [simp]: "reset_visited (reset_visited reg) = reset_visited reg"
  by (simp add: reset_visited_def)

lemma reset_visited_ok: "reg_ok reg \<Longrightarrow> reset_visited reg = reg"
  by (auto simp: reset_visited_def reg_ok_def list_all_iff entry_ok_def intro!: map_idI)

lemma loop_done:
  "\<forall>j. i \<le> j \<and> j < length reg \<longrightarrow> entry_type_name (reg ! j) \<noteq> n \<Longrightarrow>
   reg_get_loop reg n i ty = Some (ty, reset_visited reg)"
proof (induction "length reg - i" arbitrary: i)
  case 0
  then show ?case by (subst reg_get_loop.simps) simp
next
  case (Suc k)
  then show ?case by (subst reg_get_loop.simps) (simp add: Let_def)
qed

lemma loop_skip:
  "k < length reg \<Longrightarrow> i \<le> k \<Longrightarrow> \<forall>j < k. entry_type_name (reg ! j) \<noteq> n \<Longrightarrow>
   reg_get_loop reg n i ty = reg_get_loop reg n k ty"
proof (induction "k - i" arbitrary: i)
  case (Suc d)
  then have "i < k" by simp
  with Suc have "reg_get_loop reg n i ty = reg_get_loop reg n (i + 1) ty"
    by (subst reg_get_loop.simps) (simp add: Let_def)
  with Suc show ?case by simp
qed simp

lemma mark_props:
  "reset_visited (mark n reg) = reset_visited reg"
  "map entry_type_name (mark n reg) = map entry_type_name reg"
  "visited (mark n reg) \<subseteq> insert n (visited reg)"
  by (auto simp: mark_def reset_visited_def visited_def split: if_splits)

lemma mark_unvisited: "reg_find reg n = Some e \<Longrightarrow> \<not> entry_visited_p e \<Longrightarrow> unvisited (mark n reg) < unvisited reg"
proof (induction reg)
  case (Cons d reg)
  have "unvisited (mark n reg) \<le> unvisited reg" for reg
    by (induction reg) (auto simp: unvisited_def mark_def)
  then have le: "length (filter (\<lambda>e. \<not> entry_visited_p e) (mark n reg)) \<le> length (filter (\<lambda>e. \<not> entry_visited_p e) reg)"
    by (simp add: unvisited_def)
  have "mark n (d # reg) = (if entry_type_name d = n then d\<lparr>entry_visited_p := True\<rparr> else d) # mark n reg"
    by (simp add: mark_def)
  with Cons le show ?case by (auto simp: unvisited_def split: if_splits)
qed simp

lemma reg_find_reset: "reg_find (reset_visited reg) n = map_option (\<lambda>e. e\<lparr>entry_visited_p := False\<rparr>) (reg_find reg n)"
  by (induction reg) (auto simp: reset_visited_def)

lemma reg_find_position:
  assumes "reg_find reg n = Some e" and "distinct (map entry_type_name reg)"
  obtains k where "k < length reg" "reg ! k = e" "\<forall>j < length reg. entry_type_name (reg ! j) = n \<longleftrightarrow> j = k"
proof -
  from assms(1) obtain k where k: "k < length reg" "entry_type_name (reg ! k) = n" "reg ! k = e"
    by (auto simp: reg_find_def find_Some_iff)
  moreover have "entry_type_name (reg ! j) = n \<longleftrightarrow> j = k" if "j < length reg" for j
    using assms(2) k that by (auto simp: distinct_conv_nth)
  ultimately show ?thesis using that by blast
qed

lemma lookup_missing: "reg_find reg n = None \<Longrightarrow> reg_get_loop reg n 0 None = Some (None, reset_visited reg)"
  by (rule loop_done) (auto simp: reg_find_def find_None_iff)

lemma lookup_type:
  assumes "reg_find reg n = Some e" and "distinct (map entry_type_name reg)" and "entry_type e = Some ty"
  shows "reg_get_loop reg n 0 None = Some (Some ty, reset_visited reg)"
proof -
  from reg_find_position [OF assms(1,2)] obtain k where
    k: "k < length reg" "reg ! k = e" "\<forall>j < length reg. entry_type_name (reg ! j) = n \<longleftrightarrow> j = k" .
  then have "reg_get_loop reg n 0 None = reg_get_loop reg n k None" by (intro loop_skip) auto
  also have "\<dots> = Some (Some ty, reset_visited reg)"
    using k assms(3) by (subst reg_get_loop.simps) (auto simp: Let_def)
  finally show ?thesis .
qed

lemma lookup_visited:
  assumes "reg_find reg n = Some e" and "distinct (map entry_type_name reg)"
    and "entry_type e = None" and "entry_visited_p e"
  shows "reg_get_loop reg n 0 None = Some (None, reset_visited reg)"
proof -
  from reg_find_position [OF assms(1,2)] obtain k where
    k: "k < length reg" "reg ! k = e" "\<forall>j < length reg. entry_type_name (reg ! j) = n \<longleftrightarrow> j = k" .
  then have "reg_get_loop reg n 0 None = reg_get_loop reg n k None" by (intro loop_skip) auto
  also have "\<dots> = Some (None, reset_visited reg)"
    using k assms(3,4) by (subst reg_get_loop.simps) (auto simp: Let_def)
  finally show ?thesis .
qed

lemma lookup_follow:
  assumes "reg_find reg n = Some e" and "distinct (map entry_type_name reg)"
    and "entry_type e = None" and "\<not> entry_visited_p e" and "entry_to_type e = Some m"
    and rec: "reg_get_loop (mark n reg) m 0 None = Some (r, reset_visited reg)"
  shows "reg_get_loop reg n 0 None = Some (r, reset_visited reg)"
proof -
  from reg_find_position [OF assms(1,2)] obtain k where
    k: "k < length reg" "reg ! k = e" "\<forall>j < length reg. entry_type_name (reg ! j) = n \<longleftrightarrow> j = k" .
  have "mark n reg = reg[k := e\<lparr>entry_visited_p := True\<rparr>]"
    using k by (auto simp: mark_def list_eq_iff_nth_eq nth_list_update)
  with rec have inner: "reg_get_loop (reg[k := e\<lparr>entry_visited_p := True\<rparr>]) m 0 None = Some (r, reset_visited reg)" by simp
  have last: "reg_get_loop (reset_visited reg) n (k + 1) r = Some (r, reset_visited reg)"
    using k loop_done [of "k + 1" "reset_visited reg" n r] by (simp add: reset_visited_def)
  have "reg_get_loop reg n 0 None = reg_get_loop reg n k None" using k by (intro loop_skip) auto
  also have "\<dots> = Some (r, reset_visited reg)"
    using k assms(3-5) inner last by (subst reg_get_loop.simps) (auto simp: Let_def)
  finally show ?thesis .
qed

lemma lookup_sound:
  assumes "distinct (map entry_type_name reg)" and "\<forall>e \<in> set reg. entry_type e = None \<longrightarrow> entry_to_type e \<noteq> None"
  shows "\<exists>r. reg_get_loop reg n 0 None = Some (r, reset_visited reg)
    \<and> (\<forall>ty. r = Some ty \<longrightarrow> resolves (reg_find (reset_visited reg)) n ty)"
  using assms
proof (induction "unvisited reg" arbitrary: reg n rule: less_induct)
  case less
  show ?case
  proof (cases "reg_find reg n")
    case None
    then show ?thesis by (simp add: lookup_missing)
  next
    case (Some e)
    show ?thesis
    proof (cases "entry_type e")
      case ty: (Some ty)
      with Some have "resolves (reg_find (reset_visited reg)) n ty"
        by (intro resolves.direct [of _ n "e\<lparr>entry_visited_p := False\<rparr>"]) (simp_all add: reg_find_reset)
      with lookup_type [OF Some less(2) ty] show ?thesis by auto
    next
      case None
      have "e \<in> set reg" using Some by (auto simp: reg_find_def find_Some_iff)
      with less(3) None obtain m where m: "entry_to_type e = Some m" by auto
      show ?thesis
      proof (cases "entry_visited_p e")
        case True
        then show ?thesis by (simp add: lookup_visited [OF Some less(2) None])
      next
        case False
        have "\<forall>d \<in> set (mark n reg). entry_type d = None \<longrightarrow> entry_to_type d \<noteq> None"
          using less(3) by (auto simp: mark_def)
        with less(1) [OF mark_unvisited [OF Some False], of m] less(2)
        obtain r where r: "reg_get_loop (mark n reg) m 0 None = Some (r, reset_visited reg)"
          "\<forall>ty. r = Some ty \<longrightarrow> resolves (reg_find (reset_visited reg)) m ty"
          by (auto simp: mark_props)
        have "resolves (reg_find (reset_visited reg)) n ty" if "r = Some ty" for ty
          using that r(2) Some None m
          by (intro resolves.synonym [of _ n "e\<lparr>entry_visited_p := False\<rparr>" m]) (auto simp: reg_find_reset)
        with lookup_follow [OF Some less(2) None False m r(1)] show ?thesis by blast
      qed
    qed
  qed
qed

lemma lookup_complete:
  assumes "distinct (map entry_type_name reg)"
    and "resolve_in (reg_find (reset_visited reg)) k n = Some ty"
    and "\<forall>v \<in> visited reg. \<forall>l \<le> k. resolve_in (reg_find (reset_visited reg)) l v = None"
  shows "reg_get_loop reg n 0 None = Some (Some ty, reset_visited reg)"
  using assms
proof (induction k arbitrary: reg n)
  case 0
  then obtain e where "reg_find reg n = Some e" "entry_type e = Some ty"
    by (subst (asm) resolve_in.simps) (auto simp: reg_find_reset split: option.splits)
  then show ?case using 0(1) by (blast intro: lookup_type)
next
  case (Suc k)
  then obtain e m where e: "reg_find reg n = Some e" "entry_type e = None" "entry_to_type e = Some m"
      "resolve_in (reg_find (reset_visited reg)) k m = Some ty"
    by (subst (asm) resolve_in.simps) (auto simp: reg_find_reset bind_eq_Some_conv split: option.splits)
  have nv: "\<not> entry_visited_p e"
  proof
    assume "entry_visited_p e"
    with e(1) have "n \<in> visited reg" by (auto simp: visited_def reg_find_def find_Some_iff)
    with Suc(3,4) show False by auto
  qed
  have "resolve_in (reg_find (reset_visited reg)) l n = None" if "l \<le> k" for l
  proof (rule ccontr)
    assume "resolve_in (reg_find (reset_visited reg)) l n \<noteq> None"
    then have "l = Suc k" using resolve_in_unique Suc(3) by blast
    with that show False by simp
  qed
  then have "\<forall>v \<in> visited (mark n reg). \<forall>l \<le> k. resolve_in (reg_find (reset_visited reg)) l v = None"
    using Suc(4) mark_props(3) [of n reg] by fastforce
  then have "reg_get_loop (mark n reg) m 0 None = Some (Some ty, reset_visited (mark n reg))"
    using Suc(1) [of "mark n reg" m] Suc(2) e(4) by (simp add: mark_props)
  then show ?case using lookup_follow [OF e(1) Suc(2) e(2) nv e(3)] by (simp add: mark_props)
qed

lemma rec_type_reg_get_ok:
  assumes "reg_ok reg"
  shows "\<exists>r. rec_type_reg_get reg n = Some (r, reg) \<and> (\<forall>ty. r = Some ty \<longleftrightarrow> resolves (reg_find reg) n ty)"
proof -
  have reset: "reset_visited reg = reg" using assms by (rule reset_visited_ok)
  have d: "distinct (map entry_type_name reg)" using assms by (simp add: reg_ok_def)
  have "visited reg = {}" using assms by (auto simp: visited_def reg_ok_def list_all_iff entry_ok_def)
  then have complete: "resolves (reg_find reg) n ty \<Longrightarrow> reg_get_loop reg n 0 None = Some (Some ty, reg)" for ty
    using lookup_complete [OF d, of _ n ty] reset by (auto simp: resolves_iff)
  have "\<forall>e \<in> set reg. entry_type e = None \<longrightarrow> entry_to_type e \<noteq> None"
    using assms by (auto simp: reg_ok_def list_all_iff entry_ok_def)
  from lookup_sound [OF d this, of n] obtain r where
    r: "reg_get_loop reg n 0 None = Some (r, reg)" "\<forall>ty. r = Some ty \<longrightarrow> resolves (reg_find reg) n ty"
    unfolding reset by blast
  moreover have "r = Some ty \<longleftrightarrow> resolves (reg_find reg) n ty" for ty
  proof
    assume "resolves (reg_find reg) n ty"
    then have "Some (r, reg) = Some (Some ty, reg)" using complete r(1) by metis
    then show "r = Some ty" by simp
  qed (simp add: r(2))
  ultimately show ?thesis by (simp add: rec_type_reg_get_def)
qed

text \<open>A name that resolves to nothing: in particular a cycle of synonyms.\<close>

lemma cycle_unresolved:
  assumes "n \<in> C" and "\<forall>m \<in> C. \<exists>e l. f m = Some e \<and> entry_type e = None \<and> entry_to_type e = Some l \<and> l \<in> C"
  shows "\<not> resolves f n ty"
proof
  assume "resolves f n ty"
  then show False using assms by (induction rule: resolves.induct) fastforce+
qed

section \<open>Registries built by the library\<close>

text \<open>The calls that change a registry.\<close>

datatype reg_op = Add rec_type | Add_synonym string string

fun reg_do :: "reg_op \<Rightarrow> rec_type_reg \<Rightarrow> rec_type_reg" where
  "reg_do (Add ty) reg = rec_type_reg_add reg ty"
| "reg_do (Add_synonym n m) reg = rec_type_reg_add_synonym reg n m"

lemma reg_ops_ok: "reg_ok reg \<Longrightarrow> reg_ok (fold reg_do ops reg)"
proof (induction ops arbitrary: reg)
  case (Cons op ops)
  then show ?case by (cases op) (simp_all add: reg_add_ok reg_add_synonym_ok)
qed simp

text \<open>
  C31. Looking a name up in a type registry always returns, whatever additions of types and
  synonyms built the registry: the flags that detect loops end circular chains of synonyms, the
  result is the type the name resolves to through the synonyms, NULL when there is none,
  and every flag is clear again afterwards.
\<close>

theorem registry_lookup:
  "\<exists>r. rec_type_reg_get (fold reg_do ops rec_type_reg_new) n = Some (r, fold reg_do ops rec_type_reg_new)
    \<and> (\<forall>ty. r = Some ty \<longleftrightarrow> resolves (reg_find (fold reg_do ops rec_type_reg_new)) n ty)"
  by (rule rec_type_reg_get_ok [OF reg_ops_ok [OF reg_new_ok]])

text \<open>
  Adding a named type to a registry makes its name resolve to it at the next lookup,
  replacing whatever the name meant before.
\<close>

lemma registry_add_get:
  assumes "type_name ty = Some n"
  shows "\<exists>reg. rec_type_reg_get (rec_type_reg_add (fold reg_do ops rec_type_reg_new) ty) n = Some (Some ty, reg)"
proof -
  let ?reg = "rec_type_reg_add (fold reg_do ops rec_type_reg_new) ty"
  have "reg_ok ?reg" by (intro reg_add_ok reg_ops_ok reg_new_ok)
  moreover have "resolves (reg_find ?reg) n ty"
    using reg.resolves_put_type [of "\<lparr>entry_type_name = n, entry_type = Some ty, entry_to_type = None, entry_visited_p = False\<rparr>" ty]
      assms by (simp add: rec_type_reg_add_def rec_type_name_def)
  ultimately show ?thesis using rec_type_reg_get_ok [of ?reg n] by auto
qed

end
