(* ===== verification/Rec_Csv.thy ===== *)
theory Rec_Csv
  imports Rec_Prelude
begin

text \<open>
  The CSV reader and writer of \<open>src/libcsv/libcsv.c\<close>, which \<open>csv2rec\<close> and \<open>rec2csv\<close> use. The
  reader is a state machine fed with characters; it collects a field in a growing entry buffer
  and hands fields and rows to two callbacks. Bytes of the buffer that were never written are
  \<open>None\<close>. A callback works on the state of its client and may end the program. Writing outside
  the buffer and submitting bytes that were never written are undefined.
\<close>

unbundle bit_operations_syntax

section \<open>The parser\<close>

datatype csv_pstate = ROW_NOT_BEGUN | FIELD_NOT_BEGUN | FIELD_BEGUN | FIELD_MIGHT_HAVE_ENDED

definition CSV_SUCCESS :: int where "CSV_SUCCESS = 0"
definition CSV_EPARSE :: int where "CSV_EPARSE = 1"
definition CSV_ENOMEM :: int where "CSV_ENOMEM = 2"
definition CSV_ETOOBIG :: int where "CSV_ETOOBIG = 3"
definition CSV_EINVALID :: int where "CSV_EINVALID = 4"

definition CSV_STRICT :: "8 word" where "CSV_STRICT = 1"
definition CSV_REPALL_NL :: "8 word" where "CSV_REPALL_NL = 2"
definition CSV_STRICT_FINI :: "8 word" where "CSV_STRICT_FINI = 4"
definition CSV_APPEND_NULL :: "8 word" where "CSV_APPEND_NULL = 8"

definition CSV_TAB :: char where "CSV_TAB = CHR 0x09"
definition CSV_SPACE :: char where "CSV_SPACE = CHR 0x20"
definition CSV_CR :: char where "CSV_CR = CHR 0x0D"
definition CSV_LF :: char where "CSV_LF = CHR 0x0A"
definition CSV_COMMA :: char where "CSV_COMMA = CHR 0x2C"
definition CSV_QUOTE :: char where "CSV_QUOTE = CHR 0x22"

definition MEM_BLK_SIZE :: nat where "MEM_BLK_SIZE = 128"
definition CSV_SIZE_MAX :: nat where "CSV_SIZE_MAX = 2 ^ 64 - 1"

text \<open>
  The allocator is a parameter: \<open>csv_realloc_func\<close> tells whether \<open>realloc\<close> can provide a size.
\<close>

record csv_parser =
  csv_pstate :: csv_pstate
  csv_quoted :: bool
  csv_spaces :: nat
  csv_entry_buf :: "char option list option"
  csv_entry_pos :: nat
  csv_entry_size :: nat
  csv_status :: int
  csv_options :: "8 word"
  csv_quote_char :: char
  csv_delim_char :: char
  csv_is_space :: "(char \<Rightarrow> bool) option"
  csv_is_term :: "(char \<Rightarrow> bool) option"
  csv_blk_size :: nat
  csv_realloc_func :: "nat \<Rightarrow> bool"

definition csv_init :: "(nat \<Rightarrow> bool) \<Rightarrow> 8 word \<Rightarrow> csv_parser" where
  "csv_init realloc options =
     \<lparr>csv_pstate = ROW_NOT_BEGUN, csv_quoted = False, csv_spaces = 0, csv_entry_buf = None,
      csv_entry_pos = 0, csv_entry_size = 0, csv_status = 0, csv_options = options,
      csv_quote_char = CSV_QUOTE, csv_delim_char = CSV_COMMA, csv_is_space = None, csv_is_term = None,
      csv_blk_size = MEM_BLK_SIZE, csv_realloc_func = realloc\<rparr>"

definition csv_error :: "csv_parser \<Rightarrow> int" where
  "csv_error p = csv_status p"

definition csv_errors :: "string list" where
  "csv_errors = [''success'', ''error parsing data while strict checking enabled'',
     ''memory exhausted while increasing buffer size'', ''data size too large'', ''invalid status code'']"

definition csv_strerror :: "int \<Rightarrow> string" where
  "csv_strerror status =
     (if status \<ge> CSV_EINVALID \<or> status < 0 then csv_errors ! nat CSV_EINVALID else csv_errors ! nat status)"

definition csv_get_opts :: "csv_parser option \<Rightarrow> int" where
  "csv_get_opts po = (case po of None \<Rightarrow> -1 | Some p \<Rightarrow> uint (csv_options p))"

definition csv_set_opts :: "csv_parser \<Rightarrow> 8 word \<Rightarrow> csv_parser" where
  "csv_set_opts p options = p\<lparr>csv_options := options\<rparr>"

definition csv_set_delim :: "csv_parser \<Rightarrow> char \<Rightarrow> csv_parser" where
  "csv_set_delim p c = p\<lparr>csv_delim_char := c\<rparr>"

definition csv_set_quote :: "csv_parser \<Rightarrow> char \<Rightarrow> csv_parser" where
  "csv_set_quote p c = p\<lparr>csv_quote_char := c\<rparr>"

definition csv_set_space_func :: "csv_parser \<Rightarrow> (char \<Rightarrow> bool) option \<Rightarrow> csv_parser" where
  "csv_set_space_func p f = p\<lparr>csv_is_space := f\<rparr>"

definition csv_set_term_func :: "csv_parser \<Rightarrow> (char \<Rightarrow> bool) option \<Rightarrow> csv_parser" where
  "csv_set_term_func p f = p\<lparr>csv_is_term := f\<rparr>"

definition csv_set_realloc_func :: "csv_parser \<Rightarrow> (nat \<Rightarrow> bool) option \<Rightarrow> csv_parser" where
  "csv_set_realloc_func p f = (case f of None \<Rightarrow> p | Some g \<Rightarrow> p\<lparr>csv_realloc_func := g\<rparr>)"

definition csv_set_blk_size :: "csv_parser \<Rightarrow> nat \<Rightarrow> csv_parser" where
  "csv_set_blk_size p n = p\<lparr>csv_blk_size := n\<rparr>"

definition csv_get_buffer_size :: "csv_parser option \<Rightarrow> nat" where
  "csv_get_buffer_size po = (case po of Some p \<Rightarrow> csv_entry_size p | None \<Rightarrow> 0)"

definition csv_free :: "csv_parser \<Rightarrow> csv_parser" where
  "csv_free p = p\<lparr>csv_entry_buf := None, csv_entry_size := 0\<rparr>"

section \<open>The entry buffer\<close>

text \<open>The increment is halved until the allocation succeeds.\<close>

function csv_grow :: "(nat \<Rightarrow> bool) \<Rightarrow> nat \<Rightarrow> nat \<Rightarrow> nat option" where
  "csv_grow realloc sz to_add =
     (if realloc (sz + to_add) then Some to_add
      else if to_add div 2 = 0 then None
      else csv_grow realloc sz (to_add div 2))"
  by pat_completeness auto
termination by (relation "measure (\<lambda>(_, _, n). n)") auto

declare csv_grow.simps [simp del]

definition csv_increase_buffer :: "csv_parser \<Rightarrow> bool \<times> csv_parser" where
  "csv_increase_buffer p =
     (let to_add = (if csv_entry_size p \<ge> CSV_SIZE_MAX - csv_blk_size p
                    then CSV_SIZE_MAX - csv_entry_size p else csv_blk_size p) in
      if to_add = 0 then (False, p\<lparr>csv_status := CSV_ETOOBIG\<rparr>)
      else case csv_grow (csv_realloc_func p) (csv_entry_size p) to_add of
             None \<Rightarrow> (False, p\<lparr>csv_status := CSV_ENOMEM\<rparr>)
           | Some n \<Rightarrow>
               (True, p\<lparr>csv_entry_buf := Some ((case csv_entry_buf p of None \<Rightarrow> [] | Some b \<Rightarrow> b) @ replicate n None),
                        csv_entry_size := csv_entry_size p + n\<rparr>))"

text \<open>A step ends undefined, ends because a callback ended the program, or goes on.\<close>

datatype 'e csv_stop = Csv_undefined | Csv_exit 'e

type_synonym ('e, 's) csv_result = "'e csv_stop + csv_parser \<times> 's"
type_synonym ('e, 's) csv_cb1 = "(string \<Rightarrow> 's \<Rightarrow> 'e csv_stop + 's) option"
type_synonym ('e, 's) csv_cb2 = "(int \<Rightarrow> 's \<Rightarrow> 'e csv_stop + 's) option"

definition csv_bind :: "'e + 'a \<Rightarrow> ('a \<Rightarrow> 'e + 'b) \<Rightarrow> 'e + 'b" where
  "csv_bind r f = (case r of Inl e \<Rightarrow> Inl e | Inr x \<Rightarrow> f x)"

text \<open>Subtraction of \<open>size_t\<close> values.\<close>

definition size_sub :: "nat \<Rightarrow> nat \<Rightarrow> nat" where
  "size_sub a b = (a + (2 ^ 64 - b mod 2 ^ 64)) mod 2 ^ 64"

definition put_byte :: "nat \<Rightarrow> char \<Rightarrow> csv_parser \<Rightarrow> csv_parser option" where
  "put_byte i c p =
     (case csv_entry_buf p of
        None \<Rightarrow> None
      | Some b \<Rightarrow> if i < length b then Some (p\<lparr>csv_entry_buf := Some (b[i := Some c])\<rparr>) else None)"

definition SUBMIT_CHAR :: "char \<Rightarrow> csv_parser \<Rightarrow> 's \<Rightarrow> ('e, 's) csv_result" where
  "SUBMIT_CHAR c p s =
     (case put_byte (csv_entry_pos p) c p of
        None \<Rightarrow> Inl Csv_undefined
      | Some p' \<Rightarrow> Inr (p'\<lparr>csv_entry_pos := csv_entry_pos p + 1\<rparr>, s))"

definition entry_text :: "csv_parser \<Rightarrow> string option" where
  "entry_text p =
     (case csv_entry_buf p of
        None \<Rightarrow> None
      | Some b \<Rightarrow> if csv_entry_pos p \<le> length b then those (take (csv_entry_pos p) b) else None)"

definition SUBMIT_FIELD :: "('e, 's) csv_cb1 \<Rightarrow> csv_parser \<Rightarrow> 's \<Rightarrow> ('e, 's) csv_result" where
  "SUBMIT_FIELD cb1 p s =
     (let p1 = (if csv_quoted p then p else p\<lparr>csv_entry_pos := size_sub (csv_entry_pos p) (csv_spaces p)\<rparr>) in
      case (if csv_options p1 AND CSV_APPEND_NULL \<noteq> 0 then put_byte (csv_entry_pos p1 + 1) NUL p1 else Some p1) of
        None \<Rightarrow> Inl Csv_undefined
      | Some p2 \<Rightarrow>
          csv_bind (case cb1 of
                      None \<Rightarrow> Inr s
                    | Some f \<Rightarrow> (case entry_text p2 of None \<Rightarrow> Inl Csv_undefined | Some t \<Rightarrow> f t s))
            (\<lambda>s'. Inr (p2\<lparr>csv_pstate := FIELD_NOT_BEGUN, csv_entry_pos := 0, csv_quoted := False, csv_spaces := 0\<rparr>, s')))"

definition SUBMIT_ROW :: "('e, 's) csv_cb2 \<Rightarrow> int \<Rightarrow> csv_parser \<Rightarrow> 's \<Rightarrow> ('e, 's) csv_result" where
  "SUBMIT_ROW cb2 c p s =
     csv_bind (case cb2 of None \<Rightarrow> Inr s | Some f \<Rightarrow> f c s)
       (\<lambda>s'. Inr (p\<lparr>csv_pstate := ROW_NOT_BEGUN, csv_entry_pos := 0, csv_quoted := False, csv_spaces := 0\<rparr>, s'))"

section \<open>Reading\<close>

definition csv_space_p :: "csv_parser \<Rightarrow> char \<Rightarrow> bool" where
  "csv_space_p p c = (case csv_is_space p of Some f \<Rightarrow> f c | None \<Rightarrow> c = CSV_SPACE \<or> c = CSV_TAB)"

definition csv_term_p :: "csv_parser \<Rightarrow> char \<Rightarrow> bool" where
  "csv_term_p p c = (case csv_is_term p of Some f \<Rightarrow> f c | None \<Rightarrow> c = CSV_CR \<or> c = CSV_LF)"

text \<open>
  One character in each state. \<open>csv_step\<close> returns whether the parser goes on: in strict mode an unescaped
  quote stops it with \<open>CSV_EPARSE\<close>. The local copies \<open>quoted\<close>, \<open>pstate\<close>, \<open>spaces\<close> and \<open>entry_pos\<close>
  of the C function are stored back on every return, so they are kept in the parser.
\<close>

type_synonym ('e, 's) step_result = "'e csv_stop + bool \<times> csv_parser \<times> 's"

definition goes_on :: "('e, 's) csv_result \<Rightarrow> ('e, 's) step_result" where
  "goes_on r = csv_bind r (\<lambda>(p, s). Inr (True, p, s))"

definition end_row :: "('e, 's) csv_cb1 \<Rightarrow> ('e, 's) csv_cb2 \<Rightarrow> char \<Rightarrow> csv_parser \<Rightarrow> 's \<Rightarrow> ('e, 's) csv_result" where
  "end_row cb1 cb2 c p s = csv_bind (SUBMIT_FIELD cb1 p s) (\<lambda>(p', s'). SUBMIT_ROW cb2 (uchar c) p' s')"

definition step_outside :: "('e, 's) csv_cb1 \<Rightarrow> ('e, 's) csv_cb2 \<Rightarrow> char \<Rightarrow> csv_parser \<Rightarrow> 's \<Rightarrow> ('e, 's) step_result" where
  "step_outside cb1 cb2 c p s =
     (if csv_space_p p c then Inr (True, p, s)
      else if csv_term_p p c then
        (if csv_pstate p = FIELD_NOT_BEGUN then goes_on (end_row cb1 cb2 c p s)
         else if csv_options p AND CSV_REPALL_NL \<noteq> 0 then goes_on (SUBMIT_ROW cb2 (uchar c) p s)
         else Inr (True, p, s))
      else if c = csv_delim_char p then goes_on (SUBMIT_FIELD cb1 p s)
      else if c = csv_quote_char p then Inr (True, p\<lparr>csv_pstate := FIELD_BEGUN, csv_quoted := True\<rparr>, s)
      else goes_on (SUBMIT_CHAR c (p\<lparr>csv_pstate := FIELD_BEGUN, csv_quoted := False\<rparr>) s))"

definition strict_error :: "csv_parser \<Rightarrow> 's \<Rightarrow> ('e, 's) step_result" where
  "strict_error p s = Inr (False, p\<lparr>csv_status := CSV_EPARSE\<rparr>, s)"

definition with_spaces :: "nat \<Rightarrow> ('e, 's) csv_result \<Rightarrow> ('e, 's) csv_result" where
  "with_spaces n r = csv_bind r (\<lambda>(p, s). Inr (p\<lparr>csv_spaces := n\<rparr>, s))"

definition step_field :: "('e, 's) csv_cb1 \<Rightarrow> ('e, 's) csv_cb2 \<Rightarrow> char \<Rightarrow> csv_parser \<Rightarrow> 's \<Rightarrow> ('e, 's) step_result" where
  "step_field cb1 cb2 c p s =
     (if c = csv_quote_char p then
        (if csv_quoted p then
           goes_on (csv_bind (SUBMIT_CHAR c p s) (\<lambda>(p', s'). Inr (p'\<lparr>csv_pstate := FIELD_MIGHT_HAVE_ENDED\<rparr>, s')))
         else if csv_options p AND CSV_STRICT \<noteq> 0 then strict_error p s
         else goes_on (with_spaces 0 (SUBMIT_CHAR c p s)))
      else if c = csv_delim_char p then
        (if csv_quoted p then goes_on (SUBMIT_CHAR c p s) else goes_on (SUBMIT_FIELD cb1 p s))
      else if csv_term_p p c then
        (if \<not> csv_quoted p then goes_on (end_row cb1 cb2 c p s) else goes_on (SUBMIT_CHAR c p s))
      else if \<not> csv_quoted p \<and> csv_space_p p c then goes_on (with_spaces (csv_spaces p + 1) (SUBMIT_CHAR c p s))
      else goes_on (with_spaces 0 (SUBMIT_CHAR c p s)))"

text \<open>Get rid of the spaces and the original quote.\<close>

definition drop_quote :: "csv_parser \<Rightarrow> csv_parser" where
  "drop_quote p = p\<lparr>csv_entry_pos := size_sub (csv_entry_pos p) (csv_spaces p + 1)\<rparr>"

definition step_ended :: "('e, 's) csv_cb1 \<Rightarrow> ('e, 's) csv_cb2 \<Rightarrow> char \<Rightarrow> csv_parser \<Rightarrow> 's \<Rightarrow> ('e, 's) step_result" where
  "step_ended cb1 cb2 c p s =
     (if c = csv_delim_char p then goes_on (SUBMIT_FIELD cb1 (drop_quote p) s)
      else if csv_term_p p c then goes_on (end_row cb1 cb2 c (drop_quote p) s)
      else if csv_space_p p c then goes_on (with_spaces (csv_spaces p + 1) (SUBMIT_CHAR c p s))
      else if c = csv_quote_char p then
        (if csv_spaces p \<noteq> 0 then
           (if csv_options p AND CSV_STRICT \<noteq> 0 then strict_error p s
            else goes_on (with_spaces 0 (SUBMIT_CHAR c p s)))
         else Inr (True, p\<lparr>csv_pstate := FIELD_BEGUN\<rparr>, s))
      else if csv_options p AND CSV_STRICT \<noteq> 0 then strict_error p s
      else goes_on (with_spaces 0 (SUBMIT_CHAR c (p\<lparr>csv_pstate := FIELD_BEGUN\<rparr>) s)))"

definition csv_step :: "('e, 's) csv_cb1 \<Rightarrow> ('e, 's) csv_cb2 \<Rightarrow> char \<Rightarrow> csv_parser \<Rightarrow> 's \<Rightarrow> ('e, 's) step_result" where
  "csv_step cb1 cb2 c p s =
     (case csv_pstate p of
        FIELD_BEGUN \<Rightarrow> step_field cb1 cb2 c p s
      | FIELD_MIGHT_HAVE_ENDED \<Rightarrow> step_ended cb1 cb2 c p s
      | _ \<Rightarrow> step_outside cb1 cb2 c p s)"

text \<open>The last usable position of the entry buffer.\<close>

definition entry_limit :: "csv_parser \<Rightarrow> nat" where
  "entry_limit p =
     (if csv_options p AND CSV_APPEND_NULL \<noteq> 0 then size_sub (csv_entry_size p) 1 else csv_entry_size p)"

text \<open>The result: the number of characters read, the parser and the state of the client.\<close>

fun csv_parse_loop :: "('e, 's) csv_cb1 \<Rightarrow> ('e, 's) csv_cb2 \<Rightarrow> string \<Rightarrow> nat \<Rightarrow> csv_parser \<Rightarrow> 's
    \<Rightarrow> 'e csv_stop + nat \<times> csv_parser \<times> 's" where
  "csv_parse_loop cb1 cb2 [] n p s = Inr (n, p, s)"
| "csv_parse_loop cb1 cb2 (c # cs) n p s =
     (case (if csv_entry_pos p = entry_limit p then csv_increase_buffer p else (True, p)) of
        (False, p') \<Rightarrow> Inr (n, p', s)
      | (True, p') \<Rightarrow>
          csv_bind (csv_step cb1 cb2 c p' s)
            (\<lambda>(go, p1, s1). if go then csv_parse_loop cb1 cb2 cs (n + 1) p1 s1 else Inr (n, p1, s1)))"

definition csv_parse :: "('e, 's) csv_cb1 \<Rightarrow> ('e, 's) csv_cb2 \<Rightarrow> string \<Rightarrow> csv_parser \<Rightarrow> 's
    \<Rightarrow> 'e csv_stop + nat \<times> csv_parser \<times> 's" where
  "csv_parse cb1 cb2 us p s =
     (case (if csv_entry_buf p = None \<and> us \<noteq> [] then csv_increase_buffer p else (True, p)) of
        (False, p') \<Rightarrow> Inr (0, p', s)
      | (True, p') \<Rightarrow> csv_parse_loop cb1 cb2 us 0 p' s)"

definition csv_fini :: "('e, 's) csv_cb1 \<Rightarrow> ('e, 's) csv_cb2 \<Rightarrow> csv_parser \<Rightarrow> 's \<Rightarrow> 'e csv_stop + int \<times> csv_parser \<times> 's" where
  "csv_fini cb1 cb2 p s =
     (if csv_pstate p = FIELD_BEGUN \<and> csv_quoted p \<and> csv_options p AND CSV_STRICT \<noteq> 0
         \<and> csv_options p AND CSV_STRICT_FINI \<noteq> 0
      then Inr (-1, p\<lparr>csv_status := CSV_EPARSE\<rparr>, s)
      else
        csv_bind
          (if csv_pstate p = ROW_NOT_BEGUN then Inr (p, s)
           else csv_bind (SUBMIT_FIELD cb1 (if csv_pstate p = FIELD_MIGHT_HAVE_ENDED then drop_quote p else p) s)
                  (\<lambda>(p', s'). SUBMIT_ROW cb2 (-1) p' s'))
          (\<lambda>(p', s'). Inr (0, p'\<lparr>csv_spaces := 0, csv_quoted := False, csv_entry_pos := 0, csv_status := 0,
                                  csv_pstate := ROW_NOT_BEGUN\<rparr>, s')))"

section \<open>Writing\<close>

text \<open>The text of a quoted field: quotes are doubled.\<close>

fun quoted_bytes :: "char \<Rightarrow> string \<Rightarrow> string" where
  "quoted_bytes q [] = []"
| "quoted_bytes q (c # cs) = (if c = q then [q, c] else [c]) @ quoted_bytes q cs"

text \<open>
  \<open>csv_fwrite2\<close> to a stream that accepts every byte appends this text; \<open>csv_fwrite\<close> is the same with
  the standard quote.
\<close>

definition csv_fwrite2 :: "char \<Rightarrow> string \<Rightarrow> string \<Rightarrow> string" where
  "csv_fwrite2 q src fp = fp @ [q] @ quoted_bytes q src @ [q]"

definition csv_fwrite :: "string \<Rightarrow> string \<Rightarrow> string" where
  "csv_fwrite src fp = fp @ [CSV_QUOTE] @ quoted_bytes CSV_QUOTE src @ [CSV_QUOTE]"

text \<open>
  Writing to memory: \<open>dest\<close> is what was written so far, \<open>chars\<close> counts what the text needs,
  saturating at \<open>SIZE_MAX\<close>.
\<close>

definition count_char :: "nat \<Rightarrow> nat" where
  "count_char chars = (if chars < CSV_SIZE_MAX then chars + 1 else chars)"

definition put_dest :: "nat \<Rightarrow> char \<Rightarrow> string \<times> nat \<Rightarrow> string \<times> nat" where
  "put_dest dest_size c st = (case st of (dest, chars) \<Rightarrow>
     (if dest_size > chars then dest @ [c] else dest, count_char chars))"

fun csv_write2_loop :: "nat \<Rightarrow> char \<Rightarrow> string \<Rightarrow> string \<times> nat \<Rightarrow> string \<times> nat" where
  "csv_write2_loop dest_size q [] st = st"
| "csv_write2_loop dest_size q (c # cs) st =
     csv_write2_loop dest_size q cs (put_dest dest_size c (if c = q then put_dest dest_size q st else st))"

definition csv_write2 :: "nat \<Rightarrow> string \<Rightarrow> char \<Rightarrow> string \<times> nat" where
  "csv_write2 dest_size src q =
     put_dest dest_size q (csv_write2_loop dest_size q src (if dest_size > 0 then [q] else [], 1))"

definition csv_write :: "nat \<Rightarrow> string \<Rightarrow> string \<times> nat" where
  "csv_write dest_size src = csv_write2 dest_size src CSV_QUOTE"

end
