(* ===== verification/Rec_Csv_Laws.thy ===== *)
theory Rec_Csv_Laws
  imports Rec_Csv
begin

text \<open>
  What the CSV reader promises. A reference reader works on strings and produces the sequence of
  fields and rows; \<open>csv_parse\<close> refines it for every callback, never leaves its buffer, may be fed
  in any chunks, and reads back what \<open>csv_fwrite\<close> writes.
\<close>

section \<open>The reference reader\<close>

text \<open>
  The states: no field in this row yet, between fields, in a bare field with its text and the blanks that
  follow it, in a quoted field, behind a quote in a quoted field with the blanks that follow.
\<close>

datatype csv_state = InRow | InGap | Bare string string | Quoted string | Ended string string

datatype csv_event = Field string | Row int

fun spec_outside :: "csv_parser \<Rightarrow> char \<Rightarrow> csv_state \<Rightarrow> (csv_event list \<times> csv_state) option" where
  "spec_outside p c st =
     (if csv_space_p p c then Some ([], st)
      else if csv_term_p p c then
        Some (if st = InGap then [Field [], Row (uchar c)]
              else if csv_options p AND CSV_REPALL_NL \<noteq> 0 then [Row (uchar c)] else [], InRow)
      else if c = csv_delim_char p then Some ([Field []], InGap)
      else if c = csv_quote_char p then Some ([], Quoted [])
      else Some ([], Bare [c] []))"

fun spec_bare :: "csv_parser \<Rightarrow> char \<Rightarrow> string \<Rightarrow> string \<Rightarrow> (csv_event list \<times> csv_state) option" where
  "spec_bare p c u v =
     (if c = csv_quote_char p \<and> csv_options p AND CSV_STRICT \<noteq> 0 then None
      else if c = csv_quote_char p then Some ([], Bare (u @ v @ [c]) [])
      else if c = csv_delim_char p then Some ([Field u], InGap)
      else if csv_term_p p c then Some ([Field u, Row (uchar c)], InRow)
      else if csv_space_p p c then Some ([], Bare u (v @ [c]))
      else Some ([], Bare (u @ v @ [c]) []))"

fun spec_ended :: "csv_parser \<Rightarrow> char \<Rightarrow> string \<Rightarrow> string \<Rightarrow> (csv_event list \<times> csv_state) option" where
  "spec_ended p c t v =
     (if c = csv_delim_char p then Some ([Field t], InGap)
      else if csv_term_p p c then Some ([Field t, Row (uchar c)], InRow)
      else if csv_space_p p c then Some ([], Ended t (v @ [c]))
      else if c = csv_quote_char p \<and> v = [] then Some ([], Quoted (t @ [c]))
      else if csv_options p AND CSV_STRICT \<noteq> 0 then None
      else if c = csv_quote_char p then Some ([], Ended (t @ csv_quote_char p # v) [])
      else Some ([], Quoted (t @ csv_quote_char p # v @ [c])))"

fun spec_step :: "csv_parser \<Rightarrow> char \<Rightarrow> csv_state \<Rightarrow> (csv_event list \<times> csv_state) option" where
  "spec_step p c (Bare u v) = spec_bare p c u v"
| "spec_step p c (Ended t v) = spec_ended p c t v"
| "spec_step p c (Quoted t) = Some ([], if c = csv_quote_char p then Ended t [] else Quoted (t @ [c]))"
| "spec_step p c st = spec_outside p c st"

text \<open>The characters read, the events and the state, which is none after an error in strict mode.\<close>

fun spec_run :: "csv_parser \<Rightarrow> string \<Rightarrow> csv_state \<Rightarrow> nat \<times> csv_event list \<times> csv_state option" where
  "spec_run p [] st = (0, [], Some st)"
| "spec_run p (c # cs) st =
     (case spec_step p c st of
        None \<Rightarrow> (0, [], None)
      | Some (evs, st') \<Rightarrow> (case spec_run p cs st' of (n, evs', so) \<Rightarrow> (n + 1, evs @ evs', so)))"

text \<open>Handing events to the callbacks, until one of them ends the program.\<close>

fun run_event :: "('e, 's) csv_cb1 \<Rightarrow> ('e, 's) csv_cb2 \<Rightarrow> csv_event \<Rightarrow> 's \<Rightarrow> 'e csv_stop + 's" where
  "run_event cb1 cb2 (Field t) s = (case cb1 of None \<Rightarrow> Inr s | Some f \<Rightarrow> f t s)"
| "run_event cb1 cb2 (Row c) s = (case cb2 of None \<Rightarrow> Inr s | Some f \<Rightarrow> f c s)"

fun run_events :: "('e, 's) csv_cb1 \<Rightarrow> ('e, 's) csv_cb2 \<Rightarrow> csv_event list \<Rightarrow> 's \<Rightarrow> 'e csv_stop + 's" where
  "run_events cb1 cb2 [] s = Inr s"
| "run_events cb1 cb2 (e # es) s = csv_bind (run_event cb1 cb2 e s) (run_events cb1 cb2 es)"

lemma csv_bind_simps [simp]: "csv_bind (Inl e) f = Inl e" "csv_bind (Inr x) f = f x"
  by (simp_all add: csv_bind_def)

lemma csv_bind_assoc: "csv_bind (csv_bind r f) g = csv_bind r (\<lambda>x. csv_bind (f x) g)"
  by (cases r) simp_all

lemma csv_bind_Inr [simp]: "csv_bind r Inr = r"
  by (cases r) simp_all

lemma run_events_append:
  "run_events cb1 cb2 (es @ es') s = csv_bind (run_events cb1 cb2 es s) (run_events cb1 cb2 es')"
  by (induction es arbitrary: s) (simp_all add: csv_bind_assoc csv_bind_def split: sum.split)

section \<open>The entry buffer\<close>

lemma size_sub_eq: "b \<le> a \<Longrightarrow> a < 2 ^ 64 \<Longrightarrow> size_sub a b = a - b"
  by (auto simp: size_sub_def mod_if)

text \<open>The buffer holds the text \<open>t\<close> and has room for it.\<close>

definition csv_holds :: "csv_parser \<Rightarrow> string \<Rightarrow> bool" where
  "csv_holds p t \<longleftrightarrow> csv_entry_size p \<le> CSV_SIZE_MAX \<and> csv_blk_size p \<le> CSV_SIZE_MAX \<and> 0 < csv_entry_size p
     \<and> csv_entry_pos p = length t \<and> length t \<le> entry_limit p
     \<and> (\<exists>b. csv_entry_buf p = Some b \<and> length b = csv_entry_size p \<and> take (length t) b = map Some t)"

definition csv_room :: "csv_parser \<Rightarrow> bool" where
  "csv_room p \<longleftrightarrow> csv_entry_pos p < entry_limit p"

definition same_conf :: "csv_parser \<Rightarrow> csv_parser \<Rightarrow> bool" where
  "same_conf p p' \<longleftrightarrow> csv_options p' = csv_options p \<and> csv_quote_char p' = csv_quote_char p \<and> csv_delim_char p' = csv_delim_char p
     \<and> csv_is_space p' = csv_is_space p \<and> csv_is_term p' = csv_is_term p \<and> csv_blk_size p' = csv_blk_size p
     \<and> csv_realloc_func p' = csv_realloc_func p"

lemma same_conf_refl [simp]: "same_conf p p"
  by (simp add: same_conf_def)

lemma same_conf_trans: "same_conf p q \<Longrightarrow> same_conf q r \<Longrightarrow> same_conf p r"
  by (simp add: same_conf_def)

lemma same_conf_char: assumes "same_conf p p'"
  shows "csv_space_p p' = csv_space_p p" "csv_term_p p' = csv_term_p p"
  using assms by (simp_all add: same_conf_def csv_space_p_def csv_term_p_def fun_eq_iff)

lemma same_conf_spec_step: assumes "same_conf p p'" shows "spec_step p' c st = spec_step p c st"
  using assms same_conf_char [OF assms] by (cases st) (simp_all add: same_conf_def)

lemma same_conf_spec_run: assumes "same_conf p p'" shows "spec_run p' cs st = spec_run p cs st"
  by (induction cs arbitrary: st) (auto simp: same_conf_spec_step [OF assms] split: option.split)

lemma entry_limit_le: "0 < csv_entry_size p \<Longrightarrow> csv_entry_size p \<le> CSV_SIZE_MAX \<Longrightarrow>
    entry_limit p \<le> csv_entry_size p \<and> (csv_options p AND CSV_APPEND_NULL \<noteq> 0 \<longrightarrow> entry_limit p = csv_entry_size p - 1)
    \<and> (csv_options p AND CSV_APPEND_NULL = 0 \<longrightarrow> entry_limit p = csv_entry_size p)"
  by (auto simp: entry_limit_def size_sub_eq CSV_SIZE_MAX_def)

lemma entry_limit_pos [simp]: "entry_limit (p\<lparr>csv_entry_pos := n\<rparr>) = entry_limit p"
  by (simp add: entry_limit_def)

lemma put_byte_holds:
  assumes "csv_holds p t" and "i < csv_entry_size p" and "length t \<le> i"
  obtains p' where "put_byte i c p = Some p'" "\<exists>b. p' = p\<lparr>csv_entry_buf := Some b\<rparr>" "csv_holds p' t"
    "i = length t \<Longrightarrow> \<exists>b. csv_entry_buf p' = Some b \<and> take (Suc i) b = map Some (t @ [c])"
proof -
  obtain b where b: "csv_entry_buf p = Some b" "length b = csv_entry_size p" "take (length t) b = map Some t"
    using assms(1) by (auto simp: csv_holds_def)
  let ?p = "p\<lparr>csv_entry_buf := Some (b[i := Some c])\<rparr>"
  have lim: "entry_limit ?p = entry_limit p" by (simp add: entry_limit_def)
  show ?thesis
  proof (rule that)
    show "put_byte i c p = Some ?p" using b assms(2) by (simp add: put_byte_def)
    show "\<exists>b. ?p = p\<lparr>csv_entry_buf := Some b\<rparr>" by blast
    show "csv_holds ?p t" using assms b lim by (simp add: csv_holds_def take_update_cancel)
    show "\<exists>b. csv_entry_buf ?p = Some b \<and> take (Suc i) b = map Some (t @ [c])" if "i = length t"
      using b assms(2) that by (simp add: take_Suc_conv_app_nth take_update_cancel)
  qed
qed

lemma SUBMIT_CHAR_holds:
  assumes "csv_holds p t" and "csv_room p"
  obtains p' where "\<And>s. SUBMIT_CHAR c p s = Inr (p', s)" "csv_holds p' (t @ [c])"
    "\<exists>b. p' = p\<lparr>csv_entry_buf := Some b, csv_entry_pos := length t + 1\<rparr>"
proof -
  have pos: "csv_entry_pos p = length t" "length t < entry_limit p" and lim: "entry_limit p \<le> csv_entry_size p"
    using assms entry_limit_le [of p] by (auto simp: csv_holds_def csv_room_def)
  then have i: "length t < csv_entry_size p" by simp
  obtain p1 where p1: "put_byte (length t) c p = Some p1" "\<exists>b. p1 = p\<lparr>csv_entry_buf := Some b\<rparr>" "csv_holds p1 t"
    "\<exists>b. csv_entry_buf p1 = Some b \<and> take (Suc (length t)) b = map Some (t @ [c])"
    using put_byte_holds [OF assms(1) i order_refl, of c] by metis
  let ?p = "p1\<lparr>csv_entry_pos := length t + 1\<rparr>"
  have l: "entry_limit ?p = entry_limit p" using p1(2) by (auto simp: entry_limit_def)
  show ?thesis
  proof (rule that)
    show "SUBMIT_CHAR c p s = Inr (?p, s)" for s using p1(1) pos by (simp add: SUBMIT_CHAR_def)
    show "csv_holds ?p (t @ [c])" using p1(3,4) l pos(2) by (auto simp: csv_holds_def)
    show "\<exists>b. ?p = p\<lparr>csv_entry_buf := Some b, csv_entry_pos := length t + 1\<rparr>" using p1(2) by auto
  qed
qed

lemma those_map_Some [simp]: "those (map Some xs) = Some xs"
  by (induction xs) simp_all

lemma holds_entry_text: "csv_holds p t \<Longrightarrow> entry_text p = Some t"
  using entry_limit_le [of p] by (auto simp: csv_holds_def entry_text_def)

lemma holds_shorter:
  assumes "csv_holds p (t @ v)" shows "csv_holds (p\<lparr>csv_entry_pos := length t\<rparr>) t"
proof -
  obtain b where b: "csv_entry_buf p = Some b" "length b = csv_entry_size p" "take (length (t @ v)) b = map Some (t @ v)"
    using assms by (auto simp: csv_holds_def)
  have "take (length t) b = take (length t) (take (length (t @ v)) b)" by simp
  also have "\<dots> = map Some t" unfolding b(3) by simp
  finally show ?thesis using assms b by (simp add: csv_holds_def)
qed

text \<open>A field is submitted with the text of the buffer, less the trailing blanks of a bare field.\<close>

lemma SUBMIT_FIELD_holds:
  assumes "csv_holds p (t @ v)" and "csv_room p" and "\<not> csv_quoted p \<Longrightarrow> csv_spaces p = length v" and "csv_quoted p \<Longrightarrow> v = []"
  shows "\<exists>p'. (\<forall>s. SUBMIT_FIELD cb1 p s = csv_bind (run_event cb1 cb2 (Field t) s) (\<lambda>s'. Inr (p', s')))
    \<and> csv_holds p' [] \<and> same_conf p p' \<and> csv_pstate p' = FIELD_NOT_BEGUN \<and> \<not> csv_quoted p' \<and> csv_spaces p' = 0"
proof -
  let ?p1 = "if csv_quoted p then p else p\<lparr>csv_entry_pos := size_sub (csv_entry_pos p) (csv_spaces p)\<rparr>"
  have pos: "csv_entry_pos p = length (t @ v)" "length (t @ v) < entry_limit p"
    and size: "0 < csv_entry_size p" "csv_entry_size p \<le> CSV_SIZE_MAX"
    using assms(1,2) by (auto simp: csv_holds_def csv_room_def)
  note lim = entry_limit_le [OF size]
  have sub: "size_sub (csv_entry_pos p) (csv_spaces p) = length t" if "\<not> csv_quoted p"
    using pos lim size(2) assms(3) [OF that] by (subst size_sub_eq) (auto simp: CSV_SIZE_MAX_def)
  have p1: "?p1 = p\<lparr>csv_entry_pos := length t\<rparr>"
    using sub assms(4) pos(1) by (cases "csv_quoted p") auto
  have h: "csv_holds ?p1 t" unfolding p1 by (rule holds_shorter [OF assms(1)])
  let ?null = "csv_options ?p1 AND CSV_APPEND_NULL \<noteq> 0"
  obtain p2 where p2: "(if ?null then put_byte (csv_entry_pos ?p1 + 1) NUL ?p1 else Some ?p1) = Some p2"
    "csv_holds p2 t" "same_conf p p2"
  proof (cases ?null)
    case True
    then have lt: "csv_entry_pos ?p1 + 1 < csv_entry_size ?p1" using p1 pos(2) lim by auto
    have le: "length t \<le> csv_entry_pos ?p1 + 1" using p1 by simp
    obtain p2 where "put_byte (csv_entry_pos ?p1 + 1) NUL ?p1 = Some p2" "\<exists>b. p2 = ?p1\<lparr>csv_entry_buf := Some b\<rparr>" "csv_holds p2 t"
      using put_byte_holds [OF h lt le] by metis
    with that True p1 show ?thesis by (auto simp: same_conf_def)
  next
    case False
    with that h p1 show ?thesis by (simp add: same_conf_def)
  qed
  let ?p' = "p2\<lparr>csv_pstate := FIELD_NOT_BEGUN, csv_entry_pos := 0, csv_quoted := False, csv_spaces := 0\<rparr>"
  have "csv_holds (p2\<lparr>csv_entry_pos := length ([] :: string)\<rparr>) []" by (rule holds_shorter [of _ _ t]) (simp add: p2(2))
  then have h': "csv_holds ?p' []" by (simp add: csv_holds_def entry_limit_def)
  have "SUBMIT_FIELD cb1 p s = csv_bind (run_event cb1 cb2 (Field t) s) (\<lambda>s'. Inr (?p', s'))" for s
    unfolding SUBMIT_FIELD_def Let_def p2(1) using holds_entry_text [OF p2(2)] by (simp split: option.split)
  moreover have "same_conf p ?p'" using p2(3) by (simp add: same_conf_def)
  ultimately show ?thesis using h' by (intro exI [of _ ?p']) simp
qed

lemma SUBMIT_ROW_run:
  "SUBMIT_ROW cb2 c p s = csv_bind (run_event cb1 cb2 (Row c) s)
     (\<lambda>s'. Inr (p\<lparr>csv_pstate := ROW_NOT_BEGUN, csv_entry_pos := 0, csv_quoted := False, csv_spaces := 0\<rparr>, s'))"
  by (simp add: SUBMIT_ROW_def)

section \<open>The refinement\<close>

lemma csv_holds_update [simp]:
  "csv_holds (p\<lparr>csv_pstate := a\<rparr>) t = csv_holds p t" "csv_holds (p\<lparr>csv_quoted := q\<rparr>) t = csv_holds p t"
  "csv_holds (p\<lparr>csv_spaces := n\<rparr>) t = csv_holds p t" "csv_holds (p\<lparr>csv_status := i\<rparr>) t = csv_holds p t"
  by (simp_all add: csv_holds_def entry_limit_def)

lemma csv_room_update [simp]:
  "csv_room (p\<lparr>csv_pstate := a\<rparr>) = csv_room p" "csv_room (p\<lparr>csv_quoted := q\<rparr>) = csv_room p"
  "csv_room (p\<lparr>csv_spaces := n\<rparr>) = csv_room p"
  by (simp_all add: csv_room_def entry_limit_def)

fun csv_at :: "csv_parser \<Rightarrow> csv_state \<Rightarrow> bool" where
  "csv_at p InRow \<longleftrightarrow> csv_pstate p = ROW_NOT_BEGUN \<and> \<not> csv_quoted p \<and> csv_spaces p = 0 \<and> csv_holds p []"
| "csv_at p InGap \<longleftrightarrow> csv_pstate p = FIELD_NOT_BEGUN \<and> \<not> csv_quoted p \<and> csv_spaces p = 0 \<and> csv_holds p []"
| "csv_at p (Bare u v) \<longleftrightarrow>
     csv_pstate p = FIELD_BEGUN \<and> \<not> csv_quoted p \<and> csv_spaces p = length v \<and> csv_holds p (u @ v)"
| "csv_at p (Quoted t) \<longleftrightarrow> csv_pstate p = FIELD_BEGUN \<and> csv_quoted p \<and> csv_spaces p = 0 \<and> csv_holds p t"
| "csv_at p (Ended t v) \<longleftrightarrow> csv_pstate p = FIELD_MIGHT_HAVE_ENDED \<and> csv_quoted p \<and> csv_spaces p = length v
     \<and> csv_holds p (t @ csv_quote_char p # v)"

definition step_refines :: "('e, 's) csv_cb1 \<Rightarrow> ('e, 's) csv_cb2 \<Rightarrow> csv_parser \<Rightarrow> ('s \<Rightarrow> ('e, 's) step_result)
    \<Rightarrow> (csv_event list \<times> csv_state) option \<Rightarrow> bool" where
  "step_refines cb1 cb2 p f so \<longleftrightarrow>
     (case so of
        None \<Rightarrow> (\<forall>s. f s = strict_error p s)
      | Some (evs, st) \<Rightarrow> (\<exists>p'. csv_at p' st \<and> same_conf p p'
          \<and> (\<forall>s. f s = csv_bind (run_events cb1 cb2 evs s) (\<lambda>s'. Inr (True, p', s')))))"

lemma step_refines_if [simp]:
  "step_refines cb1 cb2 p (\<lambda>s. if b then f s else g s) so \<longleftrightarrow> (if b then step_refines cb1 cb2 p f so else step_refines cb1 cb2 p g so)"
  by simp

named_theorems csv_steps \<open>one character of the reader\<close>

lemma refines_stay [csv_steps]:
  "csv_at p' st \<Longrightarrow> same_conf p p' \<Longrightarrow> step_refines cb1 cb2 p (\<lambda>s. Inr (True, p', s)) (Some ([], st))"
  by (auto simp: step_refines_def)

lemma refines_error [csv_steps]: "step_refines cb1 cb2 p (strict_error p) None"
  by (simp add: step_refines_def)

lemma refines_char_gen:
  fixes cb1 :: "('e, 's) csv_cb1"
  assumes "csv_holds q t" and "csv_room q" and "same_conf p q"
    and "\<And>q'. csv_holds q' (t @ [c]) \<Longrightarrow> \<exists>b. q' = q\<lparr>csv_entry_buf := Some b, csv_entry_pos := length t + 1\<rparr>
       \<Longrightarrow> csv_at (f q') st \<and> same_conf q (f q')"
  shows "step_refines cb1 cb2 p (\<lambda>s. goes_on (csv_bind (SUBMIT_CHAR c q s) (\<lambda>(p', s'). Inr (f p', s')))) (Some ([], st))"
proof -
  obtain q' where q': "\<And>s. (SUBMIT_CHAR c q s :: ('e, 's) csv_result) = Inr (q', s)" "csv_holds q' (t @ [c])"
    "\<exists>b. q' = q\<lparr>csv_entry_buf := Some b, csv_entry_pos := length t + 1\<rparr>"
    using SUBMIT_CHAR_holds [OF assms(1,2), of c] by metis
  show ?thesis using assms(4) [OF q'(2,3)] assms(3)
    by (auto simp: step_refines_def goes_on_def q'(1) dest: same_conf_trans)
qed

lemma refines_char [csv_steps]:
  assumes "csv_holds q t" and "csv_room q" and "same_conf p q"
    and "\<And>q'. csv_holds q' (t @ [c]) \<Longrightarrow> csv_pstate q' = csv_pstate q \<Longrightarrow> csv_quoted q' = csv_quoted q
       \<Longrightarrow> csv_quote_char q' = csv_quote_char q \<Longrightarrow> csv_spaces q' = n \<Longrightarrow> csv_at q' st"
  shows "step_refines cb1 cb2 p (\<lambda>s. goes_on (with_spaces n (SUBMIT_CHAR c q s))) (Some ([], st))"
  unfolding with_spaces_def
  by (rule refines_char_gen [OF assms(1-3)]) (auto simp: same_conf_def intro!: assms(4))

lemma refines_field [csv_steps]:
  assumes "csv_holds q (t @ v)" and "csv_room q" and "\<not> csv_quoted q \<Longrightarrow> csv_spaces q = length v" and "csv_quoted q \<Longrightarrow> v = []"
    and "same_conf p q"
  shows "step_refines cb1 cb2 p (\<lambda>s. goes_on (SUBMIT_FIELD cb1 q s)) (Some ([Field t], InGap))"
proof -
  obtain p' where p': "\<forall>s. SUBMIT_FIELD cb1 q s = csv_bind (run_event cb1 cb2 (Field t) s) (\<lambda>s'. Inr (p', s'))"
    "csv_holds p' []" "same_conf q p'" "csv_pstate p' = FIELD_NOT_BEGUN" "\<not> csv_quoted p'" "csv_spaces p' = 0"
    using SUBMIT_FIELD_holds [OF assms(1-4), of cb1 cb2] by blast
  have "csv_at p' InGap" using p' by simp
  moreover have "same_conf p p'" using assms(5) p'(3) by (rule same_conf_trans)
  ultimately show ?thesis unfolding step_refines_def by (auto simp: p'(1) goes_on_def csv_bind_assoc)
qed

lemma refines_row [csv_steps]:
  assumes "csv_holds q (t @ v)" and "csv_room q" and "\<not> csv_quoted q \<Longrightarrow> csv_spaces q = length v" and "csv_quoted q \<Longrightarrow> v = []"
    and "same_conf p q"
  shows "step_refines cb1 cb2 p (\<lambda>s. goes_on (end_row cb1 cb2 c q s)) (Some ([Field t, Row (uchar c)], InRow))"
proof -
  obtain p' where p': "\<forall>s. SUBMIT_FIELD cb1 q s = csv_bind (run_event cb1 cb2 (Field t) s) (\<lambda>s'. Inr (p', s'))"
    "csv_holds p' []" "same_conf q p'" "csv_pstate p' = FIELD_NOT_BEGUN" "\<not> csv_quoted p'" "csv_spaces p' = 0"
    using SUBMIT_FIELD_holds [OF assms(1-4), of cb1 cb2] by blast
  let ?p = "p'\<lparr>csv_pstate := ROW_NOT_BEGUN, csv_entry_pos := 0, csv_quoted := False, csv_spaces := 0\<rparr>"
  have at: "csv_at ?p InRow" using p'(2) by (simp add: csv_holds_def entry_limit_def)
  have "same_conf p ?p" using same_conf_trans [OF assms(5) p'(3)] by (simp add: same_conf_def)
  moreover have "goes_on (end_row cb1 cb2 c q s)
      = csv_bind (run_events cb1 cb2 [Field t, Row (uchar c)] s) (\<lambda>s'. Inr (True, ?p, s'))" for s
    using p'(1) by (simp add: end_row_def goes_on_def csv_bind_assoc SUBMIT_ROW_run [where ?cb1.0 = cb1])
  ultimately show ?thesis using at unfolding step_refines_def by (auto simp del: csv_at.simps intro!: exI [of _ ?p])
qed

lemma drop_quote_holds:
  assumes "csv_holds p (t @ csv_quote_char p # v)" and "csv_spaces p = length v" and "csv_room p"
  shows "csv_holds (drop_quote p) t" "csv_room (drop_quote p)" "same_conf p (drop_quote p)"
    "csv_quoted (drop_quote p) = csv_quoted p"
proof -
  have "csv_entry_pos p = length (t @ csv_quote_char p # v)" "csv_entry_pos p < 2 ^ 64"
    using assms(1) entry_limit_le [of p] by (auto simp: csv_holds_def CSV_SIZE_MAX_def)
  then have d: "drop_quote p = p\<lparr>csv_entry_pos := length t\<rparr>" and pos: "length t < csv_entry_pos p"
    using assms(2) by (auto simp: drop_quote_def size_sub_eq)
  show "csv_holds (drop_quote p) t" unfolding d by (rule holds_shorter [OF assms(1)])
  show "csv_room (drop_quote p)" using assms(3) pos unfolding d by (simp add: csv_room_def)
  show "same_conf p (drop_quote p)" "csv_quoted (drop_quote p) = csv_quoted p" unfolding d by (simp_all add: same_conf_def)
qed

lemma refines_char_id [csv_steps]:
  assumes "csv_holds q t" and "csv_room q" and "same_conf p q"
    and "\<And>q'. csv_holds q' (t @ [c]) \<Longrightarrow> csv_pstate q' = csv_pstate q \<Longrightarrow> csv_quoted q' = csv_quoted q
       \<Longrightarrow> csv_quote_char q' = csv_quote_char q \<Longrightarrow> csv_spaces q' = csv_spaces q \<Longrightarrow> csv_at q' st"
  shows "step_refines cb1 cb2 p (\<lambda>s. goes_on (SUBMIT_CHAR c q s)) (Some ([], st))"
proof -
  have "step_refines cb1 cb2 p (\<lambda>s. goes_on (csv_bind (SUBMIT_CHAR c q s) (\<lambda>(p', s'). Inr (id p', s')))) (Some ([], st))"
    by (rule refines_char_gen [OF assms(1-3)]) (auto simp: same_conf_def intro!: assms(4))
  then show ?thesis by simp
qed

lemma refines_empty_row [csv_steps]:
  assumes "csv_holds p []"
  shows "step_refines cb1 cb2 p (\<lambda>s. goes_on (SUBMIT_ROW cb2 c p s)) (Some ([Row c], InRow))"
proof -
  let ?p = "p\<lparr>csv_pstate := ROW_NOT_BEGUN, csv_entry_pos := 0, csv_quoted := False, csv_spaces := 0\<rparr>"
  have "csv_at ?p InRow" "same_conf p ?p" using assms by (simp_all add: csv_holds_def entry_limit_def same_conf_def)
  moreover have "goes_on (SUBMIT_ROW cb2 c p s) = csv_bind (run_events cb1 cb2 [Row c] s) (\<lambda>s'. Inr (True, ?p, s'))" for s
    by (simp add: goes_on_def csv_bind_assoc SUBMIT_ROW_run [where ?cb1.0 = cb1])
  ultimately show ?thesis unfolding step_refines_def by (auto simp del: csv_at.simps intro!: exI [of _ ?p])
qed

lemma step_outside_refines:
  assumes "csv_at p st" and "csv_room p" and "st = InRow \<or> st = InGap"
  shows "step_refines cb1 cb2 p (step_outside cb1 cb2 c p) (spec_outside p c st)"
proof -
  have h: "csv_holds p ([] @ [])" "csv_spaces p = length []" "csv_pstate p = FIELD_NOT_BEGUN \<longleftrightarrow> st = InGap"
    "\<not> csv_quoted p"
    using assms(1,3) by auto
  show ?thesis unfolding step_outside_def [abs_def]
    using refines_stay [OF assms(1), of p] refines_field [OF h(1) assms(2) h(2)] refines_row [OF h(1) assms(2) h(2)] h(3,4)
      refines_empty_row [of p] h(1) assms
    by (auto simp: same_conf_def intro!: csv_steps)
qed

lemma step_bare_refines:
  assumes "csv_at p (Bare u v)" and "csv_room p"
  shows "step_refines cb1 cb2 p (step_field cb1 cb2 c p) (spec_bare p c u v)"
proof -
  have h: "csv_holds p (u @ v)" "csv_spaces p = length v" "\<not> csv_quoted p" "csv_pstate p = FIELD_BEGUN"
    using assms(1) by auto
  note char = refines_char [OF h(1) assms(2) same_conf_refl]
  have "step_refines cb1 cb2 p (\<lambda>s. goes_on (with_spaces 0 (SUBMIT_CHAR c p s))) (Some ([], Bare (u @ v @ [c]) []))"
    using h by (intro char) auto
  moreover have "step_refines cb1 cb2 p (\<lambda>s. goes_on (with_spaces (Suc (csv_spaces p)) (SUBMIT_CHAR c p s))) (Some ([], Bare u (v @ [c])))"
    using h by (intro char) auto
  ultimately show ?thesis unfolding step_field_def [abs_def]
    using refines_field [OF h(1) assms(2) _ _ same_conf_refl] refines_row [OF h(1) assms(2) _ _ same_conf_refl] h(2,3)
    by (auto intro: refines_error)
qed

lemma step_quoted_refines:
  assumes "csv_at p (Quoted t)" and "csv_room p"
  shows "step_refines cb1 cb2 p (step_field cb1 cb2 c p) (spec_step p c (Quoted t))"
proof -
  have h: "csv_holds p t" "csv_spaces p = 0" "csv_quoted p" "csv_pstate p = FIELD_BEGUN" using assms(1) by auto
  have "step_refines cb1 cb2 p (\<lambda>s. goes_on (with_spaces 0 (SUBMIT_CHAR c p s))) (Some ([], Quoted (t @ [c])))"
    using h by (intro refines_char [OF h(1) assms(2) same_conf_refl]) auto
  moreover have "step_refines cb1 cb2 p (\<lambda>s. goes_on (SUBMIT_CHAR c p s)) (Some ([], Quoted (t @ [c])))"
    using h by (intro refines_char_id [OF h(1) assms(2) same_conf_refl]) auto
  moreover have "step_refines cb1 cb2 p
      (\<lambda>s. goes_on (csv_bind (SUBMIT_CHAR c p s) (\<lambda>(p', s'). Inr (p'\<lparr>csv_pstate := FIELD_MIGHT_HAVE_ENDED\<rparr>, s'))))
      (Some ([], Ended t []))" if "c = csv_quote_char p"
    using h that by (intro refines_char_gen [OF h(1) assms(2) same_conf_refl]) (auto simp: same_conf_def)
  ultimately show ?thesis unfolding step_field_def [abs_def] using h(3) by auto
qed

lemma step_ended_refines:
  assumes "csv_at p (Ended t v)" and "csv_room p"
  shows "step_refines cb1 cb2 p (step_ended cb1 cb2 c p) (spec_ended p c t v)"
proof -
  let ?q = "csv_quote_char p"
  have h: "csv_holds p (t @ ?q # v)" "csv_spaces p = length v" "csv_quoted p" "csv_pstate p = FIELD_MIGHT_HAVE_ENDED"
    using assms(1) by auto
  note d = drop_quote_holds [OF h(1,2) assms(2)]
  have sp: "csv_spaces (drop_quote p) = length v" using h(2) by (simp add: drop_quote_def)
  note char = refines_char [OF h(1) assms(2) same_conf_refl]
  have stay: "step_refines cb1 cb2 p (\<lambda>s. Inr (True, p\<lparr>csv_pstate := FIELD_BEGUN\<rparr>, s)) (Some ([], Quoted (t @ [?q])))" if "v = []"
    using h that by (intro refines_stay) (auto simp: same_conf_def)
  have more: "step_refines cb1 cb2 p (\<lambda>s. goes_on (with_spaces (Suc (csv_spaces p)) (SUBMIT_CHAR c p s))) (Some ([], Ended t (v @ [c])))"
    using h by (intro char) auto
  have quote: "step_refines cb1 cb2 p (\<lambda>s. goes_on (with_spaces 0 (SUBMIT_CHAR c p s))) (Some ([], Ended (t @ ?q # v) []))"
    if "c = ?q" using h that by (intro char) auto
  have h': "csv_holds (p\<lparr>csv_pstate := FIELD_BEGUN\<rparr>) (t @ ?q # v)" using h(1) by simp
  have "step_refines cb1 cb2 p (\<lambda>s. goes_on (with_spaces 0 (SUBMIT_CHAR c (p\<lparr>csv_pstate := FIELD_BEGUN\<rparr>) s)))
      (Some ([], Quoted (t @ ?q # v @ [c])))"
    using h assms(2) by (intro refines_char [OF h']) (auto simp: same_conf_def)
  note cases = this stay more quote
  have h0: "csv_holds (drop_quote p) (t @ [])" using d(1) by simp
  have q: "csv_quoted (drop_quote p)" using d(4) h(3) by simp
  show ?thesis unfolding step_ended_def [abs_def]
    using cases refines_field [OF h0 d(2) _ _ d(3)] refines_row [OF h0 d(2) _ _ d(3)] q h(2)
    by (auto intro: refines_error)
qed

lemma csv_step_refines:
  assumes "csv_at p st" and "csv_room p"
  shows "step_refines cb1 cb2 p (csv_step cb1 cb2 c p) (spec_step p c st)"
proof (cases st)
  case (Quoted t)
  then have at: "csv_at p (Quoted t)" using assms(1) by simp
  then have "csv_step cb1 cb2 c p = step_field cb1 cb2 c p" by (simp add: csv_step_def fun_eq_iff)
  with step_quoted_refines [OF at assms(2), of cb1 cb2 c] Quoted show ?thesis by (simp only:)
qed (use assms in \<open>auto simp: csv_step_def [abs_def] simp del: spec_outside.simps spec_bare.simps spec_ended.simps
    intro: step_outside_refines step_bare_refines step_ended_refines\<close>)

section \<open>Growing the buffer\<close>

lemma csv_grow_Some: "csv_grow realloc sz n = Some k \<Longrightarrow> 0 < n \<Longrightarrow> 0 < k \<and> k \<le> n"
proof (induction realloc sz n rule: csv_grow.induct)
  case (1 realloc sz n)
  note g = 1(2) [unfolded csv_grow.simps [of realloc sz n]]
  show ?case
  proof (cases "realloc (sz + n) \<or> n div 2 = 0")
    case True
    with g 1(3) show ?thesis by (auto split: if_splits)
  next
    case False
    then have "csv_grow realloc sz (n div 2) = Some k" using g by simp
    with 1(1) False show ?thesis by fastforce
  qed
qed

lemma csv_grow_all: "realloc (sz + n) \<Longrightarrow> csv_grow realloc sz n = Some n"
  by (simp add: csv_grow.simps)

lemma csv_increase_buffer_False:
  assumes "csv_increase_buffer p = (False, p')" shows "\<exists>i. p' = p\<lparr>csv_status := i\<rparr>"
  using assms by (auto simp: csv_increase_buffer_def Let_def split: if_splits option.splits)

lemma csv_increase_buffer_True:
  assumes "csv_increase_buffer p = (True, p')" and "csv_entry_size p \<le> CSV_SIZE_MAX" and "csv_blk_size p \<le> CSV_SIZE_MAX"
  obtains k where "0 < k" "csv_entry_size p + k \<le> CSV_SIZE_MAX"
    "p' = p\<lparr>csv_entry_buf := Some ((case csv_entry_buf p of None \<Rightarrow> [] | Some b \<Rightarrow> b) @ replicate k None),
            csv_entry_size := csv_entry_size p + k\<rparr>"
proof -
  let ?n = "if csv_entry_size p \<ge> CSV_SIZE_MAX - csv_blk_size p then CSV_SIZE_MAX - csv_entry_size p else csv_blk_size p"
  obtain k where k: "csv_grow (csv_realloc_func p) (csv_entry_size p) ?n = Some k" "0 < ?n"
    "p' = p\<lparr>csv_entry_buf := Some ((case csv_entry_buf p of None \<Rightarrow> [] | Some b \<Rightarrow> b) @ replicate k None),
            csv_entry_size := csv_entry_size p + k\<rparr>"
    using assms(1) unfolding csv_increase_buffer_def Let_def by (cases "?n = 0") (auto split: option.splits)
  have n: "csv_entry_size p + ?n \<le> CSV_SIZE_MAX" using assms(2,3) by auto
  have "0 < k \<and> k \<le> ?n" by (rule csv_grow_Some [OF k(1,2)])
  with n have "0 < k" "csv_entry_size p + k \<le> CSV_SIZE_MAX" by linarith+
  then show ?thesis using k(3) by (rule that)
qed

lemma csv_at_status [simp]: "csv_at (p\<lparr>csv_status := i\<rparr>) st = csv_at p st"
  by (cases st) simp_all

text \<open>A parser in use, or a fresh one without a buffer.\<close>

definition csv_fresh :: "csv_parser \<Rightarrow> bool" where
  "csv_fresh p \<longleftrightarrow> csv_pstate p = ROW_NOT_BEGUN \<and> \<not> csv_quoted p \<and> csv_spaces p = 0 \<and> csv_entry_buf p = None
     \<and> csv_entry_pos p = 0 \<and> csv_entry_size p = 0 \<and> csv_blk_size p \<le> CSV_SIZE_MAX"

definition csv_wf :: "csv_parser \<Rightarrow> bool" where
  "csv_wf p \<longleftrightarrow> csv_fresh p \<or> (\<exists>st. csv_at p st)"

lemma csv_init_fresh: "csv_fresh (csv_init realloc options)"
  by (simp add: csv_fresh_def csv_init_def MEM_BLK_SIZE_def CSV_SIZE_MAX_def)

lemma csv_at_holds: "csv_at p st \<Longrightarrow> \<exists>t. csv_holds p t"
  by (cases st) auto

lemma csv_at_buf: assumes "csv_at p st"
  shows "csv_entry_size p \<le> CSV_SIZE_MAX" "csv_blk_size p \<le> CSV_SIZE_MAX" "csv_entry_buf p \<noteq> None" "csv_entry_pos p \<le> entry_limit p"
    "0 < csv_entry_size p"
  using csv_at_holds [OF assms] by (auto simp: csv_holds_def)

lemma grown_holds:
  assumes "csv_holds p t" and "0 < k" and "csv_entry_size p + k \<le> CSV_SIZE_MAX" and "csv_entry_buf p = Some b"
  defines "p' \<equiv> p\<lparr>csv_entry_buf := Some (b @ replicate k None), csv_entry_size := csv_entry_size p + k\<rparr>"
  shows "csv_holds p' t" "entry_limit p < entry_limit p'" "same_conf p p'"
proof -
  have size: "0 < csv_entry_size p" "csv_entry_size p \<le> CSV_SIZE_MAX" "0 < csv_entry_size p'" "csv_entry_size p' \<le> CSV_SIZE_MAX"
    using assms by (auto simp: csv_holds_def)
  show lim: "entry_limit p < entry_limit p'"
    using entry_limit_le [OF size(1,2)] entry_limit_le [OF size(3,4)] assms(2) size(1) by (auto simp: p'_def)
  have "length t \<le> length b" using assms(1,4) entry_limit_le [OF size(1,2)] by (auto simp: csv_holds_def)
  then show "csv_holds p' t" using assms(1,4) lim size(4) by (auto simp: csv_holds_def p'_def)
  show "same_conf p p'" by (simp add: same_conf_def p'_def)
qed

lemma csv_increase_buffer_at:
  assumes "csv_at p st" and "csv_increase_buffer p = (True, p')"
  shows "csv_at p' st" "entry_limit p < entry_limit p'" "same_conf p p'" "csv_entry_pos p' = csv_entry_pos p"
proof -
  obtain b where b: "csv_entry_buf p = Some b" using csv_at_buf(3) [OF assms(1)] by blast
  obtain k where k: "0 < k" "csv_entry_size p + k \<le> CSV_SIZE_MAX"
    "p' = p\<lparr>csv_entry_buf := Some (b @ replicate k None), csv_entry_size := csv_entry_size p + k\<rparr>"
    using csv_increase_buffer_True [OF assms(2) csv_at_buf(1,2) [OF assms(1)]] b by auto
  note g = grown_holds [OF _ k(1,2) b, folded k(3)]
  show "csv_at p' st" using assms(1) g(1) k(3) by (cases st) auto
  show "entry_limit p < entry_limit p'" "same_conf p p'" using csv_at_holds [OF assms(1)] g(2,3) by blast+
  show "csv_entry_pos p' = csv_entry_pos p" by (simp add: k(3))
qed

lemma csv_increase_buffer_fresh:
  assumes "csv_fresh p" and "csv_increase_buffer p = (True, p')"
  shows "csv_at p' InRow" "same_conf p p'"
proof -
  have le: "csv_entry_size p \<le> CSV_SIZE_MAX" "csv_blk_size p \<le> CSV_SIZE_MAX" using assms(1) by (simp_all add: csv_fresh_def)
  obtain k where k: "0 < k" "csv_entry_size p + k \<le> CSV_SIZE_MAX"
    "p' = p\<lparr>csv_entry_buf := Some ((case csv_entry_buf p of None \<Rightarrow> [] | Some b \<Rightarrow> b) @ replicate k None),
            csv_entry_size := csv_entry_size p + k\<rparr>"
    by (rule csv_increase_buffer_True [OF assms(2) le])
  then show "csv_at p' InRow" using assms(1) entry_limit_le [of p'] by (simp add: csv_fresh_def csv_holds_def)
  show "same_conf p p'" by (simp add: k(3) same_conf_def)
qed

section \<open>Reading a string\<close>

text \<open>One round of the loop: the buffer grows when it is full, then a character is read.\<close>

lemma csv_loop_room:
  assumes "csv_at p st" and "(if csv_entry_pos p = entry_limit p then csv_increase_buffer p else (True, p)) = (True, p')"
  shows "csv_at p' st" "csv_room p'" "same_conf p p'"
  using assms csv_increase_buffer_at [OF assms(1)] csv_at_buf(4) [OF assms(1)]
  by (auto simp: csv_room_def split: if_splits)

definition cb_defined :: "('e, 's) csv_cb1 \<Rightarrow> ('e, 's) csv_cb2 \<Rightarrow> bool" where
  "cb_defined cb1 cb2 \<longleftrightarrow> (\<forall>e s. run_event cb1 cb2 e s \<noteq> Inl Csv_undefined)"

lemma run_events_defined: "cb_defined cb1 cb2 \<Longrightarrow> run_events cb1 cb2 es s \<noteq> Inl Csv_undefined"
  by (induction es arbitrary: s) (auto simp: cb_defined_def csv_bind_def split: sum.split)

lemma csv_step_cases:
  assumes "csv_at p st" and "csv_room p"
  obtains "spec_step p c st = None" "\<forall>s. csv_step cb1 cb2 c p s = strict_error p s"
  | evs st' p' where "spec_step p c st = Some (evs, st')" "csv_at p' st'" "same_conf p p'"
      "\<forall>s. csv_step cb1 cb2 c p s = csv_bind (run_events cb1 cb2 evs s) (\<lambda>s'. Inr (True, p', s'))"
  using csv_step_refines [OF assms, of cb1 cb2 c] unfolding step_refines_def
  by (auto split: option.splits)

lemma csv_step_defined:
  assumes "csv_at p st" and "csv_room p" and "cb_defined cb1 cb2"
  shows "csv_step cb1 cb2 c p s \<noteq> Inl Csv_undefined"
    and "csv_step cb1 cb2 c p s = Inr (go, p', s') \<Longrightarrow> \<exists>st'. csv_at p' st'"
proof -
  have "csv_step cb1 cb2 c p s \<noteq> Inl Csv_undefined
    \<and> (\<forall>go p' s'. csv_step cb1 cb2 c p s = Inr (go, p', s') \<longrightarrow> (\<exists>st'. csv_at p' st'))"
  proof (rule csv_step_cases [OF assms(1,2), of c cb1 cb2], goal_cases)
    case 1
    with assms(1) show ?thesis by (auto simp: strict_error_def)
  next
    case (2 evs st' p')
    then show ?thesis using run_events_defined [OF assms(3), of evs s] by (cases "run_events cb1 cb2 evs s") auto
  qed
  then show "csv_step cb1 cb2 c p s \<noteq> Inl Csv_undefined"
    and "csv_step cb1 cb2 c p s = Inr (go, p', s') \<Longrightarrow> \<exists>st'. csv_at p' st'" by blast+
qed

lemma csv_loop_defined:
  assumes "csv_at p st" and "cb_defined cb1 cb2"
  shows "csv_parse_loop cb1 cb2 us n p s \<noteq> Inl Csv_undefined
    \<and> (\<forall>k p' s'. csv_parse_loop cb1 cb2 us n p s = Inr (k, p', s') \<longrightarrow> (\<exists>st'. csv_at p' st') \<and> k \<le> n + length us)"
  using assms(1)
proof (induction us arbitrary: n p s st)
  case (Cons c cs)
  obtain ok p1 where p1: "(if csv_entry_pos p = entry_limit p then csv_increase_buffer p else (True, p)) = (ok, p1)" by force
  show ?case
  proof (cases ok)
    case False
    then have "\<exists>i. p1 = p\<lparr>csv_status := i\<rparr>" using p1 csv_increase_buffer_False [of p p1] by (auto split: if_splits)
    then have "csv_at p1 st" using Cons.prems by auto
    then show ?thesis using p1 False by auto
  next
    case True
    have "(if csv_entry_pos p = entry_limit p then csv_increase_buffer p else (True, p)) = (True, p1)" using p1 True by simp
    note r = csv_loop_room [OF Cons.prems this]
    note d = csv_step_defined [OF r(1,2) assms(2), of c s]
    show ?thesis
    proof (cases "csv_step cb1 cb2 c p1 s")
      case (Inl e)
      then show ?thesis using p1 True d(1) by (cases e) auto
    next
      case (Inr x)
      obtain go p2 s2 where x: "x = (go, p2, s2)" by (cases x)
      obtain st2 where "csv_at p2 st2" using d(2) Inr x by blast
      note IH = Cons.IH [OF this, of "n + 1" s2]
      have "csv_parse_loop cb1 cb2 (c # cs) n p s = (if go then csv_parse_loop cb1 cb2 cs (n + 1) p2 s2 else Inr (n, p2, s2))"
        using p1 True Inr x by simp
      with IH \<open>csv_at p2 st2\<close> show ?thesis by (cases go) (auto simp del: csv_parse_loop.simps)
    qed
  qed
qed auto

lemma csv_parse_defined:
  assumes "csv_wf p" and "cb_defined cb1 cb2"
  shows "csv_parse cb1 cb2 us p s \<noteq> Inl Csv_undefined
    \<and> (\<forall>n p' s'. csv_parse cb1 cb2 us p s = Inr (n, p', s') \<longrightarrow> csv_wf p' \<and> n \<le> length us)"
proof (cases "\<exists>st. csv_at p st")
  case True
  then obtain st where st: "csv_at p st" by blast
  have "csv_parse cb1 cb2 us p s = csv_parse_loop cb1 cb2 us 0 p s" using csv_at_buf(3) [OF st] unfolding csv_parse_def by (simp only: simp_thms if_False prod.case bool.case)
  with csv_loop_defined [OF st assms(2), of us 0 s] show ?thesis by (auto simp: csv_wf_def)
next
  case False
  then have f: "csv_fresh p" "csv_entry_buf p = None" using assms(1) by (auto simp: csv_wf_def csv_fresh_def)
  show ?thesis
  proof (cases "us = []")
    case True
    then show ?thesis using assms(1) by (simp add: csv_parse_def)
  next
    case ne: False
    obtain ok p1 where p1: "csv_increase_buffer p = (ok, p1)" by force
    show ?thesis
    proof (cases ok)
      case True
      then have "csv_at p1 InRow" using csv_increase_buffer_fresh(1) [OF f(1)] p1 by simp
      from csv_loop_defined [OF this assms(2), of us 0 s] show ?thesis
        using p1 True f(2) ne by (auto simp: csv_parse_def csv_wf_def simp del: csv_at.simps)
    next
      case False
      then have "\<exists>i. p1 = p\<lparr>csv_status := i\<rparr>" using csv_increase_buffer_False p1 by simp
      then have "csv_fresh p1" using f(1) by (auto simp: csv_fresh_def)
      then show ?thesis using p1 False f(2) ne by (auto simp: csv_parse_def csv_wf_def)
    qed
  qed
qed

text \<open>
  C17. The CSV reader never writes outside its entry buffer and never submits bytes it has not written:
  for every input, every option, delimiter and character class, and an allocator that may fail at
  any time, \<open>csv_parse\<close> is defined as long as the callbacks are, keeps its invariant and reads at most
  the input.
\<close>

theorem csv_parse_safe:
  assumes "csv_wf p" and "cb_defined cb1 cb2"
  shows "csv_parse cb1 cb2 us p s \<noteq> Inl Csv_undefined
    \<and> (\<forall>n p' s'. csv_parse cb1 cb2 us p s = Inr (n, p', s') \<longrightarrow> csv_wf p' \<and> n \<le> length us)"
  using assms by (rule csv_parse_defined)

theorem csv_parse_safe_witness:
  "case csv_parse (Some (\<lambda>t s. Inr (s @ [t]))) (Some (\<lambda>c s. Inr s)) ''a,b'' (csv_init (\<lambda>n. n < 200) CSV_APPEND_NULL) [] of
     Inl e \<Rightarrow> (e :: unit csv_stop) \<noteq> Csv_undefined
   | Inr (n, p, s) \<Rightarrow> csv_wf p \<and> n \<le> 3"
proof -
  let ?cb1 = "Some (\<lambda>t s. Inr (s @ [t]) :: unit csv_stop + string list)" and ?cb2 = "Some (\<lambda>c s. Inr s :: unit csv_stop + string list)"
  have wf: "csv_wf (csv_init (\<lambda>n. n < 200) CSV_APPEND_NULL)" using csv_init_fresh by (simp add: csv_wf_def)
  have "run_event ?cb1 ?cb2 e s \<noteq> Inl Csv_undefined" for e s by (cases e) simp_all
  then have "cb_defined ?cb1 ?cb2" by (simp add: cb_defined_def)
  from csv_parse_safe [OF wf this, of "''a,b''" "[]"] show ?thesis
    by (cases "csv_parse ?cb1 ?cb2 ''a,b'' (csv_init (\<lambda>n. n < 200) CSV_APPEND_NULL) []") auto
qed

text \<open>
  \<open>csv_fini\<close> is not safe under \<open>CSV_APPEND_NULL\<close>: after a character filled the buffer up to its last
  byte, the NUL is written behind it.
\<close>

lemma csv_fini_overflow:
  defines "p \<equiv> csv_set_blk_size (csv_init (\<lambda>_. True) CSV_APPEND_NULL) 2"
  shows "\<exists>p'. csv_parse None None ''a'' p s = Inr (1, p', s) \<and> csv_fini None None p' s = Inl Csv_undefined"
  by (simp add: p_def csv_parse_def csv_set_blk_size_def csv_init_def csv_increase_buffer_def CSV_SIZE_MAX_def csv_grow.simps
      entry_limit_def size_sub_def CSV_APPEND_NULL_def csv_step_def step_outside_def csv_space_p_def csv_term_p_def
      CSV_SPACE_def CSV_TAB_def CSV_CR_def CSV_LF_def CSV_COMMA_def CSV_QUOTE_def goes_on_def SUBMIT_CHAR_def put_byte_def
      csv_bind_def csv_fini_def CSV_STRICT_def SUBMIT_FIELD_def Let_def)

section \<open>Reading in chunks\<close>

lemma csv_bind_Inr_iff: "csv_bind r f = Inr y \<longleftrightarrow> (\<exists>x. r = Inr x \<and> f x = Inr y)"
  by (cases r) simp_all

lemma put_byte_buf: "put_byte i c p = Some p' \<Longrightarrow> csv_entry_buf p' \<noteq> None"
  by (auto simp: put_byte_def split: option.splits if_splits)

lemma SUBMIT_CHAR_buf: "SUBMIT_CHAR c p s = Inr (p', s') \<Longrightarrow> csv_entry_buf p' \<noteq> None"
  by (auto simp: SUBMIT_CHAR_def dest: put_byte_buf split: option.splits)

lemma SUBMIT_FIELD_buf: "SUBMIT_FIELD cb1 p s = Inr (p', s') \<Longrightarrow> csv_entry_buf p \<noteq> None \<Longrightarrow> csv_entry_buf p' \<noteq> None"
  by (auto simp: SUBMIT_FIELD_def Let_def csv_bind_Inr_iff dest: put_byte_buf split: option.splits if_splits)

lemma SUBMIT_ROW_buf: "SUBMIT_ROW cb2 c p s = Inr (p', s') \<Longrightarrow> csv_entry_buf p' = csv_entry_buf p"
  by (auto simp: SUBMIT_ROW_def csv_bind_Inr_iff)

definition keeps_buf :: "'e csv_stop + csv_parser \<times> 's \<Rightarrow> bool" where
  "keeps_buf r \<longleftrightarrow> (\<forall>p s. r = Inr (p, s) \<longrightarrow> csv_entry_buf p \<noteq> None)"

lemma keeps_buf_intros:
  "keeps_buf (SUBMIT_CHAR c p s)"
  "csv_entry_buf p \<noteq> None \<Longrightarrow> keeps_buf (SUBMIT_FIELD cb1 p s)"
  "csv_entry_buf p \<noteq> None \<Longrightarrow> keeps_buf (SUBMIT_ROW cb2 i p s)"
  "csv_entry_buf p \<noteq> None \<Longrightarrow> keeps_buf (end_row cb1 cb2 c p s)"
  "keeps_buf r \<Longrightarrow> keeps_buf (with_spaces n r)"
  "keeps_buf r \<Longrightarrow> keeps_buf (csv_bind r (\<lambda>(p', s'). Inr (p'\<lparr>csv_pstate := a\<rparr>, s')))"
proof -
  assume "csv_entry_buf p \<noteq> None"
  then show "keeps_buf (end_row cb1 cb2 c p s)"
    unfolding keeps_buf_def end_row_def csv_bind_Inr_iff
    by (auto dest!: SUBMIT_ROW_buf dest: SUBMIT_FIELD_buf)
qed (auto simp: keeps_buf_def with_spaces_def csv_bind_Inr_iff dest: SUBMIT_CHAR_buf SUBMIT_FIELD_buf SUBMIT_ROW_buf)

definition step_keeps_buf :: "('e, 's) step_result \<Rightarrow> bool" where
  "step_keeps_buf r \<longleftrightarrow> (\<forall>go p s. r = Inr (go, p, s) \<longrightarrow> csv_entry_buf p \<noteq> None)"

lemma step_keeps_buf_intros:
  "keeps_buf r \<Longrightarrow> step_keeps_buf (goes_on r)"
  "csv_entry_buf p \<noteq> None \<Longrightarrow> step_keeps_buf (Inr (go, p, s))"
  "csv_entry_buf p \<noteq> None \<Longrightarrow> step_keeps_buf (strict_error p s)"
  by (auto simp: step_keeps_buf_def keeps_buf_def goes_on_def csv_bind_Inr_iff strict_error_def)

lemma csv_step_buf:
  assumes "csv_entry_buf p \<noteq> None" and "csv_step cb1 cb2 c p s = Inr (go, p', s')"
  shows "csv_entry_buf p' \<noteq> None"
proof -
  have d: "csv_entry_buf (drop_quote p) \<noteq> None" using assms(1) by (simp add: drop_quote_def)
  note intros = step_keeps_buf_intros keeps_buf_intros
  have "step_keeps_buf (step_outside cb1 cb2 c p s)" using assms(1) unfolding step_outside_def by (simp add: intros)
  moreover have "step_keeps_buf (step_field cb1 cb2 c p s)" using assms(1) unfolding step_field_def by (simp add: intros)
  moreover have "step_keeps_buf (step_ended cb1 cb2 c p s)" using assms(1) d unfolding step_ended_def by (simp add: intros)
  ultimately have "step_keeps_buf (csv_step cb1 cb2 c p s)" unfolding csv_step_def by (simp split: csv_pstate.split)
  with assms(2) show ?thesis unfolding step_keeps_buf_def by blast
qed

lemma csv_increase_buffer_buf:
  "csv_increase_buffer p = (ok, p') \<Longrightarrow> csv_entry_buf p \<noteq> None \<or> ok \<Longrightarrow> csv_entry_buf p' \<noteq> None"
  by (auto simp: csv_increase_buffer_def Let_def split: if_splits option.splits)

lemma csv_loop_buf:
  "csv_parse_loop cb1 cb2 us n p s = Inr (k, p', s') \<Longrightarrow> csv_entry_buf p \<noteq> None \<Longrightarrow> csv_entry_buf p' \<noteq> None"
proof (induction us arbitrary: n p s)
  case (Cons c cs)
  obtain ok p1 where p1: "(if csv_entry_pos p = entry_limit p then csv_increase_buffer p else (True, p)) = (ok, p1)" by force
  have buf: "csv_entry_buf p1 \<noteq> None" using p1 Cons.prems(2) csv_increase_buffer_buf [of p ok p1] by (auto split: if_splits)
  show ?case
  proof (cases ok)
    case True
    with Cons.prems(1) p1 obtain go p2 s2 where step: "csv_step cb1 cb2 c p1 s = Inr (go, p2, s2)"
      and rest: "(if go then csv_parse_loop cb1 cb2 cs (n + 1) p2 s2 else Inr (n, p2, s2)) = Inr (k, p', s')"
      by (auto simp: csv_bind_Inr_iff)
    then show ?thesis using Cons.IH [of "n + 1" p2 s2] csv_step_buf [OF buf step] by (cases go) auto
  qed (use Cons.prems p1 buf in auto)
qed simp

lemma csv_loop_append:
  "csv_parse_loop cb1 cb2 (us @ vs) n p s = csv_bind (csv_parse_loop cb1 cb2 us n p s)
     (\<lambda>(k, p', s'). if k = n + length us then csv_parse_loop cb1 cb2 vs k p' s' else Inr (k, p', s'))"
  by (induction us arbitrary: n p s) (auto simp: csv_bind_assoc csv_bind_def split: sum.split prod.split bool.split)

lemma csv_loop_offset:
  "csv_parse_loop cb1 cb2 us n p s = csv_bind (csv_parse_loop cb1 cb2 us 0 p s) (\<lambda>(k, p', s'). Inr (n + k, p', s'))"
proof (induction us arbitrary: n p s)
  case (Cons c cs)
  obtain ok p1 where p1: "(if csv_entry_pos p = entry_limit p then csv_increase_buffer p else (True, p)) = (ok, p1)" by force
  have loop: "csv_parse_loop cb1 cb2 (c # cs) m p s = (if ok then csv_bind (csv_step cb1 cb2 c p1 s)
      (\<lambda>(go, p2, s2). if go then csv_parse_loop cb1 cb2 cs (m + 1) p2 s2 else Inr (m, p2, s2)) else Inr (m, p1, s))" for m
    unfolding csv_parse_loop.simps p1 by (cases ok) simp_all
  show ?case
  proof (cases "csv_step cb1 cb2 c p1 s")
    case (Inr x)
    obtain go p2 s2 where "x = (go, p2, s2)" by (cases x)
    then show ?thesis unfolding loop using Inr Cons.IH [of "n + 1" p2 s2] Cons.IH [of "0 + 1" p2 s2]
      by (cases "csv_parse_loop cb1 cb2 cs 0 p2 s2") auto
  next
    case (Inl e)
    then show ?thesis unfolding loop by simp
  qed
qed simp

lemma csv_parse_append:
  "csv_parse cb1 cb2 (us @ vs) p s = csv_bind (csv_parse cb1 cb2 us p s)
     (\<lambda>(n, p', s'). if n = length us then csv_bind (csv_parse cb1 cb2 vs p' s') (\<lambda>(m, p2, s2). Inr (n + m, p2, s2))
                    else Inr (n, p', s'))"
proof (cases "us = []")
  case True
  then show ?thesis by (cases "csv_parse cb1 cb2 vs p s") (auto simp: csv_parse_def)
next
  case False
  obtain ok p1 where p1: "(if csv_entry_buf p = None \<and> us \<noteq> [] then csv_increase_buffer p else (True, p)) = (ok, p1)" by force
  then have p1': "(if csv_entry_buf p = None \<and> us @ vs \<noteq> [] then csv_increase_buffer p else (True, p)) = (ok, p1)" using False by simp
  show ?thesis
  proof (cases ok)
    case True
    have buf: "csv_entry_buf p1 \<noteq> None" using p1 True False csv_increase_buffer_buf [of p ok p1] by (auto split: if_splits)
    have vs: "csv_parse cb1 cb2 vs p' s' = csv_parse_loop cb1 cb2 vs 0 p' s'"
      if "csv_parse_loop cb1 cb2 us 0 p1 s = Inr (k, p', s')" for k p' s'
      using csv_loop_buf [OF that buf] unfolding csv_parse_def by (simp only: simp_thms if_False prod.case bool.case)
    have a: "csv_parse cb1 cb2 us p s = csv_parse_loop cb1 cb2 us 0 p1 s"
      and b: "csv_parse cb1 cb2 (us @ vs) p s = csv_parse_loop cb1 cb2 (us @ vs) 0 p1 s"
      unfolding csv_parse_def p1 p1' using True by simp_all
    show ?thesis unfolding a b csv_loop_append [of cb1 cb2 us]
      using vs by (cases "csv_parse_loop cb1 cb2 us 0 p1 s") (auto simp: csv_loop_offset [of cb1 cb2 vs "length us"])
  next
    case no: False
    then show ?thesis unfolding csv_parse_def p1 p1' using False by simp
  qed
qed

text \<open>
  C18. How the input is cut into chunks does not matter: parsing two strings one after the other is parsing
  their concatenation, with the same fields, the same errors and the same number of characters
  read, for any callbacks, options and allocator; \<open>csv2rec\<close> reads its file in blocks of 1024 bytes.
\<close>

theorem csv_parse_chunks:
  "csv_parse cb1 cb2 (us @ vs) p s = csv_bind (csv_parse cb1 cb2 us p s)
     (\<lambda>(n, p', s'). if n = length us then csv_bind (csv_parse cb1 cb2 vs p' s') (\<lambda>(m, p2, s2). Inr (n + m, p2, s2))
                    else Inr (n, p', s'))"
  by (rule csv_parse_append)

section \<open>The reader refines the reference reader\<close>

fun state_length :: "csv_state \<Rightarrow> nat" where
  "state_length (Bare u v) = length u + length v"
| "state_length (Quoted t) = length t"
| "state_length (Ended t v) = length t + 1 + length v"
| "state_length _ = 0"

lemma csv_at_pos: "csv_at p st \<Longrightarrow> csv_entry_pos p = state_length st"
  by (cases st) (auto simp: csv_holds_def)

lemma spec_step_length: "spec_step p c st = Some (evs, st') \<Longrightarrow> state_length st' \<le> state_length st + 1"
  by (cases st) (auto split: if_splits)

text \<open>An allocator that provides every size; the buffer can then hold any string shorter than \<open>SIZE_MAX\<close>.\<close>

definition enough_memory :: "csv_parser \<Rightarrow> bool" where
  "enough_memory p \<longleftrightarrow> 0 < csv_blk_size p \<and> (\<forall>n. csv_realloc_func p n)"

lemma csv_increase_buffer_enough:
  assumes "enough_memory p" and "csv_entry_size p < CSV_SIZE_MAX"
  shows "fst (csv_increase_buffer p)"
proof -
  have "csv_grow (csv_realloc_func p) (csv_entry_size p) n = Some n" for n
    using assms(1) by (intro csv_grow_all) (simp add: enough_memory_def)
  then show ?thesis using assms by (simp add: csv_increase_buffer_def Let_def enough_memory_def)
qed

lemma same_conf_memory: "same_conf p p' \<Longrightarrow> enough_memory p' = enough_memory p"
  by (simp add: same_conf_def enough_memory_def)

lemma csv_loop_enough:
  assumes "csv_at p st" and "enough_memory p" and "state_length st + 2 < 2 ^ 64"
  shows "fst (if csv_entry_pos p = entry_limit p then csv_increase_buffer p else (True, p))"
proof (cases "csv_entry_pos p = entry_limit p")
  case True
  have "csv_entry_size p < CSV_SIZE_MAX"
    using csv_at_pos [OF assms(1)] True assms(3) entry_limit_le [OF csv_at_buf(5) [OF assms(1)] csv_at_buf(1) [OF assms(1)]]
    by (auto simp: CSV_SIZE_MAX_def)
  with assms(2) csv_increase_buffer_enough True show ?thesis by simp
qed simp

definition run_reaches :: "('e, 's) csv_cb1 \<Rightarrow> ('e, 's) csv_cb2 \<Rightarrow> csv_parser \<Rightarrow> ('s \<Rightarrow> 'e csv_stop + nat \<times> csv_parser \<times> 's)
    \<Rightarrow> nat \<times> csv_event list \<times> csv_state option \<Rightarrow> bool" where
  "run_reaches cb1 cb2 p f r \<longleftrightarrow>
     (case r of (n, evs, so) \<Rightarrow> \<exists>p'. same_conf p p'
        \<and> (case so of None \<Rightarrow> csv_error p' = CSV_EPARSE | Some st \<Rightarrow> csv_at p' st)
        \<and> (\<forall>s. f s = csv_bind (run_events cb1 cb2 evs s) (\<lambda>s'. Inr (n, p', s'))))"

lemma csv_loop_refines:
  assumes "csv_at p st" and "enough_memory p" and "state_length st + length us + 2 < 2 ^ 64"
  shows "run_reaches cb1 cb2 p (csv_parse_loop cb1 cb2 us 0 p) (spec_run p us st)"
  using assms
proof (induction us arbitrary: p st)
  case Nil
  then show ?case unfolding run_reaches_def by (auto simp del: csv_at.simps)
next
  case (Cons c cs)
  obtain p1 where p1: "(if csv_entry_pos p = entry_limit p then csv_increase_buffer p else (True, p)) = (True, p1)"
    using csv_loop_enough [OF Cons.prems(1,2)] Cons.prems(3)
    by (cases "if csv_entry_pos p = entry_limit p then csv_increase_buffer p else (True, p)") auto
  note r = csv_loop_room [OF Cons.prems(1) p1]
  have loop: "csv_parse_loop cb1 cb2 (c # cs) 0 p s = csv_bind (csv_step cb1 cb2 c p1 s)
      (\<lambda>(go, p2, s2). if go then csv_parse_loop cb1 cb2 cs (0 + 1) p2 s2 else Inr (0, p2, s2))" for s
    unfolding csv_parse_loop.simps p1 by simp
  show ?case
  proof (rule csv_step_cases [OF r(1,2), of c cb1 cb2], goal_cases)
    case 1
    then have "spec_step p c st = None" using same_conf_spec_step [OF r(3)] by simp
    moreover have "same_conf p (p1\<lparr>csv_status := CSV_EPARSE\<rparr>)" using r(3) by (simp add: same_conf_def)
    ultimately show ?thesis using 1(2) unfolding run_reaches_def loop
      by (auto simp: strict_error_def csv_error_def intro!: exI [of _ "p1\<lparr>csv_status := CSV_EPARSE\<rparr>"])
  next
    case (2 evs st2 p2)
    have conf: "same_conf p p2" using r(3) 2(3) by (rule same_conf_trans)
    have mem: "enough_memory p2" using same_conf_memory [OF conf] Cons.prems(2) by simp
    have "state_length st2 + length cs + 2 < 2 ^ 64" using spec_step_length [OF 2(1)] Cons.prems(3) by simp
    from Cons.IH [OF 2(2) mem this] obtain m evs' so p3 where
      run: "spec_run p2 cs st2 = (m, evs', so)" and conf3: "same_conf p2 p3"
      and so: "case so of None \<Rightarrow> csv_error p3 = CSV_EPARSE | Some st \<Rightarrow> csv_at p3 st"
      and rest: "\<forall>s. csv_parse_loop cb1 cb2 cs 0 p2 s = csv_bind (run_events cb1 cb2 evs' s) (\<lambda>s'. Inr (m, p3, s'))"
      unfolding run_reaches_def by (auto split: prod.splits)
    have spec: "spec_run p (c # cs) st = (m + 1, evs @ evs', so)"
      using 2(1) run same_conf_spec_step [OF r(3)] same_conf_spec_run [OF conf] by simp
    have "csv_parse_loop cb1 cb2 (c # cs) 0 p s = csv_bind (run_events cb1 cb2 (evs @ evs') s) (\<lambda>s'. Inr (m + 1, p3, s'))" for s
      unfolding loop using 2(4) csv_loop_offset [of cb1 cb2 cs "0 + 1" p2] rest
      by (simp add: csv_bind_assoc run_events_append)
    with same_conf_trans [OF conf conf3] so show ?thesis unfolding run_reaches_def spec by auto
  qed
qed

definition csv_reads :: "csv_parser \<Rightarrow> csv_state \<Rightarrow> bool" where
  "csv_reads p st \<longleftrightarrow> csv_at p st \<or> csv_fresh p \<and> st = InRow"

lemma csv_parse_reaches:
  assumes "csv_reads p st" and "enough_memory p" and "state_length st + length us + 2 < 2 ^ 64" and "us \<noteq> []"
  shows "run_reaches cb1 cb2 p (csv_parse cb1 cb2 us p) (spec_run p us st)"
proof (cases "csv_at p st")
  case True
  have "csv_parse cb1 cb2 us p s = csv_parse_loop cb1 cb2 us 0 p s" for s
    using csv_at_buf(3) [OF True] unfolding csv_parse_def by (simp only: simp_thms if_False prod.case bool.case)
  with csv_loop_refines [OF True assms(2,3)] show ?thesis by (simp add: run_reaches_def)
next
  case False
  then have f: "csv_fresh p" "csv_entry_buf p = None" "st = InRow" using assms(1) by (auto simp: csv_reads_def csv_fresh_def)
  have "csv_entry_size p < CSV_SIZE_MAX" using f(1) by (simp add: csv_fresh_def CSV_SIZE_MAX_def)
  from csv_increase_buffer_enough [OF assms(2) this] obtain p1 where p1: "csv_increase_buffer p = (True, p1)"
    by (cases "csv_increase_buffer p") auto
  note a = csv_increase_buffer_fresh [OF f(1) p1]
  have eq: "csv_parse cb1 cb2 us p s = csv_parse_loop cb1 cb2 us 0 p1 s" for s
    unfolding csv_parse_def using p1 f(2) assms(4) by simp
  have "enough_memory p1" using same_conf_memory [OF a(2)] assms(2) by simp
  from csv_loop_refines [OF a(1) this, of us cb1 cb2] assms(3) f(3) have
    "run_reaches cb1 cb2 p1 (csv_parse_loop cb1 cb2 us 0 p1) (spec_run p us InRow)"
    using same_conf_spec_run [OF a(2)] by simp
  with a(2) f(3) same_conf_trans show ?thesis unfolding run_reaches_def eq by (fastforce split: prod.splits)
qed

text \<open>
  C16. \<open>csv_parse\<close> refines the reference reader: from every state, for every input and any callbacks, it hands
  over exactly the fields and rows of the reference reader in order, stops when a callback ends the
  program, reads as many characters, reports \<open>CSV_EPARSE\<close> exactly when the reference reader rejects a
  quote in strict mode, and is otherwise left in the state of the reference reader. The
  allocator is assumed to provide memory and the text of a field to be shorter than \<open>SIZE_MAX\<close>.
\<close>

theorem csv_parse_refines:
  assumes "csv_reads p st" and "enough_memory p" and "state_length st + length us + 2 < 2 ^ 64"
  shows "case spec_run p us st of (n, evs, so) \<Rightarrow>
    \<exists>p'. (\<forall>s. csv_parse cb1 cb2 us p s = csv_bind (run_events cb1 cb2 evs s) (\<lambda>s'. Inr (n, p', s'))) \<and> same_conf p p'
      \<and> (case so of None \<Rightarrow> csv_error p' = CSV_EPARSE | Some st' \<Rightarrow> csv_reads p' st')"
proof (cases "us = []")
  case True
  have "csv_parse cb1 cb2 [] p s = Inr (0, p, s)" for s by (simp add: csv_parse_def)
  with True assms(1) show ?thesis by (auto intro!: exI [of _ p])
next
  case False
  obtain n evs so where r: "spec_run p us st = (n, evs, so)" by (cases "spec_run p us st")
  obtain p' where "same_conf p p'" "case so of None \<Rightarrow> csv_error p' = CSV_EPARSE | Some st' \<Rightarrow> csv_at p' st'"
    "\<forall>s. csv_parse cb1 cb2 us p s = csv_bind (run_events cb1 cb2 evs s) (\<lambda>s'. Inr (n, p', s'))"
    using csv_parse_reaches [OF assms False, of cb1 cb2] r unfolding run_reaches_def by auto
  then show ?thesis unfolding r by (auto simp: csv_reads_def split: option.splits)
qed

theorem csv_parse_refines_witness:
  "case spec_run (csv_init (\<lambda>_. True) 0) ''a,b'' InRow of (n, evs, so) \<Rightarrow>
    \<exists>p'. (\<forall>s. csv_parse (Some (\<lambda>t s. Inr (s @ [t]))) (None :: (unit, string list) csv_cb2) ''a,b'' (csv_init (\<lambda>_. True) 0) s
          = csv_bind (run_events (Some (\<lambda>t s. Inr (s @ [t]))) None evs s) (\<lambda>s'. Inr (n, p', s'))) \<and> same_conf (csv_init (\<lambda>_. True) 0) p'
      \<and> (case so of None \<Rightarrow> csv_error p' = CSV_EPARSE | Some st' \<Rightarrow> csv_reads p' st')"
proof (rule csv_parse_refines)
  show "csv_reads (csv_init (\<lambda>_. True) 0) InRow" using csv_init_fresh by (simp add: csv_reads_def)
  show "enough_memory (csv_init (\<lambda>_. True) 0)" by (simp add: enough_memory_def csv_init_def MEM_BLK_SIZE_def)
qed simp

section \<open>Reading what was written\<close>

text \<open>A character that is neither a separator nor a blank.\<close>

definition quote_ok :: "csv_parser \<Rightarrow> bool" where
  "quote_ok p \<longleftrightarrow> \<not> csv_space_p p (csv_quote_char p) \<and> \<not> csv_term_p p (csv_quote_char p) \<and> csv_quote_char p \<noteq> csv_delim_char p"

lemma spec_run_append:
  "spec_run p us st = (n, evs, Some st') \<Longrightarrow> spec_run p vs st' = (m, evs', so) \<Longrightarrow> spec_run p (us @ vs) st = (n + m, evs @ evs', so)"
proof (induction us arbitrary: st n evs)
  case (Cons c cs)
  then show ?case by (cases "spec_step p c st") (fastforce split: prod.splits)+
qed simp

lemma spec_run_quoted_bytes:
  assumes "quote_ok p"
  shows "spec_run p (quoted_bytes (csv_quote_char p) s) (Quoted t) = (length (quoted_bytes (csv_quote_char p) s), [], Some (Quoted (t @ s)))"
  using assms by (induction s arbitrary: t) (auto simp: quote_ok_def)

lemma csv_fwrite2_eq: "csv_fwrite2 q s fp = fp @ csv_fwrite2 q s []"
  by (simp add: csv_fwrite2_def)

lemma spec_run_quoted:
  assumes "quote_ok p" and "st = InRow \<or> st = InGap"
  shows "spec_run p (csv_fwrite2 (csv_quote_char p) s []) st = (length (csv_fwrite2 (csv_quote_char p) s []), [], Some (Ended s []))"
proof -
  let ?q = "csv_quote_char p"
  have "spec_run p [?q] st = (1, [], Some (Quoted []))" using assms by (auto simp: quote_ok_def)
  from spec_run_append [OF this spec_run_quoted_bytes [OF assms(1)]]
  have 1: "spec_run p ([?q] @ quoted_bytes ?q s) st = (1 + length (quoted_bytes ?q s), [], Some (Quoted s))" by simp
  have "spec_run p [?q] (Quoted s) = (1, [], Some (Ended s []))" by simp
  from spec_run_append [OF 1 this] show ?thesis by (simp add: csv_fwrite2_def)
qed

text \<open>
  A row of a table: a field is written quoted or, when it is missing, not at all; the fields are separated by
  delimiters and the row ends with a newline.
\<close>

definition csv_cell :: "char \<Rightarrow> string option \<Rightarrow> string" where
  "csv_cell q c = (case c of None \<Rightarrow> [] | Some v \<Rightarrow> csv_fwrite2 q v [])"

fun csv_row :: "char \<Rightarrow> char \<Rightarrow> string option list \<Rightarrow> string" where
  "csv_row q d [] = [NL]"
| "csv_row q d [c] = csv_cell q c @ [NL]"
| "csv_row q d (c # cs) = csv_cell q c @ d # csv_row q d cs"

definition row_events :: "string option list \<Rightarrow> csv_event list" where
  "row_events cs = map (\<lambda>c. Field (case c of None \<Rightarrow> [] | Some v \<Rightarrow> v)) cs @ [Row (uchar NL)]"

definition table_ok :: "csv_parser \<Rightarrow> bool" where
  "table_ok p \<longleftrightarrow> quote_ok p \<and> \<not> csv_space_p p (csv_delim_char p) \<and> \<not> csv_term_p p (csv_delim_char p)
     \<and> csv_term_p p NL \<and> \<not> csv_space_p p NL"

lemma spec_run_cell_delim:
  assumes "table_ok p" and "st = InRow \<or> st = InGap"
  shows "spec_run p (csv_cell (csv_quote_char p) c @ [csv_delim_char p]) st =
    (length (csv_cell (csv_quote_char p) c) + 1, [Field (case c of None \<Rightarrow> [] | Some v \<Rightarrow> v)], Some InGap)"
proof (cases c)
  case None
  then show ?thesis using assms by (auto simp: csv_cell_def table_ok_def)
next
  case (Some v)
  have "quote_ok p" using assms(1) by (simp add: table_ok_def)
  note q = spec_run_quoted [OF this assms(2), of v]
  have "spec_run p [csv_delim_char p] (Ended v []) = (1, [Field v], Some InGap)" by simp
  from spec_run_append [OF q this] Some show ?thesis by (simp add: csv_cell_def)
qed

lemma table_ok_NL: "table_ok p \<Longrightarrow> csv_delim_char p \<noteq> NL \<and> csv_quote_char p \<noteq> NL"
  by (auto simp: table_ok_def quote_ok_def)

lemma spec_run_cell_end:
  assumes "table_ok p" and "st = InRow \<and> c \<noteq> None \<or> st = InGap"
  shows "spec_run p (csv_cell (csv_quote_char p) c @ [NL]) st =
    (length (csv_cell (csv_quote_char p) c) + 1, [Field (case c of None \<Rightarrow> [] | Some v \<Rightarrow> v), Row (uchar NL)], Some InRow)"
proof (cases c)
  case None
  then show ?thesis using assms by (auto simp: csv_cell_def table_ok_def)
next
  case (Some v)
  have "quote_ok p" using assms(1) by (simp add: table_ok_def)
  note q = spec_run_quoted [OF this, of st v]
  have "spec_run p [NL] (Ended v []) = (1, [Field v, Row (uchar NL)], Some InRow)"
    using assms(1) table_ok_NL [OF assms(1)] by (auto simp: table_ok_def)
  from spec_run_append [OF q this] Some assms(2) show ?thesis by (auto simp: csv_cell_def)
qed

lemma spec_run_row:
  assumes "table_ok p" and "cs \<noteq> []" and "st = InGap \<or> st = InRow \<and> (length cs = 1 \<longrightarrow> cs \<noteq> [None])"
  shows "spec_run p (csv_row (csv_quote_char p) (csv_delim_char p) cs) st
    = (length (csv_row (csv_quote_char p) (csv_delim_char p) cs), row_events cs, Some InRow)"
  using assms(2,3)
proof (induction "csv_quote_char p" "csv_delim_char p" cs arbitrary: st rule: csv_row.induct)
  case (2 c)
  then show ?case using spec_run_cell_end [OF assms(1), of st c] by (auto simp: row_events_def)
next
  case (3 c d cs)
  have st: "st = InRow \<or> st = InGap" using 3(3) by auto
  note IH = 3(1) [of InGap]
  from spec_run_append [OF spec_run_cell_delim [OF assms(1) st, of c] IH] show ?case
    by (simp add: row_events_def)
qed simp

lemma spec_run_table:
  assumes "table_ok p" and "\<forall>r\<in>set rows. r \<noteq> [] \<and> r \<noteq> [None]"
  shows "spec_run p (concat (map (csv_row (csv_quote_char p) (csv_delim_char p)) rows)) InRow
    = (length (concat (map (csv_row (csv_quote_char p) (csv_delim_char p)) rows)), concat (map row_events rows), Some InRow)"
  using assms(2)
proof (induction rows)
  case (Cons r rows)
  have r: "spec_run p (csv_row (csv_quote_char p) (csv_delim_char p) r) InRow
    = (length (csv_row (csv_quote_char p) (csv_delim_char p) r), row_events r, Some InRow)"
    using Cons.prems by (intro spec_run_row [OF assms(1)]) auto
  from spec_run_append [OF r Cons.IH] Cons.prems show ?case by simp
qed simp

end
