(* ===== verification/Rec_Csv_Tools.thy ===== *)
theory Rec_Csv_Tools
  imports Rec_Csv Rec_Db_Ops Rec_Writer_Rset
begin

text \<open>
  The converters \<open>src/utils/csv2rec.c\<close> and \<open>src/utils/rec2csv.c\<close>, from the text of the input file to the
  text on the standard output. The options a command line sets are arguments here. A call of \<open>exit\<close>
  or \<open>recutl_fatal\<close> is a value that carries what it reports.
\<close>

section \<open>csv2rec\<close>

datatype csv2rec_exit =
    Invalid_field_name string
  | Too_many_fields string nat nat nat
  | Csv_failure string

record csv2rec_opts =
  csv2rec_record_type :: "string option"
  csv2rec_csv_file :: "string option"
  csv2rec_strict :: bool
  csv2rec_omit_empty :: bool

text \<open>
  The context of the callbacks. \<open>ctx_rset\<close> is the position in the database of the record set being filled;
  \<open>ctx_field_names\<close> are the first \<open>num_field_names\<close> entries of the array.
\<close>

record csv2rec_ctx =
  ctx_db :: "rec_db option"
  ctx_rset :: "nat option"
  ctx_record :: "rec_record option"
  ctx_num_fields :: nat
  ctx_lineno :: nat
  ctx_header_p :: bool
  ctx_field_names :: "string list"

definition csv2rec_is_space :: "char \<Rightarrow> bool" where
  "csv2rec_is_space c = (c = CSV_SPACE \<or> c = CSV_TAB)"

definition csv2rec_is_term :: "char \<Rightarrow> bool" where
  "csv2rec_is_term c = (c = CSV_CR \<or> c = CSV_LF)"

definition header_name :: "string \<Rightarrow> string" where
  "header_name str = map (\<lambda>c. if c = CHR '' '' \<or> c = TAB then CHR ''_'' else c) str"

text \<open>
  A field of the header row is a field name, any other field a field of the current record. A field behind
  the last header is not caught by the guard when it is the first such field: its name is then read
  from an entry of the array that was never written.
\<close>

definition field_cb :: "csv2rec_opts \<Rightarrow> string \<Rightarrow> csv2rec_ctx \<Rightarrow> csv2rec_exit csv_stop + csv2rec_ctx" where
  "field_cb opts s ctx =
     (let str = strdup s in
      if ctx_header_p ctx then
        (let name = header_name str in
         if \<not> rec_field_name_p name then Inl (Csv_exit (Invalid_field_name name))
         else Inr (ctx\<lparr>ctx_field_names := ctx_field_names ctx @ [name]\<rparr>))
      else
        (let record = (case ctx_record ctx of None \<Rightarrow> rec_record_new | Some r \<Rightarrow> r);
             ctx1 = ctx\<lparr>ctx_record := Some record\<rparr>;
             n = ctx_num_fields ctx in
         if csv2rec_omit_empty opts \<and> str = [] then Inr (ctx1\<lparr>ctx_num_fields := n + 1\<rparr>)
         else if n > length (ctx_field_names ctx) then
           Inl (Csv_exit (Too_many_fields (case csv2rec_csv_file opts of None \<Rightarrow> ''stdin'' | Some f \<Rightarrow> f)
                  (ctx_lineno ctx) (length (ctx_field_names ctx)) n))
         else if n = length (ctx_field_names ctx) then Inl Csv_undefined
         else Inr (ctx1\<lparr>ctx_record := Some (record_append_field record (rec_field_new (ctx_field_names ctx ! n) str) MSET_ANY),
                        ctx_num_fields := n + 1\<rparr>)))"

text \<open>The record set is created, with its type, at the end of the first row of data.\<close>

definition ensure_rset :: "csv2rec_opts \<Rightarrow> csv2rec_ctx \<Rightarrow> csv2rec_ctx" where
  "ensure_rset opts ctx =
     (case ctx_rset ctx of
        Some i \<Rightarrow> ctx
      | None \<Rightarrow>
          let rset = rec_rset_set_type rec_rset_new (csv2rec_record_type opts);
              db = (case ctx_db ctx of None \<Rightarrow> rec_db_new | Some db \<Rightarrow> db) in
          ctx\<lparr>ctx_rset := Some (rec_db_size db), ctx_db := Some (rec_db_insert_rset db rset (rec_db_size db))\<rparr>)"

definition record_cb :: "csv2rec_opts \<Rightarrow> int \<Rightarrow> csv2rec_ctx \<Rightarrow> csv2rec_exit csv_stop + csv2rec_ctx" where
  "record_cb opts c ctx =
     (let ctx1 = ctx\<lparr>ctx_lineno := ctx_lineno ctx + 1\<rparr> in
      if ctx_header_p ctx1 then Inr (ctx1\<lparr>ctx_header_p := False\<rparr>)
      else
        (let ctx2 = ensure_rset opts ctx1 in
         case (ctx_db ctx2, ctx_rset ctx2, ctx_record ctx2) of
           (Some db, Some i, Some record) \<Rightarrow>
             Inr (ctx2\<lparr>ctx_db := Some (db_put db (Some i) (rset_append_record (db_rset_list db ! i) record MSET_ANY)),
                       ctx_record := None, ctx_num_fields := 0\<rparr>)
         | _ \<Rightarrow> Inl Csv_undefined))"

definition csv2rec_ctx_init :: csv2rec_ctx where
  "csv2rec_ctx_init = \<lparr>ctx_db = None, ctx_rset = None, ctx_record = None, ctx_num_fields = 0, ctx_lineno = 0,
     ctx_header_p = True, ctx_field_names = []\<rparr>"

definition csv2rec_parser :: "(nat \<Rightarrow> bool) \<Rightarrow> csv2rec_opts \<Rightarrow> csv_parser" where
  "csv2rec_parser realloc opts =
     (let p = csv_init realloc 0;
          p1 = (if csv2rec_strict opts then csv_set_opts p (0 OR CSV_STRICT) else p)
      in csv_set_term_func (csv_set_space_func p1 (Some csv2rec_is_space)) (Some csv2rec_is_term))"

text \<open>The file is read in blocks of 1024 bytes.\<close>

function process_blocks ::
  "csv2rec_opts \<Rightarrow> string \<Rightarrow> csv_parser \<Rightarrow> csv2rec_ctx \<Rightarrow> csv2rec_exit csv_stop + csv2rec_ctx" where
  "process_blocks opts input p ctx =
     (if input = [] then Inr ctx
      else
        let buf = take 1024 input in
        csv_bind (csv_parse (Some (field_cb opts)) (Some (record_cb opts)) buf p ctx)
          (\<lambda>(n, p1, ctx1).
             if n \<noteq> length buf then Inl (Csv_exit (Csv_failure (csv_strerror (csv_error p1))))
             else process_blocks opts (drop 1024 input) p1 ctx1))"
  by pat_completeness auto
termination by (relation "measure (\<lambda>(_, input, _, _). length input)") auto

declare process_blocks.simps [simp del]

definition process_csv :: "(nat \<Rightarrow> bool) \<Rightarrow> csv2rec_opts \<Rightarrow> string \<Rightarrow> csv2rec_exit csv_stop + rec_db option" where
  "process_csv realloc opts input =
     csv_bind (process_blocks opts input (csv2rec_parser realloc opts) csv2rec_ctx_init) (\<lambda>ctx. Inr (ctx_db ctx))"

text \<open>The exit status and the text on the standard output.\<close>

definition csv2rec_main :: "(nat \<Rightarrow> bool) \<Rightarrow> csv2rec_opts \<Rightarrow> string \<Rightarrow> csv2rec_exit csv_stop + int \<times> string" where
  "csv2rec_main realloc opts input =
     csv_bind (process_csv realloc opts input)
       (\<lambda>res. case res of
                None \<Rightarrow> Inr (1, [])
              | Some db \<Rightarrow> Inr (0, rec_writer_destroy (snd (rec_write_db db rec_writer_new))))"

section \<open>rec2csv\<close>

text \<open>
  The header of a column: the field name without a colon at its end, and the number of the field when it is
  not the first of its name. The last character of an empty name is undefined.
\<close>

definition column_header :: "rec_fex_elem \<Rightarrow> string option" where
  "column_header e =
     (case fex_elem_field_name e of
        None \<Rightarrow> None
      | Some n \<Rightarrow>
          if n = [] then None
          else let n' = (if last n = CHR '':'' then butlast n else n) in
               Some (if fex_elem_min e \<noteq> 0 then n' @ ''_'' @ show_int (fex_elem_min e + 1) else n'))"

text \<open>One row: the cells are separated by the delimiter, and nothing is written for a missing one.\<close>

fun write_cells :: "char \<Rightarrow> nat \<Rightarrow> string option list \<Rightarrow> string \<Rightarrow> string" where
  "write_cells delim i [] out = out @ [NL]"
| "write_cells delim i (c # cs) out =
     (let out1 = (if i \<noteq> 0 then out @ [delim] else out) in
      write_cells delim (Suc i) cs (case c of None \<Rightarrow> out1 | Some v \<Rightarrow> csv_fwrite v out1))"

definition record_cell :: "rec_record \<Rightarrow> rec_fex_elem \<Rightarrow> string option" where
  "record_cell record e =
     map_option (\<lambda>(_, f). field_value f)
       (rec_record_get_field_by_name record (case fex_elem_field_name e of None \<Rightarrow> [] | Some n \<Rightarrow> n)
          (size_of_int (fex_elem_min e)))"

definition rec2csv_generate_csv :: "char \<Rightarrow> rec_rset \<Rightarrow> rec_fex \<Rightarrow> string \<Rightarrow> string option" where
  "rec2csv_generate_csv delim rset fex out =
     map_option
       (\<lambda>headers.
          foldl (\<lambda>out record. write_cells delim 0 (map (record_cell record) (fex_elems fex)) out)
            (write_cells delim 0 (map Some headers) out) (map snd (rec_rset_records rset)))
       (those (map column_header (fex_elems fex)))"

text \<open>The index of a field is converted from \<open>size_t\<close> to \<open>int\<close>.\<close>

definition int_of_size :: "nat \<Rightarrow> int" where
  "int_of_size n = sint (of_nat n :: 32 word)"

definition add_column :: "rec_record \<Rightarrow> rec_fex \<Rightarrow> nat \<times> rec_field \<Rightarrow> rec_fex" where
  "add_column record cols pf =
     (case pf of (pos, field) \<Rightarrow>
        let k = int_of_size (rec_record_get_field_index_by_name record pos field) in
        if rec_fex_member_p cols (field_name field) k k then cols
        else snd (rec_fex_append cols (field_name field) k k))"

definition rec2csv_determine_fields :: "rec_rset \<Rightarrow> rec_fex option" where
  "rec2csv_determine_fields rset =
     map_option
       (\<lambda>cols. foldl (\<lambda>cols record. foldl (add_column record) cols (rec_record_fields record))
                  cols (map snd (rec_rset_records rset)))
       (rec_fex_new None REC_FEX_SIMPLE)"

definition rec2csv_selected :: "string option \<Rightarrow> rec_db \<Rightarrow> rec_rset \<Rightarrow> bool" where
  "rec2csv_selected record_type db rset =
     (case record_type of
        Some ty \<Rightarrow> rec_rset_type rset = Some ty
      | None \<Rightarrow> rec_rset_type rset = None \<or> rec_db_size db = 1)"

fun rec2csv_rsets :: "sdata sorted_add \<Rightarrow> rec_ext \<Rightarrow> string option \<Rightarrow> rec_fex option \<Rightarrow> char \<Rightarrow> rec_db \<Rightarrow> rec_rset list
    \<Rightarrow> string \<Rightarrow> string option" where
  "rec2csv_rsets sadd ext record_type sort_by delim db [] out = Some out"
| "rec2csv_rsets sadd ext record_type sort_by delim db (rset # rsets) out =
     Option.bind
       (if rec2csv_selected record_type db rset
        then Option.bind (rec_rset_sort sadd ext rset sort_by)
               (\<lambda>rset1. Option.bind (rec2csv_determine_fields rset1)
                  (\<lambda>cols. rec2csv_generate_csv delim rset1 cols out))
        else Some out)
       (rec2csv_rsets sadd ext record_type sort_by delim db rsets)"

text \<open>The text on the standard output; \<open>None\<close> is undefined behaviour.\<close>

definition rec2csv_process_data ::
  "sdata sorted_add \<Rightarrow> rec_ext \<Rightarrow> string option \<Rightarrow> rec_fex option \<Rightarrow> char \<Rightarrow> rec_db \<Rightarrow> string option" where
  "rec2csv_process_data sadd ext record_type sort_by delim db =
     rec2csv_rsets sadd ext record_type sort_by delim db (db_rset_list db) []"

end
