(* ===== verification/Rec_Csv_Tools_Laws.thy ===== *)
theory Rec_Csv_Tools_Laws
  imports Rec_Csv_Laws Rec_Csv_Tools Rec_Db_Join
begin

text \<open>
  \<open>rec2csv\<close> and \<open>csv2rec\<close> composed: the table \<open>rec2csv\<close> writes, and the database \<open>csv2rec\<close> builds from it.
\<close>

section \<open>The columns rec2csv chooses\<close>

definition add_name :: "string list \<Rightarrow> string \<Rightarrow> string list" where
  "add_name ns n = (if n \<in> set ns then ns else ns @ [n])"

text \<open>The names in the order of their first occurrences.\<close>

definition columns :: "string list \<Rightarrow> string list" where
  "columns ns = foldl add_name [] ns"

lemma add_name_length: "length ns \<le> length (foldl add_name ns xs)"
proof (induction xs arbitrary: ns)
  case (Cons x xs)
  then have "length (add_name ns x) \<le> length (foldl add_name (add_name ns x) xs)" .
  moreover have "length ns \<le> length (add_name ns x)" by (simp add: add_name_def)
  ultimately show ?case by simp
qed simp

lemma columns_set: "set (foldl add_name ns xs) = set ns \<union> set xs"
  by (induction xs arbitrary: ns) (auto simp: add_name_def)

lemma columns_distinct: "distinct ns \<Longrightarrow> distinct (foldl add_name ns xs)"
  by (induction xs arbitrary: ns) (auto simp: add_name_def)

lemma columns_known: "set xs \<subseteq> set ns \<Longrightarrow> foldl add_name ns xs = ns"
  by (induction xs) (auto simp: add_name_def)

lemma columns_new: "distinct (ns @ xs) \<Longrightarrow> foldl add_name ns xs = ns @ xs"
  by (induction xs arbitrary: ns) (auto simp: add_name_def)

definition col :: "string \<Rightarrow> rec_fex_elem" where
  "col n = \<lparr>fex_elem_str = Some n, fex_elem_field_name = Some n, fex_elem_rewrite_to = None,
     fex_elem_max = 0, fex_elem_min = 0, fex_elem_function_name = None\<rparr>"

definition cols :: "string list \<Rightarrow> rec_fex" where
  "cols ns = \<lparr>fex_str = None, fex_elems = map col ns\<rparr>"

text \<open>A record that fits into a table: a field for each of its names, and at least one.\<close>

definition tabular :: "rec_record \<Rightarrow> bool" where
  "tabular r \<longleftrightarrow> rec_record_wf r \<and> fkeys r \<noteq> [] \<and> distinct (map fst (fkeys r)) \<and> list_all valid_fname (map fst (fkeys r))"

lemma index_loop_zero:
  "distinct (map (field_name \<circ> snd) fs) \<Longrightarrow> (pos, f) \<in> set fs \<Longrightarrow> field_index_by_name_loop pos f 0 fs = 0"
proof (induction fs)
  case (Cons x fs)
  obtain i g where x: "x = (i, g)" by (cases x)
  show ?case
  proof (cases "i = pos")
    case False
    then have m: "(pos, f) \<in> set fs" using Cons.prems(2) x by auto
    then have "field_name g \<noteq> field_name f" using Cons.prems(1) x by force
    then show ?thesis using Cons.IH [OF _ m] Cons.prems(1) x False by (simp add: rec_field_equal_p_def)
  qed (simp add: x)
qed simp

lemma fkeys_names: "map fst (fkeys r) = map (field_name \<circ> snd) (rec_record_fields r)"
  by (simp add: fkeys_def comp_def)

lemma add_columns:
  assumes "\<And>pos f. (pos, f) \<in> set fs \<Longrightarrow> rec_record_get_field_index_by_name r pos f = 0"
    and "list_all cstring (map (field_name \<circ> snd) fs)"
    and "length (foldl add_name ns (map (field_name \<circ> snd) fs)) \<le> REC_FEX_MAX_ELEMS"
  shows "foldl (add_column r) (cols ns) fs = cols (foldl add_name ns (map (field_name \<circ> snd) fs))"
  using assms
proof (induction fs arbitrary: ns)
  case (Cons x fs)
  obtain pos f where x: "x = (pos, f)" by (cases x)
  let ?n = "field_name f"
  have k: "rec_record_get_field_index_by_name r pos f = 0" using Cons.prems(1) x by simp
  have mem: "rec_fex_member_p (cols ns) ?n 0 0 \<longleftrightarrow> ?n \<in> set ns"
    by (auto simp: rec_fex_member_p_def cols_def col_def list_ex_iff rec_field_name_equal_p_def)
  have len: "length (add_name ns ?n) \<le> REC_FEX_MAX_ELEMS"
    using Cons.prems(3) add_name_length [of "add_name ns ?n" "map (field_name \<circ> snd) fs"] x by (simp add: comp_def)
  have "add_column r (cols ns) x = cols (add_name ns ?n)"
  proof (cases "?n \<in> set ns")
    case False
    then have "length ns < REC_FEX_MAX_ELEMS" using len by (simp add: add_name_def)
    moreover have "strdup ?n = ?n" using Cons.prems(2) x by simp
    ultimately show ?thesis using False mem k x
      by (simp add: add_column_def int_of_size_def Let_def rec_fex_append_def cols_def col_def add_name_def)
  qed (use mem k x in \<open>simp add: add_column_def int_of_size_def Let_def add_name_def\<close>)
  then show ?case using Cons.IH [of "add_name ns ?n"] Cons.prems x by simp
qed simp

lemma valid_names_cstring: "list_all valid_fname ns \<Longrightarrow> list_all cstring ns"
  using valid_fname_plain plain_cstring by (auto simp: list_all_iff)

lemma add_record_columns:
  assumes "tabular r" and "length (foldl add_name ns (map fst (fkeys r))) \<le> REC_FEX_MAX_ELEMS"
  shows "foldl (add_column r) (cols ns) (rec_record_fields r) = cols (foldl add_name ns (map fst (fkeys r)))"
  unfolding fkeys_names
proof (rule add_columns)
  show "rec_record_get_field_index_by_name r pos f = 0" if "(pos, f) \<in> set (rec_record_fields r)" for pos f
    using assms(1) that by (simp add: tabular_def fkeys_names rec_record_get_field_index_by_name_def index_loop_zero)
  show "list_all cstring (map (field_name \<circ> snd) (rec_record_fields r))"
    using assms(1) valid_names_cstring unfolding tabular_def fkeys_names by blast
qed (use assms(2) fkeys_names in simp)

definition table_names :: "rec_record list \<Rightarrow> string list" where
  "table_names rs = columns (concat (map (map fst \<circ> fkeys) rs))"

lemma determine_fold:
  assumes "list_all tabular rs" and "length (foldl add_name ns (concat (map (map fst \<circ> fkeys) rs))) \<le> REC_FEX_MAX_ELEMS"
  shows "foldl (\<lambda>cols record. foldl (add_column record) cols (rec_record_fields record)) (cols ns) rs
    = cols (foldl add_name ns (concat (map (map fst \<circ> fkeys) rs)))"
  using assms
proof (induction rs arbitrary: ns)
  case (Cons r rs)
  let ?ns = "foldl add_name ns (map fst (fkeys r))"
  have "length ?ns \<le> REC_FEX_MAX_ELEMS"
    using Cons.prems(2) add_name_length [of ?ns "concat (map (map fst \<circ> fkeys) rs)"]
    by (simp add: comp_def)
  with add_record_columns [of r ns] Cons.IH [of ?ns] Cons.prems show ?case by simp
qed simp

lemma determine_fields_eq:
  assumes "list_all tabular (map snd (rec_rset_records rset))"
    and "length (table_names (map snd (rec_rset_records rset))) \<le> REC_FEX_MAX_ELEMS"
  shows "rec2csv_determine_fields rset = Some (cols (table_names (map snd (rec_rset_records rset))))"
proof -
  have "rec_fex_new None REC_FEX_SIMPLE = Some (cols [])" by (simp add: rec_fex_new_def cols_def)
  then show ?thesis using determine_fold [OF assms(1), of "[]"] assms(2)
    by (simp add: rec2csv_determine_fields_def table_names_def columns_def)
qed

section \<open>The text rec2csv writes\<close>

lemma csv_cell_write: "csv_fwrite v out = out @ csv_cell CSV_QUOTE (Some v)"
  by (simp add: csv_fwrite_def csv_cell_def csv_fwrite2_def)

lemma csv_row_Cons: "csv_row q d (c # cs) = csv_cell q c @ (if cs = [] then [NL] else d # csv_row q d cs)"
  by (cases cs) simp_all

lemma write_cells_from: "write_cells d (Suc i) cs out = out @ (if cs = [] then [] else [d]) @ csv_row CSV_QUOTE d cs"
proof (induction cs arbitrary: i out)
  case (Cons c cs)
  show ?case by (cases c) (simp_all add: Cons.IH csv_row_Cons csv_cell_write, simp_all add: csv_cell_def)
qed simp

lemma write_cells_eq: "write_cells d 0 cs out = out @ csv_row CSV_QUOTE d cs"
  by (cases cs rule: list.exhaust) (auto simp: write_cells_from csv_row_Cons csv_cell_write csv_cell_def split: option.split)

lemma valid_fname_colon: "valid_fname n \<Longrightarrow> n \<noteq> [] \<and> last n \<noteq> CHR '':''"
proof -
  assume "valid_fname n"
  moreover from this have "n \<noteq> []" by (cases n) simp_all
  ultimately show ?thesis using valid_fname_chars [of n "last n"] by auto
qed

lemma column_headers: "list_all valid_fname ns \<Longrightarrow> those (map column_header (map col ns)) = Some ns"
  using valid_fname_colon by (induction ns) (auto simp: column_header_def col_def)

lemma record_cell_col: "record_cell r (col n) = map_of (fkeys r) n"
proof -
  have "map_option (\<lambda>(_, f). field_value f) (field_by_name_loop n 0 0 fs) = map_of (map (\<lambda>f. (field_name f, field_value f)) (map snd fs)) n" for fs
    by (induction fs) (auto simp: rec_field_name_equal_p_def)
  then show ?thesis
    by (simp add: record_cell_def col_def rec_record_get_field_by_name_def fkeys_def size_of_int_def)
qed

definition table_rows :: "string list \<Rightarrow> rec_record list \<Rightarrow> string option list list" where
  "table_rows ns rs = map (\<lambda>r. map (map_of (fkeys r)) ns) rs"

lemma generate_csv_eq:
  assumes "list_all valid_fname ns"
  shows "rec2csv_generate_csv d rset (cols ns) out = Some (out @ concat (map (csv_row CSV_QUOTE d)
    (map Some ns # table_rows ns (map snd (rec_rset_records rset)))))"
proof -
  have cells: "map (record_cell r) (map col ns) = map (map_of (fkeys r)) ns" for r by (simp add: record_cell_col)
  have "foldl (\<lambda>out r. write_cells d 0 (map (record_cell r) (map col ns)) out) out rs
      = out @ concat (map (csv_row CSV_QUOTE d) (table_rows ns rs))" for out rs
    unfolding cells by (induction rs arbitrary: out) (simp_all add: table_rows_def write_cells_eq)
  then show ?thesis
    unfolding rec2csv_generate_csv_def cols_def rec_fex.simps column_headers [OF assms] by (simp add: write_cells_eq)
qed

section \<open>The callbacks of csv2rec\<close>

lemma header_name_valid: "valid_fname n \<Longrightarrow> header_name (strdup n) = n"
proof -
  assume v: "valid_fname n"
  have "\<not> fname_char CHR '' ''" "\<not> fname_char TAB" by (simp_all add: fname_char_def rec_parser_letter_p_def rec_parser_digit_p_def schar_def)
  then have "c \<noteq> CHR '' '' \<and> c \<noteq> TAB" if "c \<in> set n" for c using valid_fname_chars [OF v that] by auto
  then have "header_name n = n" unfolding header_name_def by (intro map_idI) auto
  with v show ?thesis by (simp add: valid_fname_cstring)
qed

lemma run_header:
  assumes "ctx_header_p ctx" and "list_all valid_fname ns"
  shows "run_events (Some (field_cb opts)) cb2 (map Field ns) ctx = Inr (ctx\<lparr>ctx_field_names := ctx_field_names ctx @ ns\<rparr>)"
  using assms
proof (induction ns arbitrary: ctx)
  case (Cons n ns)
  have "field_cb opts n ctx = Inr (ctx\<lparr>ctx_field_names := ctx_field_names ctx @ [n]\<rparr>)"
    using Cons.prems header_name_valid [of n] by (simp add: field_cb_def Let_def rec_field_name_p_iff)
  then show ?case using Cons.IH [of "ctx\<lparr>ctx_field_names := ctx_field_names ctx @ [n]\<rparr>"] Cons.prems by simp
qed simp

definition add_field :: "csv2rec_opts \<Rightarrow> rec_record \<Rightarrow> string \<times> string \<Rightarrow> rec_record" where
  "add_field opts r = (\<lambda>(n, v). if csv2rec_omit_empty opts \<and> v = [] then r
     else record_append_field r (rec_field_new n v) MSET_ANY)"

lemma run_fields:
  assumes "\<not> ctx_header_p ctx" and "list_all cstring vs" and "ctx_num_fields ctx + length vs \<le> length (ctx_field_names ctx)"
    and "ctx_record ctx \<noteq> None \<or> vs \<noteq> []"
  shows "run_events (Some (field_cb opts)) cb2 (map Field vs) ctx =
    Inr (ctx\<lparr>ctx_record := Some (foldl (add_field opts) (case ctx_record ctx of None \<Rightarrow> rec_record_new | Some r \<Rightarrow> r)
               (zip (drop (ctx_num_fields ctx) (ctx_field_names ctx)) vs)),
             ctx_num_fields := ctx_num_fields ctx + length vs\<rparr>)"
  using assms
proof (induction vs arbitrary: ctx)
  case (Cons v vs)
  let ?k = "ctx_num_fields ctx" and ?ns = "ctx_field_names ctx"
  let ?r = "case ctx_record ctx of None \<Rightarrow> rec_record_new | Some r \<Rightarrow> r"
  let ?ctx = "ctx\<lparr>ctx_record := Some (add_field opts ?r (?ns ! ?k, v)), ctx_num_fields := ?k + 1\<rparr>"
  have k: "?k < length ?ns" using Cons.prems(3) by simp
  have "field_cb opts v ctx = Inr ?ctx" using Cons.prems(1,2) k by (simp add: field_cb_def Let_def add_field_def)
  moreover have "drop ?k ?ns = ?ns ! ?k # drop (Suc ?k) ?ns" using k by (simp add: Cons_nth_drop_Suc)
  ultimately show ?case using Cons.IH [of ?ctx] Cons.prems by simp
qed (cases "ctx_record ctx"; auto)+

text \<open>The context after the header and some rows: the database has one record set, with a record for each row.\<close>

definition base_rset :: "csv2rec_opts \<Rightarrow> rec_rset" where
  "base_rset opts = rec_rset_set_type rec_rset_new (csv2rec_record_type opts)"

definition rset_of_rows :: "csv2rec_opts \<Rightarrow> rec_record list \<Rightarrow> rec_rset" where
  "rset_of_rows opts rs = foldl (\<lambda>s r. rset_append_record s r MSET_ANY) (base_rset opts) rs"

definition table_ctx :: "csv2rec_opts \<Rightarrow> string list \<Rightarrow> rec_record list \<Rightarrow> csv2rec_ctx \<Rightarrow> bool" where
  "table_ctx opts ns rs ctx \<longleftrightarrow> \<not> ctx_header_p ctx \<and> ctx_field_names ctx = ns \<and> ctx_record ctx = None \<and> ctx_num_fields ctx = 0
     \<and> (if rs = [] then ctx_db ctx = None \<and> ctx_rset ctx = None
        else ctx_rset ctx = Some 0
          \<and> ctx_db ctx = Some (rec_db_new\<lparr>db_size := 1, db_rset_list := [rset_of_rows opts rs]\<rparr>))"

definition cell_text :: "string option \<Rightarrow> string" where
  "cell_text c = (case c of None \<Rightarrow> [] | Some v \<Rightarrow> v)"

definition row_record :: "csv2rec_opts \<Rightarrow> string list \<Rightarrow> string option list \<Rightarrow> rec_record" where
  "row_record opts ns cs = foldl (add_field opts) rec_record_new (zip ns (map cell_text cs))"

lemma row_events_eq: "row_events cs = map Field (map cell_text cs) @ [Row (uchar NL)]"
  by (simp add: row_events_def cell_text_def)

lemma run_row:
  assumes "table_ctx opts ns rs ctx" and "length cs = length ns" and "ns \<noteq> []" and "list_all cstring (map cell_text cs)"
  shows "\<exists>ctx'. run_events (Some (field_cb opts)) (Some (record_cb opts)) (row_events cs) ctx = Inr ctx'
    \<and> table_ctx opts ns (rs @ [row_record opts ns cs]) ctx'"
proof -
  let ?ctx = "ctx\<lparr>ctx_record := Some (row_record opts ns cs), ctx_num_fields := length cs\<rparr>"
  have "cs \<noteq> []" using assms(2,3) by auto
  then have f: "run_events (Some (field_cb opts)) (Some (record_cb opts)) (map Field (map cell_text cs)) ctx = Inr ?ctx"
    using run_fields [of ctx "map cell_text cs" opts] assms by (simp add: table_ctx_def row_record_def)
  have "\<exists>ctx'. record_cb opts (uchar NL) ?ctx = Inr ctx' \<and> table_ctx opts ns (rs @ [row_record opts ns cs]) ctx'"
  proof (cases "rs = []")
    case True
    then show ?thesis using assms(1)
      by (simp add: table_ctx_def record_cb_def ensure_rset_def Let_def rec_db_size_def rec_db_new_def rec_db_insert_rset_def
          db_put_def rset_of_rows_def base_rset_def)
  next
    case False
    then show ?thesis using assms(1)
      by (simp add: table_ctx_def record_cb_def ensure_rset_def Let_def db_put_def rset_of_rows_def)
  qed
  then show ?thesis unfolding row_events_eq run_events_append f by auto
qed

lemma run_rows:
  assumes "table_ctx opts ns rs ctx" and "ns \<noteq> []" and "\<forall>cs\<in>set rows. length cs = length ns \<and> list_all cstring (map cell_text cs)"
  shows "\<exists>ctx'. run_events (Some (field_cb opts)) (Some (record_cb opts)) (concat (map row_events rows)) ctx = Inr ctx'
    \<and> table_ctx opts ns (rs @ map (row_record opts ns) rows) ctx'"
  using assms(1,3)
proof (induction rows arbitrary: rs ctx)
  case (Cons cs rows)
  obtain ctx1 where 1: "run_events (Some (field_cb opts)) (Some (record_cb opts)) (row_events cs) ctx = Inr ctx1"
    "table_ctx opts ns (rs @ [row_record opts ns cs]) ctx1"
    using run_row [OF Cons.prems(1) _ assms(2), of cs] Cons.prems(2) by auto
  obtain ctx2 where "run_events (Some (field_cb opts)) (Some (record_cb opts)) (concat (map row_events rows)) ctx1 = Inr ctx2"
    "table_ctx opts ns ((rs @ [row_record opts ns cs]) @ map (row_record opts ns) rows) ctx2"
    using Cons.IH [OF 1(2)] Cons.prems(2) by auto
  with 1(1) show ?case by (auto simp: run_events_append)
qed simp

lemma run_table:
  assumes "list_all valid_fname ns" and "ns \<noteq> []" and "\<forall>cs\<in>set rows. length cs = length ns \<and> list_all cstring (map cell_text cs)"
  shows "\<exists>ctx. run_events (Some (field_cb opts)) (Some (record_cb opts)) (concat (map row_events (map Some ns # rows))) csv2rec_ctx_init = Inr ctx
    \<and> table_ctx opts ns (map (row_record opts ns) rows) ctx"
proof -
  let ?ctx = "csv2rec_ctx_init\<lparr>ctx_field_names := ns, ctx_lineno := 1, ctx_header_p := False\<rparr>"
  have "map cell_text (map Some ns) = ns" by (simp add: cell_text_def comp_def)
  then have "run_events (Some (field_cb opts)) (Some (record_cb opts)) (row_events (map Some ns)) csv2rec_ctx_init = Inr ?ctx"
    unfolding row_events_eq using run_header [OF _ assms(1), of csv2rec_ctx_init opts "Some (record_cb opts)"]
    by (simp add: run_events_append csv2rec_ctx_init_def record_cb_def Let_def)
  moreover have "table_ctx opts ns [] ?ctx" by (simp add: table_ctx_def csv2rec_ctx_init_def)
  ultimately show ?thesis using run_rows [OF _ assms(2,3), of opts "[]" ?ctx] by (auto simp: run_events_append)
qed

section \<open>Reading blocks\<close>

lemma csv_loop_le: "csv_parse_loop cb1 cb2 us n p s = Inr (k, p', s') \<Longrightarrow> k \<le> n + length us"
proof (induction us arbitrary: n p s)
  case (Cons c cs)
  obtain ok p1 where p1: "(if csv_entry_pos p = entry_limit p then csv_increase_buffer p else (True, p)) = (ok, p1)" by force
  show ?case
  proof (cases ok)
    case True
    with Cons.prems p1 obtain go p2 s2 where
      "(if go then csv_parse_loop cb1 cb2 cs (n + 1) p2 s2 else Inr (n, p2, s2)) = Inr (k, p', s')"
      by (auto simp: csv_bind_Inr_iff)
    then show ?thesis using Cons.IH [of "n + 1" p2 s2] by (cases go) auto
  qed (use Cons.prems p1 in auto)
qed simp

lemma csv_parse_le:
  assumes "csv_parse cb1 cb2 us p s = Inr (k, p', s')" shows "k \<le> length us"
proof -
  obtain ok p1 where p1: "(if csv_entry_buf p = None \<and> us \<noteq> [] then csv_increase_buffer p else (True, p)) = (ok, p1)" by force
  show ?thesis using assms csv_loop_le [of cb1 cb2 us 0 p1 s k p' s'] unfolding csv_parse_def p1 by (cases ok) auto
qed

lemma process_blocks_eq:
  assumes "csv_parse (Some (field_cb opts)) (Some (record_cb opts)) input p ctx = Inr (length input, p', ctx')"
  shows "process_blocks opts input p ctx = Inr ctx'"
  using assms
proof (induction opts input p ctx rule: process_blocks.induct)
  case (1 opts input p ctx)
  show ?case
  proof (cases "input = []")
    case True
    with 1(2) show ?thesis by (simp add: process_blocks.simps csv_parse_def)
  next
    case False
    let ?parse = "csv_parse (Some (field_cb opts)) (Some (record_cb opts))"
    have "?parse (take 1024 input @ drop 1024 input) p ctx = Inr (length input, p', ctx')" using 1(2) by simp
    then obtain n p1 ctx1 where b: "?parse (take 1024 input) p ctx = Inr (n, p1, ctx1)"
      and r: "(if n = length (take 1024 input) then csv_bind (?parse (drop 1024 input) p1 ctx1) (\<lambda>(m, p2, s2). Inr (n + m, p2, s2))
        else Inr (n, p1, ctx1)) = Inr (length input, p', ctx')"
      unfolding csv_parse_append by (auto simp: csv_bind_Inr_iff)
    have n: "n = length (take 1024 input)" using r csv_parse_le [OF b] by (auto split: if_splits)
    with r have rest: "?parse (drop 1024 input) p1 ctx1 = Inr (length (drop 1024 input), p', ctx')"
      by (auto simp: csv_bind_Inr_iff)
    have "process_blocks opts (drop 1024 input) p1 ctx1 = Inr ctx'" using 1(1) [OF False refl _ rest] n by blast
    then show ?thesis using b n False by (subst process_blocks.simps) simp
  qed
qed

section \<open>The database csv2rec builds\<close>

definition kept_cells :: "csv2rec_opts \<Rightarrow> (string \<times> string) list \<Rightarrow> (string \<times> string) list" where
  "kept_cells opts nvs = filter (\<lambda>(n, v). \<not> (csv2rec_omit_empty opts \<and> v = [])) nvs"

lemma add_fields_keys:
  assumes "rec_record_wf r" and "list_all (\<lambda>(n, v). cstring n \<and> cstring v) nvs"
  shows "rec_record_wf (foldl (add_field opts) r nvs) \<and> fkeys (foldl (add_field opts) r nvs) = fkeys r @ kept_cells opts nvs"
  using assms
proof (induction nvs arbitrary: r)
  case (Cons x nvs)
  obtain n v where x: "x = (n, v)" by (cases x)
  have "rec_field_wf (rec_field_new n v)" by simp
  note a = append_field_ok [OF Cons.prems(1) this]
  have "rec_record_wf (add_field opts r x) \<and> fkeys (add_field opts r x) = fkeys r @ kept_cells opts [x]"
    using a Cons.prems x by (simp add: add_field_def kept_cells_def fkeys_elems rec_field_new_def field_op_defs as_field_def)
  with Cons.IH [of "add_field opts r x"] Cons.prems(2) show ?case by (simp add: kept_cells_def)
qed (simp add: kept_cells_def)

lemma fkeys_new: "fkeys rec_record_new = []"
  by (simp add: fkeys_elems rec_record_new_eq)

lemma row_record_keys:
  assumes "list_all cstring ns" and "list_all cstring (map cell_text cs)"
  shows "rec_record_wf (row_record opts ns cs)" "fkeys (row_record opts ns cs) = kept_cells opts (zip ns (map cell_text cs))"
proof -
  have "list_all (\<lambda>(n, v). cstring n \<and> cstring v) (zip ns (map cell_text cs))"
    using assms by (fastforce simp: list_all_iff dest: set_zip_leftD set_zip_rightD)
  from add_fields_keys [OF rec_record_new_wf this, of opts] show "rec_record_wf (row_record opts ns cs)"
    "fkeys (row_record opts ns cs) = kept_cells opts (zip ns (map cell_text cs))"
    unfolding row_record_def by (simp_all add: fkeys_new)
qed

lemma append_any_records:
  assumes "typed_ok rset_table rset_elem_ok (rset_mset s)" and "rec_record_wf r"
  shows "typed_ok rset_table rset_elem_ok (rset_mset (rset_append_record s r MSET_ANY))"
    and "map snd (rec_rset_records (rset_append_record s r MSET_ANY)) = map snd (rec_rset_records s) @ [r]"
proof -
  have e: "rset_elem_ok \<lparr>elem_type = MSET_RECORD, elem_data = SRecord r\<rparr>" using assms(2) by (simp add: rset_elem_ok_def)
  show "typed_ok rset_table rset_elem_ok (rset_mset (rset_append_record s r MSET_ANY))"
    and "map snd (rec_rset_records (rset_append_record s r MSET_ANY)) = map snd (rec_rset_records s) @ [r]"
    using rsetm.append_ok [OF assms(1) e]
    by (simp_all add: rset_append_record_def rset_records_elems elem_record_def as_record_def)
qed

lemma rset_of_rows_records:
  assumes "list_all rec_record_wf rs"
  shows "map snd (rec_rset_records (rset_of_rows opts rs)) = rs"
proof -
  have "typed_ok rset_table rset_elem_ok (rset_mset s) \<Longrightarrow> list_all rec_record_wf rs \<Longrightarrow>
    map snd (rec_rset_records (foldl (\<lambda>s r. rset_append_record s r MSET_ANY) s rs)) = map snd (rec_rset_records s) @ rs" for s
    by (induction rs arbitrary: s) (simp_all add: append_any_records)
  moreover have "rset_mset (base_rset opts) = rset_mset rec_rset_new"
    by (simp add: base_rset_def rec_rset_set_type_def split: option.split)
  moreover have "typed_ok rset_table rset_elem_ok (rset_mset rec_rset_new)" "map snd (rec_rset_records rec_rset_new) = []"
    using rec_rset_new_wf by (simp_all add: rec_rset_wf_def rset_records_elems rec_rset_new_eq del: rec_rset_new_wf)
  ultimately show ?thesis using assms by (simp add: rset_of_rows_def rec_rset_records_def)
qed

lemma csv2rec_parser_ok:
  "table_ok (csv2rec_parser realloc opts)" "csv_quote_char (csv2rec_parser realloc opts) = CSV_QUOTE"
  "csv_delim_char (csv2rec_parser realloc opts) = CHR '',''" "csv_fresh (csv2rec_parser realloc opts)"
  "(\<forall>n. realloc n) \<Longrightarrow> enough_memory (csv2rec_parser realloc opts)"
  by (simp_all add: csv2rec_parser_def Let_def csv_set_term_func_def csv_set_space_func_def csv_set_opts_def csv_init_def
      table_ok_def quote_ok_def csv_space_p_def csv_term_p_def csv2rec_is_space_def csv2rec_is_term_def
      CSV_SPACE_def CSV_TAB_def CSV_CR_def CSV_LF_def CSV_QUOTE_def CSV_COMMA_def enough_memory_def csv_fresh_def
      MEM_BLK_SIZE_def CSV_SIZE_MAX_def)

lemma process_csv_table:
  assumes "list_all valid_fname ns" and "ns \<noteq> []" and "rows \<noteq> []"
    and "\<forall>cs\<in>set rows. length cs = length ns \<and> cs \<noteq> [None] \<and> list_all cstring (map cell_text cs)"
    and "\<forall>n. realloc n"
    and "out = concat (map (csv_row CSV_QUOTE CHR '','') (map Some ns # rows)) @ line" and "length out + 2 < 2 ^ 64"
    and "spec_run (csv2rec_parser realloc opts) line InRow = (length line, [], Some st)"
  shows "process_csv realloc opts out =
    Inr (Some (rec_db_new\<lparr>db_size := 1, db_rset_list := [rset_of_rows opts (map (row_record opts ns) rows)]\<rparr>))"
proof -
  let ?p = "csv2rec_parser realloc opts" and ?cb1 = "Some (field_cb opts)" and ?cb2 = "Some (record_cb opts)"
  note p = csv2rec_parser_ok [of realloc opts]
  have row: "cs \<noteq> [] \<and> cs \<noteq> [None]" if "cs \<in> set (map Some ns # rows)" for cs
    using that assms(2,4) by (cases ns) auto
  let ?table = "concat (map (csv_row CSV_QUOTE CHR '','') (map Some ns # rows))"
  have table: "spec_run ?p ?table InRow = (length ?table, concat (map row_events (map Some ns # rows)), Some InRow)"
    using spec_run_table [OF p(1), of "map Some ns # rows"] row unfolding p(2,3) by blast
  have spec: "spec_run ?p out InRow = (length out, concat (map row_events (map Some ns # rows)), Some st)"
    using spec_run_append [OF table assms(8)] unfolding assms(6) by simp
  have mem: "enough_memory ?p" using p(5) assms(5) by blast
  have reads: "csv_reads ?p InRow" using p(4) by (simp add: csv_reads_def)
  have "out \<noteq> []" unfolding assms(6) using assms(2) by (cases ns) (simp_all add: csv_row_Cons csv_cell_def csv_fwrite2_def)
  then have reach: "run_reaches ?cb1 ?cb2 ?p (csv_parse ?cb1 ?cb2 out ?p) (length out, concat (map row_events (map Some ns # rows)), Some st)"
    using csv_parse_reaches [OF reads mem, of out ?cb1 ?cb2] assms(7) unfolding spec by simp
  obtain p' where parse: "\<forall>s. csv_parse ?cb1 ?cb2 out ?p s
      = csv_bind (run_events ?cb1 ?cb2 (concat (map row_events (map Some ns # rows))) s) (\<lambda>s'. Inr (length out, p', s'))"
    using reach unfolding run_reaches_def by (auto simp del: csv_at.simps)
  obtain ctx where ctx: "run_events ?cb1 ?cb2 (concat (map row_events (map Some ns # rows))) csv2rec_ctx_init = Inr ctx"
    "table_ctx opts ns (map (row_record opts ns) rows) ctx"
    using run_table [OF assms(1,2), of rows opts] assms(4) by auto
  have "csv_parse ?cb1 ?cb2 out ?p csv2rec_ctx_init = Inr (length out, p', ctx)" using parse ctx(1) by simp
  from process_blocks_eq [OF this] show ?thesis using ctx(2) assms(3) by (simp add: process_csv_def table_ctx_def)
qed

text \<open>A last line without a newline is lost: \<open>csv_fini\<close>, which would submit it, is never called.\<close>

lemma csv2rec_drops_last_line:
  assumes "list_all valid_fname ns" and "ns \<noteq> []" and "rows \<noteq> []"
    and "\<forall>cs\<in>set rows. length cs = length ns \<and> cs \<noteq> [None] \<and> list_all cstring (map cell_text cs)"
    and "\<forall>n. realloc n"
    and "out = concat (map (csv_row CSV_QUOTE CHR '','') (map Some ns # rows))"
    and "length out + length (csv_cell CSV_QUOTE (Some v)) + 2 < 2 ^ 64"
  shows "process_csv realloc opts (out @ csv_cell CSV_QUOTE (Some v)) = process_csv realloc opts out"
proof -
  note p = csv2rec_parser_ok [of realloc opts]
  have "quote_ok (csv2rec_parser realloc opts)" using p(1) by (simp add: table_ok_def)
  from spec_run_quoted [OF this, of InRow v] have line: "spec_run (csv2rec_parser realloc opts) (csv_cell CSV_QUOTE (Some v)) InRow
      = (length (csv_cell CSV_QUOTE (Some v)), [], Some (Ended v []))" unfolding p(2) by (simp add: csv_cell_def)
  have "process_csv realloc opts (out @ csv_cell CSV_QUOTE (Some v)) =
      Inr (Some (rec_db_new\<lparr>db_size := 1, db_rset_list := [rset_of_rows opts (map (row_record opts ns) rows)]\<rparr>))"
    by (rule process_csv_table [OF assms(1-5) _ _ line]) (use assms(6,7) in simp_all)
  moreover have "process_csv realloc opts out =
      Inr (Some (rec_db_new\<lparr>db_size := 1, db_rset_list := [rset_of_rows opts (map (row_record opts ns) rows)]\<rparr>))"
    by (rule process_csv_table [OF assms(1-5), of out "[]" opts InRow]) (use assms(6,7) in simp_all)
  ultimately show ?thesis by simp
qed

section \<open>From records to CSV and back\<close>

text \<open>The fields a record comes back with: a cell for each column, empty when the record lacks it.\<close>

definition table_row :: "csv2rec_opts \<Rightarrow> string list \<Rightarrow> rec_record \<Rightarrow> (string \<times> string) list" where
  "table_row opts ns r = kept_cells opts (map (\<lambda>n. (n, cell_text (map_of (fkeys r) n))) ns)"

lemma fkeys_cstring: "rec_record_wf r \<Longrightarrow> map_of (fkeys r) n = Some v \<Longrightarrow> cstring v"
  using record_fields_wf [of r] by (auto simp: fkeys_def list_all_iff rec_field_wf_def dest!: map_of_SomeD)

lemma table_names_valid: "list_all tabular rs \<Longrightarrow> list_all valid_fname (table_names rs)"
  by (auto simp: table_names_def columns_def columns_set list_all_iff tabular_def)

lemma table_names_mem: "r \<in> set rs \<Longrightarrow> n \<in> set (map fst (fkeys r)) \<Longrightarrow> n \<in> set (table_names rs)"
  by (auto simp: table_names_def columns_def columns_set)

lemma zip_cells: "zip ns (map cell_text (map f ns)) = map (\<lambda>n. (n, cell_text (f n))) ns"
  by (induction ns) simp_all

lemma table_rows_ok:
  assumes "list_all tabular rs" and "cs \<in> set (table_rows (table_names rs) rs)"
  shows "length cs = length (table_names rs) \<and> cs \<noteq> [None] \<and> list_all cstring (map cell_text cs)"
proof -
  let ?ns = "table_names rs"
  obtain r where r: "r \<in> set rs" "cs = map (map_of (fkeys r)) ?ns" using assms(2) by (auto simp: table_rows_def)
  then have t: "tabular r" using assms(1) by (auto simp: list_all_iff)
  obtain n v where nv: "(n, v) \<in> set (fkeys r)" using t by (cases "fkeys r") (auto simp: tabular_def)
  then have "map_of (fkeys r) n \<noteq> None" using weak_map_of_SomeI by fastforce
  moreover have "n \<in> set ?ns" using table_names_mem [OF r(1), of n] nv by force
  ultimately have "\<not> set cs \<subseteq> {None}" using r(2) by auto
  moreover have "cstring (cell_text (map_of (fkeys r) n))" for n
    using t fkeys_cstring [of r n] by (auto simp: tabular_def cell_text_def split: option.split)
  ultimately show ?thesis using r(2) by (auto simp: list_all_iff)
qed

lemma table_names_not_Nil: "list_all tabular rs \<Longrightarrow> rs \<noteq> [] \<Longrightarrow> table_names rs \<noteq> []"
  using table_names_mem [of "hd rs" rs] by (cases rs) (fastforce simp: tabular_def neq_Nil_conv)+

text \<open>The text \<open>rec2csv\<close> writes for a database with a single record set.\<close>

lemma rec2csv_text:
  assumes "db_rset_list db = [rset]" and "rec_db_wf db" and "rset_order_by_fields rset = None"
    and "rs = map snd (rec_rset_records rset)" and "list_all tabular rs" and "length (table_names rs) \<le> REC_FEX_MAX_ELEMS"
  shows "rec2csv_process_data sadd ext None None d db =
    Some (concat (map (csv_row CSV_QUOTE d) (map Some (table_names rs) # table_rows (table_names rs) rs)))"
proof -
  have "rec2csv_determine_fields rset = Some (cols (table_names rs))"
    using determine_fields_eq [of rset] assms(4,5,6) by simp
  moreover have "rec2csv_selected None db rset" using assms(1,2) by (simp add: rec2csv_selected_def rec_db_size_def rec_db_wf_def)
  ultimately show ?thesis
    using generate_csv_eq [OF table_names_valid [OF assms(5)], of d rset "[]"] assms(1,3,4)
    by (simp add: rec2csv_process_data_def rec_rset_sort_def)
qed

text \<open>
  C15. Converting a record set to CSV and the CSV back to records. When the records of the only record set have at
  least one field each and no field twice, \<open>rec2csv\<close> writes a table whose columns are the field names in the
  order of their first occurrences, and \<open>csv2rec\<close>, in blocks of 1024 bytes, builds a database with one record set
  that has a record for each record, in order, with a field for each column (without the empty
  ones under \<open>--omit-empty\<close>). So records that all have the columns as their fields come back with exactly their
  fields. The table must have no more than 256 columns, which is what a field expression holds.
\<close>

theorem rec2csv_csv2rec:
  assumes "db_rset_list db = [rset]" and "rec_db_wf db" and "rset_order_by_fields rset = None"
    and "rs = map snd (rec_rset_records rset)" and "rs \<noteq> []" and "list_all tabular rs"
    and "length (table_names rs) \<le> REC_FEX_MAX_ELEMS" and "\<forall>n. realloc n"
  shows "\<exists>out. rec2csv_process_data sadd ext None None CHR '','' db = Some out
    \<and> (length out + 2 < 2 ^ 64 \<longrightarrow>
       (\<exists>db' rset'. process_csv realloc opts out = Inr (Some db') \<and> rec_db_wf db' \<and> db_rset_list db' = [rset']
          \<and> map (fkeys \<circ> snd) (rec_rset_records rset') = map (table_row opts (table_names rs)) rs
          \<and> (\<not> csv2rec_omit_empty opts \<and> list_all (\<lambda>r. map fst (fkeys r) = table_names rs) rs \<longrightarrow>
             map (fkeys \<circ> snd) (rec_rset_records rset') = map fkeys rs)))"
proof -
  let ?ns = "table_names rs"
  let ?out = "concat (map (csv_row CSV_QUOTE CHR '','') (map Some ?ns # table_rows ?ns rs))"
  let ?recs = "map (row_record opts ?ns) (table_rows ?ns rs)"
  let ?db = "rec_db_new\<lparr>db_size := 1, db_rset_list := [rset_of_rows opts ?recs]\<rparr>"
  note v = table_names_valid [OF assms(6)]
  have out: "rec2csv_process_data sadd ext None None CHR '','' db = Some ?out" by (rule rec2csv_text [OF assms(1-4,6,7)])
  have rows: "table_rows ?ns rs \<noteq> []" using assms(5) by (simp add: table_rows_def)
  have parse: "process_csv realloc opts ?out = Inr (Some ?db)" if "length ?out + 2 < 2 ^ 64"
    using process_csv_table [OF v table_names_not_Nil [OF assms(6,5)] rows _ assms(8), of ?out "[]" opts InRow]
      table_rows_ok [OF assms(6)] that by simp
  have c: "list_all cstring ?ns" by (rule valid_names_cstring [OF v])
  have wf: "list_all rec_record_wf ?recs"
    using row_record_keys(1) [OF c] table_rows_ok [OF assms(6)] by (auto simp: list_all_iff)
  have keys: "fkeys (row_record opts ?ns (map (map_of (fkeys r)) ?ns)) = table_row opts ?ns r" if "r \<in> set rs" for r
  proof -
    have "map (map_of (fkeys r)) ?ns \<in> set (table_rows ?ns rs)" using that by (auto simp: table_rows_def)
    then have "list_all cstring (map cell_text (map (map_of (fkeys r)) ?ns))" using table_rows_ok [OF assms(6)] by blast
    from row_record_keys(2) [OF c this, of opts] show ?thesis unfolding table_row_def zip_cells .
  qed
  have recs: "map (fkeys \<circ> snd) (rec_rset_records (rset_of_rows opts ?recs)) = map (table_row opts ?ns) rs"
    using arg_cong [OF rset_of_rows_records [OF wf, of opts], of "map fkeys"] keys by (simp add: table_rows_def comp_def)
  have same: "table_row opts ?ns r = fkeys r" if "\<not> csv2rec_omit_empty opts" "map fst (fkeys r) = ?ns" "r \<in> set rs" for r
  proof -
    have "distinct (map fst (fkeys r))" using assms(6) that(3) by (auto simp: list_all_iff tabular_def)
    then have "map (\<lambda>n. (n, cell_text (map_of (fkeys r) n))) (map fst (fkeys r)) = fkeys r"
      by (auto intro!: map_idI simp: cell_text_def map_of_is_SomeI)
    then show ?thesis using that by (simp add: table_row_def kept_cells_def)
  qed
  have "rec_db_wf ?db" "db_rset_list ?db = [rset_of_rows opts ?recs]" by (simp_all add: rec_db_wf_def)
  with out parse recs same show ?thesis by (fastforce simp: list_all_iff)
qed

definition sample_opts :: csv2rec_opts where
  "sample_opts = \<lparr>csv2rec_record_type = None, csv2rec_csv_file = None, csv2rec_strict = True, csv2rec_omit_empty = False\<rparr>"

lemma sample_pair_keys: "fkeys (sample_pair v) = [(''A'', ''x''), (''B'', strdup v)]"
proof -
  let ?a = "record_append_field rec_record_new (rec_field_new ''A'' ''x'') MSET_ANY"
  have "sample_pair v = record_append_field ?a (rec_field_new ''B'' v) MSET_ANY"
    by (simp add: sample_pair_def record_append_field_def)
  moreover have f: "rec_field_wf (rec_field_new ''A'' ''x'')" "rec_field_wf (rec_field_new ''B'' v)" by simp_all
  note a = append_field_ok [OF rec_record_new_wf f(1)]
  note b = append_field_ok(2) [OF a(1) f(2)]
  ultimately show ?thesis using a(2) b fkeys_new by (simp add: fkeys_elems rec_field_new_def field_op_defs)
qed

lemma sample_pairs_tabular: "tabular (sample_pair v)"
  using sample_pair_wf [of v] by (simp add: tabular_def sample_pair_keys fname_char_def rec_parser_letter_p_def schar_def)

lemma sample_pairs_names: "table_names [sample_pair ''1'', sample_pair ''2''] = [''A'', ''B'']"
  by (simp add: table_names_def sample_pair_keys columns_def add_name_def)

definition sample_csv :: string where
  "sample_csv = concat (map (csv_row CSV_QUOTE CHR '','') (map Some [''A'', ''B''] # table_rows [''A'', ''B''] [sample_pair ''1'', sample_pair ''2'']))"

lemma sample_csv_length: "length sample_csv = 24"
  by (simp add: sample_csv_def table_rows_def sample_pair_keys csv_cell_def csv_fwrite2_def CSV_QUOTE_def)

theorem rec2csv_csv2rec_witness:
  "\<exists>out db' rset'. rec2csv_process_data (\<lambda>cmp e es. e # es) sample_ext None None CHR '','' sample_pairs_db = Some out
    \<and> process_csv (\<lambda>_. True) sample_opts out = Inr (Some db') \<and> db_rset_list db' = [rset']
    \<and> map (fkeys \<circ> snd) (rec_rset_records rset') = [[(''A'', ''x''), (''B'', ''1'')], [(''A'', ''x''), (''B'', ''2'')]]"
proof -
  let ?rs = "[sample_pair ''1'', sample_pair ''2'']"
  have db: "db_rset_list sample_pairs_db = [sample_set]" "rec_db_wf sample_pairs_db" by code_simp+
  have order: "rset_order_by_fields sample_set = None" and rs: "?rs = map snd (rec_rset_records sample_set)" by (simp_all add: sample_pairs)
  have len: "length (table_names ?rs) \<le> REC_FEX_MAX_ELEMS" unfolding sample_pairs_names by (simp add: REC_FEX_MAX_ELEMS_def)
  have tab: "list_all tabular ?rs" by (simp add: sample_pairs_tabular)
  obtain out where out: "rec2csv_process_data (\<lambda>cmp e es. e # es) sample_ext None None CHR '','' sample_pairs_db = Some out"
    and restored: "length out + 2 < 2 ^ 64 \<longrightarrow>
       (\<exists>db' rset'. process_csv (\<lambda>_. True) sample_opts out = Inr (Some db') \<and> rec_db_wf db' \<and> db_rset_list db' = [rset']
          \<and> map (fkeys \<circ> snd) (rec_rset_records rset') = map (table_row sample_opts (table_names ?rs)) ?rs
          \<and> (\<not> csv2rec_omit_empty sample_opts \<and> list_all (\<lambda>r. map fst (fkeys r) = table_names ?rs) ?rs \<longrightarrow>
             map (fkeys \<circ> snd) (rec_rset_records rset') = map fkeys ?rs))"
    using rec2csv_csv2rec [OF db order rs _ tab len, of "\<lambda>_. True" "\<lambda>cmp e es. e # es" sample_ext sample_opts] by blast
  have "rec2csv_process_data (\<lambda>cmp e es. e # es) sample_ext None None CHR '','' sample_pairs_db = Some sample_csv"
    using rec2csv_text [OF db order rs tab len] by (simp add: sample_csv_def sample_pairs_names)
  then have "out = sample_csv" using out by simp
  then have "length out + 2 < 2 ^ 64" by (simp add: sample_csv_length)
  with restored out show ?thesis by (auto simp: sample_opts_def sample_pairs_names sample_pair_keys)
qed

end
