(* ===== verification/Rec_Fmt.thy ===== *)
theory Rec_Fmt
  imports Rec_Db Rec_Sex_Eval
begin

text \<open>
  Templates (\<open>src/utils/recfmt.c\<close>): the slots \<open>{{EXPR}}\<close> of a template are replaced by the values of selection
  expressions in a record. \<open>Fail\<close> is a call of \<open>recutl_fatal\<close>, which ends the program.
\<close>

definition SLOT_RE :: re where
  "SLOT_RE = Seq (re_string ''{{'') (Seq (Star (Cls True [(CHR ''}'', CHR ''}'')])) (re_string ''}}''))"

definition recfmt_get_subst :: "sex_env \<Rightarrow> rec_record \<Rightarrow> string \<Rightarrow> string outcome" where
  "recfmt_get_subst env record str =
     (case rec_sex_compile (rec_ext.truncate env) (rec_sex_new False) str of
        (False, sex) \<Rightarrow> Fail
      | (True, sex) \<Rightarrow> fst (rec_sex_eval_str env sex record))"

lemma SLOT_RE_length: "re_lang SLOT_RE s \<Longrightarrow> 4 \<le> length s"
  by (auto simp: SLOT_RE_def re_lang_Seq)

lemma re_search_length:
  assumes "re_search r s = Some (i, j)" shows "i \<le> j \<and> j \<le> length s \<and> re_lang r (take (j - i) (drop i s))"
  using re_search_Some [OF assms] re_prefix_Some by blast

text \<open>The loop over the slots; \<open>p\<close> is the rest of the template.\<close>

function template_loop :: "sex_env \<Rightarrow> rec_record \<Rightarrow> string \<Rightarrow> rec_buf \<Rightarrow> rec_buf outcome" where
  "template_loop env record p buf =
     (if p = [] then Ok buf
      else case re_search SLOT_RE p of
             None \<Rightarrow> Ok (snd (rec_buf_puts p buf))
           | Some (rm_so, rm_eo) \<Rightarrow>
               let buf1 = (if rm_so > 0 then snd (rec_buf_puts (take rm_so p) buf) else buf);
                   tmp = take (rm_eo - rm_so - 4) (drop (rm_so + 2) p) in
               (case recfmt_get_subst env record tmp of
                  Ok subst \<Rightarrow> template_loop env record (drop rm_eo p) (snd (rec_buf_puts subst buf1))
                | Fail \<Rightarrow> Fail
                | Undef \<Rightarrow> Undef))"
  by pat_completeness auto
termination
proof (relation "measure (\<lambda>(_, _, p, _). length p)", simp)
  fix env r p buf x rm_so rm_eo buf1 tmp subst
  assume "p \<noteq> []" and "re_search SLOT_RE p = Some x" and "(rm_so, rm_eo) = x"
  then have "re_lang SLOT_RE (take (rm_eo - rm_so) (drop rm_so p))" using re_search_length by blast
  then have "4 \<le> rm_eo - rm_so" using SLOT_RE_length by fastforce
  with \<open>p \<noteq> []\<close> show "((env, r, drop rm_eo p, snd (rec_buf_puts subst buf1)), env, r, p, buf)
      \<in> measure (\<lambda>(_, _, p, _). length p)" by simp
qed

declare template_loop.simps [simp del]

definition recfmt_apply_template :: "sex_env \<Rightarrow> rec_record \<Rightarrow> string \<Rightarrow> string outcome" where
  "recfmt_apply_template env record template =
     (case template_loop env record template rec_buf_new of
        Ok buf \<Rightarrow> Ok (rec_buf_close buf)
      | Fail \<Rightarrow> Fail
      | Undef \<Rightarrow> Undef)"

text \<open>The text on the standard output, for every record of every record set.\<close>

fun apply_records :: "sex_env \<Rightarrow> string \<Rightarrow> rec_record list \<Rightarrow> string \<Rightarrow> string outcome" where
  "apply_records env template [] out = Ok out"
| "apply_records env template (record # rs) out =
     (case recfmt_apply_template env record template of
        Ok result \<Rightarrow> apply_records env template rs (if strdup result \<noteq> [] then out @ strdup result else out)
      | Fail \<Rightarrow> Fail
      | Undef \<Rightarrow> Undef)"

definition recfmt_process_db :: "sex_env \<Rightarrow> rec_db \<Rightarrow> string \<Rightarrow> string outcome" where
  "recfmt_process_db env db template =
     apply_records env template (concat (map (\<lambda>rset. map snd (rec_rset_records rset)) (take (rec_db_size db) (db_rset_list db)))) []"

section \<open>What a template means\<close>

text \<open>A template in parts: text without an opening brace, and slots without a closing one.\<close>

datatype part = Text string | Slot string

fun part_ok :: "part \<Rightarrow> bool" where
  "part_ok (Text t) \<longleftrightarrow> list_all (\<lambda>c. c \<noteq> NUL \<and> c \<noteq> CHR 0xFF \<and> c \<noteq> CHR ''{'') t"
| "part_ok (Slot e) \<longleftrightarrow> list_all (\<lambda>c. c \<noteq> CHR ''}'') e"

fun part_text :: "part \<Rightarrow> string" where
  "part_text (Text t) = t"
| "part_text (Slot e) = ''{{'' @ e @ ''}}''"

definition template_of :: "part list \<Rightarrow> string" where
  "template_of ps = concat (map part_text ps)"

fun part_value :: "sex_env \<Rightarrow> rec_record \<Rightarrow> part \<Rightarrow> string outcome" where
  "part_value env r (Text t) = Ok t"
| "part_value env r (Slot e) = recfmt_get_subst env r e"

text \<open>The values one after the other, up to the first failure.\<close>

fun parts_value :: "sex_env \<Rightarrow> rec_record \<Rightarrow> part list \<Rightarrow> string outcome" where
  "parts_value env r [] = Ok []"
| "parts_value env r (p # ps) =
     (case part_value env r p of
        Ok v \<Rightarrow> (case parts_value env r ps of Ok w \<Rightarrow> Ok (v @ w) | Fail \<Rightarrow> Fail | Undef \<Rightarrow> Undef)
      | Fail \<Rightarrow> Fail
      | Undef \<Rightarrow> Undef)"

text \<open>A slot is found at the first opening brace, and ends at its closing braces.\<close>

lemma SLOT_RE_lang: "re_lang SLOT_RE s \<longleftrightarrow> (\<exists>e. s = ''{{'' @ e @ ''}}'' \<and> list_all (\<lambda>c. c \<noteq> CHR ''}'') e)"
proof -
  have c: "in_class True [(CHR ''}'', CHR ''}'')] c \<longleftrightarrow> c \<noteq> CHR ''}''" for c
    using of_char_eq_iff [of c "CHR ''}''", where ?'a = nat] by (auto simp: in_class_def in_range_def)
  have "re_lang (Star (Cls True [(CHR ''}'', CHR ''}'')])) e \<longleftrightarrow> list_all (\<lambda>c. c \<noteq> CHR ''}'') e" for e
    by (simp add: re_lang_star_cls c list_all_iff)
  then show ?thesis unfolding SLOT_RE_def re_lang_Seq re_lang_string by blast
qed

lemma nth_behind_slot: "(''{{'' @ e @ ''}}'' @ t) ! (length e + 2) = CHR ''}''"
  by (simp add: nth_append)

lemma slot_prefix:
  assumes "list_all (\<lambda>c. c \<noteq> CHR ''}'') e"
  shows "re_prefix SLOT_RE (''{{'' @ e @ ''}}'' @ t) = Some (length e + 4)"
proof -
  let ?s = "''{{'' @ e @ ''}}'' @ t"
  have "take (length e + 4) ?s = ''{{'' @ e @ ''}}''" by (simp add: numeral_eq_Suc)
  then have "re_lang SLOT_RE (take (length e + 4) ?s)" using assms unfolding SLOT_RE_lang by blast
  moreover have "\<not> re_lang SLOT_RE (take m ?s)" if m: "length e + 4 < m" "m \<le> length ?s" for m
  proof
    assume "re_lang SLOT_RE (take m ?s)"
    then obtain e' where e': "take m ?s = ''{{'' @ e' @ ''}}''" "list_all (\<lambda>c. c \<noteq> CHR ''}'') e'"
      unfolding SLOT_RE_lang by blast
    have len: "length e < length e'" using arg_cong [OF e'(1), of length] m by simp
    have "take m ?s ! (length e + 2) = CHR ''}''" using m nth_behind_slot [of e t] by simp
    then have "e' ! length e = CHR ''}''" unfolding e'(1) using len by (simp add: nth_append)
    with e'(2) len show False by (auto simp: list_all_length)
  qed
  ultimately show ?thesis by (simp add: re_prefix_Some del: append.simps)
qed

lemma slot_prefix_None: "c \<noteq> CHR ''{'' \<Longrightarrow> re_prefix SLOT_RE (c # s) = None"
  unfolding re_prefix_None SLOT_RE_lang by (auto simp: take_Cons split: nat.splits)

lemma slot_search:
  assumes "list_all (\<lambda>c. c \<noteq> CHR ''{'') u" and "list_all (\<lambda>c. c \<noteq> CHR ''}'') e"
  shows "re_search SLOT_RE (u @ ''{{'' @ e @ ''}}'' @ t) = Some (length u, length u + length e + 4)"
  using assms(1)
proof (induction u)
  case Nil
  have "re_search SLOT_RE (CHR ''{'' # s) = (case re_prefix SLOT_RE (CHR ''{'' # s) of
      Some n \<Rightarrow> Some (0, n) | None \<Rightarrow> map_option (\<lambda>(i, j). (Suc i, Suc j)) (re_search SLOT_RE s))" for s by simp
  with slot_prefix [OF assms(2), of t] show ?case by simp
next
  case (Cons c u)
  then have "re_prefix SLOT_RE (c # u @ ''{{'' @ e @ ''}}'' @ t) = None" by (intro slot_prefix_None) simp
  with Cons show ?case by (simp del: re_prefix.simps)
qed

lemma slot_search_None:
  assumes "list_all (\<lambda>c. c \<noteq> CHR ''{'') u" shows "re_search SLOT_RE u = None"
proof -
  have "re_prefix SLOT_RE (drop i u) = None" for i
  proof (cases "drop i u")
    case Nil
    then show ?thesis by (simp add: SLOT_RE_def re_char_def)
  next
    case (Cons c s)
    then have "c \<in> set u" by (metis in_set_dropD list.set_intros(1))
    with assms have "c \<noteq> CHR ''{''" by (auto simp: list_all_iff)
    then show ?thesis unfolding Cons by (rule slot_prefix_None)
  qed
  then show ?thesis unfolding re_search_None by simp
qed

end
