(* ===== verification/Rec_Fmt_Laws.thy ===== *)
theory Rec_Fmt_Laws
  imports Rec_Fmt Rec_Sex_Eval_Laws
begin

text \<open>
  What \<open>recfmt\<close> prints: a template means the concatenation of its texts and of the values of its slots.
\<close>

lemma template_loop_end: "template_loop env r [] b = Ok b"
  by (simp add: template_loop.simps)

lemma template_loop_text:
  assumes "list_all (\<lambda>c. c \<noteq> CHR ''{'') u" and "u \<noteq> []"
  shows "template_loop env r u b = Ok (snd (rec_buf_puts u b))"
  using assms(2) slot_search_None [OF assms(1)] by (subst template_loop.simps) simp

lemma template_loop_slot:
  assumes "list_all (\<lambda>c. c \<noteq> CHR ''{'') u" and "list_all (\<lambda>c. c \<noteq> CHR ''}'') e"
  shows "template_loop env r (u @ ''{{'' @ e @ ''}}'' @ t) b =
    (case recfmt_get_subst env r e of
       Ok v \<Rightarrow> template_loop env r t (snd (rec_buf_puts v (if u = [] then b else snd (rec_buf_puts u b))))
     | Fail \<Rightarrow> Fail | Undef \<Rightarrow> Undef)"
proof -
  let ?p = "u @ ''{{'' @ e @ ''}}'' @ t"
  have parts: "take (length u) ?p = u" "take (length e) (drop (length u + 2) ?p) = e"
    "drop (length u + length e + 4) ?p = t"
    by (simp_all add: numeral_eq_Suc)
  have len: "length u + length e + 4 - length u - 4 = length e" by simp
  have ne: "?p \<noteq> []" by simp
  show ?thesis
    unfolding template_loop.simps [of env r ?p b] slot_search [OF assms] option.case prod.case Let_def len parts
    using ne by (auto simp del: append.simps split: outcome.split)
qed

text \<open>A text without NUL and without the byte 0xFF, which the buffer takes for the end of file.\<close>

definition printable :: "string \<Rightarrow> bool" where
  "printable s \<longleftrightarrow> cstring s \<and> CHR 0xFF \<notin> set s"

lemma puts_printable:
  "rec_buf_wf b \<Longrightarrow> printable s \<Longrightarrow> rec_buf_wf (snd (rec_buf_puts s b)) \<and> rec_buf_close (snd (rec_buf_puts s b)) = rec_buf_close b @ s"
  using rec_buf_puts_contents by (simp add: printable_def)

lemma template_loop_parts:
  assumes "list_all part_ok ps" and "\<forall>e v. Slot e \<in> set ps \<and> recfmt_get_subst env r e = Ok v \<longrightarrow> printable v"
    and "part_ok (Text u)" and "rec_buf_wf b"
  shows "case parts_value env r ps of
      Ok w \<Rightarrow> \<exists>b'. template_loop env r (u @ template_of ps) b = Ok b' \<and> rec_buf_close b' = rec_buf_close b @ u @ w
    | Fail \<Rightarrow> template_loop env r (u @ template_of ps) b = Fail
    | Undef \<Rightarrow> template_loop env r (u @ template_of ps) b = Undef"
  using assms
proof (induction ps arbitrary: u b)
  case Nil
  have "printable u" using Nil(3) by (auto simp: printable_def cstring_def list_all_iff)
  then show ?case using Nil(3) template_loop_text [of u env r b] puts_printable [OF Nil(4), of u]
    by (cases "u = []") (simp_all add: template_of_def template_loop_end list_all_iff)
next
  case (Cons p ps)
  have printables: "\<forall>e v. Slot e \<in> set ps \<and> recfmt_get_subst env r e = Ok v \<longrightarrow> printable v" using Cons.prems(2) by auto
  have ok: "list_all part_ok ps" using Cons.prems(1) by simp
  show ?case
  proof (cases p)
    case (Text t)
    have "part_ok (Text (u @ t))" using Cons.prems(1,3) Text by simp
    from Cons.IH [OF ok printables this Cons.prems(4)] Text show ?thesis
      by (auto simp: template_of_def split: outcome.splits)
  next
    case (Slot e)
    let ?b = "if u = [] then b else snd (rec_buf_puts u b)"
    have u: "printable u" "list_all (\<lambda>c. c \<noteq> CHR ''{'') u" and e: "list_all (\<lambda>c. c \<noteq> CHR ''}'') e"
      using Cons.prems(1,3) Slot by (auto simp: printable_def cstring_def list_all_iff)
    have b: "rec_buf_wf ?b" "rec_buf_close ?b = rec_buf_close b @ u"
      using puts_printable [OF Cons.prems(4) u(1)] Cons.prems(4) by auto
    have loop: "template_loop env r (u @ template_of (p # ps)) b = (case recfmt_get_subst env r e of
        Ok v \<Rightarrow> template_loop env r (template_of ps) (snd (rec_buf_puts v ?b)) | Fail \<Rightarrow> Fail | Undef \<Rightarrow> Undef)"
      using template_loop_slot [OF u(2) e, of env r "template_of ps" b] Slot by (simp add: template_of_def)
    show ?thesis
    proof (cases "recfmt_get_subst env r e")
      case (Ok v)
      then have "printable v" using Cons.prems(2) Slot by auto
      note p = puts_printable [OF b(1) this]
      have "part_ok (Text [])" by simp
      from Cons.IH [OF ok printables this, of "snd (rec_buf_puts v ?b)"] p
      have "case parts_value env r ps of
          Ok w \<Rightarrow> \<exists>b'. template_loop env r (template_of ps) (snd (rec_buf_puts v ?b)) = Ok b' \<and> rec_buf_close b' = rec_buf_close ?b @ v @ w
        | Fail \<Rightarrow> template_loop env r (template_of ps) (snd (rec_buf_puts v ?b)) = Fail
        | Undef \<Rightarrow> template_loop env r (template_of ps) (snd (rec_buf_puts v ?b)) = Undef"
        by (auto split: outcome.splits split del: if_split)
      then show ?thesis unfolding loop using Slot Ok b(2) by (auto split: outcome.splits split del: if_split)
    qed (use loop Slot in simp_all)
  qed
qed

text \<open>
  C38. A template means the concatenation of its parts: for a template made of texts without an opening
  brace and of slots \<open>{{EXPR}}\<close> without a closing one, \<open>recfmt_apply_template\<close> gives the texts and the values of
  the expressions in their order, and ends the program at the first expression that does not
  compile or cannot be evaluated. The values must not have the byte 0xFF.
\<close>

theorem recfmt_template:
  assumes "list_all part_ok ps" and "\<forall>e v. Slot e \<in> set ps \<and> recfmt_get_subst env r e = Ok v \<longrightarrow> printable v"
  shows "recfmt_apply_template env r (template_of ps) = parts_value env r ps"
proof -
  have "rec_buf_close rec_buf_new = []" by (simp add: rec_buf_close_def rec_buf_new_def)
  with template_loop_parts [OF assms, of "[]" rec_buf_new] rec_buf_new_wf show ?thesis
    by (auto simp: recfmt_apply_template_def split: outcome.splits)
qed

definition sample_parts :: "part list" where
  "sample_parts = [Text ''<'', Slot ''Email[1]'', Text ''> '', Slot ''1 + 1'']"

lemma sample_parts_template: "template_of sample_parts = ''<{{Email[1]}}> {{1 + 1}}''"
  by code_simp

lemma sample_parts_values: "recfmt_get_subst sample_env sample_mails ''Email[1]'' = Ok ''b''"
  "recfmt_get_subst sample_env sample_mails ''1 + 1'' = Ok ''2''"
  by code_simp+

theorem recfmt_template_witness:
  "recfmt_apply_template sample_env sample_mails ''<{{Email[1]}}> {{1 + 1}}'' = Ok ''<b> 2''"
proof -
  have "list_all part_ok sample_parts" by code_simp
  moreover have "\<forall>e v. Slot e \<in> set sample_parts \<and> recfmt_get_subst sample_env sample_mails e = Ok v \<longrightarrow> printable v"
    using sample_parts_values by (auto simp: sample_parts_def printable_def)
  ultimately have "recfmt_apply_template sample_env sample_mails (template_of sample_parts) = parts_value sample_env sample_mails sample_parts"
    by (rule recfmt_template)
  moreover have "parts_value sample_env sample_mails sample_parts = Ok ''<b> 2''"
    using sample_parts_values by (simp add: sample_parts_def)
  ultimately show ?thesis by (simp add: sample_parts_template)
qed

end
