(* ===== verification/Rec_Utl.thy ===== *)
theory Rec_Utl
  imports Rec_Int Rec_Writer_Rset
begin

text \<open>
  The code the command-line programs share (\<open>src/utils/recutl.c\<close>, \<open>src/utils/recutl.h\<close>): reading and
  writing databases, the list of indexes of \<open>-n\<close>, questions to the user, the integrity check and the
  options that select records. \<open>getopt_long\<close> delivers the options with their arguments. A run ends with a
  value, or it ends the program with a status (\<open>recutl_fatal\<close>, \<open>exit\<close>), or it is undefined. What changes
  files is a \<open>prog\<close>, which leaves a world however it ends. What is written to the standard error is not
  modelled.
\<close>

section \<open>Runs\<close>

datatype 'a run = Returns 'a | Exits int | Undefined

definition EXIT_SUCCESS :: int where "EXIT_SUCCESS = 0"
definition EXIT_FAILURE :: int where "EXIT_FAILURE = 1"

definition run_bind :: "'a run \<Rightarrow> ('a \<Rightarrow> 'b run) \<Rightarrow> 'b run" where
  "run_bind m f = (case m of Returns x \<Rightarrow> f x | Exits n \<Rightarrow> Exits n | Undefined \<Rightarrow> Undefined)"

definition defined :: "'a option \<Rightarrow> 'a run" where
  "defined x = (case x of None \<Rightarrow> Undefined | Some y \<Rightarrow> Returns y)"

definition recutl_fatal :: "'a run" where
  "recutl_fatal = Exits EXIT_FAILURE"

definition recutl_out_of_memory :: "'a run" where
  "recutl_out_of_memory = recutl_fatal"

lemma run_bind_simps [simp]:
  "run_bind (Returns x) f = f x" "run_bind (Exits n) f = Exits n" "run_bind Undefined f = Undefined"
  by (simp_all add: run_bind_def)

lemma run_bind_Returns: "run_bind m f = Returns y \<longleftrightarrow> (\<exists>x. m = Returns x \<and> f x = Returns y)"
  by (cases m) auto

lemma run_bind_cong [fundef_cong]:
  assumes "m = n" and "\<And>x. n = Returns x \<Longrightarrow> f x = g x" shows "run_bind m f = run_bind n g"
  using assms by (cases n) auto

lemma defined_Returns [simp]: "defined x = Returns y \<longleftrightarrow> x = Some y"
  by (auto simp: defined_def split: option.splits)

lemma fatal_not_Returns [simp]: "recutl_fatal \<noteq> Returns x" "recutl_out_of_memory \<noteq> Returns x"
  by (simp_all add: recutl_fatal_def recutl_out_of_memory_def)

section \<open>The world\<close>

text \<open>
  The files by name, the standard input and the text on the standard output. From outside come the
  environments of the library, whether an existing file is writable, whether a temporary file can be
  created and renamed, how much of a text reaches the disk, whether the standard input is a terminal, and
  the answers to successive password prompts.
\<close>

record world =
  world_files :: "string \<Rightarrow> string option"
  world_stdin :: string
  world_stdout :: string

record utl_env =
  utl_db :: db_env
  utl_int :: int_env
  utl_euidaccess :: "string \<Rightarrow> bool"
  utl_mkstemp :: bool
  utl_written :: "string \<Rightarrow> string"
  utl_rename :: "string \<Rightarrow> bool"
  utl_isatty :: bool
  utl_getpass :: "nat \<Rightarrow> string option"

abbreviation (input) utl_ext :: "utl_env \<Rightarrow> rec_ext" where "utl_ext env \<equiv> env_ext (utl_db env)"

definition print :: "string \<Rightarrow> world \<Rightarrow> world" where
  "print s w = w\<lparr>world_stdout := world_stdout w @ s\<rparr>"

text \<open>A computation with effects: how it ends, and the world it leaves, also when it ends the program.\<close>

type_synonym 'a prog = "world \<Rightarrow> 'a run \<times> world"

definition prog_bind :: "'a prog \<Rightarrow> ('a \<Rightarrow> 'b prog) \<Rightarrow> 'b prog" where
  "prog_bind m f w =
     (case m w of
        (Returns x, w') \<Rightarrow> f x w'
      | (Exits n, w') \<Rightarrow> (Exits n, w')
      | (Undefined, w') \<Rightarrow> (Undefined, w'))"

definition prog_run :: "'a run \<Rightarrow> 'a prog" where
  "prog_run m w = (m, w)"

definition prog_reads :: "(world \<Rightarrow> 'a run) \<Rightarrow> 'a prog" where
  "prog_reads f w = (f w, w)"

lemma prog_run_bind:
  "prog_bind (prog_run m) f w = (case m of Returns x \<Rightarrow> f x w | Exits n \<Rightarrow> (Exits n, w) | Undefined \<Rightarrow> (Undefined, w))"
  by (simp add: prog_bind_def prog_run_def split: run.splits)

lemma prog_reads_bind: "prog_bind (prog_reads g) f w = prog_bind (prog_run (g w)) f w"
  by (simp add: prog_bind_def prog_run_def prog_reads_def)

section \<open>Reading databases\<close>

text \<open>
  Appending the elements of a second anonymous record set to the first one. The loop returns from the
  function, so that the rest of the input is not read and an error in it is not reported.
\<close>

fun append_anonymous :: "rec_ext \<Rightarrow> rec_rset \<Rightarrow> sdata mset_elem list \<Rightarrow> rec_rset \<Rightarrow> rec_rset option" where
  "append_anonymous ext rset [] anon = Some anon"
| "append_anonymous ext rset (e # es) anon =
     (case mset_dup_fn (rset_mset rset) ! elem_type e of
        None \<Rightarrow> None
      | Some fn \<Rightarrow>
          Option.bind (call_dup (rset_env ext rset) fn (elem_data e))
            (\<lambda>d. append_anonymous ext rset es (anon\<lparr>rset_mset := snd (rec_mset_append (rset_mset anon) (elem_type e) d MSET_ANY)\<rparr>)))"

text \<open>
  The loop over the record sets of the input. The database is \<open>None\<close> when an earlier file could not be
  parsed; it is read only when there is a record set.
\<close>

function parse_db_loop :: "rec_ext \<Rightarrow> rec_db option \<Rightarrow> rec_parser \<Rightarrow> (bool \<times> rec_db option) run" where
  "parse_db_loop ext odb parser =
     run_bind (defined (rec_parse_rset ext (case odb of None \<Rightarrow> 0 | Some db \<Rightarrow> rec_db_size db) parser)) (\<lambda>(read, parser1).
       case read of
         None \<Rightarrow> Returns (\<not> rec_parser_error_p parser1, odb)
       | Some rset \<Rightarrow>
           (case odb of
              None \<Rightarrow> Undefined
            | Some db \<Rightarrow>
                (case rec_db_get_rset_by_type db (rec_rset_type rset) of
                   Some i \<Rightarrow>
                     if rec_rset_type rset \<noteq> None then recutl_fatal
                     else run_bind (defined (append_anonymous ext rset (mset_elems (rset_mset rset)) (db_rset_list db ! i)))
                            (\<lambda>anon. Returns (True, Some (db_put db (Some i) anon)))
                 | None \<Rightarrow> parse_db_loop ext (Some (rec_db_insert_rset db rset (rec_db_size db))) parser1)))"
  by pat_completeness auto
termination
  by (relation "measure (\<lambda>(ext, odb, p). db_measure p)") (auto dest: rec_parse_rset_progress split: option.splits)

declare parse_db_loop.simps [simp del]

definition recutl_parse_db_from_file :: "rec_ext \<Rightarrow> string \<Rightarrow> string \<Rightarrow> rec_db option \<Rightarrow> (bool \<times> rec_db option) run" where
  "recutl_parse_db_from_file ext contents file_name db =
     parse_db_loop ext db (rec_parser_new contents (Some file_name))"

fun build_files :: "rec_ext \<Rightarrow> world \<Rightarrow> string list \<Rightarrow> rec_db option \<Rightarrow> rec_db option run" where
  "build_files ext w [] db = Returns db"
| "build_files ext w (file_name # fs) db =
     (case world_files w file_name of
        None \<Rightarrow> recutl_fatal
      | Some contents \<Rightarrow>
          run_bind (recutl_parse_db_from_file ext contents file_name db)
            (\<lambda>(ok, db'). build_files ext w fs (if ok then db' else None)))"

definition recutl_build_db :: "rec_ext \<Rightarrow> world \<Rightarrow> string list \<Rightarrow> rec_db option run" where
  "recutl_build_db ext w args =
     (if args \<noteq> [] then build_files ext w args (Some rec_db_new)
      else run_bind (recutl_parse_db_from_file ext (world_stdin w) ''stdin'' (Some rec_db_new))
             (\<lambda>(ok, db). Returns (if ok then db else None)))"

definition recutl_read_db_from_file :: "rec_ext \<Rightarrow> world \<Rightarrow> string option \<Rightarrow> rec_db option run" where
  "recutl_read_db_from_file ext w file_name =
     (case (case file_name of Some f \<Rightarrow> map_option (Pair f) (world_files w f) | None \<Rightarrow> Some (''stdin'', world_stdin w)) of
        None \<Rightarrow> Returns None
      | Some (f, contents) \<Rightarrow>
          run_bind (recutl_parse_db_from_file ext contents f (Some rec_db_new))
            (\<lambda>(ok, db). Returns (if ok then db else None)))"

section \<open>Writing databases\<close>

text \<open>\<open>euidaccess\<close> fails for a file that does not exist.\<close>

definition recutl_file_is_writable :: "utl_env \<Rightarrow> world \<Rightarrow> string option \<Rightarrow> bool" where
  "recutl_file_is_writable env w file_name =
     (case file_name of None \<Rightarrow> True | Some f \<Rightarrow> world_files w f \<noteq> None \<and> utl_euidaccess env f)"

definition db_output :: "rec_db \<Rightarrow> string" where
  "db_output db = rec_writer_destroy (snd (rec_write_db db rec_writer_new))"

text \<open>
  The text goes to a temporary file, with a name of its own, that replaces the file; when this fails the
  temporary file is removed. Nothing looks at the results of \<open>rec_write_db\<close> and \<open>fclose\<close>: what has reached the
  temporary file replaces the file, also when it is not the whole text.
\<close>

definition recutl_write_db_to_file :: "utl_env \<Rightarrow> rec_db \<Rightarrow> string option \<Rightarrow> unit prog" where
  "recutl_write_db_to_file env db file_name w =
     (case file_name of
        None \<Rightarrow> (Returns (), print (db_output db) w)
      | Some f \<Rightarrow>
          if \<not> utl_mkstemp env then (recutl_fatal, w)
          else let tmp = utl_written env (db_output db) in
               if utl_rename env f then (Returns (), w\<lparr>world_files := (world_files w)(f \<mapsto> tmp)\<rparr>)
               else (recutl_fatal, w))"

definition recutl_check_integrity :: "utl_env \<Rightarrow> rec_db \<Rightarrow> bool \<Rightarrow> rec_db run" where
  "recutl_check_integrity env db external_p =
     run_bind (defined (rec_int_check_db (utl_int env) db True external_p rec_buf_new))
       (\<lambda>(db', errors, buf). if errors > 0 then recutl_fatal else Returns db')"

section \<open>Questions\<close>

text \<open>
  \<open>readline\<close> delivers a line, or NULL at the end of the input; the question is asked until the answer is
  yes or no. The result is the answer and the number of the line that gave it.
\<close>

partial_function (option) recutl_yesno :: "(nat \<Rightarrow> string option) \<Rightarrow> nat \<Rightarrow> (bool \<times> nat) option" where
  "recutl_yesno readline n =
     (if readline n = Some ''yes'' then Some (True, n)
      else if readline n = Some ''no'' then Some (False, n)
      else recutl_yesno readline (Suc n))"

definition recutl_getpass :: "(nat \<Rightarrow> string option) \<Rightarrow> bool \<Rightarrow> string option run" where
  "recutl_getpass getpass asktwice =
     (case getpass 0 of
        None \<Rightarrow> Returns None
      | Some ret \<Rightarrow>
          if asktwice
          then (case getpass 1 of
                  Some pass \<Rightarrow> if ret \<noteq> pass then recutl_fatal else Returns (Some ret)
                | None \<Rightarrow> Returns None)
          else Returns (Some ret))"

section \<open>Lists of indexes\<close>

definition INDEX_LIST_ENTRY_RE :: re where
  "INDEX_LIST_ENTRY_RE =
     (let digits = re_plus (Cls False [(CHR ''0'', CHR ''9'')]) in Seq digits (re_opt (Seq (re_char CHR ''-'') digits)))"

definition INDEX_LIST_RE :: re where
  "INDEX_LIST_RE = Seq (Star (Seq INDEX_LIST_ENTRY_RE (re_char CHR '',''))) INDEX_LIST_ENTRY_RE"

text \<open>The static variables \<open>recutl_indexes\<close>, which may be NULL, and \<open>recutl_indexes_size\<close>.\<close>

record utl_indexes =
  utl_index_array :: "size_t list option"
  utl_indexes_size :: nat

definition recutl_reset_indexes :: utl_indexes where
  "recutl_reset_indexes = \<lparr>utl_index_array = None, utl_indexes_size = 0\<rparr>"

definition recutl_num_indexes :: "utl_indexes \<Rightarrow> nat" where
  "recutl_num_indexes st = utl_indexes_size st"

definition recutl_index :: "utl_indexes \<Rightarrow> size_t list option" where
  "recutl_index st = utl_index_array st"

text \<open>\<open>strtol\<close> with base 10: the value, clamped to a \<open>long\<close>, and the rest of the string.\<close>

definition strtol_dec :: "string \<Rightarrow> int \<times> string" where
  "strtol_dec s =
     (let s1 = dropWhile isspace s;
          s2 = (if peek s1 = CHR ''-'' \<or> peek s1 = CHR ''+'' then tl s1 else s1);
          ds = takeWhile rec_digit_p s2;
          v = (if peek s1 = CHR ''-'' then - digits_value 10 ds else digits_value 10 ds)
      in if ds = [] then (0, s) else (max (- (2 ^ 63)) (min (2 ^ 63 - 1) v), dropWhile rec_digit_p s2))"

lemma strtol_dec_rest: "length (snd (strtol_dec s)) \<le> length s"
proof -
  let ?s1 = "dropWhile isspace s"
  let ?s2 = "if peek ?s1 = CHR ''-'' \<or> peek ?s1 = CHR ''+'' then tl ?s1 else ?s1"
  have "length (dropWhile rec_digit_p ?s2) \<le> length ?s2" by (rule length_dropWhile_le)
  also have "\<dots> \<le> length ?s1" by simp
  also have "\<dots> \<le> length s" by (rule length_dropWhile_le)
  finally show ?thesis by (simp add: strtol_dec_def Let_def)
qed

text \<open>Writing behind the end of the array is undefined.\<close>

definition put_index :: "nat \<Rightarrow> int \<Rightarrow> size_t list \<Rightarrow> size_t list option" where
  "put_index i n xs = (if i < length xs then Some (xs[i := of_int n]) else None)"

lemma entry_rest:
  assumes "x = strtol_dec p" "(number, p1) = x"
    "y = (if peek p1 = CHR ''-''
          then case strtol_dec (tl p1) of (number2, p2) \<Rightarrow> (put_index (k + 1) number2 xs1, p2) else (Some xs1, p1))"
    "(oxs, p3) = y" "p3 \<noteq> []"
  shows "length (tl p3) < length p"
proof -
  have "length p1 \<le> length p" using strtol_dec_rest [of p] assms(1,2) by (metis snd_conv)
  moreover have "length p3 \<le> length p1"
  proof (cases "peek p1 = CHR ''-''")
    case True
    then have "p3 = snd (strtol_dec (tl p1))" using assms(3,4) by (simp split: prod.splits)
    then show ?thesis using strtol_dec_rest [of "tl p1"] by simp
  qed (use assms(3,4) in simp)
  moreover have "length (tl p3) < length p3" using assms(5) by (cases p3) auto
  ultimately show ?thesis by linarith
qed

function index_entries :: "string \<Rightarrow> size_t list \<Rightarrow> nat \<Rightarrow> (size_t list \<times> nat) option" where
  "index_entries p xs k =
     (case strtol_dec p of (number, p1) \<Rightarrow>
        Option.bind (put_index k number xs) (\<lambda>xs1.
          case (if peek p1 = CHR ''-''
                then (case strtol_dec (tl p1) of (number2, p2) \<Rightarrow> (put_index (k + 1) number2 xs1, p2))
                else (Some xs1, p1)) of (oxs, p3) \<Rightarrow>
            Option.bind oxs (\<lambda>xs2. if p3 = [] then Some (xs2, k + 2) else index_entries (tl p3) xs2 (k + 2))))"
  by pat_completeness auto
termination
proof (relation "measure (\<lambda>(p, _, _). length p)", simp)
qed (unfold in_measure prod.case, erule entry_rest, (rule refl | assumption)+)

declare index_entries.simps [simp del]

definition recutl_index_list_parse :: "string \<Rightarrow> utl_indexes \<Rightarrow> (bool \<times> utl_indexes) option" where
  "recutl_index_list_parse str st =
     (let st1 = st\<lparr>utl_index_array := Some (replicate (length str * 2 + 2) REC_Q_NOINDEX)\<rparr> in
      if \<not> re_match INDEX_LIST_RE str then Some (False, st1)
      else map_option (\<lambda>(xs, n). (True, \<lparr>utl_index_array = Some xs, utl_indexes_size = n\<rparr>))
             (index_entries str (replicate (length str * 2 + 2) REC_Q_NOINDEX) (utl_indexes_size st)))"

end
