(* ===== verification/Rec_Options.thy ===== *)
theory Rec_Options
  imports Rec_Utl
begin

text \<open>
  The options of the programs (\<open>src/utils/recutl.h\<close> and the \<open>*_parse_args\<close> functions). The list of options
  with their arguments is what \<open>getopt_long\<close> delivers; an option that a program does not have ends it with
  a failure, as the \<open>?\<close> of \<open>getopt_long\<close> does. The globals of a program are a record.
\<close>

datatype utl_opt =
    HELP_ARG | VERSION_ARG
  | TYPE_ARG string | EXPRESSION_ARG string | QUICK_ARG string | NUM_ARG string | INSENSITIVE_ARG | RANDOM_ARG string
  | PRINT_ARG string | PRINT_VALUES_ARG string | PRINT_IN_A_ROW_ARG string | COLLAPSE_ARG | COUNT_ARG | DESCRIPTOR_ARG
  | PRINT_SEXPS_ARG | SORT_ARG string | PASSWORD_ARG string | UNIQ_ARG | GROUP_BY_ARG string | JOIN_ARG string
  | NAME_ARG string | VALUE_ARG string | FORCE_ARG | VERBOSE_ARG | NO_EXTERNAL_ARG | RECORD_ARG string | NO_AUTO_ARG
  | COMMENT_ARG | FIELD_EXPR_ARG string | ADD_ACTION_ARG string | RENAME_ACTION_ARG string | DELETE_ACTION_ARG
  | COMMENT_ACTION_ARG | SET_ACTION_ARG string | SET_ADD_ACTION_ARG string
  | OP_SORT_ARG | OP_ENCRYPT_ARG | OP_DECRYPT_ARG | OP_CHECK_ARG | OP_AUTO_ARG | NAMES_ARG

section \<open>Selecting records\<close>

record sel_state =
  recutl_type :: "string option"
  recutl_sex_str :: "string option"
  recutl_sex :: "rec_sex option"
  recutl_quick_str :: "string option"
  recutl_random :: size_t
  recutl_insensitive :: bool
  recutl_indexes :: utl_indexes

definition COMMON_ARGS_CASES :: "utl_opt \<Rightarrow> 'a run" where
  "COMMON_ARGS_CASES opt =
     (case opt of HELP_ARG \<Rightarrow> Exits EXIT_SUCCESS | VERSION_ARG \<Rightarrow> Exits EXIT_SUCCESS | _ \<Rightarrow> Exits EXIT_FAILURE)"

text \<open>The number of \<open>-m\<close> is a \<open>long\<close>, converted to \<open>size_t\<close>.\<close>

definition random_arg :: "string \<Rightarrow> 'a sel_state_scheme \<Rightarrow> 'a sel_state_scheme run" where
  "random_arg optarg st =
     (if recutl_sex st \<noteq> None \<or> recutl_quick_str st \<noteq> None \<or> recutl_num_indexes (recutl_indexes st) \<noteq> 0 \<or> recutl_random st \<noteq> 0
      then recutl_fatal
      else case strtol optarg of (li, end) \<Rightarrow>
             if end \<noteq> [] then recutl_fatal else Returns (st\<lparr>recutl_random := of_int li\<rparr>))"

definition expression_arg :: "rec_ext \<Rightarrow> string \<Rightarrow> 'a sel_state_scheme \<Rightarrow> 'a sel_state_scheme run" where
  "expression_arg ext optarg st =
     (if recutl_num_indexes (recutl_indexes st) \<noteq> 0 \<or> recutl_quick_str st \<noteq> None then recutl_fatal
      else case rec_sex_compile ext (rec_sex_new (recutl_insensitive st)) optarg of (ok, sex) \<Rightarrow>
             if ok then Returns (st\<lparr>recutl_sex_str := Some optarg, recutl_sex := Some sex\<rparr>) else recutl_fatal)"

definition num_arg :: "string \<Rightarrow> 'a sel_state_scheme \<Rightarrow> 'a sel_state_scheme run" where
  "num_arg optarg st =
     (if recutl_sex st \<noteq> None \<or> recutl_quick_str st \<noteq> None \<or> recutl_num_indexes (recutl_indexes st) \<noteq> 0 then recutl_fatal
      else run_bind (defined (recutl_index_list_parse optarg (recutl_indexes st))) (\<lambda>(ok, ix).
             if ok then Returns (st\<lparr>recutl_indexes := ix\<rparr>) else recutl_fatal))"

definition quick_arg :: "string \<Rightarrow> 'a sel_state_scheme \<Rightarrow> 'a sel_state_scheme run" where
  "quick_arg optarg st =
     (if recutl_sex st \<noteq> None \<or> recutl_num_indexes (recutl_indexes st) \<noteq> 0 then recutl_fatal
      else Returns (st\<lparr>recutl_quick_str := Some optarg\<rparr>))"

definition RECORD_SELECTION_ARGS_CASES :: "rec_ext \<Rightarrow> utl_opt \<Rightarrow> 'a sel_state_scheme \<Rightarrow> 'a sel_state_scheme run" where
  "RECORD_SELECTION_ARGS_CASES ext opt st =
     (case opt of
        TYPE_ARG optarg \<Rightarrow> if rec_field_name_p optarg then Returns (st\<lparr>recutl_type := Some optarg\<rparr>) else recutl_fatal
      | EXPRESSION_ARG optarg \<Rightarrow> expression_arg ext optarg st
      | NUM_ARG optarg \<Rightarrow> num_arg optarg st
      | RANDOM_ARG optarg \<Rightarrow> random_arg optarg st
      | QUICK_ARG optarg \<Rightarrow> quick_arg optarg st
      | INSENSITIVE_ARG \<Rightarrow> Returns (st\<lparr>recutl_insensitive := True\<rparr>)
      | _ \<Rightarrow> COMMON_ARGS_CASES opt)"

text \<open>The loop over the options, and the operands: at most one file.\<close>

fun getopt_loop :: "('o \<Rightarrow> 's \<Rightarrow> 's run) \<Rightarrow> 'o list \<Rightarrow> 's \<Rightarrow> 's run" where
  "getopt_loop arg [] st = Returns st"
| "getopt_loop arg (opt # opts) st = run_bind (arg opt st) (getopt_loop arg opts)"

definition file_operand :: "string list \<Rightarrow> string option run" where
  "file_operand args = (case args of [] \<Rightarrow> Returns None | [f] \<Rightarrow> Returns (Some f) | _ \<Rightarrow> Exits EXIT_FAILURE)"

definition field_list_arg :: "string \<Rightarrow> rec_fex_kind_e \<Rightarrow> rec_fex run" where
  "field_list_arg optarg kind =
     (if rec_fex_check optarg kind
      then (case rec_fex_new (Some optarg) kind of None \<Rightarrow> recutl_fatal | Some fex \<Rightarrow> Returns fex)
      else recutl_fatal)"

section \<open>recsel\<close>

record recsel_state = sel_state +
  recsel_descriptors :: bool
  recsel_write_mode :: rec_writer_mode
  recsel_uniq :: bool
  recsel_password :: "string option"
  recutl_sort_by_fields :: "rec_fex option"
  recsel_join :: "string option"
  recsel_group_by_fields :: "rec_fex option"
  recsel_count :: bool
  recsel_fex_str :: "string option"
  recsel_fex :: "rec_fex option"
  recsel_collapse :: bool

definition recsel_init :: recsel_state where
  "recsel_init = \<lparr>recutl_type = None, recutl_sex_str = None, recutl_sex = None, recutl_quick_str = None, recutl_random = 0,
     recutl_insensitive = False, recutl_indexes = recutl_reset_indexes, recsel_descriptors = False,
     recsel_write_mode = REC_WRITER_NORMAL, recsel_uniq = False, recsel_password = None, recutl_sort_by_fields = None,
     recsel_join = None, recsel_group_by_fields = None, recsel_count = False, recsel_fex_str = None, recsel_fex = None,
     recsel_collapse = False\<rparr>"

text \<open>\<open>-p\<close>, \<open>-P\<close> and \<open>-R\<close>: the mode is changed by \<open>-P\<close> and \<open>-R\<close> only.\<close>

definition print_arg :: "rec_writer_mode option \<Rightarrow> string \<Rightarrow> recsel_state \<Rightarrow> recsel_state run" where
  "print_arg mode optarg st =
     (if recsel_count st then recutl_fatal
      else run_bind (field_list_arg optarg REC_FEX_SUBSCRIPTS) (\<lambda>fex.
             if list_all (\<lambda>e. case fex_elem_function_name e of None \<Rightarrow> True | Some fname \<Rightarrow> rec_aggregate_std_p fname) (fex_elems fex)
             then Returns (st\<lparr>recsel_write_mode := (case mode of None \<Rightarrow> recsel_write_mode st | Some m \<Rightarrow> m),
                              recsel_fex_str := Some optarg, recsel_fex := Some fex\<rparr>)
             else recutl_fatal))"

definition recsel_arg :: "rec_ext \<Rightarrow> utl_opt \<Rightarrow> recsel_state \<Rightarrow> recsel_state run" where
  "recsel_arg ext opt st =
     (case opt of
        DESCRIPTOR_ARG \<Rightarrow> Returns (st\<lparr>recsel_descriptors := True\<rparr>)
      | PRINT_SEXPS_ARG \<Rightarrow> Returns (st\<lparr>recsel_write_mode := REC_WRITER_SEXP\<rparr>)
      | UNIQ_ARG \<Rightarrow> Returns (st\<lparr>recsel_uniq := True\<rparr>)
      | PASSWORD_ARG optarg \<Rightarrow>
          if recsel_password st \<noteq> None then recutl_fatal else Returns (st\<lparr>recsel_password := Some optarg\<rparr>)
      | SORT_ARG optarg \<Rightarrow>
          if recutl_sort_by_fields st \<noteq> None then recutl_fatal
          else run_bind (field_list_arg optarg REC_FEX_CSV) (\<lambda>fex. Returns (st\<lparr>recutl_sort_by_fields := Some fex\<rparr>))
      | JOIN_ARG optarg \<Rightarrow>
          if recsel_join st \<noteq> None \<or> \<not> rec_field_name_p optarg then recutl_fatal
          else Returns (st\<lparr>recsel_join := Some optarg\<rparr>)
      | GROUP_BY_ARG optarg \<Rightarrow>
          if recsel_group_by_fields st \<noteq> None then recutl_fatal
          else run_bind (field_list_arg optarg REC_FEX_CSV) (\<lambda>fex. Returns (st\<lparr>recsel_group_by_fields := Some fex\<rparr>))
      | PRINT_ARG optarg \<Rightarrow> print_arg None optarg st
      | PRINT_VALUES_ARG optarg \<Rightarrow> print_arg (Some REC_WRITER_VALUES) optarg st
      | PRINT_IN_A_ROW_ARG optarg \<Rightarrow> print_arg (Some REC_WRITER_VALUES_ROW) optarg st
      | COLLAPSE_ARG \<Rightarrow> Returns (st\<lparr>recsel_collapse := True\<rparr>)
      | COUNT_ARG \<Rightarrow> if recsel_fex_str st \<noteq> None then recutl_fatal else Returns (st\<lparr>recsel_count := True\<rparr>)
      | _ \<Rightarrow> RECORD_SELECTION_ARGS_CASES ext opt st)"

definition recsel_parse_args :: "rec_ext \<Rightarrow> utl_opt list \<Rightarrow> recsel_state run" where
  "recsel_parse_args ext opts =
     run_bind (getopt_loop (recsel_arg ext) opts recsel_init)
       (\<lambda>st. if recutl_type st = None \<and> recsel_join st \<noteq> None then recutl_fatal else Returns st)"

section \<open>recins\<close>

text \<open>\<open>recins_field\<close> is the local variable for the field of a \<open>-f\<close> that waits for its \<open>-v\<close>.\<close>

record recins_state = sel_state +
  recins_force :: bool
  recins_verbose :: bool
  recins_external :: bool
  recins_auto :: bool
  recins_password :: "string option"
  recins_record :: "rec_record option"
  recins_field :: "rec_field option"

definition recins_init :: recins_state where
  "recins_init = \<lparr>recutl_type = None, recutl_sex_str = None, recutl_sex = None, recutl_quick_str = None, recutl_random = 0,
     recutl_insensitive = False, recutl_indexes = recutl_reset_indexes, recins_force = False, recins_verbose = False,
     recins_external = True, recins_auto = True, recins_password = None, recins_record = None, recins_field = None\<rparr>"

definition name_arg :: "string \<Rightarrow> recins_state \<Rightarrow> recins_state run" where
  "name_arg optarg st =
     (if recins_field st \<noteq> None \<or> \<not> rec_field_name_p optarg then recutl_fatal
      else Returns (st\<lparr>recins_record :=
                         (case recins_record st of
                            None \<Rightarrow> Some (rec_record_set_location (rec_record_set_source rec_record_new (Some ''cmdli'')) 0)
                          | Some r \<Rightarrow> Some r),
                       recins_field := Some (rec_field_new optarg ''foo'')\<rparr>))"

definition value_arg :: "string \<Rightarrow> recins_state \<Rightarrow> recins_state run" where
  "value_arg optarg st =
     (case recins_field st of
        None \<Rightarrow> recutl_fatal
      | Some field \<Rightarrow>
          (case recins_record st of
             None \<Rightarrow> Undefined
           | Some r \<Rightarrow> Returns (st\<lparr>recins_record := Some (record_append_field r (rec_field_set_value field optarg) MSET_ANY),
                                   recins_field := None\<rparr>)))"

text \<open>The variable of the waiting field is also the one of the loop over the fields of the record, which resets it.\<close>

definition record_arg :: "string \<Rightarrow> recins_state \<Rightarrow> recins_state run" where
  "record_arg optarg st =
     (case rec_parse_record_str optarg of
        None \<Rightarrow> recutl_fatal
      | Some provided \<Rightarrow>
          (case recins_record st of
             None \<Rightarrow> Returns (st\<lparr>recins_record := Some provided\<rparr>)
           | Some r \<Rightarrow>
               let fs = map snd (rec_record_fields provided) in
               Returns (st\<lparr>recins_record := Some (foldl (\<lambda>r f. record_append_field r (rec_field_dup f) MSET_ANY) r fs),
                           recins_field := (if fs = [] then recins_field st else None)\<rparr>)))"

definition recins_arg :: "rec_ext \<Rightarrow> utl_opt \<Rightarrow> recins_state \<Rightarrow> recins_state run" where
  "recins_arg ext opt st =
     (case opt of
        FORCE_ARG \<Rightarrow> Returns (st\<lparr>recins_force := True\<rparr>)
      | VERBOSE_ARG \<Rightarrow> Returns (st\<lparr>recins_verbose := True\<rparr>)
      | NAME_ARG optarg \<Rightarrow> name_arg optarg st
      | VALUE_ARG optarg \<Rightarrow> value_arg optarg st
      | NO_EXTERNAL_ARG \<Rightarrow> Returns (st\<lparr>recins_external := False\<rparr>)
      | NO_AUTO_ARG \<Rightarrow> Returns (st\<lparr>recins_auto := False\<rparr>)
      | PASSWORD_ARG optarg \<Rightarrow>
          if recins_password st \<noteq> None then recutl_fatal else Returns (st\<lparr>recins_password := Some optarg\<rparr>)
      | RECORD_ARG optarg \<Rightarrow> record_arg optarg st
      | _ \<Rightarrow> RECORD_SELECTION_ARGS_CASES ext opt st)"

definition recins_parse_args :: "rec_ext \<Rightarrow> utl_opt list \<Rightarrow> string list \<Rightarrow> (recins_state \<times> string option) run" where
  "recins_parse_args ext opts args =
     run_bind (getopt_loop (recins_arg ext) opts recins_init) (\<lambda>st.
       if recins_field st \<noteq> None then recutl_fatal
       else run_bind (file_operand args) (\<lambda>file. Returns (st, file)))"

section \<open>recdel\<close>

record recdel_state = sel_state +
  recdel_force :: bool
  recdel_verbose :: bool
  recdel_external :: bool
  recdel_comment :: bool

definition recdel_init :: recdel_state where
  "recdel_init = \<lparr>recutl_type = None, recutl_sex_str = None, recutl_sex = None, recutl_quick_str = None, recutl_random = 0,
     recutl_insensitive = False, recutl_indexes = recutl_reset_indexes, recdel_force = False, recdel_verbose = False,
     recdel_external = True, recdel_comment = False\<rparr>"

definition recdel_arg :: "rec_ext \<Rightarrow> utl_opt \<Rightarrow> recdel_state \<Rightarrow> recdel_state run" where
  "recdel_arg ext opt st =
     (case opt of
        FORCE_ARG \<Rightarrow> Returns (st\<lparr>recdel_force := True\<rparr>)
      | VERBOSE_ARG \<Rightarrow> Returns (st\<lparr>recdel_verbose := True\<rparr>)
      | NO_EXTERNAL_ARG \<Rightarrow> Returns (st\<lparr>recdel_external := False\<rparr>)
      | COMMENT_ARG \<Rightarrow> Returns (st\<lparr>recdel_comment := True\<rparr>)
      | _ \<Rightarrow> RECORD_SELECTION_ARGS_CASES ext opt st)"

text \<open>The selection expression is compiled again, now with the final case sensitivity.\<close>

definition recdel_parse_args :: "rec_ext \<Rightarrow> utl_opt list \<Rightarrow> string list \<Rightarrow> (recdel_state \<times> string option) run" where
  "recdel_parse_args ext opts args =
     run_bind (getopt_loop (recdel_arg ext) opts recdel_init) (\<lambda>st.
       if recutl_num_indexes (recutl_indexes st) = 0 \<and> recutl_sex_str st = None \<and> recutl_quick_str st = None
          \<and> \<not> recdel_force st \<and> recutl_random st = 0
       then recutl_fatal
       else run_bind
              (case recutl_sex_str st of
                 None \<Rightarrow> Returns st
               | Some str \<Rightarrow>
                   (case rec_sex_compile ext (rec_sex_new (recutl_insensitive st)) str of (ok, sex) \<Rightarrow>
                      if ok then Returns (st\<lparr>recutl_sex := Some sex\<rparr>) else recutl_fatal))
              (\<lambda>st1. run_bind (file_operand args) (\<lambda>file. Returns (st1, file))))"

section \<open>recset\<close>

record recset_state = sel_state +
  recset_force :: bool
  recset_verbose :: bool
  recset_external :: bool
  recutl_fex :: "rec_fex option"
  recset_action :: rec_set_action
  recset_value :: "string option"

definition recset_init :: recset_state where
  "recset_init = \<lparr>recutl_type = None, recutl_sex_str = None, recutl_sex = None, recutl_quick_str = None, recutl_random = 0,
     recutl_insensitive = False, recutl_indexes = recutl_reset_indexes, recset_force = False, recset_verbose = False,
     recset_external = True, recutl_fex = None, recset_action = REC_SET_ACT_NONE, recset_value = None\<rparr>"

text \<open>An action needs the fields of a \<open>-f\<close> before it, and there is only one.\<close>

definition CHECK_ACTION_PREREQ :: "recset_state \<Rightarrow> bool" where
  "CHECK_ACTION_PREREQ st \<longleftrightarrow> recutl_fex st \<noteq> None \<and> recset_action st = REC_SET_ACT_NONE"

definition action_arg :: "rec_set_action \<Rightarrow> string option \<Rightarrow> recset_state \<Rightarrow> recset_state run" where
  "action_arg action optarg st =
     (if CHECK_ACTION_PREREQ st
      then Returns (st\<lparr>recset_action := action,
                       recset_value := (case optarg of None \<Rightarrow> recset_value st | Some v \<Rightarrow> Some v)\<rparr>)
      else recutl_fatal)"

definition rename_arg :: "string \<Rightarrow> recset_state \<Rightarrow> recset_state run" where
  "rename_arg optarg st =
     (case recutl_fex st of
        None \<Rightarrow> recutl_fatal
      | Some fex \<Rightarrow>
          if recset_action st = REC_SET_ACT_NONE \<and> rec_fex_size fex = 1 \<and> rec_field_name_p optarg
          then action_arg REC_SET_ACT_RENAME (Some optarg) st else recutl_fatal)"

definition recset_arg :: "rec_ext \<Rightarrow> utl_opt \<Rightarrow> recset_state \<Rightarrow> recset_state run" where
  "recset_arg ext opt st =
     (case opt of
        FORCE_ARG \<Rightarrow> Returns (st\<lparr>recset_force := True\<rparr>)
      | VERBOSE_ARG \<Rightarrow> Returns (st\<lparr>recset_verbose := True\<rparr>)
      | FIELD_EXPR_ARG optarg \<Rightarrow>
          run_bind (field_list_arg optarg REC_FEX_SUBSCRIPTS) (\<lambda>fex. Returns (st\<lparr>recutl_fex := Some (rec_fex_sort fex)\<rparr>))
      | SET_ACTION_ARG optarg \<Rightarrow> action_arg REC_SET_ACT_SET (Some optarg) st
      | RENAME_ACTION_ARG optarg \<Rightarrow> rename_arg optarg st
      | ADD_ACTION_ARG optarg \<Rightarrow> action_arg REC_SET_ACT_ADD (Some optarg) st
      | SET_ADD_ACTION_ARG optarg \<Rightarrow> action_arg REC_SET_ACT_SETADD (Some optarg) st
      | DELETE_ACTION_ARG \<Rightarrow> action_arg REC_SET_ACT_DELETE None st
      | COMMENT_ACTION_ARG \<Rightarrow> action_arg REC_SET_ACT_COMMENT None st
      | NO_EXTERNAL_ARG \<Rightarrow> Returns (st\<lparr>recset_external := False\<rparr>)
      | _ \<Rightarrow> RECORD_SELECTION_ARGS_CASES ext opt st)"

definition recset_parse_args :: "rec_ext \<Rightarrow> utl_opt list \<Rightarrow> string list \<Rightarrow> (recset_state \<times> string option) run" where
  "recset_parse_args ext opts args =
     run_bind (getopt_loop (recset_arg ext) opts recset_init)
       (\<lambda>st. run_bind (file_operand args) (\<lambda>file. Returns (st, file)))"

section \<open>recfix\<close>

datatype recfix_op =
  RECFIX_OP_INVALID | RECFIX_OP_CHECK | RECFIX_OP_ENCRYPT | RECFIX_OP_DECRYPT | RECFIX_OP_SORT | RECFIX_OP_AUTO

record recfix_state =
  recfix_external :: bool
  recfix_op :: recfix_op
  recfix_password :: "string option"
  recfix_force :: bool

definition recfix_init :: recfix_state where
  "recfix_init = \<lparr>recfix_external = True, recfix_op = RECFIX_OP_INVALID, recfix_password = None, recfix_force = False\<rparr>"

definition op_arg :: "recfix_op \<Rightarrow> recfix_state \<Rightarrow> recfix_state run" where
  "op_arg op st = (if recfix_op st \<noteq> RECFIX_OP_INVALID then recutl_fatal else Returns (st\<lparr>recfix_op := op\<rparr>))"

definition recfix_arg :: "utl_opt \<Rightarrow> recfix_state \<Rightarrow> recfix_state run" where
  "recfix_arg opt st =
     (case opt of
        NO_EXTERNAL_ARG \<Rightarrow> Returns (st\<lparr>recfix_external := False\<rparr>)
      | FORCE_ARG \<Rightarrow> Returns (st\<lparr>recfix_force := True\<rparr>)
      | PASSWORD_ARG optarg \<Rightarrow>
          if recfix_op st \<in> {RECFIX_OP_ENCRYPT, RECFIX_OP_DECRYPT} \<and> recfix_password st = None
          then Returns (st\<lparr>recfix_password := Some optarg\<rparr>) else recutl_fatal
      | OP_CHECK_ARG \<Rightarrow> op_arg RECFIX_OP_CHECK st
      | OP_SORT_ARG \<Rightarrow> op_arg RECFIX_OP_SORT st
      | OP_AUTO_ARG \<Rightarrow> op_arg RECFIX_OP_AUTO st
      | OP_ENCRYPT_ARG \<Rightarrow> op_arg RECFIX_OP_ENCRYPT st
      | OP_DECRYPT_ARG \<Rightarrow> op_arg RECFIX_OP_DECRYPT st
      | _ \<Rightarrow> COMMON_ARGS_CASES opt)"

text \<open>The default operation, and the password the encryption needs.\<close>

definition recfix_finish_args :: "utl_env \<Rightarrow> recfix_state \<Rightarrow> recfix_state run" where
  "recfix_finish_args env st =
     (let st1 = (if recfix_op st = RECFIX_OP_INVALID then st\<lparr>recfix_op := RECFIX_OP_CHECK\<rparr> else st) in
      if recfix_op st1 \<in> {RECFIX_OP_ENCRYPT, RECFIX_OP_DECRYPT} \<and> recfix_password st1 = None
      then run_bind (if utl_isatty env then recutl_getpass (utl_getpass env) (recfix_op st1 = RECFIX_OP_ENCRYPT) else Returns None)
             (\<lambda>password. case password of
                None \<Rightarrow> recutl_fatal
              | Some pw \<Rightarrow> if pw = [] then recutl_fatal else Returns (st1\<lparr>recfix_password := Some pw\<rparr>))
      else Returns st1)"

definition recfix_parse_args :: "utl_env \<Rightarrow> utl_opt list \<Rightarrow> string list \<Rightarrow> (recfix_state \<times> string option) run" where
  "recfix_parse_args env opts args =
     run_bind (getopt_loop recfix_arg opts recfix_init) (\<lambda>st.
     run_bind (recfix_finish_args env st) (\<lambda>st1.
     run_bind (file_operand args) (\<lambda>file. Returns (st1, file))))"

section \<open>recinf\<close>

record recinf_state =
  recinf_write_mode :: rec_writer_mode
  recinf_descriptor :: bool
  recinf_names_only :: bool
  recinf_type :: "string option"

definition recinf_init :: recinf_state where
  "recinf_init = \<lparr>recinf_write_mode = REC_WRITER_NORMAL, recinf_descriptor = False, recinf_names_only = False, recinf_type = None\<rparr>"

definition recinf_arg :: "utl_opt \<Rightarrow> recinf_state \<Rightarrow> recinf_state run" where
  "recinf_arg opt st =
     (case opt of
        PRINT_SEXPS_ARG \<Rightarrow> Returns (st\<lparr>recinf_write_mode := REC_WRITER_SEXP\<rparr>)
      | DESCRIPTOR_ARG \<Rightarrow> Returns (st\<lparr>recinf_descriptor := True\<rparr>)
      | NAMES_ARG \<Rightarrow> Returns (st\<lparr>recinf_names_only := True\<rparr>)
      | TYPE_ARG optarg \<Rightarrow> Returns (st\<lparr>recinf_type := Some optarg\<rparr>)
      | _ \<Rightarrow> COMMON_ARGS_CASES opt)"

end
