(* ===== verification/Rec_Options_Laws.thy ===== *)
theory Rec_Options_Laws
  imports Rec_Options
begin

text \<open>
  What the options of the programs guarantee: at most one of the selections \<open>-e\<close>, \<open>-n\<close> and \<open>-q\<close> is in effect
  when they are accepted, whatever their order.
\<close>

definition sel_exclusive :: "'a sel_state_scheme \<Rightarrow> bool" where
  "sel_exclusive st \<longleftrightarrow>
     length (filter id [recutl_sex st \<noteq> None, recutl_quick_str st \<noteq> None, recutl_num_indexes (recutl_indexes st) \<noteq> 0]) \<le> 1
     \<and> (recutl_sex st \<noteq> None \<longleftrightarrow> recutl_sex_str st \<noteq> None)
     \<and> (recutl_index (recutl_indexes st) \<noteq> None \<longleftrightarrow> recutl_num_indexes (recutl_indexes st) \<noteq> 0)
     \<and> (case recutl_type st of None \<Rightarrow> True | Some t \<Rightarrow> rec_field_name_p t)"

lemma index_entries_size: "index_entries p xs k = Some (ys, n) \<Longrightarrow> k < n"
proof (induction p xs k rule: index_entries.induct)
  case (1 p xs k)
  obtain number p1 where n: "strtol_dec p = (number, p1)" by fastforce
  obtain xs1 where x: "put_index k number xs = Some xs1"
    using "1.prems" by (subst (asm) index_entries.simps) (auto simp: n bind_eq_Some_conv)
  obtain oxs p3 where o: "(if peek p1 = CHR ''-''
      then (case strtol_dec (tl p1) of (number2, p2) \<Rightarrow> (put_index (k + 1) number2 xs1, p2)) else (Some xs1, p1)) = (oxs, p3)"
    by fastforce
  obtain xs2 where x2: "oxs = Some xs2" and r: "(if p3 = [] then Some (xs2, k + 2) else index_entries (tl p3) xs2 (k + 2)) = Some (ys, n)"
    using "1.prems" by (subst (asm) index_entries.simps) (auto simp: n x o bind_eq_Some_conv)
  show ?case
  proof (cases "p3 = []")
    case False
    with "1.IH" [OF n [symmetric] x o [symmetric] x2 False] r show ?thesis by simp
  qed (use r in simp)
qed

lemma num_arg_indexes:
  assumes "num_arg optarg st = Returns st'"
  shows "\<exists>ix. st' = st\<lparr>recutl_indexes := ix\<rparr> \<and> recutl_num_indexes ix \<noteq> 0 \<and> recutl_index ix \<noteq> None
    \<and> recutl_sex st = None \<and> recutl_quick_str st = None"
  using assms index_entries_size
  by (fastforce simp: num_arg_def run_bind_Returns recutl_index_list_parse_def recutl_num_indexes_def recutl_index_def Let_def
      split: if_splits)

lemma selection_arg_exclusive:
  assumes "RECORD_SELECTION_ARGS_CASES ext opt st = Returns st'" and "sel_exclusive st"
  shows "sel_exclusive st'"
  using assms
  by (cases opt)
    (auto simp: RECORD_SELECTION_ARGS_CASES_def COMMON_ARGS_CASES_def expression_arg_def quick_arg_def random_arg_def sel_exclusive_def
      split: if_splits prod.splits dest!: num_arg_indexes)

section \<open>An invariant of the options\<close>

text \<open>What every option keeps holds after the loop over the options.\<close>

locale option_invariant =
  fixes arg :: "utl_opt \<Rightarrow> 's \<Rightarrow> 's run" and inv :: "'s \<Rightarrow> bool"
  assumes arg_keeps: "arg opt st = Returns st' \<Longrightarrow> inv st \<Longrightarrow> inv st'"
begin

lemma loop_keeps: "getopt_loop arg opts st = Returns st' \<Longrightarrow> inv st \<Longrightarrow> inv st'"
  by (induction opts arbitrary: st) (auto simp: run_bind_Returns dest: arg_keeps)

end

text \<open>The other globals of a program do not matter.\<close>

lemma recsel_updates [simp]:
  fixes st :: "recsel_state" shows
  "sel_exclusive (st\<lparr>recsel_descriptors := v0\<rparr>) = sel_exclusive st"
  "sel_exclusive (st\<lparr>recsel_write_mode := v1\<rparr>) = sel_exclusive st"
  "sel_exclusive (st\<lparr>recsel_uniq := v2\<rparr>) = sel_exclusive st"
  "sel_exclusive (st\<lparr>recsel_password := v3\<rparr>) = sel_exclusive st"
  "sel_exclusive (st\<lparr>recutl_sort_by_fields := v4\<rparr>) = sel_exclusive st"
  "sel_exclusive (st\<lparr>recsel_join := v5\<rparr>) = sel_exclusive st"
  "sel_exclusive (st\<lparr>recsel_group_by_fields := v6\<rparr>) = sel_exclusive st"
  "sel_exclusive (st\<lparr>recsel_count := v7\<rparr>) = sel_exclusive st"
  "sel_exclusive (st\<lparr>recsel_fex_str := v8\<rparr>) = sel_exclusive st"
  "sel_exclusive (st\<lparr>recsel_fex := v9\<rparr>) = sel_exclusive st"
  "sel_exclusive (st\<lparr>recsel_collapse := v10\<rparr>) = sel_exclusive st"
  by (simp_all add: sel_exclusive_def)

lemma recins_updates [simp]:
  fixes st :: "recins_state" shows
  "sel_exclusive (st\<lparr>recins_force := v0\<rparr>) = sel_exclusive st"
  "sel_exclusive (st\<lparr>recins_verbose := v1\<rparr>) = sel_exclusive st"
  "sel_exclusive (st\<lparr>recins_external := v2\<rparr>) = sel_exclusive st"
  "sel_exclusive (st\<lparr>recins_auto := v3\<rparr>) = sel_exclusive st"
  "sel_exclusive (st\<lparr>recins_password := v4\<rparr>) = sel_exclusive st"
  "sel_exclusive (st\<lparr>recins_record := v5\<rparr>) = sel_exclusive st"
  "sel_exclusive (st\<lparr>recins_field := v6\<rparr>) = sel_exclusive st"
  by (simp_all add: sel_exclusive_def)

lemma recdel_updates [simp]:
  fixes st :: "recdel_state" shows
  "sel_exclusive (st\<lparr>recdel_force := v0\<rparr>) = sel_exclusive st"
  "sel_exclusive (st\<lparr>recdel_verbose := v1\<rparr>) = sel_exclusive st"
  "sel_exclusive (st\<lparr>recdel_external := v2\<rparr>) = sel_exclusive st"
  "sel_exclusive (st\<lparr>recdel_comment := v3\<rparr>) = sel_exclusive st"
  by (simp_all add: sel_exclusive_def)

lemma recset_updates [simp]:
  fixes st :: "recset_state" shows
  "sel_exclusive (st\<lparr>recset_force := v0\<rparr>) = sel_exclusive st"
  "sel_exclusive (st\<lparr>recset_verbose := v1\<rparr>) = sel_exclusive st"
  "sel_exclusive (st\<lparr>recset_external := v2\<rparr>) = sel_exclusive st"
  "sel_exclusive (st\<lparr>recutl_fex := v3\<rparr>) = sel_exclusive st"
  "sel_exclusive (st\<lparr>recset_action := v4\<rparr>) = sel_exclusive st"
  "sel_exclusive (st\<lparr>recset_value := v5\<rparr>) = sel_exclusive st"
  by (simp_all add: sel_exclusive_def)

lemma recsel_arg_exclusive: "recsel_arg ext opt st = Returns st' \<Longrightarrow> sel_exclusive st \<Longrightarrow> sel_exclusive st'"
  by (cases opt) (auto simp: recsel_arg_def print_arg_def run_bind_Returns split: if_splits option.splits dest: selection_arg_exclusive)

lemma recins_arg_exclusive: "recins_arg ext opt st = Returns st' \<Longrightarrow> sel_exclusive st \<Longrightarrow> sel_exclusive st'"
  by (cases opt) (auto simp: recins_arg_def name_arg_def value_arg_def record_arg_def Let_def split: if_splits option.splits dest: selection_arg_exclusive)

lemma recdel_arg_exclusive: "recdel_arg ext opt st = Returns st' \<Longrightarrow> sel_exclusive st \<Longrightarrow> sel_exclusive st'"
  by (cases opt) (auto simp: recdel_arg_def  split: if_splits option.splits dest: selection_arg_exclusive)

lemma recset_arg_exclusive: "recset_arg ext opt st = Returns st' \<Longrightarrow> sel_exclusive st \<Longrightarrow> sel_exclusive st'"
  by (cases opt) (auto simp: recset_arg_def action_arg_def rename_arg_def run_bind_Returns split: if_splits option.splits dest: selection_arg_exclusive)

interpretation recsel_options: option_invariant "recsel_arg ext" sel_exclusive for ext
  by unfold_locales (rule recsel_arg_exclusive)

interpretation recins_options: option_invariant "recins_arg ext" sel_exclusive for ext
  by unfold_locales (rule recins_arg_exclusive)

interpretation recdel_options: option_invariant "recdel_arg ext" sel_exclusive for ext
  by unfold_locales (rule recdel_arg_exclusive)

interpretation recset_options: option_invariant "recset_arg ext" sel_exclusive for ext
  by unfold_locales (rule recset_arg_exclusive)

lemma init_exclusive:
  "sel_exclusive recsel_init" "sel_exclusive recins_init" "sel_exclusive recdel_init" "sel_exclusive recset_init"
  by (simp_all add: sel_exclusive_def recsel_init_def recins_init_def recdel_init_def recset_init_def
      recutl_reset_indexes_def recutl_num_indexes_def recutl_index_def)

lemma recdel_args_exclusive:
  assumes "recdel_parse_args ext opts args = Returns (st, fo)" shows "sel_exclusive st"
proof -
  obtain st0 where l: "getopt_loop (recdel_arg ext) opts recdel_init = Returns st0"
    and s: "st = st0 \<or> (\<exists>sex. recutl_sex_str st0 \<noteq> None \<and> st = st0\<lparr>recutl_sex := Some sex\<rparr>)"
    using assms by (auto simp: recdel_parse_args_def run_bind_Returns split: if_splits option.splits prod.splits)
  have "sel_exclusive st0" using recdel_options.loop_keeps [OF l init_exclusive(3)] .
  with s show ?thesis by (auto simp: sel_exclusive_def)
qed

text \<open>
  C12. Whatever options \<open>recsel\<close>, \<open>recins\<close>, \<open>recdel\<close> and \<open>recset\<close> accept, in whatever order: at most one of a
  selection expression, a substring and a list of indexes is in effect, there is an array of indexes exactly
  when there are indexes, an expression is compiled exactly when there is its text, and the record type
  is a field name.
\<close>

theorem options_exclusive:
  "(recsel_parse_args ext opts = Returns st1 \<longrightarrow> sel_exclusive st1)
   \<and> (recins_parse_args ext opts args = Returns (st2, f2) \<longrightarrow> sel_exclusive st2)
   \<and> (recdel_parse_args ext opts args = Returns (st3, f3) \<longrightarrow> sel_exclusive st3)
   \<and> (recset_parse_args ext opts args = Returns (st4, f4) \<longrightarrow> sel_exclusive st4)"
proof (intro conjI impI)
  assume "recsel_parse_args ext opts = Returns st1"
  then have "getopt_loop (recsel_arg ext) opts recsel_init = Returns st1"
    by (auto simp: recsel_parse_args_def run_bind_Returns split: if_splits)
  then show "sel_exclusive st1" using init_exclusive(1) by (rule recsel_options.loop_keeps)
next
  assume "recins_parse_args ext opts args = Returns (st2, f2)"
  then have "getopt_loop (recins_arg ext) opts recins_init = Returns st2"
    by (auto simp: recins_parse_args_def run_bind_Returns split: if_splits)
  then show "sel_exclusive st2" using init_exclusive(2) by (rule recins_options.loop_keeps)
next
  assume "recset_parse_args ext opts args = Returns (st4, f4)"
  then have "getopt_loop (recset_arg ext) opts recset_init = Returns st4"
    by (auto simp: recset_parse_args_def run_bind_Returns)
  then show "sel_exclusive st4" using init_exclusive(4) by (rule recset_options.loop_keeps)
qed (rule recdel_args_exclusive)

theorem options_exclusive_witness:
  "\<exists>st. recsel_parse_args sample_ext [TYPE_ARG ''Book'', NUM_ARG ''0,2-3''] = Returns st
    \<and> recutl_num_indexes (recutl_indexes st) = 4 \<and> sel_exclusive st"
proof -
  let ?opts = "[TYPE_ARG ''Book'', NUM_ARG ''0,2-3'']"
  have "case recsel_parse_args sample_ext ?opts of Returns st \<Rightarrow> recutl_num_indexes (recutl_indexes st) = 4 | _ \<Rightarrow> False" by code_simp
  then obtain st where "recsel_parse_args sample_ext ?opts = Returns st" "recutl_num_indexes (recutl_indexes st) = 4"
    by (auto split: run.splits)
  with conjunct1 [OF options_exclusive, of sample_ext ?opts st] show ?thesis by blast
qed

end
