(* ===== verification/Rec_Programs.thy ===== *)
theory Rec_Programs
  imports Rec_Options Rec_Crypt
begin

text \<open>
  The programs (\<open>src/utils/recsel.c\<close>, \<open>recins.c\<close>, \<open>recdel.c\<close>, \<open>recset.c\<close>, \<open>recfix.c\<close>, \<open>recinf.c\<close>): what they do
  with the database after the options are read. The programs that write files give how they end and the
  world they leave in every case. The others (\<open>recsel\<close>, \<open>recinf\<close>) give the exit status and the world with
  their output; they do not write files, and the output of a run that \<open>Exits\<close> is not modelled.
\<close>

section \<open>recsel\<close>

text \<open>An interactive user is asked for the password when the record set has confidential fields.\<close>

definition recsel_ask_password :: "utl_env \<Rightarrow> recsel_state \<Rightarrow> rec_db \<Rightarrow> string option run" where
  "recsel_ask_password env st db =
     (if recsel_password st = None \<and> (recutl_type st \<noteq> None \<or> rec_db_size db = 1) \<and> utl_isatty env
      then (case (case recutl_type st of
                    Some t \<Rightarrow> map_option (nth (db_rset_list db)) (rec_db_get_rset_by_type db (Some t))
                  | None \<Rightarrow> rec_db_get_rset db 0) of
              None \<Rightarrow> Returns None
            | Some rset \<Rightarrow>
                if rec_fex_size (rec_rset_confidential rset) > 0 then recutl_getpass (utl_getpass env) False else Returns None)
      else Returns (recsel_password st))"

definition nonempty_password :: "string option \<Rightarrow> string option" where
  "nonempty_password p = (if p = Some [] then None else p)"

definition set_flag :: "bool \<Rightarrow> int \<Rightarrow> int \<Rightarrow> int" where
  "set_flag c f flags = (if c then flags OR f else flags)"

definition recsel_flags :: "recsel_state \<Rightarrow> int" where
  "recsel_flags st =
     set_flag (recsel_uniq st) REC_F_UNIQ (set_flag (recsel_descriptors st) REC_F_DESCRIPTOR
       (set_flag (recutl_insensitive st) REC_F_ICASE 0))"

text \<open>The number of records is printed as an \<open>int\<close>.\<close>

definition recsel_output :: "recsel_state \<Rightarrow> rec_rset \<Rightarrow> string" where
  "recsel_output st rset =
     (if recsel_count st then show_int (int32 (int (rec_rset_num_records rset))) @ [NL]
      else rec_writer_destroy (snd (rec_write_rset rset
             (rec_writer_set_mode (rec_writer_set_skip_comments
                (rec_writer_set_collapse rec_writer_new (recsel_collapse st)) True) (recsel_write_mode st)))))"

definition recsel_process_data :: "utl_env \<Rightarrow> recsel_state \<Rightarrow> rec_db \<Rightarrow> world \<Rightarrow> world run" where
  "recsel_process_data env st db w =
     run_bind (recsel_ask_password env st db) (\<lambda>password.
       if recutl_type st = None \<and> rec_db_size db > 1 then recutl_fatal
       else run_bind
              (defined (rec_db_query (utl_db env) db (recutl_type st) (recsel_join st) (recutl_index (recutl_indexes st))
                 (recutl_sex st) (recutl_quick_str st) (unat (recutl_random st)) (recsel_fex st) (nonempty_password password)
                 (recsel_group_by_fields st) (recutl_sort_by_fields st) (recsel_flags st)))
              (\<lambda>(res, db', sex). case res of
                 None \<Rightarrow> recutl_out_of_memory
               | Some rset \<Rightarrow> Returns (print (recsel_output st rset) w)))"

definition recsel_main :: "utl_env \<Rightarrow> utl_opt list \<Rightarrow> string list \<Rightarrow> world \<Rightarrow> (int \<times> world) run" where
  "recsel_main env opts args w =
     run_bind (recsel_parse_args (utl_ext env) opts) (\<lambda>st.
     run_bind (recutl_build_db (utl_ext env) w args) (\<lambda>odb.
       case odb of
         None \<Rightarrow> Returns (1, w)
       | Some db \<Rightarrow> run_bind (recsel_process_data env st db w) (\<lambda>w'. Returns (0, w'))))"

section \<open>Changing a file\<close>

text \<open>
  The end of \<open>recins\<close>, \<open>recdel\<close>, \<open>recset\<close>: the result of the library is checked, unless \<open>--force\<close> is given,
  and then written back to the file.
\<close>

definition checked_result :: "utl_env \<Rightarrow> bool \<Rightarrow> bool \<Rightarrow> (bool \<times> rec_db \<times> rec_sex option) option \<Rightarrow> rec_db run" where
  "checked_result env force external result =
     run_bind (defined result) (\<lambda>(ok, db, sex).
       if \<not> ok then recutl_out_of_memory
       else if \<not> force then recutl_check_integrity env db external
       else Returns db)"

definition write_result :: "utl_env \<Rightarrow> string option \<Rightarrow> rec_db \<Rightarrow> int prog" where
  "write_result env file db w =
     (if \<not> recutl_file_is_writable env w file then (Returns EXIT_FAILURE, w)
      else prog_bind (recutl_write_db_to_file env db file) (\<lambda>_. prog_run (Returns EXIT_SUCCESS)) w)"

section \<open>recins\<close>

definition recins_ask_password :: "utl_env \<Rightarrow> recins_state \<Rightarrow> rec_db \<Rightarrow> string option run" where
  "recins_ask_password env st db =
     (case map_option (nth (db_rset_list db)) (case recutl_type st of None \<Rightarrow> None | Some t \<Rightarrow> rec_db_get_rset_by_type db (Some t)) of
        None \<Rightarrow> Returns (recins_password st)
      | Some rset \<Rightarrow>
          if rec_fex_size (rec_rset_confidential rset) > 0
          then run_bind
                 (if recins_password st = None \<and> utl_isatty env
                  then run_bind (recutl_getpass (utl_getpass env) True) (\<lambda>p. if p = None then recutl_fatal else Returns p)
                  else Returns (recins_password st))
                 (\<lambda>p. Returns (nonempty_password p))
          else Returns (recins_password st))"

text \<open>The insertion itself, and the insertion with its check.\<close>

definition recins_insert :: "utl_env \<Rightarrow> recins_state \<Rightarrow> rec_db \<Rightarrow> (bool \<times> rec_db \<times> rec_sex option) option run" where
  "recins_insert env st db =
     run_bind (recins_ask_password env st db) (\<lambda>password. Returns
       (rec_db_insert (utl_db env) db (recutl_type st) (recutl_index (recutl_indexes st)) (recutl_sex st) (recutl_quick_str st)
          (unat (recutl_random st)) password (recins_record st)
          (set_flag (\<not> recins_auto st) REC_F_NOAUTO (set_flag (recutl_insensitive st) REC_F_ICASE 0))))"

definition recins_add_new_record :: "utl_env \<Rightarrow> recins_state \<Rightarrow> rec_db \<Rightarrow> rec_db run" where
  "recins_add_new_record env st db =
     run_bind (recins_insert env st db) (checked_result env (recins_force st) (recins_external st))"

text \<open>When the database cannot be read, an empty one takes its place.\<close>

definition recins_read :: "utl_env \<Rightarrow> world \<Rightarrow> string option \<Rightarrow> rec_db run" where
  "recins_read env w file =
     run_bind (recutl_read_db_from_file (utl_ext env) w file) (\<lambda>odb. Returns (case odb of None \<Rightarrow> rec_db_new | Some db \<Rightarrow> db))"

definition recins_main :: "utl_env \<Rightarrow> utl_opt list \<Rightarrow> string list \<Rightarrow> int prog" where
  "recins_main env opts args =
     prog_bind (prog_run (recins_parse_args (utl_ext env) opts args)) (\<lambda>(st, file).
     prog_bind (prog_reads (\<lambda>w. recins_read env w file)) (\<lambda>db.
     prog_bind (prog_run (recins_add_new_record env st db)) (write_result env file)))"

section \<open>recdel\<close>

definition recdel_delete :: "utl_env \<Rightarrow> recdel_state \<Rightarrow> rec_db \<Rightarrow> (bool \<times> rec_db \<times> rec_sex option) option run" where
  "recdel_delete env st db =
     (if \<not> rec_db_type_p db (recutl_type st) then recutl_fatal
      else Returns
             (rec_db_delete (utl_db env) db (recutl_type st) (recutl_index (recutl_indexes st)) (recutl_sex st) (recutl_quick_str st)
                (unat (recutl_random st))
                (set_flag (recdel_comment st) REC_F_COMMENT_OUT (set_flag (recutl_insensitive st) REC_F_ICASE 0))))"

definition recdel_delete_records :: "utl_env \<Rightarrow> recdel_state \<Rightarrow> rec_db \<Rightarrow> rec_db run" where
  "recdel_delete_records env st db =
     run_bind (recdel_delete env st db) (checked_result env (recdel_force st) (recdel_external st))"

text \<open>\<open>recdel\<close> and \<open>recset\<close> end when the database cannot be read.\<close>

definition read_or_fail :: "utl_env \<Rightarrow> world \<Rightarrow> string option \<Rightarrow> rec_db run" where
  "read_or_fail env w file =
     run_bind (recutl_read_db_from_file (utl_ext env) w file) (\<lambda>odb. case odb of None \<Rightarrow> recutl_fatal | Some db \<Rightarrow> Returns db)"

definition recdel_main :: "utl_env \<Rightarrow> utl_opt list \<Rightarrow> string list \<Rightarrow> int prog" where
  "recdel_main env opts args =
     prog_bind (prog_run (recdel_parse_args (utl_ext env) opts args)) (\<lambda>(st, file).
     prog_bind (prog_reads (\<lambda>w. read_or_fail env w file)) (\<lambda>db.
     prog_bind
       (prog_run
         (if recutl_num_indexes (recutl_indexes st) \<noteq> 0 \<or> recutl_sex st \<noteq> None \<or> recutl_quick_str st \<noteq> None
             \<or> recdel_force st \<or> recutl_random st > 0
          then recdel_delete_records env st db else Returns db))
       (write_result env file)))"

section \<open>recset\<close>

text \<open>Without an action nothing is read of the fields and the value, which may be NULL.\<close>

definition recset_set :: "utl_env \<Rightarrow> recset_state \<Rightarrow> rec_db \<Rightarrow> (bool \<times> rec_db \<times> rec_sex option) option" where
  "recset_set env st db =
     rec_db_set (utl_db env) db (recutl_type st) (recutl_index (recutl_indexes st)) (recutl_sex st) (recutl_quick_str st)
       (unat (recutl_random st))
       (case recutl_fex st of Some fex \<Rightarrow> fex | None \<Rightarrow> \<lparr>fex_str = None, fex_elems = []\<rparr>)
       (recset_action st) (case recset_value st of Some v \<Rightarrow> v | None \<Rightarrow> [])
       (set_flag (recutl_insensitive st) REC_F_ICASE 0)"

definition recset_process_actions :: "utl_env \<Rightarrow> recset_state \<Rightarrow> rec_db \<Rightarrow> rec_db run" where
  "recset_process_actions env st db = checked_result env (recset_force st) (recset_external st) (recset_set env st db)"

definition recset_main :: "utl_env \<Rightarrow> utl_opt list \<Rightarrow> string list \<Rightarrow> int prog" where
  "recset_main env opts args =
     prog_bind (prog_run (recset_parse_args (utl_ext env) opts args)) (\<lambda>(st, file).
     prog_bind (prog_reads (\<lambda>w. read_or_fail env w file)) (\<lambda>db.
     prog_bind (prog_run (recset_process_actions env st db)) (write_result env file)))"

section \<open>recfix\<close>

text \<open>The check of the database; it can leave marks and a changed descriptor in it.\<close>

definition recfix_check_database :: "utl_env \<Rightarrow> recfix_state \<Rightarrow> rec_db \<Rightarrow> (bool \<times> rec_db) run" where
  "recfix_check_database env st db =
     run_bind (defined (rec_int_check_db (utl_int env) db True (recfix_external st) rec_buf_new))
       (\<lambda>(db', errors, buf). Returns (errors = 0, db'))"

definition recfix_do_check :: "utl_env \<Rightarrow> recfix_state \<Rightarrow> string option \<Rightarrow> int prog" where
  "recfix_do_check env st file =
     prog_bind (prog_reads (\<lambda>w. recutl_read_db_from_file (utl_ext env) w file)) (\<lambda>odb.
       case odb of
         None \<Rightarrow> prog_run (Returns EXIT_FAILURE)
       | Some db \<Rightarrow>
           prog_bind (prog_run (recfix_check_database env st db))
             (\<lambda>(ok, db'). prog_run (Returns (if ok then EXIT_SUCCESS else EXIT_FAILURE))))"

text \<open>An operation on every record set, by its position.\<close>

fun for_rsets :: "(nat \<Rightarrow> rec_rset \<Rightarrow> rec_rset run) \<Rightarrow> nat list \<Rightarrow> rec_db \<Rightarrow> rec_db run" where
  "for_rsets f [] db = Returns db"
| "for_rsets f (n # ns) db =
     run_bind (f n (db_rset_list db ! n)) (\<lambda>rset. for_rsets f ns (db_put db (Some n) rset))"

definition recfix_do_sort :: "utl_env \<Rightarrow> recfix_state \<Rightarrow> string option \<Rightarrow> int prog" where
  "recfix_do_sort env st file =
     prog_bind (prog_reads (\<lambda>w. recutl_read_db_from_file (utl_ext env) w file)) (\<lambda>odb.
       case odb of
         None \<Rightarrow> prog_run (Returns EXIT_FAILURE)
       | Some db \<Rightarrow>
           prog_bind (prog_run
             (for_rsets (\<lambda>n rset. defined (rec_rset_sort (env_sorted_add (utl_db env)) (utl_ext env) rset None))
                [0..<rec_db_size db] db)) (\<lambda>db1.
           prog_bind (prog_run (recfix_check_database env st db1)) (\<lambda>(ok, db2).
             if \<not> ok then prog_run (Returns EXIT_FAILURE) else write_result env file db2)))"

text \<open>
  The records of a set are encrypted or decrypted in place; \<open>salts\<close> delivers the nonces for the number of
  the set and of the record. A record with encrypted fields ends an encryption, unless it is forced.
\<close>

definition crypt_record :: "utl_env \<Rightarrow> (nat \<Rightarrow> string) \<Rightarrow> recfix_state \<Rightarrow> rec_rset \<Rightarrow> rec_record \<Rightarrow> rec_record run" where
  "crypt_record env salts st rset r =
     (case recfix_password st of
        None \<Rightarrow> Undefined
      | Some password \<Rightarrow>
          if recfix_op st = RECFIX_OP_ENCRYPT
          then run_bind (defined (rec_encrypt_record (env_crypt (utl_db env)) salts rset r password)) (\<lambda>(ok, r').
                 if \<not> ok \<and> \<not> recfix_force st then recutl_fatal else Returns r')
          else run_bind (defined (rec_decrypt_record (env_crypt (utl_db env)) rset r password)) (\<lambda>(ok, r'). Returns r'))"

fun crypt_records ::
  "utl_env \<Rightarrow> (nat \<Rightarrow> nat \<Rightarrow> string) \<Rightarrow> recfix_state \<Rightarrow> nat \<Rightarrow> nat list \<Rightarrow> rec_rset \<Rightarrow> rec_rset run" where
  "crypt_records env salts st num [] rset = Returns rset"
| "crypt_records env salts st num (pos # ps) rset =
     run_bind (crypt_record env (salts num) st rset (rec_at (rset_mset rset) pos))
       (\<lambda>r. crypt_records env salts st (Suc num) ps (rset_set_record rset pos r))"

definition recfix_do_crypt ::
  "utl_env \<Rightarrow> (nat \<Rightarrow> nat \<Rightarrow> nat \<Rightarrow> string) \<Rightarrow> recfix_state \<Rightarrow> string option \<Rightarrow> int prog" where
  "recfix_do_crypt env salts st file =
     prog_bind (prog_reads (\<lambda>w. recutl_read_db_from_file (utl_ext env) w file)) (\<lambda>odb.
       case odb of
         None \<Rightarrow> prog_run (Returns EXIT_FAILURE)
       | Some db \<Rightarrow>
           prog_bind (prog_run
             (for_rsets (\<lambda>n rset. crypt_records env (salts n) st 0 (map fst (rec_rset_records rset)) rset)
                [0..<rec_db_size db] db)) (\<lambda>db1.
           prog_bind (recutl_write_db_to_file env db1 file) (\<lambda>_. prog_run (Returns EXIT_SUCCESS))))"

fun add_autos :: "string \<Rightarrow> nat list \<Rightarrow> rec_rset \<Rightarrow> rec_rset option" where
  "add_autos now [] rset = Some rset"
| "add_autos now (pos # ps) rset =
     Option.bind (rec_rset_add_auto_fields now rset (rec_at (rset_mset rset) pos))
       (\<lambda>r. add_autos now ps (rset_set_record rset pos r))"

definition recfix_do_auto :: "utl_env \<Rightarrow> recfix_state \<Rightarrow> string option \<Rightarrow> int prog" where
  "recfix_do_auto env st file =
     prog_bind (prog_reads (\<lambda>w. recutl_read_db_from_file (utl_ext env) w file)) (\<lambda>odb.
       case odb of
         None \<Rightarrow> prog_run (Returns EXIT_FAILURE)
       | Some db \<Rightarrow>
           prog_bind (prog_run
             (for_rsets (\<lambda>n rset. defined (add_autos (env_now (utl_db env)) (map fst (rec_rset_records rset)) rset))
                [0..<rec_db_size db] db)) (\<lambda>db1.
           prog_bind (prog_run (recfix_check_database env st db1)) (\<lambda>(ok, db2).
             if \<not> ok then prog_run (Returns EXIT_FAILURE)
             else prog_bind (recutl_write_db_to_file env db2 file) (\<lambda>_. prog_run (Returns EXIT_SUCCESS)))))"

definition recfix_main ::
  "utl_env \<Rightarrow> (nat \<Rightarrow> nat \<Rightarrow> nat \<Rightarrow> string) \<Rightarrow> utl_opt list \<Rightarrow> string list \<Rightarrow> int prog" where
  "recfix_main env salts opts args =
     prog_bind (prog_run (recfix_parse_args env opts args)) (\<lambda>(st, file).
       case recfix_op st of
         RECFIX_OP_CHECK \<Rightarrow> recfix_do_check env st file
       | RECFIX_OP_SORT \<Rightarrow> recfix_do_sort env st file
       | RECFIX_OP_AUTO \<Rightarrow> recfix_do_auto env st file
       | RECFIX_OP_ENCRYPT \<Rightarrow> recfix_do_crypt env salts st file
       | RECFIX_OP_DECRYPT \<Rightarrow> recfix_do_crypt env salts st file
       | RECFIX_OP_INVALID \<Rightarrow> prog_run recutl_fatal)"

section \<open>recinf\<close>

text \<open>The text for a descriptor and the text for a record set without \<open>-d\<close>; a NULL type is printed or compared.\<close>

definition descriptor_info :: "recinf_state \<Rightarrow> rec_record option \<Rightarrow> string" where
  "descriptor_info st d =
     (case d of
        Some r \<Rightarrow> rec_writer_destroy (snd (rec_writer_puts [NL] (snd (rec_write_record r
                    (rec_writer_set_mode rec_writer_new (recinf_write_mode st))))))
      | None \<Rightarrow> if recinf_write_mode st = REC_WRITER_NORMAL then ''unknown'' @ [NL] else [])"

definition rset_info :: "recinf_state \<Rightarrow> rec_rset \<Rightarrow> string option" where
  "rset_info st rset =
     (case rset_descriptor rset of
        Some d \<Rightarrow>
          map_option (\<lambda>t. (if recinf_names_only st then [] else show_nat (rec_rset_num_records rset) @ '' '') @ t @ [NL])
            (rec_rset_type rset)
      | None \<Rightarrow> Some (if recinf_names_only st then [] else show_nat (rec_rset_num_records rset) @ [NL]))"

fun info_loop :: "recinf_state \<Rightarrow> nat \<Rightarrow> nat \<Rightarrow> rec_rset list \<Rightarrow> string option" where
  "info_loop st n position [] = Some []"
| "info_loop st n position (rset # rsets) =
     Option.bind
       (case (recinf_type st, rset_descriptor rset) of
          (Some t, Some d) \<Rightarrow> map_option (\<lambda>t'. t' \<noteq> t) (rec_rset_type rset)
        | _ \<Rightarrow> Some False)
       (\<lambda>skip.
          Option.bind
            (if skip then Some []
             else if recinf_descriptor st
             then Some (descriptor_info st (rset_descriptor rset) @ (if position < n - 1 then [NL] else []))
             else rset_info st rset)
            (\<lambda>s. map_option (append s) (info_loop st n (Suc position) rsets)))"

definition print_info_file :: "rec_ext \<Rightarrow> recinf_state \<Rightarrow> string \<Rightarrow> string \<Rightarrow> world \<Rightarrow> (bool \<times> world) run" where
  "print_info_file ext st contents file_name w =
     run_bind (defined (rec_parse_db ext (rec_parser_new contents (Some file_name)))) (\<lambda>(odb, parser).
       case odb of
         None \<Rightarrow> Returns (False, w)
       | Some db \<Rightarrow>
           run_bind (defined (info_loop st (rec_db_size db) 0 (db_rset_list db))) (\<lambda>s. Returns (True, print s w)))"

fun info_files :: "rec_ext \<Rightarrow> recinf_state \<Rightarrow> string list \<Rightarrow> world \<Rightarrow> (int \<times> world) run" where
  "info_files ext st [] w = Returns (EXIT_SUCCESS, w)"
| "info_files ext st (f # fs) w =
     (case world_files w f of
        None \<Rightarrow> Returns (EXIT_FAILURE, print (''error: cannot read file '' @ f @ [NL]) w)
      | Some contents \<Rightarrow>
          run_bind (print_info_file ext st contents f w)
            (\<lambda>(ok, w'). if ok then info_files ext st fs w' else Returns (EXIT_FAILURE, w')))"

definition recinf_main :: "rec_ext \<Rightarrow> utl_opt list \<Rightarrow> string list \<Rightarrow> world \<Rightarrow> (int \<times> world) run" where
  "recinf_main ext opts args w =
     run_bind (getopt_loop recinf_arg opts recinf_init) (\<lambda>st.
       if args \<noteq> [] then info_files ext st args w
       else run_bind (print_info_file ext st (world_stdin w) ''stdin'' w)
              (\<lambda>(ok, w'). Returns (if ok then EXIT_SUCCESS else EXIT_FAILURE, w')))"

end
