(* ===== verification/Rec_Utl_Laws.thy ===== *)
theory Rec_Utl_Laws
  imports Rec_Utl Rec_Utils_Laws
begin

text \<open>
  The code the programs share: when \<open>recutl_yesno\<close> returns, and which records the list of indexes of
  \<open>-n\<close> selects.
\<close>

section \<open>Questions\<close>

definition yesno_answer :: "bool \<Rightarrow> string" where
  "yesno_answer b = (if b then ''yes'' else ''no'')"

definition answer_p :: "string option \<Rightarrow> bool" where
  "answer_p line \<longleftrightarrow> (\<exists>b. line = Some (yesno_answer b))"

lemma answer_p_iff: "answer_p line \<longleftrightarrow> line = Some ''yes'' \<or> line = Some ''no''"
  by (simp add: answer_p_def yesno_answer_def ex_bool_eq)

definition first_answer :: "(nat \<Rightarrow> string option) \<Rightarrow> nat \<Rightarrow> bool \<times> nat \<Rightarrow> bool" where
  "first_answer readline n r \<longleftrightarrow>
     n \<le> snd r \<and> readline (snd r) = Some (yesno_answer (fst r)) \<and> (\<forall>k \<in> {n..<snd r}. \<not> answer_p (readline k))"

lemma yesno_first:
  assumes "recutl_yesno readline n = Some r" shows "first_answer readline n r"
proof (rule recutl_yesno.raw_induct [of first_answer, OF _ assms])
  fix f :: "(nat \<Rightarrow> string option) \<Rightarrow> nat \<Rightarrow> (bool \<times> nat) option" and readline n r
  assume IH: "\<And>readline n r. f readline n = Some r \<Longrightarrow> first_answer readline n r"
    and f: "(if readline n = Some ''yes'' then Some (True, n)
      else if readline n = Some ''no'' then Some (False, n) else f readline (Suc n)) = Some r"
  consider "readline n = Some ''yes''" "r = (True, n)" | "readline n = Some ''no''" "r = (False, n)"
    | "\<not> answer_p (readline n)" "f readline (Suc n) = Some r"
    using f by (auto simp: answer_p_iff split: if_splits)
  then show "first_answer readline n r"
  proof cases
    case 3
    have s: "k = n \<or> k \<in> {Suc n..<m}" if "k \<in> {n..<m}" for k m using that by auto
    from 3 IH [OF 3(2)] show ?thesis by (auto simp: first_answer_def dest: s)
  qed (simp_all add: first_answer_def yesno_answer_def)
qed

lemma yesno_returns:
  assumes "readline m = Some (yesno_answer b)" and "n \<le> m" and "\<forall>k \<in> {n..<m}. \<not> answer_p (readline k)"
  shows "recutl_yesno readline n = Some (b, m)"
  using assms(2,3)
proof (induction n rule: inc_induct)
  case base
  then show ?case using assms(1) by (simp add: recutl_yesno.simps yesno_answer_def)
next
  case (step n)
  then have "\<not> answer_p (readline n)" by simp
  with step show ?case by (subst recutl_yesno.simps) (simp add: answer_p_iff)
qed

text \<open>
  C14. A question is answered by the first line that is exactly \<open>yes\<close> or \<open>no\<close>, and \<open>recutl_yesno\<close> returns
  exactly when there is such a line: at the end of the input it asks forever.
\<close>

theorem yesno_answered:
  "(recutl_yesno readline n = Some (b, m) \<longleftrightarrow>
      n \<le> m \<and> readline m = Some (yesno_answer b) \<and> (\<forall>k \<in> {n..<m}. \<not> answer_p (readline k)))
   \<and> (recutl_yesno readline n \<noteq> None \<longleftrightarrow> (\<exists>k \<ge> n. answer_p (readline k)))"
proof
  show *: "recutl_yesno readline n = Some (b, m) \<longleftrightarrow>
      n \<le> m \<and> readline m = Some (yesno_answer b) \<and> (\<forall>k \<in> {n..<m}. \<not> answer_p (readline k))" for b m
    using yesno_first [of readline n "(b, m)"] yesno_returns by (auto simp: first_answer_def)
  show "recutl_yesno readline n \<noteq> None \<longleftrightarrow> (\<exists>k \<ge> n. answer_p (readline k))"
  proof
    assume "\<exists>k \<ge> n. answer_p (readline k)"
    then obtain k where k: "n \<le> k \<and> answer_p (readline k)" "\<forall>j < k. \<not> (n \<le> j \<and> answer_p (readline j))"
      using exists_least_iff [of "\<lambda>k. n \<le> k \<and> answer_p (readline k)"] by auto
    then obtain b where "readline k = Some (yesno_answer b)" by (auto simp: answer_p_def)
    with k yesno_returns [of readline k b n] show "recutl_yesno readline n \<noteq> None" by auto
  qed (use * in \<open>auto simp: answer_p_def\<close>)
qed

theorem yesno_answered_witness:
  "recutl_yesno (\<lambda>k. if k = 2 then Some ''no'' else Some ''y'') 0 = Some (False, 2)
   \<and> recutl_yesno (\<lambda>k. None) 0 = None"
proof
  show "recutl_yesno (\<lambda>k. if k = 2 then Some ''no'' else Some ''y'') 0 = Some (False, 2)"
    using yesno_answered [of "\<lambda>k. if k = 2 then Some ''no'' else Some ''y''" 0 False 2]
    by (simp add: answer_p_iff yesno_answer_def)
  show "recutl_yesno (\<lambda>k. None) 0 = None"
    using conjunct2 [OF yesno_answered [of "\<lambda>k. None" 0 False 0]] by (cases "recutl_yesno (\<lambda>k. None) 0") (simp_all add: answer_p_iff)
qed

section \<open>Lists of indexes\<close>

text \<open>An entry is a number or a range of numbers, in decimal digits.\<close>

type_synonym index_entry = "string \<times> string option"

definition digits_ok :: "string \<Rightarrow> bool" where
  "digits_ok ds \<longleftrightarrow> ds \<noteq> [] \<and> list_all rec_digit_p ds"

definition index_entry_ok :: "index_entry \<Rightarrow> bool" where
  "index_entry_ok e \<longleftrightarrow> digits_ok (fst e) \<and> (case snd e of None \<Rightarrow> True | Some b \<Rightarrow> digits_ok b)"

definition index_entry_text :: "index_entry \<Rightarrow> string" where
  "index_entry_text e = fst e @ (case snd e of None \<Rightarrow> [] | Some b \<Rightarrow> CHR ''-'' # b)"

fun index_text :: "index_entry list \<Rightarrow> string" where
  "index_text [] = []"
| "index_text [e] = index_entry_text e"
| "index_text (e # es) = index_entry_text e @ CHR '','' # index_text es"

text \<open>Numbers are clamped to a \<open>long\<close>.\<close>

definition index_value :: "string \<Rightarrow> int" where
  "index_value ds = min (2 ^ 63 - 1) (digits_value 10 ds)"

definition entry_selects :: "size_t \<Rightarrow> index_entry \<Rightarrow> bool" where
  "entry_selects n e \<longleftrightarrow>
     (case snd e of
        None \<Rightarrow> uint n = index_value (fst e)
      | Some b \<Rightarrow> index_value (fst e) \<le> uint n \<and> uint n \<le> index_value b)"

definition entry_words :: "index_entry \<Rightarrow> size_t list" where
  "entry_words e =
     [of_int (index_value (fst e)), case snd e of None \<Rightarrow> REC_Q_NOINDEX | Some b \<Rightarrow> of_int (index_value b)]"

lemma digits_value_nonneg: "0 \<le> digits_value base ds"
proof -
  have "0 \<le> n \<Longrightarrow> 0 \<le> foldl (\<lambda>n c. n * int base + int (digit_value c)) n ds" for n
    by (induction ds arbitrary: n) auto
  then show ?thesis by (simp add: digits_value_def)
qed

lemma index_value_word: "uint (of_int (index_value ds) :: size_t) = index_value ds"
  and index_value_not_noindex: "(of_int (index_value ds) :: size_t) \<noteq> REC_Q_NOINDEX"
proof -
  have "0 \<le> index_value ds" "index_value ds < 2 ^ 63"
    using digits_value_nonneg [of 10 ds] by (auto simp: index_value_def)
  then show w: "uint (of_int (index_value ds) :: size_t) = index_value ds"
    by (simp add: uint_word_of_int take_bit_int_eq_self)
  have "uint REC_Q_NOINDEX = 2 ^ 64 - 1" by (simp add: REC_Q_NOINDEX_def unsigned_minus_1_eq_mask mask_eq_exp_minus_1)
  with w \<open>index_value ds < 2 ^ 63\<close> show "(of_int (index_value ds) :: size_t) \<noteq> REC_Q_NOINDEX" by auto
qed

lemma digit_facts: "rec_digit_p c \<Longrightarrow> \<not> isspace c \<and> c \<noteq> CHR ''-'' \<and> c \<noteq> CHR ''+''"
  by (auto simp: letter_range in_range_def isspace_def)

lemma strtol_dec_digits:
  assumes "digits_ok ds" and "t = [] \<or> \<not> rec_digit_p (hd t)"
  shows "strtol_dec (ds @ t) = (index_value ds, t)"
proof -
  obtain c cs where ds: "ds = c # cs" using assms(1) by (cases ds) (auto simp: digits_ok_def)
  have c: "\<not> isspace c" "c \<noteq> CHR ''-''" "c \<noteq> CHR ''+''" using assms(1) digit_facts [of c] by (auto simp: digits_ok_def ds)
  have t: "takeWhile rec_digit_p t = []" "dropWhile rec_digit_p t = t" using assms(2) by (cases t; auto)+
  have l: "\<forall>x \<in> set ds. rec_digit_p x" using assms(1) by (simp add: digits_ok_def list_all_iff)
  have "takeWhile rec_digit_p (ds @ t) = ds" "dropWhile rec_digit_p (ds @ t) = t"
    using l t by (simp_all add: takeWhile_append2 dropWhile_append2)
  moreover have "0 \<le> digits_value 10 ds" by (rule digits_value_nonneg)
  ultimately show ?thesis using c by (simp add: strtol_dec_def ds peek_def index_value_def)
qed

lemma index_entry_text_length: "index_entry_ok e \<Longrightarrow> Suc 0 \<le> length (index_entry_text e)"
  by (cases "fst e") (auto simp: index_entry_ok_def digits_ok_def index_entry_text_def)

lemma index_text_length: "list_all index_entry_ok es \<Longrightarrow> length es \<le> length (index_text es)"
proof (induction es rule: index_text.induct)
  case (2 e)
  then show ?case using index_entry_text_length [of e] by simp
next
  case (3 e e' es)
  then show ?case using index_entry_text_length [of e] by simp
qed simp

lemma put_index_append: "put_index (length ws) n (ws @ x # xs) = Some (ws @ of_int n # xs)"
  by (simp add: put_index_def)

text \<open>One entry fills one pair of the array.\<close>

lemma index_entries_step:
  assumes "index_entry_ok e" and "t = [] \<or> hd t = CHR '',''"
  shows "index_entries (index_entry_text e @ t) (ws @ REC_Q_NOINDEX # REC_Q_NOINDEX # xs) (length ws) =
    (if t = [] then Some (ws @ entry_words e @ xs, length ws + 2)
     else index_entries (tl t) (ws @ entry_words e @ xs) (length ws + 2))"
proof -
  obtain a o1 where e: "e = (a, o1)" by (cases e)
  have nd: "\<not> rec_digit_p CHR ''-''" "\<not> rec_digit_p CHR '',''" by (code_simp, code_simp)
  have t: "t = [] \<or> \<not> rec_digit_p (hd t)" using assms(2) nd by auto
  have pt: "peek t \<noteq> CHR ''-''" using assms(2) by (cases t) (auto simp: peek_def)
  have a: "digits_ok a" using assms(1) by (simp add: e index_entry_ok_def)
  show ?thesis
  proof (cases o1)
    case None
    then show ?thesis
      using strtol_dec_digits [OF a t] pt
      by (subst index_entries.simps) (simp add: e index_entry_text_def entry_words_def put_index_append)
  next
    case (Some b)
    then have b: "digits_ok b" using assms(1) by (simp add: e index_entry_ok_def)
    have "put_index (length ws + 1) n (ws @ w # REC_Q_NOINDEX # xs) = Some (ws @ w # of_int n # xs)" for n w
      by (simp add: put_index_def nth_append list_update_append)
    with Some show ?thesis
      using strtol_dec_digits [OF a, of "CHR ''-'' # b @ t"] strtol_dec_digits [OF b t] nd
      by (subst index_entries.simps) (simp add: e index_entry_text_def entry_words_def put_index_append peek_def)
  qed
qed

lemma index_entries_ok:
  assumes "list_all index_entry_ok es" and "es \<noteq> []"
  shows "index_entries (index_text es) (ws @ replicate (2 * length es + m) REC_Q_NOINDEX) (length ws) =
    Some (ws @ concat (map entry_words es) @ replicate m REC_Q_NOINDEX, length ws + 2 * length es)"
  using assms
proof (induction es arbitrary: ws rule: index_text.induct)
  case (2 e)
  then show ?case using index_entries_step [of e "[]" ws "replicate m REC_Q_NOINDEX"] by simp
next
  case (3 e e' es)
  have len: "length (entry_words e) = 2" by (simp add: entry_words_def)
  have "index_entries (index_text (e # e' # es)) (ws @ replicate (2 * length (e # e' # es) + m) REC_Q_NOINDEX) (length ws) =
    index_entries (index_text (e' # es)) ((ws @ entry_words e) @ replicate (2 * length (e' # es) + m) REC_Q_NOINDEX)
      (length (ws @ entry_words e))"
    using index_entries_step [of e "CHR '','' # index_text (e' # es)" ws "replicate (2 * length (e' # es) + m) REC_Q_NOINDEX"] 3(2)
    by (simp add: len)
  also have "\<dots> = Some ((ws @ entry_words e) @ concat (map entry_words (e' # es)) @ replicate m REC_Q_NOINDEX,
      length (ws @ entry_words e) + 2 * length (e' # es))"
    using 3(1) [of "ws @ entry_words e"] 3(2) by simp
  finally show ?case by (simp add: len)
qed simp

lemma index_p_entries:
  "rec_db_index_p (concat (map entry_words es) @ REC_Q_NOINDEX # REC_Q_NOINDEX # xs) n \<longleftrightarrow> list_ex (entry_selects n) es"
proof (induction es)
  case (Cons e es)
  have "(n = of_int (index_value (fst e))) = (uint n = index_value (fst e))"
    using index_value_word by (metis word_of_int_uint)
  then show ?case
    using Cons index_value_not_noindex
    by (auto simp: entry_words_def entry_selects_def word_le_def index_value_word split: option.splits)
qed simp

text \<open>The strings the regular expression accepts are the texts of lists of entries.\<close>

lemma entry_lang: "re_lang INDEX_LIST_ENTRY_RE s \<longleftrightarrow> (\<exists>e. index_entry_ok e \<and> s = index_entry_text e)"
proof -
  have c: "in_class False [(CHR ''0'', CHR ''9'')] = rec_digit_p" by (auto simp: letter_range in_class_def)
  have "re_lang INDEX_LIST_ENTRY_RE s \<longleftrightarrow>
      (\<exists>a t. s = a @ t \<and> digits_ok a \<and> ((\<exists>b. t = CHR ''-'' # b \<and> digits_ok b) \<or> t = []))"
    unfolding INDEX_LIST_ENTRY_RE_def Let_def re_lang_Seq re_lang_opt re_lang_plus_cls c digits_ok_def by auto
  also have "\<dots> \<longleftrightarrow> (\<exists>e. index_entry_ok e \<and> s = index_entry_text e)"
  proof
    assume "\<exists>a t. s = a @ t \<and> digits_ok a \<and> ((\<exists>b. t = CHR ''-'' # b \<and> digits_ok b) \<or> t = [])"
    then obtain a t where *: "s = a @ t" "digits_ok a" "(\<exists>b. t = CHR ''-'' # b \<and> digits_ok b) \<or> t = []" by blast
    from *(3) show "\<exists>e. index_entry_ok e \<and> s = index_entry_text e"
    proof
      assume "\<exists>b. t = CHR ''-'' # b \<and> digits_ok b"
      then obtain b where "t = CHR ''-'' # b" "digits_ok b" by blast
      with * show ?thesis by (intro exI [of _ "(a, Some b)"]) (simp add: index_entry_ok_def index_entry_text_def)
    next
      assume "t = []"
      with * show ?thesis by (intro exI [of _ "(a, None)"]) (simp add: index_entry_ok_def index_entry_text_def)
    qed
  qed (auto simp: index_entry_ok_def index_entry_text_def split: option.splits)
  finally show ?thesis .
qed

lemma entries_lang:
  "re_lang (Star (Seq INDEX_LIST_ENTRY_RE (re_char CHR '',''))) s \<longleftrightarrow>
     (\<exists>es. list_all index_entry_ok es \<and> s = concat (map (\<lambda>e. index_entry_text e @ '','') es))"
proof
  assume "re_lang (Star (Seq INDEX_LIST_ENTRY_RE (re_char CHR '',''))) s"
  then show "\<exists>es. list_all index_entry_ok es \<and> s = concat (map (\<lambda>e. index_entry_text e @ '','') es)"
  proof (induction "Star (Seq INDEX_LIST_ENTRY_RE (re_char CHR '',''))" s rule: re_lang.induct)
    case (StarCons s t)
    obtain e where "index_entry_ok e" "s = index_entry_text e @ '',''" using StarCons(1) by (auto simp: re_lang_Seq entry_lang)
    moreover obtain es where "list_all index_entry_ok es" "t = concat (map (\<lambda>e. index_entry_text e @ '','') es)" using StarCons(3) by auto
    ultimately show ?case by (intro exI [of _ "e # es"]) simp
  qed (auto intro: exI [of _ "[]"])
next
  assume "\<exists>es. list_all index_entry_ok es \<and> s = concat (map (\<lambda>e. index_entry_text e @ '','') es)"
  then obtain es where "list_all index_entry_ok es" "s = concat (map (\<lambda>e. index_entry_text e @ '','') es)" by blast
  then show "re_lang (Star (Seq INDEX_LIST_ENTRY_RE (re_char CHR '',''))) s"
  proof (induction es arbitrary: s)
    case (Cons e es)
    have "re_lang (Seq INDEX_LIST_ENTRY_RE (re_char CHR '','')) (index_entry_text e @ '','')"
      using Cons.prems(1) by (simp add: re_lang_Seq entry_lang) (metis prod.collapse)
    from re_lang.StarCons [OF this Cons.IH [OF _ refl]] Cons.prems show ?case by simp
  qed (simp add: re_lang.StarNil)
qed

lemma index_text_snoc: "index_text (es @ [e]) = concat (map (\<lambda>e. index_entry_text e @ '','') es) @ index_entry_text e"
proof (induction es)
  case (Cons d es)
  then show ?case by (cases es) auto
qed simp

lemma index_list_lang: "re_match INDEX_LIST_RE s \<longleftrightarrow> (\<exists>es. es \<noteq> [] \<and> list_all index_entry_ok es \<and> s = index_text es)"
proof -
  have "re_match INDEX_LIST_RE s \<longleftrightarrow> (\<exists>es e. list_all index_entry_ok es \<and> index_entry_ok e \<and> s = index_text (es @ [e]))"
    unfolding re_match_iff INDEX_LIST_RE_def re_lang_Seq entries_lang entry_lang index_text_snoc by blast
  also have "\<dots> \<longleftrightarrow> (\<exists>es. es \<noteq> [] \<and> list_all index_entry_ok es \<and> s = index_text es)"
  proof
    assume "\<exists>es. es \<noteq> [] \<and> list_all index_entry_ok es \<and> s = index_text es"
    then obtain es where "es \<noteq> []" "list_all index_entry_ok es" "s = index_text es" by blast
    then show "\<exists>es e. list_all index_entry_ok es \<and> index_entry_ok e \<and> s = index_text (es @ [e])"
      by (cases es rule: rev_cases) auto
  next
    assume "\<exists>es e. list_all index_entry_ok es \<and> index_entry_ok e \<and> s = index_text (es @ [e])"
    then obtain es e where "list_all index_entry_ok (es @ [e])" "s = index_text (es @ [e])" by auto
    then show "\<exists>es. es \<noteq> [] \<and> list_all index_entry_ok es \<and> s = index_text es" by blast
  qed
  finally show ?thesis .
qed

lemma index_list_parsed:
  assumes "list_all index_entry_ok es" and "es \<noteq> []"
  shows "recutl_index_list_parse (index_text es) recutl_reset_indexes =
    Some (True, \<lparr>utl_index_array = Some (concat (map entry_words es)
                   @ replicate (length (index_text es) * 2 - length es * 2 + 2) REC_Q_NOINDEX),
                 utl_indexes_size = 2 * length es\<rparr>)"
proof -
  have len: "length (index_text es) * 2 + 2 = 2 * length es + (length (index_text es) * 2 - length es * 2 + 2)"
    using index_text_length [OF assms(1)] by simp
  show ?thesis
    using index_entries_ok [OF assms, of "[]" "length (index_text es) * 2 - length es * 2 + 2"] index_list_lang assms
    unfolding recutl_index_list_parse_def len by (auto simp: recutl_reset_indexes_def Let_def)
qed

text \<open>
  C13. The list of indexes of \<open>-n\<close>. A list of numbers and ranges is accepted, its pairs fit in the array that
  was allocated for it, the number of indexes is twice the number of entries, and \<open>rec_db_index_p\<close>, which the
  database operations call on the array, selects exactly the numbers and the ranges of the list. Numbers
  are clamped to the largest \<open>long\<close>.
\<close>

theorem index_list_selects:
  assumes "list_all index_entry_ok es" and "es \<noteq> []"
  shows "\<exists>st index. recutl_index_list_parse (index_text es) recutl_reset_indexes = Some (True, st)
    \<and> recutl_num_indexes st = 2 * length es \<and> recutl_index st = Some index
    \<and> (\<forall>n. rec_db_index_p index n \<longleftrightarrow> list_ex (entry_selects n) es)"
  unfolding index_list_parsed [OF assms]
  using index_p_entries by (simp add: recutl_num_indexes_def recutl_index_def numeral_2_eq_2)

theorem index_list_selects_witness:
  "\<exists>st index. recutl_index_list_parse ''0,2-3,7'' recutl_reset_indexes = Some (True, st)
    \<and> recutl_num_indexes st = 6 \<and> recutl_index st = Some index
    \<and> (\<forall>n. rec_db_index_p index n \<longleftrightarrow> uint n \<in> {0, 2, 3, 7})"
proof -
  let ?es = "[(''0'', None), (''2'', Some ''3''), (''7'', None)]"
  have "list_all index_entry_ok ?es" "index_text ?es = ''0,2-3,7''" by code_simp+
  moreover have "list_ex (entry_selects n) ?es \<longleftrightarrow> uint n \<in> {0, 2, 3, 7}" for n
  proof -
    have "index_value ''0'' = 0" "index_value ''2'' = 2" "index_value ''3'' = 3" "index_value ''7'' = 7" by code_simp+
    then show ?thesis by (auto simp: entry_selects_def)
  qed
  ultimately show ?thesis using index_list_selects [of ?es] by simp
qed

end
