(* ===== verification/Rec_Programs_Laws.thy ===== *)
theory Rec_Programs_Laws
  imports Rec_Programs Rec_Utl_Laws Rec_Int_Laws
begin

text \<open>
  The programs as a whole: a database that is written to a file is read back from it, reading a file is
  what \<open>rec_parse_db\<close> does up to duplicated record sets, the programs that change a file write a checked
  database or leave the files alone, and what \<open>recins\<close> does to a file it cannot read.
\<close>

section \<open>Reading a file\<close>

lemma by_type_None: "rec_db_get_rset_by_type db t = None \<longleftrightarrow> t \<notin> set (map rec_rset_type (db_rset_list db))"
  by (auto simp: rec_db_get_rset_by_type_def find_index_None)

definition db_types :: "rec_db \<Rightarrow> string option list" where
  "db_types db = map rec_rset_type (db_rset_list db)"

lemma db_loop_extends:
  "db_loop ext db p = Some (db', p') \<Longrightarrow> rec_db_wf db \<Longrightarrow> \<exists>rsets. db_rset_list db' = db_rset_list db @ rsets"
proof (induction ext db p rule: db_loop.induct)
  case (1 ext new p)
  show ?case
  proof (cases "rec_parse_rset ext (rec_db_size new) p")
    case None
    then show ?thesis using "1.prems"(1) by (subst (asm) db_loop.simps) simp
  next
    case (Some res)
    then obtain orset p1 where res: "rec_parse_rset ext (rec_db_size new) p = Some (orset, p1)" by (cases res) auto
    show ?thesis
    proof (cases orset)
      case None
      then show ?thesis using "1.prems"(1) res by (subst (asm) db_loop.simps) simp
    next
      case (Some rset)
      let ?db = "rec_db_insert_rset new rset (rec_db_size new)"
      have "db_loop ext ?db p1 = Some (db', p')" using "1.prems"(1) res Some by (subst (asm) db_loop.simps) simp
      from "1.IH" [OF res [unfolded Some] refl refl this]
      show ?thesis using insert_rset_last [OF "1.prems"(2), of rset] "1.prems"(2) by auto
    qed
  qed
qed

text \<open>
  Reading record sets into a database goes like the parser as long as the types are new; a type that is there
  already ends the program.
\<close>

lemma parse_db_loop_eq:
  assumes "db_loop ext db p = Some (db', p')" and "rec_db_wf db" and "distinct (db_types db)"
    and "length (filter (\<lambda>t. t = None) (db_types db')) \<le> 1"
  shows "parse_db_loop ext (Some db) p =
    (if distinct (db_types db') then Returns (\<not> rec_parser_error_p p', Some db') else recutl_fatal)"
  using assms
proof (induction ext db p rule: db_loop.induct)
  case (1 ext new p)
  obtain orset p1 where res: "rec_parse_rset ext (rec_db_size new) p = Some (orset, p1)"
    using "1.prems"(1) by (subst (asm) db_loop.simps) (cases "rec_parse_rset ext (rec_db_size new) p"; auto)
  show ?case
  proof (cases orset)
    case None
    then have "db' = new" "p' = p1" using "1.prems"(1) res by (subst (asm) db_loop.simps; simp)+
    then show ?thesis using res None "1.prems"(3) by (subst parse_db_loop.simps) (simp add: defined_def)
  next
    case (Some rset)
    let ?db = "rec_db_insert_rset new rset (rec_db_size new)"
    have l: "db_loop ext ?db p1 = Some (db', p')" using "1.prems"(1) res Some by (subst (asm) db_loop.simps) simp
    have wf: "rec_db_wf ?db" using "1.prems"(2) by simp
    have ts: "db_types ?db = db_types new @ [rec_rset_type rset]"
      using insert_rset_last [OF "1.prems"(2), of rset] by (simp add: db_types_def)
    obtain rsets where rsets: "db_rset_list db' = db_rset_list ?db @ rsets" using db_loop_extends [OF l wf] by blast
    then have ts': "db_types db' = db_types new @ rec_rset_type rset # map rec_rset_type rsets" using ts by (simp add: db_types_def)
    show ?thesis
    proof (cases "rec_rset_type rset \<in> set (db_types new)")
      case True
      then have nd: "\<not> distinct (db_types db')" by (simp add: ts')
      have "rec_rset_type rset \<noteq> None"
      proof
        assume n: "rec_rset_type rset = None"
        then have "filter (\<lambda>t. t = None) (db_types new) \<noteq> []" using True by (auto simp: filter_empty_conv)
        then show False using "1.prems"(4) n by (cases "filter (\<lambda>t. t = None) (db_types new)") (auto simp: ts')
      qed
      moreover obtain i where "rec_db_get_rset_by_type new (rec_rset_type rset) = Some i"
        using True by_type_None [of new "rec_rset_type rset"] by (auto simp: db_types_def)
      ultimately show ?thesis using res Some nd by (subst parse_db_loop.simps) (simp add: defined_def)
    next
      case False
      then have "rec_db_get_rset_by_type new (rec_rset_type rset) = None" by (simp add: by_type_None db_types_def)
      then have "parse_db_loop ext (Some new) p = parse_db_loop ext (Some ?db) p1"
        using res Some by (subst parse_db_loop.simps) (simp add: defined_def)
      also have "\<dots> = (if distinct (db_types db') then Returns (\<not> rec_parser_error_p p', Some db') else recutl_fatal)"
        using "1.prems"(3,4) False ts by (intro "1.IH" [OF res [unfolded Some] refl refl l wf]) simp_all
      finally show ?thesis .
    qed
  qed
qed

text \<open>Reading back what was written keeps the types of the record sets.\<close>

lemma first_field:
  "map_option (\<lambda>(i, f). field_value f) (rec_record_get_field_by_name r n 0) = map_option snd (find (\<lambda>(m, v). m = n) (record_items r))"
proof -
  have "map_option (\<lambda>(i, f). field_value f) (if 0 < length (filter (\<lambda>(i, f). field_name f = n) fs)
      then Some (filter (\<lambda>(i, f). field_name f = n) fs ! 0) else None)
    = map_option snd (find (\<lambda>(m, v). m = n) (map (\<lambda>(i, f). (field_name f, field_value f)) fs))" for fs :: "(nat \<times> rec_field) list"
    by (induction fs) auto
  then show ?thesis by (simp add: rec_record_get_field_by_name_eq record_items_def Let_def)
qed

lemma rec_rset_type_items:
  "rec_rset_type rset = Option.bind (rset_descriptor rset)
     (\<lambda>d. Option.bind (map_option snd (find (\<lambda>(m, v). m = FNAME REC_FIELD_REC) (record_items d))) rec_extract_type)"
  unfolding rec_rset_type_def first_field [symmetric]
  by (auto simp: map_option_case bind_eq_Some_conv split: option.splits intro!: arg_cong2 [of _ _ _ _ Option.bind])

lemma rset_sim_type:
  assumes "rset_sim rset rset'" and "rset_writable ext b rset"
  shows "rec_rset_type rset' = rec_rset_type rset"
proof (cases "rset_descriptor rset")
  case None
  then show ?thesis using assms(1) by (auto simp: rset_sim_def rec_rset_type_def)
next
  case (Some d)
  then obtain d' where d': "rset_descriptor rset' = Some d'" "record_sim d d'"
    using assms(1) by (auto simp: rset_sim_def option_rel_Some1)
  moreover have "rec_record_wf d" using assms(2) Some by (simp add: rset_writable_def writable_def)
  ultimately show ?thesis using record_sim_items [OF d'(2)] by (simp add: rec_rset_type_items Some)
qed

lemma sim_types:
  assumes "db_writable ext db" and "list_all2 rset_sim (db_rset_list db) (db_rset_list db')"
  shows "db_types db' = db_types db"
proof -
  have "list_all2 (\<lambda>rset rset'. rec_rset_type rset' = rec_rset_type rset) (db_rset_list db) (db_rset_list db')"
  proof (rule list_all2I)
    show "\<forall>(rset, rset') \<in> set (zip (db_rset_list db) (db_rset_list db')). rec_rset_type rset' = rec_rset_type rset"
    proof (clarify)
      fix rset rset' assume z: "(rset, rset') \<in> set (zip (db_rset_list db) (db_rset_list db'))"
      then have "rset_sim rset rset'" using assms(2) by (auto simp: list_all2_iff)
      moreover have "\<exists>b. rset_writable ext b rset"
        using assms(1) set_zip_leftD [OF z] by (fastforce simp: db_writable_def list_all_iff split: list.splits)
      ultimately show "rec_rset_type rset' = rec_rset_type rset" using rset_sim_type by blast
    qed
  qed (use assms(2) in \<open>simp add: list_all2_lengthD\<close>)
  then show ?thesis unfolding db_types_def by (induction rule: list_all2_induct) auto
qed

text \<open>A parser on a file with the text of a database, and the text that is written to a file.\<close>

lemma new_file_ready:
  assumes "plain s" and "length s < 2 ^ 64"
  shows "ready (rec_parser_new s src)" and "rest (rec_parser_new s src) = s" and "parser_prev_descriptor (rec_parser_new s src) = None"
  using assms by (simp_all add: ready_def rest_def rec_parser_new_def rec_parser_init_common_def)

lemma parse_written:
  assumes "db_writable ext db" and "length (blocks (db_items db)) < 2 ^ 64"
  shows "\<exists>db' q. rec_parse_db ext (rec_parser_new (blocks (db_items db)) src) = Some (Some db', q)
    \<and> parser_error q = REC_PARSER_NOERROR \<and> rec_db_wf db' \<and> list_all2 rset_sim (db_rset_list db) (db_rset_list db')
    \<and> db_types db' = db_types db \<and> blocks (db_items db') = blocks (db_items db) \<and> db_plain db'"
proof -
  note r = new_file_ready [OF db_writable_items(3) [OF assms(1)] assms(2), of src]
  obtain db' q where p: "rec_parse_db ext (rec_parser_new (blocks (db_items db)) src) = Some (Some db', q)"
    "parser_error q = REC_PARSER_NOERROR" "rec_db_wf db'" "list_all2 rset_sim (db_rset_list db) (db_rset_list db')"
    using db_parse_ok [OF assms(1) r] by blast
  with db_sim_text [OF p(4) assms(1) p(3)] sim_types [OF assms(1) p(4)] show ?thesis by blast
qed

lemma db_output_text:
  assumes "db_plain db" shows "db_output db = blocks (db_items db)"
proof -
  have w0: "wrote_text [] rec_writer_new rec_writer_new"
    by (simp add: wrote_text_def writer_ok_def wflags_def rec_writer_new_def rec_writer_new_common_def)
  from write_rsets_wrote [OF _ w0, of "db_rset_list db" 0] assms show ?thesis
    by (auto simp: db_plain_def rec_write_db_def db_items_def wrote_text_def db_output_def rec_writer_destroy_def
        rec_writer_new_def rec_writer_new_common_def split: if_splits)
qed



text \<open>
  C9. A file keeps a database. Writing a database of record sets of different types to a file, when its
  whole text reaches the disk, replaces the contents of the file and nothing else; reading the file gives a
  database with the same record sets, records and comments, and writing that to the file changes nothing.
\<close>

theorem write_read_file:
  assumes "db_writable (utl_ext env) db" and "length (blocks (db_items db)) < 2 ^ 64" and "distinct (db_types db)"
    and "utl_mkstemp env" and "utl_rename env f" and "utl_written env (blocks (db_items db)) = blocks (db_items db)"
  shows "\<exists>w' db'. recutl_write_db_to_file env db (Some f) w = (Returns (), w')
    \<and> w' = w\<lparr>world_files := (world_files w)(f \<mapsto> blocks (db_items db))\<rparr>
    \<and> recutl_read_db_from_file (utl_ext env) w' (Some f) = Returns (Some db')
    \<and> rec_db_wf db' \<and> list_all2 rset_sim (db_rset_list db) (db_rset_list db')
    \<and> recutl_write_db_to_file env db' (Some f) w' = (Returns (), w')"
proof -
  let ?w = "w\<lparr>world_files := (world_files w)(f \<mapsto> blocks (db_items db))\<rparr>"
  obtain db' q where p: "rec_parse_db (utl_ext env) (rec_parser_new (blocks (db_items db)) (Some f)) = Some (Some db', q)"
    "parser_error q = REC_PARSER_NOERROR" "rec_db_wf db'" "list_all2 rset_sim (db_rset_list db) (db_rset_list db')"
    "db_types db' = db_types db" "blocks (db_items db') = blocks (db_items db)" "db_plain db'"
    using parse_written [OF assms(1,2)] by blast
  have one: "length (filter (\<lambda>t. t = None) (db_types db')) \<le> 1"
  proof -
    have "distinct (filter (\<lambda>t. t = None) (db_types db'))" using assms(3) p(5) by simp
    moreover have "set (filter (\<lambda>t. t = None) (db_types db')) \<subseteq> {None}" by auto
    ultimately show ?thesis by (metis card_mono distinct_card finite.emptyI finite.insertI is_singletonI is_singleton_altdef)
  qed
  have d: "db_loop (utl_ext env) rec_db_new (rec_parser_new (blocks (db_items db)) (Some f)) = Some (db', q)"
    using p(1) by (auto simp: rec_parse_db_def split: if_splits)
  have "recutl_parse_db_from_file (utl_ext env) (blocks (db_items db)) f (Some rec_db_new) = Returns (True, Some db')"
    using parse_db_loop_eq [OF d rec_db_new_wf _ one] assms(3) p(2,5)
    by (simp add: recutl_parse_db_from_file_def rec_parser_error_p_def db_types_def rec_db_new_def)
  then have "recutl_read_db_from_file (utl_ext env) ?w (Some f) = Returns (Some db')"
    by (simp add: recutl_read_db_from_file_def)
  moreover have "recutl_write_db_to_file env db (Some f) w = (Returns (), ?w)" "recutl_write_db_to_file env db' (Some f) ?w = (Returns (), ?w)"
    using assms(4-6) p(6,7) db_writable_items(2) [OF assms(1)] by (simp_all add: recutl_write_db_to_file_def db_output_text)
  ultimately show ?thesis using p(3,4) by blast
qed

definition sample_utl_env :: utl_env where
  "sample_utl_env = \<lparr>utl_db = sample_db_env\<lparr>env_sex := sample_env\<lparr>ext_parse_datetime := ext_parse_datetime sample_ext\<rparr>\<rparr>,
     utl_int = sample_int_env, utl_euidaccess = (\<lambda>f. True), utl_mkstemp = True, utl_written = id,
     utl_rename = (\<lambda>f. True), utl_isatty = False, utl_getpass = (\<lambda>n. None)\<rparr>"

definition sample_world :: world where
  "sample_world = \<lparr>world_files = Map.empty, world_stdin = [], world_stdout = []\<rparr>"

definition sample_shelf :: rec_db where
  "sample_shelf = rec_db_insert_rset rec_db_new sample_books 0"

lemma sample_utl_ext: "utl_ext sample_utl_env = sample_ext"
  by (simp add: sample_utl_env_def sample_db_env_def sample_env_def sample_ext_def rec_ext.defs)

lemma sample_shelf_writable: "db_writable sample_ext sample_shelf"
proof -
  have "rset_writable sample_ext True sample_books"
    using sample_db_writable by (simp add: db_writable_def sample_db_def rec_db_insert_rset_def rec_db_new_def)
  then show ?thesis by (simp add: db_writable_def sample_shelf_def rec_db_insert_rset_def rec_db_new_def rec_db_wf_def)
qed

lemma sample_shelf_text: "length (blocks (db_items sample_shelf)) < 2 ^ 64" "db_types sample_shelf = [Some ''Book'']"
proof -
  have "length (blocks (db_items sample_shelf)) < 100" by code_simp
  then show "length (blocks (db_items sample_shelf)) < 2 ^ 64" by simp
  show "db_types sample_shelf = [Some ''Book'']" by code_simp
qed

theorem write_read_file_witness:
  "\<exists>w' db'. recutl_write_db_to_file sample_utl_env sample_shelf (Some ''a.rec'') sample_world = (Returns (), w')
    \<and> w' = sample_world\<lparr>world_files := (world_files sample_world)(''a.rec'' \<mapsto> blocks (db_items sample_shelf))\<rparr>
    \<and> recutl_read_db_from_file (utl_ext sample_utl_env) w' (Some ''a.rec'') = Returns (Some db')
    \<and> rec_db_wf db' \<and> list_all2 rset_sim (db_rset_list sample_shelf) (db_rset_list db')
    \<and> recutl_write_db_to_file sample_utl_env db' (Some ''a.rec'') w' = (Returns (), w')"
  by (rule write_read_file) (simp_all only: sample_utl_ext sample_shelf_writable sample_shelf_text, simp_all add: sample_utl_env_def)

section \<open>Changing a file\<close>

text \<open>The world after a database was written: the file is replaced by what reached the disk.\<close>

definition written_world :: "utl_env \<Rightarrow> rec_db \<Rightarrow> string option \<Rightarrow> world \<Rightarrow> world" where
  "written_world env db file w =
     (case file of
        None \<Rightarrow> print (db_output db) w
      | Some f \<Rightarrow> w\<lparr>world_files := (world_files w)(f \<mapsto> utl_written env (db_output db))\<rparr>)"

lemma write_result_world:
  assumes "write_result env file db w = (r, w')"
  shows "r = Returns EXIT_SUCCESS \<and> w' = written_world env db file w \<and> (\<forall>f. file = Some f \<longrightarrow> world_files w f \<noteq> None)
    \<or> r \<noteq> Returns EXIT_SUCCESS \<and> r \<noteq> Undefined \<and> w' = w"
  using assms
  by (auto simp: write_result_def recutl_write_db_to_file_def recutl_file_is_writable_def prog_bind_def prog_run_def
       written_world_def recutl_fatal_def EXIT_SUCCESS_def EXIT_FAILURE_def Let_def split: if_splits option.splits)

text \<open>The programs that change a file, what their options say, and what they do to the database they read.\<close>

datatype program = Recins | Recdel | Recset

fun program_main :: "program \<Rightarrow> utl_env \<Rightarrow> utl_opt list \<Rightarrow> string list \<Rightarrow> int prog" where
  "program_main Recins = recins_main"
| "program_main Recdel = recdel_main"
| "program_main Recset = recset_main"

fun program_args :: "program \<Rightarrow> rec_ext \<Rightarrow> utl_opt list \<Rightarrow> string list \<Rightarrow> (bool \<times> bool \<times> string option) run" where
  "program_args Recins ext opts args =
     run_bind (recins_parse_args ext opts args) (\<lambda>(st, file). Returns (recins_force st, recins_external st, file))"
| "program_args Recdel ext opts args =
     run_bind (recdel_parse_args ext opts args) (\<lambda>(st, file). Returns (recdel_force st, recdel_external st, file))"
| "program_args Recset ext opts args =
     run_bind (recset_parse_args ext opts args) (\<lambda>(st, file). Returns (recset_force st, recset_external st, file))"

fun program_operation ::
  "program \<Rightarrow> utl_env \<Rightarrow> utl_opt list \<Rightarrow> string list \<Rightarrow> world \<Rightarrow> (bool \<times> rec_db \<times> rec_sex option) option run" where
  "program_operation Recins env opts args w =
     run_bind (recins_parse_args (utl_ext env) opts args) (\<lambda>(st, file). run_bind (recins_read env w file) (recins_insert env st))"
| "program_operation Recdel env opts args w =
     run_bind (recdel_parse_args (utl_ext env) opts args) (\<lambda>(st, file). run_bind (read_or_fail env w file) (recdel_delete env st))"
| "program_operation Recset env opts args w =
     run_bind (recset_parse_args (utl_ext env) opts args) (\<lambda>(st, file).
       run_bind (read_or_fail env w file) (\<lambda>db. Returns (recset_set env st db)))"

text \<open>\<open>recdel\<close> has a selection, or it is forced, when its options are accepted.\<close>

lemma recdel_selects:
  assumes "recdel_parse_args ext opts args = Returns (st, file)"
  shows "recutl_num_indexes (recutl_indexes st) \<noteq> 0 \<or> recutl_sex st \<noteq> None \<or> recutl_quick_str st \<noteq> None
    \<or> recdel_force st \<or> recutl_random st > 0"
  using assms
  by (auto simp: recdel_parse_args_def run_bind_Returns word_gt_0 split: if_splits option.splits prod.splits)

text \<open>The three programs have the same shape: options, operation, check, and then the file.\<close>

lemma program_main_shape:
  "program_main prog env opts args w =
     (case run_bind (program_args prog (utl_ext env) opts args) (\<lambda>(force, external, file).
             run_bind (program_operation prog env opts args w) (\<lambda>result.
             run_bind (checked_result env force external result) (\<lambda>db. Returns (file, db)))) of
        Returns (file, db) \<Rightarrow> write_result env file db w
      | Exits n \<Rightarrow> (Exits n, w)
      | Undefined \<Rightarrow> (Undefined, w))"
proof (cases prog)
  case Recins
  show ?thesis
    by (cases "recins_parse_args (utl_ext env) opts args")
       (auto simp: Recins recins_main_def recins_add_new_record_def prog_run_bind prog_reads_bind run_bind_def split: run.splits)
next
  case Recdel
  show ?thesis
    using recdel_selects [of "utl_ext env" opts args]
    by (cases "recdel_parse_args (utl_ext env) opts args")
       (auto simp: Recdel recdel_main_def recdel_delete_records_def prog_run_bind prog_reads_bind run_bind_def split: run.splits)
next
  case Recset
  show ?thesis
    by (cases "recset_parse_args (utl_ext env) opts args")
       (auto simp: Recset recset_main_def recset_process_actions_def prog_run_bind prog_reads_bind run_bind_def split: run.splits)
qed

lemma checked_result_Returns:
  "checked_result env force external result = Returns db \<longleftrightarrow>
     (\<exists>db0 sex. result = Some (True, db0, sex)
       \<and> (if force then db = db0
          else \<exists>k buf. rec_int_check_db (utl_int env) db0 True external rec_buf_new = Some (db, k, buf) \<and> k \<le> 0))"
proof -
  have check: "recutl_check_integrity env db0 external = Returns db \<longleftrightarrow>
      (\<exists>k buf. rec_int_check_db (utl_int env) db0 True external rec_buf_new = Some (db, k, buf) \<and> k \<le> 0)" for db0
    by (cases "rec_int_check_db (utl_int env) db0 True external rec_buf_new")
       (auto simp: recutl_check_integrity_def defined_def split: if_splits)
  show ?thesis
  proof (cases result)
    case (Some x)
    obtain ok db0 sex where x: "x = (ok, db0, sex)" by (cases x)
    show ?thesis by (cases ok; cases force) (auto simp: checked_result_def defined_def Some x check)
  qed (simp add: checked_result_def defined_def)
qed

lemma changed_file_checked_aux:
  assumes "program_main prog env opts args w = (r, w')"
  shows "r \<noteq> Returns EXIT_SUCCESS \<and> w' = w
    \<or> r = Returns EXIT_SUCCESS
      \<and> (\<exists>force external file db0 sex db. program_args prog (utl_ext env) opts args = Returns (force, external, file)
           \<and> program_operation prog env opts args w = Returns (Some (True, db0, sex))
           \<and> (if force then db = db0
              else \<exists>k buf. rec_int_check_db (utl_int env) db0 True external rec_buf_new = Some (db, k, buf) \<and> k \<le> 0)
           \<and> (\<forall>f. file = Some f \<longrightarrow> world_files w f \<noteq> None) \<and> w' = written_world env db file w)"
proof -
  let ?run = "run_bind (program_args prog (utl_ext env) opts args) (\<lambda>(force, external, file).
             run_bind (program_operation prog env opts args w) (\<lambda>result.
             run_bind (checked_result env force external result) (\<lambda>db. Returns (file, db))))"
  show ?thesis
  proof (cases ?run)
    case (Returns x)
    then obtain force external fo result db where x: "x = (fo, db)"
      "program_args prog (utl_ext env) opts args = Returns (force, external, fo)"
      "program_operation prog env opts args w = Returns result" "checked_result env force external result = Returns db"
      by (auto simp: run_bind_Returns)
    have "write_result env fo db w = (r, w')" using assms Returns x(1) by (simp add: program_main_shape)
    from write_result_world [OF this] x(2-4) show ?thesis unfolding checked_result_Returns by blast
  next
    case (Exits n)
    then show ?thesis using assms unfolding program_main_shape Exits by auto
  next
    case Undefined
    then show ?thesis using assms unfolding program_main_shape Undefined by auto
  qed
qed

text \<open>
  C8. \<open>recins\<close>, \<open>recdel\<close> and \<open>recset\<close> replace the file (or print) only with a checked result. A run that does not
  end with success, by returning a failure or by ending early, leaves the world as it was, and nothing is
  written before a step whose behaviour is undefined. A run that ends with success has
  read the database, the operation its options ask for (\<open>rec_db_insert\<close>, \<open>rec_db_delete\<close>, \<open>rec_db_set\<close>) has
  succeeded on it with a result \<open>db0\<close>, and the world is as before but for the file, which exists and now has
  the text of \<open>db0\<close> when \<open>--force\<close> is given, and else the text of what the integrity check of \<open>db0\<close>, which has
  counted no error, leaves of it. Of the text the file has what reached the disk.
\<close>

theorem changed_file_checked:
  assumes "program_main prog env opts args w = (r, w')"
  shows "r \<noteq> Returns EXIT_SUCCESS \<and> w' = w
    \<or> r = Returns EXIT_SUCCESS
      \<and> (\<exists>force external file db0 sex db. program_args prog (utl_ext env) opts args = Returns (force, external, file)
           \<and> program_operation prog env opts args w = Returns (Some (True, db0, sex))
           \<and> (if force then db = db0
              else \<exists>k buf. rec_int_check_db (utl_int env) db0 True external rec_buf_new = Some (db, k, buf) \<and> k \<le> 0)
           \<and> (\<forall>f. file = Some f \<longrightarrow> world_files w f \<noteq> None) \<and> w' = written_world env db file w)"
  using changed_file_checked_aux [OF assms] .

lemma prog_ends:
  assumes "case p of (Returns s, w') \<Rightarrow> P s w' | _ \<Rightarrow> False"
  shows "\<exists>s w'. p = (Returns s, w') \<and> P s w'"
proof -
  obtain r w' where p: "p = (r, w')" by fastforce
  then show ?thesis using assms by (cases r) auto
qed

definition sample_file :: "string \<Rightarrow> world" where
  "sample_file s = sample_world\<lparr>world_files := [''a.rec'' \<mapsto> s]\<rparr>"

theorem changed_file_checked_witness:
  "\<exists>w' db0 sex db k buf. recdel_main sample_utl_env [NO_EXTERNAL_ARG, NUM_ARG ''0''] [''a.rec''] (sample_file (''A: 1'' @ [NL, NL] @ ''A: 2'' @ [NL]))
      = (Returns EXIT_SUCCESS, w')
    \<and> world_files w' ''a.rec'' = Some (''A: 2'' @ [NL])
    \<and> program_operation Recdel sample_utl_env [NO_EXTERNAL_ARG, NUM_ARG ''0''] [''a.rec''] (sample_file (''A: 1'' @ [NL, NL] @ ''A: 2'' @ [NL]))
        = Returns (Some (True, db0, sex))
    \<and> rec_int_check_db (utl_int sample_utl_env) db0 True False rec_buf_new = Some (db, k, buf) \<and> k \<le> 0"
proof -
  let ?opts = "[NO_EXTERNAL_ARG, NUM_ARG ''0'']" and ?w = "sample_file (''A: 1'' @ [NL, NL] @ ''A: 2'' @ [NL])"
  have "case recdel_main sample_utl_env ?opts [''a.rec''] ?w of
      (Returns s, w') \<Rightarrow> s = EXIT_SUCCESS \<and> world_files w' ''a.rec'' = Some (''A: 2'' @ [NL]) | _ \<Rightarrow> False" by code_simp
  from prog_ends [OF this]
  obtain w' where r: "recdel_main sample_utl_env ?opts [''a.rec''] ?w = (Returns EXIT_SUCCESS, w')"
    "world_files w' ''a.rec'' = Some (''A: 2'' @ [NL])" by blast
  have "case program_args Recdel (utl_ext sample_utl_env) ?opts [''a.rec''] of
      Returns r \<Rightarrow> r = (False, False, Some ''a.rec'') | _ \<Rightarrow> False" by code_simp
  with changed_file_checked [of Recdel, OF r(1) [folded program_main.simps]] r show ?thesis by (fastforce split: run.splits)
qed

text \<open>An empty file is an empty database.\<close>

lemma db_loop_aggregates: "db_loop ext db p = Some (db', p') \<Longrightarrow> db_aggregates db' = db_aggregates db"
proof (induction ext db p rule: db_loop.induct)
  case (1 ext new p)
  obtain orset p1 where res: "rec_parse_rset ext (rec_db_size new) p = Some (orset, p1)"
    using "1.prems" by (subst (asm) db_loop.simps) (cases "rec_parse_rset ext (rec_db_size new) p"; auto)
  show ?case
  proof (cases orset)
    case None
    then show ?thesis using "1.prems" res by (subst (asm) db_loop.simps) simp
  next
    case (Some rset)
    then have "db_loop ext (rec_db_insert_rset new rset (rec_db_size new)) p1 = Some (db', p')"
      using "1.prems" res by (subst (asm) db_loop.simps) simp
    from "1.IH" [OF res [unfolded Some] refl refl this] show ?thesis by (simp add: rec_db_insert_rset_def)
  qed
qed

lemma read_empty_file: "recutl_parse_db_from_file ext [] f (Some rec_db_new) = Returns (True, Some rec_db_new)"
proof -
  have w: "db_writable ext rec_db_new" "blocks (db_items rec_db_new) = []"
    by (simp_all add: db_writable_def rec_db_new_def db_items_def rec_db_wf_def)
  obtain db q where p: "rec_parse_db ext (rec_parser_new [] (Some f)) = Some (Some db, q)" "parser_error q = REC_PARSER_NOERROR"
    "rec_db_wf db" "list_all2 rset_sim [] (db_rset_list db)"
    using parse_written [OF w(1), of "Some f"] w(2) by (auto simp: rec_db_new_def)
  have d: "db_loop ext rec_db_new (rec_parser_new [] (Some f)) = Some (db, q)"
    using p(1) by (auto simp: rec_parse_db_def split: if_splits)
  have db: "db = rec_db_new" using p(3,4) db_loop_aggregates [OF d] by (cases db) (simp add: rec_db_new_def rec_db_wf_def)
  show ?thesis
    using parse_db_loop_eq [OF d rec_db_new_wf] p(2)
    by (simp add: recutl_parse_db_from_file_def rec_parser_error_p_def db db_types_def rec_db_new_def)
qed

text \<open>
  C11. \<open>recins\<close> takes a file it cannot parse for an empty one. A run on it ends in the same way as a run on an
  empty file, and when that is success it leaves the same world: the contents of the file are lost, it
  has only the new record. When it is not, the file stays as it is. A missing file is not created: such a
  run never ends with success and changes nothing.
\<close>

theorem recins_replaces_unparsable:
  assumes "world_files w f = Some contents"
    and "recutl_parse_db_from_file (utl_ext env) contents f (Some rec_db_new) = Returns (False, odb)"
    and "recins_main env opts [f] w = (r, w')"
    and "recins_main env opts [f] (w\<lparr>world_files := (world_files w)(f \<mapsto> [])\<rparr>) = (r0, w0)"
  shows "r = r0 \<and> (r = Returns EXIT_SUCCESS \<longrightarrow> w' = w0) \<and> (r \<noteq> Returns EXIT_SUCCESS \<longrightarrow> w' = w)
    \<and> (\<exists>r1. recins_main env opts [f] (w\<lparr>world_files := (world_files w)(f := None)\<rparr>)
              = (r1, w\<lparr>world_files := (world_files w)(f := None)\<rparr>) \<and> r1 \<noteq> Returns EXIT_SUCCESS)"
proof -
  let ?w0 = "w\<lparr>world_files := (world_files w)(f \<mapsto> [])\<rparr>" and ?w1 = "w\<lparr>world_files := (world_files w)(f := None)\<rparr>"
  have read: "recins_read env w (Some f) = Returns rec_db_new" "recins_read env ?w0 (Some f) = Returns rec_db_new"
    using assms(1,2) read_empty_file [of "utl_ext env" f] by (simp_all add: recins_read_def recutl_read_db_from_file_def)
  have args: "recins_parse_args (utl_ext env) opts [f] = Returns (st, fo) \<Longrightarrow> fo = Some f" for st fo
    by (auto simp: recins_parse_args_def run_bind_Returns file_operand_def split: if_splits)
  have wr: "fst (write_result env (Some f) db w) = fst (write_result env (Some f) db ?w0)
      \<and> (fst (write_result env (Some f) db w) = Returns EXIT_SUCCESS \<longrightarrow>
           snd (write_result env (Some f) db w) = snd (write_result env (Some f) db ?w0))" for db
    using assms(1)
    by (auto simp: write_result_def recutl_write_db_to_file_def recutl_file_is_writable_def prog_bind_def prog_run_def
        recutl_fatal_def EXIT_SUCCESS_def EXIT_FAILURE_def Let_def)
  have "fst (recins_main env opts [f] w) = fst (recins_main env opts [f] ?w0)
      \<and> (fst (recins_main env opts [f] w) = Returns EXIT_SUCCESS \<longrightarrow>
           snd (recins_main env opts [f] w) = snd (recins_main env opts [f] ?w0))"
    using args read wr
    by (auto simp: recins_main_def prog_run_bind prog_reads_bind split: run.splits)
  moreover obtain r1 w1 where m: "recins_main env opts [f] ?w1 = (r1, w1)" by fastforce
  moreover have "r1 \<noteq> Returns EXIT_SUCCESS \<and> w1 = ?w1"
  proof -
    have "fo = Some f" if "program_args Recins (utl_ext env) opts [f] = Returns (force, external, fo)" for force external fo
      using that args by (auto simp: run_bind_Returns)
    then show ?thesis using changed_file_checked_aux [of Recins env opts "[f]" ?w1 r1 w1] m by fastforce
  qed
  ultimately show ?thesis
    using assms(3,4) changed_file_checked_aux [of Recins env opts "[f]" w r w'] by auto
qed

theorem recins_replaces_unparsable_witness:
  "\<exists>w'. recins_main sample_utl_env [NAME_ARG ''B'', VALUE_ARG ''x''] [''a.rec''] (sample_file (''A: 1'' @ [NL] @ ''A'' @ [NL]))
      = (Returns EXIT_SUCCESS, w') \<and> world_files w' ''a.rec'' = Some (''B: x'' @ [NL])"
proof -
  let ?opts = "[NAME_ARG ''B'', VALUE_ARG ''x'']" and ?s = "''A: 1'' @ [NL] @ ''A'' @ [NL]"
  let ?w0 = "(sample_file ?s)\<lparr>world_files := (world_files (sample_file ?s))(''a.rec'' \<mapsto> [])\<rparr>"
  have f: "world_files (sample_file ?s) ''a.rec'' = Some ?s" by (simp add: sample_file_def)
  have "case recutl_parse_db_from_file (utl_ext sample_utl_env) ?s ''a.rec'' (Some rec_db_new) of
      Returns (ok, odb) \<Rightarrow> \<not> ok | _ \<Rightarrow> False" by code_simp
  then obtain odb where p: "recutl_parse_db_from_file (utl_ext sample_utl_env) ?s ''a.rec'' (Some rec_db_new) = Returns (False, odb)"
    by (auto split: run.splits prod.splits)
  have "case recins_main sample_utl_env ?opts [''a.rec''] ?w0 of
      (Returns s, w') \<Rightarrow> s = EXIT_SUCCESS \<and> world_files w' ''a.rec'' = Some (''B: x'' @ [NL]) | _ \<Rightarrow> False" by code_simp
  from prog_ends [OF this]
  obtain w0 where r0: "recins_main sample_utl_env ?opts [''a.rec''] ?w0 = (Returns EXIT_SUCCESS, w0)"
    "world_files w0 ''a.rec'' = Some (''B: x'' @ [NL])" by blast
  obtain r w' where r: "recins_main sample_utl_env ?opts [''a.rec''] (sample_file ?s) = (r, w')" by fastforce
  from recins_replaces_unparsable [OF f p r r0(1)] r r0(2) show ?thesis by auto
qed

end
