(* ===== verification/Rec_Convert.thy ===== *)
theory Rec_Convert
  imports Rec_Programs Rec_Csv_Tools Rec_Fmt
begin

text \<open>
  The converters as programs: the options and operands of \<open>src/utils/csv2rec.c\<close>, \<open>src/utils/rec2csv.c\<close> and
  \<open>src/utils/recfmt.c\<close>, and their \<open>main\<close> functions over what \<open>Rec_Csv_Tools\<close> and \<open>Rec_Fmt\<close> model.
\<close>

section \<open>csv2rec\<close>

datatype csv2rec_opt = Csv2rec_common utl_opt | RECORD_TYPE_ARG string | STRICT_ARG | OMIT_EMPTY_ARG

definition csv2rec_init :: csv2rec_opts where
  "csv2rec_init = \<lparr>csv2rec_record_type = None, csv2rec_csv_file = None, csv2rec_strict = False, csv2rec_omit_empty = False\<rparr>"

definition csv2rec_arg :: "csv2rec_opt \<Rightarrow> csv2rec_opts \<Rightarrow> csv2rec_opts run" where
  "csv2rec_arg opt st =
     (case opt of
        RECORD_TYPE_ARG optarg \<Rightarrow> Returns (st\<lparr>csv2rec_record_type := Some optarg\<rparr>)
      | STRICT_ARG \<Rightarrow> Returns (st\<lparr>csv2rec_strict := True\<rparr>)
      | OMIT_EMPTY_ARG \<Rightarrow> Returns (st\<lparr>csv2rec_omit_empty := True\<rparr>)
      | Csv2rec_common c \<Rightarrow> COMMON_ARGS_CASES c)"

definition csv2rec_parse_args :: "csv2rec_opt list \<Rightarrow> string list \<Rightarrow> csv2rec_opts run" where
  "csv2rec_parse_args opts args =
     run_bind (getopt_loop csv2rec_arg opts csv2rec_init) (\<lambda>st.
     run_bind (file_operand args) (\<lambda>file. Returns (st\<lparr>csv2rec_csv_file := file\<rparr>)))"

text \<open>A file that cannot be opened ends the program; \<open>realloc\<close> says which sizes can be allocated.\<close>

definition csv2rec_program :: "(nat \<Rightarrow> bool) \<Rightarrow> csv2rec_opt list \<Rightarrow> string list \<Rightarrow> world \<Rightarrow> (int \<times> world) run" where
  "csv2rec_program realloc opts args w =
     run_bind (csv2rec_parse_args opts args) (\<lambda>st.
       case (case csv2rec_csv_file st of Some f \<Rightarrow> world_files w f | None \<Rightarrow> Some (world_stdin w)) of
         None \<Rightarrow> recutl_fatal
       | Some input \<Rightarrow>
           (case csv2rec_main realloc st input of
              Inl Csv_undefined \<Rightarrow> Undefined
            | Inl (Csv_exit _) \<Rightarrow> recutl_fatal
            | Inr (status, out) \<Rightarrow> Returns (status, print out w)))"

section \<open>rec2csv\<close>

text \<open>The labels of the long option \<open>--type\<close> and of \<open>-d\<close> stand before the same statements.\<close>

datatype rec2csv_opt = Rec2csv_common utl_opt | Type_long string | Type_short string | Delim_short string | Sort_fields string

record rec2csv_opts =
  rec2csv_record_type :: "string option"
  rec2csv_sort_by_fields :: "rec_fex option"
  rec2csv_delim :: char

definition rec2csv_init :: rec2csv_opts where
  "rec2csv_init = \<lparr>rec2csv_record_type = None, rec2csv_sort_by_fields = None, rec2csv_delim = CHR '',''\<rparr>"

definition rec2csv_arg :: "rec2csv_opt \<Rightarrow> rec2csv_opts \<Rightarrow> rec2csv_opts run" where
  "rec2csv_arg opt st =
     (case opt of
        Type_long optarg \<Rightarrow> Returns (st\<lparr>rec2csv_delim := peek optarg\<rparr>)
      | Delim_short optarg \<Rightarrow> Returns (st\<lparr>rec2csv_delim := peek optarg\<rparr>)
      | Type_short optarg \<Rightarrow> Returns (st\<lparr>rec2csv_record_type := Some optarg\<rparr>)
      | Sort_fields optarg \<Rightarrow>
          if rec2csv_sort_by_fields st \<noteq> None then recutl_fatal
          else run_bind (field_list_arg optarg REC_FEX_CSV) (\<lambda>fex. Returns (st\<lparr>rec2csv_sort_by_fields := Some fex\<rparr>))
      | Rec2csv_common c \<Rightarrow> COMMON_ARGS_CASES c)"

definition rec2csv_program :: "utl_env \<Rightarrow> rec2csv_opt list \<Rightarrow> string list \<Rightarrow> world \<Rightarrow> (int \<times> world) run" where
  "rec2csv_program env opts args w =
     run_bind (getopt_loop rec2csv_arg opts rec2csv_init) (\<lambda>st.
     run_bind (recutl_build_db (utl_ext env) w args) (\<lambda>odb.
       case odb of
         None \<Rightarrow> Returns (1, w)
       | Some db \<Rightarrow>
           run_bind (defined (rec2csv_process_data (env_sorted_add (utl_db env)) (utl_ext env) (rec2csv_record_type st)
                                (rec2csv_sort_by_fields st) (rec2csv_delim st) db))
             (\<lambda>out. Returns (0, print out w))))"

section \<open>recfmt\<close>

datatype recfmt_opt = Recfmt_common utl_opt | FILE_ARG string

definition recutl_read_file :: "world \<Rightarrow> string \<Rightarrow> string option" where
  "recutl_read_file w file_name = world_files w file_name"

text \<open>The template is a C string: it ends at the first NUL of the file.\<close>

definition recfmt_arg :: "world \<Rightarrow> recfmt_opt \<Rightarrow> string option \<Rightarrow> string option run" where
  "recfmt_arg w opt template =
     (case opt of
        FILE_ARG optarg \<Rightarrow>
          (case recutl_read_file w optarg of None \<Rightarrow> recutl_fatal | Some s \<Rightarrow> Returns (Some (strdup s)))
      | Recfmt_common c \<Rightarrow> COMMON_ARGS_CASES c)"

definition recfmt_parse_args :: "world \<Rightarrow> recfmt_opt list \<Rightarrow> string list \<Rightarrow> string option run" where
  "recfmt_parse_args w opts args =
     run_bind (getopt_loop (recfmt_arg w) opts None) (\<lambda>template.
       if args = [] then Returns template
       else if template \<noteq> None then recutl_fatal
       else file_operand args)"

text \<open>Without a database or without a template nothing is done, and the status is that of a success.\<close>

definition recfmt_main :: "sex_env \<Rightarrow> recfmt_opt list \<Rightarrow> string list \<Rightarrow> world \<Rightarrow> (int \<times> world) run" where
  "recfmt_main env opts args w =
     run_bind (recfmt_parse_args w opts args) (\<lambda>otemplate.
     run_bind (recutl_read_db_from_file (rec_ext.truncate env) w None) (\<lambda>odb.
       case (odb, otemplate) of
         (Some db, Some template) \<Rightarrow>
           (case recfmt_process_db env db template of
              Ok out \<Rightarrow> Returns (EXIT_SUCCESS, print out w)
            | Fail \<Rightarrow> recutl_fatal
            | Undef \<Rightarrow> Undefined)
       | _ \<Rightarrow> Returns (EXIT_SUCCESS, w)))"

section \<open>What the options of rec2csv do\<close>

text \<open>\<open>--type\<close> sets the delimiter, and the type of the record set is never taken from it.\<close>

lemma long_type_is_delimiter: "rec2csv_arg (Type_long s) st = rec2csv_arg (Delim_short s) st"
  by (simp add: rec2csv_arg_def)

end
