(* ===== verification/Rec_Mdb.thy ===== *)
theory Rec_Mdb
  imports Rec_Convert Rec_Db_Join
begin

text \<open>
  \<open>src/utils/mdb2rec.c\<close>: an Access database becomes a rec database. \<open>libmdb\<close> is not part of the sources: what
  its functions deliver for a file is a value of \<open>mdb_file\<close>, the catalog with the columns and the fetched
  rows of every table, and the fetched rows of the table of relationships.
\<close>

section \<open>What libmdb delivers\<close>

datatype mdb_col_type =
    MDB_BOOL | MDB_BYTE | MDB_INT | MDB_LONGINT | MDB_MONEY | MDB_FLOAT | MDB_DOUBLE | MDB_DATETIME | MDB_TEXT | MDB_OLE
  | MDB_MEMO | MDB_REPID | MDB_NUMERIC | MDB_OTHER

record mdb_column =
  col_name :: string
  col_type :: mdb_col_type
  col_size :: int

text \<open>A row has the bytes that are bound to each column.\<close>

record mdb_entry =
  object_name :: string
  object_table_p :: bool
  mdb_user_table_p :: bool
  mdb_columns :: "mdb_column list"
  mdb_rows :: "string list list"

text \<open>The columns of a row of the table of relationships that are bound by name.\<close>

record msys_relationship =
  szColumn :: string
  szObject :: string
  szReferencedColumn :: string
  szReferencedObject :: string

record relationship_s =
  rel_table :: string
  rel_column :: string
  rel_referenced_table :: string
  rel_referenced_column :: string

record mdb_file =
  mdb_catalog :: "mdb_entry list option"
  msys_relationships :: "msys_relationship list option"

section \<open>Options\<close>

datatype mdb2rec_opt = Mdb2rec_common utl_opt | SYSTEM_TABLES_ARG | KEEP_EMPTY_FIELDS_ARG | LIST_TABLES_ARG

record mdb2rec_opts =
  mdb2rec_mdb_file :: "string option"
  mdb2rec_mdb_table :: "string option"
  mdb2rec_include_system :: bool
  mdb2rec_keep_empty_fields :: bool
  mdb2rec_list_tables :: bool

definition mdb2rec_init :: mdb2rec_opts where
  "mdb2rec_init = \<lparr>mdb2rec_mdb_file = None, mdb2rec_mdb_table = None, mdb2rec_include_system = False,
     mdb2rec_keep_empty_fields = False, mdb2rec_list_tables = False\<rparr>"

definition mdb2rec_arg :: "mdb2rec_opt \<Rightarrow> mdb2rec_opts \<Rightarrow> mdb2rec_opts run" where
  "mdb2rec_arg opt st =
     (case opt of
        SYSTEM_TABLES_ARG \<Rightarrow> Returns (st\<lparr>mdb2rec_include_system := True\<rparr>)
      | KEEP_EMPTY_FIELDS_ARG \<Rightarrow> Returns (st\<lparr>mdb2rec_keep_empty_fields := True\<rparr>)
      | LIST_TABLES_ARG \<Rightarrow> Returns (st\<lparr>mdb2rec_list_tables := True\<rparr>)
      | Mdb2rec_common c \<Rightarrow> COMMON_ARGS_CASES c)"

definition mdb2rec_parse_args :: "mdb2rec_opt list \<Rightarrow> string list \<Rightarrow> mdb2rec_opts run" where
  "mdb2rec_parse_args opts args =
     run_bind (getopt_loop mdb2rec_arg opts mdb2rec_init) (\<lambda>st.
       case args of
         [] \<Rightarrow> Returns st
       | [f] \<Rightarrow> Returns (st\<lparr>mdb2rec_mdb_file := Some f\<rparr>)
       | [f, t] \<Rightarrow> Returns (st\<lparr>mdb2rec_mdb_file := Some f, mdb2rec_mdb_table := Some t\<rparr>)
       | _ \<Rightarrow> Exits EXIT_FAILURE)"

section \<open>Relationships\<close>

text \<open>
  The rows of the table \<open>MsysRelationships\<close>, when there is one. As many rows are fetched as the table says it
  has.
\<close>

definition get_relationships :: "mdb_file \<Rightarrow> relationship_s list" where
  "get_relationships mdb =
     (case msys_relationships mdb of
        None \<Rightarrow> []
      | Some rows \<Rightarrow>
          map (\<lambda>row. \<lparr>rel_table = strdup (szObject row), rel_column = strdup (szColumn row),
                      rel_referenced_table = strdup (szReferencedObject row),
                      rel_referenced_column = strdup (szReferencedColumn row)\<rparr>) rows)"

section \<open>Tables\<close>

definition normalised :: "string \<Rightarrow> string run" where
  "normalised s = (case rec_field_name_normalise s of None \<Rightarrow> recutl_fatal | Some n \<Rightarrow> Returns n)"

text \<open>The first relationship of the column is looked up, but only the name of the column is used.\<close>

definition get_field_name :: "relationship_s list \<Rightarrow> string \<Rightarrow> string \<Rightarrow> string run" where
  "get_field_name relationships table_name column_name =
     run_bind
       (case find (\<lambda>r. rel_table r = table_name \<and> rel_column r = column_name) relationships of
          None \<Rightarrow> Returns ''''
        | Some r \<Rightarrow> run_bind (normalised (rel_referenced_table r)) (\<lambda>t. normalised (rel_referenced_column r)))
       (\<lambda>_. normalised column_name)"

text \<open>The value of a \<open>%type\<close> field, at most 255 characters; an empty one is not written.\<close>

definition type_value :: "string \<Rightarrow> mdb_column \<Rightarrow> string" where
  "type_value n col =
     take 255
       (case col_type col of
          MDB_BOOL \<Rightarrow> n @ '' bool''
        | MDB_BYTE \<Rightarrow> n @ '' range 256''
        | MDB_INT \<Rightarrow> n @ '' int'' | MDB_LONGINT \<Rightarrow> n @ '' int'' | MDB_NUMERIC \<Rightarrow> n @ '' int''
        | MDB_MONEY \<Rightarrow> n @ '' real'' | MDB_FLOAT \<Rightarrow> n @ '' real'' | MDB_DOUBLE \<Rightarrow> n @ '' real''
        | MDB_DATETIME \<Rightarrow> n @ '' date''
        | MDB_TEXT \<Rightarrow> if col_size col > 0 then n @ '' size '' @ show_int (col_size col) else []
        | _ \<Rightarrow> [])"

fun add_types :: "mdb_column list \<Rightarrow> rec_record \<Rightarrow> rec_record run" where
  "add_types [] record = Returns record"
| "add_types (col # cols) record =
     run_bind (normalised (col_name col)) (\<lambda>n.
       add_types cols
         (if type_value n col \<noteq> [] then record_append_field record (rec_field_new ''%type'' (type_value n col)) MSET_ANY
          else record))"

text \<open>
  The fields of a row. The variable \<open>column_name\<close> is set in the loop over the columns before and never in this
  one.
\<close>

fun add_cells ::
  "mdb2rec_opts \<Rightarrow> relationship_s list \<Rightarrow> string \<Rightarrow> string \<Rightarrow> (mdb_column \<times> string) list \<Rightarrow> rec_record \<Rightarrow> rec_record run" where
  "add_cells opts rels table_name column_name [] record = Returns record"
| "add_cells opts rels table_name column_name ((col, bytes) # cells) record =
     (let v = strdup bytes in
      if col_type col = MDB_OLE \<or> \<not> (mdb2rec_keep_empty_fields opts \<or> v \<noteq> [])
      then add_cells opts rels table_name column_name cells record
      else run_bind (get_field_name rels table_name column_name) (\<lambda>n.
             add_cells opts rels table_name column_name cells (record_append_field record (rec_field_new n v) MSET_ANY)))"

fun add_rows ::
  "mdb2rec_opts \<Rightarrow> relationship_s list \<Rightarrow> mdb_entry \<Rightarrow> nat \<Rightarrow> string list list \<Rightarrow> rec_rset \<Rightarrow> rec_rset run" where
  "add_rows opts rels entry addr [] rset = Returns rset"
| "add_rows opts rels entry addr (row # rows) rset =
     run_bind (add_cells opts rels (object_name entry) (if mdb_columns entry = [] then [] else col_name (last (mdb_columns entry)))
                 (zip (mdb_columns entry) row) rec_record_new)
       (\<lambda>record. add_rows opts rels entry addr rows
                    (rset_append_record rset (rec_record_set_container record (Some addr)) MSET_ANY))"

definition process_table :: "rec_ext \<Rightarrow> mdb2rec_opts \<Rightarrow> relationship_s list \<Rightarrow> mdb_entry \<Rightarrow> nat \<Rightarrow> rec_rset run" where
  "process_table ext opts rels entry addr =
     run_bind (normalised (object_name entry)) (\<lambda>n.
     run_bind (add_types (mdb_columns entry) (record_append_field rec_record_new (rec_field_new ''%rec'' n) MSET_ANY)) (\<lambda>descr.
     run_bind (defined (rec_rset_set_descriptor ext rec_rset_new (Some descr)))
       (add_rows opts rels entry addr (mdb_rows entry))))"

section \<open>The program\<close>

text \<open>
  The tables one after the other, with the names that are printed. The normalised name is read when it is
  compared or printed, also when it is NULL.
\<close>

fun process_catalog ::
  "rec_ext \<Rightarrow> mdb2rec_opts \<Rightarrow> relationship_s list \<Rightarrow> mdb_entry list \<Rightarrow> rec_db \<Rightarrow> string \<Rightarrow> (rec_db \<times> string) run" where
  "process_catalog ext opts rels [] db out = Returns (db, out)"
| "process_catalog ext opts rels (entry # entries) db out =
     run_bind
       (if \<not> object_table_p entry \<or> \<not> (mdb_user_table_p entry \<or> mdb2rec_include_system opts) then Returns False
        else case mdb2rec_mdb_table opts of
               None \<Rightarrow> Returns True
             | Some t \<Rightarrow> run_bind (defined (rec_field_name_normalise (object_name entry))) (\<lambda>n. Returns (t = n)))
       (\<lambda>chosen.
          if \<not> chosen then process_catalog ext opts rels entries db out
          else if mdb2rec_list_tables opts
          then run_bind (defined (rec_field_name_normalise (object_name entry)))
                 (\<lambda>n. process_catalog ext opts rels entries db (out @ n @ [NL]))
          else run_bind (process_table ext opts rels entry (rec_db_size db))
                 (\<lambda>rset. process_catalog ext opts rels entries (rec_db_insert_rset db rset (rec_db_size db)) out))"

text \<open>\<open>mdb_open\<close> of a NULL file name is undefined.\<close>

definition process_mdb :: "rec_ext \<Rightarrow> (string \<Rightarrow> mdb_file option) \<Rightarrow> mdb2rec_opts \<Rightarrow> (rec_db \<times> string) run" where
  "process_mdb ext mdb_open opts =
     run_bind (defined (mdb2rec_mdb_file opts)) (\<lambda>f.
       case mdb_open f of
         None \<Rightarrow> recutl_fatal
       | Some mdb \<Rightarrow>
           (case mdb_catalog mdb of
              None \<Rightarrow> recutl_fatal
            | Some catalog \<Rightarrow> process_catalog ext opts (get_relationships mdb) catalog rec_db_new []))"

definition mdb2rec_main :: "rec_ext \<Rightarrow> (string \<Rightarrow> mdb_file option) \<Rightarrow> mdb2rec_opt list \<Rightarrow> string list \<Rightarrow> world \<Rightarrow> (int \<times> world) run" where
  "mdb2rec_main ext mdb_open opts args w =
     run_bind (mdb2rec_parse_args opts args) (\<lambda>st.
     run_bind (process_mdb ext mdb_open st) (\<lambda>(db, out).
       Returns (EXIT_SUCCESS, print (db_output db) (print out w))))"

section \<open>The names of the fields\<close>

text \<open>All fields of a row have the same name, the one of the last column.\<close>

lemma append_field_keys:
  assumes "rec_record_wf r" and "rec_field_wf f"
  shows "fkeys (record_append_field r f MSET_ANY) = fkeys r @ [(field_name f, field_value f)]"
  using append_field_ok(2) [OF assms] by (simp add: fkeys_elems elem_fields_def List.map_filter_def as_field_def)

lemma add_cells_names:
  assumes "add_cells opts rels t c cells r = Returns r'" and "rec_record_wf r"
    and "rec_field_name_normalise c = Some n" and "list_all (\<lambda>(m, v). m = strdup n) (fkeys r)"
  shows "rec_record_wf r' \<and> list_all (\<lambda>(m, v). m = strdup n) (fkeys r')"
  using assms(1,2,4)
proof (induction cells arbitrary: r)
  case (Cons cell cells)
  obtain col bytes where cell: "cell = (col, bytes)" by (cases cell)
  have n: "m = n" if "get_field_name rels t c = Returns m" for m
    using that assms(3) by (auto simp: get_field_name_def normalised_def run_bind_Returns)
  let ?f = "rec_field_new n (strdup bytes)"
  have f: "rec_field_wf ?f" "field_name ?f = strdup n" by (simp_all add: rec_field_new_def field_op_defs rec_field_wf_def)
  show ?case
  proof (cases "col_type col = MDB_OLE \<or> \<not> (mdb2rec_keep_empty_fields opts \<or> strdup bytes \<noteq> [])")
    case True
    then show ?thesis using Cons.IH [of r] Cons.prems by (simp add: cell Let_def)
  next
    case False
    then have "add_cells opts rels t c cells (record_append_field r ?f MSET_ANY) = Returns r'"
      using Cons.prems(1) n by (auto simp: cell Let_def run_bind_Returns)
    then show ?thesis
      using Cons.IH append_field_ok(1) [OF Cons.prems(2) f(1)] append_field_keys [OF Cons.prems(2) f(1)] Cons.prems(3) f(2) by simp
  qed
qed simp

end
