(* ===== verification/Spec2Isabelle.thy ===== *)
theory Spec2Isabelle
  imports Rec_Int_Laws Rec_Roundtrip Rec_Parser_Names Rec_Utils_Laws Rec_Fex_Laws Rec_Types_Laws Rec_Types_Reg
    Rec_Sex_Laws Rec_Sex_Eval_Laws Rec_Rset_Descr Rec_Csv_Tools_Laws Rec_Fmt_Laws
    Rec_Options_Laws Rec_Programs_Laws Rec_Mdb
begin

text \<open>
  GNU recutils stores plain-text databases. This development models its library \<open>librec\<close>
  (\<open>src/src/\<close>), the CSV reader it carries (\<open>src/libcsv/\<close>) and its programs (\<open>src/utils/\<close>), and proves what
  makes them correct.

  The program. Text is read by a parser into databases: a database is a list of record sets, a
  record set a multi-set of records and comments with a record descriptor, a record a multi-set of
  fields and comments. Descriptors declare types, keys, sizes and constraints. Selection
  expressions choose records, field expressions choose fields, and the database operations query,
  insert, delete, set and join records, and integrity checks compare a database with its
  descriptors. A writer prints every level back as text. The programs read their options, load
  databases from files, call the library and print a result or replace the file.

  Theories and sources, in the order of their dependencies:
  \<^item> \<open>Rec_Prelude\<close>: C strings, characters, printing of numbers, shared lemmas.
  \<^item> \<open>Rec_Buf\<close>: \<open>rec-buf.c\<close>, growing character buffers.
  \<^item> \<open>Rec_Field\<close>: \<open>rec-field.c\<close>, \<open>rec-comment.c\<close>, \<open>rec-field-name.c\<close>.
  \<^item> \<open>Rec_Mset\<close>, \<open>Rec_Mset_Laws\<close>, \<open>Rec_Typed_Mset\<close>: \<open>rec-mset.c\<close>, ordered multi-sets with
    registered element types; the sequence they implement, as a locale that records and record
    sets interpret.
  \<^item> \<open>Rec_Record\<close>, \<open>Rec_Record_Laws\<close>: \<open>rec-record.c\<close>.
  \<^item> \<open>Rec_Writer\<close>, \<open>Rec_Writer_Laws\<close>, \<open>Rec_Writer_Rset\<close>: \<open>rec-writer.c\<close>, all modes, and the text it writes.
  \<^item> \<open>Rec_Parser\<close>, \<open>Rec_Parser_Laws\<close>, \<open>Rec_Parser_Records\<close>, \<open>Rec_Parser_Names\<close>, \<open>Rec_Parser_Rset\<close>:
    \<open>rec-parser.c\<close>, from characters to databases.
  \<^item> \<open>Rec_Roundtrip\<close>, \<open>Rec_Db_Roundtrip\<close>: writing and parsing back, for records and for databases.
  \<^item> \<open>Rec_Regex\<close>, \<open>Rec_Utils\<close>, \<open>Rec_Utils_Laws\<close>: the regular expressions of the sources, matched
    leftmost-longest by derivatives, and \<open>rec-utils.c\<close>.
  \<^item> \<open>Rec_Fex\<close>, \<open>Rec_Fex_Laws\<close>: \<open>rec-fex.c\<close>, field expressions.
  \<^item> \<open>Rec_Types\<close>, \<open>Rec_Types_Laws\<close>, \<open>Rec_Types_Reg\<close>: \<open>rec-types.c\<close>, types and the type registry.
  \<^item> \<open>Rec_Sex\<close>, \<open>Rec_Sex_Laws\<close>, \<open>Rec_Sex_Eval\<close>, \<open>Rec_Sex_Eval_Laws\<close>: \<open>rec-sex-lex.l\<close>,
    \<open>rec-sex-tab.y\<close>, \<open>rec-sex-ast.c\<close>, \<open>rec-sex-parser.c\<close>, \<open>rec-sex.c\<close>, selection expressions.
  \<^item> \<open>Rec_Rset\<close>, \<open>Rec_Rset_Core\<close>, \<open>Rec_Rset_Laws\<close>, \<open>Rec_Rset_Descr\<close>: \<open>rec-rset.c\<close>, record sets.
  \<^item> \<open>Rec_Aggregate\<close>: \<open>rec-aggregate.c\<close>; \<open>Rec_Crypt\<close>, \<open>Rec_Crypt_Laws\<close>: \<open>rec-crypt.c\<close>.
  \<^item> \<open>Rec_Db\<close>, \<open>Rec_Db_Ops\<close>: \<open>rec-db.c\<close>, the list of record sets and its operations; \<open>Rec_Db_Laws\<close>,
    \<open>Rec_Db_Change\<close>, \<open>Rec_Db_Join\<close>: what a query, a random sample, a deletion, an insertion and a join do.
  \<^item> \<open>Rec_Int\<close>, \<open>Rec_Int_Laws\<close>: \<open>rec-int.c\<close>, the integrity checks, and the conditions they decide.
  \<^item> \<open>Rec_Csv\<close>, \<open>Rec_Csv_Laws\<close>: \<open>libcsv.c\<close>, the reader as a state machine over its entry buffer and the
    reader on strings it implements; \<open>Rec_Csv_Tools\<close>, \<open>Rec_Csv_Tools_Laws\<close>: \<open>csv2rec.c\<close>, \<open>rec2csv.c\<close>.
  \<^item> \<open>Rec_Fmt\<close>, \<open>Rec_Fmt_Laws\<close>: \<open>recfmt.c\<close>, templates.
  \<^item> \<open>Rec_Utl\<close>, \<open>Rec_Utl_Laws\<close>: \<open>recutl.c\<close>, what the programs share; \<open>Rec_Options\<close>, \<open>Rec_Options_Laws\<close>:
    \<open>recutl.h\<close> and the options of the programs; \<open>Rec_Programs\<close>, \<open>Rec_Programs_Laws\<close>: \<open>recsel.c\<close>,
    \<open>recins.c\<close>, \<open>recdel.c\<close>, \<open>recset.c\<close>, \<open>recfix.c\<close>, \<open>recinf.c\<close>; \<open>Rec_Convert\<close>: the options and \<open>main\<close>
    functions of \<open>csv2rec.c\<close>, \<open>rec2csv.c\<close> and \<open>recfmt.c\<close>; \<open>Rec_Mdb\<close>: \<open>mdb2rec.c\<close>.

  Conventions. A structure is a record, its operations have the names of the C functions, a loop
  has a definition of its own. A pointer into a container is a position; a \<open>const char **\<close>
  argument is the rest of the string; a function pointer is the name of a C function, resolved in
  an environment. A pointer that may be NULL is an option. Machine integers are kept where their
  width matters: \<open>size_t\<close> is a 64-bit word or written out modulo \<open>2 ^ 64\<close>, \<open>int\<close> has 32 bits.
  Undefined behaviour of the source is a value of its own (\<open>None\<close> or \<open>Undef\<close>), so that theorems
  about results also state where the code is defined. Memory allocation is assumed to succeed,
  except in the CSV reader, where it is a parameter, and local buffers of a fixed size do not overflow.
  A program that ends early is a value too: a \<open>run\<close> returns, exits with a status, or is undefined, and a
  \<open>prog\<close>, which can change files, leaves a world in each of these cases.

  What comes from outside is a parameter: conversions between text and doubles, dates, the user's
  regular expressions (\<open>rec_ext\<close>, \<open>sex_env\<close>), gnulib's sorted insertion, AES, base64 and CRC-32 and the
  bytes behind a string in memory (\<open>crypt_env\<close>), random numbers and the clock (\<open>db_env\<close>), remote
  descriptors (\<open>int_env\<close>), the file system, how much of a text reaches the disk, the terminal and the
  options \<open>getopt_long\<close> delivers (\<open>utl_env\<close>, \<open>world\<close>), the contents of MDB files as \<open>libmdb\<close> delivers
  them (\<open>mdb_file\<close>). Theorems that need a law of such a parameter have it as a hypothesis and a witness
  with a concrete function.

  Termination. Loops are recursive functions with termination proofs: the parser's loops by the
  input that remains, the loops over multi-sets by the elements that remain, lookups in the type
  registry by the entries not yet visited, the loop over a template by its rest. The question of
  \<open>recutl_yesno\<close> may be asked forever: it is a partial function. The model has no fuel that could run
  out: where a counter bounds a recursion (\<open>remove_while\<close>) it is the number of fields to remove.

  What is proved. Round trips: records, databases and files through writer and parser, field
  expressions, type descriptions, selection expressions, encrypted fields, record sets through CSV.
  Invariants: multi-sets keep exact counts, parsed records are well-formed and located, accepted
  options select in one way. Refinement: multi-sets implement sequences, grouping implements the
  grouping of consecutive equal records, the CSV reader implements a reader on strings for every
  input, and does not depend on how the input is cut into blocks. Safety and bounds: the CSV reader
  stays in its buffer, a database without integrity errors is consistent, the programs write a
  checked result or nothing, a generated integer is not a value that is there, a random sample has the size asked for.
  Functional behaviour: queries, deletion, insertion, join, values of types, typed comparison,
  registry lookup with circular synonyms, evaluation of selection expressions over repeated fields,
  descriptors, templates, lists of indexes. Equivalence: a record passes the checks exactly when it
  satisfies its descriptor, reading a file is parsing its text. Liveness: when a question returns.
  Errors: the counts that sorting breaks, the file \<open>recins\<close> loses.

  Not modelled: help and version texts, messages on the standard error, the getters and destructors of
  the structures (a selector of a record, and nothing), the start-up of libgcrypt (\<open>rec.c\<close>), the
  bindings for bash and Python (glue of those interpreters), and the unit tests.
\<close>

section \<open>Sample data for the witnesses\<close>

definition sample_record :: rec_record where
  "sample_record = record_add (record_add (record_add rec_record_new
       MSET_FIELD (DField (rec_field_new ''Name'' (''Ada'' @ NL # ''Lovelace''))))
       MSET_COMMENT (DComment '' first''))
       MSET_FIELD (DField (rec_field_new ''Year'' ''1815''))"

definition sample_text :: string where
  "sample_text = ''Name: Ada'' @ [NL] @ ''+ Lovelace'' @ [NL] @ ''# first'' @ [NL] @ ''Year: 1815'' @ [NL, NL] @ ''A: b'' @ [NL]"

definition sample_parser :: rec_parser where
  "sample_parser = rec_parser_new_str sample_text (Some ''sample.rec'')"

lemma sample_record_wf: "rec_record_wf sample_record"
  unfolding sample_record_def by (intro record_add_wf) (simp_all add: record_elem_ok_def)

lemma sample_record_data: "record_data sample_record =
  [DField (rec_field_new ''Name'' (''Ada'' @ NL # ''Lovelace'')), DComment '' first'', DField (rec_field_new ''Year'' ''1815'')]"
  by code_simp

lemma sample_record_writable: "writable sample_record"
  unfolding writable_def sample_record_data using sample_record_wf
  by (simp add: field_ok_def field_op_defs fname_char_def rec_parser_letter_p_def rec_parser_digit_p_def schar_def)

lemma sample_record_text: "record_text sample_record @ NL # NL # ''A: b'' @ [NL] = sample_text"
  by code_simp

lemma sample_record_length: "length (record_text sample_record) = 39"
  by code_simp

lemma sample_parser_ready: "ready sample_parser" "rest sample_parser = sample_text"
proof -
  have "plain sample_text" "length sample_text = 46" by (code_simp, code_simp)
  then show "ready sample_parser" "rest sample_parser = sample_text"
    unfolding sample_parser_def by (auto intro: new_str_ready)
qed

section \<open>Records: writing and parsing\<close>

text \<open>
  C19. Writing a record to a string and parsing the string back gives the record: the write
  succeeds, the text followed by a newline is accepted by \<open>rec_parse_record_str\<close>, the result is
  well formed and has the same fields and comments in the same order (consecutive comments joined
  into one), and writing the result again produces the same text. The record has to start
  with a field, its names must be field names, and no backslash may end a line of a value.
\<close>

theorem record_write_parse_roundtrip:
  assumes "writable r" and "length (record_text r) < 2 ^ 64 - 1"
  shows "\<exists>w r' w'. rec_write_record r rec_writer_new_str = (True, w)
    \<and> rec_parse_record_str (rec_writer_destroy w @ [NL]) = Some r' \<and> rec_record_wf r'
    \<and> map content (record_data r') = map content (join_comments (record_data r))
    \<and> rec_write_record r' rec_writer_new_str = (True, w') \<and> rec_writer_destroy w' = rec_writer_destroy w"
proof -
  obtain w where w: "rec_write_record r rec_writer_new_str = (True, w)" "rec_writer_destroy w = record_text r"
    using assms(1) by (rule rec_write_record_str_ok)
  obtain r' where r': "rec_parse_record_str (record_text r @ [NL]) = Some r'" "rec_record_wf r'"
    "map content (record_data r') = map content (join_comments (record_data r))" "record_text r' = record_text r"
    using parse_record_str_ok [OF assms] by blast
  obtain w' where "rec_write_record r' rec_writer_new_str = (True, w')" "rec_writer_destroy w' = record_text r'"
    using writable_content [OF assms(1) r'(2,3)] by (rule rec_write_record_str_ok)
  with w r' show ?thesis by auto
qed

theorem record_write_parse_roundtrip_witness:
  "\<exists>w r' w'. rec_write_record sample_record rec_writer_new_str = (True, w)
    \<and> rec_parse_record_str (rec_writer_destroy w @ [NL]) = Some r' \<and> rec_record_wf r'
    \<and> map content (record_data r') = map content (join_comments (record_data sample_record))
    \<and> rec_write_record r' rec_writer_new_str = (True, w') \<and> rec_writer_destroy w' = rec_writer_destroy w"
  by (rule record_write_parse_roundtrip [OF sample_record_writable]) (simp add: sample_record_length)


text \<open>
  A record in a stream, from a file or from memory: when the unread input starts with the
  text of a record, a newline and then an empty line or nothing, \<open>rec_parse_record\<close> returns the
  record, located at the current line, and leaves the parser right behind the empty line, with
  its line and character counters moved on by what it read.
\<close>

lemma record_parse_in_stream:
  assumes "writable r" and "ready p" and "rest p = record_text r @ NL # t" and "after_record t"
  shows "\<exists>r'. rec_parse_record p = (Some r', fin t (record_text r @ NL # end_text t) p)
    \<and> map content (record_data r') = map content (join_comments (record_data r))
    \<and> record_location r' = parser_line p
    \<and> rest (fin t (record_text r @ NL # end_text t) p) = drop 1 t"
proof -
  have "rest (adv (record_text r @ NL # end_text t) p) = drop 1 t"
    using assms(3) by (intro rest_adv) (simp add: end_text_def)
  then have "rest (fin t (record_text r @ NL # end_text t) p) = drop 1 t"
    by (cases "t = []") (simp_all add: fin_def)
  with write_parse_record [OF assms] show ?thesis by blast
qed

text \<open>
  C20. Whatever the input, a record that \<open>rec_parse_record\<close> returns is well formed: the multi-set
  invariant holds with exact per-type counts, every element has the type of its data, and
  every string in it is a C string.
\<close>

theorem parsed_record_wf:
  assumes "rec_parse_record p = (Some r, p')"
  shows "rec_record_wf r \<and> mset_wf (record_mset r)"
  using rec_parse_record_wf [OF assms] by (simp add: rec_record_wf_def record_mset_ok_wf(1))

theorem parsed_record_wf_witness:
  "\<exists>r p'. rec_parse_record sample_parser = (Some r, p') \<and> rec_record_wf r \<and> mset_wf (record_mset r)"
proof -
  have "fst (rec_parse_record sample_parser) \<noteq> None" by code_simp
  then obtain r p' where r: "rec_parse_record sample_parser = (Some r, p')" by (metis not_None_eq prod.collapse)
  with parsed_record_wf [OF r] show ?thesis by blast
qed

text \<open>
  C21. Locations are exact: on an input without the byte 0xFF, a parser whose counters agree with
  its position keeps them so through \<open>rec_parse_record\<close>, and the record it returns carries the
  number of the line on which it starts.
\<close>

theorem parsed_record_located:
  assumes "parser_synced p" and "CHR 0xFF \<notin> set (parser_input p)" and "rec_parse_record p = (Some r, p')"
  shows "parser_synced p' \<and> parser_pos p < parser_pos p'
    \<and> record_location r = 1 + of_nat (count_list (take (parser_pos p) (parser_input p)) NL)"
  using parse_record_located [OF assms] .

theorem parsed_record_located_witness:
  "\<exists>r p'. rec_parse_record sample_parser = (Some r, p') \<and> parser_synced p' \<and> parser_pos sample_parser < parser_pos p'
    \<and> record_location r = 1 + of_nat (count_list (take (parser_pos sample_parser) (parser_input sample_parser)) NL)"
proof -
  have "fst (rec_parse_record sample_parser) \<noteq> None" by code_simp
  then obtain r p' where r: "rec_parse_record sample_parser = (Some r, p')" by (metis not_None_eq prod.collapse)
  have "parser_synced sample_parser" "CHR 0xFF \<notin> set (parser_input sample_parser)" by (code_simp, code_simp)
  from parsed_record_located [OF this r] r show ?thesis by blast
qed

text \<open>
  C22. \<open>rec_write_record\<close> in the normal mode appends exactly the rec format of the record to the
  writer's stream or buffer, succeeds, and leaves the mode flags alone.
\<close>

theorem writer_record_text:
  assumes "rec_record_wf r" and "record_plain r" and "writer_ok w"
    and "writer_mode w = REC_WRITER_NORMAL" and "\<not> writer_skip_comments_p w"
  shows "\<exists>w'. rec_write_record r w = (True, w') \<and> rec_writer_destroy w' = rec_writer_destroy w @ record_text r
    \<and> writer_ok w' \<and> writer_mode w' = REC_WRITER_NORMAL"
proof -
  let ?fl = "(REC_WRITER_NORMAL, False, writer_collapse_p w)"
  have "outputs ?fl (rec_write_record r) (record_text r)" using assms(1,2) by (rule rec_write_record_outputs [OF _ _ refl])
  moreover have "wflags w = ?fl" using assms(4,5) by (simp add: wflags_def)
  ultimately obtain w' where "rec_write_record r w = (True, w')" "rec_writer_destroy w' = rec_writer_destroy w @ record_text r"
    "writer_ok w'" "wflags w' = ?fl" using assms(3) by (metis outputsE)
  then show ?thesis by (simp add: wflags_def)
qed

theorem writer_record_text_witness:
  "\<exists>w'. rec_write_record sample_record rec_writer_new = (True, w')
    \<and> rec_writer_destroy w' = rec_writer_destroy rec_writer_new @ record_text sample_record
    \<and> writer_ok w' \<and> writer_mode w' = REC_WRITER_NORMAL"
  by (rule writer_record_text [OF sample_record_wf writable_plain [OF sample_record_writable]])
     (simp_all add: rec_writer_new_def rec_writer_new_common_def writer_ok_def)

text \<open>
  C23. \<open>rec_parse_field_name_str\<close> accepts, of all C strings, exactly the field names
  \<open>[a-zA-Z%][a-zA-Z0-9_]*\<close>, alone, followed by a colon, or followed by a colon and a byte \<open>0xFF\<close> with
  anything behind it: the parser in memory takes that byte for the end of the string. It returns the
  name without what follows.
\<close>

theorem field_name_str_syntax:
  assumes "cstring s" and "length s < 2 ^ 64 - 1"
  shows "rec_parse_field_name_str s = Some n \<longleftrightarrow>
    valid_fname n \<and> (s = n \<or> s = n @ '':'' \<or> (\<exists>t. s = n @ CHR '':'' # CHR 0xFF # t))"
  using rec_parse_field_name_str_iff [OF assms] by (simp add: spells_name_def)

theorem field_name_str_syntax_witness:
  "rec_parse_field_name_str ''%rec:'' = Some ''%rec'' \<and> rec_parse_field_name_str (''abc:'' @ [CHR 0xFF] @ '' x'') = Some ''abc''
   \<and> rec_parse_field_name_str (''abc'' @ [CHR 0xFF]) \<noteq> Some ''abc''"
  using field_name_str_syntax [of "''%rec:''" "''%rec''"] field_name_str_syntax [of "''abc:'' @ [CHR 0xFF] @ '' x''" "''abc''"]
    field_name_str_syntax [of "''abc'' @ [CHR 0xFF]" "''abc''"]
  by (simp add: fname_char_def rec_parser_letter_p_def schar_def)

section \<open>The multi-set\<close>

text \<open>
  C24. The multi-set is an ordered sequence of typed elements: \<open>rec_mset_insert_at\<close> puts the new pair
  at the position (at the end when the position is past it), \<open>rec_mset_remove_elem\<close> removes
  one element, both keep the invariant, and the per-type counts are the numbers of
  elements of each type. The laws are those of the interface \<open>typed_sequence\<close>.
\<close>

theorem mset_implements_sequence:
  fixes m :: "'d rec_mset" and d :: 'd and p :: nat
  assumes "mset_wf m" and "rec_mset_type_p m t" and "0 < t"
  defines "m' \<equiv> snd (rec_mset_insert_at m t d p)"
  shows "mset_wf m' \<and> mset_seq m' = take p (mset_seq m) @ (t, d) # drop p (mset_seq m)
    \<and> mset_wf (snd (rec_mset_remove_elem m' i))
    \<and> mset_seq (snd (rec_mset_remove_elem m' i)) = take i (mset_seq m') @ drop (Suc i) (mset_seq m')
    \<and> rec_mset_count m' 0 = length (mset_seq m')
    \<and> rec_mset_count m' t = length (filter (\<lambda>x. fst x = t) (mset_seq m'))"
proof -
  have wf: "mset_wf m'" unfolding m'_def using assms(1,2) by (rule cmset.invar_insert)
  moreover have "rec_mset_type_p m' t" unfolding m'_def using assms(2) by (simp only: cmset.type_ok_insert)
  ultimately show ?thesis
    using cmset.seq_insert [OF assms(1,2), of d p] cmset.invar_remove [OF wf] cmset.seq_remove [OF wf]
      cmset.count_any [OF wf] cmset.count_type [OF wf] assms(3)
    by (simp add: m'_def)
qed

theorem mset_implements_sequence_witness:
  "let m = record_mset sample_record; m' = snd (rec_mset_insert_at m 2 (DComment ''c'') 1) in
   mset_wf m' \<and> mset_seq m' = take 1 (mset_seq m) @ (2, DComment ''c'') # drop 1 (mset_seq m)
    \<and> mset_wf (snd (rec_mset_remove_elem m' 0))
    \<and> mset_seq (snd (rec_mset_remove_elem m' 0)) = take 0 (mset_seq m') @ drop (Suc 0) (mset_seq m')
    \<and> rec_mset_count m' 0 = length (mset_seq m')
    \<and> rec_mset_count m' 2 = length (filter (\<lambda>x. fst x = 2) (mset_seq m'))"
proof -
  have wf: "mset_wf (record_mset sample_record)" and t: "rec_mset_type_p (record_mset sample_record) 2"
    using sample_record_wf by (auto simp: rec_record_wf_def rec_mset_type_p_def dest: record_mset_ok_wf)
  show ?thesis unfolding Let_def by (rule mset_implements_sequence [OF wf t]) simp
qed

text \<open>
  Looking up by type and position: after an append, the new datum is found at the position
  that was the count of its type, and every earlier lookup of any type gives what it gave before.
\<close>

lemma mset_append_get_at:
  fixes m :: "'d rec_mset" and d :: 'd
  assumes "mset_wf m" and "0 < t" and "t < mset_ntypes m"
  defines "m' \<equiv> snd (rec_mset_append m t d MSET_ANY)"
  shows "rec_mset_get_at m' t (rec_mset_count m t) = Some d
    \<and> (\<forall>u < MAX_NTYPES. \<forall>p < rec_mset_count m u. rec_mset_get_at m' u p = rec_mset_get_at m u p)"
proof -
  have wf': "mset_wf m'" and es: "mset_elems m' = mset_elems m @ [\<lparr>elem_type = t, elem_data = d\<rparr>]"
    unfolding m'_def using rec_mset_append_eq [OF assms(1,3)] by simp_all
  have t: "t < MAX_NTYPES" using assms(1,3) by (simp add: mset_wf_def)
  have data: "rec_mset_data u m' = rec_mset_data u m @ (if u = 0 \<or> u = t then [d] else [])" for u
    by (auto simp: rec_mset_data_def es)
  have cnt: "rec_mset_count m u = length (rec_mset_data u m)" if "u < MAX_NTYPES" for u
    using mset_wf_count [OF assms(1) that] by (simp add: rec_mset_count_def rec_mset_data_def count_type_def)
  show ?thesis
    using rec_mset_get_at_eq [OF wf'] rec_mset_get_at_eq [OF assms(1)] t
    by (simp add: data cnt nth_append)
qed

text \<open>
  Iterating with \<open>rec_mset_iterator_next\<close> from a fresh iterator visits exactly the elements of
  the requested type, in order, each with its position.
\<close>

lemma mset_iteration_complete:
  "iterate_from m t (rec_mset_iterator m) = rec_mset_items t m
   \<and> map snd (rec_mset_items t m) = rec_mset_data t m"
  using iterate_from_items [of 0 m t] by (simp add: rec_mset_iterator_def rec_mset_items_from rec_mset_items_data [unfolded rec_mset_items_from])

text \<open>
  C25. \<open>rec_mset_sort\<close> keeps the elements but not the invariant: it adds every element again without
  resetting the statistics, so after sorting every count is twice the number of elements.
  \<open>gl_sortedlist_nx_add\<close> is only assumed to add its element.
\<close>

theorem mset_sort_doubles_counts:
  assumes "sorted_add_adds sadd" and "mset_wf m" and "mset_elems m \<noteq> []"
  shows "\<exists>m'. rec_mset_sort sadd env m = Some m' \<and> mset (mset_elems m') = mset (mset_elems m)
    \<and> (\<forall>t < MAX_NTYPES. rec_mset_count m' t = 2 * rec_mset_count m t) \<and> \<not> mset_wf m'"
proof -
  obtain m' where m': "rec_mset_sort sadd env m = Some m'" "mset (mset_elems m') = mset (mset_elems m)"
    "\<forall>t < MAX_NTYPES. mset_count m' ! t = 2 * count_type (mset_elems m') t"
    using rec_mset_sort_Some [OF assms(1,2)] by blast
  have "mset_count m' ! 0 = 2 * length (mset_elems m)"
    using m'(3) count_type_mset [OF m'(2)] by (simp add: MAX_NTYPES_def)
  then have "\<not> mset_wf m'"
    using assms(3) mset_wf_count [of m' 0] mset_eq_length [OF m'(2)] by (auto simp: MAX_NTYPES_def)
  with m' mset_wf_count [OF assms(2)] count_type_mset [OF m'(2)] show ?thesis by (auto simp: rec_mset_count_def)
qed

theorem mset_sort_doubles_counts_witness:
  "\<exists>m'. rec_mset_sort (\<lambda>cmp e es. e # es) record_env (record_mset sample_record) = Some m'
    \<and> mset (mset_elems m') = mset (mset_elems (record_mset sample_record))
    \<and> (\<forall>t < MAX_NTYPES. rec_mset_count m' t = 2 * rec_mset_count (record_mset sample_record) t) \<and> \<not> mset_wf m'"
proof (rule mset_sort_doubles_counts)
  show "mset_wf (record_mset sample_record)"
    using sample_record_wf by (auto simp: rec_record_wf_def dest: record_mset_ok_wf)
  show "mset_elems (record_mset sample_record) \<noteq> []" using sample_record_data by (auto simp: record_data_def)
qed (simp add: sorted_add_adds_def)

section \<open>Records as containers\<close>

text \<open>
  \<open>rec_record_dup\<close> makes an equal record: the multi-set with its types, callbacks and counts,
  the fields with their marks and locations, and the localisation of the record.
\<close>

lemma record_dup_identity:
  assumes "rec_record_wf r"
  shows "rec_record_dup r = Some r"
  using assms by (rule rec_record_dup_id)

text \<open>
  C26. \<open>rec_record_uniq\<close> leaves each pair of name and value once (the first of its occurrences), keeps
  the order of the others, and keeps the invariant.
\<close>

theorem record_uniq_removes_duplicates:
  assumes "rec_record_wf r"
  shows "map (field_key \<circ> snd) (rec_record_fields (rec_record_uniq r)) =
      rev (remdups (rev (map (field_key \<circ> snd) (rec_record_fields r))))
    \<and> rec_record_wf (rec_record_uniq r)"
  using rec_record_uniq_keys [OF assms] by blast

theorem record_uniq_removes_duplicates_witness:
  "map (field_key \<circ> snd) (rec_record_fields (rec_record_uniq sample_record)) =
      rev (remdups (rev (map (field_key \<circ> snd) (rec_record_fields sample_record))))
    \<and> rec_record_wf (rec_record_uniq sample_record)"
  by (rule record_uniq_removes_duplicates [OF sample_record_wf])

text \<open>
  \<open>rec_record_remove_field_by_name\<close> with \<open>-1\<close> removes every field of the name and nothing else,
  and keeps the invariant for any index.
\<close>

lemma record_remove_all_by_name:
  assumes "rec_record_wf r"
  shows "map snd (rec_record_fields (rec_record_remove_field_by_name r n (- 1))) =
      filter (\<lambda>f. field_name f \<noteq> n) (map snd (rec_record_fields r))
    \<and> \<not> rec_record_field_p (rec_record_remove_field_by_name r n (- 1)) n
    \<and> rec_record_wf (rec_record_remove_field_by_name r n k)"
proof -
  let ?r = "rec_record_remove_field_by_name r n (- 1)"
  have f: "map snd (rec_record_fields ?r) = filter (\<lambda>f. field_name f \<noteq> n) (map snd (rec_record_fields r))"
    using assms by (rule rec_record_remove_all_fields)
  have "rec_record_get_num_fields_by_name ?r n = length (filter (\<lambda>f. field_name f = n) (map snd (rec_record_fields ?r)))"
    by (simp add: rec_record_get_num_fields_by_name_eq rec_record_fields_elems)
  with f have "\<not> rec_record_field_p ?r n" by (simp add: rec_record_field_p_def)
  with f rec_record_remove_field_by_name_wf [OF assms] show ?thesis by blast
qed

text \<open>
  \<open>rec_record_subset_p\<close> and \<open>rec_record_equal_p\<close> never relate two different non-empty records,
  whatever they contain: elements of different multi-sets always compare as different.
\<close>

lemma record_subset_never_other:
  "(rec_record_subset_p False r1 r2 \<longleftrightarrow> mset_elems (record_mset r1) = [])
   \<and> (rec_record_equal_p False r1 r2 \<longleftrightarrow> mset_elems (record_mset r1) = [] \<and> mset_elems (record_mset r2) = [])"
  by (simp add: rec_record_equal_p_def rec_record_subset_p_other)

text \<open>
  \<open>rec_buf_puts\<close> appends the string to the buffer, and rewinding by its length restores the
  contents; the storage invariant holds throughout.
\<close>

lemma buf_puts_rewind:
  assumes "rec_buf_wf b" and "plain s" and "length (rec_buf_close b) + length s < 2 ^ 64"
  defines "b' \<equiv> snd (rec_buf_puts s b)"
  shows "rec_buf_wf b' \<and> rec_buf_close b' = rec_buf_close b @ s
    \<and> rec_buf_wf (rec_buf_rewind b' (length s)) \<and> rec_buf_close (rec_buf_rewind b' (length s)) = rec_buf_close b"
proof -
  have b': "rec_buf_wf b'" "rec_buf_close b' = rec_buf_close b @ s"
    unfolding b'_def using rec_buf_puts_contents [OF assms(1)] plain_cstring [OF assms(2)] by simp_all
  then show ?thesis
    using cbuf.invar_rewind [OF b'(1), of "length s"] cbuf.contents_rewind [OF b'(1), of "length s"] assms(3) by simp
qed

end
